(* ===== verification/Prelude.thy ===== *)
theory Prelude
  imports Main "HOL-Library.Word" "HOL-Library.Monad_Syntax"
begin

text \<open>
  Shared vocabulary of the development: the C scalar types and error codes the sources use,
  C strings, byte memory with uninitialised cells, and the generic lemmas on lists, masks and
  powers of two that the component theories rely on.

  Conventions.  \<open>size_t\<close> is \<open>nat\<close> with \<open>SIZE_MAX = 2 ^ 64 - 1\<close>; every place where the
  source can wrap is written with \<open>wrap64\<close>.  A return code is an \<open>int\<close> (0 for success, a
  negated \<open>errno\<close> otherwise).  A computation of type \<open>'a option\<close> whose \<open>None\<close> is documented as
  \<^emph>\<open>undefined behaviour\<close> is an access outside an object or through a null pointer.
\<close>

unbundle bit_operations_syntax

section \<open>Scalars and error codes\<close>

type_synonym size_t = nat
type_synonym rc = int
type_synonym cell = "char option"
type_synonym cstring = string

definition SIZE_MAX :: size_t where
  "SIZE_MAX = 2 ^ 64 - 1"

definition PTRDIFF_MAX :: size_t where
  "PTRDIFF_MAX = 2 ^ 63 - 1"

definition wrap64 :: "nat \<Rightarrow> size_t" where
  "wrap64 n = n mod 2 ^ 64"

abbreviation (input) ENOENT :: int where "ENOENT \<equiv> 2"
abbreviation (input) ENOMEM :: int where "ENOMEM \<equiv> 12"
abbreviation (input) EEXIST :: int where "EEXIST \<equiv> 17"
abbreviation (input) EINVAL :: int where "EINVAL \<equiv> 22"
abbreviation (input) EFBIG :: int where "EFBIG \<equiv> 27"
abbreviation (input) ENOSPC :: int where "ENOSPC \<equiv> 28"
abbreviation (input) ENAMETOOLONG :: int where "ENAMETOOLONG \<equiv> 36"
abbreviation (input) ELOOP :: int where "ELOOP \<equiv> 40"
abbreviation (input) EOVERFLOW :: int where "EOVERFLOW \<equiv> 75"

abbreviation NUL :: char where "NUL \<equiv> CHR 0x00"
abbreviation LF :: char where "LF \<equiv> CHR 0x0A"
abbreviation CR :: char where "CR \<equiv> CHR 0x0D"
abbreviation TAB :: char where "TAB \<equiv> CHR 0x09"

text \<open>
  \<open>cstr bs\<close> is what a C string function sees of the bytes \<open>bs\<close>: everything before the first
  NUL.  \<open>strncpy_fixed n s\<close> is the string held by a zeroed array of \<open>n\<close> bytes after
  \<open>strncpy(dst, s, n - 1)\<close>.
\<close>

definition cstr :: "char list \<Rightarrow> cstring" where
  "cstr bs = takeWhile (\<lambda>c. c \<noteq> NUL) bs"

definition strncpy_fixed :: "nat \<Rightarrow> cstring \<Rightarrow> cstring" where
  "strncpy_fixed n s = take (n - 1) s"

text \<open>\<open>%d\<close>.\<close>

fun show_nat :: "nat \<Rightarrow> string" where
  "show_nat n = (if n < 10 then [char_of (48 + n)] else show_nat (n div 10) @ [char_of (48 + n mod 10)])"

definition show_int :: "int \<Rightarrow> string" where
  "show_int i = (if i < 0 then ''-'' @ show_nat (nat (- i)) else show_nat (nat i))"

section \<open>Byte memory\<close>

text \<open>
  A block of \<open>n\<close> bytes is a list of \<open>n\<close> cells; \<open>None\<close> is a byte that was never written.
  \<open>mem_write\<close> is \<open>memcpy\<close> into a block: out of range it is undefined behaviour (\<open>None\<close>).
\<close>

definition mem_alloc :: "nat \<Rightarrow> cell list" where
  "mem_alloc n = replicate n None"

definition mem_zeroed :: "nat \<Rightarrow> cell list" where
  "mem_zeroed n = replicate n (Some NUL)"

definition mem_realloc :: "cell list \<Rightarrow> nat \<Rightarrow> cell list" where
  "mem_realloc d n = take n d @ replicate (n - length d) None"

definition mem_write :: "cell list \<Rightarrow> nat \<Rightarrow> char list \<Rightarrow> cell list option" where
  "mem_write d off bs =
     (if off + length bs \<le> length d
      then Some (take off d @ map Some bs @ drop (off + length bs) d) else None)"

lemma length_mem_alloc [simp]: "length (mem_alloc n) = n"
  by (simp add: mem_alloc_def)

lemma length_mem_zeroed [simp]: "length (mem_zeroed n) = n"
  by (simp add: mem_zeroed_def)

lemma length_mem_realloc [simp]: "length (mem_realloc d n) = n"
  by (simp add: mem_realloc_def)

lemma take_mem_realloc [simp]: "k \<le> n \<Longrightarrow> k \<le> length d \<Longrightarrow> take k (mem_realloc d n) = take k d"
  by (simp add: mem_realloc_def min_def)

lemma mem_write_length: "mem_write d off bs = Some d' \<Longrightarrow> length d' = length d"
  by (auto simp: mem_write_def split: if_splits)

lemma mem_write_take_before:
  "mem_write d off bs = Some d' \<Longrightarrow> k \<le> off \<Longrightarrow> take k d' = take k d"
  by (auto simp: mem_write_def min_def split: if_splits)

lemma mem_write_take_through:
  "mem_write d off bs = Some d' \<Longrightarrow> take (off + length bs) d' = take off d @ map Some bs"
  by (auto simp: mem_write_def split: if_splits)

lemma mem_write_nth_single:
  "mem_write d off [c] = Some d' \<Longrightarrow> d' ! off = Some c"
  by (auto simp: mem_write_def nth_append split: if_splits)

section \<open>C strings\<close>

lemma cstr_id: "NUL \<notin> set s \<Longrightarrow> cstr s = s"
  unfolding cstr_def by (rule takeWhile_eq_all_conv [THEN iffD2]) auto

lemma NUL_notin_cstr [simp]: "NUL \<notin> set (cstr bs)"
  by (auto simp: cstr_def dest: set_takeWhileD)

lemma strncpy_fixed_id: "length s < n \<Longrightarrow> strncpy_fixed n s = s"
  by (simp add: strncpy_fixed_def)

section \<open>Counting and lists\<close>

lemma count_filter_update:
  assumes "i < length xs"
  shows "length (filter P (xs[i := y])) + (if P (xs ! i) then 1 else 0)
       = length (filter P xs) + (if P y then 1 else 0)"
proof -
  have xs: "xs = take i xs @ xs ! i # drop (Suc i) xs"
    using assms by (simp add: id_take_nth_drop)
  have "length (filter P xs) = length (filter P (take i xs @ xs ! i # drop (Suc i) xs))"
    using xs by simp
  then show ?thesis
    using assms by (simp add: upd_conv_take_nth_drop)
qed

lemma count_filter_lt_ex:
  assumes "length (filter P xs) < length xs"
  shows "\<exists>i < length xs. \<not> P (xs ! i)"
proof (rule ccontr)
  assume "\<not> ?thesis"
  then have "filter P xs = xs" by (auto simp: filter_id_conv in_set_conv_nth)
  with assms show False by simp
qed

lemma drop_nth_Cons: "i < length xs \<Longrightarrow> drop i xs = xs ! i # drop (Suc i) xs"
  by (simp add: Cons_nth_drop_Suc)

lemma distinct_map_filter_nth:
  "(\<And>i j. i < length xs \<Longrightarrow> j < length xs \<Longrightarrow> P (xs ! i) \<Longrightarrow> P (xs ! j) \<Longrightarrow> f (xs ! i) = f (xs ! j) \<Longrightarrow> i = j)
   \<Longrightarrow> distinct (map f (filter P xs))"
proof (induction xs)
  case (Cons x xs)
  have "distinct (map f (filter P xs))"
    using Cons.prems [of "Suc _" "Suc _"] by (intro Cons.IH) fastforce
  moreover have "f x \<noteq> f (xs ! j)" if "P x" "j < length xs" "P (xs ! j)" for j
    using Cons.prems [of 0 "Suc j"] that by auto
  ultimately show ?case by (auto simp: in_set_conv_nth)
qed simp

lemma map_eqI:
  assumes "\<And>k v. f k = Some v \<longleftrightarrow> g k = Some v"
  shows "f = g"
proof (rule ext)
  show "f k = g k" for k
    using assms [of k] by (metis not_None_eq)
qed

section \<open>Wrap-around and masks\<close>

lemma wrap64_id [simp]: "n \<le> SIZE_MAX \<Longrightarrow> wrap64 n = n"
  by (simp add: wrap64_def SIZE_MAX_def)

lemma wrap64_le [simp]: "wrap64 n \<le> SIZE_MAX"
proof -
  have "n mod 2 ^ 64 < (2 ^ 64 :: nat)" by simp
  then show ?thesis by (simp add: wrap64_def SIZE_MAX_def)
qed

text \<open>Masking with a power of two less one is the remainder: the index computations of the
  open-addressing tables.\<close>

lemma and_pow2_minus_1: "(x :: nat) AND (2 ^ k - 1) = x mod 2 ^ k"
  using take_bit_eq_mask [of k x] by (simp add: mask_eq_exp_minus_1 take_bit_eq_mod)

end
