(* ===== verification/Buf.thy ===== *)
theory Buf
  imports Prelude
begin

text \<open>
  The growable byte buffer \<open>morph_buf_t\<close> of \<open>src/util/buf.c\<close>: its record, every operation of the
  file, the representation invariant \<open>buf_inv\<close>, and the contract of the appending operations (no
  access outside the allocation, contents extended on success and untouched on failure, sticky
  errors).

  The object a function works on is the record itself, so the guards on a null \<open>b\<close> have no
  counterpart; a null \<open>src\<close> does.  Every call that allocates takes the allocator's answer as a
  boolean argument.  The result \<open>None\<close> is undefined behaviour: a write outside the block or
  through a null \<open>data\<close>.
\<close>

section \<open>State\<close>

record morph_buf =
  buf_data :: "cell list option"
  buf_len :: size_t
  buf_cap :: size_t
  buf_heap_alloc :: bool
  buf_failed :: rc
  buf_arena :: bool

definition MORPH_BUF_DEFAULT_CAP :: size_t where
  "MORPH_BUF_DEFAULT_CAP = 4096"

definition MORPH_BUF_MAX_CAP :: size_t where
  "MORPH_BUF_MAX_CAP = SIZE_MAX div 2"

section \<open>Operations\<close>

definition buf_add_size :: "size_t \<Rightarrow> size_t \<Rightarrow> rc + size_t" where
  "buf_add_size a b = (if a > SIZE_MAX - b then Inl (- EOVERFLOW) else Inr (a + b))"

text \<open>A byte stored through \<open>b->data\<close>.\<close>

definition buf_store :: "morph_buf \<Rightarrow> size_t \<Rightarrow> char list \<Rightarrow> morph_buf option" where
  "buf_store b off bs =
     (case buf_data b of
        None \<Rightarrow> None
      | Some d \<Rightarrow> map_option (\<lambda>d'. b\<lparr>buf_data := Some d'\<rparr>) (mem_write d off bs))"

text \<open>The loop of \<open>buf_grow\<close> that picks the new capacity.\<close>

function buf_grow_cap :: "size_t \<Rightarrow> size_t \<Rightarrow> rc + size_t" where
  "buf_grow_cap new_cap needed =
     (if new_cap < needed
      then let nxt = wrap64 (new_cap + new_cap div 2 + 32)
           in if nxt \<le> new_cap then Inl (- EOVERFLOW)
              else if nxt > MORPH_BUF_MAX_CAP then Inr needed
              else buf_grow_cap nxt needed
      else Inr new_cap)"
  by pat_completeness auto
termination
  by (relation "measure (\<lambda>(c, n). n - c)") (auto simp: Let_def)

declare buf_grow_cap.simps [simp del]

definition buf_fail :: "morph_buf \<Rightarrow> rc \<Rightarrow> (rc \<times> morph_buf) option" where
  "buf_fail b e = Some (e, b\<lparr>buf_failed := e\<rparr>)"

definition buf_grow :: "bool \<Rightarrow> morph_buf \<Rightarrow> size_t \<Rightarrow> (rc \<times> morph_buf) option" where
  "buf_grow ok b needed =
     (if buf_failed b \<noteq> 0 then Some (buf_failed b, b)
      else if needed \<le> buf_cap b then Some (0, b)
      else if needed > MORPH_BUF_MAX_CAP then buf_fail b (- EFBIG)
      else case buf_grow_cap (if buf_cap b \<noteq> 0 then buf_cap b else MORPH_BUF_DEFAULT_CAP) needed of
        Inl e \<Rightarrow> buf_fail b e
      | Inr new_cap \<Rightarrow>
         (if new_cap > MORPH_BUF_MAX_CAP then buf_fail b (- EFBIG)
          else if (buf_heap_alloc b \<or> buf_arena b) \<and> ok then
            do {
              d \<leftarrow> (if buf_heap_alloc b
                   then Some (mem_realloc (case buf_data b of None \<Rightarrow> [] | Some d \<Rightarrow> d) new_cap)
                   else (case buf_data b of
                           None \<Rightarrow> None
                         | Some d \<Rightarrow>
                             if buf_len b \<le> length d \<and> buf_len b \<le> new_cap
                             then Some (take (buf_len b) d @ mem_zeroed (new_cap - buf_len b))
                             else None));
              let b = b\<lparr>buf_data := Some d, buf_cap := new_cap\<rparr>;
              case buf_add_size (buf_len b) 1 of
                Inl e \<Rightarrow> buf_fail b e
              | Inr n \<Rightarrow>
                  if n \<le> buf_cap b then do { b \<leftarrow> buf_store b (buf_len b) [NUL]; Some (0, b) }
                  else Some (0, b)
            }
          else buf_fail b (- ENOMEM)))"

definition morph_buf_init :: "bool \<Rightarrow> size_t \<Rightarrow> (rc + morph_buf) option" where
  "morph_buf_init ok init_cap =
     (let cap = (if init_cap = 0 then MORPH_BUF_DEFAULT_CAP else init_cap)
      in if cap > MORPH_BUF_MAX_CAP then Some (Inl (- EFBIG))
         else if \<not> ok then Some (Inl (- ENOMEM))
         else do {
           b \<leftarrow> buf_store \<lparr>buf_data = Some (mem_alloc cap), buf_len = 0, buf_cap = cap,
                  buf_heap_alloc = True, buf_failed = 0, buf_arena = False\<rparr> 0 [NUL];
           Some (Inr b)
         })"


definition morph_buf_cleanup :: "morph_buf \<Rightarrow> morph_buf" where
  "morph_buf_cleanup b = \<lparr>buf_data = None, buf_len = 0, buf_cap = 0,
     buf_heap_alloc = False, buf_failed = 0, buf_arena = False\<rparr>"


definition morph_buf_append ::
    "bool \<Rightarrow> morph_buf \<Rightarrow> char list option \<Rightarrow> size_t \<Rightarrow> (rc \<times> morph_buf) option" where
  "morph_buf_append ok b src n =
     (if src = None \<and> n > 0 then Some (- EINVAL, b)
      else if buf_failed b \<noteq> 0 then Some (buf_failed b, b)
      else if n = 0 then Some (0, b)
      else case buf_add_size (buf_len b) n of
        Inl e \<Rightarrow> buf_fail b e
      | Inr needed \<Rightarrow>
         (case buf_add_size needed 1 of
            Inl e \<Rightarrow> buf_fail b e
          | Inr needed \<Rightarrow>
             do {
               (rc, b) \<leftarrow> buf_grow ok b needed;
               if rc \<noteq> 0 then Some (rc, b)
               else do {
                 b \<leftarrow> (if n \<le> length (the src) then buf_store b (buf_len b) (take n (the src))
                      else None);
                 let b = b\<lparr>buf_len := buf_len b + n\<rparr>;
                 b \<leftarrow> buf_store b (buf_len b) [NUL];
                 Some (0, b)
               }
             }))"

definition morph_buf_puts :: "bool \<Rightarrow> morph_buf \<Rightarrow> cstring option \<Rightarrow> (rc \<times> morph_buf) option" where
  "morph_buf_puts ok b s =
     (case s of None \<Rightarrow> Some (0, b) | Some t \<Rightarrow> morph_buf_append ok b (Some t) (length t))"



definition morph_buf_str :: "morph_buf \<Rightarrow> cell list option" where
  "morph_buf_str b = map_option (take (buf_len b)) (buf_data b)"


definition morph_buf_detach :: "morph_buf \<Rightarrow> (cell list option \<times> morph_buf) option" where
  "morph_buf_detach b =
     (if buf_failed b \<noteq> 0 then Some (None, morph_buf_cleanup b)
      else if \<not> buf_heap_alloc b then Some (None, b)
      else do {
        b \<leftarrow> (if buf_data b \<noteq> None \<and> buf_len b < buf_cap b
             then buf_store b (buf_len b) [NUL] else Some b);
        Some (buf_data b,
          b\<lparr>buf_data := None, buf_len := 0, buf_cap := 0, buf_heap_alloc := False,
            buf_arena := False\<rparr>)
      })"



definition morph_buf_append_cb ::
    "bool \<Rightarrow> cstring option \<Rightarrow> morph_buf \<Rightarrow> (rc \<times> morph_buf) option" where
  "morph_buf_append_cb ok token b =
     (if token = None then Some (0, b) else morph_buf_puts ok b token)"

section \<open>Invariant and contents\<close>

text \<open>
  An owned block holds \<open>len\<close> written bytes, then a NUL inside the capacity; a buffer without a
  block is empty and has no way to grow.
\<close>

definition buf_inv :: "morph_buf \<Rightarrow> bool" where
  "buf_inv b \<longleftrightarrow>
     (case buf_data b of
        None \<Rightarrow> buf_len b = 0 \<and> buf_cap b = 0 \<and> \<not> buf_heap_alloc b \<and> \<not> buf_arena b
      | Some d \<Rightarrow> length d = buf_cap b \<and> buf_cap b \<le> MORPH_BUF_MAX_CAP \<and> buf_len b < buf_cap b
          \<and> None \<notin> set (take (buf_len b) d) \<and> d ! buf_len b = Some NUL)"

definition buf_contents :: "morph_buf \<Rightarrow> char list" where
  "buf_contents b =
     (case buf_data b of None \<Rightarrow> [] | Some d \<Rightarrow> map the (take (buf_len b) d))"

definition buf_growable :: "morph_buf \<Rightarrow> bool" where
  "buf_growable b \<longleftrightarrow> buf_heap_alloc b \<or> buf_arena b"

section \<open>Clients as sequences of calls\<close>







lemma SIZE_MAX_MAX_CAP: "MORPH_BUF_MAX_CAP \<le> SIZE_MAX" "MORPH_BUF_MAX_CAP < SIZE_MAX"
  by (simp_all add: MORPH_BUF_MAX_CAP_def SIZE_MAX_def)

lemma DEFAULT_CAP_bounds: "MORPH_BUF_DEFAULT_CAP \<le> MORPH_BUF_MAX_CAP" "0 < MORPH_BUF_DEFAULT_CAP"
  by (simp_all add: MORPH_BUF_MAX_CAP_def SIZE_MAX_def MORPH_BUF_DEFAULT_CAP_def)

section \<open>Growth\<close>

text \<open>Below the maximal capacity the growth step does not wrap, so the loop's overflow exit is
  dead code.\<close>

lemma grow_step_no_wrap:
  assumes "c \<le> MORPH_BUF_MAX_CAP"
  shows "wrap64 (c + c div 2 + 32) = c + c div 2 + 32"
  using assms by (intro wrap64_id) (simp add: MORPH_BUF_MAX_CAP_def SIZE_MAX_def)

lemma buf_grow_cap_ok:
  "c \<le> MORPH_BUF_MAX_CAP \<Longrightarrow> needed \<le> MORPH_BUF_MAX_CAP \<Longrightarrow>
   \<exists>r. buf_grow_cap c needed = Inr r \<and> c \<le> r \<and> needed \<le> r \<and> r \<le> MORPH_BUF_MAX_CAP"
proof (induction c needed rule: buf_grow_cap.induct)
  case (1 c needed)
  let ?n = "c + c div 2 + 32"
  have w: "wrap64 ?n = ?n" using "1.prems"(1) by (rule grow_step_no_wrap)
  show ?case
  proof (cases "c < needed \<and> ?n \<le> MORPH_BUF_MAX_CAP")
    case True
    then obtain r where "buf_grow_cap ?n needed = Inr r" "?n \<le> r" "needed \<le> r"
        "r \<le> MORPH_BUF_MAX_CAP"
      using "1.IH" [OF _ refl] "1.prems" by (auto simp: w)
    then show ?thesis
      using True by (subst buf_grow_cap.simps) (simp add: Let_def w)
  next
    case False
    then show ?thesis
      using "1.prems" by (subst buf_grow_cap.simps) (auto simp: Let_def w)
  qed
qed

lemma buf_contents_update_simps [simp]:
  "buf_contents (b\<lparr>buf_failed := e\<rparr>) = buf_contents b"
  "buf_inv (b\<lparr>buf_failed := e\<rparr>) = buf_inv b"
  "buf_growable (b\<lparr>buf_failed := e\<rparr>) = buf_growable b"
  by (simp_all add: buf_contents_def buf_inv_def buf_growable_def split: option.split)

lemma buf_grow_spec:
  assumes inv: "buf_inv b"
  shows "\<exists>r b'. buf_grow ok b needed = Some (r, b') \<and> buf_inv b' \<and>
      buf_contents b' = buf_contents b \<and> buf_len b' = buf_len b \<and>
      buf_failed b' = r \<and> (r = 0 \<longrightarrow> needed \<le> buf_cap b') \<and>
      buf_growable b' = buf_growable b \<and>
      (r = 0 \<longleftrightarrow> buf_failed b = 0 \<and>
         (needed \<le> buf_cap b \<or> needed \<le> MORPH_BUF_MAX_CAP \<and> buf_growable b \<and> ok))"
proof (cases "buf_failed b \<noteq> 0 \<or> needed \<le> buf_cap b \<or> needed > MORPH_BUF_MAX_CAP \<or>
    \<not> buf_growable b \<or> \<not> ok")
  case True
  let ?c = "if buf_cap b \<noteq> 0 then buf_cap b else MORPH_BUF_DEFAULT_CAP"
  consider "buf_failed b \<noteq> 0" | "buf_failed b = 0" "needed \<le> buf_cap b"
    | "buf_failed b = 0" "\<not> needed \<le> buf_cap b" "needed > MORPH_BUF_MAX_CAP"
    | "buf_failed b = 0" "\<not> needed \<le> buf_cap b" "\<not> needed > MORPH_BUF_MAX_CAP" "\<not> buf_growable b \<or> \<not> ok"
    using True by blast
  then show ?thesis
  proof cases
    case 4
    have "?c \<le> MORPH_BUF_MAX_CAP"
      using inv DEFAULT_CAP_bounds by (auto simp: buf_inv_def split: option.splits)
    then obtain r where r: "buf_grow_cap ?c needed = Inr r" "\<not> r > MORPH_BUF_MAX_CAP"
      using buf_grow_cap_ok [of ?c needed] 4 by fastforce
    have "buf_grow ok b needed = buf_fail b (- ENOMEM)"
      unfolding buf_grow_def r(1) using 4 r(2) by (auto simp: buf_growable_def)
    then show ?thesis using 4 inv by (auto simp: buf_fail_def buf_growable_def)
  qed (use inv in \<open>auto simp: buf_grow_def buf_fail_def buf_growable_def buf_inv_def split: option.splits\<close>)
next
  case False
  then obtain d where d: "buf_data b = Some d"
    using inv by (auto simp: buf_inv_def buf_growable_def split: option.splits)
  have i: "length d = buf_cap b" "buf_cap b \<le> MORPH_BUF_MAX_CAP" "buf_len b < buf_cap b"
      "None \<notin> set (take (buf_len b) d)"
    using inv d by (auto simp: buf_inv_def)
  obtain c where c: "buf_grow_cap (buf_cap b) needed = Inr c" "buf_cap b \<le> c" "needed \<le> c"
      "c \<le> MORPH_BUF_MAX_CAP"
    using buf_grow_cap_ok [of "buf_cap b" needed] i False by auto
  have add: "buf_add_size (buf_len b) 1 = Inr (buf_len b + 1)"
    using i SIZE_MAX_MAX_CAP by (simp add: buf_add_size_def)
  define e where "e = (if buf_heap_alloc b then mem_realloc d c
      else take (buf_len b) d @ mem_zeroed (c - buf_len b))"
  have e: "length e = c" "take (buf_len b) e = take (buf_len b) d"
    using i c by (simp_all add: e_def)
  obtain e' where e': "mem_write e (buf_len b) [NUL] = Some e'"
    using e i c by (simp add: mem_write_def)
  have "buf_grow ok b needed = Some (0, b\<lparr>buf_data := Some e', buf_cap := c\<rparr>)"
    using False i c d add e' by (auto simp: buf_grow_def buf_growable_def buf_store_def e_def Let_def)
  moreover have "length e' = c" "take (buf_len b) e' = take (buf_len b) d"
      "e' ! buf_len b = Some NUL"
    using e e' by (auto dest: mem_write_length mem_write_take_before mem_write_nth_single)
  ultimately show ?thesis
    using i c d False by (auto simp: buf_inv_def buf_contents_def buf_growable_def)
qed

section \<open>Appending\<close>

text \<open>What a successful append leaves behind: a write at the end, then a terminator.\<close>

lemma buf_store_append:
  assumes inv: "buf_inv b" and room: "buf_len b + length bs < buf_cap b"
  shows "\<exists>b1 b2. buf_store b (buf_len b) bs = Some b1 \<and> buf_len b1 = buf_len b \<and>
     buf_cap b1 = buf_cap b \<and>
     buf_store (b1\<lparr>buf_len := buf_len b1 + length bs\<rparr>) (buf_len b + length bs) [NUL] = Some b2 \<and>
     buf_inv b2 \<and> buf_contents b2 = buf_contents b @ bs \<and> buf_failed b2 = buf_failed b \<and>
     buf_growable b2 = buf_growable b"
proof -
  obtain d where d: "buf_data b = Some d" using room inv by (auto simp: buf_inv_def split: option.splits)
  have i: "length d = buf_cap b" "buf_cap b \<le> MORPH_BUF_MAX_CAP"
      "None \<notin> set (take (buf_len b) d)"
    using inv d by (auto simp: buf_inv_def)
  obtain d1 where d1: "mem_write d (buf_len b) bs = Some d1"
    using room i by (simp add: mem_write_def)
  have l1: "length d1 = buf_cap b" using mem_write_length [OF d1] i by simp
  have t1: "take (buf_len b + length bs) d1 = take (buf_len b) d @ map Some bs"
    using d1 by (rule mem_write_take_through)
  obtain d2 where d2: "mem_write d1 (buf_len b + length bs) [NUL] = Some d2"
    using room l1 by (simp add: mem_write_def)
  have d2': "length d2 = buf_cap b" "take (buf_len b + length bs) d2 = take (buf_len b) d @ map Some bs"
      "d2 ! (buf_len b + length bs) = Some NUL"
    using mem_write_length [OF d2] mem_write_take_before [OF d2 order_refl]
      mem_write_nth_single [OF d2] l1 t1 by simp_all
  let ?b1 = "b\<lparr>buf_data := Some d1\<rparr>"
  let ?b2 = "b\<lparr>buf_data := Some d2, buf_len := buf_len b + length bs\<rparr>"
  have "buf_store b (buf_len b) bs = Some ?b1" using d d1 by (simp add: buf_store_def)
  moreover have "buf_store (?b1\<lparr>buf_len := buf_len ?b1 + length bs\<rparr>) (buf_len b + length bs) [NUL]
      = Some ?b2"
    using d2 by (simp add: buf_store_def)
  moreover have "buf_inv ?b2" using d2' i room by (auto simp: buf_inv_def)
  moreover have "buf_contents ?b2 = buf_contents b @ bs"
    using d2' d by (simp add: buf_contents_def comp_def)
  ultimately show ?thesis by (auto simp: buf_growable_def)
qed

lemma buf_inv_len: "buf_inv b \<Longrightarrow> buf_len b \<le> MORPH_BUF_MAX_CAP"
  by (auto simp: buf_inv_def split: option.splits)

lemma buf_append_spec:
  assumes inv: "buf_inv b" and n: "n \<le> length s"
  shows "\<exists>r b'. morph_buf_append ok b (Some s) n = Some (r, b') \<and> buf_inv b' \<and>
      buf_contents b' = (if r = 0 then buf_contents b @ take n s else buf_contents b) \<and>
      buf_failed b' = r \<and> buf_growable b' = buf_growable b \<and>
      (buf_failed b = 0 \<and> buf_len b + n + 1 \<le> MORPH_BUF_MAX_CAP \<and> buf_growable b \<and> ok \<longrightarrow> r = 0)"
proof (cases "buf_failed b \<noteq> 0 \<or> n = 0 \<or> buf_len b > SIZE_MAX - n \<or> buf_len b + n > SIZE_MAX - 1")
  case True
  then show ?thesis
    using inv SIZE_MAX_MAX_CAP
    by (auto simp: morph_buf_append_def buf_add_size_def buf_fail_def)
next
  case False
  then have a: "buf_add_size (buf_len b) n = Inr (buf_len b + n)"
      "buf_add_size (buf_len b + n) 1 = Inr (buf_len b + n + 1)"
    by (auto simp: buf_add_size_def)
  obtain r b1 where g: "buf_grow ok b (buf_len b + n + 1) = Some (r, b1)" "buf_inv b1"
      "buf_contents b1 = buf_contents b" "buf_len b1 = buf_len b" "buf_failed b1 = r"
      "r = 0 \<longrightarrow> buf_len b + n + 1 \<le> buf_cap b1" "buf_growable b1 = buf_growable b"
      "r = 0 \<longleftrightarrow> buf_failed b = 0 \<and> (buf_len b + n + 1 \<le> buf_cap b \<or>
         buf_len b + n + 1 \<le> MORPH_BUF_MAX_CAP \<and> buf_growable b \<and> ok)"
    using buf_grow_spec [OF inv, of ok "buf_len b + n + 1"] by blast
  show ?thesis
  proof (cases "r = 0")
    case False
    then show ?thesis
      using g a \<open>\<not> (buf_failed b \<noteq> 0 \<or> _)\<close> by (auto simp: morph_buf_append_def)
  next
    case True
    have lt: "length (take n s) = n" using n by simp
    obtain b2 b3 where "buf_store b1 (buf_len b1) (take n s) = Some b2" "buf_len b2 = buf_len b1"
       "buf_store (b2\<lparr>buf_len := buf_len b2 + n\<rparr>) (buf_len b1 + n) [NUL] = Some b3"
       "buf_inv b3" "buf_contents b3 = buf_contents b1 @ take n s" "buf_failed b3 = buf_failed b1"
       "buf_growable b3 = buf_growable b1"
      using buf_store_append [OF g(2), of "take n s", unfolded lt] g True n by auto
    then show ?thesis
      using g a True n \<open>\<not> (buf_failed b \<noteq> 0 \<or> _)\<close> by (auto simp: morph_buf_append_def Let_def)
  qed
qed


section \<open>The other operations\<close>





lemma buf_terminate:
  assumes inv: "buf_inv b" and d: "buf_data b = Some d"
  shows "buf_store b (buf_len b) [NUL] = Some b"
proof -
  have i: "length d = buf_cap b" "buf_len b < buf_cap b" "d ! buf_len b = Some NUL"
    using assms by (auto simp: buf_inv_def)
  then have "mem_write d (buf_len b) [NUL] = Some d"
    by (simp add: mem_write_def id_take_nth_drop [symmetric])
       (metis id_take_nth_drop)
  then show ?thesis using d by (simp add: buf_store_def)
qed


lemma buf_cleanup_inv [simp]: "buf_inv (morph_buf_cleanup b)" "buf_contents (morph_buf_cleanup b) = []"
  by (simp_all add: buf_inv_def morph_buf_cleanup_def buf_contents_def)

lemma buf_detach_spec:
  assumes inv: "buf_inv b"
  shows "\<exists>p b'. morph_buf_detach b = Some (p, b') \<and> buf_inv b' \<and>
     p = (if buf_failed b = 0 \<and> buf_heap_alloc b then buf_data b else None) \<and>
     (p \<noteq> None \<longrightarrow> buf_contents b' = [])"
  using inv buf_terminate [OF inv]
  by (cases "buf_data b") (auto simp: morph_buf_detach_def morph_buf_cleanup_def buf_inv_def buf_contents_def)

lemma buf_init_spec:
  "\<exists>r. morph_buf_init ok c = Some r \<and> (case r of Inl e \<Rightarrow> e \<noteq> 0
     | Inr b \<Rightarrow> buf_inv b \<and> buf_contents b = [] \<and> buf_failed b = 0 \<and> buf_heap_alloc b)"
  using DEFAULT_CAP_bounds
  by (auto simp: morph_buf_init_def buf_store_def mem_write_def buf_inv_def buf_contents_def
      Let_def Suc_le_eq)


text \<open>Bytes of a well-formed buffer read back as a C string are its contents up to the first NUL
  byte appended by a client.\<close>

lemma buf_block_cstr:
  assumes "buf_inv b" and "buf_data b = Some d"
  shows "\<exists>rest. d = map Some (buf_contents b) @ Some NUL # rest"
proof -
  have i: "buf_len b < length d" "None \<notin> set (take (buf_len b) d)" "d ! buf_len b = Some NUL"
    using assms by (auto simp: buf_inv_def)
  have "map Some (buf_contents b) = take (buf_len b) d"
    using i(2) assms(2) by (auto simp: buf_contents_def comp_def intro!: map_idI) (metis option.collapse)
  then show ?thesis using id_take_nth_drop [OF i(1)] i(3) by metis
qed

section \<open>The interface of a byte sink\<close>

text \<open>
  What a client that only appends relies on.  The first argument of \<open>app\<close> is whatever the
  environment decides about the call (here: the allocator's answer).
\<close>

locale byte_sink =
  fixes app :: "'o \<Rightarrow> 's \<Rightarrow> char list \<Rightarrow> (rc \<times> 's) option"
    and contents :: "'s \<Rightarrow> char list"
    and inv :: "'s \<Rightarrow> bool"
    and failed :: "'s \<Rightarrow> rc"
  assumes app_total: "inv s \<Longrightarrow> \<exists>r s'. app e s bs = Some (r, s') \<and> inv s' \<and> failed s' = r \<and>
        contents s' = (if r = 0 then contents s @ bs else contents s)"
    and app_sticky: "inv s \<Longrightarrow> failed s \<noteq> 0 \<Longrightarrow> app e s bs = Some (failed s, s)"
begin

fun app_all :: "('o \<times> char list) list \<Rightarrow> 's \<Rightarrow> 's option" where
  "app_all [] s = Some s"
| "app_all ((e, bs) # rest) s = (case app e s bs of None \<Rightarrow> None | Some (r, s') \<Rightarrow> app_all rest s')"

lemma app_all_failed:
  "inv s \<Longrightarrow> failed s \<noteq> 0 \<Longrightarrow> app_all ws s = Some s"
  by (induction ws) (auto simp: app_sticky)

text \<open>A series of appends that ignores the intermediate codes: the final error state says
  whether all of them arrived, and what arrived is always a prefix of the series.\<close>

lemma app_all_prefix:
  "inv s \<Longrightarrow> failed s = 0 \<Longrightarrow> \<exists>s' k. app_all ws s = Some s' \<and> inv s' \<and> k \<le> length ws \<and>
     contents s' = contents s @ concat (map snd (take k ws)) \<and>
     (failed s' = 0 \<longrightarrow> k = length ws)"
proof (induction ws arbitrary: s)
  case Nil
  then show ?case by auto
next
  case (Cons w ws)
  obtain e bs where w: "w = (e, bs)" by (cases w)
  obtain r s1 where s1: "app e s bs = Some (r, s1)" "inv s1" "failed s1 = r"
      "contents s1 = (if r = 0 then contents s @ bs else contents s)"
    using app_total [OF Cons.prems(1)] by blast
  show ?case
  proof (cases "r = 0")
    case True
    then obtain s' k where "app_all ws s1 = Some s'" "inv s'" "k \<le> length ws"
        "contents s' = contents s1 @ concat (map snd (take k ws))" "failed s' = 0 \<longrightarrow> k = length ws"
      using Cons.IH [OF s1(2)] s1 by blast
    then show ?thesis
      using s1 True w by (intro exI [of _ s'] exI [of _ "Suc k"]) simp
  next
    case False
    then show ?thesis
      using s1 w app_all_failed [OF s1(2)] by (intro exI [of _ s1] exI [of _ 0]) simp
  qed
qed

end

definition buf_app :: "bool \<Rightarrow> morph_buf \<Rightarrow> char list \<Rightarrow> (rc \<times> morph_buf) option" where
  "buf_app ok b bs = morph_buf_append ok b (Some bs) (length bs)"

interpretation buf_sink: byte_sink buf_app buf_contents buf_inv buf_failed
proof unfold_locales
  show "\<exists>r s'. buf_app e s bs = Some (r, s') \<and> buf_inv s' \<and> buf_failed s' = r \<and>
      buf_contents s' = (if r = 0 then buf_contents s @ bs else buf_contents s)"
    if "buf_inv s" for s e bs
    unfolding buf_app_def
    using buf_append_spec [OF that, where s = bs and n = "length bs" and ok = e, OF order_refl,
        unfolded take_all [OF order_refl]] by blast
  show "buf_app e s bs = Some (buf_failed s, s)" if "buf_inv s" "buf_failed s \<noteq> 0" for s e bs
    using that by (simp add: buf_app_def morph_buf_append_def)
qed

text \<open>No call of an append changes who owns the block.\<close>

lemma buf_store_heap: "buf_store b off bs = Some b' \<Longrightarrow> buf_heap_alloc b' = buf_heap_alloc b"
  by (auto simp: buf_store_def split: option.splits)

lemma buf_grow_heap: "buf_grow ok b n = Some (r, b') \<Longrightarrow> buf_heap_alloc b' = buf_heap_alloc b"
  by (cases "buf_add_size (buf_len b) (Suc 0)") (auto simp: buf_grow_def buf_fail_def Let_def bind_eq_Some_conv
      split: if_split_asm sum.split_asm option.split_asm dest!: buf_store_heap)

lemma buf_append_heap:
  "morph_buf_append ok b src n = Some (r, b') \<Longrightarrow> buf_heap_alloc b' = buf_heap_alloc b"
  by (auto simp: morph_buf_append_def buf_fail_def Let_def bind_eq_Some_conv
      split: if_split_asm sum.split_asm option.split_asm dest!: buf_store_heap buf_grow_heap)

lemma buf_app_all_heap:
  "buf_sink.app_all ws b = Some b' \<Longrightarrow> buf_heap_alloc b' = buf_heap_alloc b"
  by (induction ws b rule: buf_sink.app_all.induct)
     (auto simp: buf_app_def split: option.splits dest!: buf_append_heap)

text \<open>With a willing allocator and room below the maximal capacity a series of appends succeeds.\<close>

lemma buf_len_contents: "buf_inv b \<Longrightarrow> buf_len b = length (buf_contents b)"
  by (auto simp: buf_inv_def buf_contents_def split: option.splits)

lemma buf_app_all_live:
  "buf_inv b \<Longrightarrow> buf_failed b = 0 \<Longrightarrow> buf_growable b \<Longrightarrow> list_all fst ws \<Longrightarrow>
   length (buf_contents b) + length (concat (map snd ws)) < MORPH_BUF_MAX_CAP \<Longrightarrow>
   \<exists>b'. buf_sink.app_all ws b = Some b' \<and> buf_failed b' = 0"
proof (induction ws arbitrary: b)
  case Nil
  then show ?case by simp
next
  case (Cons w ws)
  obtain bs where w: "w = (True, bs)" using Cons.prems(4) by (cases w) auto
  obtain r b1 where b1: "buf_app True b bs = Some (r, b1)" "buf_inv b1" "buf_failed b1 = r" "r = 0"
      "buf_contents b1 = (if r = 0 then buf_contents b @ take (length bs) bs else buf_contents b)"
      "buf_growable b1 = buf_growable b"
    using buf_append_spec [OF Cons.prems(1), where ok = True and s = bs and n = "length bs"] Cons.prems w
      buf_len_contents [OF Cons.prems(1)] by (auto simp: buf_app_def)
  show ?case
    using Cons.IH [OF b1(2)] Cons.prems b1 w by auto
qed

section \<open>Sequences of calls\<close>



section \<open>Properties\<close>

text \<open>
  Appending to a well-formed buffer never touches memory outside its block, keeps it
  well-formed, extends the contents by exactly the bytes given when it returns 0 and leaves them
  alone otherwise; an error sticks to the buffer and is returned by every later append; and the
  append does succeed whenever no error is pending, the result fits the maximal capacity and the
  allocator grants the request.
\<close>

theorem buf_append_contract:
  assumes "buf_inv b" and "n \<le> length s"
  shows "\<exists>r b'. morph_buf_append ok b (Some s) n = Some (r, b') \<and> buf_inv b' \<and>
      buf_contents b' = (if r = 0 then buf_contents b @ take n s else buf_contents b) \<and>
      buf_failed b' = r \<and>
      (r \<noteq> 0 \<longrightarrow> (\<forall>ok' t m. m \<le> length t \<longrightarrow> morph_buf_append ok' b' (Some t) m = Some (r, b'))) \<and>
      (buf_failed b = 0 \<and> buf_len b + n + 1 \<le> MORPH_BUF_MAX_CAP \<and> buf_growable b \<and> ok \<longrightarrow> r = 0)"
proof -
  obtain r b' where h: "morph_buf_append ok b (Some s) n = Some (r, b')" "buf_inv b'"
      "buf_contents b' = (if r = 0 then buf_contents b @ take n s else buf_contents b)"
      "buf_failed b' = r"
      "buf_failed b = 0 \<and> buf_len b + n + 1 \<le> MORPH_BUF_MAX_CAP \<and> buf_growable b \<and> ok \<longrightarrow> r = 0"
    using buf_append_spec [OF assms, of ok] by blast
  have "r \<noteq> 0 \<longrightarrow> morph_buf_append ok' b' (Some t) m = Some (r, b')" for ok' t m
    using h(4) by (simp add: morph_buf_append_def)
  with h show ?thesis by blast
qed

definition buf_example :: morph_buf where
  "buf_example = \<lparr>buf_data = Some [Some CHR ''a'', Some NUL, None], buf_len = 1, buf_cap = 3,
     buf_heap_alloc = True, buf_failed = 0, buf_arena = False\<rparr>"

lemma buf_example_inv: "buf_inv buf_example"
  by (simp add: buf_inv_def buf_example_def MORPH_BUF_MAX_CAP_def SIZE_MAX_def)

theorem buf_append_contract_witness:
  "\<exists>r b'. morph_buf_append True buf_example (Some ''bcd'') 3 = Some (r, b') \<and> buf_inv b' \<and>
     r = 0 \<and> buf_contents b' = ''abcd''"
  using buf_append_contract [OF buf_example_inv, of 3 "''bcd''" True]
  by (auto simp: buf_example_def buf_contents_def buf_growable_def MORPH_BUF_MAX_CAP_def SIZE_MAX_def)



text \<open>
  Building a string: after any series of appends to a fresh heap buffer, if the buffer reports
  no error then \<open>morph_buf_detach\<close> hands over a block that starts with exactly the appended bytes in
  order, followed by a NUL; and it reports none when every allocation is granted and the bytes fit
  below the maximal capacity.
\<close>

theorem buf_build_detach:
  assumes "morph_buf_init ok c = Some (Inr b)"
  shows "\<exists>b'. buf_sink.app_all ws b = Some b' \<and>
     (list_all fst ws \<and> length (concat (map snd ws)) < MORPH_BUF_MAX_CAP \<longrightarrow> buf_failed b' = 0) \<and>
     (buf_failed b' = 0 \<longrightarrow>
        (\<exists>d b'' rest. morph_buf_detach b' = Some (Some d, b'') \<and>
           d = map Some (concat (map snd ws)) @ Some NUL # rest \<and> buf_contents b'' = []))"
proof -
  have b: "buf_inv b" "buf_failed b = 0" "buf_contents b = []" "buf_heap_alloc b"
    using assms buf_init_spec [of ok c] by auto
  obtain b' k where b': "buf_sink.app_all ws b = Some b'" "buf_inv b'"
      "buf_contents b' = concat (map snd (take k ws))" "buf_failed b' = 0 \<longrightarrow> k = length ws"
    using buf_sink.app_all_prefix [OF b(1,2), of ws] b(3) by auto
  have "\<exists>d b'' rest. morph_buf_detach b' = Some (Some d, b'') \<and>
      d = map Some (concat (map snd ws)) @ Some NUL # rest \<and> buf_contents b'' = []"
    if f0: "buf_failed b' = 0"
  proof -
    have f: "buf_failed b' = 0" "buf_heap_alloc b'" using f0 b(4) b'(1) by (auto dest: buf_app_all_heap)
    obtain d where d: "buf_data b' = Some d"
      using f b'(2) by (auto simp: buf_inv_def split: option.splits)
    obtain b'' where "morph_buf_detach b' = Some (Some d, b'')" "buf_contents b'' = []"
      using buf_detach_spec [OF b'(2)] f d by auto
    moreover have "buf_contents b' = concat (map snd ws)" using b'(3,4) f by simp
    ultimately show ?thesis using buf_block_cstr [OF b'(2) d] by auto
  qed
  moreover have "list_all fst ws \<and> length (concat (map snd ws)) < MORPH_BUF_MAX_CAP \<longrightarrow> buf_failed b' = 0"
    using buf_app_all_live [OF b(1,2), of ws] b b'(1) by (auto simp: buf_growable_def)
  ultimately show ?thesis using b'(1) by blast
qed

theorem buf_build_detach_witness:
  "\<exists>b b' d b'' rest. morph_buf_init True 4 = Some (Inr b) \<and>
     buf_sink.app_all [(True, ''ab''), (True, ''cde'')] b = Some b' \<and>
     morph_buf_detach b' = Some (Some d, b'') \<and> d = map Some ''abcde'' @ Some NUL # rest"
proof -
  obtain b where b: "morph_buf_init True 4 = Some (Inr b)"
    by (auto simp: morph_buf_init_def MORPH_BUF_MAX_CAP_def SIZE_MAX_def buf_store_def mem_write_def)
  show ?thesis
    using b buf_build_detach [OF b, of "[(True, ''ab''), (True, ''cde'')]"]
    by (auto simp: MORPH_BUF_MAX_CAP_def SIZE_MAX_def)
qed

end
