(* ===== verification/Strmap.thy ===== *)
theory Strmap
  imports Prelude
begin

text \<open>
  The open-addressing string map \<open>morph_strmap_t\<close> of \<open>src/util/strmap.c\<close>: FNV-1a hashing, linear
  probing with tombstones, growth by rehashing.  The theory models every function of the file,
  states the representation invariant \<open>strmap_inv\<close> (counts, hashes, distinct keys, probe paths
  without gaps, at least one empty slot) and proves that the table implements a finite map from
  strings and that the unbounded probing loop always returns.

  A null pointer is \<open>None\<close>; \<open>calloc\<close> and \<open>malloc\<close> answer through boolean arguments, and a block
  larger than \<open>PTRDIFF_MAX\<close> is never granted.  The result \<open>None\<close> of an operation means that it
  does not return (the probing loop runs forever) or reads outside the table.
\<close>

section \<open>State\<close>

datatype slot_state = STRMAP_EMPTY | STRMAP_USED | STRMAP_DELETED

record 'v strmap_entry =
  e_key :: "cstring option"
  e_key_len :: size_t
  e_hash :: "32 word"
  e_value :: "'v option"
  e_state :: slot_state

record 'v strmap =
  m_entries :: "'v strmap_entry list option"
  m_count :: size_t
  m_cap :: size_t
  m_deleted :: size_t

definition MORPH_STRMAP_INIT_CAP :: size_t where
  "MORPH_STRMAP_INIT_CAP = 16"

definition STRMAP_MAX_LOAD :: nat where
  "STRMAP_MAX_LOAD = 70"

text \<open>\<open>sizeof(struct morph_strmap_entry)\<close> on the 64-bit targets.\<close>

definition sizeof_strmap_entry :: size_t where
  "sizeof_strmap_entry = 40"

definition entry_zero :: "'v strmap_entry" where
  "entry_zero = \<lparr>e_key = None, e_key_len = 0, e_hash = 0, e_value = None, e_state = STRMAP_EMPTY\<rparr>"

section \<open>Operations\<close>

fun strmap_hash_loop :: "32 word \<Rightarrow> cstring \<Rightarrow> 32 word" where
  "strmap_hash_loop h [] = h"
| "strmap_hash_loop h (c # cs) = strmap_hash_loop ((h XOR of_char c) * 16777619) cs"

definition strmap_hash :: "cstring \<Rightarrow> 32 word" where
  "strmap_hash s = (let h = strmap_hash_loop 2166136261 s in if h \<noteq> 0 then h else 1)"

text \<open>The capacity starts positive and only doubles; the conjunct \<open>0 < cap\<close> makes that visible to
  the termination proof.\<close>

function strmap_next_cap_loop :: "size_t \<Rightarrow> size_t \<Rightarrow> size_t" where
  "strmap_next_cap_loop cap min_cap =
     (if 0 < cap \<and> cap < min_cap
      then if cap > SIZE_MAX div 2 then 0 else strmap_next_cap_loop (cap * 2) min_cap
      else cap)"
  by pat_completeness auto
termination
  by (relation "measure (\<lambda>(c, n). n - c)") auto

declare strmap_next_cap_loop.simps [simp del]

definition strmap_next_cap :: "size_t \<Rightarrow> size_t" where
  "strmap_next_cap min_cap = strmap_next_cap_loop MORPH_STRMAP_INIT_CAP min_cap"

definition entry_matches :: "'v strmap_entry \<Rightarrow> cstring \<Rightarrow> size_t \<Rightarrow> 32 word \<Rightarrow> bool" where
  "entry_matches e key key_len hash \<longleftrightarrow>
     e_hash e = hash \<and> e_key_len e = key_len \<and>
     (case e_key e of None \<Rightarrow> False | Some k \<Rightarrow> take key_len k = take key_len key)"

text \<open>The \<open>for (;;)\<close> of \<open>strmap_find_slot\<close>; \<open>fd\<close> is \<open>first_deleted\<close>, \<open>None\<close> for its initial
  \<open>SIZE_MAX\<close>.\<close>

partial_function (option) strmap_probe ::
    "'v strmap_entry list \<Rightarrow> size_t \<Rightarrow> cstring \<Rightarrow> size_t \<Rightarrow> 32 word \<Rightarrow> size_t option \<Rightarrow> size_t
     \<Rightarrow> (size_t \<times> bool) option" where
  "strmap_probe es msk key key_len hash fd idx =
     (if idx \<ge> length es then None
      else if e_state (es ! idx) = STRMAP_EMPTY
      then Some (case fd of None \<Rightarrow> idx | Some j \<Rightarrow> j, False)
      else if e_state (es ! idx) = STRMAP_DELETED
      then strmap_probe es msk key key_len hash
             (case fd of None \<Rightarrow> Some idx | Some j \<Rightarrow> Some j) ((idx + 1) AND msk)
      else if entry_matches (es ! idx) key key_len hash then Some (idx, True)
      else strmap_probe es msk key key_len hash fd ((idx + 1) AND msk))"

declare strmap_probe.simps [code]

definition strmap_find_slot ::
    "'v strmap \<Rightarrow> cstring \<Rightarrow> size_t \<Rightarrow> 32 word \<Rightarrow> (rc + size_t \<times> bool) option" where
  "strmap_find_slot m key key_len hash =
     (case m_entries m of
        None \<Rightarrow> Some (Inl (- EINVAL))
      | Some es \<Rightarrow>
          if m_cap m = 0 then Some (Inl (- EINVAL))
          else let msk = m_cap m - 1
               in map_option Inr
                    (strmap_probe es msk key key_len hash None (unat hash AND msk)))"

definition strmap_insert_owned ::
    "'v strmap \<Rightarrow> cstring \<Rightarrow> size_t \<Rightarrow> 32 word \<Rightarrow> 'v option \<Rightarrow> (rc \<times> 'v strmap) option" where
  "strmap_insert_owned m key key_len hash v =
     (case strmap_find_slot m key key_len hash of
        None \<Rightarrow> None
      | Some (Inl rc) \<Rightarrow> Some (rc, m)
      | Some (Inr (slot, found)) \<Rightarrow>
         (case m_entries m of
            None \<Rightarrow> None
          | Some es \<Rightarrow>
              if slot \<ge> length es then None
              else if found then
                Some (0, m\<lparr>m_entries := Some (es[slot := (es ! slot)\<lparr>e_key := Some key, e_value := v\<rparr>])\<rparr>)
              else
                Some (0, m\<lparr>m_deleted := (if e_state (es ! slot) = STRMAP_DELETED
                                         then m_deleted m - 1 else m_deleted m),
                          m_entries := Some (es[slot := \<lparr>e_key = Some key, e_key_len = key_len,
                             e_hash = hash, e_value = v, e_state = STRMAP_USED\<rparr>]),
                          m_count := m_count m + 1\<rparr>)))"

definition morph_strmap_init :: "bool \<Rightarrow> size_t \<Rightarrow> rc + 'v strmap" where
  "morph_strmap_init ok init_cap =
     (let cap = strmap_next_cap (if init_cap = 0 then MORPH_STRMAP_INIT_CAP else init_cap)
      in if cap = 0 then Inl (- EOVERFLOW)
         else if \<not> (ok \<and> cap * sizeof_strmap_entry \<le> PTRDIFF_MAX) then Inl (- ENOMEM)
         else Inr \<lparr>m_entries = Some (replicate cap entry_zero), m_count = 0, m_cap = cap,
                   m_deleted = 0\<rparr>)"

text \<open>The loop of \<open>strmap_rehash\<close> over the old entries: moves every used entry to \<open>nxt\<close> and
  takes its key away from the old slot.\<close>

fun strmap_rehash_loop ::
    "'v strmap_entry list \<Rightarrow> 'v strmap \<Rightarrow> (rc \<times> 'v strmap_entry list \<times> 'v strmap) option" where
  "strmap_rehash_loop [] nxt = Some (0, [], nxt)"
| "strmap_rehash_loop (e # es) nxt =
     (if e_state e \<noteq> STRMAP_USED
      then map_option (\<lambda>(rc, es', n). (rc, e # es', n)) (strmap_rehash_loop es nxt)
      else case e_key e of
        None \<Rightarrow> None
      | Some k \<Rightarrow>
         (case strmap_insert_owned nxt k (e_key_len e) (e_hash e) (e_value e) of
            None \<Rightarrow> None
          | Some (rc, nxt') \<Rightarrow>
              if rc \<noteq> 0 then Some (rc, e # es, nxt')
              else map_option (\<lambda>(rc, es', n). (rc, e\<lparr>e_key := None\<rparr> # es', n))
                     (strmap_rehash_loop es nxt')))"

definition strmap_rehash :: "bool \<Rightarrow> 'v strmap \<Rightarrow> size_t \<Rightarrow> (rc \<times> 'v strmap) option" where
  "strmap_rehash ok m min_cap =
     (let new_cap = strmap_next_cap min_cap
      in if new_cap = 0 then Some (- EOVERFLOW, m)
         else case morph_strmap_init ok new_cap of
           Inl rc \<Rightarrow> Some (rc, m)
         | Inr nxt \<Rightarrow>
            (case m_entries m of
               None \<Rightarrow> None
             | Some es \<Rightarrow>
                (case strmap_rehash_loop es nxt of
                   None \<Rightarrow> None
                 | Some (rc, es', nxt') \<Rightarrow>
                     if rc \<noteq> 0 then Some (rc, m\<lparr>m_entries := Some es'\<rparr>) else Some (0, nxt'))))"

definition strmap_maybe_grow :: "bool \<Rightarrow> 'v strmap \<Rightarrow> (rc \<times> 'v strmap) option" where
  "strmap_maybe_grow ok m =
     (if m_cap m = 0 then Some (- EINVAL, m)
      else let used = wrap64 (m_count m + m_deleted m + 1)
           in if wrap64 (used * 100) \<le> wrap64 (m_cap m * STRMAP_MAX_LOAD) then Some (0, m)
              else strmap_rehash ok m (wrap64 (m_count m * 2 + 1)))"

definition morph_strmap_cleanup :: "'v strmap \<Rightarrow> 'v strmap" where
  "morph_strmap_cleanup m = \<lparr>m_entries = None, m_count = 0, m_cap = 0, m_deleted = 0\<rparr>"

definition morph_strmap_clear :: "'v strmap \<Rightarrow> 'v strmap" where
  "morph_strmap_clear m =
     (case m_entries m of
        None \<Rightarrow> m
      | Some es \<Rightarrow> m\<lparr>m_entries := Some (map (\<lambda>_. entry_zero) es), m_count := 0, m_deleted := 0\<rparr>)"

definition morph_strmap_len :: "'v strmap \<Rightarrow> size_t" where
  "morph_strmap_len m = m_count m"

definition morph_strmap_set ::
    "bool \<Rightarrow> bool \<Rightarrow> 'v strmap \<Rightarrow> cstring option \<Rightarrow> 'v option \<Rightarrow> (rc \<times> 'v strmap) option" where
  "morph_strmap_set ok_table ok_key m key v =
     (case key of
        None \<Rightarrow> Some (- EINVAL, m)
      | Some k \<Rightarrow>
          if m_entries m = None then Some (- EINVAL, m)
          else case strmap_maybe_grow ok_table m of
            None \<Rightarrow> None
          | Some (rc, m') \<Rightarrow>
              if rc \<noteq> 0 then Some (rc, m')
              else if \<not> ok_key then Some (- ENOMEM, m')
              else strmap_insert_owned m' k (length k) (strmap_hash k) v)"

definition morph_strmap_get :: "'v strmap \<Rightarrow> cstring option \<Rightarrow> 'v option option" where
  "morph_strmap_get m key =
     (case (key, m_entries m) of
        (Some k, Some es) \<Rightarrow>
         (case strmap_find_slot m k (length k) (strmap_hash k) of
            None \<Rightarrow> None
          | Some (Inl _) \<Rightarrow> Some None
          | Some (Inr (slot, found)) \<Rightarrow> Some (if found then e_value (es ! slot) else None))
      | _ \<Rightarrow> Some None)"

definition morph_strmap_contains :: "'v strmap \<Rightarrow> cstring option \<Rightarrow> bool option" where
  "morph_strmap_contains m key =
     (case (key, m_entries m) of
        (Some k, Some es) \<Rightarrow>
         (case strmap_find_slot m k (length k) (strmap_hash k) of
            None \<Rightarrow> None
          | Some (Inl _) \<Rightarrow> Some False
          | Some (Inr (slot, found)) \<Rightarrow> Some found)
      | _ \<Rightarrow> Some False)"

definition morph_strmap_remove :: "'v strmap \<Rightarrow> cstring option \<Rightarrow> (bool \<times> 'v strmap) option" where
  "morph_strmap_remove m key =
     (case (key, m_entries m) of
        (Some k, Some es) \<Rightarrow>
         (case strmap_find_slot m k (length k) (strmap_hash k) of
            None \<Rightarrow> None
          | Some (Inl _) \<Rightarrow> Some (False, m)
          | Some (Inr (slot, found)) \<Rightarrow>
              if \<not> found then Some (False, m)
              else if slot \<ge> length es then None
              else Some (True, m\<lparr>m_entries := Some (es[slot := entry_zero\<lparr>e_state := STRMAP_DELETED\<rparr>]),
                                 m_count := m_count m - 1, m_deleted := m_deleted m + 1\<rparr>))
      | _ \<Rightarrow> Some (False, m))"

section \<open>Invariant and abstraction\<close>

definition slot_at :: "nat \<Rightarrow> 32 word \<Rightarrow> nat \<Rightarrow> nat" where
  "slot_at cap h d = (unat h + d) mod cap"

definition entry_ok :: "'v strmap_entry \<Rightarrow> bool" where
  "entry_ok e \<longleftrightarrow> (\<exists>k. e_key e = Some k \<and> e_key_len e = length k \<and> e_hash e = strmap_hash k)"

text \<open>Slot \<open>i\<close> lies on the probe path of hash \<open>h\<close> with no empty slot before it.\<close>

definition on_path :: "'v strmap_entry list \<Rightarrow> 32 word \<Rightarrow> nat \<Rightarrow> bool" where
  "on_path es h i \<longleftrightarrow>
     (\<exists>d < length es. i = slot_at (length es) h d \<and>
        (\<forall>d' < d. e_state (es ! slot_at (length es) h d') \<noteq> STRMAP_EMPTY))"

definition n_state :: "slot_state \<Rightarrow> 'v strmap_entry list \<Rightarrow> nat" where
  "n_state st es = length (filter (\<lambda>e. e_state e = st) es)"

definition table_ok :: "'v strmap_entry list \<Rightarrow> bool" where
  "table_ok es \<longleftrightarrow>
     (\<exists>k \<ge> 4. k \<le> 57 \<and> length es = 2 ^ k) \<and>
     n_state STRMAP_USED es + n_state STRMAP_DELETED es < length es \<and>
     (\<forall>i < length es. e_state (es ! i) = STRMAP_USED \<longrightarrow>
        entry_ok (es ! i) \<and> on_path es (e_hash (es ! i)) i) \<and>
     (\<forall>i < length es. \<forall>j < length es. e_state (es ! i) = STRMAP_USED \<longrightarrow>
        e_state (es ! j) = STRMAP_USED \<longrightarrow> e_key (es ! i) = e_key (es ! j) \<longrightarrow> i = j)"

definition strmap_inv :: "'v strmap \<Rightarrow> bool" where
  "strmap_inv m \<longleftrightarrow>
     (case m_entries m of
        None \<Rightarrow> False
      | Some es \<Rightarrow> table_ok es \<and> m_cap m = length es \<and>
          m_count m = n_state STRMAP_USED es \<and> m_deleted m = n_state STRMAP_DELETED es)"

definition table_map :: "'v strmap_entry list \<Rightarrow> (cstring \<rightharpoonup> 'v option)" where
  "table_map es =
     map_of (map (\<lambda>e. (the (e_key e), e_value e)) (filter (\<lambda>e. e_state e = STRMAP_USED) es))"

definition strmap_abs :: "'v strmap \<Rightarrow> (cstring \<rightharpoonup> 'v option)" where
  "strmap_abs m = (case m_entries m of None \<Rightarrow> Map.empty | Some es \<Rightarrow> table_map es)"

section \<open>Capacities\<close>

lemma next_cap_loop_pow2:
  "\<exists>k. cap = 2 ^ k \<Longrightarrow> strmap_next_cap_loop cap n \<noteq> 0 \<Longrightarrow>
   (\<exists>k. strmap_next_cap_loop cap n = 2 ^ k) \<and> cap \<le> strmap_next_cap_loop cap n \<and>
   n \<le> strmap_next_cap_loop cap n"
proof (induction cap n rule: strmap_next_cap_loop.induct)
  case (1 cap n)
  show ?case
  proof (cases "0 < cap \<and> cap < n \<and> \<not> cap > SIZE_MAX div 2")
    case True
    then have eq: "strmap_next_cap_loop cap n = strmap_next_cap_loop (cap * 2) n"
      by (subst strmap_next_cap_loop.simps) simp
    obtain k where "cap = 2 ^ k" using "1.prems"(1) by blast
    then have "\<exists>k. cap * 2 = 2 ^ k" by (intro exI [of _ "Suc k"]) simp
    then show ?thesis using "1.IH" "1.prems"(2) True eq by auto
  next
    case False
    then have "strmap_next_cap_loop cap n = (if 0 < cap \<and> cap < n then 0 else cap)"
      by (auto simp: strmap_next_cap_loop.simps [of cap n])
    then show ?thesis using "1.prems" by (auto split: if_splits)
  qed
qed

lemma next_cap_pow2:
  assumes "strmap_next_cap n \<noteq> 0"
  shows "\<exists>k \<ge> 4. strmap_next_cap n = 2 ^ k" "n \<le> strmap_next_cap n"
proof -
  have p: "\<exists>k. MORPH_STRMAP_INIT_CAP = 2 ^ k"
    by (rule exI [of _ 4]) (simp add: MORPH_STRMAP_INIT_CAP_def)
  note l = next_cap_loop_pow2 [OF p assms [unfolded strmap_next_cap_def], folded strmap_next_cap_def]
  then obtain k where k: "strmap_next_cap n = 2 ^ k" by blast
  have "(2::nat) ^ 4 \<le> 2 ^ k" using l k by (simp add: MORPH_STRMAP_INIT_CAP_def)
  then have "4 \<le> k" by (rule power_le_imp_le_exp [rotated]) simp
  with k show "\<exists>k \<ge> 4. strmap_next_cap n = 2 ^ k" by blast
  show "n \<le> strmap_next_cap n" using l by blast
qed

section \<open>Probing\<close>

lemma slot_at_less: "0 < cap \<Longrightarrow> slot_at cap h d < cap"
  by (simp add: slot_at_def)

lemma slot_at_onto:
  assumes "i < cap"
  shows "\<exists>d < cap. slot_at cap h d = i"
proof -
  define r where "r = unat h mod cap"
  have r: "r < cap" using assms by (simp add: r_def)
  have eq: "slot_at cap h d = (r + d) mod cap" for d
    by (simp add: slot_at_def r_def mod_add_left_eq)
  show ?thesis
  proof (cases "r \<le> i")
    case True
    then show ?thesis using assms eq [of "i - r"] by (intro exI [of _ "i - r"]) auto
  next
    case False
    then have "(r + (cap + i - r)) mod cap = i" using assms r by simp
    then show ?thesis using False assms r eq [of "cap + i - r"] by (intro exI [of _ "cap + i - r"]) auto
  qed
qed

lemma slot_at_Suc: "(slot_at cap h d + 1) mod cap = slot_at cap h (Suc d)"
  by (simp add: slot_at_def mod_Suc_eq)

lemma n_state_total:
  "n_state STRMAP_EMPTY es + n_state STRMAP_USED es + n_state STRMAP_DELETED es = length es"
proof (induction es)
  case (Cons e es)
  then show ?case by (cases "e_state e") (auto simp: n_state_def)
qed (simp add: n_state_def)

lemma ex_empty_slot:
  assumes "n_state STRMAP_USED es + n_state STRMAP_DELETED es < length es"
  shows "\<exists>i < length es. e_state (es ! i) = STRMAP_EMPTY"
proof -
  have "n_state STRMAP_EMPTY es > 0" using assms n_state_total [of es] by simp
  then obtain e where "e \<in> set es" "e_state e = STRMAP_EMPTY"
    by (auto simp: n_state_def filter_empty_conv)
  then show ?thesis by (auto simp: in_set_conv_nth)
qed

text \<open>
  What one probe yields, when the first empty slot of the path is at distance \<open>d0\<close>: a used slot
  that matches, or, when no slot up to \<open>d0\<close> matches, a slot that is free or deleted.
\<close>

definition probe_result ::
    "'v strmap_entry list \<Rightarrow> cstring \<Rightarrow> size_t \<Rightarrow> 32 word \<Rightarrow> nat \<Rightarrow> size_t \<Rightarrow> bool \<Rightarrow> bool" where
  "probe_result es key key_len h d0 i found \<longleftrightarrow>
     (\<exists>d \<le> d0. i = slot_at (length es) h d \<and>
        (if found then e_state (es ! i) = STRMAP_USED \<and> entry_matches (es ! i) key key_len h
         else e_state (es ! i) \<noteq> STRMAP_USED)) \<and>
     (found \<or> (\<forall>d < d0. e_state (es ! slot_at (length es) h d) = STRMAP_USED \<longrightarrow>
        \<not> entry_matches (es ! slot_at (length es) h d) key key_len h))"

lemma probe_reaches:
  assumes cap: "length es = 2 ^ k"
    and d0: "e_state (es ! slot_at (length es) h d0) = STRMAP_EMPTY"
    and first: "\<forall>d < d0. e_state (es ! slot_at (length es) h d) \<noteq> STRMAP_EMPTY"
  shows "d \<le> d0 \<Longrightarrow>
    \<forall>d' < d. e_state (es ! slot_at (length es) h d') = STRMAP_USED \<longrightarrow>
      \<not> entry_matches (es ! slot_at (length es) h d') key kl h \<Longrightarrow>
    (\<forall>j. fd = Some j \<longrightarrow> (\<exists>d' < d. j = slot_at (length es) h d' \<and> e_state (es ! j) = STRMAP_DELETED)) \<Longrightarrow>
    \<exists>i found. strmap_probe es (length es - 1) key kl h fd (slot_at (length es) h d) = Some (i, found) \<and>
      probe_result es key kl h d0 i found"
proof (induction "d0 - d" arbitrary: d fd)
  case 0
  then have [simp]: "d = d0" by simp
  have "slot_at (length es) h d0 < length es" using cap by (simp add: slot_at_less)
  then have r: "strmap_probe es (length es - 1) key kl h fd (slot_at (length es) h d)
      = Some (case fd of None \<Rightarrow> slot_at (length es) h d0 | Some j \<Rightarrow> j, False)"
    using d0 by (simp add: strmap_probe.simps [of es _ key kl h fd])
  have "probe_result es key kl h d0 (case fd of None \<Rightarrow> slot_at (length es) h d0 | Some j \<Rightarrow> j) False"
  proof (cases fd)
    case None
    then show ?thesis using "0.prems"(2) d0 by (auto simp: probe_result_def)
  next
    case (Some j)
    then obtain d' where "d' < d0" "j = slot_at (length es) h d'" "e_state (es ! j) = STRMAP_DELETED"
      using "0.prems"(3) by auto
    then show ?thesis
      using "0.prems"(2) Some unfolding probe_result_def by (auto intro!: exI [of _ d'])
  qed
  with r show ?case by blast
next
  case (Suc n)
  let ?p = "slot_at (length es) h"
  have lt: "d < d0" using Suc by simp
  have in_range: "?p d < length es" using cap by (simp add: slot_at_less)
  have nxt: "(?p d + 1) AND (length es - 1) = ?p (Suc d)"
    using cap slot_at_Suc [of "length es" h d] and_pow2_minus_1 [of "?p d + 1" k] by simp
  have ne: "e_state (es ! ?p d) \<noteq> STRMAP_EMPTY" using first lt by blast
  show ?case
  proof (cases "e_state (es ! ?p d) = STRMAP_USED \<and> entry_matches (es ! ?p d) key kl h")
    case True
    then have "strmap_probe es (length es - 1) key kl h fd (?p d) = Some (?p d, True)"
      using in_range by (simp add: strmap_probe.simps [of es _ key kl h fd])
    moreover have "probe_result es key kl h d0 (?p d) True"
      unfolding probe_result_def using True lt by (simp add: exI [of _ d])
    ultimately show ?thesis by blast
  next
    case False
    define fd' where "fd' = (if e_state (es ! ?p d) = STRMAP_DELETED
      then (case fd of None \<Rightarrow> Some (?p d) | Some j \<Rightarrow> Some j) else fd)"
    have step: "strmap_probe es (length es - 1) key kl h fd (?p d)
        = strmap_probe es (length es - 1) key kl h fd' (?p (Suc d))"
      using False in_range ne nxt
      by (cases "e_state (es ! ?p d)") (simp_all add: strmap_probe.simps [of es _ key kl h fd "?p d"] fd'_def)
    have h2: "\<forall>d' < Suc d. e_state (es ! ?p d') = STRMAP_USED \<longrightarrow> \<not> entry_matches (es ! ?p d') key kl h"
      using False Suc.prems(2) by (auto simp: less_Suc_eq)
    have h3: "\<forall>j. fd' = Some j \<longrightarrow> (\<exists>d' < Suc d. j = ?p d' \<and> e_state (es ! j) = STRMAP_DELETED)"
      using Suc.prems(3) by (auto simp: fd'_def less_Suc_eq split: option.splits if_splits)
    show ?thesis
      unfolding step using Suc.hyps(1) [of "Suc d", OF _ _ h2 h3] Suc.hyps(2) lt by simp
  qed
qed

lemma entry_matches_key:
  "entry_ok e \<Longrightarrow> entry_matches e key (length key) (strmap_hash key) \<longleftrightarrow> e_key e = Some key"
  by (auto simp: entry_ok_def entry_matches_def)

text \<open>The outcome of a lookup in a well-formed table.\<close>

lemma find_slot_table:
  assumes ok: "table_ok es"
  shows "\<exists>i found. strmap_probe es (length es - 1) key (length key) (strmap_hash key) None
            (unat (strmap_hash key) AND (length es - 1)) = Some (i, found) \<and> i < length es \<and>
         (if found then e_state (es ! i) = STRMAP_USED \<and> e_key (es ! i) = Some key
          else e_state (es ! i) \<noteq> STRMAP_USED \<and> on_path es (strmap_hash key) i \<and>
            (\<forall>j < length es. e_state (es ! j) = STRMAP_USED \<longrightarrow> e_key (es ! j) \<noteq> Some key))"
proof -
  let ?h = "strmap_hash key" and ?n = "length es"
  obtain k where k: "?n = 2 ^ k" using ok by (auto simp: table_ok_def)
  then have pos: "0 < ?n" by simp
  obtain e where e: "e < ?n" "e_state (es ! e) = STRMAP_EMPTY"
    using ex_empty_slot [of es] ok unfolding table_ok_def by blast
  obtain de where de: "de < ?n" "slot_at ?n ?h de = e" using slot_at_onto [OF e(1), of ?h] by blast
  define P where "P d \<longleftrightarrow> e_state (es ! slot_at ?n ?h d) = STRMAP_EMPTY" for d
  define d0 where "d0 = (LEAST d. P d)"
  have "P de" using e de by (simp add: P_def)
  then have d0: "P d0" "d0 \<le> de" "\<forall>d < d0. \<not> P d"
    unfolding d0_def by (auto intro: LeastI Least_le dest: not_less_Least)
  have start: "unat ?h AND (?n - 1) = slot_at ?n ?h 0"
    using k and_pow2_minus_1 [of "unat ?h" k] by (simp add: slot_at_def)
  obtain i found where r: "strmap_probe es (?n - 1) key (length key) ?h None (slot_at ?n ?h 0) = Some (i, found)"
      and pr: "probe_result es key (length key) ?h d0 i found"
    using probe_reaches [OF k, of ?h d0 0 key "length key" None] d0 by (auto simp: P_def)
  from pr obtain d where d: "d \<le> d0" "i = slot_at ?n ?h d"
      "if found then e_state (es ! i) = STRMAP_USED \<and> entry_matches (es ! i) key (length key) ?h
       else e_state (es ! i) \<noteq> STRMAP_USED"
    by (auto simp: probe_result_def)
  have i: "i < ?n" using d pos by (simp add: slot_at_less)
  have path: "on_path es ?h i"
    unfolding on_path_def using d d0 de by (auto simp: P_def intro!: exI [of _ d])
  have absent: "e_key (es ! j) \<noteq> Some key"
    if nf: "\<not> found" and j: "j < ?n" "e_state (es ! j) = STRMAP_USED" for j
  proof
    assume kj: "e_key (es ! j) = Some key"
    have okj: "entry_ok (es ! j)" "on_path es (e_hash (es ! j)) j"
      using ok j by (auto simp: table_ok_def)
    moreover have "e_hash (es ! j) = ?h" using okj(1) kj by (auto simp: entry_ok_def)
    ultimately obtain dj where dj: "j = slot_at ?n ?h dj" "\<forall>d' < dj. \<not> P d'"
      by (auto simp: on_path_def P_def)
    have "\<not> P dj" using j(2) dj(1) by (simp add: P_def)
    then have "dj < d0" using d0(1) dj(2) by (metis linorder_neqE_nat)
    then have "\<not> entry_matches (es ! j) key (length key) ?h"
      using pr nf j(2) dj(1) by (auto simp: probe_result_def)
    then show False using entry_matches_key [OF okj(1)] kj by simp
  qed
  have "found \<Longrightarrow> e_key (es ! i) = Some key"
    using d(3) ok i entry_matches_key [of "es ! i" key] by (auto simp: table_ok_def)
  then show ?thesis using r start i d(3) path absent by auto
qed

lemma table_map_Some:
  assumes ok: "table_ok es"
  shows "table_map es k = Some v \<longleftrightarrow>
    (\<exists>i < length es. e_state (es ! i) = STRMAP_USED \<and> e_key (es ! i) = Some k \<and> e_value (es ! i) = v)"
    (is "?l \<longleftrightarrow> ?r")
proof -
  let ?u = "filter (\<lambda>e. e_state e = STRMAP_USED) es"
  have key: "\<exists>k. e_key (es ! i) = Some k" if "i < length es" "e_state (es ! i) = STRMAP_USED" for i
    using ok that by (auto simp: table_ok_def entry_ok_def)
  have to_index: "\<exists>i < length es. e_state (es ! i) = STRMAP_USED \<and> e_key (es ! i) = Some k \<and> e_value (es ! i) = w"
    if "table_map es k = Some w" for w
  proof -
    from that obtain e where e: "e \<in> set ?u" "the (e_key e) = k" "e_value e = w"
      unfolding table_map_def by (auto dest!: map_of_SomeD)
    then obtain i where "i < length es" "es ! i = e" by (auto simp: in_set_conv_nth)
    then show ?thesis using e key by fastforce
  qed
  show ?thesis
  proof
    assume ?r
    then obtain i where i: "i < length es" "e_state (es ! i) = STRMAP_USED" "e_key (es ! i) = Some k"
        "e_value (es ! i) = v" by blast
    then have "k \<in> fst ` set (map (\<lambda>e. (the (e_key e), e_value e)) ?u)" by force
    then obtain w where w: "table_map es k = Some w"
      by (cases "table_map es k") (auto simp: table_map_def map_of_eq_None_iff)
    then obtain j where "j < length es" "e_state (es ! j) = STRMAP_USED" "e_key (es ! j) = Some k" "e_value (es ! j) = w"
      using to_index by blast
    then show ?l using i w ok unfolding table_ok_def by metis
  qed (use to_index in blast)
qed

lemma table_map_None:
  assumes "table_ok es"
  shows "table_map es k = None \<longleftrightarrow>
    (\<forall>i < length es. e_state (es ! i) = STRMAP_USED \<longrightarrow> e_key (es ! i) \<noteq> Some k)"
  using table_map_Some [OF assms, of k] by (metis not_Some_eq)

section \<open>Updates of one slot\<close>

definition slot_holds :: "'v strmap_entry \<Rightarrow> cstring \<Rightarrow> 'v option \<Rightarrow> bool" where
  "slot_holds e k v \<longleftrightarrow> e_state e = STRMAP_USED \<and> e_key e = Some k \<and> e_value e = v"

lemma table_map_holds:
  "table_ok es \<Longrightarrow> table_map es k = Some v \<longleftrightarrow> (\<exists>i < length es. slot_holds (es ! i) k v)"
  by (simp add: table_map_Some slot_holds_def)

lemma ex_slot_update:
  assumes "i < length es"
  shows "(\<exists>j < length (es[i := e]). slot_holds (es[i := e] ! j) k v) \<longleftrightarrow>
    slot_holds e k v \<or> (\<exists>j < length es. j \<noteq> i \<and> slot_holds (es ! j) k v)"
  using assms by (auto simp: nth_list_update)

lemma table_ok_unique:
  "table_ok es \<Longrightarrow> i < length es \<Longrightarrow> e_state (es ! i) = STRMAP_USED \<Longrightarrow> e_key (es ! i) = Some key \<Longrightarrow>
   j < length es \<Longrightarrow> slot_holds (es ! j) key v \<Longrightarrow> j = i"
  by (auto simp: table_ok_def slot_holds_def)

text \<open>How the abstract map changes when slot \<open>i\<close> changes from a used slot with key \<open>key\<close>, or from
  a slot that is not used while \<open>key\<close> is absent.\<close>

lemma table_map_update:
  assumes ok: "table_ok es" "table_ok (es[i := e])" and i: "i < length es"
    and old: "if e_state (es ! i) = STRMAP_USED then e_key (es ! i) = Some key
              else (\<forall>j < length es. e_state (es ! j) = STRMAP_USED \<longrightarrow> e_key (es ! j) \<noteq> Some key)"
    and new: "e_state e = STRMAP_USED \<Longrightarrow> e_key e = Some key"
  shows "table_map (es[i := e]) =
    (table_map es)(key := (if e_state e = STRMAP_USED then Some (e_value e) else None))"
proof -
  have others: "(\<exists>j < length es. j \<noteq> i \<and> slot_holds (es ! j) k v) \<longleftrightarrow>
      k \<noteq> key \<and> (\<exists>j < length es. slot_holds (es ! j) k v)" for k v
  proof (cases "e_state (es ! i) = STRMAP_USED")
    case True
    then have ki: "e_key (es ! i) = Some key" using old by simp
    have "\<not> slot_holds (es ! i) k v" if "k \<noteq> key" using that ki by (simp add: slot_holds_def)
    moreover have "j = i" if "j < length es" "slot_holds (es ! j) key v" for j
      using table_ok_unique [OF ok(1) i True ki that] .
    ultimately show ?thesis by blast
  next
    case False
    then show ?thesis using old by (auto simp: slot_holds_def)
  qed
  show ?thesis
  proof (rule map_eqI)
    fix k v
    have "table_map (es[i := e]) k = Some v \<longleftrightarrow>
        slot_holds e k v \<or> k \<noteq> key \<and> table_map es k = Some v"
      unfolding table_map_holds [OF ok(2)] ex_slot_update [OF i] others table_map_holds [OF ok(1)] ..
    then show "table_map (es[i := e]) k = Some v \<longleftrightarrow>
        ((table_map es)(key := (if e_state e = STRMAP_USED then Some (e_value e) else None))) k = Some v"
      using new by (cases "k = key") (auto simp: slot_holds_def)
  qed
qed

lemma on_path_update:
  "on_path es h j \<Longrightarrow> i < length es \<Longrightarrow> e_state e \<noteq> STRMAP_EMPTY \<Longrightarrow> on_path (es[i := e]) h j"
  unfolding on_path_def by (auto simp: nth_list_update)

lemma n_state_update:
  "i < length es \<Longrightarrow>
   n_state st (es[i := e]) + (if e_state (es ! i) = st then 1 else 0)
     = n_state st es + (if e_state e = st then 1 else 0)"
  unfolding n_state_def using count_filter_update [of i es "\<lambda>e. e_state e = st" e] by simp

text \<open>A slot that is not used becomes used with a key that was absent.\<close>

lemma table_ok_insert:
  assumes ok: "table_ok es" and i: "i < length es" "e_state (es ! i) \<noteq> STRMAP_USED"
    and path: "on_path es (strmap_hash key) i"
    and absent: "\<forall>j < length es. e_state (es ! j) = STRMAP_USED \<longrightarrow> e_key (es ! j) \<noteq> Some key"
    and e: "e_state e = STRMAP_USED" "e_key e = Some key" "e_key_len e = length key"
      "e_hash e = strmap_hash key"
    and room: "n_state STRMAP_USED es + n_state STRMAP_DELETED es + 1 < length es"
  shows "table_ok (es[i := e])" "table_map (es[i := e]) = (table_map es)(key \<mapsto> e_value e)"
proof -
  have n: "n_state STRMAP_USED (es[i := e]) = n_state STRMAP_USED es + 1"
      "n_state STRMAP_DELETED (es[i := e]) \<le> n_state STRMAP_DELETED es"
    using n_state_update [OF i(1), of STRMAP_USED e] n_state_update [OF i(1), of STRMAP_DELETED e] i e
    by (auto split: if_splits)
  show ok': "table_ok (es[i := e])"
    unfolding table_ok_def
  proof (intro conjI)
    show "\<exists>k \<ge> 4. k \<le> 57 \<and> length (es[i := e]) = 2 ^ k" using ok by (simp add: table_ok_def)
    show "n_state STRMAP_USED (es[i := e]) + n_state STRMAP_DELETED (es[i := e]) < length (es[i := e])"
      using n room by simp
    show "\<forall>j < length (es[i := e]). e_state (es[i := e] ! j) = STRMAP_USED \<longrightarrow>
        entry_ok (es[i := e] ! j) \<and> on_path (es[i := e]) (e_hash (es[i := e] ! j)) j"
      using ok e path i by (auto simp: table_ok_def nth_list_update entry_ok_def intro!: on_path_update)
    show "\<forall>j < length (es[i := e]). \<forall>l < length (es[i := e]).
        e_state (es[i := e] ! j) = STRMAP_USED \<longrightarrow> e_state (es[i := e] ! l) = STRMAP_USED \<longrightarrow>
        e_key (es[i := e] ! j) = e_key (es[i := e] ! l) \<longrightarrow> j = l"
      using ok e absent i by (auto simp: table_ok_def nth_list_update)
  qed
  show "table_map (es[i := e]) = (table_map es)(key \<mapsto> e_value e)"
    using table_map_update [OF ok ok' i(1), of key] i absent e by simp
qed

text \<open>A used slot gets a new value for the same key.\<close>

lemma table_ok_overwrite:
  fixes v :: "'v option"
  assumes ok: "table_ok es" and i: "i < length es" "e_state (es ! i) = STRMAP_USED"
    "e_key (es ! i) = Some key"
  defines "e \<equiv> (es ! i)\<lparr>e_key := Some key, e_value := v\<rparr>"
  shows "table_ok (es[i := e])" "table_map (es[i := e]) = (table_map es)(key \<mapsto> v)"
    "n_state st (es[i := e]) = n_state st es"
proof -
  have e: "e_state e = STRMAP_USED" "e_key e = Some key" "e_hash e = e_hash (es ! i)"
      "e_key_len e = e_key_len (es ! i)" "e_value e = v"
    using i by (simp_all add: e_def)
  show n: "n_state st (es[i := e]) = n_state st es" for st
    using n_state_update [OF i(1), of st e] i e by (simp split: if_splits)
  have eok: "entry_ok e" using ok i e by (auto simp: table_ok_def entry_ok_def)
  show ok': "table_ok (es[i := e])"
    unfolding table_ok_def
  proof (intro conjI)
    show "\<forall>j < length (es[i := e]). e_state (es[i := e] ! j) = STRMAP_USED \<longrightarrow>
        entry_ok (es[i := e] ! j) \<and> on_path (es[i := e]) (e_hash (es[i := e] ! j)) j"
      using ok e i eok by (auto simp: table_ok_def nth_list_update intro!: on_path_update)
    show "\<forall>j < length (es[i := e]). \<forall>l < length (es[i := e]).
        e_state (es[i := e] ! j) = STRMAP_USED \<longrightarrow> e_state (es[i := e] ! l) = STRMAP_USED \<longrightarrow>
        e_key (es[i := e] ! j) = e_key (es[i := e] ! l) \<longrightarrow> j = l"
      using ok e i unfolding table_ok_def by (simp add: nth_list_update) metis
  qed (use ok n in \<open>simp_all add: table_ok_def\<close>)
  show "table_map (es[i := e]) = (table_map es)(key \<mapsto> v)"
    using table_map_update [OF ok ok' i(1), of key] i e by simp
qed

text \<open>A used slot becomes a tombstone.\<close>

lemma table_ok_remove:
  assumes ok: "table_ok es" and i: "i < length es" "e_state (es ! i) = STRMAP_USED"
    "e_key (es ! i) = Some key"
  defines "e \<equiv> entry_zero\<lparr>e_state := STRMAP_DELETED\<rparr>"
  shows "table_ok (es[i := e])" "table_map (es[i := e]) = (table_map es)(key := None)"
    "n_state STRMAP_USED (es[i := e]) + 1 = n_state STRMAP_USED es"
    "n_state STRMAP_DELETED (es[i := e]) = n_state STRMAP_DELETED es + 1"
proof -
  have e: "e_state e = STRMAP_DELETED" by (simp add: e_def)
  show n: "n_state STRMAP_USED (es[i := e]) + 1 = n_state STRMAP_USED es"
      "n_state STRMAP_DELETED (es[i := e]) = n_state STRMAP_DELETED es + 1"
    using n_state_update [OF i(1), of STRMAP_USED e] n_state_update [OF i(1), of STRMAP_DELETED e] i e
    by simp_all
  show ok': "table_ok (es[i := e])"
    unfolding table_ok_def
  proof (intro conjI)
    show "n_state STRMAP_USED (es[i := e]) + n_state STRMAP_DELETED (es[i := e]) < length (es[i := e])"
      using ok n by (simp add: table_ok_def)
    show "\<forall>j < length (es[i := e]). e_state (es[i := e] ! j) = STRMAP_USED \<longrightarrow>
        entry_ok (es[i := e] ! j) \<and> on_path (es[i := e]) (e_hash (es[i := e] ! j)) j"
      using ok e i by (auto simp: table_ok_def nth_list_update intro!: on_path_update)
    show "\<forall>j < length (es[i := e]). \<forall>l < length (es[i := e]).
        e_state (es[i := e] ! j) = STRMAP_USED \<longrightarrow> e_state (es[i := e] ! l) = STRMAP_USED \<longrightarrow>
        e_key (es[i := e] ! j) = e_key (es[i := e] ! l) \<longrightarrow> j = l"
      using ok e i unfolding table_ok_def by (simp add: nth_list_update)
  qed (use ok in \<open>simp add: table_ok_def\<close>)
  show "table_map (es[i := e]) = (table_map es)(key := None)"
    using table_map_update [OF ok ok' i(1), of key] i e by simp
qed

section \<open>The operations on the map\<close>

lemma strmap_invE:
  assumes "strmap_inv m"
  obtains es where "m_entries m = Some es" "table_ok es" "m_cap m = length es" "0 < length es"
    "m_count m = n_state STRMAP_USED es" "m_deleted m = n_state STRMAP_DELETED es"
    "strmap_abs m = table_map es"
proof -
  obtain es where es: "m_entries m = Some es" using assms by (auto simp: strmap_inv_def split: option.splits)
  moreover have "0 < length es" using assms es by (auto simp: strmap_inv_def table_ok_def)
  ultimately show ?thesis using that [of es] assms by (simp add: strmap_inv_def strmap_abs_def)
qed

lemma find_slot_spec:
  assumes "strmap_inv m"
  obtains es i found where "m_entries m = Some es" "table_ok es" "i < length es"
    "strmap_find_slot m key (length key) (strmap_hash key) = Some (Inr (i, found))"
    "if found then e_state (es ! i) = STRMAP_USED \<and> e_key (es ! i) = Some key
     else e_state (es ! i) \<noteq> STRMAP_USED \<and> on_path es (strmap_hash key) i \<and>
       (\<forall>j < length es. e_state (es ! j) = STRMAP_USED \<longrightarrow> e_key (es ! j) \<noteq> Some key)"
proof -
  obtain es where es: "m_entries m = Some es" "table_ok es" "m_cap m = length es" "0 < length es"
    using assms by (rule strmap_invE)
  obtain i found where "strmap_probe es (length es - 1) key (length key) (strmap_hash key) None
            (unat (strmap_hash key) AND (length es - 1)) = Some (i, found)" "i < length es"
         "if found then e_state (es ! i) = STRMAP_USED \<and> e_key (es ! i) = Some key
          else e_state (es ! i) \<noteq> STRMAP_USED \<and> on_path es (strmap_hash key) i \<and>
            (\<forall>j < length es. e_state (es ! j) = STRMAP_USED \<longrightarrow> e_key (es ! j) \<noteq> Some key)"
    using find_slot_table [OF es(2), of key] by blast
  then show ?thesis
    using that [of es i found] es by (simp add: strmap_find_slot_def Let_def)
qed

lemma insert_owned_spec:
  assumes inv: "strmap_inv m" and room: "m_count m + m_deleted m + 1 < m_cap m"
  shows "\<exists>m'. strmap_insert_owned m key (length key) (strmap_hash key) v = Some (0, m') \<and>
     strmap_inv m' \<and> strmap_abs m' = (strmap_abs m)(key \<mapsto> v) \<and> m_cap m' = m_cap m \<and>
     m_count m' = m_count m + (if strmap_abs m key = None then 1 else 0) \<and>
     m_deleted m' \<le> m_deleted m"
proof -
  obtain es i found where f: "m_entries m = Some es" "table_ok es" "i < length es"
    "strmap_find_slot m key (length key) (strmap_hash key) = Some (Inr (i, found))"
    "if found then e_state (es ! i) = STRMAP_USED \<and> e_key (es ! i) = Some key
     else e_state (es ! i) \<noteq> STRMAP_USED \<and> on_path es (strmap_hash key) i \<and>
       (\<forall>j < length es. e_state (es ! j) = STRMAP_USED \<longrightarrow> e_key (es ! j) \<noteq> Some key)"
    using inv by (rule find_slot_spec [of m key])
  have m: "m_cap m = length es" "m_count m = n_state STRMAP_USED es"
      "m_deleted m = n_state STRMAP_DELETED es" "strmap_abs m = table_map es"
    using inv f(1) by (auto simp: strmap_inv_def strmap_abs_def)
  show ?thesis
  proof (cases found)
    case True
    then have u: "e_state (es ! i) = STRMAP_USED" "e_key (es ! i) = Some key" using f(5) by auto
    note o = table_ok_overwrite [OF f(2,3) u, where v = v]
    have "strmap_abs m key \<noteq> None" using table_map_None [OF f(2), of key] u f(3) m by auto
    then show ?thesis
      using True f o m by (auto simp: strmap_insert_owned_def strmap_inv_def strmap_abs_def)
  next
    case False
    define e :: "'a strmap_entry" where "e = \<lparr>e_key = Some key, e_key_len = length key,
       e_hash = strmap_hash key, e_value = v, e_state = STRMAP_USED\<rparr>"
    have a: "e_state (es ! i) \<noteq> STRMAP_USED" "on_path es (strmap_hash key) i"
        "\<forall>j < length es. e_state (es ! j) = STRMAP_USED \<longrightarrow> e_key (es ! j) \<noteq> Some key"
      using False f(5) by auto
    have t: "table_ok (es[i := e])" "table_map (es[i := e]) = (table_map es)(key \<mapsto> v)"
      using table_ok_insert [OF f(2,3) a, of e] room m by (auto simp: e_def)
    have "strmap_abs m key = None" using table_map_None [OF f(2), of key] a(3) m by auto
    moreover have "n_state STRMAP_USED (es[i := e]) = n_state STRMAP_USED es + 1"
        "n_state STRMAP_DELETED (es[i := e]) =
           (if e_state (es ! i) = STRMAP_DELETED then n_state STRMAP_DELETED es - 1 else n_state STRMAP_DELETED es)"
      using n_state_update [OF f(3), of STRMAP_USED e] n_state_update [OF f(3), of STRMAP_DELETED e] a(1)
      by (auto simp: e_def split: if_splits)
    ultimately show ?thesis
      using False f t m by (auto simp: strmap_insert_owned_def strmap_inv_def strmap_abs_def e_def)
  qed
qed

section \<open>Creation and rehashing\<close>

lemma n_state_replicate:
  "n_state st (replicate n e) = (if e_state e = st then n else 0)"
  by (simp add: n_state_def)

lemma table_ok_replicate:
  assumes "4 \<le> k" "k \<le> 57"
  shows "table_ok (replicate (2 ^ k) entry_zero)" "table_map (replicate (2 ^ k) entry_zero) = Map.empty"
  using assms by (auto simp: table_ok_def table_map_def n_state_replicate entry_zero_def)

lemma init_spec:
  assumes "morph_strmap_init ok c = Inr m"
  shows "strmap_inv m" "strmap_abs m = Map.empty" "m_count m = 0" "m_deleted m = 0"
    "c \<le> m_cap m" "16 \<le> m_cap m"
proof -
  define cap where "cap = strmap_next_cap (if c = 0 then MORPH_STRMAP_INIT_CAP else c)"
  have nz: "cap \<noteq> 0" and fit: "cap * sizeof_strmap_entry \<le> PTRDIFF_MAX"
    and m: "m = \<lparr>m_entries = Some (replicate cap entry_zero), m_count = 0, m_cap = cap, m_deleted = 0\<rparr>"
    using assms by (auto simp: morph_strmap_init_def Let_def cap_def split: if_splits)
  obtain k where k: "4 \<le> k" "cap = 2 ^ k"
    using next_cap_pow2(1) nz by (auto simp: cap_def)
  have "k \<le> 57"
  proof (rule ccontr)
    assume "\<not> k \<le> 57"
    then have "(2::nat) ^ 58 \<le> 2 ^ k" by (intro power_increasing) auto
    then show False using fit k by (simp add: sizeof_strmap_entry_def PTRDIFF_MAX_def)
  qed
  then show "strmap_inv m" "strmap_abs m = Map.empty" "m_count m = 0" "m_deleted m = 0"
    using table_ok_replicate [OF k(1)] m k(2)
    by (auto simp: strmap_inv_def strmap_abs_def n_state_replicate entry_zero_def)
  show "c \<le> m_cap m" using next_cap_pow2(2) nz m by (auto simp: cap_def split: if_splits)
  have "(2::nat) ^ 4 \<le> 2 ^ k" using k(1) by (intro power_increasing) auto
  then show "16 \<le> m_cap m" using m k(2) by simp
qed

text \<open>Moving the used entries of a list into a fresh table.\<close>

lemma rehash_loop_spec:
  "strmap_inv nxt \<Longrightarrow> m_deleted nxt = 0 \<Longrightarrow> m_count nxt + n_state STRMAP_USED es < m_cap nxt \<Longrightarrow>
   (\<forall>e \<in> set es. e_state e = STRMAP_USED \<longrightarrow> entry_ok e) \<Longrightarrow>
   distinct (map e_key (filter (\<lambda>e. e_state e = STRMAP_USED) es)) \<Longrightarrow>
   (\<forall>e \<in> set es. e_state e = STRMAP_USED \<longrightarrow> the (e_key e) \<notin> dom (strmap_abs nxt)) \<Longrightarrow>
   \<exists>es' n. strmap_rehash_loop es nxt = Some (0, es', n) \<and> strmap_inv n \<and> m_deleted n = 0 \<and>
     strmap_abs n = strmap_abs nxt ++ table_map es \<and> m_cap n = m_cap nxt \<and>
     m_count n = m_count nxt + n_state STRMAP_USED es"
proof (induction es arbitrary: nxt)
  case Nil
  then show ?case by (simp add: table_map_def n_state_def)
next
  case (Cons e es)
  show ?case
  proof (cases "e_state e = STRMAP_USED")
    case False
    then have "n_state STRMAP_USED (e # es) = n_state STRMAP_USED es" "table_map (e # es) = table_map es"
      by (simp_all add: n_state_def table_map_def)
    then show ?thesis using Cons.IH [OF Cons.prems(1,2)] Cons.prems False by auto
  next
    case True
    obtain k where k: "e_key e = Some k" "e_key_len e = length k" "e_hash e = strmap_hash k"
      using Cons.prems(4) True by (auto simp: entry_ok_def)
    have n: "n_state STRMAP_USED (e # es) = n_state STRMAP_USED es + 1"
      using True by (simp add: n_state_def)
    have absent: "strmap_abs nxt k = None" using Cons.prems(6) True k by auto
    obtain nx where nx: "strmap_insert_owned nxt k (length k) (strmap_hash k) (e_value e) = Some (0, nx)"
        "strmap_inv nx" "strmap_abs nx = (strmap_abs nxt)(k \<mapsto> e_value e)" "m_cap nx = m_cap nxt"
        "m_count nx = m_count nxt + 1" "m_deleted nx = 0"
      using insert_owned_spec [OF Cons.prems(1), of k "e_value e"] Cons.prems(2,3) n absent by auto
    have fresh: "the (e_key e') \<noteq> k" if "e' \<in> set es" "e_state e' = STRMAP_USED" for e'
    proof -
      have "Some k \<notin> e_key ` {e \<in> set es. e_state e = STRMAP_USED}" using Cons.prems(5) True k by simp
      moreover have "\<exists>k'. e_key e' = Some k'" using Cons.prems(4) that by (auto simp: entry_ok_def)
      ultimately show ?thesis using that by force
    qed
    have k_notin: "k \<notin> dom (table_map es)"
      unfolding table_map_def dom_map_of_conv_image_fst using fresh by fastforce
    obtain es' n' where r: "strmap_rehash_loop es nx = Some (0, es', n')" "strmap_inv n'" "m_deleted n' = 0"
        "strmap_abs n' = strmap_abs nx ++ table_map es" "m_cap n' = m_cap nx"
        "m_count n' = m_count nx + n_state STRMAP_USED es"
    proof -
      have "m_count nx + n_state STRMAP_USED es < m_cap nx" using Cons.prems(3) nx n by simp
      moreover have "\<forall>e \<in> set es. e_state e = STRMAP_USED \<longrightarrow> entry_ok e" using Cons.prems(4) by simp
      moreover have "distinct (map e_key (filter (\<lambda>e. e_state e = STRMAP_USED) es))"
        using Cons.prems(5) by (simp split: if_splits)
      moreover have "\<forall>e \<in> set es. e_state e = STRMAP_USED \<longrightarrow> the (e_key e) \<notin> dom (strmap_abs nx)"
        using Cons.prems(6) fresh nx(3) by auto
      ultimately show ?thesis using Cons.IH [OF nx(2,6)] that by blast
    qed
    have "strmap_abs n' = strmap_abs nxt ++ table_map (e # es)"
      using r(4) nx(3) k_notin True k by (simp add: table_map_def map_add_upd_left)
    then show ?thesis using r nx k n True by auto
  qed
qed

lemma table_ok_distinct:
  assumes "table_ok es"
  shows "distinct (map e_key (filter (\<lambda>e. e_state e = STRMAP_USED) es))"
    "\<forall>e \<in> set es. e_state e = STRMAP_USED \<longrightarrow> entry_ok e"
  using assms by (auto simp: table_ok_def in_set_conv_nth intro!: distinct_map_filter_nth)

lemma rehash_spec:
  assumes inv: "strmap_inv m" and c: "c = m_count m * 2 + 1"
  shows "\<exists>r m'. strmap_rehash ok m c = Some (r, m') \<and> strmap_inv m' \<and> strmap_abs m' = strmap_abs m \<and>
    m_count m' = m_count m \<and> (r \<noteq> 0 \<longrightarrow> m' = m) \<and>
    (r = 0 \<longrightarrow> m_count m' + m_deleted m' + 1 < m_cap m')"
proof (cases "strmap_next_cap c = 0")
  case True
  then show ?thesis using inv by (auto simp: strmap_rehash_def)
next
  case nz: False
  obtain es where es: "m_entries m = Some es" "table_ok es" "m_count m = n_state STRMAP_USED es"
      "strmap_abs m = table_map es"
    using inv by (rule strmap_invE)
  show ?thesis
  proof (cases "morph_strmap_init ok (strmap_next_cap c) :: rc + 'a strmap")
    case (Inl r)
    then have "r \<noteq> 0" by (auto simp: morph_strmap_init_def Let_def split: if_splits)
    then show ?thesis using inv nz Inl by (auto simp: strmap_rehash_def)
  next
    case (Inr nxt)
    note i = init_spec [OF Inr]
    have cap: "m_count m * 2 + 1 \<le> m_cap nxt" using i(5) next_cap_pow2(2) [OF nz] c by simp
    obtain es' n where "strmap_rehash_loop es nxt = Some (0, es', n)" "strmap_inv n" "m_deleted n = 0"
      "strmap_abs n = strmap_abs nxt ++ table_map es" "m_cap n = m_cap nxt"
      "m_count n = m_count nxt + n_state STRMAP_USED es"
      using rehash_loop_spec [OF i(1,4), of es] i cap es table_ok_distinct [OF es(2)] by auto
    then show ?thesis using nz Inr es i cap by (auto simp: strmap_rehash_def)
  qed
qed

lemma strmap_cap_bound:
  assumes "strmap_inv m"
  shows "m_cap m \<le> 2 ^ 57"
proof -
  obtain k where "k \<le> 57" "m_cap m = 2 ^ k"
    using assms by (auto simp: strmap_inv_def table_ok_def split: option.splits)
  then show ?thesis using power_increasing [of k 57 "2::nat"] by simp
qed

lemma maybe_grow_spec:
  assumes inv: "strmap_inv m"
  shows "\<exists>r m'. strmap_maybe_grow ok m = Some (r, m') \<and> strmap_inv m' \<and> strmap_abs m' = strmap_abs m \<and>
    m_count m' = m_count m \<and> (r \<noteq> 0 \<longrightarrow> m' = m) \<and>
    (r = 0 \<longrightarrow> m_count m' + m_deleted m' + 1 < m_cap m')"
proof -
  obtain es where es: "m_entries m = Some es" "table_ok es" "m_cap m = length es" "0 < length es"
      "m_count m = n_state STRMAP_USED es" "m_deleted m = n_state STRMAP_DELETED es"
    using inv by (rule strmap_invE)
  have lt: "m_count m + m_deleted m < m_cap m" using es by (simp add: table_ok_def)
  have b: "m_cap m \<le> 2 ^ 57" using inv by (rule strmap_cap_bound)
  have w: "wrap64 (m_count m + m_deleted m + 1) = m_count m + m_deleted m + 1"
      "wrap64 ((m_count m + m_deleted m + 1) * 100) = (m_count m + m_deleted m + 1) * 100"
      "wrap64 (m_cap m * STRMAP_MAX_LOAD) = m_cap m * STRMAP_MAX_LOAD"
      "wrap64 (m_count m * 2 + 1) = m_count m * 2 + 1"
    using lt b by (auto simp: SIZE_MAX_def STRMAP_MAX_LOAD_def intro!: wrap64_id)
  show ?thesis
  proof (cases "(m_count m + m_deleted m + 1) * 100 \<le> m_cap m * STRMAP_MAX_LOAD")
    case True
    then have "m_count m + m_deleted m + 1 < m_cap m" using es by (simp add: STRMAP_MAX_LOAD_def)
    then show ?thesis using True inv es w by (auto simp: strmap_maybe_grow_def Let_def)
  next
    case False
    then show ?thesis using rehash_spec [OF inv refl, of ok] es w by (auto simp: strmap_maybe_grow_def Let_def)
  qed
qed

section \<open>The public operations\<close>

lemma set_spec:
  assumes inv: "strmap_inv m"
  shows "\<exists>r m'. morph_strmap_set ok1 ok2 m (Some k) v = Some (r, m') \<and> strmap_inv m' \<and>
     strmap_abs m' = (if r = 0 then (strmap_abs m)(k \<mapsto> v) else strmap_abs m)"
proof -
  obtain r m1 where g: "strmap_maybe_grow ok1 m = Some (r, m1)" "strmap_inv m1"
      "strmap_abs m1 = strmap_abs m" "r = 0 \<longrightarrow> m_count m1 + m_deleted m1 + 1 < m_cap m1"
    using maybe_grow_spec [OF inv, of ok1] by blast
  have ne: "m_entries m \<noteq> None" using inv by (auto simp: strmap_inv_def split: option.splits)
  show ?thesis
  proof (cases "r = 0 \<and> ok2")
    case True
    then show ?thesis
      using g ne insert_owned_spec [OF g(2), of k v] by (auto simp: morph_strmap_set_def)
  next
    case False
    then show ?thesis using g ne by (auto simp: morph_strmap_set_def)
  qed
qed

lemma get_spec:
  assumes inv: "strmap_inv m"
  shows "morph_strmap_get m (Some k) = Some (case strmap_abs m k of None \<Rightarrow> None | Some v \<Rightarrow> v)"
    and "morph_strmap_contains m (Some k) = Some (k \<in> dom (strmap_abs m))"
proof -
  obtain es i found where f: "m_entries m = Some es" "table_ok es" "i < length es"
    "strmap_find_slot m k (length k) (strmap_hash k) = Some (Inr (i, found))"
    "if found then e_state (es ! i) = STRMAP_USED \<and> e_key (es ! i) = Some k
     else e_state (es ! i) \<noteq> STRMAP_USED \<and> on_path es (strmap_hash k) i \<and>
       (\<forall>j < length es. e_state (es ! j) = STRMAP_USED \<longrightarrow> e_key (es ! j) \<noteq> Some k)"
    using inv by (rule find_slot_spec [of m k])
  have a: "strmap_abs m = table_map es" using f(1) by (simp add: strmap_abs_def)
  have v: "table_map es k = (if found then Some (e_value (es ! i)) else None)"
  proof (cases found)
    case True
    then have "table_map es k = Some (e_value (es ! i))"
      using f(3,5) unfolding table_map_Some [OF f(2)] by auto
    then show ?thesis using True by simp
  next
    case False
    then show ?thesis using f(5) table_map_None [OF f(2), of k] by simp
  qed
  show "morph_strmap_get m (Some k) = Some (case strmap_abs m k of None \<Rightarrow> None | Some v \<Rightarrow> v)"
    using f a v by (simp add: morph_strmap_get_def)
  show "morph_strmap_contains m (Some k) = Some (k \<in> dom (strmap_abs m))"
    using f a v by (cases found) (auto simp: morph_strmap_contains_def)
qed

lemma remove_spec:
  assumes inv: "strmap_inv m"
  shows "\<exists>m'. morph_strmap_remove m (Some k) = Some (k \<in> dom (strmap_abs m), m') \<and> strmap_inv m' \<and>
     strmap_abs m' = (strmap_abs m)(k := None)"
proof -
  obtain es i found where f: "m_entries m = Some es" "table_ok es" "i < length es"
    "strmap_find_slot m k (length k) (strmap_hash k) = Some (Inr (i, found))"
    "if found then e_state (es ! i) = STRMAP_USED \<and> e_key (es ! i) = Some k
     else e_state (es ! i) \<noteq> STRMAP_USED \<and> on_path es (strmap_hash k) i \<and>
       (\<forall>j < length es. e_state (es ! j) = STRMAP_USED \<longrightarrow> e_key (es ! j) \<noteq> Some k)"
    using inv by (rule find_slot_spec [of m k])
  have a: "strmap_abs m = table_map es" using f(1) by (simp add: strmap_abs_def)
  have mi: "m_cap m = length es" "m_count m = n_state STRMAP_USED es" "m_deleted m = n_state STRMAP_DELETED es"
    using inv f(1) by (auto simp: strmap_inv_def)
  show ?thesis
  proof (cases found)
    case True
    then have u: "e_state (es ! i) = STRMAP_USED" "e_key (es ! i) = Some k" using f(5) by auto
    note o = table_ok_remove [OF f(2,3) u]
    have "k \<in> dom (table_map es)" using table_map_None [OF f(2), of k] u f(3) by blast
    then show ?thesis
      using True f a mi o by (auto simp: morph_strmap_remove_def strmap_inv_def strmap_abs_def)
  next
    case False
    then have "table_map es k = None" using f(5) unfolding table_map_None [OF f(2)] by auto
    then show ?thesis using False f a inv by (auto simp: morph_strmap_remove_def)
  qed
qed

lemma clear_spec:
  assumes "strmap_inv m"
  shows "strmap_inv (morph_strmap_clear m)" "strmap_abs (morph_strmap_clear m) = Map.empty"
proof -
  obtain es where es: "m_entries m = Some es" "table_ok es" "m_cap m = length es"
    using assms by (rule strmap_invE)
  obtain k where k: "4 \<le> k" "k \<le> 57" "length es = 2 ^ k" using es(2) by (auto simp: table_ok_def)
  have "morph_strmap_clear m = m\<lparr>m_entries := Some (replicate (2 ^ k) entry_zero), m_count := 0, m_deleted := 0\<rparr>"
    using es(1) k(3) by (simp add: morph_strmap_clear_def map_replicate_const)
  moreover have "n_state STRMAP_USED (replicate (2 ^ k) entry_zero) = 0"
      "n_state STRMAP_DELETED (replicate (2 ^ k) entry_zero) = 0"
    by (simp_all add: n_state_replicate entry_zero_def)
  ultimately show "strmap_inv (morph_strmap_clear m)" "strmap_abs (morph_strmap_clear m) = Map.empty"
    using es k(3) table_ok_replicate [OF k(1,2)] by (simp_all add: strmap_inv_def strmap_abs_def)
qed

lemma len_spec:
  assumes "strmap_inv m"
  shows "morph_strmap_len m = card (dom (strmap_abs m))"
proof -
  obtain es where es: "m_entries m = Some es" "table_ok es" "m_count m = n_state STRMAP_USED es"
      "strmap_abs m = table_map es"
    using assms by (rule strmap_invE)
  let ?u = "filter (\<lambda>e. e_state e = STRMAP_USED) es"
  have "x \<noteq> None" if "x \<in> set (map e_key ?u)" for x
    using that table_ok_distinct(2) [OF es(2)] by (auto simp: entry_ok_def)
  then have "inj_on the (set (map e_key ?u))" by (meson inj_onI option.expand)
  then have "distinct (map (\<lambda>e. the (e_key e)) ?u)"
    using table_ok_distinct(1) [OF es(2)] distinct_map [of the "map e_key ?u"] by (simp add: comp_def)
  then have "card (set (map (\<lambda>e. the (e_key e)) ?u)) = length ?u" using distinct_card by fastforce
  then show ?thesis
    using es by (simp add: morph_strmap_len_def table_map_def dom_map_of_conv_image_fst image_image n_state_def)
qed

text \<open>Growing never fails below \<open>2 ^ 54\<close> entries when the allocator grants the table.\<close>

lemma next_cap_loop_bound:
  "0 < cap \<Longrightarrow> cap \<le> max 16 (2 * n) \<Longrightarrow> n \<le> 2 ^ 62 \<Longrightarrow>
   strmap_next_cap_loop cap n \<noteq> 0 \<and> strmap_next_cap_loop cap n \<le> max 16 (2 * n)"
proof (induction cap n rule: strmap_next_cap_loop.induct)
  case (1 cap n)
  show ?case
  proof (cases "cap < n")
    case True
    then have c: "\<not> cap > SIZE_MAX div 2" using "1.prems"(3) by (simp add: SIZE_MAX_def)
    then have "strmap_next_cap_loop cap n = strmap_next_cap_loop (cap * 2) n"
      using True "1.prems"(1) by (simp add: strmap_next_cap_loop.simps [of cap n])
    moreover have "cap * 2 \<le> max 16 (2 * n)" using True by simp
    ultimately show ?thesis using "1.IH" True c "1.prems" by simp
  next
    case False
    then show ?thesis using "1.prems" by (simp add: strmap_next_cap_loop.simps [of cap n])
  qed
qed

lemma next_cap_bound:
  "n \<le> 2 ^ 62 \<Longrightarrow> strmap_next_cap n \<noteq> 0 \<and> strmap_next_cap n \<le> max 16 (2 * n)"
  unfolding strmap_next_cap_def
  by (rule next_cap_loop_bound) (simp_all add: MORPH_STRMAP_INIT_CAP_def)

lemma rehash_live:
  assumes inv: "strmap_inv m" and small: "m_count m < 2 ^ 54" and c: "c = m_count m * 2 + 1"
    and r: "strmap_rehash True m c = Some (r, m')"
  shows "r = 0"
proof -
  obtain es where es: "m_entries m = Some es" "table_ok es" "m_count m = n_state STRMAP_USED es"
    using inv by (rule strmap_invE)
  have b1: "strmap_next_cap c \<noteq> 0" "strmap_next_cap c \<le> max 16 (2 * c)"
    using next_cap_bound [of c] small c by auto
  let ?d = "strmap_next_cap (strmap_next_cap c)"
  have b2: "?d \<noteq> 0" "?d \<le> max 16 (2 * strmap_next_cap c)"
    using next_cap_bound [of "strmap_next_cap c"] b1 small c by auto
  have "?d * sizeof_strmap_entry \<le> PTRDIFF_MAX"
    using b1 b2 small c by (simp add: sizeof_strmap_entry_def PTRDIFF_MAX_def)
  then obtain nxt :: "'a strmap" where n: "morph_strmap_init True (strmap_next_cap c) = Inr nxt"
    using b1 b2 by (auto simp: morph_strmap_init_def Let_def)
  note i = init_spec [OF n]
  have cap: "m_count m * 2 + 1 \<le> m_cap nxt" using i(5) next_cap_pow2(2) [OF b1(1)] c by simp
  obtain es' n' where "strmap_rehash_loop es nxt = Some (0, es', n')"
    using rehash_loop_spec [OF i(1,4), of es] i cap es table_ok_distinct [OF es(2)] by auto
  then show ?thesis using r n b1 es by (auto simp: strmap_rehash_def)
qed

lemma set_live:
  assumes inv: "strmap_inv m" and small: "m_count m < 2 ^ 54"
    and r: "morph_strmap_set True True m (Some k) v = Some (r, m')"
  shows "r = 0"
proof -
  obtain q m1 where g: "strmap_maybe_grow True m = Some (q, m1)" "strmap_inv m1"
      "q = 0 \<longrightarrow> m_count m1 + m_deleted m1 + 1 < m_cap m1"
    using maybe_grow_spec [OF inv, of True] by blast
  have ne: "m_entries m \<noteq> None" "m_cap m \<noteq> 0" using inv by (auto simp: strmap_inv_def table_ok_def split: option.splits)
  have w: "wrap64 (m_count m * 2 + 1) = m_count m * 2 + 1"
    using small by (intro wrap64_id) (simp add: SIZE_MAX_def)
  have "q = 0"
    using g(1) ne rehash_live [OF inv small refl, of q m1] w
    by (auto simp: strmap_maybe_grow_def Let_def split: if_splits)
  then show ?thesis
    using r g ne insert_owned_spec [OF g(2), of k v] by (auto simp: morph_strmap_set_def)
qed

section \<open>The interface of a string-keyed store\<close>

text \<open>
  What the registries of the agent rely on when they keep their entries in such a map: every call
  returns, a successful \<open>put\<close> binds the key, a failed one changes nothing, \<open>del\<close> unbinds and
  reports whether there was a binding, \<open>fetch\<close> reads the binding.
\<close>

datatype ('o, 'k, 'v) store_op = Put 'o 'k 'v | Del 'k

fun store_op_key :: "('o, 'k, 'v) store_op \<Rightarrow> 'k" where
  "store_op_key (Put e k v) = k"
| "store_op_key (Del k) = k"

inductive map_run :: "('k \<rightharpoonup> 'v) \<Rightarrow> ('o, 'k, 'v) store_op list \<Rightarrow> ('k \<rightharpoonup> 'v) \<Rightarrow> bool" where
  map_run_Nil: "map_run f [] f"
| map_run_put: "map_run (f(k \<mapsto> v)) xs g \<Longrightarrow> map_run f (Put e k v # xs) g"
| map_run_put_failed: "map_run f xs g \<Longrightarrow> map_run f (Put e k v # xs) g"
| map_run_del: "map_run (f(k := None)) xs g \<Longrightarrow> map_run f (Del k # xs) g"

inductive_cases map_run_NilE: "map_run f [] g"
inductive_cases map_run_ConsE: "map_run f (x # xs) g"

locale keyed_store =
  fixes put :: "'o \<Rightarrow> 's \<Rightarrow> 'k \<Rightarrow> 'v \<Rightarrow> (rc \<times> 's) option"
    and del :: "'s \<Rightarrow> 'k \<Rightarrow> (bool \<times> 's) option"
    and has :: "'s \<Rightarrow> 'k \<Rightarrow> bool option"
    and bindings :: "'s \<Rightarrow> ('k \<rightharpoonup> 'v)"
    and inv :: "'s \<Rightarrow> bool"
  assumes put_total: "inv s \<Longrightarrow> \<exists>r s'. put e s k v = Some (r, s') \<and> inv s' \<and>
        bindings s' = (if r = 0 then (bindings s)(k \<mapsto> v) else bindings s)"
    and del_total: "inv s \<Longrightarrow> \<exists>s'. del s k = Some (k \<in> dom (bindings s), s') \<and> inv s' \<and>
        bindings s' = (bindings s)(k := None)"
    and has_total: "inv s \<Longrightarrow> has s k = Some (k \<in> dom (bindings s))"
begin

fun run :: "'s \<Rightarrow> ('o, 'k, 'v) store_op list \<Rightarrow> 's option" where
  "run s [] = Some s"
| "run s (Put e k v # xs) = (case put e s k v of None \<Rightarrow> None | Some (r, s') \<Rightarrow> run s' xs)"
| "run s (Del k # xs) = (case del s k of None \<Rightarrow> None | Some (r, s') \<Rightarrow> run s' xs)"

lemma run_total:
  "inv s \<Longrightarrow> \<exists>s'. run s xs = Some s' \<and> inv s' \<and> map_run (bindings s) xs (bindings s')"
proof (induction xs arbitrary: s)
  case Nil
  then show ?case by (simp add: map_run_Nil)
next
  case (Cons x xs)
  show ?case
  proof (cases x)
    case (Put e k v)
    obtain r s1 where s1: "put e s k v = Some (r, s1)" "inv s1"
        "bindings s1 = (if r = 0 then (bindings s)(k \<mapsto> v) else bindings s)"
      using put_total [OF Cons.prems] by blast
    obtain s2 where s2: "run s1 xs = Some s2" "inv s2" "map_run (bindings s1) xs (bindings s2)"
      using Cons.IH [OF s1(2)] by blast
    have "map_run (bindings s) (Put e k v # xs) (bindings s2)"
      using s1(3) s2(3) by (cases "r = 0") (auto intro: map_run_put map_run_put_failed)
    then show ?thesis using s1 s2 Put by simp
  next
    case (Del k)
    obtain r s1 where s1: "del s k = Some (r, s1)" "inv s1" "bindings s1 = (bindings s)(k := None)"
      using del_total [OF Cons.prems] by blast
    obtain s2 where s2: "run s1 xs = Some s2" "inv s2" "map_run (bindings s1) xs (bindings s2)"
      using Cons.IH [OF s1(2)] by blast
    show ?thesis using s1 s2 Del by (auto intro: map_run_del)
  qed
qed

lemma run_frame:
  "inv s \<Longrightarrow> run s xs = Some s' \<Longrightarrow> k \<notin> store_op_key ` set xs \<Longrightarrow> has s' k = has s k"
proof -
  assume a: "inv s" "run s xs = Some s'" "k \<notin> store_op_key ` set xs"
  have frame: "map_run f ys g \<Longrightarrow> k \<notin> store_op_key ` set ys \<Longrightarrow> g k = f k" for f g ys
    by (induction rule: map_run.induct) auto
  have "inv s'" "bindings s' k = bindings s k" using run_total [OF a(1), of xs] a frame by auto
  then show ?thesis using has_total a(1) by (auto simp: dom_def)
qed

end

definition strmap_put :: "bool \<times> bool \<Rightarrow> 'v strmap \<Rightarrow> cstring \<Rightarrow> 'v option \<Rightarrow> (rc \<times> 'v strmap) option" where
  "strmap_put e m k v = morph_strmap_set (fst e) (snd e) m (Some k) v"

interpretation strmap: keyed_store strmap_put "\<lambda>m k. morph_strmap_remove m (Some k)"
    "\<lambda>m k. morph_strmap_contains m (Some k)" strmap_abs strmap_inv
proof unfold_locales
  show "\<exists>r s'. strmap_put e s k v = Some (r, s') \<and> strmap_inv s' \<and>
      strmap_abs s' = (if r = 0 then (strmap_abs s)(k \<mapsto> v) else strmap_abs s)"
    if "strmap_inv s" for s :: "'v strmap" and e k v
    unfolding strmap_put_def using that by (rule set_spec)
qed (rule remove_spec get_spec(2), assumption)+

section \<open>Properties\<close>


definition strmap_example :: "nat strmap" where
  "strmap_example = \<lparr>m_entries = Some (replicate 16 entry_zero), m_count = 0, m_cap = 16, m_deleted = 0\<rparr>"

lemma strmap_example_init: "morph_strmap_init True 0 = Inr strmap_example"
  by (simp add: morph_strmap_init_def strmap_example_def strmap_next_cap_def
      strmap_next_cap_loop.simps MORPH_STRMAP_INIT_CAP_def sizeof_strmap_entry_def PTRDIFF_MAX_def)


text \<open>
  Set then get.  On a well-formed map \<open>morph_strmap_set\<close> returns; on success the key reads back
  as the stored value, every other key reads as before, and the length counts the distinct keys; on
  failure nothing observable changes.  With fewer than \<open>2 ^ 54\<close> entries and a willing allocator it
  does succeed.
\<close>

theorem strmap_set_get:
  assumes inv: "strmap_inv m"
  shows "\<exists>r m'. morph_strmap_set ok1 ok2 m (Some k) v = Some (r, m') \<and> strmap_inv m' \<and>
     (\<forall>k'. morph_strmap_get m' (Some k') =
        (if r = 0 \<and> k' = k then Some v else morph_strmap_get m (Some k'))) \<and>
     (\<forall>k'. morph_strmap_contains m' (Some k') =
        (if r = 0 \<and> k' = k then Some True else morph_strmap_contains m (Some k'))) \<and>
     morph_strmap_len m' = card (dom (strmap_abs m) \<union> (if r = 0 then {k} else {})) \<and>
     (ok1 \<and> ok2 \<and> m_count m < 2 ^ 54 \<longrightarrow> r = 0)"
proof -
  obtain r m' where s: "morph_strmap_set ok1 ok2 m (Some k) v = Some (r, m')" "strmap_inv m'"
      "strmap_abs m' = (if r = 0 then (strmap_abs m)(k \<mapsto> v) else strmap_abs m)"
    using set_spec [OF inv] by blast
  have "ok1 \<and> ok2 \<and> m_count m < 2 ^ 54 \<longrightarrow> r = 0" using set_live [OF inv] s(1) by auto
  moreover have "dom (strmap_abs m') = dom (strmap_abs m) \<union> (if r = 0 then {k} else {})"
    using s(3) by auto
  ultimately show ?thesis
    using s len_spec [OF s(2)] get_spec [OF s(2)] get_spec [OF inv] by (auto simp: dom_def)
qed

theorem strmap_set_get_witness:
  "\<exists>m'. morph_strmap_set True True strmap_example (Some ''a'') (Some 7) = Some (0, m') \<and>
     morph_strmap_get m' (Some ''a'') = Some (Some 7) \<and> morph_strmap_len m' = 1"
  using strmap_set_get [OF init_spec(1) [OF strmap_example_init], of True True "''a''" "Some 7"]
    init_spec(2,3) [OF strmap_example_init] by auto

text \<open>
  Remove.  On a well-formed map \<open>morph_strmap_remove\<close> returns, reports whether the key was
  bound, unbinds it, leaves every other key alone and keeps the map well-formed although the slot
  becomes a tombstone.
\<close>

theorem strmap_remove_unbinds:
  assumes inv: "strmap_inv m"
  shows "\<exists>m'. morph_strmap_remove m (Some k) = Some (k \<in> dom (strmap_abs m), m') \<and> strmap_inv m' \<and>
     morph_strmap_contains m' (Some k) = Some False \<and> morph_strmap_get m' (Some k) = Some None \<and>
     (\<forall>k'. k' \<noteq> k \<longrightarrow> morph_strmap_get m' (Some k') = morph_strmap_get m (Some k')) \<and>
     morph_strmap_len m' = card (dom (strmap_abs m) - {k})"
proof -
  obtain m' where s: "morph_strmap_remove m (Some k) = Some (k \<in> dom (strmap_abs m), m')" "strmap_inv m'"
      "strmap_abs m' = (strmap_abs m)(k := None)"
    using remove_spec [OF inv] by blast
  then show ?thesis using len_spec [OF s(2)] get_spec [OF s(2)] get_spec [OF inv] by auto
qed

theorem strmap_remove_unbinds_witness:
  "\<exists>m'. morph_strmap_remove strmap_example (Some ''a'') = Some (False, m') \<and> strmap_inv m'"
  using strmap_remove_unbinds [OF init_spec(1) [OF strmap_example_init], of "''a''"]
    init_spec(2) [OF strmap_example_init] by auto

end
