(* ===== verification/Base64.thy ===== *)
theory Base64
  imports Prelude
begin

text \<open>
  The base64 codec of \<open>src/util/base64.c\<close>, used for every image and video that goes to a model
  backend.  Data bytes are \<open>8 word\<close>, text is a C string; the 24-bit group of the encoder is the
  \<open>unsigned int\<close> (\<open>32 word\<close>) of the source.  A null result is \<open>None\<close>; \<open>malloc\<close> answers through
  a boolean argument.
\<close>

type_synonym byte = "8 word"

definition B64_ALPHABET :: cstring where
  "B64_ALPHABET = ''ABCDEFGHIJKLMNOPQRSTUVWXYZabcdefghijklmnopqrstuvwxyz0123456789+/''"

definition char_ge :: "char \<Rightarrow> char \<Rightarrow> bool" where
  "char_ge c d \<longleftrightarrow> (of_char d :: nat) \<le> of_char c"

definition base64_value :: "char \<Rightarrow> int" where
  "base64_value c =
     (if char_ge c CHR ''A'' \<and> char_ge CHR ''Z'' c then of_char c - of_char CHR ''A''
      else if char_ge c CHR ''a'' \<and> char_ge CHR ''z'' c then of_char c - of_char CHR ''a'' + 26
      else if char_ge c CHR ''0'' \<and> char_ge CHR ''9'' c then of_char c - of_char CHR ''0'' + 52
      else if c = CHR ''+'' then 62
      else if c = CHR ''/'' then 63
      else - 1)"

definition b64_char :: "32 word \<Rightarrow> char" where
  "b64_char v = B64_ALPHABET ! unat (v AND 0x3F)"

text \<open>One pass of the encoder's loop; the second and third byte are absent in a short last group.\<close>

definition b64_group :: "byte \<Rightarrow> byte option \<Rightarrow> byte option \<Rightarrow> 32 word" where
  "b64_group a b c =
     push_bit 16 (ucast a) OR
     (case b of None \<Rightarrow> 0 | Some x \<Rightarrow> push_bit 8 (ucast x)) OR
     (case c of None \<Rightarrow> 0 | Some x \<Rightarrow> ucast x)"

definition b64_quad :: "byte \<Rightarrow> byte option \<Rightarrow> byte option \<Rightarrow> char list" where
  "b64_quad a b c =
     (let v = b64_group a b c
      in [b64_char (drop_bit 18 v), b64_char (drop_bit 12 v),
          if b \<noteq> None then b64_char (drop_bit 6 v) else CHR ''='',
          if c \<noteq> None then b64_char v else CHR ''=''])"

fun base64_encode_loop :: "byte list \<Rightarrow> char list" where
  "base64_encode_loop [] = []"
| "base64_encode_loop [a] = b64_quad a None None"
| "base64_encode_loop [a, b] = b64_quad a (Some b) None"
| "base64_encode_loop (a # b # c # rest) = b64_quad a (Some b) (Some c) @ base64_encode_loop rest"

definition base64_encode :: "bool \<Rightarrow> byte list \<Rightarrow> cstring option" where
  "base64_encode ok data = (if ok then Some (base64_encode_loop data) else None)"

text \<open>\<open>file\<close> is the size reported by \<open>ftell\<close> and the bytes delivered by \<open>fread\<close>, \<open>None\<close> when
  the file cannot be opened.\<close>

definition base64_encode_file :: "bool \<Rightarrow> bool \<Rightarrow> (int \<times> byte list) option \<Rightarrow> cstring option" where
  "base64_encode_file ok_data ok_text file =
     (case file of
        None \<Rightarrow> None
      | Some (sz, data) \<Rightarrow>
          if sz \<le> 0 then None
          else if \<not> ok_data then None
          else let rd = take (nat sz) data
               in if rd = [] then None else base64_encode ok_text rd)"

definition b64_bytes :: "int \<Rightarrow> int \<Rightarrow> int \<Rightarrow> int \<Rightarrow> byte list" where
  "b64_bytes a b c d =
     [word_of_int (push_bit 2 a OR drop_bit 4 b),
      word_of_int (push_bit 4 b OR drop_bit 2 c),
      word_of_int (push_bit 6 c OR d)]"

text \<open>The decoder's loop over groups of four characters; \<open>out\<close> is what has been stored so far, each
  store is guarded by \<open>j < decoded_len\<close>.  The last equation is never reached: the length is a
  multiple of four.\<close>

fun base64_decode_loop :: "nat \<Rightarrow> byte list \<Rightarrow> char list \<Rightarrow> byte list option" where
  "base64_decode_loop decoded_len out [] = Some out"
| "base64_decode_loop decoded_len out (p # q # r # s # rest) =
     (let a = base64_value p;
          b = base64_value q;
          c = (if r = CHR ''='' then 0 else base64_value r);
          d = (if s = CHR ''='' then 0 else base64_value s);
          final = (rest = [])
      in if a < 0 \<or> b < 0 \<or> c < 0 \<or> d < 0 \<or>
            (\<not> final \<and> (r = CHR ''='' \<or> s = CHR ''='')) \<or>
            (r = CHR ''='' \<and> s \<noteq> CHR ''='')
         then None
         else base64_decode_loop decoded_len
                (out @ take (decoded_len - length out) (b64_bytes a b c d)) rest)"
| "base64_decode_loop decoded_len out _ = None"

definition b64_padding :: "cstring \<Rightarrow> nat" where
  "b64_padding text =
     (if text ! (length text - 1) = CHR ''='' then 1 else 0) +
     (if text ! (length text - 2) = CHR ''='' then 1 else 0)"

definition base64_decode :: "bool \<Rightarrow> cstring \<Rightarrow> byte list option" where
  "base64_decode ok text =
     (let len = length text
      in if len = 0 \<or> len mod 4 \<noteq> 0 then None
         else if \<not> ok then None
         else base64_decode_loop (len div 4 * 3 - b64_padding text) [] text)"

section \<open>One group\<close>

lemma length_b64_quad [simp]: "length (b64_quad a b c) = 4"
  by (simp add: b64_quad_def Let_def)

lemma alphabet_values:
  "list_all (\<lambda>(i, c). base64_value c = int i) (enumerate 0 B64_ALPHABET)"
  unfolding B64_ALPHABET_def by (simp add: base64_value_def char_ge_def)

lemma length_alphabet: "length B64_ALPHABET = 64"
  by (simp add: B64_ALPHABET_def)

lemma base64_value_alphabet: "n < 64 \<Longrightarrow> base64_value (B64_ALPHABET ! n) = int n"
  using alphabet_values length_alphabet
  by (auto simp: list_all_length nth_enumerate_eq)

lemma alphabet_no_pad: "n < 64 \<Longrightarrow> B64_ALPHABET ! n \<noteq> CHR ''=''"
proof
  assume "n < 64" "B64_ALPHABET ! n = CHR ''=''"
  then have "CHR ''='' \<in> set B64_ALPHABET" by (metis length_alphabet nth_mem)
  then show False by (simp add: B64_ALPHABET_def)
qed

lemma sextet_bound: "unat ((v :: 32 word) AND 0x3F) < 64"
proof -
  have "v AND 0x3F \<le> 0x3F" by (rule word_and_le1)
  then have "unat (v AND 0x3F) \<le> unat (0x3F :: 32 word)" by (simp add: word_le_nat_alt)
  then show ?thesis by simp
qed

lemma base64_value_b64_char [simp]: "base64_value (b64_char v) = uint (v AND 0x3F)"
  using base64_value_alphabet [OF sextet_bound, of v] by (simp add: b64_char_def)

lemma b64_char_no_pad [simp]: "b64_char v \<noteq> CHR ''=''"
  using alphabet_no_pad [OF sextet_bound, of v] by (simp add: b64_char_def)

lemma mask_63: "(0x3F :: 32 word) = mask 6"
  by (simp add: mask_eq_exp_minus_1)

lemma bit_byte_less: "bit (a :: byte) n \<Longrightarrow> n < 8"
  using bit_imp_le_length [of a n] by simp

lemma bit_group:
  fixes a b c :: byte
  shows "bit (push_bit 16 (ucast a) OR push_bit 8 (ucast b) OR ucast c :: 32 word) m \<longleftrightarrow>
    16 \<le> m \<and> bit a (m - 16) \<or> 8 \<le> m \<and> bit b (m - 8) \<or> bit c m"
  by (auto simp: bit_or_iff bit_push_bit_iff bit_unsigned_iff dest: bit_byte_less)

lemma bit_sextet: "bit (uint (drop_bit k (v :: 32 word) AND 0x3F)) n \<longleftrightarrow> n < 6 \<and> bit v (k + n)"
  unfolding mask_63 by (auto simp: bit_uint_iff bit_and_iff bit_mask_iff bit_drop_bit_eq)

lemma bit_sextet0: "bit (uint ((v :: 32 word) AND 0x3F)) n \<longleftrightarrow> n < 6 \<and> bit v n"
  using bit_sextet [of 0] by simp

lemma bit_low: "bit (word_of_int x :: byte) n \<longleftrightarrow> n < 8 \<and> bit x n"
  by (simp add: bit_word_of_int_iff)

text \<open>The three bytes of a group can be read off its four sextets.\<close>

lemma sextets_bytes:
  fixes a b c :: byte
  defines "v \<equiv> (push_bit 16 (ucast a) OR push_bit 8 (ucast b) OR ucast c :: 32 word)"
  shows "word_of_int (push_bit 2 (uint (drop_bit 18 v AND 0x3F)) OR drop_bit 4 (uint (drop_bit 12 v AND 0x3F))) = a"
    and "word_of_int (push_bit 4 (uint (drop_bit 12 v AND 0x3F)) OR drop_bit 2 (uint (drop_bit 6 v AND 0x3F))) = b"
    and "word_of_int (push_bit 6 (uint (drop_bit 6 v AND 0x3F)) OR uint (v AND 0x3F)) = c"
proof -
  note s = bit_low bit_or_iff bit_push_bit_iff bit_drop_bit_eq bit_sextet bit_sextet0 v_def bit_group
  have n8: "n = 0 \<or> n = 1 \<or> n = 2 \<or> n = 3 \<or> n = 4 \<or> n = 5 \<or> n = 6 \<or> n = 7" if "n < LENGTH(8)" for n
    using that by auto
  show "word_of_int (push_bit 2 (uint (drop_bit 18 v AND 0x3F)) OR drop_bit 4 (uint (drop_bit 12 v AND 0x3F))) = a"
    by (rule bit_word_eqI) (drule n8, elim disjE; simp only: s o_apply; auto simp: bit_unsigned_iff dest: bit_byte_less)
  show "word_of_int (push_bit 4 (uint (drop_bit 12 v AND 0x3F)) OR drop_bit 2 (uint (drop_bit 6 v AND 0x3F))) = b"
    by (rule bit_word_eqI) (drule n8, elim disjE; simp only: s o_apply; auto simp: bit_unsigned_iff dest: bit_byte_less)
  show "word_of_int (push_bit 6 (uint (drop_bit 6 v AND 0x3F)) OR uint (v AND 0x3F)) = c"
    by (rule bit_word_eqI) (drule n8, elim disjE; simp only: s o_apply; auto simp: bit_unsigned_iff dest: bit_byte_less)
qed

lemma sextets_two:
  fixes a b :: byte
  defines "v \<equiv> (push_bit 16 (ucast a) OR push_bit 8 (ucast b) :: 32 word)"
  shows "word_of_int (push_bit 2 (uint (drop_bit 18 v AND 0x3F)) OR drop_bit 4 (uint (drop_bit 12 v AND 0x3F))) = a"
    and "word_of_int (push_bit 4 (uint (drop_bit 12 v AND 0x3F)) OR drop_bit 2 (uint (drop_bit 6 v AND 0x3F))) = b"
  using sextets_bytes [of a b 0] by (simp_all add: v_def)

lemma sextets_one:
  fixes a :: byte
  defines "v \<equiv> (push_bit 16 (ucast a) :: 32 word)"
  shows "word_of_int (push_bit 2 (uint (drop_bit 18 v AND 0x3F)) OR drop_bit 4 (uint (drop_bit 12 v AND 0x3F))) = a"
  using sextets_bytes [of a 0 0] by (simp add: v_def)

lemma decode_loop_quad:
  "base64_decode_loop n out (b64_quad a (Some b) (Some c) @ rest)
     = base64_decode_loop n (out @ take (n - length out) [a, b, c]) rest"
  using sextets_bytes [of a b c]
  by (simp add: b64_quad_def b64_group_def Let_def b64_bytes_def or.assoc)

lemma decode_loop_encode:
  "base64_decode_loop (length out + length xs) out (base64_encode_loop xs) = Some (out @ xs)"
proof (induction xs arbitrary: out rule: base64_encode_loop.induct)
  case (2 a)
  then show ?case
    using sextets_one [of a] by (simp add: b64_quad_def b64_group_def Let_def b64_bytes_def)
next
  case (3 a b)
  then show ?case
    using sextets_two [of a b] by (simp add: b64_quad_def b64_group_def Let_def b64_bytes_def)
next
  case (4 a b c rest)
  then show ?case
    using "4" [of "out @ [a, b, c]"] by (simp add: decode_loop_quad)
qed simp

section \<open>Lengths and padding\<close>

lemma length_encode_loop: "length (base64_encode_loop xs) = (length xs + 2) div 3 * 4"
proof (induction xs rule: base64_encode_loop.induct)
  case (4 a b c rest)
  have "(5 + length rest) div 3 = Suc ((length rest + 2) div 3)" by presburger
  with 4 show ?case by simp
qed simp_all

lemma encode_loop_Nil_iff: "base64_encode_loop xs = [] \<longleftrightarrow> xs = []"
  by (cases xs rule: base64_encode_loop.cases) (auto simp: b64_quad_def Let_def)

lemma padding_append:
  "2 \<le> length t \<Longrightarrow> b64_padding (s @ t) = b64_padding t"
  by (auto simp: b64_padding_def nth_append)

lemma padding_encode:
  "xs \<noteq> [] \<Longrightarrow> b64_padding (base64_encode_loop xs) = (3 - length xs mod 3) mod 3"
proof (induction xs rule: base64_encode_loop.induct)
  case (4 a b c rest)
  show ?case
  proof (cases "rest = []")
    case True
    then show ?thesis by (simp add: b64_padding_def b64_quad_def Let_def)
  next
    case False
    then have "2 \<le> length (base64_encode_loop rest)"
      by (cases rest) (simp_all add: length_encode_loop)
    then show ?thesis using "4.IH" [OF False] False by (simp add: padding_append mod_simps)
  qed
qed (simp_all add: b64_padding_def b64_quad_def Let_def)

lemma encode_loop_mod4: "length (base64_encode_loop xs) mod 4 = 0"
  by (simp add: length_encode_loop)

lemma decoded_len_encode:
  assumes "xs \<noteq> []"
  shows "length (base64_encode_loop xs) div 4 * 3 - b64_padding (base64_encode_loop xs) = length xs"
proof -
  have num: "(n + 2) div 3 * 3 - (3 - n mod 3) mod 3 = n" if "0 < n" for n :: nat
  proof -
    have n: "n = 3 * (n div 3) + n mod 3" by simp
    have "n mod 3 = 0 \<or> n mod 3 = 1 \<or> n mod 3 = 2" by presburger
    then show ?thesis
    proof (elim disjE)
      assume r: "n mod 3 = 0"
      then have "(n + 2) div 3 = n div 3" by presburger
      then show ?thesis using n r by simp
    next
      assume r: "n mod 3 = 1"
      then have "(n + 2) div 3 = Suc (n div 3)" by presburger
      then show ?thesis using n r by simp
    next
      assume r: "n mod 3 = 2"
      then have "(n + 2) div 3 = Suc (n div 3)" by presburger
      then show ?thesis using n r by simp
    qed
  qed
  show ?thesis using num [of "length xs"] assms unfolding length_encode_loop padding_encode [OF assms] by simp
qed

lemma decode_loop_length:
  "base64_decode_loop n out t = Some r \<Longrightarrow> length out \<le> n \<Longrightarrow>
   length r = min n (length out + length t div 4 * 3)"
proof (induction n out t rule: base64_decode_loop.induct)
  case (2 n out p q r' s rest)
  let ?c = "if r' = CHR ''='' then 0 else base64_value r'"
  let ?d = "if s = CHR ''='' then 0 else base64_value s"
  let ?out = "out @ take (n - length out) (b64_bytes (base64_value p) (base64_value q) ?c ?d)"
  have good: "\<not> (base64_value p < 0 \<or> base64_value q < 0 \<or> ?c < 0 \<or> ?d < 0 \<or>
      (rest \<noteq> [] \<and> (r' = CHR ''='' \<or> s = CHR ''='')) \<or> (r' = CHR ''='' \<and> s \<noteq> CHR ''=''))"
    and e: "base64_decode_loop n ?out rest = Some r"
    using "2.prems"(1) unfolding base64_decode_loop.simps Let_def by (simp_all split: if_split_asm)
  have l: "length ?out = length out + min (n - length out) 3" by (simp add: b64_bytes_def)
  have "length r = min n (length ?out + length rest div 4 * 3)"
    using "2.IH" [OF refl refl refl refl refl good e] "2.prems"(2) l by simp
  moreover have "length (p # q # r' # s # rest) div 4 * 3 = 3 + length rest div 4 * 3"
    by (simp add: div_add_self1)
  ultimately show ?case using "2.prems"(2) unfolding l by linarith
qed simp_all

section \<open>Properties\<close>

text \<open>
  Decoding the encoding of any non-empty byte sequence gives it back; the encoding has four
  characters for every started group of three bytes.  (The empty sequence encodes to the empty
  string, which the decoder rejects.)
\<close>

theorem base64_roundtrip:
  assumes "xs \<noteq> []"
  shows "\<exists>t. base64_encode True xs = Some t \<and> length t = (length xs + 2) div 3 * 4 \<and>
     base64_decode True t = Some xs"
  using decode_loop_encode [of "[]" xs] assms decoded_len_encode [OF assms]
  by (simp add: base64_encode_def base64_decode_def Let_def encode_loop_mod4 length_encode_loop
      encode_loop_Nil_iff)

theorem base64_roundtrip_witness:
  "\<exists>t. base64_encode True [77, 97, 110, 255] = Some t \<and> t = ''TWFu/w=='' \<and>
     base64_decode True t = Some [77, 97, 110, 255]"
  using base64_roundtrip [of "[77, 97, 110, 255]"]
  by (simp add: base64_encode_def b64_quad_def b64_group_def b64_char_def B64_ALPHABET_def)

text \<open>
  The decoder is safe on arbitrary text: what it accepts has a length that is a positive multiple
  of four, and the number of bytes it returns is the announced one, three per group less the padding,
  so the output block is filled exactly.
\<close>

theorem base64_decode_length:
  assumes "base64_decode ok t = Some r"
  shows "t \<noteq> [] \<and> length t mod 4 = 0 \<and> length r = length t div 4 * 3 - b64_padding t"
proof -
  have t: "t \<noteq> []" "length t mod 4 = 0"
      "base64_decode_loop (length t div 4 * 3 - b64_padding t) [] t = Some r"
    using assms by (auto simp: base64_decode_def Let_def split: if_splits)
  then show ?thesis using decode_loop_length [OF t(3)] by simp
qed

theorem base64_decode_length_witness:
  "base64_decode True ''TWE='' = Some [77, 97] \<and> length [77, 97 :: byte] = 4 div 4 * 3 - b64_padding ''TWE=''"
proof -
  have d: "base64_decode True ''TWE='' = Some [77, 97]"
    by (simp add: base64_decode_def b64_padding_def base64_value_def char_ge_def b64_bytes_def)
  show ?thesis using d base64_decode_length [OF d] by simp
qed

end
