(* ===== verification/Utf8.thy ===== *)
theory Utf8
  imports Prelude
begin

text \<open>
  UTF-8 handling: the scanner of the bundled \<open>vendor/sheredom_utf8.h\<close> that the sources call
  (\<open>utf8nvalid\<close>, \<open>utf8codepoint\<close>, \<open>utf8codepointcalcsize\<close>) and the clamping and sanitising routines of
  \<open>src/util/utf8.c\<close>.

  A C string is the list of its bytes before the terminating NUL; \<open>byte_at\<close> reads the terminator
  just after them.  The routines that take a length also work on buffers with NUL bytes inside.
\<close>

section \<open>The bundled scanner\<close>

definition byte_at :: "string \<Rightarrow> nat \<Rightarrow> nat" where
  "byte_at s i = (if i < length s then of_char (s ! i) else 0)"

definition utf8_cont :: "nat \<Rightarrow> bool" where
  "utf8_cont b = (0xc0 AND b = 0x80)"

text \<open>
  One iteration of the loop of \<open>utf8nvalid\<close> at \<open>str\<close> with \<open>remaining\<close> bytes of the bound left:
  \<open>Some k\<close> advances by \<open>k\<close>, \<open>None\<close> returns \<open>str\<close> as the first invalid position.
\<close>

definition utf8_check_seq :: "string \<Rightarrow> nat \<Rightarrow> nat option" where
  "utf8_check_seq s remaining =
     (let c = byte_at s 0
      in if 0xf8 AND c = 0xf0 then
           if remaining < 4 then None
           else if \<not> utf8_cont (byte_at s 1) \<or> \<not> utf8_cont (byte_at s 2) \<or> \<not> utf8_cont (byte_at s 3) then None
           else if remaining \<noteq> 4 \<and> utf8_cont (byte_at s 4) then None
           else if 0x07 AND c = 0 \<and> 0x30 AND byte_at s 1 = 0 then None
           else Some 4
         else if 0xf0 AND c = 0xe0 then
           if remaining < 3 then None
           else if \<not> utf8_cont (byte_at s 1) \<or> \<not> utf8_cont (byte_at s 2) then None
           else if remaining \<noteq> 3 \<and> utf8_cont (byte_at s 3) then None
           else if 0x0f AND c = 0 \<and> 0x20 AND byte_at s 1 = 0 then None
           else Some 3
         else if 0xe0 AND c = 0xc0 then
           if remaining < 2 then None
           else if \<not> utf8_cont (byte_at s 1) then None
           else if remaining \<noteq> 2 \<and> utf8_cont (byte_at s 2) then None
           else if 0x1e AND c = 0 then None
           else Some 2
         else if 0x80 AND c = 0 then Some 1
         else None)"

lemma utf8_check_seq_pos: "utf8_check_seq s r = Some k \<Longrightarrow> 0 < k"
  by (auto simp: utf8_check_seq_def Let_def split: if_splits)

text \<open>\<open>utf8nvalid\<close> returns null for valid text (\<open>None\<close> here) or the first invalid position.\<close>

function utf8nvalid_loop :: "string \<Rightarrow> nat \<Rightarrow> nat \<Rightarrow> nat option" where
  "utf8nvalid_loop s remaining consumed =
     (if remaining = 0 \<or> s = [] \<or> hd s = NUL then None
      else (case utf8_check_seq s remaining of
          None \<Rightarrow> Some consumed
        | Some k \<Rightarrow> utf8nvalid_loop (drop k s) (remaining - k) (consumed + k)))"
  by pat_completeness auto
termination
  by (relation "measure (\<lambda>(s, r, c). length s)") (auto dest: utf8_check_seq_pos)

declare utf8nvalid_loop.simps [simp del]

definition utf8nvalid :: "string \<Rightarrow> nat \<Rightarrow> nat option" where
  "utf8nvalid s n = utf8nvalid_loop s n 0"

definition utf8valid :: "string \<Rightarrow> nat option" where
  "utf8valid s = utf8nvalid s SIZE_MAX"

definition utf8codepointcalcsize :: "string \<Rightarrow> nat" where
  "utf8codepointcalcsize s =
     (let c = byte_at s 0
      in if 0xf8 AND c = 0xf0 then 4 else if 0xf0 AND c = 0xe0 then 3
         else if 0xe0 AND c = 0xc0 then 2 else 1)"

text \<open>
  \<open>utf8codepoint\<close> reads as many bytes as the first one announces.  The bytes of the string and
  its terminator may be read; past the terminator the read is undefined behaviour (\<open>None\<close>).  A
  stray byte above 127 is a negative \<open>char\<close>.
\<close>

definition utf8codepoint :: "string \<Rightarrow> (int \<times> nat) option" where
  "utf8codepoint s =
     (let c = byte_at s 0; b = (\<lambda>i. byte_at s i)
      in if 0xf8 AND c = 0xf0 then
           if length s < 3 then None
           else Some (int (push_bit 18 (0x07 AND c) OR push_bit 12 (0x3f AND b 1)
                        OR push_bit 6 (0x3f AND b 2) OR (0x3f AND b 3)), 4)
         else if 0xf0 AND c = 0xe0 then
           if length s < 2 then None
           else Some (int (push_bit 12 (0x0f AND c) OR push_bit 6 (0x3f AND b 1) OR (0x3f AND b 2)), 3)
         else if 0xe0 AND c = 0xc0 then
           Some (int (push_bit 6 (0x1f AND c) OR (0x3f AND b 1)), 2)
         else Some (if c < 128 then int c else int c - 256, 1))"

section \<open>Clamping and sanitising\<close>

fun utf8_clamp_loop :: "string \<Rightarrow> nat \<Rightarrow> nat" where
  "utf8_clamp_loop s 0 = 0"
| "utf8_clamp_loop s (Suc pos) =
     (if utf8nvalid s (Suc pos) \<noteq> None then utf8_clamp_loop s pos else Suc pos)"

definition utf8_clamp_bytes :: "string \<Rightarrow> nat \<Rightarrow> nat" where
  "utf8_clamp_bytes s max_bytes =
     (if length s \<le> max_bytes then length s else utf8_clamp_loop s max_bytes)"

definition utf8_next_codepoint_len :: "string \<Rightarrow> nat \<Rightarrow> nat" where
  "utf8_next_codepoint_len s avail =
     (if avail = 0 \<or> byte_at s 0 = 0 then 0
      else let cp_len = utf8codepointcalcsize s
        in if cp_len = 0 \<or> cp_len > avail then 1
           else if utf8nvalid s cp_len \<noteq> None then 1 else cp_len)"

definition utf8_decode_codepoint :: "string \<Rightarrow> nat \<Rightarrow> (int \<times> nat) option option" where
  "utf8_decode_codepoint s avail =
     (let len = utf8_next_codepoint_len s avail
      in if avail = 0 \<or> len = 0 then Some None
         else if len = 1 \<and> byte_at s 0 \<ge> 0x80 then Some None
         else (case utf8codepoint s of None \<Rightarrow> None | Some (raw, n) \<Rightarrow> Some (Some (raw, len))))"

definition utf8_truncation_marker :: string where
  "utf8_truncation_marker = [CHR 0xE2, CHR 0x80, CHR 0xA6] @ ''(truncated)''"

definition utf8_dup_clamped :: "string \<Rightarrow> nat \<Rightarrow> string" where
  "utf8_dup_clamped src max_bytes =
     (let marker_len = length utf8_truncation_marker
      in if length src \<le> max_bytes then src
         else if max_bytes \<le> marker_len then take (utf8_clamp_bytes src max_bytes) src
         else take (utf8_clamp_bytes src (max_bytes - marker_len)) src @ utf8_truncation_marker)"

text \<open>
  \<open>utf8_sanitize_into\<close> with \<open>dst\<close> apart from \<open>src\<close>: the bytes written, from the unread part of
  \<open>src\<close> (of \<open>src_len - i\<close> bytes).
\<close>

function utf8_sanitize_into :: "string \<Rightarrow> string" where
  "utf8_sanitize_into src =
     (if src = [] then []
      else let c = byte_at src 0; cp_len = utf8codepointcalcsize src
        in if c = 0 then utf8_sanitize_into (tl src)
           else if c < 0x80 then hd src # utf8_sanitize_into (tl src)
           else if cp_len = 0 \<or> cp_len > length src then utf8_sanitize_into (tl src)
           else if utf8nvalid src cp_len \<noteq> None then utf8_sanitize_into (tl src)
           else take cp_len src @ utf8_sanitize_into (drop cp_len src))"
  by pat_completeness auto
termination
  by (relation "measure length") auto

declare utf8_sanitize_into.simps [simp del]

text \<open>
  The same routine when \<open>dst\<close> and \<open>src\<close> are one buffer, as \<open>utf8_sanitize_inplace\<close> calls it: every
  store goes to the buffer that is still being read.
\<close>

fun copy_within :: "string \<Rightarrow> nat \<Rightarrow> nat \<Rightarrow> nat \<Rightarrow> string" where
  "copy_within buf i j 0 = buf"
| "copy_within buf i j (Suc k) = copy_within (buf[j := buf ! i]) (Suc i) (Suc j) k"

function utf8_sanitize_alias :: "string \<Rightarrow> nat \<Rightarrow> nat \<Rightarrow> string \<times> nat" where
  "utf8_sanitize_alias buf i j =
     (if i \<ge> length buf then (buf, j)
      else let c = byte_at buf i; cp_len = utf8codepointcalcsize (drop i buf)
        in if c = 0 then utf8_sanitize_alias buf (Suc i) j
           else if c < 0x80 then utf8_sanitize_alias (buf[j := buf ! i]) (Suc i) (Suc j)
           else if cp_len = 0 \<or> i + cp_len > length buf then utf8_sanitize_alias buf (Suc i) j
           else if utf8nvalid (drop i buf) cp_len \<noteq> None then utf8_sanitize_alias buf (Suc i) j
           else utf8_sanitize_alias (copy_within buf i j cp_len) (i + cp_len) (j + cp_len))"
  by pat_completeness auto

lemma length_copy_within [simp]: "length (copy_within buf i j k) = length buf"
  by (induction buf i j k rule: copy_within.induct) auto

termination utf8_sanitize_alias
  by (relation "measure (\<lambda>(buf, i, j). length buf - i)") auto

declare utf8_sanitize_alias.simps [simp del]

definition utf8_sanitize_inplace :: "string \<Rightarrow> string" where
  "utf8_sanitize_inplace s = (case utf8_sanitize_alias s 0 0 of (buf, clean) \<Rightarrow> take clean buf)"

definition utf8_copy_sanitized_clamped :: "nat \<Rightarrow> string \<Rightarrow> nat \<Rightarrow> string" where
  "utf8_copy_sanitized_clamped dst_cap src max_bytes =
     (let src_len = length src;
          src_len = (if src_len > max_bytes then max_bytes else src_len);
          src_len = (if src_len \<ge> dst_cap then dst_cap - 1 else src_len);
          safe = utf8_clamp_bytes src src_len
      in utf8_sanitize_into (take safe src))"

section \<open>Well-formed sequences\<close>

definition wf_seq :: "string \<Rightarrow> bool" where
  "wf_seq q = (q \<noteq> [] \<and> hd q \<noteq> NUL \<and> utf8_check_seq q (length q) = Some (length q))"

definition utf8_wf :: "string \<Rightarrow> bool" where
  "utf8_wf s = (\<exists>qs. s = concat qs \<and> (\<forall>q \<in> set qs. wf_seq q))"

lemma utf8_cont_0 [simp]: "\<not> utf8_cont 0"
  by (simp add: utf8_cont_def)

lemma utf8_cont_in_string: "utf8_cont (byte_at s i) \<Longrightarrow> i < length s"
  by (cases "i < length s") (auto simp: byte_at_def)

lemma byte_at_take: "i < k \<Longrightarrow> k \<le> length s \<Longrightarrow> byte_at (take k s) i = byte_at s i"
  by (simp add: byte_at_def)

lemma byte_at_append: "i < length q \<Longrightarrow> byte_at (q @ t) i = byte_at q i"
  by (simp add: byte_at_def nth_append)

lemma byte_at_append_next: "byte_at (q @ t) (length q) = byte_at t 0"
  by (simp add: byte_at_def nth_append)

text \<open>
  The check read as one condition: the first byte announces \<open>k\<close> bytes (and the sequence is not
  overlong), the others are continuation bytes, and nothing of the same sequence follows.
\<close>

definition lead :: "nat \<Rightarrow> nat \<Rightarrow> nat \<Rightarrow> bool" where
  "lead k c b1 =
     (if 0xf8 AND c = 0xf0 then k = 4 \<and> \<not> (0x07 AND c = 0 \<and> 0x30 AND b1 = 0)
      else if 0xf0 AND c = 0xe0 then k = 3 \<and> \<not> (0x0f AND c = 0 \<and> 0x20 AND b1 = 0)
      else if 0xe0 AND c = 0xc0 then k = 2 \<and> 0x1e AND c \<noteq> 0
      else k = 1 \<and> 0x80 AND c = 0)"

definition seq_ok :: "nat \<Rightarrow> nat \<Rightarrow> (nat \<Rightarrow> nat) \<Rightarrow> bool" where
  "seq_ok k r b = (lead k (b 0) (b 1) \<and> (\<forall>i. 0 < i \<longrightarrow> i < k \<longrightarrow> utf8_cont (b i))
     \<and> (k = 1 \<or> k \<le> r \<and> (r = k \<or> \<not> utf8_cont (b k))))"

lemma less_numeral_cases:
  "(\<forall>i. 0 < i \<longrightarrow> i < (4::nat) \<longrightarrow> P i) \<longleftrightarrow> P 1 \<and> P 2 \<and> P 3"
  "(\<forall>i. 0 < i \<longrightarrow> i < (3::nat) \<longrightarrow> P i) \<longleftrightarrow> P 1 \<and> P 2"
  "(\<forall>i. 0 < i \<longrightarrow> i < (2::nat) \<longrightarrow> P i) \<longleftrightarrow> P 1"
proof -
  have "i = 1 \<or> i = 2 \<or> i = 3" if "0 < i" "i < 4" for i :: nat using that by linarith
  then show "(\<forall>i. 0 < i \<longrightarrow> i < (4::nat) \<longrightarrow> P i) \<longleftrightarrow> P 1 \<and> P 2 \<and> P 3" by auto
  have "i = 1 \<or> i = 2" if "0 < i" "i < 3" for i :: nat using that by linarith
  then show "(\<forall>i. 0 < i \<longrightarrow> i < (3::nat) \<longrightarrow> P i) \<longleftrightarrow> P 1 \<and> P 2" by auto
  have "i = Suc 0" if "0 < i" "i < 2" for i :: nat using that by linarith
  then have "P i" if "P (Suc 0)" "0 < i" "i < 2" for i :: nat using that by metis
  then show "(\<forall>i. 0 < i \<longrightarrow> i < (2::nat) \<longrightarrow> P i) \<longleftrightarrow> P 1" by auto
qed

lemma utf8_check_seq_iff: "utf8_check_seq s r = Some k \<longleftrightarrow> seq_ok k r (byte_at s)"
proof -
  define c where "c = byte_at s 0"
  consider (four) "0xf8 AND c = 0xf0"
    | (three) "0xf8 AND c \<noteq> 0xf0" "0xf0 AND c = 0xe0"
    | (two) "0xf8 AND c \<noteq> 0xf0" "0xf0 AND c \<noteq> 0xe0" "0xe0 AND c = 0xc0"
    | (one) "0xf8 AND c \<noteq> 0xf0" "0xf0 AND c \<noteq> 0xe0" "0xe0 AND c \<noteq> 0xc0"
    by blast
  then show ?thesis
  proof cases
    case four
    then show ?thesis
      unfolding utf8_check_seq_def seq_ok_def lead_def Let_def c_def [symmetric]
      by (cases "k = 4") (auto simp: less_numeral_cases)
  next
    case three
    then show ?thesis
      unfolding utf8_check_seq_def seq_ok_def lead_def Let_def c_def [symmetric]
      by (cases "k = 3") (auto simp: less_numeral_cases)
  next
    case two
    then show ?thesis
      unfolding utf8_check_seq_def seq_ok_def lead_def Let_def c_def [symmetric]
      by (cases "k = 2") (auto simp: less_numeral_cases)
  next
    case one
    then show ?thesis
      unfolding utf8_check_seq_def seq_ok_def lead_def Let_def c_def [symmetric]
      by (cases "k = 1") auto
  qed
qed

lemma lead_range: "lead k c b \<Longrightarrow> 1 \<le> k \<and> k \<le> 4"
  by (auto simp: lead_def split: if_splits)

lemma utf8_check_seq_pos': "utf8_check_seq s r = Some k \<Longrightarrow> 0 < k \<and> k \<le> 4"
  using lead_range [of k "byte_at s 0" "byte_at s 1"] by (auto simp: utf8_check_seq_iff seq_ok_def)

lemma utf8_check_seq_bound:
  assumes "utf8_check_seq s r = Some k" "s \<noteq> []" "0 < r"
  shows "k \<le> length s" "k \<le> r"
proof -
  have ok: "seq_ok k r (byte_at s)" using assms(1) by (simp add: utf8_check_seq_iff)
  then have "k = 1 \<or> k \<le> r" unfolding seq_ok_def by blast
  then show "k \<le> r" using assms(3) by auto
  show "k \<le> length s"
  proof (cases "k = 1")
    case True
    then show ?thesis using assms(2) by (simp add: Suc_le_eq)
  next
    case False
    then have "0 < k - 1" "k - 1 < k" using utf8_check_seq_pos' [OF assms(1)] by auto
    then have "k - 1 < length s" using ok utf8_cont_in_string [of s "k - 1"] by (simp add: seq_ok_def)
    then show ?thesis by simp
  qed
qed

lemma seq_ok_cong: "(\<And>i. i < max k 2 \<Longrightarrow> b i = b' i) \<Longrightarrow> seq_ok k k b \<Longrightarrow> seq_ok k k b'"
  by (auto simp: seq_ok_def)

lemma lead_1: "lead 1 c b = lead 1 c b'"
  by (simp add: lead_def)

lemma seq_ok_transfer:
  assumes "seq_ok k r b" "\<And>i. i < k \<Longrightarrow> b' i = b i" "k = 1 \<or> k \<le> r' \<and> (r' = k \<or> \<not> utf8_cont (b' k))"
  shows "seq_ok k r' b'"
proof (cases "k = 1")
  case True
  then show ?thesis using assms lead_1 by (auto simp: seq_ok_def)
next
  case False
  then have "1 < k" using assms(1) lead_range [of k] by (force simp: seq_ok_def)
  then have "b' 0 = b 0" "b' 1 = b 1" using assms(2) by auto
  then show ?thesis using assms by (auto simp: seq_ok_def)
qed

lemma utf8_check_seq_take:
  assumes "utf8_check_seq s r = Some k" "s \<noteq> []" "0 < r"
  shows "utf8_check_seq (take k s) k = Some k"
proof -
  have "byte_at (take k s) i = byte_at s i" if "i < k" for i
    using utf8_check_seq_bound(1) [OF assms] that by (simp add: byte_at_take)
  then show ?thesis
    using assms(1) unfolding utf8_check_seq_iff by (elim seq_ok_transfer) auto
qed

text \<open>A first byte is never a continuation byte.\<close>

lemma mask_sub: "(a :: nat) AND m = a \<Longrightarrow> m AND c = v \<Longrightarrow> a AND c = a AND v"
  by (metis and.assoc)

lemma lead_not_cont:
  assumes "lead k c b"
  shows "\<not> utf8_cont c"
proof -
  consider "0xf8 AND c = 0xf0" | "0xf0 AND c = 0xe0" | "0xe0 AND c = 0xc0" | "0x80 AND c = 0"
    using assms unfolding lead_def by metis
  then have "0xc0 AND c \<noteq> 0x80"
  proof cases
    case 1
    then have "0xc0 AND c = 0xc0 AND 0xf0" by (rule mask_sub [rotated]) simp
    then show ?thesis by simp
  next
    case 2
    then have "0xc0 AND c = 0xc0 AND 0xe0" by (rule mask_sub [rotated]) simp
    then show ?thesis by simp
  next
    case 3
    then have "0xc0 AND c = 0xc0 AND 0xc0" by (rule mask_sub [rotated]) simp
    then show ?thesis by simp
  next
    case 4
    have "0x80 AND c = 0x80 AND 0x80" if "0xc0 AND c = 0x80" using that by (rule mask_sub [rotated]) simp
    then show ?thesis using 4 by auto
  qed
  then show ?thesis by (simp add: utf8_cont_def)
qed

lemma wf_seq_head_not_cont:
  assumes "wf_seq q"
  shows "\<not> utf8_cont (byte_at (q @ t) 0)"
proof -
  have "byte_at (q @ t) 0 = byte_at q 0" using assms by (simp add: wf_seq_def byte_at_append)
  moreover have "lead (length q) (byte_at q 0) (byte_at q 1)"
    using assms by (simp add: wf_seq_def utf8_check_seq_iff seq_ok_def)
  ultimately show ?thesis using lead_not_cont by simp
qed

lemma utf8_check_seq_append:
  assumes "utf8_check_seq q (length q) = Some (length q)" "length q \<le> r"
    and "r = length q \<or> \<not> utf8_cont (byte_at t 0)"
  shows "utf8_check_seq (q @ t) r = Some (length q)"
  using assms unfolding utf8_check_seq_iff
  by (elim seq_ok_transfer) (auto simp: byte_at_append byte_at_append_next)

lemma utf8_wf_Nil [simp]: "utf8_wf []"
  by (auto simp: utf8_wf_def intro: exI [of _ "[]"])

lemma utf8_wf_seq_append: "wf_seq q \<Longrightarrow> utf8_wf s \<Longrightarrow> utf8_wf (q @ s)"
proof -
  assume q: "wf_seq q" and "utf8_wf s"
  then obtain qs where "s = concat qs" "\<forall>q \<in> set qs. wf_seq q" by (auto simp: utf8_wf_def)
  with q show "utf8_wf (q @ s)" unfolding utf8_wf_def by (intro exI [of _ "q # qs"]) auto
qed

lemma utf8_wf_append: "utf8_wf s \<Longrightarrow> utf8_wf t \<Longrightarrow> utf8_wf (s @ t)"
proof -
  assume "utf8_wf s" "utf8_wf t"
  then obtain qs rs where "s = concat qs" "\<forall>q \<in> set qs. wf_seq q" "t = concat rs" "\<forall>q \<in> set rs. wf_seq q"
    by (auto simp: utf8_wf_def)
  then show ?thesis unfolding utf8_wf_def by (intro exI [of _ "qs @ rs"]) auto
qed

lemma utf8_wf_cases:
  assumes "utf8_wf s" "s \<noteq> []"
  obtains q t where "s = q @ t" "wf_seq q" "utf8_wf t"
proof -
  obtain qs where "s = concat qs" "\<forall>q \<in> set qs. wf_seq q" using assms(1) by (auto simp: utf8_wf_def)
  with assms(2) show ?thesis by (cases qs) (auto intro!: that simp: utf8_wf_def)
qed

lemma utf8_wf_head_not_cont: "utf8_wf s \<Longrightarrow> \<not> utf8_cont (byte_at s 0)"
proof (cases "s = []")
  case False
  assume "utf8_wf s"
  then obtain q t where "s = q @ t" "wf_seq q" using False utf8_wf_cases by metis
  then show ?thesis using wf_seq_head_not_cont [of q t] by simp
qed (simp add: byte_at_def)

text \<open>The scanner accepts exactly the well-formed prefixes.\<close>

lemma utf8nvalid_loop_sound:
  "utf8nvalid_loop s r c = None \<Longrightarrow> NUL \<notin> set s \<Longrightarrow> utf8_wf (take r s)"
proof (induction s r c rule: utf8nvalid_loop.induct)
  case (1 s r c)
  show ?case
  proof (cases "r = 0 \<or> s = [] \<or> hd s = NUL")
    case True
    then show ?thesis using 1(3) by (cases s) auto
  next
    case False
    then obtain k where k: "utf8_check_seq s r = Some k" "utf8nvalid_loop (drop k s) (r - k) (c + k) = None"
      using 1(2) by (subst (asm) utf8nvalid_loop.simps) (auto split: option.splits)
    have kb: "k \<le> length s" "k \<le> r" "0 < k"
      using utf8_check_seq_bound [OF k(1)] utf8_check_seq_pos [OF k(1)] False by auto
    have "utf8_wf (take (r - k) (drop k s))"
      using 1(1) [OF False k(1) k(2)] 1(3) by (meson in_set_dropD)
    moreover have "wf_seq (take k s)"
      using utf8_check_seq_take [OF k(1)] False kb by (cases s) (auto simp: wf_seq_def min_def)
    ultimately have "utf8_wf (take k s @ take (r - k) (drop k s))" by (rule utf8_wf_seq_append [rotated])
    then show ?thesis using kb by (metis le_add_diff_inverse take_add)
  qed
qed

lemma utf8nvalid_loop_complete:
  "utf8_wf (take r s) \<Longrightarrow> utf8nvalid_loop s r c = None"
proof (induction s r c rule: utf8nvalid_loop.induct)
  case (1 s r c)
  show ?case
  proof (cases "r = 0 \<or> s = [] \<or> hd s = NUL")
    case True
    then show ?thesis by (subst utf8nvalid_loop.simps) auto
  next
    case False
    then have "take r s \<noteq> []" by simp
    then obtain q t where q: "take r s = q @ t" "wf_seq q" "utf8_wf t"
      using 1(2) utf8_wf_cases by metis
    have len: "length q \<le> r" using arg_cong [OF q(1), of length] by simp
    have s: "s = q @ drop (length q) s"
      using q(1) by (metis append_eq_conv_conj append_take_drop_id min.absorb1 len take_take)
    have t: "t = take (r - length q) (drop (length q) s)"
      using q(1) by (metis append_eq_conv_conj drop_take)
    have "r = length q \<or> \<not> utf8_cont (byte_at (drop (length q) s) 0)"
    proof (cases "t = []")
      case True
      then show ?thesis using t q(1) len by (auto simp: byte_at_def)
    next
      case False
      then have "byte_at (drop (length q) s) 0 = byte_at t 0" unfolding t by (simp add: byte_at_def)
      then show ?thesis using utf8_wf_head_not_cont [OF q(3)] by simp
    qed
    then have k: "utf8_check_seq s r = Some (length q)"
      using utf8_check_seq_append [of q r "drop (length q) s"] q(2) len s by (simp add: wf_seq_def)
    have "utf8nvalid_loop (drop (length q) s) (r - length q) (c + length q) = None"
      using 1(1) [OF False k] q(3) t by simp
    then show ?thesis using k False by (subst utf8nvalid_loop.simps) simp
  qed
qed

lemma utf8nvalid_iff: "NUL \<notin> set s \<Longrightarrow> utf8nvalid s n = None \<longleftrightarrow> utf8_wf (take n s)"
  unfolding utf8nvalid_def using utf8nvalid_loop_sound utf8nvalid_loop_complete by blast

lemma wf_seq_length: "wf_seq q \<Longrightarrow> length q \<le> 4"
  using utf8_check_seq_pos' by (auto simp: wf_seq_def)

section \<open>Clamping\<close>

lemma utf8_clamp_loop_le: "utf8_clamp_loop s n \<le> n"
  by (induction s n rule: utf8_clamp_loop.induct) auto

lemma utf8_clamp_loop_wf: "NUL \<notin> set s \<Longrightarrow> utf8_wf (take (utf8_clamp_loop s n) s)"
  by (induction s n rule: utf8_clamp_loop.induct) (auto simp: utf8nvalid_iff)

lemma utf8_clamp_loop_max:
  "NUL \<notin> set s \<Longrightarrow> p \<le> n \<Longrightarrow> utf8_wf (take p s) \<Longrightarrow> p \<le> utf8_clamp_loop s n"
proof (induction s n rule: utf8_clamp_loop.induct)
  case (2 s pos)
  show ?case
  proof (cases "p = Suc pos")
    case True
    then show ?thesis using 2(2,4) by (simp add: utf8nvalid_iff)
  next
    case False
    then show ?thesis using 2 by (cases "utf8nvalid s (Suc pos) \<noteq> None") auto
  qed
qed simp

text \<open>In well-formed text every position is at most three bytes after a boundary.\<close>

lemma utf8_wf_boundary:
  assumes "utf8_wf s" "n \<le> length s"
  shows "\<exists>p. p \<le> n \<and> n \<le> p + 3 \<and> utf8_wf (take p s)"
proof -
  obtain qs where "s = concat qs" "\<forall>q \<in> set qs. wf_seq q" using assms(1) by (auto simp: utf8_wf_def)
  then show ?thesis using assms(2)
  proof (induction qs arbitrary: s n)
    case (Cons q qs)
    show ?case
    proof (cases "length q \<le> n")
      case True
      then obtain p where p: "p \<le> n - length q" "n - length q \<le> p + 3" "utf8_wf (take p (concat qs))"
        using Cons.IH [of "concat qs" "n - length q"] Cons.prems by (auto simp: le_diff_conv add.commute)
      have "utf8_wf (take (length q + p) s)"
        using Cons.prems p(3) utf8_wf_seq_append [of q] by simp
      then show ?thesis using p True by (intro exI [of _ "length q + p"]) auto
    next
      case False
      moreover have "length q \<le> 4" using Cons.prems wf_seq_length by simp
      ultimately show ?thesis by (intro exI [of _ 0]) auto
    qed
  qed auto
qed

text \<open>
  \<open>utf8_clamp_bytes\<close> never cuts a code point: whatever NUL-free text it gets, when the text is
  longer than the limit the returned length is at most the limit and is the longest prefix length that is
  well-formed UTF-8; and when the whole text is well formed at most three bytes of the limit are
  given up.
\<close>

theorem utf8_clamp_spec:
  assumes "NUL \<notin> set s" "max_bytes < length s"
  shows "utf8_clamp_bytes s max_bytes \<le> max_bytes
       \<and> utf8_wf (take (utf8_clamp_bytes s max_bytes) s)
       \<and> (\<forall>p. p \<le> max_bytes \<and> utf8_wf (take p s) \<longrightarrow> p \<le> utf8_clamp_bytes s max_bytes)
       \<and> (utf8_wf s \<longrightarrow> max_bytes \<le> utf8_clamp_bytes s max_bytes + 3)"
proof -
  have c: "utf8_clamp_bytes s max_bytes = utf8_clamp_loop s max_bytes"
    using assms by (simp add: utf8_clamp_bytes_def)
  have max: "p \<le> utf8_clamp_loop s max_bytes" if "p \<le> max_bytes" "utf8_wf (take p s)" for p
    using assms(1) that by (rule utf8_clamp_loop_max)
  have "max_bytes \<le> utf8_clamp_loop s max_bytes + 3" if "utf8_wf s"
    using utf8_wf_boundary [OF that, of max_bytes] max assms(2) by force
  then show ?thesis
    unfolding c using utf8_clamp_loop_le utf8_clamp_loop_wf [OF assms(1)] max by blast
qed

theorem utf8_clamp_spec_witness:
  "utf8_clamp_bytes [CHR ''a'', CHR 0xC3, CHR 0xA9, CHR ''b''] 2 = 1
   \<and> utf8_wf (take (utf8_clamp_bytes [CHR ''a'', CHR 0xC3, CHR 0xA9, CHR ''b''] 2) [CHR ''a'', CHR 0xC3, CHR 0xA9, CHR ''b''])"
proof -
  have "utf8_clamp_bytes [CHR ''a'', CHR 0xC3, CHR 0xA9, CHR ''b''] 2 = 1" by code_simp
  then show ?thesis
    using utf8_clamp_spec [of "[CHR ''a'', CHR 0xC3, CHR 0xA9, CHR ''b'']" 2] by simp
qed

section \<open>Sanitising\<close>

lemma byte_at_0_iff: "byte_at (c # s) 0 = 0 \<longleftrightarrow> c = NUL"
proof
  assume "byte_at (c # s) 0 = 0"
  then have "of_char c = (of_char NUL :: nat)" by (simp add: byte_at_def)
  then show "c = NUL" by (simp only: of_char_eq_iff)
qed (simp add: byte_at_def)

lemma calcsize_lead: "lead k (byte_at s 0) b \<Longrightarrow> utf8codepointcalcsize s = k"
  by (auto simp: lead_def utf8codepointcalcsize_def Let_def split: if_splits)

lemma wf_seq_calcsize: "wf_seq q \<Longrightarrow> utf8codepointcalcsize (q @ t) = length q"
  by (rule calcsize_lead [of _ _ "byte_at q 1"])
    (auto simp: wf_seq_def utf8_check_seq_iff seq_ok_def byte_at_append)

lemma ascii_mask: "(0x80 :: nat) AND n = 0 \<longleftrightarrow> n < 128" if "n < 256"
proof
  assume a: "(0x80 :: nat) AND n = 0"
  show "n < 128"
  proof (rule ccontr)
    assume "\<not> n < 128"
    then have "n div 128 = 1" using that by linarith
    then have "bit n 7" by (simp add: bit_iff_odd_drop_bit drop_bit_eq_div)
    moreover have "bit (0x80 :: nat) 7" by (simp add: bit_iff_odd_drop_bit drop_bit_eq_div)
    ultimately have "bit (0x80 AND n) 7" by (simp only: bit_and_iff)
    with a show False by simp
  qed
next
  assume "n < 128"
  then have "n AND 127 = n" using and_pow2_minus_1 [of n 7] by simp
  then have "0x80 AND n = (0x80 AND 127) AND n" by (metis and.assoc and.commute)
  then show "(0x80 :: nat) AND n = 0" by simp
qed

lemma byte_at_bound: "byte_at s i < 256"
  by (simp add: byte_at_def)

lemma lead_ascii: "n < 128 \<Longrightarrow> lead k n b \<longleftrightarrow> k = 1"
proof -
  assume "n < 128"
  then have z: "(0x80 :: nat) AND n = 0" using ascii_mask [of n] by simp
  have "0xf8 AND n \<noteq> 0xf0" using mask_sub [of "0x80" "0xf8" n "0xf0"] z by auto
  moreover have "0xf0 AND n \<noteq> 0xe0" using mask_sub [of "0x80" "0xf0" n "0xe0"] z by auto
  moreover have "0xe0 AND n \<noteq> 0xc0" using mask_sub [of "0x80" "0xe0" n "0xc0"] z by auto
  ultimately show ?thesis using z by (simp add: lead_def)
qed

lemma wf_seq_ascii: "c \<noteq> NUL \<Longrightarrow> byte_at (c # s) 0 < 128 \<Longrightarrow> wf_seq [c]"
  using lead_ascii [of "byte_at [c] 0"]
  by (simp add: wf_seq_def utf8_check_seq_iff seq_ok_def byte_at_def)

lemma wf_seq_single: "wf_seq [c] \<Longrightarrow> byte_at (c # s) 0 < 128"
  using ascii_mask [of "byte_at [c] 0"] byte_at_bound [of "[c]" 0]
  by (auto simp: wf_seq_def utf8_check_seq_iff seq_ok_def lead_def byte_at_def split: if_splits)

lemma utf8nvalid_seq:
  assumes "s \<noteq> []" "hd s \<noteq> NUL" "utf8codepointcalcsize s \<le> length s"
  shows "utf8nvalid s (utf8codepointcalcsize s) = None
     \<longleftrightarrow> wf_seq (take (utf8codepointcalcsize s) s)"
proof
  let ?k = "utf8codepointcalcsize s"
  have kp: "0 < ?k" by (simp add: utf8codepointcalcsize_def Let_def)
  assume "utf8nvalid s ?k = None"
  then obtain k where k: "utf8_check_seq s ?k = Some k"
    using assms kp unfolding utf8nvalid_def
    by (subst (asm) utf8nvalid_loop.simps) (auto split: option.splits)
  have "?k = k"
    using k by (intro calcsize_lead [of _ _ "byte_at s 1"]) (simp add: utf8_check_seq_iff seq_ok_def)
  then show "wf_seq (take ?k s)"
    using utf8_check_seq_take [OF k assms(1) kp] assms kp by (cases s) (auto simp: wf_seq_def)
next
  let ?k = "utf8codepointcalcsize s"
  assume "wf_seq (take ?k s)"
  then have "utf8_wf (take ?k s)" using utf8_wf_seq_append [of _ "[]"] by simp
  then show "utf8nvalid s ?k = None" unfolding utf8nvalid_def by (rule utf8nvalid_loop_complete)
qed

lemma utf8_sanitize_into_wf: "utf8_wf (utf8_sanitize_into s)"
proof (induction s rule: utf8_sanitize_into.induct)
  case (1 s)
  show ?case
  proof (cases s)
    case Nil
    then show ?thesis by (subst utf8_sanitize_into.simps) simp
  next
    case (Cons c t)
    let ?k = "utf8codepointcalcsize s"
    note IH = 1 [OF _ refl refl]
    show ?thesis
      using Cons IH byte_at_0_iff [of c t] wf_seq_ascii [of c t] utf8_wf_seq_append [of "[c]"]
        utf8_wf_seq_append [of "take ?k s"] utf8nvalid_seq [of s]
      by (subst utf8_sanitize_into.simps) (auto simp: Let_def not_less)
  qed
qed

lemma utf8_sanitize_into_seq:
  assumes "wf_seq q"
  shows "utf8_sanitize_into (q @ t) = q @ utf8_sanitize_into t"
proof -
  obtain c q' where q: "q = c # q'" "c \<noteq> NUL" using assms by (cases q) (auto simp: wf_seq_def)
  have k: "utf8codepointcalcsize (q @ t) = length q" using assms by (rule wf_seq_calcsize)
  have c0: "byte_at (q @ t) 0 \<noteq> 0" using byte_at_0_iff [of c "q' @ t"] q by simp
  have v: "utf8nvalid (q @ t) (length q) = None"
    using utf8nvalid_seq [of "q @ t"] assms q k by simp
  show ?thesis
  proof (cases "byte_at (q @ t) 0 < 0x80")
    case True
    then have "lead (length q) (byte_at q 0) (byte_at q 1)" "byte_at q 0 < 128"
      using assms byte_at_append [of 0 q t] q by (auto simp: wf_seq_def utf8_check_seq_iff seq_ok_def)
    then have "length q = 1" using lead_ascii by blast
    then show ?thesis using True c0 q by (subst utf8_sanitize_into.simps) simp
  next
    case False
    then show ?thesis using k c0 v q by (subst utf8_sanitize_into.simps) (simp add: Let_def)
  qed
qed

lemma utf8_sanitize_into_id: "utf8_wf s \<Longrightarrow> utf8_sanitize_into s = s"
proof -
  assume "utf8_wf s"
  then obtain qs where "s = concat qs" "\<forall>q \<in> set qs. wf_seq q" by (auto simp: utf8_wf_def)
  then show ?thesis
  proof (induction qs arbitrary: s)
    case Nil
    then show ?case by (subst utf8_sanitize_into.simps) simp
  qed (simp add: utf8_sanitize_into_seq)
qed

lemma length_utf8_sanitize_into: "length (utf8_sanitize_into s) \<le> length s"
proof (induction s rule: utf8_sanitize_into.induct)
  case (1 s)
  note IH = 1 [OF _ refl refl]
  show ?case
    using IH by (cases s; subst utf8_sanitize_into.simps) (auto simp: Let_def)
qed

subsection \<open>Sanitising in place\<close>

lemma copy_within_eq:
  "j \<le> i \<Longrightarrow> i + k \<le> length buf \<Longrightarrow>
     copy_within buf i j k = take j buf @ take k (drop i buf) @ drop (j + k) buf"
proof (induction buf i j k rule: copy_within.induct)
  case (2 buf i j k)
  then have ij: "i < length buf" "j < length buf" by auto
  have "copy_within buf i j (Suc k)
      = take (Suc j) (buf[j := buf ! i]) @ take k (drop (Suc i) (buf[j := buf ! i])) @ drop (Suc j + k) (buf[j := buf ! i])"
    using 2 by simp
  also have "take (Suc j) (buf[j := buf ! i]) = take j buf @ [buf ! i]"
    using ij by (simp add: take_Suc_conv_app_nth)
  also have "drop (Suc i) (buf[j := buf ! i]) = drop (Suc i) buf" using 2 by simp
  also have "drop (Suc j + k) (buf[j := buf ! i]) = drop (j + Suc k) buf" by simp
  finally show ?case using ij by (simp add: Cons_nth_drop_Suc [symmetric])
qed simp

text \<open>The stores stay behind the reads: the unread part of the buffer is never changed.\<close>

lemma utf8_sanitize_alias_eq:
  "j \<le> i \<Longrightarrow> i \<le> length buf \<Longrightarrow>
   (case utf8_sanitize_alias buf i j of (buf', n) \<Rightarrow> take n buf') = take j buf @ utf8_sanitize_into (drop i buf)"
proof (induction buf i j rule: utf8_sanitize_alias.induct)
  case (1 buf i j)
  show ?case
  proof (cases "i < length buf")
    case False
    then show ?thesis using 1(6,7)
      by (subst utf8_sanitize_alias.simps, subst utf8_sanitize_into.simps) auto
  next
    case True
    let ?k = "utf8codepointcalcsize (drop i buf)"
    have b: "byte_at buf i = byte_at (drop i buf) 0" using True by (simp add: byte_at_def)
    have d: "drop i buf = buf ! i # drop (Suc i) buf" using True by (rule drop_nth_Cons)
    have tl: "tl (drop i buf) = drop (Suc i) buf" using d by simp
    let ?c = "byte_at buf i"
    consider (nul) "?c = 0" | (ascii) "?c \<noteq> 0" "?c < 0x80"
      | (bad) "?c \<noteq> 0" "\<not> ?c < 0x80" "?k = 0 \<or> i + ?k > length buf \<or> utf8nvalid (drop i buf) ?k \<noteq> None"
      | (good) "?c \<noteq> 0" "\<not> ?c < 0x80" "?k \<noteq> 0" "i + ?k \<le> length buf" "utf8nvalid (drop i buf) ?k = None"
      by fastforce
    then show ?thesis
    proof cases
      case nul
      then show ?thesis
        using True 1(1) [OF _ refl refl] 1(6) b tl
        by (subst utf8_sanitize_alias.simps, subst utf8_sanitize_into.simps) simp
    next
      case ascii
      have "take (Suc j) (buf[j := buf ! i]) = take j buf @ [buf ! i]"
        "drop (Suc i) (buf[j := buf ! i]) = drop (Suc i) buf"
        using True 1(6) by (simp_all add: take_Suc_conv_app_nth)
      then show ?thesis
        using ascii True 1(2) [OF _ refl refl] 1(6) b tl
        by (subst utf8_sanitize_alias.simps, subst utf8_sanitize_into.simps) (simp add: hd_drop_conv_nth)
    next
      case bad
      then have a1: "utf8_sanitize_alias buf i j = utf8_sanitize_alias buf (Suc i) j"
        using True by (subst utf8_sanitize_alias.simps) (auto simp: Let_def)
      have a2: "utf8_sanitize_into (drop i buf) = utf8_sanitize_into (drop (Suc i) buf)"
        using bad True b tl by (subst utf8_sanitize_into.simps) (auto simp: Let_def less_diff_conv add.commute)
      show ?thesis
        using bad True 1(3,4) [OF _ refl refl] 1(6) unfolding a1 a2 by fastforce
    next
      case good
      have cw: "copy_within buf i j ?k = take j buf @ take ?k (drop i buf) @ drop (j + ?k) buf"
        using good True 1(6) by (intro copy_within_eq) auto
      have "take (j + ?k) (copy_within buf i j ?k) = take j buf @ take ?k (drop i buf)"
        unfolding cw using good True 1(6) by simp
      moreover have "drop (i + ?k) (copy_within buf i j ?k) = drop (i + ?k) buf"
        unfolding cw using good True 1(6) by simp
      moreover have "utf8_sanitize_into (drop i buf) = take ?k (drop i buf) @ utf8_sanitize_into (drop (i + ?k) buf)"
        using good True b by (subst utf8_sanitize_into.simps) (auto simp: Let_def add.commute)
      ultimately show ?thesis
        using good True 1(5) [OF _ refl refl] 1(6)
        by (subst utf8_sanitize_alias.simps) (simp add: Let_def)
    qed
  qed
qed

lemma utf8_sanitize_inplace_eq: "utf8_sanitize_inplace s = utf8_sanitize_into s"
  using utf8_sanitize_alias_eq [of 0 0 s] by (simp add: utf8_sanitize_inplace_def)

text \<open>
  Sanitising yields well-formed UTF-8 for every input, keeps well-formed text as it is, never
  needs more room than its input, and gives the same result when source and destination are one buffer
  as when they are apart, although each store then goes to the buffer still being read.
\<close>

theorem utf8_sanitize_spec:
  "utf8_wf (utf8_sanitize_into s)
   \<and> utf8_sanitize_into (utf8_sanitize_into s) = utf8_sanitize_into s
   \<and> length (utf8_sanitize_into s) \<le> length s
   \<and> (utf8_sanitize_into s = s \<longleftrightarrow> utf8_wf s)
   \<and> utf8_sanitize_inplace s = utf8_sanitize_into s"
  using utf8_sanitize_into_wf [of s] utf8_sanitize_into_id length_utf8_sanitize_into
    utf8_sanitize_inplace_eq by metis

lemma utf8_wf_ascii: "\<forall>c \<in> set s. c \<noteq> NUL \<and> of_char c < (128 :: nat) \<Longrightarrow> utf8_wf s"
proof (induction s)
  case (Cons c s)
  then have "wf_seq [c]" using wf_seq_ascii [of c "[]"] by (simp add: byte_at_def)
  then show ?case using Cons utf8_wf_seq_append [of "[c]" s] by simp
qed simp

lemma utf8_truncation_marker_wf: "utf8_wf utf8_truncation_marker"
  and utf8_truncation_marker_NUL: "NUL \<notin> set utf8_truncation_marker"
proof -
  have "wf_seq [CHR 0xE2, CHR 0x80, CHR 0xA6]" by code_simp
  moreover have "utf8_wf ''(truncated)''" by (rule utf8_wf_ascii) simp
  ultimately show "utf8_wf utf8_truncation_marker"
    unfolding utf8_truncation_marker_def by (rule utf8_wf_seq_append)
  show "NUL \<notin> set utf8_truncation_marker" by (simp add: utf8_truncation_marker_def)
qed

text \<open>
  The bounded copies respect their bounds and never leave a broken code point: a clamped
  duplicate of well-formed text has at most \<open>max_bytes\<close> bytes, is well formed, and is the text itself
  when that fits; a sanitised copy into \<open>dst_cap\<close> bytes leaves room for the terminator, has at most
  \<open>max_bytes\<close> bytes and is well formed whatever the source holds.
\<close>

theorem utf8_bounded_copies:
  assumes "NUL \<notin> set src" "0 < dst_cap"
  shows "(utf8_wf src \<longrightarrow> utf8_wf (utf8_dup_clamped src max_bytes))
       \<and> length (utf8_dup_clamped src max_bytes) \<le> max_bytes
       \<and> (length src \<le> max_bytes \<longrightarrow> utf8_dup_clamped src max_bytes = src)
       \<and> length (utf8_copy_sanitized_clamped dst_cap src max_bytes) < dst_cap
       \<and> length (utf8_copy_sanitized_clamped dst_cap src max_bytes) \<le> max_bytes
       \<and> utf8_wf (utf8_copy_sanitized_clamped dst_cap src max_bytes)"
proof -
  let ?m = "length utf8_truncation_marker"
  have clamp: "utf8_clamp_bytes src n \<le> n" for n
    using utf8_clamp_loop_le [of src n] by (simp add: utf8_clamp_bytes_def)
  have clamp_wf: "utf8_wf (take (utf8_clamp_bytes src n) src)" if "utf8_wf src" for n
    using utf8_clamp_loop_wf [OF assms(1), of n] that by (simp add: utf8_clamp_bytes_def)
  have "utf8_wf (utf8_dup_clamped src max_bytes)" if "utf8_wf src"
    using clamp_wf [OF that] utf8_wf_append utf8_truncation_marker_wf that
    by (simp add: utf8_dup_clamped_def Let_def)
  moreover have "length (utf8_dup_clamped src max_bytes) \<le> max_bytes"
    using clamp [of max_bytes] clamp [of "max_bytes - ?m"]
    by (auto simp: utf8_dup_clamped_def Let_def min_def)
  moreover have "length src \<le> max_bytes \<longrightarrow> utf8_dup_clamped src max_bytes = src"
    by (simp add: utf8_dup_clamped_def)
  moreover have "length (utf8_copy_sanitized_clamped dst_cap src max_bytes) \<le> min max_bytes (dst_cap - 1)"
  proof -
    define n where "n = (let k = (if length src > max_bytes then max_bytes else length src)
                         in if k \<ge> dst_cap then dst_cap - 1 else k)"
    have "n \<le> min max_bytes (dst_cap - 1)" using assms(2) by (auto simp: n_def Let_def)
    moreover have "utf8_copy_sanitized_clamped dst_cap src max_bytes
        = utf8_sanitize_into (take (utf8_clamp_bytes src n) src)"
      by (simp add: utf8_copy_sanitized_clamped_def n_def Let_def)
    ultimately show ?thesis
      using length_utf8_sanitize_into [of "take (utf8_clamp_bytes src n) src"] clamp [of n] by simp
  qed
  moreover have "utf8_wf (utf8_copy_sanitized_clamped dst_cap src max_bytes)"
    by (simp add: utf8_copy_sanitized_clamped_def utf8_sanitize_into_wf Let_def)
  ultimately show ?thesis using assms(2) by (auto simp: min_def split: if_splits)
qed

theorem utf8_bounded_copies_witness:
  "utf8_copy_sanitized_clamped 3 [CHR ''a'', CHR 0xC3, CHR 0xA9] 8 = [CHR ''a'']
   \<and> length (utf8_copy_sanitized_clamped 3 [CHR ''a'', CHR 0xC3, CHR 0xA9] 8) < 3"
proof -
  have "utf8_copy_sanitized_clamped 3 [CHR ''a'', CHR 0xC3, CHR 0xA9] 8 = [CHR ''a'']" by code_simp
  then show ?thesis
    using utf8_bounded_copies [of "[CHR ''a'', CHR 0xC3, CHR 0xA9]" 3 8] by simp
qed

section \<open>Decoding one code point\<close>

lemma utf8codepoint_seq:
  assumes "wf_seq q"
  shows "\<exists>cp. utf8codepoint (q @ t) = Some (cp, length q)"
proof -
  have l: "lead (length q) (byte_at (q @ t) 0) (byte_at q 1)"
    using assms by (auto simp: wf_seq_def utf8_check_seq_iff seq_ok_def byte_at_append)
  define c where "c = byte_at (q @ t) 0"
  have l': "lead (length q) c (byte_at q 1)" using l by (simp add: c_def)
  show ?thesis
    unfolding utf8codepoint_def Let_def c_def [symmetric]
    using l' by (simp add: lead_def split: if_splits)
qed

text \<open>Decoding within a string never reads past its terminator, and yields at least two bytes for a lead byte.\<close>

lemma utf8_decode_codepoint_safe:
  assumes "s \<noteq> []" "hd s \<noteq> NUL"
  obtains "utf8_decode_codepoint s (length s) = Some None"
  | cp k where "utf8_decode_codepoint s (length s) = Some (Some (cp, k))" "1 \<le> k" "k \<le> length s"
      "byte_at s 0 \<ge> 0x80 \<Longrightarrow> 2 \<le> k"
proof -
  let ?k = "utf8codepointcalcsize s"
  define len where "len = utf8_next_codepoint_len s (length s)"
  have b0: "byte_at s 0 \<noteq> 0" using assms byte_at_0_iff by (cases s) auto
  have kp: "1 \<le> ?k" by (simp add: utf8codepointcalcsize_def Let_def)
  consider (one) "len = 1" | (seq) "len = ?k" "?k \<le> length s" "utf8nvalid s ?k = None" "len \<noteq> 1"
  proof -
    have "len = (if ?k > length s \<or> utf8nvalid s ?k \<noteq> None then 1 else ?k)"
      using assms(1) b0 kp by (simp add: len_def utf8_next_codepoint_len_def Let_def)
    then have "len = 1 \<or> (len = ?k \<and> ?k \<le> length s \<and> utf8nvalid s ?k = None \<and> len \<noteq> 1)"
      by (simp add: not_less split: if_splits)
    then show ?thesis using one seq by blast
  qed
  then show ?thesis
  proof cases
    case one
    show ?thesis
    proof (cases "byte_at s 0 \<ge> 0x80")
      case True
      then show ?thesis using one assms(1) that(1) by (simp add: utf8_decode_codepoint_def Let_def len_def)
    next
      case False
      then have "wf_seq [hd s]" using assms wf_seq_ascii [of "hd s" "tl s"] by simp
      then obtain cp where "utf8codepoint s = Some (cp, 1)"
        using utf8codepoint_seq [of "[hd s]" "tl s"] assms(1) by auto
      then have "utf8_decode_codepoint s (length s) = Some (Some (cp, 1))"
        using one assms(1) False by (simp add: utf8_decode_codepoint_def Let_def len_def)
      then show ?thesis using that(2) assms(1) False by (cases s) auto
    qed
  next
    case seq
    have "wf_seq (take ?k s)" using utf8nvalid_seq [OF assms seq(2)] seq(3) by simp
    then obtain cp where "utf8codepoint s = Some (cp, ?k)"
      using utf8codepoint_seq [of "take ?k s" "drop ?k s"] seq(2) by (auto simp: min_def)
    then have "utf8_decode_codepoint s (length s) = Some (Some (cp, ?k))"
      using seq assms(1) kp by (simp add: utf8_decode_codepoint_def Let_def len_def)
    then show ?thesis using that(2) seq kp by simp
  qed
qed

end
