(* ===== verification/Patch_Parse.thy ===== *)
theory Patch_Parse
  imports Prelude
begin

text \<open>
  The parser of the \<open>apply_patch\<close> tool (\<open>src/agent/patch.c\<close>, lines 18 to 501): line splitting,
  header recognition, the chunks of an update and the hunks of a patch.

  A line is a C string (a list of characters without NUL).  The array of line pointers with its
  running index \<open>*index\<close> and its bound \<open>end\<close> is the list of the lines not yet consumed: advancing
  the index drops the head.  Errors are the negated \<open>errno\<close> of the source; the text of the message
  that \<open>patch_error\<close> formats is not modelled.  Allocation succeeds here: the branches that return
  \<open>-ENOMEM\<close> give up without touching anything outside the parser.
\<close>

section \<open>Data\<close>

datatype patch_action = PATCH_ACTION_ADD | PATCH_ACTION_UPDATE | PATCH_ACTION_DELETE

record patch_chunk =
  pc_context :: "string option"
  old_lines :: "string list"
  new_lines :: "string list"
  end_of_file :: bool

record patch_hunk =
  ph_action :: patch_action
  ph_path :: string
  move_path :: "string option"
  add_content :: "string option"
  chunks :: "patch_chunk list"
  added :: int
  removed :: int

datatype patch_header =
    PATCH_HEADER_NONE | PATCH_HEADER_ADD | PATCH_HEADER_UPDATE | PATCH_HEADER_DELETE
  | PATCH_HEADER_MOVE | PATCH_HEADER_BEGIN | PATCH_HEADER_END | PATCH_HEADER_EOF
  | PATCH_HEADER_ENVIRONMENT

section \<open>Lines and headers\<close>

definition trim_ws :: "char \<Rightarrow> bool" where
  "trim_ws c = (c = CHR '' '' \<or> c = TAB \<or> c = CR)"

text \<open>\<open>patch_trim_view\<close> yields the offset of \<open>*begin\<close> in the text and the view of \<open>*len\<close> bytes.\<close>

definition patch_trim_view :: "string \<Rightarrow> nat \<times> string" where
  "patch_trim_view s =
     (let start = dropWhile trim_ws s
      in (length s - length start, rev (dropWhile trim_ws (rev start))))"

definition patch_view_equal :: "string \<Rightarrow> string \<Rightarrow> bool" where
  "patch_view_equal line marker = (snd (patch_trim_view line) = marker)"

definition patch_markers :: "(string \<times> patch_header \<times> bool) list" where
  "patch_markers =
    [(''*** Add File: '', PATCH_HEADER_ADD, True),
     (''*** Update File: '', PATCH_HEADER_UPDATE, True),
     (''*** Delete File: '', PATCH_HEADER_DELETE, True),
     (''*** Move to: '', PATCH_HEADER_MOVE, True),
     (''*** Environment ID: '', PATCH_HEADER_ENVIRONMENT, True),
     (''*** Begin Patch'', PATCH_HEADER_BEGIN, False),
     (''*** End Patch'', PATCH_HEADER_END, False),
     (''*** End of File'', PATCH_HEADER_EOF, False)]"

text \<open>The loop over the marker table; the second component is \<open>*value\<close> with \<open>*value_len\<close>.\<close>

fun patch_header_scan ::
  "string \<Rightarrow> nat \<Rightarrow> string \<Rightarrow> (string \<times> patch_header \<times> bool) list \<Rightarrow> patch_header \<times> string"
where
  "patch_header_scan line off view [] = (PATCH_HEADER_NONE, [])"
| "patch_header_scan line off view ((marker, header, has_value) # ms) =
     (if (\<not> has_value \<and> length view = length marker \<or> has_value \<and> length view > length marker)
         \<and> take (length marker) view = marker
      then
        if off = 1 \<and> hd line = CHR '' '' \<and>
           header \<in> {PATCH_HEADER_ADD, PATCH_HEADER_UPDATE, PATCH_HEADER_DELETE, PATCH_HEADER_MOVE}
        then (PATCH_HEADER_NONE, [])
        else (header, drop (length marker) view)
      else patch_header_scan line off view ms)"

definition patch_header_kind :: "string \<Rightarrow> patch_header \<times> string" where
  "patch_header_kind line =
     (let (off, view) = patch_trim_view line in patch_header_scan line off view patch_markers)"

text \<open>\<open>patch_split_lines\<close>: \<open>rev_line\<close> holds the bytes from \<open>start\<close> to \<open>cursor\<close>, last first.\<close>

fun split_lines_loop :: "string \<Rightarrow> string \<Rightarrow> string list" where
  "split_lines_loop rev_line [] = [rev rev_line]"
| "split_lines_loop rev_line (c # rest) =
     (if c = CR \<and> rest \<noteq> [] \<and> hd rest = LF then rev rev_line # split_lines_loop [] (tl rest)
      else if c = LF then rev rev_line # split_lines_loop [] rest
      else split_lines_loop (c # rev_line) rest)"

definition patch_split_lines :: "string \<Rightarrow> string list" where
  "patch_split_lines copy = split_lines_loop [] copy"

section \<open>Hunks\<close>

definition patch_append_add_line :: "string \<Rightarrow> string \<Rightarrow> rc + string" where
  "patch_append_add_line content line =
     (if line = [] \<or> hd line \<noteq> CHR ''+'' then Inl (- EINVAL) else Inr (content @ tl line @ [LF]))"

definition patch_chunk_init :: patch_chunk where
  "patch_chunk_init = \<lparr>pc_context = None, old_lines = [], new_lines = [], end_of_file = False\<rparr>"

definition patch_parse_change_line ::
  "patch_hunk \<Rightarrow> patch_chunk \<Rightarrow> string \<Rightarrow> rc + (patch_hunk \<times> patch_chunk)"
where
  "patch_parse_change_line hunk chunk line =
     (let marker = (if line = [] then CHR '' '' else hd line); txt = tl line
      in if marker \<in> {CHR '' '', CHR ''+'', CHR ''-''} then
           let chunk = (if marker \<noteq> CHR ''+'' then chunk\<lparr>old_lines := old_lines chunk @ [txt]\<rparr> else chunk);
               chunk = (if marker \<noteq> CHR ''-'' then chunk\<lparr>new_lines := new_lines chunk @ [txt]\<rparr> else chunk);
               hunk = (if marker = CHR ''+'' then hunk\<lparr>added := added hunk + 1\<rparr>
                       else if marker = CHR ''-'' then hunk\<lparr>removed := removed hunk + 1\<rparr> else hunk)
           in Inr (hunk, chunk)
         else Inl (- EINVAL))"

definition patch_chunk_start :: "string \<Rightarrow> bool" where
  "patch_chunk_start line =
     (let v = snd (patch_trim_view line)
      in length v = 2 \<and> v = ''@@'' \<or> length v > 3 \<and> take 3 v = ''@@ '')"

definition patch_file_header :: "patch_header \<Rightarrow> bool" where
  "patch_file_header h =
     (h \<in> {PATCH_HEADER_ADD, PATCH_HEADER_UPDATE, PATCH_HEADER_DELETE, PATCH_HEADER_END})"

text \<open>The inner loop of \<open>patch_parse_update\<close>: the change lines of one chunk.\<close>

fun patch_chunk_lines ::
  "patch_hunk \<Rightarrow> patch_chunk \<Rightarrow> string list \<Rightarrow> rc + (patch_hunk \<times> patch_chunk \<times> string list)"
where
  "patch_chunk_lines hunk chunk [] = Inr (hunk, chunk, [])"
| "patch_chunk_lines hunk chunk (line # ls) =
     (let header = fst (patch_header_kind line)
      in if patch_chunk_start line \<or> patch_file_header header then Inr (hunk, chunk, line # ls)
         else if header = PATCH_HEADER_EOF then
           Inr (hunk, chunk\<lparr>end_of_file := True\<rparr>, dropWhile (\<lambda>l. patch_view_equal l []) ls)
         else (case patch_parse_change_line hunk chunk line of
             Inl e \<Rightarrow> Inl e
           | Inr (hunk', chunk') \<Rightarrow> patch_chunk_lines hunk' chunk' ls))"

text \<open>
  The header line of a chunk: the chunk it opens and the lines after it.  \<open>None\<close> is the error for
  a chunk other than the first that does not start with \<open>@@\<close>.
\<close>

definition patch_chunk_head :: "bool \<Rightarrow> string \<Rightarrow> string list \<Rightarrow> (patch_chunk \<times> string list) option" where
  "patch_chunk_head first_chunk line ls =
     (let v = snd (patch_trim_view line)
      in if v = ''@@'' then Some (patch_chunk_init, ls)
         else if length v > 3 \<and> take 3 v = ''@@ '' then
           Some (patch_chunk_init\<lparr>pc_context := Some (drop 3 v)\<rparr>, ls)
         else if \<not> first_chunk then None
         else Some (patch_chunk_init, line # ls))"

lemma patch_chunk_lines_progress:
  "patch_chunk_lines hunk chunk ls = Inr (hunk', chunk', rest) \<Longrightarrow>
     length rest < length ls \<or> (rest = ls \<and> chunk' = chunk \<and> hunk' = hunk)"
proof (induction hunk chunk ls rule: patch_chunk_lines.induct)
  case (2 hunk chunk line ls)
  have d: "length (dropWhile P ls) \<le> length ls" for P :: "string \<Rightarrow> bool"
    by (rule length_dropWhile_le)
  show ?case
    using 2 d [of "\<lambda>l. patch_view_equal l []"]
    by (fastforce simp: Let_def split: if_splits sum.splits prod.splits)
qed simp

lemma patch_chunk_head_length:
  "patch_chunk_head f line ls = Some (chunk, rest) \<Longrightarrow>
     length rest \<le> length ls \<or> (rest = line # ls \<and> chunk = patch_chunk_init)"
  by (auto simp: patch_chunk_head_def Let_def split: if_splits)

text \<open>The outer loop of \<open>patch_parse_update\<close>.\<close>

function patch_update_chunks :: "patch_hunk \<Rightarrow> string list \<Rightarrow> rc + (patch_hunk \<times> string list)" where
  "patch_update_chunks hunk [] = Inr (hunk, [])"
| "patch_update_chunks hunk (line # ls) =
     (if patch_file_header (fst (patch_header_kind line)) then Inr (hunk, line # ls)
      else (case patch_chunk_head (chunks hunk = []) line ls of
          None \<Rightarrow> Inl (- EINVAL)
        | Some (chunk, rest) \<Rightarrow>
            (case patch_chunk_lines hunk chunk rest of
              Inl e \<Rightarrow> Inl e
            | Inr (hunk', chunk', rest') \<Rightarrow>
                if old_lines chunk' = [] \<and> new_lines chunk' = [] then Inl (- EINVAL)
                else patch_update_chunks (hunk'\<lparr>chunks := chunks hunk' @ [chunk']\<rparr>) rest')))"
  by pat_completeness auto
termination
proof (relation "measure (\<lambda>(hunk, ls). length ls)", goal_cases)
  case (2 hunk line ls a chunk rest b hunk' p chunk' rest')
  have "length rest' < length (line # ls)"
    using patch_chunk_head_length [of "chunks hunk = []" line ls chunk rest]
      patch_chunk_lines_progress [of hunk chunk rest hunk' chunk' rest'] 2
    by (auto simp: patch_chunk_init_def)
  then show ?case by simp
qed simp

definition patch_parse_update :: "patch_hunk \<Rightarrow> string list \<Rightarrow> rc + (patch_hunk \<times> string list)" where
  "patch_parse_update hunk ls =
     (let (hunk, ls) = (case ls of
           [] \<Rightarrow> (hunk, [])
         | line # rest \<Rightarrow>
             (case patch_header_kind line of (header, value) \<Rightarrow>
               if header = PATCH_HEADER_MOVE then (hunk\<lparr>move_path := Some value\<rparr>, rest)
               else (hunk, ls)))
      in (case patch_update_chunks hunk ls of
           Inl e \<Rightarrow> Inl e
         | Inr (hunk', rest) \<Rightarrow> if chunks hunk' = [] then Inl (- EINVAL) else Inr (hunk', rest)))"

text \<open>The content loop of an \<open>Add File\<close> hunk in \<open>patch_parse\<close>.\<close>

fun patch_add_lines :: "int \<Rightarrow> string \<Rightarrow> string list \<Rightarrow> rc + (int \<times> string \<times> string list)" where
  "patch_add_lines n content [] = Inr (n, content, [])"
| "patch_add_lines n content (line # ls) =
     (if fst (patch_header_kind line) = PATCH_HEADER_NONE
      then (case patch_append_add_line content line of
          Inl e \<Rightarrow> Inl e
        | Inr content' \<Rightarrow> patch_add_lines (n + 1) content' ls)
      else Inr (n, content, line # ls))"

definition patch_hunk_init :: "patch_action \<Rightarrow> string \<Rightarrow> patch_hunk" where
  "patch_hunk_init act path =
     \<lparr>ph_action = act, ph_path = path, move_path = None, add_content = None, chunks = [],
      added = 0, removed = 0\<rparr>"

definition patch_parse_hunk :: "string \<Rightarrow> string list \<Rightarrow> rc + (patch_hunk \<times> string list)" where
  "patch_parse_hunk line ls =
     (case patch_header_kind line of (header, value) \<Rightarrow>
       if header = PATCH_HEADER_ADD then
         (let hunk = patch_hunk_init PATCH_ACTION_ADD value
          in (case patch_add_lines 0 [] ls of
               Inl e \<Rightarrow> Inl e
             | Inr (n, content, rest) \<Rightarrow>
                 if n = 0 then Inl (- EINVAL)
                 else Inr (hunk\<lparr>added := n, add_content := Some content\<rparr>, rest)))
       else if header = PATCH_HEADER_UPDATE then
         patch_parse_update (patch_hunk_init PATCH_ACTION_UPDATE value) ls
       else if header = PATCH_HEADER_DELETE then
         Inr (patch_hunk_init PATCH_ACTION_DELETE value, ls)
       else Inl (- EINVAL))"

lemma patch_add_lines_length:
  "patch_add_lines n content ls = Inr (m, content', rest) \<Longrightarrow> length rest \<le> length ls"
  by (induction n content ls rule: patch_add_lines.induct) (auto split: if_splits sum.splits)

text \<open>One successful iteration of the outer loop, as an elimination rule.\<close>

lemma patch_update_chunks_ConsE:
  assumes "patch_update_chunks hunk (line # ls) = Inr (hunk', rest)"
  obtains (stop) "patch_file_header (fst (patch_header_kind line))" "hunk' = hunk" "rest = line # ls"
  | (chunk) chunk rest0 hunk1 chunk1 rest1 where
      "\<not> patch_file_header (fst (patch_header_kind line))"
      "patch_chunk_head (chunks hunk = []) line ls = Some (chunk, rest0)"
      "patch_chunk_lines hunk chunk rest0 = Inr (hunk1, chunk1, rest1)"
      "\<not> (old_lines chunk1 = [] \<and> new_lines chunk1 = [])"
      "length rest1 < length (line # ls)"
      "patch_update_chunks (hunk1\<lparr>chunks := chunks hunk1 @ [chunk1]\<rparr>) rest1 = Inr (hunk', rest)"
proof (cases "patch_file_header (fst (patch_header_kind line))")
  case True
  then show ?thesis using assms stop by simp
next
  case False
  obtain chunk rest0 where hd: "patch_chunk_head (chunks hunk = []) line ls = Some (chunk, rest0)"
    using assms False by (auto split: option.splits)
  obtain hunk1 chunk1 rest1 where ls: "patch_chunk_lines hunk chunk rest0 = Inr (hunk1, chunk1, rest1)"
    using assms False hd by (auto split: sum.splits)
  have ne: "\<not> (old_lines chunk1 = [] \<and> new_lines chunk1 = [])"
    using assms False hd ls by auto
  have "length rest1 < length (line # ls)"
    using patch_chunk_head_length [OF hd] patch_chunk_lines_progress [OF ls] ne
    by (auto simp: patch_chunk_init_def)
  then show ?thesis using chunk [OF False hd ls ne] assms False hd ls ne by simp
qed

lemma patch_update_chunks_length:
  "patch_update_chunks hunk ls = Inr (hunk', rest) \<Longrightarrow> length rest \<le> length ls"
proof (induction "length ls" arbitrary: hunk ls rule: less_induct)
  case less
  show ?case
  proof (cases ls)
    case Nil
    then show ?thesis using less.prems by simp
  next
    case (Cons line ls')
    from less.prems [unfolded Cons] show ?thesis
    proof (cases rule: patch_update_chunks_ConsE)
      case stop
      then show ?thesis using Cons by simp
    next
      case (chunk chunk rest0 hunk1 chunk1 rest1)
      then show ?thesis using less.hyps [OF _ chunk(6)] Cons by simp
    qed
  qed
qed

lemma patch_parse_update_length:
  "patch_parse_update hunk ls = Inr (hunk', rest) \<Longrightarrow> length rest \<le> length ls"
  by (auto simp: patch_parse_update_def Let_def simp del: patch_update_chunks.simps(2)
      dest!: patch_update_chunks_length split: if_splits sum.splits prod.splits list.splits)

lemma patch_parse_hunk_length:
  "patch_parse_hunk line ls = Inr (hunk, rest) \<Longrightarrow> length rest \<le> length ls"
  by (auto simp: patch_parse_hunk_def Let_def
      dest!: patch_add_lines_length patch_parse_update_length
      split: if_splits sum.splits prod.splits)

text \<open>The hunk loop of \<open>patch_parse\<close>.\<close>

function patch_parse_hunks :: "patch_hunk list \<Rightarrow> string list \<Rightarrow> rc + patch_hunk list" where
  "patch_parse_hunks hunks [] = Inr hunks"
| "patch_parse_hunks hunks (line # ls) =
     (case patch_parse_hunk line ls of
       Inl e \<Rightarrow> Inl e
     | Inr (hunk, rest) \<Rightarrow> patch_parse_hunks (hunks @ [hunk]) rest)"
  by pat_completeness auto
termination
  by (relation "measure (\<lambda>(hunks, ls). length ls)") (auto dest!: patch_parse_hunk_length)

definition patch_heredoc :: "string list \<Rightarrow> bool" where
  "patch_heredoc ls =
     (length ls \<ge> 4 \<and> hd ls \<in> {''<<EOF'', ''<<'' @ [CHR 0x27] @ ''EOF'' @ [CHR 0x27], ''<<\"EOF\"''}
      \<and> last ls = ''EOF'')"

definition patch_parse :: "string \<Rightarrow> rc + patch_hunk list" where
  "patch_parse copy =
     (let blank = (\<lambda>l. patch_view_equal l []);
          ls = dropWhile blank (patch_split_lines copy);
          ls = rev (dropWhile blank (rev ls));
          ls = (if patch_heredoc ls then butlast (tl ls) else ls)
      in if ls = [] \<or> fst (patch_header_kind (hd ls)) \<noteq> PATCH_HEADER_BEGIN then Inl (- EINVAL)
         else if fst (patch_header_kind (last ls)) \<noteq> PATCH_HEADER_END then Inl (- EINVAL)
         else
           let body = butlast (tl ls);
               body = (if body \<noteq> [] \<and> fst (patch_header_kind (hd body)) = PATCH_HEADER_ENVIRONMENT
                       then tl body else body)
           in (case patch_parse_hunks [] body of
                 Inl e \<Rightarrow> Inl e
               | Inr hunks \<Rightarrow> if hunks = [] then Inl (- EINVAL) else Inr hunks))"

section \<open>Trimming, headers and line splitting\<close>

lemma patch_trim_view_id:
  assumes "s \<noteq> []" "\<not> trim_ws (hd s)" "\<not> trim_ws (last s)"
  shows "patch_trim_view s = (0, s)"
proof -
  have "dropWhile trim_ws s = s" using assms(1,2) by (cases s) auto
  moreover have "dropWhile trim_ws (rev s) = rev s"
    using assms(1,3) by (cases s rule: rev_cases) auto
  ultimately show ?thesis by (simp add: patch_trim_view_def)
qed

lemma patch_trim_view_space: "snd (patch_trim_view (CHR '' '' # s)) = snd (patch_trim_view s)"
  by (simp add: patch_trim_view_def trim_ws_def Let_def)

lemma patch_trim_view_head:
  assumes "\<not> trim_ws c"
  shows "\<exists>t. patch_trim_view (c # s) = (0, c # t)"
proof -
  have "rev (dropWhile trim_ws (rev s @ [c])) = c # rev (dropWhile trim_ws (rev s))"
    using assms by (cases "\<forall>x \<in> set s. trim_ws x") (auto simp: dropWhile_append)
  then show ?thesis using assms by (simp add: patch_trim_view_def)
qed

lemma patch_header_scan_stars:
  assumes "take 4 view \<noteq> ''*** ''"
  shows "patch_header_scan line off view patch_markers = (PATCH_HEADER_NONE, [])"
proof -
  have *: "take (length m) view \<noteq> m" if "m = ''*** '' @ r" for m r
  proof
    assume "take (length m) view = m"
    then have "take 4 (take (length m) view) = take 4 m" by simp
    with that assms show False by (simp add: min_def split: if_splits)
  qed
  show ?thesis
    unfolding patch_markers_def
    using * [of "''*** Add File: ''" "''Add File: ''"] * [of "''*** Update File: ''" "''Update File: ''"]
      * [of "''*** Delete File: ''" "''Delete File: ''"] * [of "''*** Move to: ''" "''Move to: ''"]
      * [of "''*** Environment ID: ''" "''Environment ID: ''"]
      * [of "''*** Begin Patch''" "''Begin Patch''"] * [of "''*** End Patch''" "''End Patch''"]
      * [of "''*** End of File''" "''End of File''"]
    by simp
qed

lemma patch_header_kind_plain:
  "take 4 (snd (patch_trim_view line)) \<noteq> ''*** '' \<Longrightarrow> patch_header_kind line = (PATCH_HEADER_NONE, [])"
  by (cases "patch_trim_view line") (simp add: patch_header_kind_def patch_header_scan_stars)

definition value_ok :: "string \<Rightarrow> bool" where
  "value_ok v = (v \<noteq> [] \<and> LF \<notin> set v \<and> \<not> trim_ws (last v))"

lemma patch_header_kind_value:
  assumes "value_ok v"
  shows "patch_header_kind (''*** Add File: '' @ v) = (PATCH_HEADER_ADD, v)"
    and "patch_header_kind (''*** Update File: '' @ v) = (PATCH_HEADER_UPDATE, v)"
    and "patch_header_kind (''*** Delete File: '' @ v) = (PATCH_HEADER_DELETE, v)"
    and "patch_header_kind (''*** Move to: '' @ v) = (PATCH_HEADER_MOVE, v)"
proof -
  have *: "patch_trim_view (CHR ''*'' # w @ v) = (0, CHR ''*'' # w @ v)" for w
    using assms by (intro patch_trim_view_id) (auto simp: value_ok_def trim_ws_def)
  have v: "v \<noteq> []" using assms by (simp add: value_ok_def)
  show "patch_header_kind (''*** Add File: '' @ v) = (PATCH_HEADER_ADD, v)"
    using * [of "''** Add File: ''"] v by (simp add: patch_header_kind_def patch_markers_def)
  show "patch_header_kind (''*** Update File: '' @ v) = (PATCH_HEADER_UPDATE, v)"
    using * [of "''** Update File: ''"] v by (simp add: patch_header_kind_def patch_markers_def)
  show "patch_header_kind (''*** Delete File: '' @ v) = (PATCH_HEADER_DELETE, v)"
    using * [of "''** Delete File: ''"] v by (simp add: patch_header_kind_def patch_markers_def)
  show "patch_header_kind (''*** Move to: '' @ v) = (PATCH_HEADER_MOVE, v)"
    using * [of "''** Move to: ''"] v by (simp add: patch_header_kind_def patch_markers_def)
qed

lemma patch_header_kind_fixed:
  "patch_header_kind ''*** Begin Patch'' = (PATCH_HEADER_BEGIN, [])"
  "patch_header_kind ''*** End Patch'' = (PATCH_HEADER_END, [])"
  "patch_header_kind ''*** End of File'' = (PATCH_HEADER_EOF, [])"
  by (simp_all add: patch_header_kind_def patch_markers_def patch_trim_view_def trim_ws_def)

definition line_ok :: "string \<Rightarrow> bool" where
  "line_ok l = (LF \<notin> set l \<and> (l = [] \<or> last l \<noteq> CR))"

lemma split_lines_loop_line:
  "line_ok l \<Longrightarrow> split_lines_loop acc (l @ LF # rest) = (rev acc @ l) # split_lines_loop [] rest"
proof (induction l arbitrary: acc)
  case (Cons c l)
  show ?case
  proof (cases l)
    case Nil
    then show ?thesis using Cons.prems by (auto simp: line_ok_def)
  next
    case (Cons d l')
    with Cons.prems have "line_ok l" "c \<noteq> LF" "d \<noteq> LF" by (auto simp: line_ok_def)
    then show ?thesis using Cons.IH [of "c # acc"] Cons by simp
  qed
qed simp

lemma patch_split_lines_unlines:
  "\<forall>l \<in> set ls. line_ok l \<Longrightarrow> patch_split_lines (concat (map (\<lambda>l. l @ [LF]) ls)) = ls @ [[]]"
  unfolding patch_split_lines_def by (induction ls) (auto simp: split_lines_loop_line)

section \<open>Printed patches\<close>

text \<open>
  The documents of the patch language, written as its grammar has them, and the text a tool call
  sends for one.  \<open>hunk_meaning\<close> is what a document says: which lines are expected, which replace
  them, and how many are added and removed.
\<close>

datatype change = Keep string | Ins string | Del string
datatype chunk_head = Bare | At | AtContext string
datatype doc_chunk = DocChunk chunk_head "change list" bool
datatype doc_hunk =
    DocAdd string "string list"
  | DocDelete string
  | DocUpdate string "string option" "doc_chunk list"

fun change_line :: "change \<Rightarrow> string" where
  "change_line (Keep s) = CHR '' '' # s"
| "change_line (Ins s) = CHR ''+'' # s"
| "change_line (Del s) = CHR ''-'' # s"

fun head_lines :: "chunk_head \<Rightarrow> string list" where
  "head_lines Bare = []"
| "head_lines At = [''@@'']"
| "head_lines (AtContext c) = [''@@ '' @ c]"

fun chunk_doc_lines :: "doc_chunk \<Rightarrow> string list" where
  "chunk_doc_lines (DocChunk h cs eof) =
     head_lines h @ map change_line cs @ (if eof then [''*** End of File''] else [])"

fun hunk_doc_lines :: "doc_hunk \<Rightarrow> string list" where
  "hunk_doc_lines (DocAdd p ls) = (''*** Add File: '' @ p) # map (\<lambda>l. CHR ''+'' # l) ls"
| "hunk_doc_lines (DocDelete p) = [''*** Delete File: '' @ p]"
| "hunk_doc_lines (DocUpdate p m ds) =
     (''*** Update File: '' @ p)
       # (case m of None \<Rightarrow> [] | Some q \<Rightarrow> [''*** Move to: '' @ q]) @ concat (map chunk_doc_lines ds)"

definition patch_print :: "doc_hunk list \<Rightarrow> string" where
  "patch_print hs =
     concat (map (\<lambda>l. l @ [LF]) (''*** Begin Patch'' # concat (map hunk_doc_lines hs) @ [''*** End Patch'']))"

fun kept_or_deleted :: "change \<Rightarrow> string list" where
  "kept_or_deleted (Keep s) = [s]" | "kept_or_deleted (Del s) = [s]" | "kept_or_deleted (Ins s) = []"

fun kept_or_inserted :: "change \<Rightarrow> string list" where
  "kept_or_inserted (Keep s) = [s]" | "kept_or_inserted (Ins s) = [s]" | "kept_or_inserted (Del s) = []"

fun ins_count :: "change list \<Rightarrow> int" where
  "ins_count [] = 0"
| "ins_count (c # cs) = (case c of Ins _ \<Rightarrow> 1 | _ \<Rightarrow> 0) + ins_count cs"

fun del_count :: "change list \<Rightarrow> int" where
  "del_count [] = 0"
| "del_count (c # cs) = (case c of Del _ \<Rightarrow> 1 | _ \<Rightarrow> 0) + del_count cs"

fun chunk_meaning :: "doc_chunk \<Rightarrow> patch_chunk" where
  "chunk_meaning (DocChunk h cs eof) =
     \<lparr>pc_context = (case h of AtContext c \<Rightarrow> Some c | _ \<Rightarrow> None),
      old_lines = concat (map kept_or_deleted cs), new_lines = concat (map kept_or_inserted cs),
      end_of_file = eof\<rparr>"

fun chunk_changes :: "doc_chunk \<Rightarrow> change list" where
  "chunk_changes (DocChunk h cs eof) = cs"

fun hunk_meaning :: "doc_hunk \<Rightarrow> patch_hunk" where
  "hunk_meaning (DocAdd p ls) =
     \<lparr>ph_action = PATCH_ACTION_ADD, ph_path = p, move_path = None,
      add_content = Some (concat (map (\<lambda>l. l @ [LF]) ls)), chunks = [],
      added = int (length ls), removed = 0\<rparr>"
| "hunk_meaning (DocDelete p) = patch_hunk_init PATCH_ACTION_DELETE p"
| "hunk_meaning (DocUpdate p m ds) =
     \<lparr>ph_action = PATCH_ACTION_UPDATE, ph_path = p, move_path = m, add_content = None,
      chunks = map chunk_meaning ds,
      added = ins_count (concat (map chunk_changes ds)),
      removed = del_count (concat (map chunk_changes ds))\<rparr>"

text \<open>
  Side conditions: a path or context is not empty and does not end in white space, a line has no
  line break, and a context line does not look like a header once trimmed.
\<close>

fun change_ok :: "change \<Rightarrow> bool" where
  "change_ok (Keep s) =
     (line_ok s \<and> take 2 (snd (patch_trim_view s)) \<noteq> ''@@'' \<and> take 4 (snd (patch_trim_view s)) \<noteq> ''*** '')"
| "change_ok (Ins s) = line_ok s"
| "change_ok (Del s) = line_ok s"

fun head_ok :: "chunk_head \<Rightarrow> bool" where
  "head_ok (AtContext c) = value_ok c" | "head_ok _ = True"

fun chunk_ok :: "doc_chunk \<Rightarrow> bool" where
  "chunk_ok (DocChunk h cs eof) = (head_ok h \<and> cs \<noteq> [] \<and> (\<forall>c \<in> set cs. change_ok c))"

fun is_bare :: "doc_chunk \<Rightarrow> bool" where
  "is_bare (DocChunk h cs eof) = (h = Bare)"

fun hunk_ok :: "doc_hunk \<Rightarrow> bool" where
  "hunk_ok (DocAdd p ls) = (value_ok p \<and> ls \<noteq> [] \<and> (\<forall>l \<in> set ls. line_ok l))"
| "hunk_ok (DocDelete p) = value_ok p"
| "hunk_ok (DocUpdate p m ds) =
     (value_ok p \<and> (\<forall>q \<in> set_option m. value_ok q) \<and> ds \<noteq> [] \<and> (\<forall>d \<in> set ds. chunk_ok d)
      \<and> (\<forall>d \<in> set (tl ds). \<not> is_bare d))"

subsection \<open>How the printed lines are recognised\<close>

lemma change_line_plain:
  assumes "change_ok c"
  shows "patch_header_kind (change_line c) = (PATCH_HEADER_NONE, [])"
    and "\<not> patch_chunk_start (change_line c)"
    and "v = snd (patch_trim_view (change_line c)) \<Longrightarrow> v \<noteq> ''@@'' \<and> take 3 v \<noteq> ''@@ ''"
proof -
  have *: "take 4 (snd (patch_trim_view (change_line c))) \<noteq> ''*** ''
         \<and> take 2 (snd (patch_trim_view (change_line c))) \<noteq> ''@@''"
  proof (cases c)
    case (Keep s)
    then show ?thesis using assms by (simp add: patch_trim_view_space)
  next
    case (Ins s)
    then show ?thesis using patch_trim_view_head [of "CHR ''+''" s] by (auto simp: trim_ws_def)
  next
    case (Del s)
    then show ?thesis using patch_trim_view_head [of "CHR ''-''" s] by (auto simp: trim_ws_def)
  qed
  show "patch_header_kind (change_line c) = (PATCH_HEADER_NONE, [])"
    using * by (intro patch_header_kind_plain) simp
  have **: "v \<noteq> ''@@'' \<and> take 3 v \<noteq> ''@@ ''" if "v = snd (patch_trim_view (change_line c))" for v
  proof -
    have "take 2 v = ''@@''" if "take 3 v = ''@@ ''"
      using take_take [of 2 3 v] that by simp
    then show ?thesis using * that by auto
  qed
  show "v = snd (patch_trim_view (change_line c)) \<Longrightarrow> v \<noteq> ''@@'' \<and> take 3 v \<noteq> ''@@ ''"
    by (rule **)
  show "\<not> patch_chunk_start (change_line c)"
    using ** [OF refl] by (simp add: patch_chunk_start_def Let_def)
qed

lemma patch_trim_view_at:
  "patch_trim_view ''@@'' = (0, ''@@'')"
  "value_ok c \<Longrightarrow> patch_trim_view (CHR ''@'' # CHR ''@'' # CHR '' '' # c) = (0, CHR ''@'' # CHR ''@'' # CHR '' '' # c)"
  by (rule patch_trim_view_id; auto simp: trim_ws_def value_ok_def)+

lemma head_lines_at:
  assumes "head_ok h" "h \<noteq> Bare"
  obtains l where "head_lines h = [l]" "patch_chunk_start l" "patch_header_kind l = (PATCH_HEADER_NONE, [])"
    "\<not> patch_view_equal l []"
    "\<And>f ls. patch_chunk_head f l ls = Some (patch_chunk_init\<lparr>pc_context := (case h of AtContext c \<Rightarrow> Some c | _ \<Rightarrow> None)\<rparr>, ls)"
proof (cases h)
  case Bare
  then show ?thesis using assms by simp
next
  case At
  show ?thesis
    by (rule that [of "''@@''"])
      (simp_all add: At patch_chunk_start_def patch_header_kind_plain patch_view_equal_def patch_chunk_head_def
        patch_trim_view_at patch_chunk_init_def)
next
  case (AtContext c)
  then have "value_ok c" using assms by simp
  then show ?thesis
    by (intro that [of "''@@ '' @ c"])
      (simp_all add: AtContext patch_chunk_start_def patch_header_kind_plain patch_view_equal_def
        patch_chunk_head_def patch_trim_view_at, simp_all add: value_ok_def)
qed

subsection \<open>Parsing printed lines\<close>

definition chunk_grow :: "change list \<Rightarrow> patch_chunk \<Rightarrow> patch_chunk" where
  "chunk_grow cs chunk =
     chunk\<lparr>old_lines := old_lines chunk @ concat (map kept_or_deleted cs),
           new_lines := new_lines chunk @ concat (map kept_or_inserted cs)\<rparr>"

definition hunk_grow :: "change list \<Rightarrow> patch_hunk \<Rightarrow> patch_hunk" where
  "hunk_grow cs hunk =
     hunk\<lparr>added := added hunk + ins_count cs, removed := removed hunk + del_count cs\<rparr>"

lemma patch_parse_change_line_print:
  "patch_parse_change_line hunk chunk (change_line c) = Inr (hunk_grow [c] hunk, chunk_grow [c] chunk)"
  by (cases c) (simp_all add: patch_parse_change_line_def hunk_grow_def chunk_grow_def)

lemma grow_Cons:
  "hunk_grow cs (hunk_grow [c] hunk) = hunk_grow (c # cs) hunk"
  "chunk_grow cs (chunk_grow [c] chunk) = chunk_grow (c # cs) chunk"
  by (simp_all add: hunk_grow_def chunk_grow_def)

lemma patch_chunk_lines_changes:
  "\<forall>c \<in> set cs. change_ok c \<Longrightarrow>
     patch_chunk_lines hunk chunk (map change_line cs @ rest)
   = patch_chunk_lines (hunk_grow cs hunk) (chunk_grow cs chunk) rest"
proof (induction cs arbitrary: hunk chunk)
  case Nil
  show ?case by (simp add: hunk_grow_def chunk_grow_def)
next
  case (Cons c cs)
  then show ?case
    by (simp add: change_line_plain patch_parse_change_line_print patch_file_header_def grow_Cons)
qed

text \<open>What may follow a chunk: nothing, the next chunk or the next file.\<close>

definition chunk_stop :: "string list \<Rightarrow> bool" where
  "chunk_stop rest = (case rest of [] \<Rightarrow> True | l # _ \<Rightarrow>
     (patch_chunk_start l \<or> patch_file_header (fst (patch_header_kind l))) \<and> \<not> patch_view_equal l [])"

lemma patch_chunk_lines_tail:
  assumes "chunk_stop rest"
  shows "patch_chunk_lines hunk chunk ((if eof then [''*** End of File''] else []) @ rest)
       = Inr (hunk, (if eof then chunk\<lparr>end_of_file := True\<rparr> else chunk), rest)"
proof -
  have "\<not> patch_chunk_start ''*** End of File''"
    by (simp add: patch_chunk_start_def patch_trim_view_def trim_ws_def)
  then have "patch_chunk_lines hunk chunk (''*** End of File'' # rest)
           = Inr (hunk, chunk\<lparr>end_of_file := True\<rparr>, dropWhile (\<lambda>l. patch_view_equal l []) rest)"
    by (simp add: patch_header_kind_fixed patch_file_header_def)
  moreover have "dropWhile (\<lambda>l. patch_view_equal l []) rest = rest"
    using assms by (cases rest) (auto simp: chunk_stop_def)
  moreover have "patch_chunk_lines hunk chunk rest = Inr (hunk, chunk, rest)"
    using assms by (cases rest) (auto simp: chunk_stop_def Let_def)
  ultimately show ?thesis by simp
qed

lemma chunk_grow_meaning:
  "chunk_ok (DocChunk h cs eof) \<Longrightarrow>
   (if eof then (chunk_grow cs (patch_chunk_init\<lparr>pc_context := (case h of AtContext c \<Rightarrow> Some c | _ \<Rightarrow> None)\<rparr>))\<lparr>end_of_file := True\<rparr>
    else chunk_grow cs (patch_chunk_init\<lparr>pc_context := (case h of AtContext c \<Rightarrow> Some c | _ \<Rightarrow> None)\<rparr>))
   = chunk_meaning (DocChunk h cs eof)"
  by (simp add: chunk_grow_def patch_chunk_init_def)

lemma chunk_meaning_nonempty:
  assumes "cs \<noteq> []"
  shows "\<not> (concat (map kept_or_deleted cs) = [] \<and> concat (map kept_or_inserted cs) = [])"
proof -
  obtain c cs' where "cs = c # cs'" using assms by (cases cs) auto
  then show ?thesis by (cases c) auto
qed

lemma patch_update_chunks_step:
  assumes "\<not> patch_file_header (fst (patch_header_kind line))"
    and "patch_chunk_head (chunks hunk = []) line ls = Some (chunk, rest)"
    and "patch_chunk_lines hunk chunk rest = Inr (hunk', chunk', rest')"
    and "\<not> (old_lines chunk' = [] \<and> new_lines chunk' = [])"
  shows "patch_update_chunks hunk (line # ls)
       = patch_update_chunks (hunk'\<lparr>chunks := chunks hunk' @ [chunk']\<rparr>) rest'"
  using assms by auto

lemma patch_update_chunks_chunk:
  assumes ok: "chunk_ok d" and bare: "is_bare d \<Longrightarrow> chunks hunk = []" and stop: "chunk_stop rest"
  shows "patch_update_chunks hunk (chunk_doc_lines d @ rest)
       = patch_update_chunks ((hunk_grow (chunk_changes d) hunk)\<lparr>chunks := chunks hunk @ [chunk_meaning d]\<rparr>) rest"
proof -
  obtain h cs eof where d: "d = DocChunk h cs eof" by (cases d) auto
  let ?eof = "if eof then [''*** End of File''] else []"
  let ?init = "patch_chunk_init\<lparr>pc_context := (case h of AtContext c \<Rightarrow> Some c | _ \<Rightarrow> None)\<rparr>"
  have cs: "\<forall>c \<in> set cs. change_ok c" "cs \<noteq> []" and h: "head_ok h" using ok d by auto
  have body: "patch_chunk_lines hunk ?init (map change_line cs @ ?eof @ rest)
            = Inr (hunk_grow cs hunk, chunk_meaning d, rest)"
    using chunk_grow_meaning [of h cs eof] ok d
    by (simp add: patch_chunk_lines_changes cs(1) patch_chunk_lines_tail [OF stop] del: append_assoc)
  have ne: "\<not> (old_lines (chunk_meaning d) = [] \<and> new_lines (chunk_meaning d) = [])"
    using chunk_meaning_nonempty [OF cs(2)] d by simp
  have ch: "chunks (hunk_grow cs hunk) = chunks hunk" by (simp add: hunk_grow_def)
  show ?thesis
  proof (cases "h = Bare")
    case True
    obtain c cs' where c: "cs = c # cs'" using cs(2) by (cases cs) auto
    have plain: "patch_header_kind (change_line c) = (PATCH_HEADER_NONE, [])"
      "patch_chunk_head True (change_line c) ls = Some (patch_chunk_init, change_line c # ls)" for ls
      using change_line_plain [of c] cs(1) c by (simp_all add: patch_chunk_head_def Let_def)
    have "chunks hunk = []" using bare d True by simp
    moreover have "?init = patch_chunk_init" using True by (simp add: patch_chunk_init_def)
    ultimately have "patch_update_chunks hunk (change_line c # map change_line cs' @ ?eof @ rest)
        = patch_update_chunks ((hunk_grow cs hunk)\<lparr>chunks := chunks (hunk_grow cs hunk) @ [chunk_meaning d]\<rparr>) rest"
      using body ne plain c by (intro patch_update_chunks_step) (auto simp: patch_file_header_def)
    then show ?thesis using True c d ch by simp
  next
    case False
    obtain l where l: "head_lines h = [l]" "patch_header_kind l = (PATCH_HEADER_NONE, [])"
      "\<And>f ls. patch_chunk_head f l ls = Some (?init, ls)"
      using head_lines_at [OF h False] by metis
    have "patch_update_chunks hunk (l # map change_line cs @ ?eof @ rest)
        = patch_update_chunks ((hunk_grow cs hunk)\<lparr>chunks := chunks (hunk_grow cs hunk) @ [chunk_meaning d]\<rparr>) rest"
      using l by (intro patch_update_chunks_step [OF _ _ body ne]) (auto simp: patch_file_header_def)
    then show ?thesis using l d ch by simp
  qed
qed

lemma chunk_doc_lines_stop:
  assumes "chunk_ok d" "\<not> is_bare d"
  shows "chunk_stop (chunk_doc_lines d @ rest)"
proof -
  obtain h cs eof where d: "d = DocChunk h cs eof" by (cases d) auto
  then have h: "head_ok h" "h \<noteq> Bare" using assms by auto
  obtain l where "head_lines h = [l]" "patch_chunk_start l" "\<not> patch_view_equal l []"
    by (rule head_lines_at [OF h])
  then show ?thesis using d by (simp add: chunk_stop_def)
qed

lemma ins_del_count_append [simp]:
  "ins_count (cs @ ds) = ins_count cs + ins_count ds"
  "del_count (cs @ ds) = del_count cs + del_count ds"
  by (induction cs) (auto split: change.splits)

definition file_stop :: "string list \<Rightarrow> bool" where
  "file_stop rest = (rest = [] \<or> patch_file_header (fst (patch_header_kind (hd rest))) \<and> \<not> patch_view_equal (hd rest) [])"

lemma file_stop_chunk_stop: "file_stop rest \<Longrightarrow> chunk_stop rest"
  by (cases rest) (auto simp: file_stop_def chunk_stop_def)

lemma patch_update_chunks_stop: "file_stop rest \<Longrightarrow> patch_update_chunks hunk rest = Inr (hunk, rest)"
  by (cases rest) (auto simp: file_stop_def)

lemma patch_update_chunks_print:
  assumes "\<forall>d \<in> set ds. chunk_ok d" "\<forall>d \<in> set (tl ds). \<not> is_bare d"
    and "ds \<noteq> [] \<Longrightarrow> is_bare (hd ds) \<Longrightarrow> chunks hunk = []" and "file_stop rest"
  shows "patch_update_chunks hunk (concat (map chunk_doc_lines ds) @ rest)
       = Inr ((hunk_grow (concat (map chunk_changes ds)) hunk)\<lparr>chunks := chunks hunk @ map chunk_meaning ds\<rparr>, rest)"
  using assms
proof (induction ds arbitrary: hunk)
  case Nil
  then show ?case by (simp add: patch_update_chunks_stop hunk_grow_def)
next
  case (Cons d ds)
  have "chunk_stop (concat (map chunk_doc_lines ds) @ rest)"
  proof (cases ds)
    case Nil
    then show ?thesis using Cons.prems(4) by (simp add: file_stop_chunk_stop)
  next
    case (Cons e es)
    then show ?thesis using Cons.prems(1,2) chunk_doc_lines_stop [of e] by simp
  qed
  then have 1: "patch_update_chunks hunk (concat (map chunk_doc_lines (d # ds)) @ rest)
      = patch_update_chunks ((hunk_grow (chunk_changes d) hunk)\<lparr>chunks := chunks hunk @ [chunk_meaning d]\<rparr>)
          (concat (map chunk_doc_lines ds) @ rest)"
    using Cons.prems patch_update_chunks_chunk [of d hunk] by simp
  have 2: "\<forall>d \<in> set (tl ds). \<not> is_bare d" "ds \<noteq> [] \<Longrightarrow> \<not> is_bare (hd ds)"
    using Cons.prems(2) by (cases ds; simp)+
  show ?case
    using Cons.prems(1,4) 2 unfolding 1
    by (subst Cons.IH) (auto simp: hunk_grow_def)
qed

lemma patch_parse_update_print:
  assumes ok: "hunk_ok (DocUpdate p m ds)" and stop: "file_stop rest"
  shows "patch_parse_update (patch_hunk_init PATCH_ACTION_UPDATE p)
           ((case m of None \<Rightarrow> [] | Some q \<Rightarrow> [''*** Move to: '' @ q]) @ concat (map chunk_doc_lines ds) @ rest)
       = Inr (hunk_meaning (DocUpdate p m ds), rest)"
proof -
  let ?h = "(patch_hunk_init PATCH_ACTION_UPDATE p)\<lparr>move_path := m\<rparr>"
  have upd: "patch_update_chunks ?h (concat (map chunk_doc_lines ds) @ rest)
      = Inr ((hunk_grow (concat (map chunk_changes ds)) ?h)\<lparr>chunks := map chunk_meaning ds\<rparr>, rest)"
    using ok stop by (subst patch_update_chunks_print) (auto simp: patch_hunk_init_def)
  have res: "(hunk_grow (concat (map chunk_changes ds)) ?h)\<lparr>chunks := map chunk_meaning ds\<rparr>
      = hunk_meaning (DocUpdate p m ds)"
    by (simp add: hunk_grow_def patch_hunk_init_def)
  have ne: "ds \<noteq> []" "chunks (hunk_meaning (DocUpdate p m ds)) \<noteq> []" using ok by simp_all
  show ?thesis
  proof (cases m)
    case (Some q)
    then show ?thesis
      using upd res ne ok patch_header_kind_value(4) [of q] by (simp add: patch_parse_update_def)
  next
    case None
    obtain d ds' where ds: "ds = d # ds'" using ne(1) by (cases ds) auto
    obtain h cs eof where d: "d = DocChunk h cs eof" by (cases d) auto
    obtain l ls where l: "chunk_doc_lines d = l # ls" "patch_header_kind l = (PATCH_HEADER_NONE, [])"
    proof (cases "h = Bare")
      case True
      then obtain c cs' where "cs = c # cs'" "change_ok c" using ok ds d by (cases cs) auto
      then show ?thesis using that [of "change_line c"] change_line_plain(1) [of c] True d by simp
    next
      case False
      then obtain l where "head_lines h = [l]" "patch_header_kind l = (PATCH_HEADER_NONE, [])"
        using head_lines_at [of h thesis] ok ds d by auto
      then show ?thesis using that [of l] d by simp
    qed
    have "?h = patch_hunk_init PATCH_ACTION_UPDATE p" using None by (simp add: patch_hunk_init_def)
    then show ?thesis
      using upd res ne l ds None by (simp add: patch_parse_update_def del: patch_update_chunks.simps hunk_meaning.simps)
  qed
qed

lemma patch_add_lines_print:
  "file_stop rest \<Longrightarrow>
     patch_add_lines n content (map (\<lambda>l. CHR ''+'' # l) ls @ rest)
   = Inr (n + int (length ls), content @ concat (map (\<lambda>l. l @ [LF]) ls), rest)"
proof (induction ls arbitrary: n content)
  case Nil
  then show ?case
    by (cases rest) (auto simp: file_stop_def patch_file_header_def)
next
  case (Cons l ls)
  have "patch_header_kind (CHR ''+'' # l) = (PATCH_HEADER_NONE, [])"
    using patch_trim_view_head [of "CHR ''+''" l] by (intro patch_header_kind_plain) (auto simp: trim_ws_def)
  then show ?case using Cons by (simp add: patch_append_add_line_def)
qed

lemma hunk_doc_lines_Cons:
  obtains l ls where "hunk_doc_lines h = l # ls" by (cases h) auto

lemma patch_parse_hunk_print:
  assumes ok: "hunk_ok h" and stop: "file_stop rest" and l: "hunk_doc_lines h = l # ls"
  shows "patch_parse_hunk l (ls @ rest) = Inr (hunk_meaning h, rest)"
proof (cases h)
  case (DocAdd p as)
  then show ?thesis
    using ok l patch_header_kind_value(1) [of p] patch_add_lines_print [OF stop, of 0 "[]" as]
    by (auto simp: patch_parse_hunk_def patch_hunk_init_def)
next
  case (DocDelete p)
  then show ?thesis
    using ok l patch_header_kind_value(3) [of p] by (auto simp: patch_parse_hunk_def)
next
  case (DocUpdate p m ds)
  then have "value_ok p" using ok by simp
  moreover have "l = ''*** Update File: '' @ p"
    "ls = (case m of None \<Rightarrow> [] | Some q \<Rightarrow> [''*** Move to: '' @ q]) @ concat (map chunk_doc_lines ds)"
    using l DocUpdate by auto
  ultimately show ?thesis
    using patch_header_kind_value(2) [of p] patch_parse_update_print [OF ok [unfolded DocUpdate] stop] DocUpdate
    by (simp add: patch_parse_hunk_def del: hunk_meaning.simps)
qed

lemma hunk_doc_lines_stop:
  assumes "hunk_ok h" "hunk_doc_lines h = l # ls"
  shows "file_stop (l # rest)"
proof -
  have "patch_file_header (fst (patch_header_kind l))"
    using assms by (cases h) (use patch_header_kind_value in \<open>auto simp: patch_file_header_def\<close>)
  moreover have "snd (patch_trim_view l) \<noteq> []"
  proof -
    obtain l' where "l = CHR ''*'' # l'" using assms by (cases h) auto
    then show ?thesis using patch_trim_view_head [of "CHR ''*''" l'] by (auto simp: trim_ws_def)
  qed
  ultimately show ?thesis by (simp add: file_stop_def patch_view_equal_def)
qed

lemma patch_parse_hunks_print:
  "\<forall>h \<in> set hs. hunk_ok h \<Longrightarrow>
     patch_parse_hunks acc (concat (map hunk_doc_lines hs)) = Inr (acc @ map hunk_meaning hs)"
proof (induction hs arbitrary: acc)
  case (Cons h hs)
  obtain l ls where l: "hunk_doc_lines h = l # ls" by (rule hunk_doc_lines_Cons)
  have "file_stop (concat (map hunk_doc_lines hs))"
  proof (cases hs)
    case (Cons h' hs')
    obtain l' ls' where "hunk_doc_lines h' = l' # ls'" by (rule hunk_doc_lines_Cons)
    then show ?thesis using hunk_doc_lines_stop [of h' l' ls'] Cons Cons.prems by simp
  qed (simp add: file_stop_def)
  then show ?case
    using Cons patch_parse_hunk_print [OF _ _ l] l by simp
qed simp

lemma hunk_doc_lines_line_ok:
  assumes "hunk_ok h" "l \<in> set (hunk_doc_lines h)"
  shows "line_ok l"
proof -
  have v: "line_ok (m @ v)" if "value_ok v" "LF \<notin> set m" for m v
    using that by (auto simp: value_ok_def line_ok_def trim_ws_def)
  have c: "line_ok (change_line c)" if "change_ok c" for c
    using that by (cases c) (auto simp: line_ok_def)
  have k: "line_ok l" if "chunk_ok d" "l \<in> set (chunk_doc_lines d)" for d
  proof (cases d)
    case (DocChunk hd cs eof)
    then show ?thesis
      using that c v [of _ "''@@ ''"] by (cases hd) (auto simp: line_ok_def split: if_splits)
  qed
  show ?thesis
  proof (cases h)
    case (DocAdd p ls)
    then show ?thesis using assms v [of p "''*** Add File: ''"] c [of "Ins _"] by auto
  next
    case (DocDelete p)
    then show ?thesis using assms v [of p "''*** Delete File: ''"] by auto
  next
    case (DocUpdate p m ds)
    then show ?thesis
      using assms v [of p "''*** Update File: ''"] v [of _ "''*** Move to: ''"] k
      by (auto split: option.splits)
  qed
qed

lemma patch_parse_print_hunks:
  assumes "hs \<noteq> []" "\<forall>h \<in> set hs. hunk_ok h"
  shows "patch_parse (patch_print hs) = Inr (map hunk_meaning hs)"
proof -
  let ?b = "\<lambda>l. patch_view_equal l []"
  let ?body = "concat (map hunk_doc_lines hs)"
  let ?ls = "''*** Begin Patch'' # ?body @ [''*** End Patch'']"
  have "\<forall>l \<in> set ?ls. line_ok l"
    using assms(2) hunk_doc_lines_line_ok by (auto simp: line_ok_def)
  then have split: "patch_split_lines (patch_print hs) = ?ls @ [[]]"
    unfolding patch_print_def by (rule patch_split_lines_unlines)
  have b: "\<not> ?b ''*** Begin Patch''" "\<not> ?b ''*** End Patch''" "?b []"
    by (simp_all add: patch_view_equal_def patch_trim_view_def trim_ws_def)
  have "dropWhile ?b (?ls @ [[]]) = ?ls @ [[]]" using b by simp
  moreover have "rev (dropWhile ?b (rev (?ls @ [[]]))) = ?ls" using b by simp
  moreover have "\<not> patch_heredoc ?ls" by (simp add: patch_heredoc_def)
  moreover have "fst (patch_header_kind (hd ?body)) \<noteq> PATCH_HEADER_ENVIRONMENT" if "?body \<noteq> []"
  proof -
    obtain h hs' where hs: "hs = h # hs'" using assms(1) by (cases hs) auto
    obtain l ls where "hunk_doc_lines h = l # ls" by (rule hunk_doc_lines_Cons)
    then have "hd ?body = l" "file_stop (l # [])"
      using hunk_doc_lines_stop [of h l ls] assms(2) hs by auto
    then show ?thesis by (auto simp: file_stop_def patch_file_header_def)
  qed
  ultimately show ?thesis
    using assms patch_parse_hunks_print [of hs "[]"]
    unfolding patch_parse_def split by (auto simp: Let_def patch_header_kind_fixed)
qed

text \<open>
  C30. Every document of the patch language is parsed to what it says: for a patch printed from a
  document whose paths and contexts are not blank-ended, whose lines contain no line break and whose
  context lines do not look like headers, \<open>patch_parse\<close> succeeds with exactly the documented hunks,
  their expected and replacement lines, markers and counts.
\<close>

theorem patch_parse_print:
  assumes "hs \<noteq> []" "\<forall>h \<in> set hs. hunk_ok h"
  shows "patch_parse (patch_print hs) = Inr (map hunk_meaning hs)"
  using assms by (rule patch_parse_print_hunks)

theorem patch_parse_print_witness:
  "patch_parse (patch_print
      [DocUpdate ''src/a.c'' (Some ''src/b.c'')
         [DocChunk (AtContext ''int main'') [Keep ''x'', Del ''y'', Ins ''z''] True],
       DocAdd ''n'' [''line''], DocDelete ''old''])
   = Inr (map hunk_meaning
      [DocUpdate ''src/a.c'' (Some ''src/b.c'')
         [DocChunk (AtContext ''int main'') [Keep ''x'', Del ''y'', Ins ''z''] True],
       DocAdd ''n'' [''line''], DocDelete ''old''])"
  by (rule patch_parse_print) (simp_all add: value_ok_def line_ok_def trim_ws_def patch_trim_view_def)

section \<open>What every accepted patch is like\<close>

definition chunk_wf :: "patch_chunk \<Rightarrow> bool" where
  "chunk_wf c = ((old_lines c \<noteq> [] \<or> new_lines c \<noteq> []) \<and> pc_context c \<noteq> Some [])"

definition hunk_balance :: "patch_hunk \<Rightarrow> int" where
  "hunk_balance h = added h - removed h"

definition chunks_balance :: "patch_chunk list \<Rightarrow> int" where
  "chunks_balance cs = (\<Sum>c \<leftarrow> cs. int (length (new_lines c)) - int (length (old_lines c)))"

definition update_wf :: "patch_hunk \<Rightarrow> bool" where
  "update_wf h = (ph_path h \<noteq> [] \<and> add_content h = None \<and> (\<forall>c \<in> set (chunks h). chunk_wf c)
     \<and> 0 \<le> added h \<and> 0 \<le> removed h \<and> hunk_balance h = chunks_balance (chunks h))"

definition hunk_wf :: "patch_hunk \<Rightarrow> bool" where
  "hunk_wf h = (ph_path h \<noteq> [] \<and> (case ph_action h of
       PATCH_ACTION_ADD \<Rightarrow>
         (\<exists>ls. ls \<noteq> [] \<and> h = (patch_hunk_init PATCH_ACTION_ADD (ph_path h))
            \<lparr>added := int (length ls), add_content := Some (concat (map (\<lambda>l. l @ [LF]) ls))\<rparr>)
     | PATCH_ACTION_DELETE \<Rightarrow> h = patch_hunk_init PATCH_ACTION_DELETE (ph_path h)
     | PATCH_ACTION_UPDATE \<Rightarrow> update_wf h \<and> chunks h \<noteq> []))"

lemma patch_header_scan_value:
  "patch_header_scan line off view ms = (h, v) \<Longrightarrow>
   \<forall>(m, h', has_value) \<in> set ms. h' = h \<longrightarrow> has_value \<Longrightarrow> h \<noteq> PATCH_HEADER_NONE \<Longrightarrow> v \<noteq> []"
  by (induction line off view ms rule: patch_header_scan.induct) (auto split: if_splits)

lemma patch_header_kind_value_nonempty:
  assumes "patch_header_kind line = (h, v)"
    and "h \<in> {PATCH_HEADER_ADD, PATCH_HEADER_UPDATE, PATCH_HEADER_DELETE, PATCH_HEADER_MOVE}"
  shows "v \<noteq> []"
proof -
  obtain off view where "patch_trim_view line = (off, view)" by fastforce
  then have "patch_header_scan line off view patch_markers = (h, v)"
    using assms(1) by (simp add: patch_header_kind_def)
  then show ?thesis
    using assms(2) by (elim patch_header_scan_value) (auto simp: patch_markers_def)
qed

lemma patch_add_lines_content:
  "patch_add_lines n content ls = Inr (m, content', rest) \<Longrightarrow>
   \<exists>as. m = n + int (length as) \<and> content' = content @ concat (map (\<lambda>l. l @ [LF]) as)"
proof (induction n content ls rule: patch_add_lines.induct)
  case (1 n content)
  then show ?case by (auto intro!: exI [of _ "[]"])
next
  case (2 n content line ls)
  show ?case
  proof (cases "fst (patch_header_kind line) = PATCH_HEADER_NONE")
    case True
    then obtain c where c: "patch_append_add_line content line = Inr c"
      "patch_add_lines (n + 1) c ls = Inr (m, content', rest)"
      using 2(2) by (auto split: sum.splits)
    then obtain as where "m = n + 1 + int (length as)" "content' = c @ concat (map (\<lambda>l. l @ [LF]) as)"
      using 2(1) [OF True c(1)] by blast
    moreover have "c = content @ tl line @ [LF]" using c(1) by (simp add: patch_append_add_line_def split: if_splits)
    ultimately show ?thesis by (intro exI [of _ "tl line # as"]) simp
  next
    case False
    then show ?thesis using 2(2) by (auto intro!: exI [of _ "[]"])
  qed
qed

text \<open>The inner loop touches only the counters of the hunk, and keeps them in step with the lines.\<close>

definition same_but_counts :: "patch_hunk \<Rightarrow> patch_hunk \<Rightarrow> bool" where
  "same_but_counts h h' = (h' = h\<lparr>added := added h', removed := removed h'\<rparr>
     \<and> added h \<le> added h' \<and> removed h \<le> removed h')"

lemma same_but_counts_trans: "same_but_counts a b \<Longrightarrow> same_but_counts b c \<Longrightarrow> same_but_counts a c"
  by (cases a; cases b; cases c) (auto simp: same_but_counts_def)

lemma patch_parse_change_line_counts:
  "patch_parse_change_line hunk chunk line = Inr (hunk', chunk') \<Longrightarrow>
     same_but_counts hunk hunk' \<and> pc_context chunk' = pc_context chunk
   \<and> hunk_balance hunk' - hunk_balance hunk
     = int (length (new_lines chunk')) - int (length (old_lines chunk'))
       - (int (length (new_lines chunk)) - int (length (old_lines chunk)))"
  by (auto simp: patch_parse_change_line_def same_but_counts_def hunk_balance_def Let_def split: if_splits)

lemma patch_chunk_lines_counts:
  "patch_chunk_lines hunk chunk ls = Inr (hunk', chunk', rest) \<Longrightarrow>
     same_but_counts hunk hunk' \<and> pc_context chunk' = pc_context chunk
   \<and> hunk_balance hunk' - hunk_balance hunk
     = int (length (new_lines chunk')) - int (length (old_lines chunk'))
       - (int (length (new_lines chunk)) - int (length (old_lines chunk)))"
proof (induction hunk chunk ls rule: patch_chunk_lines.induct)
  case (1 hunk chunk)
  then show ?case by (auto simp: same_but_counts_def)
next
  case (2 hunk chunk line ls)
  let ?h = "fst (patch_header_kind line)"
  show ?case
  proof (cases "patch_chunk_start line \<or> patch_file_header ?h \<or> ?h = PATCH_HEADER_EOF")
    case True
    then show ?thesis using 2(2) by (auto simp: same_but_counts_def Let_def split: if_splits)
  next
    case False
    then obtain h1 c1 where 1: "patch_parse_change_line hunk chunk line = Inr (h1, c1)"
      "patch_chunk_lines h1 c1 ls = Inr (hunk', chunk', rest)"
      using 2(2) by (auto simp: Let_def split: sum.splits)
    have "same_but_counts h1 hunk' \<and> pc_context chunk' = pc_context c1
      \<and> hunk_balance hunk' - hunk_balance h1
        = int (length (new_lines chunk')) - int (length (old_lines chunk'))
          - (int (length (new_lines c1)) - int (length (old_lines c1)))"
      using 2(1) [OF refl _ _ 1(1) refl 1(2)] False by simp
    then show ?thesis
      using patch_parse_change_line_counts [OF 1(1)] same_but_counts_trans by force
  qed
qed

lemma patch_chunk_head_init:
  "patch_chunk_head f line ls = Some (chunk, rest) \<Longrightarrow>
     old_lines chunk = [] \<and> new_lines chunk = [] \<and> pc_context chunk \<noteq> Some []"
  by (auto simp: patch_chunk_head_def patch_chunk_init_def Let_def split: if_splits)

lemma update_wf_chunk:
  assumes wf: "update_wf hunk" and same: "same_but_counts hunk hunk1" and c: "chunk_wf c"
    and bal: "hunk_balance hunk1 - hunk_balance hunk = int (length (new_lines c)) - int (length (old_lines c))"
  shows "update_wf (hunk1\<lparr>chunks := chunks hunk1 @ [c]\<rparr>)"
proof -
  have f: "ph_path hunk1 = ph_path hunk" "add_content hunk1 = add_content hunk" "chunks hunk1 = chunks hunk"
    "added hunk \<le> added hunk1" "removed hunk \<le> removed hunk1"
    using same by (cases hunk; cases hunk1; simp add: same_but_counts_def)+
  have "hunk_balance (hunk1\<lparr>chunks := chunks hunk1 @ [c]\<rparr>) = hunk_balance hunk1"
    by (simp add: hunk_balance_def)
  then show ?thesis using wf c f bal by (auto simp: update_wf_def chunks_balance_def)
qed

lemma patch_update_chunks_wf:
  "patch_update_chunks hunk ls = Inr (hunk', rest) \<Longrightarrow> update_wf hunk \<Longrightarrow>
     update_wf hunk' \<and> ph_action hunk' = ph_action hunk"
proof (induction "length ls" arbitrary: hunk ls rule: less_induct)
  case less
  show ?case
  proof (cases ls)
    case Nil
    then show ?thesis using less.prems by simp
  next
    case (Cons line ls')
    from less.prems(1) [unfolded Cons] show ?thesis
    proof (cases rule: patch_update_chunks_ConsE)
      case stop
      then show ?thesis using less.prems by simp
    next
      case (chunk chunk rest0 hunk1 chunk1 rest1)
      note cnt = patch_chunk_lines_counts [OF chunk(3)] and ini = patch_chunk_head_init [OF chunk(2)]
      have "update_wf (hunk1\<lparr>chunks := chunks hunk1 @ [chunk1]\<rparr>)"
        using less.prems(2) cnt ini chunk(4)
        by (intro update_wf_chunk [of hunk]) (auto simp: chunk_wf_def)
      moreover have "ph_action hunk1 = ph_action hunk"
        using cnt by (cases hunk; cases hunk1) (simp add: same_but_counts_def)
      ultimately show ?thesis using less.hyps [OF _ chunk(6)] chunk(5) Cons by simp
    qed
  qed
qed

lemma update_wf_init: "p \<noteq> [] \<Longrightarrow> update_wf ((patch_hunk_init PATCH_ACTION_UPDATE p)\<lparr>move_path := m\<rparr>)"
  by (simp add: update_wf_def patch_hunk_init_def hunk_balance_def chunks_balance_def)

lemma patch_parse_update_wf:
  assumes "patch_parse_update (patch_hunk_init PATCH_ACTION_UPDATE p) ls = Inr (hunk, rest)" "p \<noteq> []"
  shows "hunk_wf hunk"
proof -
  obtain m ls' where u: "patch_update_chunks ((patch_hunk_init PATCH_ACTION_UPDATE p)\<lparr>move_path := m\<rparr>) ls' = Inr (hunk, rest)"
    and ne: "chunks hunk \<noteq> []"
  proof -
    have id: "patch_hunk_init PATCH_ACTION_UPDATE p = (patch_hunk_init PATCH_ACTION_UPDATE p)\<lparr>move_path := None\<rparr>"
      by (simp add: patch_hunk_init_def)
    show ?thesis
      using assms(1) that id
      by (simp add: patch_parse_update_def Let_def del: patch_update_chunks.simps
          split: list.splits prod.splits if_splits sum.splits) metis+
  qed
  have "update_wf hunk" "ph_action hunk = PATCH_ACTION_UPDATE"
    using patch_update_chunks_wf [OF u update_wf_init [OF assms(2)]] by (simp_all add: patch_hunk_init_def)
  then show ?thesis using ne by (simp add: hunk_wf_def update_wf_def)
qed

lemma patch_parse_hunk_wf:
  assumes "patch_parse_hunk line ls = Inr (hunk, rest)"
  shows "hunk_wf hunk"
proof -
  obtain h v where hv: "patch_header_kind line = (h, v)" by fastforce
  have h: "h \<in> {PATCH_HEADER_ADD, PATCH_HEADER_UPDATE, PATCH_HEADER_DELETE}"
    using assms hv by (auto simp: patch_parse_hunk_def split: if_splits)
  then have v: "v \<noteq> []" using patch_header_kind_value_nonempty [OF hv] by auto
  consider "h = PATCH_HEADER_ADD" | "h = PATCH_HEADER_UPDATE" | "h = PATCH_HEADER_DELETE" using h by auto
  then show ?thesis
  proof cases
    case 1
    then obtain n content where a: "patch_add_lines 0 [] ls = Inr (n, content, rest)" "n \<noteq> 0"
      "hunk = (patch_hunk_init PATCH_ACTION_ADD v)\<lparr>added := n, add_content := Some content\<rparr>"
      using assms hv by (auto simp: patch_parse_hunk_def Let_def split: sum.splits if_splits)
    then obtain as where "n = int (length as)" "content = concat (map (\<lambda>l. l @ [LF]) as)"
      using patch_add_lines_content [OF a(1)] by auto
    then show ?thesis using a v by (auto simp: hunk_wf_def patch_hunk_init_def intro!: exI [of _ as])
  next
    case 2
    then show ?thesis using assms hv v patch_parse_update_wf by (simp add: patch_parse_hunk_def)
  next
    case 3
    then show ?thesis using assms hv v by (auto simp: patch_parse_hunk_def hunk_wf_def patch_hunk_init_def)
  qed
qed

lemma patch_parse_hunks_wf:
  "patch_parse_hunks acc ls = Inr hunks \<Longrightarrow> \<forall>h \<in> set acc. hunk_wf h \<Longrightarrow> \<forall>h \<in> set hunks. hunk_wf h"
  by (induction acc ls rule: patch_parse_hunks.induct)
    (auto split: sum.splits dest: patch_parse_hunk_wf)

lemma patch_parse_nonempty: "patch_parse copy = Inr hunks \<Longrightarrow> hunks \<noteq> []"
  by (auto simp: patch_parse_def Let_def split: if_splits sum.splits)

text \<open>
  Whatever text it is given, the patch parser accepts it only with a non-empty list of
  well-formed hunks: every hunk names a path; an added file has at least one line and its content is
  those lines, each ended by a line break; a deletion carries nothing else; an update has at least one chunk,
  no chunk is empty, no context is empty, and the counts of added and removed lines balance the
  replacement lines against the expected ones.  The only error is \<open>-EINVAL\<close>.
\<close>

theorem patch_parse_sound:
  "case patch_parse copy of
     Inl e \<Rightarrow> e = - EINVAL
   | Inr hunks \<Rightarrow> hunks \<noteq> [] \<and> list_all hunk_wf hunks"
proof -
  have 1: "patch_append_add_line c l = Inl e \<Longrightarrow> e = - EINVAL" for c l e
    by (auto simp: patch_append_add_line_def split: if_splits)
  have 2: "patch_add_lines n c ls = Inl e \<Longrightarrow> e = - EINVAL" for n c ls e
    by (induction n c ls rule: patch_add_lines.induct) (auto split: if_splits sum.splits dest: 1)
  have 3: "patch_chunk_lines h c ls = Inl e \<Longrightarrow> e = - EINVAL" for h c ls e
    by (induction h c ls rule: patch_chunk_lines.induct)
      (auto simp: Let_def patch_parse_change_line_def split: if_splits sum.splits)
  have 4: "patch_update_chunks h ls = Inl e \<Longrightarrow> e = - EINVAL" for h ls e
    by (induction h ls rule: patch_update_chunks.induct)
      (auto split: if_splits sum.splits option.splits dest: 3)
  have 5: "patch_parse_update h ls = Inl e \<Longrightarrow> e = - EINVAL" for h ls e
    by (auto simp: patch_parse_update_def Let_def simp del: patch_update_chunks.simps
        split: if_splits sum.splits prod.splits list.splits dest: 4)
  have 6: "patch_parse_hunk l ls = Inl e \<Longrightarrow> e = - EINVAL" for l ls e
    by (auto simp: patch_parse_hunk_def Let_def split: if_splits sum.splits prod.splits dest: 2 5)
  have 7: "patch_parse_hunks acc ls = Inl e \<Longrightarrow> e = - EINVAL" for acc ls e
    by (induction acc ls rule: patch_parse_hunks.induct) (auto split: sum.splits dest: 6)
  have 8: "patch_parse_hunks [] ls = Inr hunks \<Longrightarrow> list_all hunk_wf hunks" for ls hunks
    using patch_parse_hunks_wf [of "[]" ls hunks] by (simp add: list_all_iff)
  let ?ok = "\<lambda>res. case res of Inl e \<Rightarrow> e = - EINVAL | Inr hunks \<Rightarrow> hunks \<noteq> [] \<and> list_all hunk_wf hunks"
  have fin: "?ok (case patch_parse_hunks [] ls of Inl e \<Rightarrow> Inl e
                  | Inr hunks \<Rightarrow> if hunks = [] then Inl (- EINVAL) else Inr hunks)" for ls
    using 7 [of "[]" ls] 8 [of ls] by (cases "patch_parse_hunks [] ls") auto
  have inv: "?ok (Inl (- EINVAL))" by simp
  show ?thesis
    unfolding patch_parse_def Let_def by (simp only: if_split [of ?ok] fin inv simp_thms)
qed

text \<open>
  A line that starts with a space is a context line for the grammar given to the model, but the
  parser trims it before it looks for markers: one that reads \<open>@@\<close> or \<open>*** End Patch\<close> after the space
  closes the chunk, and one that reads \<open>*** End of File\<close> anchors it to the end of the file.
\<close>

lemma patch_context_line_taken_as_marker:
  "patch_chunk_lines hunk chunk (('' @@'') # ls) = Inr (hunk, chunk, '' @@'' # ls)"
  "patch_chunk_lines hunk chunk (('' *** End Patch'') # ls) = Inr (hunk, chunk, '' *** End Patch'' # ls)"
  "patch_chunk_lines hunk chunk ['' *** End of File''] = Inr (hunk, chunk\<lparr>end_of_file := True\<rparr>, [])"
  by (simp_all add: patch_chunk_start_def patch_header_kind_def patch_trim_view_def trim_ws_def
      patch_markers_def patch_file_header_def)

end
