(* ===== verification/Patch_Match.thy ===== *)
theory Patch_Match
  imports Patch_Parse Utf8 "HOL-Library.Product_Lexorder" "HOL-Library.Multiset"
begin

text \<open>
  Locating and replacing the lines of an update (\<open>src/agent/patch.c\<close>, lines 592 to 908): line
  comparison with increasing tolerance, the search for a chunk's expected lines, the list of
  replacements and the construction of the new content.

  The arrays of strings are lists of C strings.  An outer \<open>None\<close> is undefined behaviour: it arises
  only where \<open>utf8codepoint\<close> is run on a line that is not well-formed UTF-8 and walks past the
  terminator.
\<close>

section \<open>Comparing lines\<close>

definition line_ws :: "char \<Rightarrow> bool" where
  "line_ws c = (c = CHR '' '' \<or> c = TAB)"

definition patch_line_trim :: "string \<Rightarrow> bool \<Rightarrow> string" where
  "patch_line_trim s leading =
     (let s = rev (dropWhile line_ws (rev s)) in if leading then dropWhile line_ws s else s)"

definition patch_replacement_char :: "int \<Rightarrow> char option" where
  "patch_replacement_char cp =
     (if cp \<in> {0x2010, 0x2011, 0x2012, 0x2013, 0x2014, 0x2015, 0x2212} then Some (CHR ''-'')
      else if cp \<in> {0x2018, 0x2019, 0x201a, 0x201b} then Some (CHR 0x27)
      else if cp \<in> {0x201c, 0x201d, 0x201e, 0x201f} then Some (CHR 0x22)
      else if cp \<in> {0x00a0, 0x2002, 0x2003, 0x2004, 0x2005, 0x2006, 0x2007, 0x2008, 0x2009,
                    0x200a, 0x202f, 0x205f, 0x3000} then Some (CHR '' '')
      else None)"

lemma utf8codepoint_pos: "utf8codepoint s = Some (cp, k) \<Longrightarrow> 0 < k"
  by (auto simp: utf8codepoint_def Let_def split: if_splits)

function patch_normalize_line :: "string \<Rightarrow> string option" where
  "patch_normalize_line s =
     (if s = [] then Some []
      else (case utf8codepoint s of
          None \<Rightarrow> None
        | Some (codepoint, k) \<Rightarrow>
            if k > length s then None
            else (case patch_normalize_line (drop k s) of
                None \<Rightarrow> None
              | Some rest \<Rightarrow>
                  Some ((case patch_replacement_char codepoint of
                           Some c \<Rightarrow> [c] | None \<Rightarrow> take k s) @ rest))))"
  by pat_completeness auto
termination
  by (relation "measure length") (auto dest: utf8codepoint_pos)

declare patch_normalize_line.simps [simp del]

definition patch_lines_equal :: "string \<Rightarrow> string \<Rightarrow> nat \<Rightarrow> bool option" where
  "patch_lines_equal left right mode =
     (if mode < 3 then
        if mode > 0 then Some (patch_line_trim left (mode > 1) = patch_line_trim right (mode > 1))
        else Some (left = right)
      else do {
        l \<leftarrow> patch_normalize_line (snd (patch_trim_view left));
        r \<leftarrow> patch_normalize_line (snd (patch_trim_view right));
        Some (l = r) })"

section \<open>Searching\<close>

text \<open>The three loops of \<open>patch_seek_sequence\<close>, innermost first.\<close>

fun seek_lines :: "string list \<Rightarrow> string list \<Rightarrow> nat \<Rightarrow> bool option" where
  "seek_lines src [] mode = Some True"
| "seek_lines [] (w # wanted) mode = None"
| "seek_lines (s # src) (w # wanted) mode =
     (case patch_lines_equal s w mode of
        None \<Rightarrow> None
      | Some False \<Rightarrow> Some False
      | Some True \<Rightarrow> seek_lines src wanted mode)"

fun seek_positions :: "string list \<Rightarrow> string list \<Rightarrow> nat \<Rightarrow> nat list \<Rightarrow> nat option option" where
  "seek_positions source wanted mode [] = Some None"
| "seek_positions source wanted mode (i # is) =
     (case seek_lines (drop i source) wanted mode of
        None \<Rightarrow> None
      | Some True \<Rightarrow> Some (Some i)
      | Some False \<Rightarrow> seek_positions source wanted mode is)"

fun seek_modes :: "string list \<Rightarrow> string list \<Rightarrow> nat list \<Rightarrow> nat list \<Rightarrow> nat option option" where
  "seek_modes source wanted is [] = Some None"
| "seek_modes source wanted is (mode # modes) =
     (case seek_positions source wanted mode is of
        None \<Rightarrow> None
      | Some (Some i) \<Rightarrow> Some (Some i)
      | Some None \<Rightarrow> seek_modes source wanted is modes)"

definition patch_seek_sequence ::
  "string list \<Rightarrow> string list \<Rightarrow> nat \<Rightarrow> bool \<Rightarrow> nat option option"
where
  "patch_seek_sequence source wanted start eof =
     (if wanted = [] then Some (Some start)
      else if length wanted > length source then Some None
      else let limit = length source - length wanted;
               search_start = (if eof then limit else start)
        in if search_start > limit then Some None
           else seek_modes source wanted [search_start..<limit + 1] [0..<4])"

text \<open>
  \<open>patch_content_lines\<close>: the lines of a file, without their line breaks; \<open>rev_line\<close> holds the bytes
  from \<open>start\<close> to \<open>cursor\<close>, last first.
\<close>

fun content_lines_loop :: "string \<Rightarrow> string \<Rightarrow> string list" where
  "content_lines_loop rev_line [] = (if rev_line = [] then [] else [rev rev_line])"
| "content_lines_loop rev_line (c # rest) =
     (if c = LF then rev rev_line # content_lines_loop [] rest
      else content_lines_loop (c # rev_line) rest)"

definition patch_content_lines :: "string \<Rightarrow> string list" where
  "patch_content_lines content = content_lines_loop [] content"

section \<open>Replacements\<close>

record patch_replacement =
  rp_start :: nat
  rp_old_count :: nat
  rp_order :: nat
  rp_chunk :: patch_chunk
  rp_new_count :: nat

text \<open>The search from the cursor, and again from where the chunk started when its context moved it.\<close>

definition patch_seek_twice :: "string list \<Rightarrow> string list \<Rightarrow> nat \<Rightarrow> nat \<Rightarrow> bool \<Rightarrow> nat option option" where
  "patch_seek_twice source wanted cursor chunk_cursor eof =
     do { found \<leftarrow> patch_seek_sequence source wanted cursor eof;
          if found = None \<and> cursor \<noteq> chunk_cursor
          then patch_seek_sequence source wanted chunk_cursor eof
          else Some found }"

definition patch_chunk_cursor :: "string list \<Rightarrow> patch_chunk \<Rightarrow> nat \<Rightarrow> nat option" where
  "patch_chunk_cursor source chunk cursor =
     (case pc_context chunk of
        None \<Rightarrow> Some cursor
      | Some context \<Rightarrow> do {
          found \<leftarrow> patch_seek_sequence source [context] cursor False;
          Some (case found of None \<Rightarrow> cursor | Some i \<Rightarrow> i + 1) })"

text \<open>
  Where one chunk goes: the position, the number of lines replaced and the number of new lines, or
  \<open>None\<close> when the expected lines are not found.  An expected last line that is empty is given up in
  a second attempt, together with an empty last new line.
\<close>

definition patch_locate_chunk ::
  "string list \<Rightarrow> patch_chunk \<Rightarrow> nat \<Rightarrow> nat \<Rightarrow> (nat \<times> nat \<times> nat) option option"
where
  "patch_locate_chunk source chunk cursor chunk_cursor =
     (let old = old_lines chunk; new_count = length (new_lines chunk)
      in do {
        found \<leftarrow> patch_seek_twice source old cursor chunk_cursor (end_of_file chunk);
        case found of
          Some i \<Rightarrow> Some (Some (i, length old, new_count))
        | None \<Rightarrow>
            if old \<noteq> [] \<and> last old = [] then
              let new_count = (if new_count > 0 \<and> last (new_lines chunk) = [] then new_count - 1 else new_count)
              in do {
                found \<leftarrow> patch_seek_twice source (butlast old) cursor chunk_cursor (end_of_file chunk);
                Some (case found of None \<Rightarrow> None | Some i \<Rightarrow> Some (i, length old - 1, new_count)) }
            else Some None })"

fun patch_compute_replacements ::
  "string list \<Rightarrow> nat \<Rightarrow> patch_replacement list \<Rightarrow> patch_chunk list \<Rightarrow> (rc + patch_replacement list) option"
where
  "patch_compute_replacements source cursor rs [] = Some (Inr rs)"
| "patch_compute_replacements source chunk_cursor rs (chunk # cs) =
     do { cursor \<leftarrow> patch_chunk_cursor source chunk chunk_cursor;
          if old_lines chunk = [] then
            patch_compute_replacements source cursor
              (rs @ [\<lparr>rp_start = length source, rp_old_count = 0, rp_order = length rs,
                      rp_chunk = chunk, rp_new_count = length (new_lines chunk)\<rparr>]) cs
          else do {
            loc \<leftarrow> patch_locate_chunk source chunk cursor chunk_cursor;
            case loc of
              None \<Rightarrow> Some (Inl (- EINVAL))
            | Some (found, old_count, new_count) \<Rightarrow>
                patch_compute_replacements source (found + old_count)
                  (rs @ [\<lparr>rp_start = found, rp_old_count = old_count, rp_order = length rs,
                          rp_chunk = chunk, rp_new_count = new_count\<rparr>]) cs } }"

definition patch_replacement_compare :: "patch_replacement \<Rightarrow> patch_replacement \<Rightarrow> int" where
  "patch_replacement_compare a b =
     (if rp_start a < rp_start b then -1 else if rp_start a > rp_start b then 1
      else if rp_order a < rp_order b then -1 else if rp_order a > rp_order b then 1 else 0)"

text \<open>
  \<open>qsort\<close> with this comparison.  The orders of the replacements are distinct, so the sorted
  arrangement is unique and any sorting algorithm gives it.
\<close>

definition patch_sort_replacements :: "patch_replacement list \<Rightarrow> patch_replacement list" where
  "patch_sort_replacements rs = sort_key (\<lambda>r. (rp_start r, rp_order r)) rs"

fun patch_emit :: "string list \<Rightarrow> nat \<Rightarrow> patch_replacement list \<Rightarrow> string list" where
  "patch_emit source source_index [] = drop source_index source"
| "patch_emit source source_index (r # rs) =
     drop source_index (take (rp_start r) source)
       @ take (rp_new_count r) (new_lines (rp_chunk r))
       @ patch_emit source (rp_start r + rp_old_count r) rs"

definition unlines :: "string list \<Rightarrow> string" where
  "unlines ls = concat (map (\<lambda>l. l @ [LF]) ls)"

definition patch_build_updated_content :: "string \<Rightarrow> patch_hunk \<Rightarrow> (rc + string) option" where
  "patch_build_updated_content original hunk =
     (let source = patch_content_lines original
      in do {
        res \<leftarrow> patch_compute_replacements source 0 [] (chunks hunk);
        Some (case res of
            Inl e \<Rightarrow> Inl e
          | Inr rs \<Rightarrow> Inr (unlines (patch_emit source 0 (patch_sort_replacements rs)))) })"

section \<open>Comparison is safe on well-formed text\<close>

lemma patch_normalize_line_wf: "utf8_wf s \<Longrightarrow> \<exists>r. patch_normalize_line s = Some r"
proof -
  assume "utf8_wf s"
  then obtain qs where "s = concat qs" "\<forall>q \<in> set qs. wf_seq q" by (auto simp: utf8_wf_def)
  then show ?thesis
  proof (induction qs arbitrary: s)
    case Nil
    then show ?case by (subst patch_normalize_line.simps) simp
  next
    case (Cons q qs)
    then obtain r where r: "patch_normalize_line (concat qs) = Some r" by auto
    obtain cp where cp: "utf8codepoint (q @ concat qs) = Some (cp, length q)"
      using Cons.prems utf8codepoint_seq [of q "concat qs"] by auto
    show ?case
      using Cons.prems r cp by (subst patch_normalize_line.simps) (simp add: wf_seq_def)
  qed
qed

lemma ascii_not_cont: "n < 128 \<Longrightarrow> \<not> utf8_cont n"
  using ascii_mask [of n] mask_sub [of "0x80" "0xc0" n "0x80"] by (auto simp: utf8_cont_def)

lemma utf8_wf_tl_ascii:
  assumes "utf8_wf (c # s)" "of_char c < (128 :: nat)"
  shows "utf8_wf s"
proof -
  obtain q t where q: "c # s = q @ t" "wf_seq q" "utf8_wf t" using utf8_wf_cases [OF assms(1)] by auto
  then have "byte_at q 0 = of_char c" by (cases q) (auto simp: byte_at_def wf_seq_def)
  moreover have "lead (length q) (byte_at q 0) (byte_at q 1)"
    using q(2) by (simp add: wf_seq_def utf8_check_seq_iff seq_ok_def)
  ultimately have "length q = 1" using assms(2) lead_ascii by auto
  then show ?thesis using q by (cases q) auto
qed

lemma utf8_wf_butlast_ascii:
  assumes "utf8_wf (s @ [c])" "of_char c < (128 :: nat)"
  shows "utf8_wf s"
proof -
  obtain qs where qs: "s @ [c] = concat qs" "\<forall>q \<in> set qs. wf_seq q" using assms(1) by (auto simp: utf8_wf_def)
  then obtain rs q where rs: "qs = rs @ [q]" by (cases qs rule: rev_cases) auto
  then have "wf_seq q" using qs by simp
  then have q: "seq_ok (length q) (length q) (byte_at q)" "q \<noteq> []"
    by (auto simp: wf_seq_def utf8_check_seq_iff)
  then obtain q' where q': "q = q' @ [c]" "s = concat rs @ q'" using qs(1) rs by (cases q rule: rev_cases) auto
  have "q' = []"
  proof (rule ccontr)
    assume "q' \<noteq> []"
    then have "utf8_cont (byte_at q (length q'))" using q(1) q'(1) by (simp add: seq_ok_def)
    then show False using ascii_not_cont [OF assms(2)] q'(1) by (simp add: byte_at_def)
  qed
  then show ?thesis using q' qs rs by (auto simp: utf8_wf_def)
qed

lemma trim_ws_ascii: "trim_ws c \<Longrightarrow> of_char c < (128 :: nat)"
  by (auto simp: trim_ws_def)

lemma utf8_wf_trim_view: "utf8_wf s \<Longrightarrow> utf8_wf (snd (patch_trim_view s))"
proof -
  have d: "utf8_wf t \<Longrightarrow> utf8_wf (dropWhile trim_ws t)" for t
    by (induction t) (auto dest: utf8_wf_tl_ascii trim_ws_ascii)
  have r: "utf8_wf t \<Longrightarrow> utf8_wf (rev (dropWhile trim_ws (rev t)))" for t
    by (induction t rule: rev_induct) (auto dest: utf8_wf_butlast_ascii trim_ws_ascii)
  assume "utf8_wf s"
  then show ?thesis by (simp add: patch_trim_view_def Let_def d r)
qed

lemma patch_lines_equal_wf:
  assumes "utf8_wf l" "utf8_wf r"
  shows "\<exists>b. patch_lines_equal l r mode = Some b"
proof -
  obtain x where "patch_normalize_line (snd (patch_trim_view l)) = Some x"
    using patch_normalize_line_wf utf8_wf_trim_view assms by blast
  moreover obtain y where "patch_normalize_line (snd (patch_trim_view r)) = Some y"
    using patch_normalize_line_wf utf8_wf_trim_view assms by blast
  ultimately show ?thesis by (simp add: patch_lines_equal_def)
qed

lemma patch_lines_equal_refl: "mode < 3 \<Longrightarrow> patch_lines_equal l l mode = Some True"
  by (simp add: patch_lines_equal_def)

section \<open>The search\<close>

definition lines_match :: "string list \<Rightarrow> string list \<Rightarrow> nat \<Rightarrow> bool" where
  "lines_match src wanted mode = (length wanted \<le> length src \<and>
     (\<forall>j < length wanted. patch_lines_equal (src ! j) (wanted ! j) mode = Some True))"

definition matches_at :: "string list \<Rightarrow> string list \<Rightarrow> nat \<Rightarrow> nat \<Rightarrow> bool" where
  "matches_at source wanted mode i = lines_match (drop i source) wanted mode"

lemma lines_match_simps [simp]:
  "lines_match src [] mode"
  "\<not> lines_match [] (w # wanted) mode"
  "lines_match (s # src) (w # wanted) mode
     \<longleftrightarrow> patch_lines_equal s w mode = Some True \<and> lines_match src wanted mode"
  by (auto simp: lines_match_def nth_Cons split: nat.split)

lemma seek_lines_iff: "seek_lines src wanted mode = Some True \<longleftrightarrow> lines_match src wanted mode"
  by (induction src wanted mode rule: seek_lines.induct) (auto split: option.split bool.split)

lemma seek_positions_sound:
  "seek_positions source wanted mode is = Some r \<Longrightarrow>
     (case r of
        None \<Rightarrow> \<forall>i \<in> set is. \<not> matches_at source wanted mode i
      | Some i \<Rightarrow> \<exists>xs ys. is = xs @ i # ys \<and> matches_at source wanted mode i
                       \<and> (\<forall>k \<in> set xs. \<not> matches_at source wanted mode k))"
proof (induction source wanted mode "is" rule: seek_positions.induct)
  case (2 source wanted mode i "is")
  then obtain b where b: "seek_lines (drop i source) wanted mode = Some b" by (auto split: option.splits)
  show ?case
  proof (cases b)
    case True
    then have "matches_at source wanted mode i" "r = Some i"
      using b 2 seek_lines_iff [of "drop i source" wanted mode] by (auto simp: matches_at_def)
    then have "i # is = [] @ i # is \<and> matches_at source wanted mode i \<and> (\<forall>k \<in> set []. \<not> matches_at source wanted mode k)"
      "r = Some i" by auto
    then show ?thesis by (simp only: option.case) blast
  next
    case False
    then have n: "\<not> matches_at source wanted mode i"
      using b seek_lines_iff [of "drop i source" wanted mode] by (auto simp: matches_at_def)
    have IH: "case r of None \<Rightarrow> \<forall>i \<in> set is. \<not> matches_at source wanted mode i
      | Some i \<Rightarrow> \<exists>xs ys. is = xs @ i # ys \<and> matches_at source wanted mode i
                       \<and> (\<forall>k \<in> set xs. \<not> matches_at source wanted mode k)"
      using 2 b False by simp
    show ?thesis
    proof (cases r)
      case None
      then show ?thesis using n IH by simp
    next
      case (Some k)
      then obtain xs ys where "is = xs @ k # ys" "matches_at source wanted mode k"
        "\<forall>k \<in> set xs. \<not> matches_at source wanted mode k" using IH by auto
      then have "i # is = (i # xs) @ k # ys \<and> matches_at source wanted mode k
          \<and> (\<forall>j \<in> set (i # xs). \<not> matches_at source wanted mode j)" using n by auto
      then show ?thesis unfolding Some option.case by blast
    qed
  qed
qed auto

lemma seek_modes_sound:
  "seek_modes source wanted is modes = Some r \<Longrightarrow>
     (case r of
        None \<Rightarrow> \<forall>m \<in> set modes. \<forall>i \<in> set is. \<not> matches_at source wanted m i
      | Some i \<Rightarrow> \<exists>ms m ns xs ys. modes = ms @ m # ns \<and> is = xs @ i # ys \<and> matches_at source wanted m i
          \<and> (\<forall>k \<in> set xs. \<not> matches_at source wanted m k)
          \<and> (\<forall>m' \<in> set ms. \<forall>k \<in> set is. \<not> matches_at source wanted m' k))"
proof (induction modes)
  case (Cons m modes)
  obtain p where p: "seek_positions source wanted m is = Some p" using Cons.prems by (auto split: option.splits)
  note sp = seek_positions_sound [OF p]
  show ?case
  proof (cases p)
    case (Some i)
    then obtain xs ys where x: "is = xs @ i # ys" "matches_at source wanted m i"
      "\<forall>k \<in> set xs. \<not> matches_at source wanted m k" using sp by auto
    have "r = Some i" using Cons.prems p Some by simp
    moreover have "m # modes = [] @ m # modes \<and> is = xs @ i # ys \<and> matches_at source wanted m i
        \<and> (\<forall>k \<in> set xs. \<not> matches_at source wanted m k)
        \<and> (\<forall>m' \<in> set []. \<forall>k \<in> set is. \<not> matches_at source wanted m' k)" using x by auto
    ultimately show ?thesis by (simp only: option.case) blast
  next
    case None
    then have none: "\<forall>i \<in> set is. \<not> matches_at source wanted m i" using sp by simp
    have IH: "seek_modes source wanted is modes = Some r" using Cons.prems p None by simp
    show ?thesis
    proof (cases r)
      case None
      then show ?thesis using none Cons.IH [OF IH] by simp
    next
      case (Some i)
      then obtain ms k ns xs ys where "modes = ms @ k # ns" "is = xs @ i # ys" "matches_at source wanted k i"
        "\<forall>j \<in> set xs. \<not> matches_at source wanted k j" "\<forall>m' \<in> set ms. \<forall>j \<in> set is. \<not> matches_at source wanted m' j"
        using Cons.IH [OF IH] by auto
      then have "m # modes = (m # ms) @ k # ns \<and> is = xs @ i # ys \<and> matches_at source wanted k i
          \<and> (\<forall>j \<in> set xs. \<not> matches_at source wanted k j)
          \<and> (\<forall>m' \<in> set (m # ms). \<forall>j \<in> set is. \<not> matches_at source wanted m' j)" using none by auto
      then show ?thesis unfolding Some option.case by blast
    qed
  qed
qed auto

lemma upt_split: "[a..<b] = xs @ i # ys \<Longrightarrow> i = a + length xs \<and> xs = [a..<i] \<and> i < b"
proof -
  assume e: "[a..<b] = xs @ i # ys"
  have l: "length xs < b - a" using arg_cong [OF e, of length] by simp
  then have "i = a + length xs" using arg_cong [OF e, of "\<lambda>l. l ! length xs"] by simp
  moreover have "xs = take (length xs) [a..<b]" using e by simp
  then have "xs = [a..<a + length xs]" using l by (simp add: take_upt)
  ultimately show ?thesis using l by auto
qed

text \<open>What the search promises: the most exact comparison wins, and within it the first position.\<close>

definition search_start :: "string list \<Rightarrow> string list \<Rightarrow> nat \<Rightarrow> bool \<Rightarrow> nat" where
  "search_start source wanted start eof = (if eof then length source - length wanted else start)"

definition first_match :: "string list \<Rightarrow> string list \<Rightarrow> nat \<Rightarrow> nat option \<Rightarrow> bool" where
  "first_match source wanted s r = (case r of
      None \<Rightarrow> \<forall>m < 4. \<forall>i \<ge> s. \<not> matches_at source wanted m i
    | Some i \<Rightarrow> s \<le> i \<and> (\<exists>m < 4. matches_at source wanted m i
        \<and> (\<forall>k. s \<le> k \<and> k < i \<longrightarrow> \<not> matches_at source wanted m k)
        \<and> (\<forall>m' < m. \<forall>k \<ge> s. \<not> matches_at source wanted m' k)))"

lemma matches_at_bound: "matches_at source wanted m i \<Longrightarrow> wanted \<noteq> [] \<Longrightarrow> i + length wanted \<le> length source"
  by (cases wanted) (auto simp: matches_at_def lines_match_def)

lemma patch_seek_sequence_sound:
  assumes "patch_seek_sequence source wanted start eof = Some r" "wanted \<noteq> []"
  shows "first_match source wanted (search_start source wanted start eof) r"
proof -
  let ?s = "search_start source wanted start eof"
  let ?l = "length source - length wanted"
  consider (long) "length wanted > length source" "r = None"
    | (late) "length wanted \<le> length source" "?s > ?l" "r = None"
    | (seek) "length wanted \<le> length source" "?s \<le> ?l" "seek_modes source wanted [?s..<?l + 1] [0..<4] = Some r"
    using assms by (fastforce simp: patch_seek_sequence_def search_start_def Let_def split: if_splits)
  then show ?thesis
  proof cases
    case seek
    have in_range: "k < ?l + 1" if "matches_at source wanted m k" for m k
      using matches_at_bound [OF that assms(2)] seek(1) by simp
    show ?thesis
    proof (cases r)
      case None
      then have "\<forall>m < 4. \<forall>i \<in> {?s..<?l + 1}. \<not> matches_at source wanted m i"
        using seek_modes_sound [OF seek(3)] by (simp del: upt_Suc)
      then have "\<forall>m < 4. \<forall>i \<ge> ?s. \<not> matches_at source wanted m i"
        using in_range by (meson atLeastLessThan_iff)
      then show ?thesis using None by (simp add: first_match_def)
    next
      case (Some i)
      obtain ms m ns xs ys where *: "[0..<4] = ms @ m # ns" "[?s..<?l + 1] = xs @ i # ys" "matches_at source wanted m i"
        "\<forall>k \<in> set xs. \<not> matches_at source wanted m k"
        "\<forall>m' \<in> set ms. \<forall>k \<in> set [?s..<?l + 1]. \<not> matches_at source wanted m' k"
        using seek_modes_sound [OF seek(3), unfolded Some option.case] by blast
      have m: "ms = [0..<m]" "m < 4" using upt_split [OF *(1)] by blast+
      have i: "xs = [?s..<i]" using upt_split [OF *(2)] by blast
      have si: "?s \<le> i" using upt_split [OF *(2)] by linarith
      have "\<forall>k. ?s \<le> k \<and> k < i \<longrightarrow> \<not> matches_at source wanted m k"
        using *(4) unfolding i by simp
      moreover have "\<forall>m' < m. \<forall>k \<ge> ?s. \<not> matches_at source wanted m' k"
        using *(5) in_range unfolding m(1) set_upt by (meson atLeastLessThan_iff le0)
      ultimately show ?thesis using Some *(3) m(2) si by (auto simp: first_match_def)
    qed
  qed (use matches_at_bound [OF _ assms(2)] in \<open>fastforce simp: first_match_def\<close>)+
qed

lemma seek_lines_total:
  "length wanted \<le> length src \<Longrightarrow> list_all utf8_wf src \<Longrightarrow> list_all utf8_wf wanted \<Longrightarrow>
     \<exists>b. seek_lines src wanted mode = Some b"
proof (induction src wanted mode rule: seek_lines.induct)
  case (3 s src w wanted mode)
  then obtain b where "patch_lines_equal s w mode = Some b" using patch_lines_equal_wf by force
  then show ?case using 3 by (cases b) auto
qed auto

lemma seek_positions_total:
  "list_all utf8_wf source \<Longrightarrow> list_all utf8_wf wanted \<Longrightarrow>
   \<forall>i \<in> set is. i + length wanted \<le> length source \<Longrightarrow> \<exists>r. seek_positions source wanted mode is = Some r"
proof (induction source wanted mode "is" rule: seek_positions.induct)
  case (2 source wanted mode i "is")
  have "list_all utf8_wf (drop i source)" using 2(2) by (auto simp: list_all_iff dest: in_set_dropD)
  moreover have "length wanted \<le> length (drop i source)" using 2(4) by (simp add: le_diff_conv2)
  ultimately obtain b where "seek_lines (drop i source) wanted mode = Some b"
    using seek_lines_total [of wanted "drop i source" mode] 2(3) by blast
  then show ?case using 2 by (cases b) auto
qed auto

lemma seek_modes_total:
  "list_all utf8_wf source \<Longrightarrow> list_all utf8_wf wanted \<Longrightarrow>
   \<forall>i \<in> set is. i + length wanted \<le> length source \<Longrightarrow> \<exists>r. seek_modes source wanted is modes = Some r"
proof (induction modes)
  case (Cons m modes)
  then obtain p where "seek_positions source wanted m is = Some p" using seek_positions_total by blast
  then show ?case using Cons by (cases p) auto
qed auto

lemma patch_seek_sequence_total:
  assumes "list_all utf8_wf source" "list_all utf8_wf wanted"
  shows "\<exists>r. patch_seek_sequence source wanted start eof = Some r"
proof -
  let ?l = "length source - length wanted"
  have "\<exists>r. seek_modes source wanted [s..<?l + 1] [0..<4] = Some r" if "length wanted \<le> length source" for s
    using that by (intro seek_modes_total [OF assms]) auto
  then show ?thesis by (simp add: patch_seek_sequence_def Let_def not_less del: upt_Suc)
qed

text \<open>
  Searching for a chunk's lines in a file of well-formed lines never reads outside a line and
  always answers.  With lines to look for, the answer is the position of the first match of the
  most exact of the four comparisons that matches at all at or after the search start (the end of the
  file for an anchored chunk), and no answer means that none of them matches anywhere there; with
  no lines it is the start.
\<close>

theorem patch_seek_sequence_spec:
  assumes "list_all utf8_wf source" "list_all utf8_wf wanted"
  shows "\<exists>r. patch_seek_sequence source wanted start eof = Some r
           \<and> (if wanted = [] then r = Some start
              else first_match source wanted (search_start source wanted start eof) r)"
proof -
  obtain r where r: "patch_seek_sequence source wanted start eof = Some r"
    using patch_seek_sequence_total [OF assms] by blast
  moreover have "r = Some start" if "wanted = []" using r that by (simp add: patch_seek_sequence_def)
  ultimately show ?thesis using patch_seek_sequence_sound [OF r] by auto
qed

theorem patch_seek_sequence_spec_witness:
  "patch_seek_sequence [''a'', ''b '', ''b''] [''b''] 0 False = Some (Some 2)
   \<and> first_match [''a'', ''b '', ''b''] [''b''] (search_start [''a'', ''b '', ''b''] [''b''] 0 False) (Some 2)"
proof -
  have wf: "list_all utf8_wf [''a'', ''b '', ''b'']" "list_all utf8_wf [''b'']"
    by (simp_all add: utf8_wf_ascii)
  have v: "patch_seek_sequence [''a'', ''b '', ''b''] [''b''] 0 False = Some (Some 2)"
    by (simp add: patch_seek_sequence_def upt_conv_Cons patch_lines_equal_def)
  show ?thesis using patch_seek_sequence_spec [OF wf, of 0 False] v by auto
qed

text \<open>
  Only well-formed text is safe here: a line whose last byte announces a longer sequence makes the
  normalising comparison walk past the end of the line.
\<close>

lemma patch_normalize_line_overread: "patch_normalize_line [CHR ''a'', CHR 0xF0] = None"
  by code_simp

section \<open>Replacements\<close>

definition replacement_ok :: "string list \<Rightarrow> patch_replacement \<Rightarrow> bool" where
  "replacement_ok source r =
     (rp_start r + rp_old_count r \<le> length source
      \<and> (\<exists>m < 4. matches_at source (take (rp_old_count r) (old_lines (rp_chunk r))) m (rp_start r))
      \<and> rp_old_count r \<le> length (old_lines (rp_chunk r))
      \<and> rp_new_count r \<le> length (new_lines (rp_chunk r))
      \<and> (\<forall>l \<in> set (drop (rp_old_count r) (old_lines (rp_chunk r))). l = [])
      \<and> (\<forall>l \<in> set (drop (rp_new_count r) (new_lines (rp_chunk r))). l = []))"

definition rp_end :: "patch_replacement \<Rightarrow> nat" where
  "rp_end r = rp_start r + rp_old_count r"

text \<open>Chunks that are not anchored to the end are located one after the other; insertions go last.\<close>

definition in_order :: "string list \<Rightarrow> patch_replacement \<Rightarrow> patch_replacement \<Rightarrow> bool" where
  "in_order source a b = (rp_end a \<le> rp_start b \<or> (rp_old_count a = 0 \<and> rp_start a = length source))"

lemma patch_seek_sequence_found:
  assumes "patch_seek_sequence source wanted start eof = Some (Some i)" "start \<le> length source"
  shows "i + length wanted \<le> length source" "\<exists>m < 4. matches_at source wanted m i" "\<not> eof \<Longrightarrow> start \<le> i"
proof -
  have "i + length wanted \<le> length source \<and> (\<exists>m < 4. matches_at source wanted m i) \<and> (\<not> eof \<longrightarrow> start \<le> i)"
  proof (cases "wanted = []")
    case True
    then have "i = start" using assms(1) by (simp add: patch_seek_sequence_def)
    then show ?thesis using True assms(2) by (auto simp: matches_at_def intro!: exI [of _ "0 :: nat"])
  next
    case False
    then have "first_match source wanted (search_start source wanted start eof) (Some i)"
      using patch_seek_sequence_sound [OF assms(1)] by simp
    then obtain m where "m < 4" "matches_at source wanted m i" "search_start source wanted start eof \<le> i"
      unfolding first_match_def option.case by blast
    then show ?thesis using matches_at_bound False by (auto simp: search_start_def)
  qed
  then show "i + length wanted \<le> length source" "\<exists>m < 4. matches_at source wanted m i" "\<not> eof \<Longrightarrow> start \<le> i"
    by auto
qed

lemma patch_seek_twice_found:
  assumes "patch_seek_twice source wanted cursor chunk_cursor eof = Some (Some i)"
    and "chunk_cursor \<le> cursor" "cursor \<le> length source"
  shows "i + length wanted \<le> length source" "\<exists>m < 4. matches_at source wanted m i" "\<not> eof \<Longrightarrow> chunk_cursor \<le> i"
proof -
  obtain c where c: "patch_seek_sequence source wanted c eof = Some (Some i)" "chunk_cursor \<le> c" "c \<le> length source"
    using assms by (auto simp: patch_seek_twice_def split: if_splits bind_splits)
  show "i + length wanted \<le> length source" "\<exists>m < 4. matches_at source wanted m i" "\<not> eof \<Longrightarrow> chunk_cursor \<le> i"
    using patch_seek_sequence_found [OF c(1,3)] c(2) by auto
qed

lemma patch_chunk_cursor_bounds:
  assumes "patch_chunk_cursor source chunk c = Some cursor" "c \<le> length source"
  shows "c \<le> cursor" "cursor \<le> length source"
proof -
  have "c \<le> cursor \<and> cursor \<le> length source"
  proof (cases "pc_context chunk")
    case (Some ctx)
    then obtain f where f: "patch_seek_sequence source [ctx] c False = Some f"
      "cursor = (case f of None \<Rightarrow> c | Some i \<Rightarrow> i + 1)"
      using assms(1) by (auto simp: patch_chunk_cursor_def split: bind_splits)
    then show ?thesis
      using patch_seek_sequence_found [of source "[ctx]" c False] assms(2) by (cases f) fastforce+
  qed (use assms in \<open>simp add: patch_chunk_cursor_def\<close>)
  then show "c \<le> cursor" "cursor \<le> length source" by auto
qed

lemma patch_locate_chunk_ok:
  assumes "patch_locate_chunk source chunk cursor c = Some (Some (found, old_count, new_count))"
    and "c \<le> cursor" "cursor \<le> length source"
  shows "replacement_ok source \<lparr>rp_start = found, rp_old_count = old_count, rp_order = k,
           rp_chunk = chunk, rp_new_count = new_count\<rparr>"
    and "\<not> end_of_file chunk \<Longrightarrow> c \<le> found"
proof -
  let ?old = "old_lines chunk" and ?new = "new_lines chunk"
  obtain f where f: "patch_seek_twice source ?old cursor c (end_of_file chunk) = Some f"
    using assms(1) by (auto simp: patch_locate_chunk_def Let_def split: bind_splits)
  have ok: "i + old_count \<le> length source" "\<exists>m < 4. matches_at source w m i" "\<not> end_of_file chunk \<Longrightarrow> c \<le> i"
    if "patch_seek_twice source w cursor c (end_of_file chunk) = Some (Some i)" "length w = old_count" for i w
    using patch_seek_twice_found [OF that(1) assms(2,3)] that(2) by auto
  have "replacement_ok source \<lparr>rp_start = found, rp_old_count = old_count, rp_order = k,
           rp_chunk = chunk, rp_new_count = new_count\<rparr> \<and> (\<not> end_of_file chunk \<longrightarrow> c \<le> found)"
  proof (cases f)
    case (Some i)
    then have "found = i" "old_count = length ?old" "new_count = length ?new"
      using assms(1) f by (auto simp: patch_locate_chunk_def Let_def)
    then show ?thesis using ok [of ?old i] f Some by (auto simp: replacement_ok_def)
  next
    case None
    let ?n = "if 0 < length ?new \<and> last ?new = [] then length ?new - 1 else length ?new"
    from assms(1) f None have l: "?old \<noteq> []" "last ?old = []"
      and t: "patch_seek_twice source (butlast ?old) cursor c (end_of_file chunk) = Some (Some found)"
      "old_count = length ?old - 1" "new_count = ?n"
      by (auto simp: patch_locate_chunk_def Let_def split: if_splits bind_splits option.splits)
    have drop_last: "drop (length xs - 1) xs = [last xs]" if "xs \<noteq> []" for xs :: "string list"
      using that by (metis append_butlast_last_id append_eq_conv_conj length_butlast)
    have o: "drop old_count ?old = [[]]" "take old_count ?old = butlast ?old"
      using l t(2) drop_last [of ?old] by (simp_all add: butlast_conv_take)
    have n: "\<forall>l \<in> set (drop ?n ?new). l = []"
      using drop_last [of ?new] by auto
    have "length (butlast ?old) = old_count" using t(2) by simp
    note ok' = ok [OF t(1) this]
    have le: "old_count \<le> length ?old" "?n \<le> length ?new" using t(2) by simp_all
    have o': "\<forall>l \<in> set (drop old_count ?old). l = []" using o(1) by simp
    have "replacement_ok source \<lparr>rp_start = found, rp_old_count = old_count, rp_order = k,
           rp_chunk = chunk, rp_new_count = new_count\<rparr>"
      unfolding replacement_ok_def patch_replacement.select_convs t(3) o(2)
      using ok'(1,2) le o' n by blast
    then show ?thesis using ok'(3) by blast
  qed
  then show "replacement_ok source \<lparr>rp_start = found, rp_old_count = old_count, rp_order = k,
           rp_chunk = chunk, rp_new_count = new_count\<rparr>" "\<not> end_of_file chunk \<Longrightarrow> c \<le> found"
    by auto
qed

lemma patch_compute_replacements_ConsE:
  assumes "patch_compute_replacements source c rs (chunk # cs) = Some (Inr rs')" "c \<le> length source"
  obtains r cursor where "patch_compute_replacements source cursor (rs @ [r]) cs = Some (Inr rs')"
    "c \<le> cursor \<or> end_of_file chunk" "cursor \<le> length source" "replacement_ok source r"
    "rp_order r = length rs" "rp_chunk r = chunk"
    "end_of_file chunk \<or> c \<le> rp_start r \<and> rp_end r \<le> cursor
      \<or> (rp_old_count r = 0 \<and> rp_start r = length source)"
proof -
  obtain cur where cur: "patch_chunk_cursor source chunk c = Some cur"
    using assms(1) by (auto split: bind_splits)
  note cb = patch_chunk_cursor_bounds [OF cur assms(2)]
  show ?thesis
  proof (cases "old_lines chunk = []")
    case True
    show ?thesis
      by (rule that [of cur "\<lparr>rp_start = length source, rp_old_count = 0, rp_order = length rs,
                      rp_chunk = chunk, rp_new_count = length (new_lines chunk)\<rparr>"])
        (use assms(1) cur True cb in \<open>auto simp: replacement_ok_def matches_at_def intro!: exI [of _ "0 :: nat"]\<close>)
  next
    case False
    then obtain found old_count new_count where
      loc: "patch_locate_chunk source chunk cur c = Some (Some (found, old_count, new_count))"
      and rest: "patch_compute_replacements source (found + old_count)
                  (rs @ [\<lparr>rp_start = found, rp_old_count = old_count, rp_order = length rs,
                          rp_chunk = chunk, rp_new_count = new_count\<rparr>]) cs = Some (Inr rs')"
      using assms(1) cur by (auto split: bind_splits option.splits)
    note ok1 = patch_locate_chunk_ok(1) [OF loc cb, where k = "length rs"]
      and ok2 = patch_locate_chunk_ok(2) [OF loc cb]
    have "found + old_count \<le> length source" using ok1 by (simp add: replacement_ok_def)
    then show ?thesis
      using ok2 by (intro that [OF rest _ _ ok1]) (auto simp: rp_end_def)
  qed
qed

lemma patch_compute_replacements_ok:
  "patch_compute_replacements source c rs cs = Some (Inr rs') \<Longrightarrow> c \<le> length source \<Longrightarrow>
   \<forall>r \<in> set rs. replacement_ok source r \<Longrightarrow> map rp_order rs = [0..<length rs] \<Longrightarrow>
     (\<forall>r \<in> set rs'. replacement_ok source r) \<and> map rp_order rs' = [0..<length rs']
     \<and> map rp_chunk rs' = map rp_chunk rs @ cs"
proof (induction cs arbitrary: c rs)
  case (Cons chunk cs)
  obtain r cur where r: "patch_compute_replacements source cur (rs @ [r]) cs = Some (Inr rs')"
    "cur \<le> length source" "replacement_ok source r" "rp_order r = length rs" "rp_chunk r = chunk"
    using patch_compute_replacements_ConsE [OF Cons.prems(1,2)] by blast
  show ?case
    using Cons.IH [OF r(1,2)] Cons.prems(3,4) r(3,4,5) by auto
qed auto

lemma patch_compute_replacements_in_order:
  "patch_compute_replacements source c rs cs = Some (Inr rs') \<Longrightarrow> c \<le> length source \<Longrightarrow>
   sorted_wrt (in_order source) rs \<Longrightarrow>
   \<forall>r \<in> set rs. rp_end r \<le> c \<or> (rp_old_count r = 0 \<and> rp_start r = length source) \<Longrightarrow>
   list_all (\<lambda>k. \<not> end_of_file k) cs \<Longrightarrow> sorted_wrt (in_order source) rs'"
proof (induction cs arbitrary: c rs)
  case (Cons chunk cs)
  obtain r cur where r: "patch_compute_replacements source cur (rs @ [r]) cs = Some (Inr rs')"
    "c \<le> cur \<or> end_of_file chunk" "cur \<le> length source"
    "end_of_file chunk \<or> c \<le> rp_start r \<and> rp_end r \<le> cur \<or> (rp_old_count r = 0 \<and> rp_start r = length source)"
    using patch_compute_replacements_ConsE [OF Cons.prems(1,2)] by blast
  have c: "c \<le> cur" using r(2) Cons.prems(5) by simp
  have r': "c \<le> rp_start r \<and> rp_end r \<le> cur \<or> (rp_old_count r = 0 \<and> rp_start r = length source)"
    using r(4) Cons.prems(5) by simp
  have "in_order source a r" if "a \<in> set rs" for a
    using Cons.prems(2,4) r' that by (fastforce simp: in_order_def)
  then have "sorted_wrt (in_order source) (rs @ [r])"
    using Cons.prems(3) by (simp add: sorted_wrt_append)
  moreover have "\<forall>a \<in> set (rs @ [r]). rp_end a \<le> cur \<or> (rp_old_count a = 0 \<and> rp_start a = length source)"
    using Cons.prems(4) c r' by fastforce
  ultimately show ?case
    using Cons.IH [OF r(1,3)] Cons.prems(5) by simp
qed auto

text \<open>Sorting by position, then by order, puts replacements located in order into separate places.\<close>

definition apart :: "patch_replacement \<Rightarrow> patch_replacement \<Rightarrow> bool" where
  "apart a b = (rp_end a \<le> rp_start b)"

lemma sort_key_strict:
  assumes "distinct (map f xs)"
  shows "sorted_wrt (\<lambda>a b. f a < (f b :: 'b :: linorder)) (sort_key f xs)"
proof -
  have "mset (map f (sort_key f xs)) = mset (map f xs)" by simp
  then have "distinct (map f (sort_key f xs))" using assms mset_eq_imp_distinct_iff by blast
  then have "sorted_wrt (<) (map f (sort_key f xs))"
    using sorted_sort_key strict_sorted_iff by blast
  then show ?thesis by (simp add: sorted_wrt_map)
qed

lemma patch_sort_replacements_apart:
  assumes ok: "\<forall>r \<in> set rs. replacement_ok source r" and ord: "map rp_order rs = [0..<length rs]"
    and seq: "sorted_wrt (in_order source) rs"
  shows "sorted_wrt apart (patch_sort_replacements rs)"
proof -
  let ?k = "\<lambda>r. (rp_start r, rp_order r)"
  have o: "rp_order (rs ! i) = i" if "i < length rs" for i
    using arg_cong [OF ord, of "\<lambda>l. l ! i"] that by simp
  have "distinct (map rp_order rs)" using ord by simp
  then have "distinct (map ?k rs)" by (auto simp: distinct_map inj_on_def)
  then have strict: "sorted_wrt (\<lambda>a b. ?k a < ?k b) (patch_sort_replacements rs)"
    unfolding patch_sort_replacements_def by (rule sort_key_strict)
  have "apart a b" if ab: "a \<in> set rs" "b \<in> set rs" "?k a < ?k b" for a b
  proof -
    obtain i j where ij: "i < length rs" "rs ! i = a" "j < length rs" "rs ! j = b"
      using ab(1,2) by (auto simp: in_set_conv_nth)
    have ends: "rp_end a \<le> length source" using ok ab(1) by (auto simp: replacement_ok_def rp_end_def)
    have le: "rp_start a \<le> rp_start b" and lt: "rp_start a = rp_start b \<Longrightarrow> i < j"
      using ab(3) o [OF ij(1)] o [OF ij(3)] ij by (auto simp: less_prod_def)
    consider "i < j" | "j < i" | "i = j" by linarith
    then show ?thesis
    proof cases
      case 1
      then have "in_order source a b" using sorted_wrt_nth_less [OF seq 1] ij by simp
      then show ?thesis using le by (auto simp: in_order_def apart_def rp_end_def)
    next
      case 2
      then have "in_order source b a" using sorted_wrt_nth_less [OF seq 2] ij by simp
      then show ?thesis using le lt ends 2 by (auto simp: in_order_def apart_def rp_end_def)
    next
      case 3
      then show ?thesis using ij ab(3) by simp
    qed
  qed
  then show ?thesis
    by (intro sorted_wrt_mono_rel [OF _ strict]) (auto simp: patch_sort_replacements_def)
qed

section \<open>Building the new content\<close>

text \<open>
  The specification of an update: each replacement is a splice, and they are applied from the last
  position to the first, so that earlier positions stay valid.
\<close>

definition splice :: "patch_replacement \<Rightarrow> string list \<Rightarrow> string list" where
  "splice r ls = take (rp_start r) ls @ take (rp_new_count r) (new_lines (rp_chunk r)) @ drop (rp_end r) ls"

lemma foldr_splice_prefix:
  "\<forall>r \<in> set rs. n \<le> rp_start r \<and> rp_end r \<le> length ls \<Longrightarrow>
     take n (foldr splice rs ls) = take n ls \<and> n \<le> length (foldr splice rs ls) \<or> rs = []"
proof (induction rs)
  case (Cons r rs)
  have n: "n \<le> length ls" using Cons.prems by (auto simp: rp_end_def)
  then have "take n (foldr splice rs ls) = take n ls" "n \<le> length (foldr splice rs ls)"
    using Cons by auto
  then show ?case using Cons.prems by (auto simp: splice_def [of r] min_def)
qed simp

lemma patch_emit_splices:
  "sorted_wrt apart rs \<Longrightarrow> \<forall>r \<in> set rs. n \<le> rp_start r \<and> rp_end r \<le> length ls \<Longrightarrow>
     patch_emit ls n rs = drop n (foldr splice rs ls)"
proof (induction rs arbitrary: n)
  case (Cons r rs)
  let ?L = "foldr splice rs ls"
  have r: "n \<le> rp_start r" "rp_end r \<le> length ls" "rp_start r \<le> rp_end r"
    using Cons.prems by (auto simp: rp_end_def)
  have after: "\<forall>a \<in> set rs. rp_end r \<le> rp_start a \<and> rp_end a \<le> length ls"
    using Cons.prems by (auto simp: apart_def)
  have pre: "take (rp_end r) ?L = take (rp_end r) ls" "rp_end r \<le> length ?L"
    using foldr_splice_prefix [OF after] r by auto
  have start: "take (rp_start r) ?L = take (rp_start r) ls"
    using arg_cong [OF pre(1), of "take (rp_start r)"] r(3) by (simp add: min_def)
  have "patch_emit ls (rp_end r) rs = drop (rp_end r) ?L"
    using Cons.IH [of "rp_end r"] Cons.prems(1) after by simp
  moreover have "splice r ?L = take (rp_start r) ls @ take (rp_new_count r) (new_lines (rp_chunk r)) @ drop (rp_end r) ?L"
    by (simp add: splice_def [of r] start)
  ultimately show ?case using r by (simp add: rp_end_def [symmetric])
qed simp

lemma patch_build_splices:
  assumes "patch_build_updated_content original hunk = Some (Inr updated)"
  obtains rs where "patch_compute_replacements (patch_content_lines original) 0 [] (chunks hunk) = Some (Inr rs)"
    "updated = unlines (patch_emit (patch_content_lines original) 0 (patch_sort_replacements rs))"
  using assms
  by (auto simp: patch_build_updated_content_def Let_def split: bind_splits sum.splits)

text \<open>
  C25. An accepted update without end-of-file anchors changes exactly what its chunks say: every chunk
  is located at lines that match its expected lines (up to a blank last one), the located places do not
  overlap, and the single forward pass that writes the new content gives the same lines as
  replacing each place on its own, from the last to the first.
\<close>

theorem patch_update_splices:
  assumes "patch_build_updated_content original hunk = Some (Inr updated)"
    and "list_all (\<lambda>c. \<not> end_of_file c) (chunks hunk)"
  shows "\<exists>rs. map rp_chunk rs = chunks hunk
           \<and> list_all (replacement_ok (patch_content_lines original)) rs
           \<and> sorted_wrt apart (patch_sort_replacements rs)
           \<and> updated = unlines (foldr splice (patch_sort_replacements rs) (patch_content_lines original))"
proof -
  let ?ls = "patch_content_lines original"
  obtain rs where rs: "patch_compute_replacements ?ls 0 [] (chunks hunk) = Some (Inr rs)"
    "updated = unlines (patch_emit ?ls 0 (patch_sort_replacements rs))"
    by (rule patch_build_splices [OF assms(1)])
  have ok: "\<forall>r \<in> set rs. replacement_ok ?ls r" "map rp_order rs = [0..<length rs]" "map rp_chunk rs = chunks hunk"
    using patch_compute_replacements_ok [OF rs(1)] by auto
  have "sorted_wrt (in_order ?ls) rs"
    using patch_compute_replacements_in_order [OF rs(1)] assms(2) by simp
  then have ap: "sorted_wrt apart (patch_sort_replacements rs)"
    using patch_sort_replacements_apart ok by blast
  have "\<forall>r \<in> set (patch_sort_replacements rs). 0 \<le> rp_start r \<and> rp_end r \<le> length ?ls"
    using ok(1) by (auto simp: patch_sort_replacements_def replacement_ok_def rp_end_def)
  then have "updated = unlines (foldr splice (patch_sort_replacements rs) ?ls)"
    using rs(2) patch_emit_splices [OF ap, of 0 ?ls] by simp
  then show ?thesis using ok ap by (auto simp: list_all_iff)
qed

section \<open>Exact updates and safety\<close>

lemma content_lines_line:
  "LF \<notin> set l \<Longrightarrow> content_lines_loop acc (l @ LF # rest) = (rev acc @ l) # content_lines_loop [] rest"
  by (induction l arbitrary: acc) auto

lemma patch_content_lines_unlines: "\<forall>l \<in> set ls. LF \<notin> set l \<Longrightarrow> patch_content_lines (unlines ls) = ls"
  unfolding patch_content_lines_def unlines_def
  by (induction ls) (auto simp: content_lines_line)

lemma seek_lines_exact:
  "length wanted \<le> length src \<Longrightarrow> seek_lines src wanted 0 = Some (take (length wanted) src = wanted)"
  by (induction src wanted "0 :: nat" rule: seek_lines.induct)
    (auto simp: patch_lines_equal_def split: bool.split)

lemma seek_positions_skip:
  "\<forall>i \<in> set xs. seek_lines (drop i source) wanted mode = Some False \<Longrightarrow>
     seek_positions source wanted mode (xs @ ys) = seek_positions source wanted mode ys"
  by (induction xs) auto

lemma patch_seek_sequence_exact:
  assumes "wanted \<noteq> []" "\<forall>i < length pre. take (length wanted) (drop i (pre @ wanted @ post)) \<noteq> wanted"
  shows "patch_seek_sequence (pre @ wanted @ post) wanted 0 False = Some (Some (length pre))"
proof -
  let ?s = "pre @ wanted @ post"
  let ?l = "length ?s - length wanted"
  have upt: "[0..<?l + 1] = [0..<length pre] @ length pre # [Suc (length pre)..<?l + 1]"
    using upt_add_eq_append [of 0 "length pre" "Suc (length post)"] by (simp add: upt_conv_Cons del: upt_Suc)
  have skip: "\<forall>i \<in> set [0..<length pre]. seek_lines (drop i ?s) wanted 0 = Some False"
    using assms(2) by (auto simp: seek_lines_exact)
  have hit: "seek_lines (drop (length pre) ?s) wanted 0 = Some True"
    by (simp add: seek_lines_exact)
  have "seek_positions ?s wanted 0 [0..<?l + 1] = Some (Some (length pre))"
    unfolding upt seek_positions_skip [OF skip] using hit by simp
  moreover have "[0..<4] = 0 # [1, 2, 3 :: nat]" by (simp add: upt_conv_Cons)
  ultimately show ?thesis
    using assms(1) by (simp add: patch_seek_sequence_def Let_def del: upt_Suc)
qed

lemma patch_update_exact_content:
  assumes "chunks hunk = [c]" "pc_context c = None" "\<not> end_of_file c" "old_lines c \<noteq> []"
    and "\<forall>l \<in> set (pre @ old_lines c @ post). LF \<notin> set l"
    and "\<forall>i < length pre. take (length (old_lines c)) (drop i (pre @ old_lines c @ post)) \<noteq> old_lines c"
  shows "patch_build_updated_content (unlines (pre @ old_lines c @ post)) hunk
       = Some (Inr (unlines (pre @ new_lines c @ post)))"
proof -
  have src: "patch_content_lines (unlines (pre @ old_lines c @ post)) = pre @ old_lines c @ post"
    by (rule patch_content_lines_unlines [OF assms(5)])
  have "patch_seek_twice (pre @ old_lines c @ post) (old_lines c) 0 0 False = Some (Some (length pre))"
    using patch_seek_sequence_exact [OF assms(4,6)] by (simp add: patch_seek_twice_def)
  then have "patch_locate_chunk (pre @ old_lines c @ post) c 0 0
      = Some (Some (length pre, length (old_lines c), length (new_lines c)))"
    using assms(3) by (simp add: patch_locate_chunk_def Let_def)
  then have "patch_compute_replacements (pre @ old_lines c @ post) 0 [] (chunks hunk)
      = Some (Inr [\<lparr>rp_start = length pre, rp_old_count = length (old_lines c), rp_order = 0,
                    rp_chunk = c, rp_new_count = length (new_lines c)\<rparr>])"
    using assms(1,2,4) by (simp add: patch_chunk_cursor_def)
  then show ?thesis
    by (simp add: patch_build_updated_content_def src Let_def patch_sort_replacements_def)
qed

text \<open>
  A chunk whose expected lines occur verbatim replaces their first occurrence and leaves all other
  lines as they are, whatever bytes the file holds: with the file's lines \<open>pre @ old @ post\<close>, \<open>old\<close>
  not occurring earlier, the new content has the lines \<open>pre @ new @ post\<close>.
\<close>

theorem patch_update_exact:
  assumes "chunks hunk = [c]" "pc_context c = None" "\<not> end_of_file c" "old_lines c \<noteq> []"
    and "\<forall>l \<in> set (pre @ old_lines c @ post). LF \<notin> set l"
    and "\<forall>i < length pre. take (length (old_lines c)) (drop i (pre @ old_lines c @ post)) \<noteq> old_lines c"
  shows "patch_build_updated_content (unlines (pre @ old_lines c @ post)) hunk
       = Some (Inr (unlines (pre @ new_lines c @ post)))"
  using assms by (rule patch_update_exact_content)

lemma utf8_wf_split_ascii:
  assumes "utf8_wf (s @ c # t)" "of_char c < (128 :: nat)"
  shows "utf8_wf s \<and> utf8_wf t"
proof -
  obtain qs where "s @ c # t = concat qs" "\<forall>q \<in> set qs. wf_seq q" using assms(1) by (auto simp: utf8_wf_def)
  then show ?thesis
  proof (induction qs arbitrary: s)
    case (Cons q qs)
    have q: "wf_seq q" "utf8_wf (concat qs)" using Cons.prems(2) by (auto simp: utf8_wf_def)
    show ?case
    proof (cases "length q \<le> length s")
      case True
      then have "take (length q) s = q"
        using arg_cong [OF Cons.prems(1), of "take (length q)"] by simp
      then obtain s' where s': "s = q @ s'" by (metis append_take_drop_id)
      then show ?thesis using Cons.IH [of s'] Cons.prems utf8_wf_seq_append [OF q(1)] by auto
    next
      case False
      then obtain r where r: "q = s @ c # r" "t = r @ concat qs"
        using Cons.prems(1) by (auto simp: append_eq_append_conv2 Cons_eq_append_conv)
      have "s = []"
      proof (rule ccontr)
        assume "s \<noteq> []"
        then have "utf8_cont (byte_at q (length s))" using q(1) r(1)
          by (simp add: wf_seq_def utf8_check_seq_iff seq_ok_def)
        then show False using ascii_not_cont [OF assms(2)] r(1) by (simp add: byte_at_def)
      qed
      then show ?thesis
        using assms(2) utf8_wf_tl_ascii [of c t] Cons.prems q r utf8_wf_seq_append [OF q(1,2)] by simp
    qed
  qed simp
qed

lemma content_lines_wf: "utf8_wf (rev acc @ s) \<Longrightarrow> list_all utf8_wf (content_lines_loop acc s)"
proof (induction acc s rule: content_lines_loop.induct)
  case (2 acc c rest)
  then show ?case using utf8_wf_split_ascii [of "rev acc" LF rest] by auto
qed auto

definition chunk_utf8 :: "patch_chunk \<Rightarrow> bool" where
  "chunk_utf8 c = (list_all utf8_wf (old_lines c) \<and> pred_option utf8_wf (pc_context c))"

lemma patch_locate_chunk_total:
  assumes "list_all utf8_wf source" "chunk_utf8 c"
  shows "\<exists>r. patch_locate_chunk source c cursor chunk_cursor = Some r"
proof -
  have twice: "\<exists>r. patch_seek_twice source w cursor chunk_cursor eof = Some r" if w: "list_all utf8_wf w" for w eof
  proof -
    obtain r where "patch_seek_sequence source w cursor eof = Some r"
      using patch_seek_sequence_total [OF assms(1) w] by blast
    then show ?thesis
      using patch_seek_sequence_total [OF assms(1) w] by (simp add: patch_seek_twice_def)
  qed
  have old: "list_all utf8_wf (old_lines c)" "list_all utf8_wf (butlast (old_lines c))"
    using assms(2) by (auto simp: chunk_utf8_def list_all_iff dest: in_set_butlastD)
  obtain r1 where r1: "patch_seek_twice source (old_lines c) cursor chunk_cursor (end_of_file c) = Some r1"
    using twice [OF old(1)] by blast
  obtain r2 where r2: "patch_seek_twice source (butlast (old_lines c)) cursor chunk_cursor (end_of_file c) = Some r2"
    using twice [OF old(2)] by blast
  show ?thesis
    using r1 r2 by (cases r1) (auto simp: patch_locate_chunk_def Let_def)
qed

lemma patch_chunk_cursor_total:
  assumes "list_all utf8_wf source" "chunk_utf8 c"
  shows "\<exists>r. patch_chunk_cursor source c cursor = Some r"
proof (cases "pc_context c")
  case (Some ctx)
  then obtain r where "patch_seek_sequence source [ctx] cursor False = Some r"
    using patch_seek_sequence_total [OF assms(1), of "[ctx]"] assms(2) by (auto simp: chunk_utf8_def)
  then show ?thesis using Some by (simp add: patch_chunk_cursor_def)
qed (simp add: patch_chunk_cursor_def)

lemma patch_compute_replacements_total:
  assumes "list_all utf8_wf source"
  shows "list_all chunk_utf8 cs \<Longrightarrow> \<exists>r. patch_compute_replacements source c rs cs = Some r
           \<and> (\<forall>e. r = Inl e \<longrightarrow> e = - EINVAL)"
proof (induction cs arbitrary: c rs)
  case (Cons chunk cs)
  obtain cur where cur: "patch_chunk_cursor source chunk c = Some cur"
    using patch_chunk_cursor_total [OF assms] Cons.prems by auto
  obtain loc where loc: "patch_locate_chunk source chunk cur c = Some loc"
    using patch_locate_chunk_total [OF assms, of chunk cur c] Cons.prems by auto
  show ?case
    using Cons cur loc by (cases loc) auto
qed auto

text \<open>
  On a file that is well-formed UTF-8, an update whose lines are well formed never reads outside a
  line: it always ends, and either yields the new content or fails with \<open>-EINVAL\<close>.
\<close>

theorem patch_build_safe:
  assumes "utf8_wf original" "list_all chunk_utf8 (chunks hunk)"
  shows "\<exists>r. patch_build_updated_content original hunk = Some r \<and> (\<forall>e. r = Inl e \<longrightarrow> e = - EINVAL)"
proof -
  have "list_all utf8_wf (patch_content_lines original)"
    using content_lines_wf [of "[]" original] assms(1) by (simp add: patch_content_lines_def)
  then obtain r where "patch_compute_replacements (patch_content_lines original) 0 [] (chunks hunk) = Some r"
    "\<forall>e. r = Inl e \<longrightarrow> e = - EINVAL"
    using patch_compute_replacements_total [OF _ assms(2)] by blast
  then show ?thesis
    by (cases r) (auto simp: patch_build_updated_content_def Let_def)
qed

section \<open>Instances\<close>

definition sample_hunk :: patch_hunk where
  "sample_hunk = hunk_meaning (DocUpdate ''f'' None [DocChunk At [Keep ''b'', Del ''c'', Ins ''C''] False])"

lemma sample_build:
  "patch_build_updated_content (unlines [''a'', ''b'', ''c'', ''d'']) sample_hunk
   = Some (Inr (unlines [''a'', ''b'', ''C'', ''d'']))"
  by code_simp

theorem patch_update_splices_witness:
  "\<exists>rs. map rp_chunk rs = chunks sample_hunk
      \<and> list_all (replacement_ok (patch_content_lines (unlines [''a'', ''b'', ''c'', ''d'']))) rs
      \<and> sorted_wrt apart (patch_sort_replacements rs)
      \<and> unlines [''a'', ''b'', ''C'', ''d'']
        = unlines (foldr splice (patch_sort_replacements rs) (patch_content_lines (unlines [''a'', ''b'', ''c'', ''d''])))"
  by (rule patch_update_splices [OF sample_build]) (simp add: sample_hunk_def)

theorem patch_update_exact_witness:
  "patch_build_updated_content (unlines ([''a''] @ [''b'', ''c''] @ [''b'', ''c''])) sample_hunk
   = Some (Inr (unlines ([''a''] @ [''b'', ''C''] @ [''b'', ''c''])))"
  using patch_update_exact [of sample_hunk "chunk_meaning (DocChunk At [Keep ''b'', Del ''c'', Ins ''C''] False)"
      "[''a'']" "[''b'', ''c'']"]
  by (simp add: sample_hunk_def)

theorem patch_build_safe_witness:
  "\<exists>r. patch_build_updated_content ''a'' sample_hunk = Some r"
proof -
  have "utf8_wf ''a''" "list_all chunk_utf8 (chunks sample_hunk)"
    by (simp_all add: utf8_wf_ascii sample_hunk_def chunk_utf8_def)
  then show ?thesis using patch_build_safe by blast
qed

text \<open>
  A chunk anchored to the end of the file is searched at the very end even when earlier chunks have
  consumed those lines: the two replacements below overlap, and the line \<open>b\<close> is replaced twice.
\<close>

lemma patch_eof_chunk_overlaps:
  "patch_build_updated_content (unlines [''a'', ''b''])
     (hunk_meaning (DocUpdate ''f'' None
        [DocChunk At [Del ''a'', Del ''b'', Ins ''x''] False, DocChunk At [Del ''b'', Ins ''y''] True]))
   = Some (Inr (unlines [''x'', ''y'']))"
  by code_simp

end
