(* ===== verification/Paths.thy ===== *)
theory Paths
  imports Prelude
begin

text \<open>
  The path helpers of \<open>src/util/file.c\<close>: joining, expanding \<open>~\<close>, resolving a name that may not exist yet, and
  the containment test on which every permission check rests.

  What the operating system says about names is a parameter: \<open>home\<close> is the value of \<open>HOME\<close> (\<open>/tmp\<close> when
  unset) and \<open>rp\<close> is \<open>realpath\<close>, which answers an error number or the canonical name.  Memory is
  always available.
\<close>

section \<open>The model\<close>

definition PATH_MAX :: nat where
  "PATH_MAX = 4096"

type_synonym realpath_fn = "string \<Rightarrow> int + string"

definition file_path_is_absolute :: "string \<Rightarrow> bool" where
  "file_path_is_absolute path = (path \<noteq> [] \<and> hd path = CHR ''/'')"

definition file_path_join :: "nat \<Rightarrow> string \<Rightarrow> string \<Rightarrow> rc + string" where
  "file_path_join dst_size dir name =
     (if dst_size = 0 then Inl (- EINVAL)
      else
        let need_sep = dir \<noteq> [] \<and> last dir \<noteq> CHR ''/'' \<and> name \<noteq> [] \<and> hd name \<noteq> CHR ''/'';
            skip_sep = dir \<noteq> [] \<and> last dir = CHR ''/'' \<and> name \<noteq> [] \<and> hd name = CHR ''/'';
            sep = (if need_sep then 1 else 0);
            name' = (if skip_sep then tl name else name)
        in if length dir > SIZE_MAX - sep \<or> length dir + sep > SIZE_MAX - length name' then Inl (- ENAMETOOLONG)
           else let total = length dir + sep + length name'
             in if total = SIZE_MAX then Inl (- ENAMETOOLONG)
                else if total + 1 > dst_size then Inl (- ENAMETOOLONG)
                else Inr (dir @ (if need_sep then ''/'' else []) @ name'))"

definition file_path_full :: "nat \<Rightarrow> string \<Rightarrow> string \<Rightarrow> rc + string" where
  "file_path_full dst_size prefix path =
     (if dst_size = 0 then Inl (- EINVAL)
      else if file_path_is_absolute path then
        (if length path + 1 > dst_size then Inl (- ENAMETOOLONG) else Inr path)
      else file_path_join dst_size prefix path)"

text \<open>The allocating variants: the size is computed from the parts, so only the arithmetic can fail.\<close>

definition file_path_join_alloc :: "string \<Rightarrow> string \<Rightarrow> string option" where
  "file_path_join_alloc dir name =
     (let need_sep = dir \<noteq> [] \<and> last dir \<noteq> CHR ''/'' \<and> name \<noteq> [] \<and> hd name \<noteq> CHR ''/'';
          skip_sep = dir \<noteq> [] \<and> last dir = CHR ''/'' \<and> name \<noteq> [] \<and> hd name = CHR ''/'';
          sep = (if need_sep then 1 else 0);
          out_name_len = (if skip_sep then length name - 1 else length name)
      in if length dir > SIZE_MAX - sep \<or> length dir + sep > SIZE_MAX - out_name_len then None
         else let total = length dir + sep + out_name_len
           in if total = SIZE_MAX then None
              else (case file_path_join (total + 1) dir name of Inl _ \<Rightarrow> None | Inr s \<Rightarrow> Some s))"

definition file_path_full_alloc :: "string \<Rightarrow> string \<Rightarrow> string option" where
  "file_path_full_alloc prefix path =
     (if file_path_is_absolute path then Some path else file_path_join_alloc prefix path)"

definition file_expand_path :: "string \<Rightarrow> string \<Rightarrow> string" where
  "file_expand_path home path = (if path \<noteq> [] \<and> hd path = CHR ''~'' then home @ tl path else path)"

text \<open>\<open>strrchr(s, '/')\<close>: the text before and after the last slash.\<close>

definition last_slash :: "string \<Rightarrow> (string \<times> string) option" where
  "last_slash s =
     (if CHR ''/'' \<in> set s
      then Some (rev (tl (dropWhile (\<lambda>c. c \<noteq> CHR ''/'') (rev s))), rev (takeWhile (\<lambda>c. c \<noteq> CHR ''/'') (rev s)))
      else None)"

definition file_resolve_path :: "string \<Rightarrow> realpath_fn \<Rightarrow> string \<Rightarrow> string option" where
  "file_resolve_path home rp path =
     (let expanded = file_expand_path home path
      in (case rp expanded of
            Inr resolved \<Rightarrow> Some resolved
          | Inl _ \<Rightarrow>
              (case last_slash (take (PATH_MAX - 1) expanded) of
                 None \<Rightarrow> Some expanded
               | Some (dir, name) \<Rightarrow>
                   if dir = [] then Some expanded
                   else (case rp dir of
                       Inl _ \<Rightarrow> Some expanded
                     | Inr dir_resolved \<Rightarrow> file_path_join_alloc dir_resolved name))))"

definition path_is_within :: "string \<Rightarrow> realpath_fn \<Rightarrow> string \<Rightarrow> string \<Rightarrow> bool" where
  "path_is_within home rp path dir =
     (case (file_resolve_path home rp path, file_resolve_path home rp dir) of
        (Some p, Some d) \<Rightarrow>
          take (length d) p = d \<and> (length p = length d \<or> (length d < length p \<and> p ! length d = CHR ''/''))
      | _ \<Rightarrow> False)"

section \<open>Lemmas\<close>

lemma last_slash_Some:
  assumes "last_slash s = Some (d, b)"
  shows "s = d @ CHR ''/'' # b \<and> CHR ''/'' \<notin> set b"
proof -
  let ?P = "\<lambda>c. c \<noteq> CHR ''/''"
  from assms have m: "CHR ''/'' \<in> set (rev s)" and d: "d = rev (tl (dropWhile ?P (rev s)))" and b: "b = rev (takeWhile ?P (rev s))"
    by (auto simp: last_slash_def split: if_splits)
  from m have ne: "dropWhile ?P (rev s) \<noteq> []" by (auto simp: dropWhile_eq_Nil_conv)
  then have "dropWhile ?P (rev s) = CHR ''/'' # rev d" using hd_dropWhile [OF ne] d by (metis list.collapse rev_rev_ident)
  then have "rev s = rev b @ CHR ''/'' # rev d" using takeWhile_dropWhile_id [of ?P "rev s"] b by simp
  then have "s = d @ CHR ''/'' # b" by (metis append.assoc append_Cons append_Nil rev_append rev_rev_ident rev.simps(2))
  moreover have "CHR ''/'' \<notin> set b" unfolding b by (auto dest: set_takeWhileD)
  ultimately show ?thesis by simp
qed

lemma last_slash_None: "last_slash s = None \<longleftrightarrow> CHR ''/'' \<notin> set s"
  by (simp add: last_slash_def)

lemma last_slash_append: "CHR ''/'' \<notin> set b \<Longrightarrow> last_slash (d @ CHR ''/'' # b) = Some (d, b)"
proof -
  assume b: "CHR ''/'' \<notin> set b"
  then have "dropWhile (\<lambda>c. c \<noteq> CHR ''/'') (rev b @ CHR ''/'' # rev d) = CHR ''/'' # rev d"
    "takeWhile (\<lambda>c. c \<noteq> CHR ''/'') (rev b @ CHR ''/'' # rev d) = rev b"
    by (subst dropWhile_append2 takeWhile_append2; auto)+
  then show ?thesis by (simp add: last_slash_def)
qed

text \<open>The containment test compares resolved names, component-wise.\<close>

lemma prefix_slash_iff:
  "take (length d) p = d \<and> (length p = length d \<or> (length d < length p \<and> p ! length d = CHR ''/''))
   \<longleftrightarrow> p = d \<or> (\<exists>s. p = d @ CHR ''/'' # s)"
proof
  assume l: "take (length d) p = d \<and> (length p = length d \<or> (length d < length p \<and> p ! length d = CHR ''/''))"
  show "p = d \<or> (\<exists>s. p = d @ CHR ''/'' # s)"
  proof (cases "length p = length d")
    case False
    with l have "length d < length p" "p ! length d = CHR ''/''" by auto
    then have "p = take (length d) p @ CHR ''/'' # drop (Suc (length d)) p" using id_take_nth_drop [of "length d" p] by simp
    then show ?thesis using l by metis
  qed (use l in auto)
qed auto

lemma path_is_within_iff:
  "path_is_within home rp path dir \<longleftrightarrow>
   (\<exists>p d. file_resolve_path home rp path = Some p \<and> file_resolve_path home rp dir = Some d
      \<and> (p = d \<or> (\<exists>s. p = d @ CHR ''/'' # s)))"
  by (auto simp: path_is_within_def prefix_slash_iff split: option.splits)

lemma file_path_join_alloc_plain:
  assumes "dir \<noteq> []" "last dir \<noteq> CHR ''/''" "name \<noteq> []" "hd name \<noteq> CHR ''/''" "length dir + length name + 1 < SIZE_MAX"
  shows "file_path_join_alloc dir name = Some (dir @ CHR ''/'' # name)"
proof -
  have "\<not> SIZE_MAX - Suc 0 < length dir" "\<not> SIZE_MAX - length name < Suc (length dir)" using assms(5) by linarith+
  then show ?thesis using assms by (simp add: file_path_join_alloc_def file_path_join_def Let_def)
qed

text \<open>A name that does not exist in a directory that does: resolved to the canonical directory and the name.\<close>

lemma file_resolve_path_new:
  assumes "dir \<noteq> []" "hd dir \<noteq> CHR ''~''" "name \<noteq> []" "CHR ''/'' \<notin> set name" "length dir + length name + 1 < PATH_MAX"
    "rp (dir @ CHR ''/'' # name) = Inl e" "rp dir = Inr d" "d \<noteq> []" "last d \<noteq> CHR ''/''" "length d < PATH_MAX"
  shows "file_resolve_path home rp (dir @ CHR ''/'' # name) = Some (d @ CHR ''/'' # name)"
proof -
  let ?p = "dir @ CHR ''/'' # name"
  have e: "file_expand_path home ?p = ?p" using assms(1,2) by (simp add: file_expand_path_def)
  have t: "take (PATH_MAX - 1) ?p = ?p" using assms(5) by (intro take_all) simp
  have h: "hd name \<noteq> CHR ''/''" using assms(3,4) by (cases name) auto
  have "length d + length name + 1 < SIZE_MAX" using assms(5,10) by (simp add: SIZE_MAX_def PATH_MAX_def)
  from file_path_join_alloc_plain [OF assms(8,9,3) h this] show ?thesis
    unfolding file_resolve_path_def Let_def e t using assms(1,6,7) by (simp add: last_slash_append [OF assms(4)])
qed

end
