(* ===== verification/Patch_Apply.thy ===== *)
theory Patch_Apply
  imports Patch_Match Paths
begin

text \<open>
  Applying a parsed patch to the file system (\<open>src/agent/patch.c\<close>, lines 503 to 590 and 910 to 1165),
  with the directory helpers it calls from \<open>src/util/file.c\<close> (the path helpers are in \<open>Paths\<close>).

  The file system is a map from path names to entries, as \<open>lstat\<close> shows them; two spellings of one
  path are two names.  What the operating system answers to a call that may fail is a parameter
  (\<open>os_env\<close>, one record per hunk); a call that succeeds has its documented effect on the map.  An outer
  \<open>None\<close> is the undefined behaviour of \<open>Patch_Match\<close>, or a \<open>write\<close> loop that has not ended with the
  answers given.
\<close>

section \<open>File system and paths\<close>

datatype node = Reg nat string | Dir | Symlink | Special

type_synonym fs = "string \<Rightarrow> node option"

record os_env =
  os_mkdir :: "string \<Rightarrow> int"
  os_mkstemp :: "string \<Rightarrow> int + string"
  os_fchmod :: int
  os_writes :: "int list"
  os_fsync :: int
  os_close :: int
  os_rename :: int
  os_unlink :: "string \<Rightarrow> int"
  os_fopen :: int

definition mkdir :: "os_env \<Rightarrow> fs \<Rightarrow> string \<Rightarrow> fs \<times> int" where
  "mkdir os fs p =
     (if fs p \<noteq> None then (fs, EEXIST)
      else if os_mkdir os p \<noteq> 0 then (fs, os_mkdir os p)
      else (fs(p \<mapsto> Dir), 0))"

fun mkdir_all :: "os_env \<Rightarrow> fs \<Rightarrow> string list \<Rightarrow> fs \<times> rc" where
  "mkdir_all os fs [] = (fs, 0)"
| "mkdir_all os fs (p # ps) =
     (case mkdir os fs p of (fs', e) \<Rightarrow>
       if e \<noteq> 0 \<and> e \<noteq> EEXIST then (fs', - e) else mkdir_all os fs' ps)"

text \<open>The directories \<open>file_ensure_dir\<close> makes: every prefix before a slash after the first byte, then all.\<close>

definition dir_prefixes :: "string \<Rightarrow> string list" where
  "dir_prefixes tmp = map (\<lambda>i. take i tmp) (filter (\<lambda>i. tmp ! i = CHR ''/'') [1..<length tmp]) @ [tmp]"

definition file_ensure_dir :: "os_env \<Rightarrow> fs \<Rightarrow> string \<Rightarrow> fs \<times> rc" where
  "file_ensure_dir os fs path =
     (let tmp = take (PATH_MAX - 1) path;
          tmp = (if tmp \<noteq> [] \<and> last tmp = CHR ''/'' then butlast tmp else tmp)
      in mkdir_all os fs (dir_prefixes tmp))"

text \<open>\<open>file_read_all\<close> as its caller uses it: the bytes before the first NUL of a regular file.\<close>

definition file_read_all :: "os_env \<Rightarrow> fs \<Rightarrow> string \<Rightarrow> int + string" where
  "file_read_all os fs path =
     (if os_fopen os \<noteq> 0 then Inl (os_fopen os)
      else (case fs path of Some (Reg mode content) \<Rightarrow> Inr (cstr content) | _ \<Rightarrow> Inl ENOENT))"

section \<open>Targets\<close>

function patch_path_loop :: "string \<Rightarrow> bool" where
  "patch_path_loop part =
     (if part = [] then True
      else let comp = takeWhile (\<lambda>c. c \<noteq> CHR ''/'') part; rest = dropWhile (\<lambda>c. c \<noteq> CHR ''/'') part
        in if comp = [] \<or> comp = ''.'' \<or> comp = ''..'' then False
           else if rest = [] then True
           else patch_path_loop (tl rest))"
  by pat_completeness auto

lemma length_tl_dropWhile: "xs \<noteq> [] \<Longrightarrow> length (tl (dropWhile P xs)) < length xs"
proof -
  assume "xs \<noteq> []"
  then have "0 < length xs" by simp
  then show ?thesis using length_dropWhile_le [of P xs] unfolding length_tl by linarith
qed

termination patch_path_loop
  by (relation "measure length") (auto simp del: length_tl intro: length_tl_dropWhile)

declare patch_path_loop.simps [simp del]

definition patch_path_valid :: "string \<Rightarrow> bool" where
  "patch_path_valid path = (path \<noteq> [] \<and> \<not> file_path_is_absolute path \<and> patch_path_loop path)"

function patch_symlink_loop :: "fs \<Rightarrow> string \<Rightarrow> string \<Rightarrow> rc" where
  "patch_symlink_loop fs current part =
     (if part = [] then 0
      else let comp = takeWhile (\<lambda>c. c \<noteq> CHR ''/'') part; rest = dropWhile (\<lambda>c. c \<noteq> CHR ''/'') part;
               current' = current @ ''/'' @ comp
        in if length current + length comp + 2 > PATH_MAX then - ENAMETOOLONG
           else if fs current' = Some Symlink then - ELOOP
           else if rest = [] then 0
           else patch_symlink_loop fs current' (tl rest))"
  by pat_completeness auto

termination patch_symlink_loop
  by (relation "measure (\<lambda>(fs, c, p). length p)") (auto simp del: length_tl intro: length_tl_dropWhile)

declare patch_symlink_loop.simps [simp del]

definition patch_reject_symlink_components :: "fs \<Rightarrow> string \<Rightarrow> string \<Rightarrow> rc" where
  "patch_reject_symlink_components fs root path =
     (if length root \<ge> PATH_MAX then - ENAMETOOLONG else patch_symlink_loop fs root path)"

definition patch_resolve_target :: "fs \<Rightarrow> string \<Rightarrow> string \<Rightarrow> rc + string" where
  "patch_resolve_target fs root path =
     (if \<not> patch_path_valid path then Inl (- EINVAL)
      else let rc = patch_reject_symlink_components fs root path
        in if rc \<noteq> 0 then Inl rc else file_path_join PATH_MAX root path)"

definition patch_parent_ensure :: "os_env \<Rightarrow> fs \<Rightarrow> string \<Rightarrow> fs \<times> rc" where
  "patch_parent_ensure os fs path =
     (if length path \<ge> PATH_MAX then (fs, - ENAMETOOLONG)
      else if CHR ''/'' \<notin> set path then (fs, 0)
      else file_ensure_dir os fs (rev (tl (dropWhile (\<lambda>c. c \<noteq> CHR ''/'') (rev path)))))"

section \<open>Atomic writes\<close>

text \<open>The answers of \<open>write\<close> in turn; the result is the first error (or 0) and the bytes written.\<close>

fun write_loop :: "int list \<Rightarrow> nat \<Rightarrow> nat \<Rightarrow> (int \<times> nat) option" where
  "write_loop [] written len = (if written < len then None else Some (0, written))"
| "write_loop (w # ws) written len =
     (if written < len then
        if w < 0 then Some (w, written) else write_loop ws (written + nat w) len
      else Some (0, written))"

definition unlink :: "os_env \<Rightarrow> fs \<Rightarrow> string \<Rightarrow> fs \<times> int" where
  "unlink os fs p = (if os_unlink os p \<noteq> 0 then (fs, os_unlink os p) else (fs(p := None), 0))"

definition patch_temporary :: "string \<Rightarrow> string \<Rightarrow> string" where
  "patch_temporary path suffix = path @ ''.morph-patch-'' @ suffix"

definition patch_atomic_write :: "os_env \<Rightarrow> fs \<Rightarrow> string \<Rightarrow> string \<Rightarrow> nat \<Rightarrow> (fs \<times> rc) option" where
  "patch_atomic_write os fs path content mode =
     (if length (patch_temporary path ''XXXXXX'') \<ge> PATH_MAX then Some (fs, - ENAMETOOLONG)
      else (case os_mkstemp os path of
          Inl e \<Rightarrow> Some (fs, - e)
        | Inr suffix \<Rightarrow>
            let temporary = patch_temporary path suffix;
                fs = fs(temporary \<mapsto> Reg 0x180 [])
            in if os_fchmod os \<noteq> 0 then Some (fst (unlink os fs temporary), - os_fchmod os)
               else do {
                 (rc, written) \<leftarrow> write_loop (os_writes os) 0 (length content);
                 let fs = fs(temporary \<mapsto> Reg mode (take written content))
                 in if rc < 0 then Some (fst (unlink os fs temporary), rc)
                    else if os_fsync os \<noteq> 0 then Some (fst (unlink os fs temporary), - os_fsync os)
                    else if os_close os \<noteq> 0 then Some (fst (unlink os fs temporary), - os_close os)
                    else if os_rename os \<noteq> 0 then Some (fst (unlink os fs temporary), - os_rename os)
                    else Some (fs(temporary := None, path := fs temporary), 0) }))"

section \<open>Applying\<close>

record patch_change =
  ch_path :: string
  ch_action :: patch_action
  ch_added :: int
  ch_removed :: int

definition patch_result_add :: "patch_change list \<Rightarrow> patch_hunk \<Rightarrow> string \<Rightarrow> patch_change list \<times> rc" where
  "patch_result_add changes hunk path =
     (if length path \<ge> PATH_MAX then (changes, - ENAMETOOLONG)
      else (changes @ [\<lparr>ch_path = path, ch_action = ph_action hunk, ch_added = added hunk,
                        ch_removed = removed hunk\<rparr>], 0))"

type_synonym patch_state = "fs \<times> patch_change list"

text \<open>Write a file and, when that succeeds, record the change: the common end of the branches.\<close>

definition patch_write_and_add ::
  "os_env \<Rightarrow> patch_state \<Rightarrow> patch_hunk \<Rightarrow> string \<Rightarrow> string \<Rightarrow> nat \<Rightarrow> string \<Rightarrow> (patch_state \<times> rc) option"
where
  "patch_write_and_add os st hunk file content mode path =
     (case st of (fs, changes) \<Rightarrow> do {
        (fs, rc) \<leftarrow> patch_atomic_write os fs file content mode;
        if rc \<noteq> 0 then Some ((fs, changes), rc)
        else (case patch_result_add changes hunk path of (changes, rc) \<Rightarrow> Some ((fs, changes), rc)) })"

definition patch_apply_add ::
  "os_env \<Rightarrow> patch_state \<Rightarrow> patch_hunk \<Rightarrow> string \<Rightarrow> (patch_state \<times> rc) option"
where
  "patch_apply_add os st hunk source_path =
     (case st of (fs, changes) \<Rightarrow>
       let mode = (case fs source_path of Some (Reg m _) \<Rightarrow> m AND 0x1ff | _ \<Rightarrow> 0x1a4)
       in (case patch_parent_ensure os fs source_path of (fs, rc) \<Rightarrow>
            if rc \<noteq> 0 then Some ((fs, changes), rc)
            else (case add_content hunk of
                None \<Rightarrow> None
              | Some content \<Rightarrow>
                  patch_write_and_add os (fs, changes) hunk source_path content mode (ph_path hunk))))"

definition patch_apply_delete ::
  "os_env \<Rightarrow> patch_state \<Rightarrow> patch_hunk \<Rightarrow> string \<Rightarrow> patch_state \<times> rc"
where
  "patch_apply_delete os st hunk source_path =
     (case st of (fs, changes) \<Rightarrow>
       if fs source_path = None then ((fs, changes), - ENOENT)
       else (case unlink os fs source_path of (fs, e) \<Rightarrow>
         if e \<noteq> 0 then ((fs, changes), - e)
         else (case patch_result_add changes hunk (ph_path hunk) of (changes, rc) \<Rightarrow> ((fs, changes), rc))))"

text \<open>The branch of an update with \<open>Move to\<close>: write the destination, then remove the source.\<close>

definition patch_apply_move ::
  "os_env \<Rightarrow> string \<Rightarrow> patch_state \<Rightarrow> patch_hunk \<Rightarrow> string \<Rightarrow> nat \<Rightarrow> string \<Rightarrow> string \<Rightarrow> (patch_state \<times> rc) option"
where
  "patch_apply_move os root st hunk source_path mode updated move_path' =
     (case st of (fs, changes) \<Rightarrow>
       (case patch_resolve_target fs root move_path' of
          Inl e \<Rightarrow> Some (st, e)
        | Inr destination_path \<Rightarrow>
            (case fs destination_path of
               Some Dir \<Rightarrow> Some (st, - EINVAL) | Some Symlink \<Rightarrow> Some (st, - EINVAL) | Some Special \<Rightarrow> Some (st, - EINVAL)
             | _ \<Rightarrow>
               let mode = (case fs destination_path of Some (Reg m _) \<Rightarrow> m AND 0x1ff | _ \<Rightarrow> mode)
               in (case patch_parent_ensure os fs destination_path of (fs, rc) \<Rightarrow>
                    if rc \<noteq> 0 then Some ((fs, changes), rc)
                    else do {
                      (fs, rc) \<leftarrow> patch_atomic_write os fs destination_path updated mode;
                      if rc \<noteq> 0 then Some ((fs, changes), rc)
                      else
                        (case (if source_path \<noteq> destination_path then unlink os fs source_path else (fs, 0)) of (fs, e) \<Rightarrow>
                          if e \<noteq> 0 then Some ((fs, changes), - e)
                          else (case patch_result_add changes hunk move_path' of (changes, rc) \<Rightarrow>
                                 Some ((fs, changes), rc))) }))))"

definition patch_apply_update ::
  "os_env \<Rightarrow> string \<Rightarrow> patch_state \<Rightarrow> patch_hunk \<Rightarrow> string \<Rightarrow> (patch_state \<times> rc) option"
where
  "patch_apply_update os root st hunk source_path =
     (case st of (fs, changes) \<Rightarrow>
       (case fs source_path of
          None \<Rightarrow> Some (st, - ENOENT)
        | Some nd \<Rightarrow>
          let mode = (case nd of Reg m _ \<Rightarrow> m AND 0x1ff | _ \<Rightarrow> 0)
          in (case file_read_all os fs source_path of
               Inl e \<Rightarrow> Some (st, - e)
             | Inr original \<Rightarrow> do {
                 res \<leftarrow> patch_build_updated_content original hunk;
                 case res of
                   Inl e \<Rightarrow> Some (st, e)
                 | Inr updated \<Rightarrow>
                     (case move_path hunk of
                        Some m \<Rightarrow> patch_apply_move os root st hunk source_path mode updated m
                      | None \<Rightarrow> patch_write_and_add os st hunk source_path updated mode (ph_path hunk)) })))"

definition patch_apply_hunk ::
  "os_env \<Rightarrow> string \<Rightarrow> patch_state \<Rightarrow> patch_hunk \<Rightarrow> (patch_state \<times> rc) option"
where
  "patch_apply_hunk os root st hunk =
     (case patch_resolve_target (fst st) root (ph_path hunk) of
        Inl e \<Rightarrow> Some (st, e)
      | Inr source_path \<Rightarrow>
          if fst st source_path \<in> {Some Dir, Some Symlink, Some Special} then Some (st, - EINVAL)
          else (case ph_action hunk of
              PATCH_ACTION_ADD \<Rightarrow> patch_apply_add os st hunk source_path
            | PATCH_ACTION_DELETE \<Rightarrow> Some (patch_apply_delete os st hunk source_path)
            | PATCH_ACTION_UPDATE \<Rightarrow> patch_apply_update os root st hunk source_path))"

text \<open>The loop over the hunks; \<open>oss\<close> are the answers of the operating system, hunk by hunk.\<close>

fun patch_apply_hunks ::
  "(nat \<Rightarrow> os_env) \<Rightarrow> nat \<Rightarrow> string \<Rightarrow> patch_state \<Rightarrow> patch_hunk list \<Rightarrow> (patch_state \<times> rc) option"
where
  "patch_apply_hunks oss k root st [] = Some (st, 0)"
| "patch_apply_hunks oss k root st (hunk # hunks) =
     do { (st, rc) \<leftarrow> patch_apply_hunk (oss k) root st hunk;
          if rc \<noteq> 0 then Some (st, rc) else patch_apply_hunks oss (Suc k) root st hunks }"

definition PATCH_MAX_BYTES :: nat where
  "PATCH_MAX_BYTES = 64 * 1024"

text \<open>\<open>resolve\<close> stands for \<open>file_resolve_path\<close>, which asks \<open>realpath\<close>.\<close>

definition patch_apply ::
  "(string \<Rightarrow> string option) \<Rightarrow> (nat \<Rightarrow> os_env) \<Rightarrow> fs \<Rightarrow> string \<Rightarrow> string \<Rightarrow> (patch_state \<times> rc) option"
where
  "patch_apply resolve oss fs workdir input =
     (if length input > PATCH_MAX_BYTES then Some ((fs, []), - EFBIG)
      else if utf8valid input \<noteq> None then Some ((fs, []), - EINVAL)
      else (case resolve workdir of
          None \<Rightarrow> Some ((fs, []), - ENOMEM)
        | Some root \<Rightarrow>
            (case patch_parse input of
               Inl e \<Rightarrow> Some ((fs, []), e)
             | Inr hunks \<Rightarrow> patch_apply_hunks oss 0 root (fs, []) hunks)))"

definition patch_action_name :: "patch_action \<Rightarrow> string" where
  "patch_action_name act = (case act of
      PATCH_ACTION_ADD \<Rightarrow> ''add'' | PATCH_ACTION_UPDATE \<Rightarrow> ''update'' | PATCH_ACTION_DELETE \<Rightarrow> ''delete'')"

section \<open>Path names\<close>

definition plain_component :: "string \<Rightarrow> bool" where
  "plain_component c = (c \<noteq> [] \<and> c \<noteq> ''.'' \<and> c \<noteq> ''..'' \<and> CHR ''/'' \<notin> set c)"

fun join_slash :: "string list \<Rightarrow> string" where
  "join_slash [] = []"
| "join_slash [c] = c"
| "join_slash (c # cs) = c @ CHR ''/'' # join_slash cs"

lemma takeWhile_slash:
  "CHR ''/'' \<notin> set c \<Longrightarrow> takeWhile (\<lambda>x. x \<noteq> CHR ''/'') (c @ CHR ''/'' # r) = c"
  "CHR ''/'' \<notin> set c \<Longrightarrow> dropWhile (\<lambda>x. x \<noteq> CHR ''/'') (c @ CHR ''/'' # r) = CHR ''/'' # r"
  "CHR ''/'' \<notin> set c \<Longrightarrow> takeWhile (\<lambda>x. x \<noteq> CHR ''/'') c = c"
  "CHR ''/'' \<notin> set c \<Longrightarrow> dropWhile (\<lambda>x. x \<noteq> CHR ''/'') c = []"
  by (induction c) auto

lemma patch_path_loop_join:
  "list_all plain_component cs \<Longrightarrow> t \<in> {[], ''/''} \<Longrightarrow> cs \<noteq> [] \<Longrightarrow> patch_path_loop (join_slash cs @ t)"
proof (induction cs rule: join_slash.induct)
  case (2 c)
  then have c: "plain_component c" by simp
  have nil: "patch_path_loop []" by (simp add: patch_path_loop.simps)
  from 2(2) consider "t = []" | "t = ''/''" by blast
  then show ?case
  proof cases
    case 1
    then show ?thesis
      using c by (subst patch_path_loop.simps) (simp add: Let_def plain_component_def takeWhile_slash)
  next
    case 2
    then show ?thesis
      using c nil by (subst patch_path_loop.simps) (simp add: Let_def plain_component_def takeWhile_slash)
  qed
next
  case (3 c d cs)
  then have c: "plain_component c" and rest: "patch_path_loop (join_slash (d # cs) @ t)" by auto
  show ?case
    using c rest by (subst patch_path_loop.simps) (simp add: Let_def plain_component_def takeWhile_slash)
qed simp

lemma patch_path_loop_split:
  "patch_path_loop p \<Longrightarrow> p \<noteq> [] \<Longrightarrow>
     \<exists>cs t. cs \<noteq> [] \<and> list_all plain_component cs \<and> t \<in> {[], ''/''} \<and> p = join_slash cs @ t"
proof (induction p rule: patch_path_loop.induct)
  case (1 p)
  let ?c = "takeWhile (\<lambda>x. x \<noteq> CHR ''/'') p" and ?r = "dropWhile (\<lambda>x. x \<noteq> CHR ''/'') p"
  have c: "plain_component ?c"
    using 1(2,3) by (subst (asm) patch_path_loop.simps)
      (auto simp: Let_def plain_component_def dest: set_takeWhileD split: if_splits)
  show ?case
  proof (cases "?r = []")
    case True
    then have "p = ?c" by (metis append_Nil2 takeWhile_dropWhile_id)
    then show ?thesis using c by (intro exI [of _ "[?c]"] exI [of _ "[]"]) simp
  next
    case False
    have nbad: "\<not> (?c = [] \<or> ?c = ''.'' \<or> ?c = ''..'')" using c by (simp add: plain_component_def)
    have lp: "patch_path_loop (tl ?r)"
      using 1(2,3) False nbad by (subst (asm) patch_path_loop.simps) (simp add: Let_def)
    have p: "p = ?c @ CHR ''/'' # tl ?r"
      using False hd_dropWhile [OF False] takeWhile_dropWhile_id [of "\<lambda>x. x \<noteq> CHR ''/''" p]
      by (cases ?r) auto
    show ?thesis
    proof (cases "tl ?r = []")
      case True
      then have "p = join_slash [?c] @ ''/''" using p by simp
      then show ?thesis using c by (intro exI [of _ "[?c]"] exI [of _ "''/''"]) simp
    next
      case tl: False
      obtain cs t where cs: "cs \<noteq> []" "list_all plain_component cs" "t \<in> {[], ''/''}" "tl ?r = join_slash cs @ t"
        using 1(1) [OF 1(3) refl refl nbad False lp tl] by blast
      then obtain d ds where "cs = d # ds" by (cases cs) auto
      then have "p = join_slash (?c # cs) @ t" using p cs(4) by simp
      then show ?thesis using cs c by (intro exI [of _ "?c # cs"] exI [of _ t]) simp
    qed
  qed
qed

text \<open>
  \<open>patch_path_valid\<close> accepts exactly the relative paths made of plain components: one or more
  non-empty components other than \<open>.\<close> and \<open>..\<close>, separated by single slashes, with at most one slash
  after the last.
\<close>

theorem patch_path_valid_iff:
  "patch_path_valid p \<longleftrightarrow>
     (\<exists>cs t. cs \<noteq> [] \<and> list_all plain_component cs \<and> t \<in> {[], ''/''} \<and> p = join_slash cs @ t)"
proof
  assume "patch_path_valid p"
  then show "\<exists>cs t. cs \<noteq> [] \<and> list_all plain_component cs \<and> t \<in> {[], ''/''} \<and> p = join_slash cs @ t"
    using patch_path_loop_split [of p] by (simp add: patch_path_valid_def)
next
  assume "\<exists>cs t. cs \<noteq> [] \<and> list_all plain_component cs \<and> t \<in> {[], ''/''} \<and> p = join_slash cs @ t"
  then obtain cs t where cs: "cs \<noteq> []" "list_all plain_component cs" "t \<in> {[], ''/''}" "p = join_slash cs @ t"
    by blast
  then obtain c ds where c: "cs = c # ds" "plain_component c" by (cases cs) auto
  then have "p \<noteq> [] \<and> hd p = hd c" using cs(4) by (cases ds; cases c) (auto simp: plain_component_def)
  moreover have "hd c \<noteq> CHR ''/''" using c(2) by (cases c) (auto simp: plain_component_def)
  ultimately show "patch_path_valid p"
    using patch_path_loop_join [OF cs(2,3,1)] cs(4) by (simp add: patch_path_valid_def file_path_is_absolute_def)
qed

section \<open>Atomic writes\<close>

text \<open>
  What \<open>mkstemp\<close> and \<open>unlink\<close> are documented to do: a failed call sets a non-zero \<open>errno\<close>, the name
  made by a successful one was free, and the temporary file can be removed.
\<close>

definition os_sane :: "os_env \<Rightarrow> fs \<Rightarrow> string \<Rightarrow> bool" where
  "os_sane os fs path =
     ((case os_mkstemp os path of
         Inl e \<Rightarrow> e \<noteq> 0
       | Inr suffix \<Rightarrow> fs (patch_temporary path suffix) = None
                    \<and> os_unlink os (patch_temporary path suffix) = 0))"

lemma patch_temporary_neq [simp]: "patch_temporary path suffix \<noteq> path"
  by (simp add: patch_temporary_def)

lemma write_loop_zero: "write_loop ws n len = Some (0, written) \<Longrightarrow> len \<le> written"
  by (induction ws n len rule: write_loop.induct) (auto split: if_splits)


lemma write_loop_total:
  "n + sum_list (map nat ws) \<ge> len \<Longrightarrow> \<forall>w \<in> set ws. 0 \<le> w \<Longrightarrow> \<exists>k. write_loop ws n len = Some (0, k)"
  by (induction ws n len rule: write_loop.induct) (auto simp: add.assoc)



definition sample_os :: os_env where
  "sample_os = \<lparr>os_mkdir = (\<lambda>_. 0), os_mkstemp = (\<lambda>_. Inr ''Ab12Cd''), os_fchmod = 0,
     os_writes = [3, 5], os_fsync = 0, os_close = 0, os_rename = 0, os_unlink = (\<lambda>_. 0), os_fopen = 0\<rparr>"


section \<open>Confinement to the work directory\<close>

text \<open>
  The components of a path, and the paths below a directory: those that go on after it without a
  component \<open>..\<close>.
\<close>

fun path_comps :: "string \<Rightarrow> string list" where
  "path_comps [] = [[]]"
| "path_comps (c # s) =
     (if c = CHR ''/'' then [] # path_comps s
      else (case path_comps s of [] \<Rightarrow> [[c]] | x # xs \<Rightarrow> (c # x) # xs))"

definition under :: "string \<Rightarrow> string \<Rightarrow> bool" where
  "under root p = (\<exists>s. p = root @ CHR ''/'' # s \<and> ''..'' \<notin> set (path_comps s))"








definition only_under :: "string \<Rightarrow> fs \<Rightarrow> fs \<Rightarrow> bool" where
  "only_under root fs fs' = (\<forall>p. fs' p \<noteq> fs p \<longrightarrow> under root p)"


lemma only_under_refl [simp]: "only_under root fs fs"
  by (simp add: only_under_def)





















section \<open>Hunks in sequence\<close>

definition change_of :: "patch_hunk \<Rightarrow> patch_change" where
  "change_of hunk =
     \<lparr>ch_path = (case (ph_action hunk, move_path hunk) of (PATCH_ACTION_UPDATE, Some m) \<Rightarrow> m | _ \<Rightarrow> ph_path hunk),
      ch_action = ph_action hunk, ch_added = added hunk, ch_removed = removed hunk\<rparr>"








section \<open>A whole update\<close>

text \<open>The operating system answers every call of one file replacement with success.\<close>

definition os_healthy :: "os_env \<Rightarrow> fs \<Rightarrow> string \<Rightarrow> nat \<Rightarrow> bool" where
  "os_healthy os fs path len =
     (os_sane os fs path \<and> isl (os_mkstemp os path) = False \<and> os_fchmod os = 0 \<and> os_fsync os = 0
      \<and> os_close os = 0 \<and> os_rename os = 0 \<and> os_fopen os = 0
      \<and> (\<forall>w \<in> set (os_writes os). 0 \<le> w) \<and> len \<le> sum_list (map nat (os_writes os)))"

lemma patch_atomic_write_healthy:
  assumes "os_healthy os fs path (length content)" "length (patch_temporary path ''XXXXXX'') < PATH_MAX"
  shows "patch_atomic_write os fs path content mode = Some (fs(path \<mapsto> Reg mode content), 0)"
proof -
  obtain suffix where s: "os_mkstemp os path = Inr suffix"
    using assms(1) by (cases "os_mkstemp os path") (auto simp: os_healthy_def)
  obtain k where k: "write_loop (os_writes os) 0 (length content) = Some (0, k)"
    using write_loop_total [of "length content" 0 "os_writes os"] assms(1) by (auto simp: os_healthy_def)
  have "take k content = content" using write_loop_zero [OF k] by simp
  moreover have "fs (patch_temporary path suffix) = None"
    using assms(1) s by (simp add: os_healthy_def os_sane_def)
  ultimately show ?thesis
    using assms s k by (auto simp: patch_atomic_write_def os_healthy_def Let_def fun_upd_twist fun_upd_idem)
qed

lemma utf8valid_wf: "utf8_wf s \<Longrightarrow> length s \<le> SIZE_MAX \<Longrightarrow> utf8valid s = None"
  by (simp add: utf8valid_def utf8nvalid_def utf8nvalid_loop_complete)

lemma patch_resolve_target_ok:
  assumes "root \<noteq> []" "last root \<noteq> CHR ''/''" "patch_path_valid p"
    and "patch_reject_symlink_components fs root p = 0" "length root + length p + 2 \<le> PATH_MAX"
  shows "patch_resolve_target fs root p = Inr (root @ CHR ''/'' # p)"
  using assms
  by (auto simp: patch_resolve_target_def file_path_join_def patch_path_valid_def file_path_is_absolute_def
      PATH_MAX_def SIZE_MAX_def Let_def)

lemma patch_apply_one_update:
  assumes "patch = patch_print [DocUpdate p None [DocChunk At cs False]]"
    and "hunk_ok (DocUpdate p None [DocChunk At cs False])"
    and "old = concat (map kept_or_deleted cs)" "new = concat (map kept_or_inserted cs)" "old \<noteq> []"
    and "length patch \<le> PATCH_MAX_BYTES" "utf8_wf patch"
    and "resolve workdir = Some root" "root \<noteq> []" "last root \<noteq> CHR ''/''"
    and "patch_path_valid p" "patch_reject_symlink_components fs root p = 0"
    and "length root + length p + 20 < PATH_MAX"
    and "fs (root @ CHR ''/'' # p) = Some (Reg m (unlines (pre @ old @ post)))"
    and "\<forall>l \<in> set (pre @ old @ post). LF \<notin> set l \<and> NUL \<notin> set l"
    and "\<forall>i < length pre. take (length old) (drop i (pre @ old @ post)) \<noteq> old"
    and "os_healthy (oss 0) fs (root @ CHR ''/'' # p) (length (unlines (pre @ new @ post)))"
  shows "patch_apply resolve oss fs workdir patch
       = Some ((fs(root @ CHR ''/'' # p \<mapsto> Reg (m AND 0x1ff) (unlines (pre @ new @ post))),
                [change_of (hunk_meaning (DocUpdate p None [DocChunk At cs False]))]), 0)"
proof -
  let ?h = "hunk_meaning (DocUpdate p None [DocChunk At cs False])"
  let ?c = "chunk_meaning (DocChunk At cs False)"
  let ?f = "root @ CHR ''/'' # p"
  have parse: "patch_parse patch = Inr [?h]"
    using patch_parse_print_hunks [of "[DocUpdate p None [DocChunk At cs False]]"] assms(1,2) by simp
  have valid: "utf8valid patch = None"
    using assms(6,7) by (intro utf8valid_wf) (auto simp: PATCH_MAX_BYTES_def SIZE_MAX_def)
  have target: "patch_resolve_target fs root (ph_path ?h) = Inr ?f"
    using assms(9-13) patch_resolve_target_ok [of root p fs] by simp
  have nul: "NUL \<notin> set (unlines (pre @ old @ post))"
    using assms(15) by (auto simp: unlines_def)
  have read: "file_read_all (oss 0) fs ?f = Inr (unlines (pre @ old @ post))"
    using assms(14,17) nul by (simp add: file_read_all_def os_healthy_def cstr_id)
  have build: "patch_build_updated_content (unlines (pre @ old @ post)) ?h = Some (Inr (unlines (pre @ new @ post)))"
    using patch_update_exact_content [of ?h ?c pre post] assms(3,4,5,15,16) by simp
  have write': "patch_atomic_write (oss 0) fs ?f (unlines (pre @ new @ post)) (m AND 0x1ff)
              = Some (fs(?f \<mapsto> Reg (m AND 0x1ff) (unlines (pre @ new @ post))), 0)"
    using patch_atomic_write_healthy [OF assms(17)] assms(13) by (simp add: patch_temporary_def)
  have "patch_apply_hunk (oss 0) root (fs, []) ?h
      = Some ((fs(?f \<mapsto> Reg (m AND 0x1ff) (unlines (pre @ new @ post))), [change_of ?h]), 0)"
    using target read build write' assms(13,14)
    by (simp add: patch_apply_hunk_def patch_apply_update_def patch_write_and_add_def patch_result_add_def
        change_of_def)
  then show ?thesis
    using assms(6,8) valid parse by (simp add: patch_apply_def)
qed

text \<open>
  The tool does what its caller asks, end to end: for a printed patch that updates one file with one
  chunk, whose expected lines occur verbatim in the file (the first occurrence being after \<open>pre\<close>),
  when the operating system answers with success, \<open>patch_apply\<close> succeeds, the file's new content is the old one
  with exactly those lines replaced, its permission bits are kept, nothing else in the file
  system differs, and the one change is reported.
\<close>

theorem patch_apply_update_file:
  assumes "patch = patch_print [DocUpdate p None [DocChunk At cs False]]"
    and "hunk_ok (DocUpdate p None [DocChunk At cs False])"
    and "old = concat (map kept_or_deleted cs)" "new = concat (map kept_or_inserted cs)" "old \<noteq> []"
    and "length patch \<le> PATCH_MAX_BYTES" "utf8_wf patch"
    and "resolve workdir = Some root" "root \<noteq> []" "last root \<noteq> CHR ''/''"
    and "patch_path_valid p" "patch_reject_symlink_components fs root p = 0"
    and "length root + length p + 20 < PATH_MAX"
    and "fs (root @ CHR ''/'' # p) = Some (Reg m (unlines (pre @ old @ post)))"
    and "\<forall>l \<in> set (pre @ old @ post). LF \<notin> set l \<and> NUL \<notin> set l"
    and "\<forall>i < length pre. take (length old) (drop i (pre @ old @ post)) \<noteq> old"
    and "os_healthy (oss 0) fs (root @ CHR ''/'' # p) (length (unlines (pre @ new @ post)))"
  shows "patch_apply resolve oss fs workdir patch
       = Some ((fs(root @ CHR ''/'' # p \<mapsto> Reg (m AND 0x1ff) (unlines (pre @ new @ post))),
                [change_of (hunk_meaning (DocUpdate p None [DocChunk At cs False]))]), 0)"
  by (rule patch_apply_one_update [where resolve = resolve and oss = oss and fs = fs, OF assms])

section \<open>An instance\<close>

definition sample_fs :: fs where
  "sample_fs = [''/w'' \<mapsto> Dir, ''/w/f'' \<mapsto> Reg 0x1a4 (unlines [''a'', ''b''])]"

definition sample_doc :: "doc_hunk list" where
  "sample_doc = [DocUpdate ''f'' None [DocChunk At [Keep ''a'', Del ''b'', Ins ''B''] False]]"

lemma sample_doc_ok: "hunk_ok (DocUpdate ''f'' None [DocChunk At [Keep ''a'', Del ''b'', Ins ''B''] False])"
  by (simp add: value_ok_def line_ok_def trim_ws_def patch_trim_view_def)

lemma sample_print_wf: "utf8_wf (patch_print sample_doc)" "length (patch_print sample_doc) \<le> PATCH_MAX_BYTES"
  by (rule utf8_wf_ascii, simp_all add: sample_doc_def patch_print_def PATCH_MAX_BYTES_def)

lemma sample_symlink: "patch_reject_symlink_components sample_fs ''/w'' ''f'' = 0"
  by (simp add: patch_reject_symlink_components_def patch_symlink_loop.simps PATH_MAX_def sample_fs_def)

lemma sample_path: "patch_path_valid ''f''"
  by (simp add: patch_path_valid_def file_path_is_absolute_def patch_path_loop.simps)

lemma sample_healthy: "os_healthy sample_os sample_fs ''/w/f'' 4"
  by (simp add: os_healthy_def os_sane_def sample_os_def sample_fs_def patch_temporary_def)

lemma sample_file: "sample_fs (''/w'' @ CHR ''/'' # ''f'') = Some (Reg 0x1a4 (unlines ([] @ [''a'', ''b''] @ [])))"
  by (simp add: sample_fs_def)

lemma sample_healthy':
  "os_healthy sample_os sample_fs (''/w'' @ CHR ''/'' # ''f'') (length (unlines ([] @ [''a'', ''B''] @ [])))"
  using sample_healthy by (simp add: unlines_def eval_nat_numeral)

lemmas sample_facts = sample_doc_ok sample_print_wf sample_symlink sample_path sample_file sample_healthy' sample_doc_def [symmetric]

theorem patch_apply_update_file_witness:
  "patch_apply (\<lambda>_. Some ''/w'') (\<lambda>_. sample_os) sample_fs ''.'' (patch_print sample_doc)
   = Some ((sample_fs(''/w'' @ CHR ''/'' # ''f'' \<mapsto> Reg (0x1a4 AND 0x1ff) (unlines ([] @ [''a'', ''B''] @ []))),
            [change_of (hunk_meaning (DocUpdate ''f'' None [DocChunk At [Keep ''a'', Del ''b'', Ins ''B''] False]))]), 0)"
  by (rule patch_apply_update_file [where resolve = "\<lambda>_. Some ''/w''" and oss = "\<lambda>_. sample_os" and old = "[''a'', ''b'']"])
    (simp_all only: sample_facts, simp_all add: PATH_MAX_def)




text \<open>
  A file is read as a C string: an update of a file with a NUL byte in it drops everything from that
  byte on, and the truncated content is what gets written back.
\<close>

lemma patch_update_drops_after_nul:
  "file_read_all sample_os [''/w/f'' \<mapsto> Reg 0x1a4 (unlines [''a'', ''b''] @ NUL # tail)] ''/w/f''
   = Inr (unlines [''a'', ''b''])"
  by (simp add: file_read_all_def sample_os_def cstr_def unlines_def)

end
