(* ===== verification/Array.thy ===== *)
theory Array
  imports Prelude
begin

text \<open>
  The growable array (\<open>src/util/array.c\<close>).  The block behind \<open>elts\<close> is the list of its \<open>cap\<close> slots of
  \<open>size\<close> bytes each; a slot that was never stored to is \<open>None\<close>.  A pointer to an element is its index.
  Whether \<open>malloc\<close>, \<open>realloc\<close> or \<open>arena_alloc\<close> gives memory is the argument \<open>mem\<close>.  The byte
  computations are those of the source, with the wrap-around of \<open>size_t\<close>.
\<close>

section \<open>Operations\<close>

record 'a morph_array =
  elts :: "'a option list option"
  nelts :: size_t
  cap :: size_t
  esize :: size_t
  heap_alloc :: bool

definition MORPH_ARRAY_INIT_CAP :: size_t where
  "MORPH_ARRAY_INIT_CAP = 16"

definition array_bytes :: "size_t \<Rightarrow> size_t \<Rightarrow> rc + size_t" where
  "array_bytes c elem_size =
     (if elem_size \<noteq> 0 \<and> c > SIZE_MAX div elem_size then Inl (- EOVERFLOW)
      else Inr (wrap64 (c * elem_size)))"

definition array_init_with :: "bool \<Rightarrow> bool \<Rightarrow> size_t \<Rightarrow> size_t \<Rightarrow> rc + 'a morph_array" where
  "array_init_with heap mem init_cap elem_size =
     (if elem_size = 0 then Inl (- EINVAL)
      else
        let init_cap = (if init_cap = 0 then MORPH_ARRAY_INIT_CAP else init_cap)
        in (case array_bytes init_cap elem_size of
             Inl e \<Rightarrow> Inl e
           | Inr bytes \<Rightarrow>
               if \<not> mem then Inl (- ENOMEM)
               else Inr \<lparr>elts = Some (replicate init_cap None), nelts = 0, cap = init_cap, esize = elem_size,
                         heap_alloc = heap\<rparr>))"

definition morph_array_init :: "bool \<Rightarrow> size_t \<Rightarrow> size_t \<Rightarrow> rc + 'a morph_array" where
  "morph_array_init mem init_cap elem_size = array_init_with True mem init_cap elem_size"

definition morph_array_init_arena :: "bool \<Rightarrow> size_t \<Rightarrow> size_t \<Rightarrow> rc + 'a morph_array" where
  "morph_array_init_arena mem init_cap elem_size = array_init_with False mem init_cap elem_size"

definition morph_array_cleanup :: "'a morph_array \<Rightarrow> 'a morph_array" where
  "morph_array_cleanup a = \<lparr>elts = None, nelts = 0, cap = 0, esize = 0, heap_alloc = False\<rparr>"

text \<open>The loop of \<open>array_grow\<close>: \<open>None\<close> when the next capacity wraps.\<close>

function array_grow_cap :: "size_t \<Rightarrow> size_t \<Rightarrow> size_t option" where
  "array_grow_cap new_cap min_cap =
     (if new_cap < min_cap then
        let next = wrap64 (new_cap + new_cap div 2 + 8)
        in if next \<le> new_cap then None else array_grow_cap next min_cap
      else Some new_cap)"
  by pat_completeness auto
termination
  by (relation "measure (\<lambda>(new_cap, min_cap). min_cap - new_cap)") auto

declare array_grow_cap.simps [simp del]

definition array_grow :: "bool \<Rightarrow> 'a morph_array \<Rightarrow> size_t \<Rightarrow> 'a morph_array \<times> rc" where
  "array_grow mem a min_cap =
     (if min_cap \<le> cap a then (a, 0)
      else (case array_grow_cap (if cap a \<noteq> 0 then cap a else MORPH_ARRAY_INIT_CAP) min_cap of
          None \<Rightarrow> (a, - EOVERFLOW)
        | Some new_cap \<Rightarrow>
            (case array_bytes new_cap (esize a) of
               Inl e \<Rightarrow> (a, - EOVERFLOW)
             | Inr bytes \<Rightarrow>
                 if \<not> heap_alloc a then (a, - ENOMEM)
                 else if \<not> mem then (a, - ENOMEM)
                 else
                   let old = (case elts a of None \<Rightarrow> [] | Some es \<Rightarrow> es)
                   in (a\<lparr>elts := Some (take new_cap old @ replicate (new_cap - length old) None),
                         cap := new_cap\<rparr>, 0))))"

definition morph_array_push :: "bool \<Rightarrow> 'a morph_array \<Rightarrow> 'a morph_array \<times> size_t option" where
  "morph_array_push mem a =
     (if nelts a \<ge> cap a \<and> cap a = SIZE_MAX then (a, None)
      else (case (if nelts a \<ge> cap a then array_grow mem a (cap a + 1) else (a, 0)) of
          (a, rc) \<Rightarrow> if rc \<noteq> 0 then (a, None) else (a\<lparr>nelts := nelts a + 1\<rparr>, Some (nelts a))))"

definition morph_array_push_n :: "bool \<Rightarrow> 'a morph_array \<Rightarrow> size_t \<Rightarrow> 'a morph_array \<times> size_t option" where
  "morph_array_push_n mem a n =
     (if n = 0 then (a, None)
      else if n > SIZE_MAX - nelts a then (a, None)
      else (case (if nelts a + n > cap a then array_grow mem a (nelts a + n) else (a, 0)) of
          (a, rc) \<Rightarrow> if rc \<noteq> 0 then (a, None) else (a\<lparr>nelts := nelts a + n\<rparr>, Some (nelts a))))"

definition morph_array_pop :: "'a morph_array \<Rightarrow> 'a morph_array" where
  "morph_array_pop a = (if nelts a = 0 then a else a\<lparr>nelts := nelts a - 1\<rparr>)"

definition morph_array_get :: "'a morph_array \<Rightarrow> size_t \<Rightarrow> size_t option" where
  "morph_array_get a i = (if i \<ge> nelts a then None else Some i)"

definition morph_array_reserve :: "bool \<Rightarrow> 'a morph_array \<Rightarrow> size_t \<Rightarrow> 'a morph_array \<times> rc" where
  "morph_array_reserve mem a min_cap = array_grow mem a min_cap"

definition morph_array_clear :: "'a morph_array \<Rightarrow> 'a morph_array" where
  "morph_array_clear a = a\<lparr>nelts := 0\<rparr>"

text \<open>Reading and writing through an element pointer; outside the block it is undefined behaviour.\<close>

definition array_store :: "'a morph_array \<Rightarrow> size_t \<Rightarrow> 'a \<Rightarrow> 'a morph_array option" where
  "array_store a i v = (case elts a of
      None \<Rightarrow> None
    | Some es \<Rightarrow> if i < length es then Some (a\<lparr>elts := Some (es[i := Some v])\<rparr>) else None)"

definition array_load :: "'a morph_array \<Rightarrow> size_t \<Rightarrow> 'a option" where
  "array_load a i = (case elts a of None \<Rightarrow> None | Some es \<Rightarrow> if i < length es then es ! i else None)"

section \<open>Invariant and contents\<close>

text \<open>The contents are the slots in use; a slot handed out and not yet stored to is \<open>None\<close> or stale.\<close>

definition array_inv :: "'a morph_array \<Rightarrow> bool" where
  "array_inv a = (0 < esize a \<and> 0 < cap a \<and> cap a * esize a \<le> SIZE_MAX \<and> nelts a \<le> cap a
     \<and> (\<exists>es. elts a = Some es \<and> length es = cap a))"

definition array_list :: "'a morph_array \<Rightarrow> 'a option list" where
  "array_list a = (case elts a of None \<Rightarrow> [] | Some es \<Rightarrow> take (nelts a) es)"

lemma array_invE:
  assumes "array_inv a"
  obtains es where "elts a = Some es" "length es = cap a" "0 < cap a" "0 < esize a" "nelts a \<le> cap a"
    "cap a * esize a \<le> SIZE_MAX" "array_list a = take (nelts a) es"
  using assms by (auto simp: array_inv_def array_list_def)

lemma length_array_list [simp]: "array_inv a \<Longrightarrow> length (array_list a) = nelts a"
  by (auto simp: array_inv_def array_list_def)

lemma array_load_list: "array_inv a \<Longrightarrow> i < nelts a \<Longrightarrow> array_load a i = array_list a ! i"
  by (auto simp: array_inv_def array_list_def array_load_def)

lemma array_bytes_ok: "0 < s \<Longrightarrow> array_bytes c s = Inr b \<longleftrightarrow> c * s \<le> SIZE_MAX \<and> b = c * s"
proof -
  assume "0 < s"
  then have "c > SIZE_MAX div s \<longleftrightarrow> c * s > SIZE_MAX"
    using div_less_iff_less_mult [of s SIZE_MAX c] by simp
  then show ?thesis using \<open>0 < s\<close> by (auto simp: array_bytes_def)
qed

lemma array_init_inv:
  assumes "array_init_with heap mem c s = Inr a"
  shows "array_inv a" "array_list a = []" "heap_alloc a = heap" "c \<le> cap a"
proof -
  have s: "0 < s" using assms by (auto simp: array_init_with_def split: if_splits)
  let ?c = "if c = 0 then MORPH_ARRAY_INIT_CAP else c"
  obtain b where b: "array_bytes ?c s = Inr b"
    using assms s by (auto simp: array_init_with_def Let_def split: sum.splits)
  have a: "a = \<lparr>elts = Some (replicate ?c None), nelts = 0, cap = ?c, esize = s, heap_alloc = heap\<rparr>"
    using assms s b by (auto simp: array_init_with_def Let_def split: if_splits)
  show "array_inv a" using a s b by (auto simp: array_inv_def array_bytes_ok MORPH_ARRAY_INIT_CAP_def)
  show "array_list a = []" "heap_alloc a = heap" "c \<le> cap a" using a by (auto simp: array_list_def)
qed

section \<open>Growth\<close>

lemma array_grow_cap_ge: "array_grow_cap c m = Some n \<Longrightarrow> c \<le> n \<and> m \<le> n"
proof (induction c m rule: array_grow_cap.induct)
  case (1 c m)
  then show ?case
    by (subst (asm) (2) array_grow_cap.simps) (force simp: Let_def split: if_splits)
qed

text \<open>The test for wrap-around is complete: a capacity that does not wrap is a true growth.\<close>

lemma array_grow_next:
  assumes "c \<le> SIZE_MAX"
  shows "wrap64 (c + c div 2 + 8) \<le> c \<longleftrightarrow> c + c div 2 + 8 > SIZE_MAX"
proof (cases "c + c div 2 + 8 > SIZE_MAX")
  case True
  have "c div 2 + 8 < 2 ^ 64" using assms by (simp add: SIZE_MAX_def)
  moreover have "2 ^ 64 \<le> c + c div 2 + 8" using True by (simp add: SIZE_MAX_def)
  ultimately have "(c + c div 2 + 8) mod 2 ^ 64 = c + c div 2 + 8 - 2 ^ 64"
    using assms by (simp add: SIZE_MAX_def mod_if)
  then show ?thesis using True \<open>c div 2 + 8 < 2 ^ 64\<close> by (simp add: wrap64_def)
next
  case False
  then show ?thesis by simp
qed

lemma array_grow_spec:
  assumes inv: "array_inv a" and g: "array_grow mem a m = (a', rc)"
  shows "array_inv a'" "array_list a' = array_list a" "nelts a' = nelts a" "esize a' = esize a"
    "heap_alloc a' = heap_alloc a" "rc = 0 \<Longrightarrow> m \<le> cap a'" "rc \<noteq> 0 \<Longrightarrow> a' = a" "cap a \<le> cap a'"
proof -
  have "array_inv a' \<and> array_list a' = array_list a \<and> nelts a' = nelts a \<and> esize a' = esize a
     \<and> heap_alloc a' = heap_alloc a \<and> (rc = 0 \<longrightarrow> m \<le> cap a') \<and> (rc \<noteq> 0 \<longrightarrow> a' = a) \<and> cap a \<le> cap a'"
  proof (cases "m \<le> cap a \<or> rc \<noteq> 0")
    case True
    then have "a' = a"
      using g by (auto simp: array_grow_def Let_def split: if_splits option.splits sum.splits)
    then show ?thesis using g inv True by (auto simp: array_grow_def)
  next
    case False
    obtain es where es: "elts a = Some es" "length es = cap a" "0 < cap a" "0 < esize a" "nelts a \<le> cap a"
      "array_list a = take (nelts a) es"
      using array_invE [OF inv] by blast
    obtain n b where n: "array_grow_cap (cap a) m = Some n" "array_bytes n (esize a) = Inr b"
      "a' = a\<lparr>elts := Some (take n es @ replicate (n - length es) None), cap := n\<rparr>" "rc = 0"
      using g False es(1,3) by (auto simp: array_grow_def Let_def split: if_splits option.splits sum.splits)
    have le: "cap a \<le> n" "m \<le> n" using array_grow_cap_ge [OF n(1)] by auto
    have by': "n * esize a \<le> SIZE_MAX" using n(2) array_bytes_ok [OF es(4)] by blast
    have "array_list a' = array_list a" using n(3) es le by (simp add: array_list_def)
    moreover have "array_inv a'"
      using inv n(3) es le by' by (auto simp: array_inv_def)
    ultimately show ?thesis using n le by simp
  qed
  then show "array_inv a'" "array_list a' = array_list a" "nelts a' = nelts a" "esize a' = esize a"
    "heap_alloc a' = heap_alloc a" "rc = 0 \<Longrightarrow> m \<le> cap a'" "rc \<noteq> 0 \<Longrightarrow> a' = a" "cap a \<le> cap a'" by auto
qed

text \<open>When growth succeeds: memory is given, the array is on the heap, and the doubling fits.\<close>

lemma array_grow_cap_small:
  "c \<le> m \<Longrightarrow> m * 2 + 16 \<le> SIZE_MAX \<Longrightarrow> \<exists>n \<le> m * 2 + 16. array_grow_cap c m = Some n"
proof (induction c m rule: array_grow_cap.induct)
  case (1 c m)
  show ?case
  proof (cases "c < m")
    case True
    let ?n = "c + c div 2 + 8"
    have n: "?n \<le> m * 2 + 8" using True by simp
    then have w: "wrap64 ?n = ?n" using 1(3) by simp
    show ?thesis
    proof (cases "?n \<le> m")
      case le: True
      then have "\<exists>k \<le> m * 2 + 16. array_grow_cap ?n m = Some k" using 1 True w by auto
      then show ?thesis using True w by (subst array_grow_cap.simps) simp
    next
      case False
      then have "array_grow_cap ?n m = Some ?n" by (subst array_grow_cap.simps) simp
      then show ?thesis using True w n by (subst array_grow_cap.simps) simp
    qed
  next
    case False
    then show ?thesis using 1(2) by (subst array_grow_cap.simps) simp
  qed
qed

lemma array_grow_succeeds:
  assumes inv: "array_inv a" and "heap_alloc a" mem "(m * 2 + 16) * esize a \<le> SIZE_MAX"
  shows "snd (array_grow mem a m) = 0"
proof (cases "m \<le> cap a")
  case False
  have s: "0 < esize a" "cap a \<noteq> 0" using inv by (auto simp: array_inv_def)
  have "m * 2 + 16 \<le> (m * 2 + 16) * esize a" using s by simp
  then have "m * 2 + 16 \<le> SIZE_MAX" using assms(4) by linarith
  then obtain n where n: "n \<le> m * 2 + 16" "array_grow_cap (cap a) m = Some n"
    using array_grow_cap_small [of "cap a" m] False by auto
  have "n * esize a \<le> (m * 2 + 16) * esize a" using n(1) by (rule mult_le_mono1)
  then obtain b where "array_bytes n (esize a) = Inr b" using array_bytes_ok [OF s(1)] assms(4) by force
  then show ?thesis using n s assms by (simp add: array_grow_def Let_def)
qed (simp add: array_grow_def)

section \<open>Pushing\<close>

lemma push_slots:
  assumes "array_inv a" "nelts a + n \<le> cap a"
  shows "array_inv (a\<lparr>nelts := nelts a + n\<rparr>)"
    "\<exists>xs. length xs = n \<and> array_list (a\<lparr>nelts := nelts a + n\<rparr>) = array_list a @ xs"
proof -
  obtain es where es: "elts a = Some es" "length es = cap a" "array_list a = take (nelts a) es"
    using array_invE [OF assms(1)] by blast
  show "array_inv (a\<lparr>nelts := nelts a + n\<rparr>)" using assms by (auto simp: array_inv_def)
  show "\<exists>xs. length xs = n \<and> array_list (a\<lparr>nelts := nelts a + n\<rparr>) = array_list a @ xs"
    using es assms(2) by (intro exI [of _ "take n (drop (nelts a) es)"]) (simp add: array_list_def take_add)
qed

text \<open>
  \<open>morph_array_push\<close> and \<open>morph_array_push_n\<close> on a well-formed array keep it well formed.  When
  they give a pointer it points to the first of exactly \<open>n\<close> new slots after the old elements, all inside the block,
  and the old elements are where they were; when they give none the array is unchanged.  On a heap array
  they give one whenever memory is available and the elements (with the growth margin) fit in the address space.
\<close>

theorem array_push_contract:
  assumes inv: "array_inv a" and n: "0 < n"
    and push: "(a', slot) = (if n = 1 then morph_array_push mem a else morph_array_push_n mem a n)"
  shows "array_inv a'
       \<and> (case slot of
            None \<Rightarrow> a' = a
          | Some i \<Rightarrow> i = nelts a \<and> i + n \<le> cap a' \<and> (i + n) * esize a' \<le> SIZE_MAX
                    \<and> (\<exists>xs. length xs = n \<and> array_list a' = array_list a @ xs))
       \<and> (heap_alloc a \<and> mem \<and> ((nelts a + n) * 2 + 16) * esize a \<le> SIZE_MAX \<longrightarrow> slot \<noteq> None)"
proof -
  define m where "m = nelts a + n"
  define g where "g = (if m > cap a then array_grow mem a m else (a, 0))"
  have sm: "nelts a \<le> cap a" "0 < esize a" "cap a * esize a \<le> SIZE_MAX" using inv by (auto simp: array_inv_def)
  have "cap a \<le> cap a * esize a" using sm(2) by simp
  then have capm: "cap a \<le> SIZE_MAX" using sm(3) by linarith
  have eq: "(a', slot) = (if n > SIZE_MAX - nelts a then (a, None)
      else if snd g \<noteq> 0 then (fst g, None) else ((fst g)\<lparr>nelts := nelts (fst g) + n\<rparr>, Some (nelts (fst g))))"
  proof (cases "n = 1")
    case True
    have "nelts a \<ge> cap a \<and> cap a = SIZE_MAX \<longleftrightarrow> n > SIZE_MAX - nelts a"
      using True sm(1) capm by auto
    moreover have "nelts a \<ge> cap a \<longleftrightarrow> m > cap a" "nelts a \<ge> cap a \<Longrightarrow> cap a + 1 = m"
      using True sm(1) by (auto simp: m_def)
    ultimately show ?thesis using push True by (auto simp: morph_array_push_def g_def split: prod.splits)
  next
    case False
    then show ?thesis using push n by (auto simp: morph_array_push_n_def g_def m_def split: prod.splits)
  qed
  obtain b r where br: "g = (b, r)" by fastforce
  have b: "array_inv b" "array_list b = array_list a" "nelts b = nelts a" "esize b = esize a"
    "r = 0 \<Longrightarrow> m \<le> cap b" "r \<noteq> 0 \<Longrightarrow> b = a"
    using array_grow_spec [OF inv, of mem m b r] br inv by (auto simp: g_def split: if_splits)
  have succ: "n \<le> SIZE_MAX - nelts a \<and> r = 0" if "heap_alloc a" mem "(m * 2 + 16) * esize a \<le> SIZE_MAX"
  proof -
    have "m \<le> (m * 2 + 16) * esize a" using sm(2) by (metis Suc_leI le_add1 le_trans mult.commute mult_2_right mult_le_mono1 nat_mult_1 One_nat_def add_leD1)
    then show ?thesis using that(3) array_grow_succeeds [OF inv that] br by (auto simp: m_def g_def split: if_splits)
  qed
  show ?thesis
  proof (cases "n > SIZE_MAX - nelts a \<or> r \<noteq> 0")
    case True
    then have "a' = a" "slot = None" using eq br b(6) by (auto split: if_splits)
    then show ?thesis using inv succ True by (auto simp: m_def)
  next
    case False
    then have a': "a' = b\<lparr>nelts := nelts b + n\<rparr>" "slot = Some (nelts b)" using eq br by auto
    have fit: "nelts b + n \<le> cap b" using b(3,5) False by (simp add: m_def)
    have "(nelts b + n) * esize b \<le> cap b * esize b" using fit by (rule mult_le_mono1)
    also have "\<dots> \<le> SIZE_MAX" using b(1) by (simp add: array_inv_def)
    finally have "(nelts b + n) * esize b \<le> SIZE_MAX" .
    then show ?thesis using push_slots [OF b(1) fit] a' b fit by auto
  qed
qed

theorem array_push_contract_witness:
  "array_inv \<lparr>elts = Some [Some 1, Some 2 :: nat option], nelts = 2, cap = 2, esize = 8, heap_alloc = True\<rparr>
   \<and> snd (morph_array_push True \<lparr>elts = Some [Some 1, Some 2 :: nat option], nelts = 2, cap = 2, esize = 8, heap_alloc = True\<rparr>)
     \<noteq> None"
proof -
  let ?a = "\<lparr>elts = Some [Some 1, Some 2 :: nat option], nelts = 2, cap = 2, esize = 8, heap_alloc = True\<rparr>"
  have i: "array_inv ?a" by (simp add: array_inv_def SIZE_MAX_def)
  obtain a' s where p: "(a', s) = morph_array_push True ?a" by (metis surj_pair)
  have "s \<noteq> None"
    using array_push_contract [OF i, of 1 a' s True] p by (simp add: SIZE_MAX_def)
  then show ?thesis using i p by (metis snd_conv)
qed

section \<open>The array as a list\<close>

text \<open>What the users of the array do with a pushed slot: store one element through the pointer.\<close>

definition array_append :: "bool \<Rightarrow> 'a morph_array \<Rightarrow> 'a \<Rightarrow> ('a morph_array \<times> bool) option" where
  "array_append mem a v = (case morph_array_push mem a of
      (a', None) \<Rightarrow> Some (a', False)
    | (a', Some i) \<Rightarrow> map_option (\<lambda>a. (a, True)) (array_store a' i v))"

text \<open>The contract of a sequence that its clients fill element by element.\<close>

locale element_store =
  fixes inv :: "'s \<Rightarrow> bool"
    and elems :: "'s \<Rightarrow> 'v option list"
    and put :: "'s \<Rightarrow> 'v \<Rightarrow> ('s \<times> bool) option"
    and drop_last :: "'s \<Rightarrow> 's"
  assumes put_law: "inv s \<Longrightarrow> \<exists>s' ok. put s v = Some (s', ok) \<and> inv s' \<and> elems s' = (if ok then elems s @ [Some v] else elems s)"
    and drop_law: "inv s \<Longrightarrow> inv (drop_last s) \<and> elems (drop_last s) = butlast (elems s)"
begin

primrec put_all :: "'s \<Rightarrow> 'v list \<Rightarrow> ('s \<times> nat) option" where
  "put_all s [] = Some (s, 0)"
| "put_all s (v # vs) = (case put s v of
      None \<Rightarrow> None
    | Some (s', ok) \<Rightarrow> if ok then map_option (\<lambda>(t, n). (t, Suc n)) (put_all s' vs) else Some (s', 0))"

lemma put_all_prefix:
  "inv s \<Longrightarrow> \<exists>s' n. put_all s vs = Some (s', n) \<and> inv s' \<and> n \<le> length vs \<and> elems s' = elems s @ map Some (take n vs)"
proof (induction vs arbitrary: s)
  case Nil
  then show ?case by simp
next
  case (Cons v vs)
  obtain s' ok where p: "put s v = Some (s', ok)" "inv s'" "elems s' = (if ok then elems s @ [Some v] else elems s)"
    using put_law [OF Cons.prems] by blast
  show ?case
  proof (cases ok)
    case True
    obtain t n where "put_all s' vs = Some (t, n)" "inv t" "n \<le> length vs" "elems t = elems s' @ map Some (take n vs)"
      using Cons.IH [OF p(2)] by blast
    then show ?thesis using p True by auto
  next
    case False
    then show ?thesis using p by auto
  qed
qed

lemma put_drop: "inv s \<Longrightarrow> put s v = Some (s', True) \<Longrightarrow> elems (drop_last s') = elems s"
  using put_law [of s v] drop_law [of s'] by force

end

lemma array_append_law:
  assumes "array_inv a"
  shows "\<exists>a' ok. array_append mem a v = Some (a', ok) \<and> array_inv a' \<and> esize a' = esize a
           \<and> heap_alloc a' = heap_alloc a \<and> array_list a' = (if ok then array_list a @ [Some v] else array_list a)"
proof -
  obtain b r where g: "(if nelts a \<ge> cap a then array_grow mem a (cap a + 1) else (a, 0)) = (b, r)" by fastforce
  have b: "array_inv b" "array_list b = array_list a" "nelts b = nelts a" "esize b = esize a"
    "heap_alloc b = heap_alloc a" "r = 0 \<Longrightarrow> nelts b < cap b"
  proof -
    have le: "nelts a \<le> cap a" using assms by (simp add: array_inv_def)
    have "array_inv b \<and> array_list b = array_list a \<and> nelts b = nelts a \<and> esize b = esize a
       \<and> heap_alloc b = heap_alloc a \<and> (r = 0 \<longrightarrow> nelts b < cap b)"
    proof (cases "nelts a \<ge> cap a")
      case True
      then have "array_grow mem a (cap a + 1) = (b, r)" using g by simp
      from array_grow_spec [OF assms this] show ?thesis using le by auto
    next
      case False
      then show ?thesis using g assms by auto
    qed
    then show "array_inv b" "array_list b = array_list a" "nelts b = nelts a" "esize b = esize a"
      "heap_alloc b = heap_alloc a" "r = 0 \<Longrightarrow> nelts b < cap b" by auto
  qed
  obtain es where es: "elts b = Some es" "length es = cap b" "array_list b = take (nelts b) es"
    using array_invE [OF b(1)] by blast
  consider (fail) c where "morph_array_push mem a = (c, None)" "c = a \<or> c = b"
    | (ok) "r = 0" "morph_array_push mem a = (b\<lparr>nelts := nelts b + 1\<rparr>, Some (nelts b))"
  proof -
    have p: "morph_array_push mem a = (if nelts a \<ge> cap a \<and> cap a = SIZE_MAX then (a, None)
        else if r \<noteq> 0 then (b, None) else (b\<lparr>nelts := nelts b + 1\<rparr>, Some (nelts b)))"
      unfolding morph_array_push_def g by simp
    show ?thesis
      by (cases "nelts a \<ge> cap a \<and> cap a = SIZE_MAX"; cases "r = 0") (use p fail ok in auto)
  qed
  then show ?thesis
  proof cases
    case fail
    then show ?thesis using b assms by (auto simp: array_append_def)
  next
    case ok
    have lt: "nelts b < cap b" using b(6) ok(1) .
    let ?c = "b\<lparr>nelts := nelts b + 1, elts := Some (es[nelts b := Some v])\<rparr>"
    have "array_append mem a v = Some (?c, True)"
      using ok es lt by (simp add: array_append_def array_store_def)
    moreover have "array_inv ?c" using b(1) es lt by (auto simp: array_inv_def)
    moreover have "array_list ?c = array_list b @ [Some v]"
      using es lt by (simp add: array_list_def take_Suc_conv_app_nth)
    ultimately show ?thesis using b by auto
  qed
qed

lemma array_pop_law:
  "array_inv a \<Longrightarrow> array_inv (morph_array_pop a) \<and> array_list (morph_array_pop a) = butlast (array_list a)"
  by (auto simp: array_inv_def array_list_def morph_array_pop_def butlast_take)

interpretation grow_array: element_store array_inv array_list "array_append mem" morph_array_pop
  for mem
proof (unfold_locales, goal_cases)
  case (1 a v)
  then show ?case using array_append_law [OF 1, of mem v] by blast
next
  case (2 a)
  then show ?case by (rule array_pop_law)
qed

text \<open>
  An array is a list that its clients fill from the back: whatever values are appended one after
  the other to a well-formed array, until the first one that finds no memory, they are read back by
  \<open>morph_array_get\<close> after the elements that were there, in order; nothing is read outside the array,
  reserving capacity changes nothing, popping removes the last one and clearing removes all.
\<close>

theorem array_refines_list:
  assumes "array_inv a"
  shows "\<exists>a' n. grow_array.put_all mem a vs = Some (a', n) \<and> n \<le> length vs \<and> array_inv a'
           \<and> array_list a' = array_list a @ map Some (take n vs)
           \<and> (\<forall>i. (case morph_array_get a' i of None \<Rightarrow> i \<ge> nelts a + n
                | Some j \<Rightarrow> i < nelts a + n \<and> array_load a' j = (array_list a @ map Some (take n vs)) ! i))
           \<and> array_list (fst (morph_array_reserve mem a' m)) = array_list a'
           \<and> array_list (morph_array_pop a') = butlast (array_list a')
           \<and> array_list (morph_array_clear a') = []"
proof -
  obtain a' n where a': "grow_array.put_all mem a vs = Some (a', n)" "array_inv a'"
    "n \<le> length vs" "array_list a' = array_list a @ map Some (take n vs)"
    using grow_array.put_all_prefix [OF assms, of mem vs] by auto
  have len: "nelts a' = nelts a + n"
    using arg_cong [OF a'(4), of length] a'(2,3) assms by simp
  have "case morph_array_get a' i of None \<Rightarrow> i \<ge> nelts a + n
     | Some j \<Rightarrow> i < nelts a + n \<and> array_load a' j = (array_list a @ map Some (take n vs)) ! i" for i
    using array_load_list [OF a'(2), of i] a'(4) len by (simp add: morph_array_get_def take_map)
  moreover have "array_list (fst (morph_array_reserve mem a' m)) = array_list a'"
    using array_grow_spec(2) [OF a'(2), of mem m] by (metis morph_array_reserve_def prod.collapse)
  moreover have "array_list (morph_array_clear a') = []"
    by (simp add: morph_array_clear_def array_list_def split: option.split)
  ultimately show ?thesis using a' array_pop_law [OF a'(2)] by (auto simp: take_map)
qed

theorem array_refines_list_witness:
  "\<exists>a' n. grow_array.put_all True \<lparr>elts = Some [Some 1, None :: nat option], nelts = 1, cap = 2, esize = 8, heap_alloc = True\<rparr> [5, 6]
      = Some (a', n) \<and> array_list a' = [Some 1] @ map Some (take n [5, 6])"
proof -
  let ?a = "\<lparr>elts = Some [Some 1, None :: nat option], nelts = 1, cap = 2, esize = 8, heap_alloc = True\<rparr>"
  have "array_inv ?a" by (simp add: array_inv_def SIZE_MAX_def)
  then show ?thesis
    using array_refines_list [of ?a True "[5, 6]"] by (fastforce simp: array_list_def)
qed

end
