(* ===== verification/Sse.thy ===== *)
theory Sse
  imports Prelude
begin

text \<open>
  The parser of server-sent events (\<open>src/http/sse.c\<close>) that turns the byte stream of a model provider
  into events.

  Each \<open>morph_buf_t\<close> of the parser is the text it holds (the theory \<open>Buf\<close> shows that appending extends
  exactly this text when memory is available, which is assumed here).  The callback and its
  \<open>user_data\<close> are a function from the events delivered so far and the new event to a return code; the
  events delivered are recorded in the ghost field \<open>sse_log\<close>.
\<close>

section \<open>Model\<close>

type_synonym sse_event = "string \<times> string"
type_synonym sse_cb = "sse_event list \<Rightarrow> sse_event \<Rightarrow> rc"

record sse_fields =
  sse_data :: string
  sse_ev :: string
  sse_id :: string
  retry_ms :: int
  sse_log :: "sse_event list"

record sse_parser =
  sse_buf :: string
  sse_fields :: sse_fields

definition sse_line_field :: "string \<Rightarrow> string \<times> string" where
  "sse_line_field line =
     (if CHR '':'' \<in> set line then
        let field = takeWhile (\<lambda>c. c \<noteq> CHR '':'') line;
            v = tl (dropWhile (\<lambda>c. c \<noteq> CHR '':'') line)
        in (field, if v \<noteq> [] \<and> hd v = CHR '' '' then tl v else v)
      else (line, []))"

definition LONG_MAX :: int where
  "LONG_MAX = 2 ^ 63 - 1"

definition is_digit :: "char \<Rightarrow> bool" where
  "is_digit c = (of_char c \<ge> (48 :: nat) \<and> of_char c \<le> (57 :: nat))"

text \<open>The loop of \<open>sse_parse_retry\<close>; \<open>None\<close> leaves \<open>*out\<close> as it was.\<close>

fun sse_retry_loop :: "int \<Rightarrow> string \<Rightarrow> int option" where
  "sse_retry_loop retry [] = Some retry"
| "sse_retry_loop retry (c # cs) =
     (if \<not> is_digit c then None
      else let digit = int (of_char c) - 48
        in if retry > (LONG_MAX - digit) div 10 then None
           else sse_retry_loop (retry * 10 + digit) cs)"

definition sse_parse_retry :: "string \<Rightarrow> int \<Rightarrow> int" where
  "sse_parse_retry v out = (if v = [] then out else (case sse_retry_loop 0 v of None \<Rightarrow> out | Some r \<Rightarrow> r))"

definition sse_reset_event :: "sse_fields \<Rightarrow> sse_fields" where
  "sse_reset_event f = f\<lparr>sse_data := [], sse_ev := []\<rparr>"

definition sse_dispatch :: "sse_cb \<Rightarrow> sse_fields \<Rightarrow> sse_fields \<times> rc" where
  "sse_dispatch cb f =
     (if sse_data f = [] then (sse_reset_event f, 0)
      else
        let d = (if last (sse_data f) = LF then butlast (sse_data f) else sse_data f);
            name = (if sse_ev f \<noteq> [] then cstr (sse_ev f) else ''message'');
            rc = cb (sse_log f) (name, cstr d)
        in (sse_reset_event (f\<lparr>sse_log := sse_log f @ [(name, cstr d)]\<rparr>), rc))"

text \<open>What \<open>process_buffer\<close> does with one line, the line break and a carriage return removed.\<close>

definition sse_line :: "sse_cb \<Rightarrow> sse_fields \<Rightarrow> string \<Rightarrow> sse_fields \<times> rc" where
  "sse_line cb f line =
     (if line = [] then sse_dispatch cb f
      else if hd line \<noteq> CHR '':'' then
        (case sse_line_field line of (field, v) \<Rightarrow>
          if field = ''data'' then (f\<lparr>sse_data := sse_data f @ v @ [LF]\<rparr>, 0)
          else if field = ''event'' then (f\<lparr>sse_ev := v\<rparr>, 0)
          else if field = ''id'' then (if NUL \<notin> set v then f\<lparr>sse_id := v\<rparr> else f, 0)
          else if field = ''retry'' then (f\<lparr>retry_ms := sse_parse_retry v (retry_ms f)\<rparr>, 0)
          else (f, 0))
      else (f, 0))"

definition strip_cr :: "string \<Rightarrow> string" where
  "strip_cr line = (if line \<noteq> [] \<and> last line = CR then butlast line else line)"

text \<open>
  The loop of \<open>process_buffer\<close>: \<open>consumed\<close> are the bytes before \<open>start\<close>, in which line ends are already
  overwritten by NUL; \<open>rest\<close> are those from \<open>start\<close> on.  An error leaves the length of the buffer alone,
  so all of it stays there.
\<close>

definition blank_line_end :: "string \<Rightarrow> string" where
  "blank_line_end line = (if line \<noteq> [] \<and> last line = CR then butlast line @ [NUL] else line) @ [NUL]"

function sse_process :: "sse_cb \<Rightarrow> sse_fields \<Rightarrow> string \<Rightarrow> string \<Rightarrow> sse_parser \<times> rc" where
  "sse_process cb f consumed rest =
     (if rest = [] then (\<lparr>sse_buf = [], sse_fields = f\<rparr>, 0)
      else if LF \<notin> set rest then (\<lparr>sse_buf = rest, sse_fields = f\<rparr>, 0)
      else
        let line = takeWhile (\<lambda>c. c \<noteq> LF) rest;
            rest' = tl (dropWhile (\<lambda>c. c \<noteq> LF) rest)
        in (case sse_line cb f (strip_cr line) of (f', rc) \<Rightarrow>
              if rc \<noteq> 0 then (\<lparr>sse_buf = consumed @ blank_line_end line @ rest', sse_fields = f'\<rparr>, rc)
              else sse_process cb f' (consumed @ blank_line_end line) rest'))"
  by pat_completeness auto

lemma length_after_line: "LF \<in> set rest \<Longrightarrow> length (tl (dropWhile (\<lambda>c. c \<noteq> LF) rest)) < length rest"
proof -
  assume "LF \<in> set rest"
  then have "0 < length rest" by (cases rest) auto
  then show ?thesis using length_dropWhile_le [of "\<lambda>c. c \<noteq> LF" rest] unfolding length_tl by linarith
qed

termination sse_process
  by (relation "measure (\<lambda>(cb, f, c, rest). length rest)") (auto simp del: length_tl intro: length_after_line)

declare sse_process.simps [simp del]

definition process_buffer :: "sse_cb \<Rightarrow> sse_parser \<Rightarrow> sse_parser \<times> rc" where
  "process_buffer cb p = (if sse_buf p = [] then (p, 0) else sse_process cb (sse_fields p) [] (sse_buf p))"

definition sse_parser_init :: sse_parser where
  "sse_parser_init =
     \<lparr>sse_buf = [], sse_fields = \<lparr>sse_data = [], sse_ev = [], sse_id = [], retry_ms = -1, sse_log = []\<rparr>\<rparr>"

definition sse_parser_feed :: "sse_cb \<Rightarrow> sse_parser \<Rightarrow> string \<Rightarrow> sse_parser \<times> rc" where
  "sse_parser_feed cb p bytes =
     (if bytes = [] then (p, 0) else process_buffer cb (p\<lparr>sse_buf := sse_buf p @ bytes\<rparr>))"

text \<open>The network side: chunks are fed as they arrive, until the parser reports an error.\<close>

fun sse_feed_all :: "sse_cb \<Rightarrow> sse_parser \<Rightarrow> string list \<Rightarrow> sse_parser \<times> rc" where
  "sse_feed_all cb p [] = (p, 0)"
| "sse_feed_all cb p (c # cs) =
     (case sse_parser_feed cb p c of (p', rc) \<Rightarrow> if rc \<noteq> 0 then (p', rc) else sse_feed_all cb p' cs)"

section \<open>Lines\<close>

text \<open>The same loop without the buffer: the fields, the code, and the bytes that are not yet a line.\<close>

function sse_lines :: "sse_cb \<Rightarrow> sse_fields \<Rightarrow> string \<Rightarrow> sse_fields \<times> rc \<times> string" where
  "sse_lines cb f rest =
     (if LF \<notin> set rest then (f, 0, rest)
      else (case sse_line cb f (strip_cr (takeWhile (\<lambda>c. c \<noteq> LF) rest)) of (f', rc) \<Rightarrow>
              if rc \<noteq> 0 then (f', rc, [])
              else sse_lines cb f' (tl (dropWhile (\<lambda>c. c \<noteq> LF) rest))))"
  by pat_completeness auto
termination
  by (relation "measure (\<lambda>(cb, f, rest). length rest)") (auto simp del: length_tl intro: length_after_line)

declare sse_lines.simps [simp del]

lemma sse_process_lines:
  "case sse_lines cb f rest of (f', rc, left) \<Rightarrow>
     snd (sse_process cb f c rest) = rc \<and> sse_fields (fst (sse_process cb f c rest)) = f'
     \<and> (rc = 0 \<longrightarrow> sse_buf (fst (sse_process cb f c rest)) = left)"
proof (induction cb f c rest rule: sse_process.induct)
  case (1 cb f c rest)
  show ?case
  proof (cases "LF \<in> set rest")
    case False
    then show ?thesis by (subst sse_lines.simps, subst (1 2 3) sse_process.simps) auto
  next
    case True
    then have ne: "rest \<noteq> []" "\<not> LF \<notin> set rest" by auto
    obtain f' rc where l: "sse_line cb f (strip_cr (takeWhile (\<lambda>c. c \<noteq> LF) rest)) = (f', rc)" by fastforce
    show ?thesis
    proof (cases "rc = 0")
      case False
      then show ?thesis using True ne l by (subst sse_lines.simps, subst (1 2 3) sse_process.simps) (simp add: Let_def)
    next
      case rc: True
      have IH: "case sse_lines cb f' (tl (dropWhile (\<lambda>c. c \<noteq> LF) rest)) of (g, r, left) \<Rightarrow>
         let p = sse_process cb f' (c @ blank_line_end (takeWhile (\<lambda>c. c \<noteq> LF) rest)) (tl (dropWhile (\<lambda>c. c \<noteq> LF) rest))
         in snd p = r \<and> sse_fields (fst p) = g \<and> (r = 0 \<longrightarrow> sse_buf (fst p) = left)"
        using 1 [OF ne refl refl l [symmetric]] rc by (simp add: Let_def)
      have e1: "sse_lines cb f rest = sse_lines cb f' (tl (dropWhile (\<lambda>c. c \<noteq> LF) rest))"
        using True l rc by (subst sse_lines.simps) simp
      have e2: "sse_process cb f c rest
          = sse_process cb f' (c @ blank_line_end (takeWhile (\<lambda>c. c \<noteq> LF) rest)) (tl (dropWhile (\<lambda>c. c \<noteq> LF) rest))"
        using ne l rc by (subst sse_process.simps) (simp add: Let_def)
      show ?thesis using IH unfolding e1 e2 Let_def .
    qed
  qed
qed

lemma line_append:
  assumes "LF \<in> set x"
  shows "takeWhile (\<lambda>c. c \<noteq> LF) (x @ y) = takeWhile (\<lambda>c. c \<noteq> LF) x"
    "tl (dropWhile (\<lambda>c. c \<noteq> LF) (x @ y)) = tl (dropWhile (\<lambda>c. c \<noteq> LF) x) @ y"
proof -
  show "takeWhile (\<lambda>c. c \<noteq> LF) (x @ y) = takeWhile (\<lambda>c. c \<noteq> LF) x"
    using assms by (rule takeWhile_append1) simp
  have "dropWhile (\<lambda>c. c \<noteq> LF) (x @ y) = dropWhile (\<lambda>c. c \<noteq> LF) x @ y"
    using assms by (rule dropWhile_append1) simp
  moreover have "dropWhile (\<lambda>c. c \<noteq> LF) x \<noteq> []" using assms by (simp add: dropWhile_eq_Nil_conv)
  ultimately show "tl (dropWhile (\<lambda>c. c \<noteq> LF) (x @ y)) = tl (dropWhile (\<lambda>c. c \<noteq> LF) x) @ y"
    by (cases "dropWhile (\<lambda>c. c \<noteq> LF) x") auto
qed

lemma sse_lines_append:
  "sse_lines cb f (x @ y) =
     (case sse_lines cb f x of (f', rc, left) \<Rightarrow> if rc \<noteq> 0 then (f', rc, []) else sse_lines cb f' (left @ y))"
proof (induction cb f x rule: sse_lines.induct)
  case (1 cb f x)
  show ?case
  proof (cases "LF \<in> set x")
    case False
    then show ?thesis by (subst (2) sse_lines.simps) simp
  next
    case True
    obtain f' rc where l: "sse_line cb f (strip_cr (takeWhile (\<lambda>c. c \<noteq> LF) x)) = (f', rc)" by fastforce
    show ?thesis
    proof (cases "rc = 0")
      case False
      then show ?thesis
        using True l line_append [OF True] by (subst (1 2) sse_lines.simps) simp
    next
      case rc: True
      have IH: "sse_lines cb f' (tl (dropWhile (\<lambda>c. c \<noteq> LF) x) @ y) =
         (case sse_lines cb f' (tl (dropWhile (\<lambda>c. c \<noteq> LF) x)) of (f'', rc, left) \<Rightarrow>
            if rc \<noteq> 0 then (f'', rc, []) else sse_lines cb f'' (left @ y))"
        using 1 [OF _ l [symmetric]] True rc by simp
      have "sse_lines cb f (x @ y) = sse_lines cb f' (tl (dropWhile (\<lambda>c. c \<noteq> LF) x) @ y)"
        using True l rc line_append [OF True] by (subst sse_lines.simps) simp
      moreover have "sse_lines cb f x = sse_lines cb f' (tl (dropWhile (\<lambda>c. c \<noteq> LF) x))"
        using True l rc by (subst sse_lines.simps) simp
      ultimately show ?thesis using IH by simp
    qed
  qed
qed

definition feed_fields :: "sse_cb \<Rightarrow> sse_parser \<Rightarrow> string \<Rightarrow> sse_fields \<times> rc \<times> string" where
  "feed_fields cb p bytes = sse_lines cb (sse_fields p) (sse_buf p @ bytes)"

text \<open>Between calls that succeed the buffer holds no complete line.\<close>

definition sse_inv :: "sse_parser \<Rightarrow> bool" where
  "sse_inv p = (LF \<notin> set (sse_buf p))"

lemma sse_lines_left: "sse_lines cb f x = (f', rc, left) \<Longrightarrow> LF \<notin> set left"
proof (induction cb f x rule: sse_lines.induct)
  case (1 cb f x)
  obtain g r where l: "sse_line cb f (strip_cr (takeWhile (\<lambda>c. c \<noteq> LF) x)) = (g, r)" by fastforce
  show ?case
    using 1(2) 1(1) [OF _ l [symmetric]] l by (subst (asm) sse_lines.simps) (auto split: if_splits)
qed

lemma sse_parser_feed_lines:
  assumes "sse_inv p"
  shows "case feed_fields cb p bytes of (f', rc, left) \<Rightarrow>
     snd (sse_parser_feed cb p bytes) = rc \<and> sse_fields (fst (sse_parser_feed cb p bytes)) = f'
     \<and> (rc = 0 \<longrightarrow> fst (sse_parser_feed cb p bytes) = \<lparr>sse_buf = left, sse_fields = f'\<rparr>)"
proof (cases "bytes = []")
  case True
  then have "feed_fields cb p bytes = (sse_fields p, 0, sse_buf p)"
    using assms by (simp add: feed_fields_def sse_inv_def sse_lines.simps)
  then show ?thesis using True by (simp add: sse_parser_feed_def)
next
  case False
  then have "sse_parser_feed cb p bytes = sse_process cb (sse_fields p) [] (sse_buf p @ bytes)"
    by (simp add: sse_parser_feed_def process_buffer_def)
  moreover obtain q r where q: "sse_process cb (sse_fields p) [] (sse_buf p @ bytes) = (q, r)" by fastforce
  ultimately show ?thesis
    using sse_process_lines [where cb = cb and f = "sse_fields p" and rest = "sse_buf p @ bytes" and c = "[]"]
    by (cases q) (auto simp: feed_fields_def split: prod.splits)
qed

lemma sse_feed_all_lines:
  "sse_inv p \<Longrightarrow>
     (case feed_fields cb p (concat cs) of (f', rc, left) \<Rightarrow>
        snd (sse_feed_all cb p cs) = rc \<and> sse_fields (fst (sse_feed_all cb p cs)) = f'
        \<and> (rc = 0 \<longrightarrow> fst (sse_feed_all cb p cs) = \<lparr>sse_buf = left, sse_fields = f'\<rparr>))"
proof (induction cs arbitrary: p)
  case Nil
  then show ?case by (simp add: feed_fields_def sse_inv_def sse_lines.simps)
next
  case (Cons c cs)
  obtain g r left where fl: "feed_fields cb p c = (g, r, left)" by (metis prod_cases3)
  have fd: "snd (sse_parser_feed cb p c) = r" "sse_fields (fst (sse_parser_feed cb p c)) = g"
    "r = 0 \<Longrightarrow> fst (sse_parser_feed cb p c) = \<lparr>sse_buf = left, sse_fields = g\<rparr>"
    using sse_parser_feed_lines [OF Cons.prems, of cb c] fl by auto
  have app: "feed_fields cb p (concat (c # cs))
      = (if r \<noteq> 0 then (g, r, []) else sse_lines cb g (left @ concat cs))"
    using sse_lines_append [of cb "sse_fields p" "sse_buf p @ c" "concat cs"] fl by (simp add: feed_fields_def)
  show ?case
  proof (cases "r = 0")
    case False
    then show ?thesis using app fd by (cases "sse_parser_feed cb p c") auto
  next
    case True
    let ?q = "\<lparr>sse_buf = left, sse_fields = g\<rparr>"
    have q: "sse_parser_feed cb p c = (?q, 0)"
      using fd True by (cases "sse_parser_feed cb p c") auto
    have "sse_inv ?q" using sse_lines_left fl by (auto simp: sse_inv_def feed_fields_def)
    from Cons.IH [OF this] show ?thesis using app True q by (simp add: feed_fields_def)
  qed
qed

text \<open>
  C35. The parser does not depend on how the network cuts the stream: feeding the chunks one by one
  gives the same code and delivers the same events as feeding all bytes at once, and when no
  callback fails it ends in the same state.
\<close>

theorem sse_chunking:
  assumes "sse_inv p"
  shows "snd (sse_feed_all cb p cs) = snd (sse_parser_feed cb p (concat cs))
       \<and> sse_fields (fst (sse_feed_all cb p cs)) = sse_fields (fst (sse_parser_feed cb p (concat cs)))
       \<and> (snd (sse_feed_all cb p cs) = 0 \<longrightarrow>
            fst (sse_feed_all cb p cs) = fst (sse_parser_feed cb p (concat cs)) \<and> sse_inv (fst (sse_feed_all cb p cs)))"
proof -
  obtain g r left where fl: "feed_fields cb p (concat cs) = (g, r, left)" by (metis prod_cases3)
  have "LF \<notin> set left" using sse_lines_left fl by (auto simp: feed_fields_def)
  then show ?thesis
    using sse_feed_all_lines [OF assms, of cb cs] sse_parser_feed_lines [OF assms, of cb "concat cs"] fl
    by (simp add: sse_inv_def)
qed

theorem sse_chunking_witness:
  "fst (sse_feed_all (\<lambda>_ _. 0) sse_parser_init [''da'', ''ta: x'', [LF], [LF]])
   = fst (sse_parser_feed (\<lambda>_ _. 0) sse_parser_init (''data: x'' @ [LF, LF]))"
proof -
  have i: "sse_inv sse_parser_init" by (simp add: sse_inv_def sse_parser_init_def)
  have "snd (sse_feed_all (\<lambda>_ _. 0) sse_parser_init [''da'', ''ta: x'', [LF], [LF]]) = 0" by code_simp
  then show ?thesis
    using sse_chunking [OF i, of "\<lambda>_ _. 0" "[''da'', ''ta: x'', [LF], [LF]]"] by simp
qed

section \<open>Events\<close>

text \<open>An event as a server sends it, and the conditions under which its text carries it.\<close>

definition sse_print :: "string \<Rightarrow> string list \<Rightarrow> string" where
  "sse_print name ls =
     (if name = ''message'' then [] else ''event: '' @ name @ [LF])
       @ concat (map (\<lambda>l. ''data: '' @ l @ [LF]) ls) @ [LF]"

definition plain_text :: "string \<Rightarrow> bool" where
  "plain_text s = (LF \<notin> set s \<and> NUL \<notin> set s \<and> (s = [] \<or> last s \<noteq> CR))"

definition event_ok :: "string \<times> string list \<Rightarrow> bool" where
  "event_ok e = (plain_text (fst e) \<and> fst e \<noteq> [] \<and> snd e \<noteq> [] \<and> list_all plain_text (snd e))"

fun join_lf :: "string list \<Rightarrow> string" where
  "join_lf [] = []"
| "join_lf [l] = l"
| "join_lf (l # ls) = l @ LF # join_lf ls"

lemma take_line:
  "LF \<notin> set l \<Longrightarrow> takeWhile (\<lambda>c. c \<noteq> LF) (l @ LF # rest) = l"
  "LF \<notin> set l \<Longrightarrow> dropWhile (\<lambda>c. c \<noteq> LF) (l @ LF # rest) = LF # rest"
  by (induction l) auto

lemma sse_lines_line:
  assumes "plain_text l" "sse_line cb f l = (f', 0)"
  shows "sse_lines cb f (l @ LF # rest) = sse_lines cb f' rest"
proof -
  have "takeWhile (\<lambda>c. c \<noteq> LF) (l @ LF # rest) = l" "tl (dropWhile (\<lambda>c. c \<noteq> LF) (l @ LF # rest)) = rest"
    using assms(1) by (auto simp: plain_text_def take_line)
  moreover have "strip_cr l = l" using assms(1) by (auto simp: strip_cr_def plain_text_def)
  ultimately show ?thesis using assms(2) by (subst sse_lines.simps) simp
qed

lemma sse_line_data: "sse_line cb f (''data: '' @ l) = (f\<lparr>sse_data := sse_data f @ l @ [LF]\<rparr>, 0)"
  by (simp add: sse_line_def sse_line_field_def)

lemma sse_line_event: "sse_line cb f (''event: '' @ l) = (f\<lparr>sse_ev := l\<rparr>, 0)"
  by (simp add: sse_line_def sse_line_field_def)

lemma plain_text_prefix: "plain_text l \<Longrightarrow> plain_text (''data: '' @ l)" "plain_text l \<Longrightarrow> plain_text (''event: '' @ l)"
  by (auto simp: plain_text_def)

lemma sse_lines_data:
  "list_all plain_text ls \<Longrightarrow>
     sse_lines cb f (concat (map (\<lambda>l. ''data: '' @ l @ [LF]) ls) @ rest)
   = sse_lines cb (f\<lparr>sse_data := sse_data f @ concat (map (\<lambda>l. l @ [LF]) ls)\<rparr>) rest"
proof (induction ls arbitrary: f)
  case (Cons l ls)
  have "sse_lines cb f ((''data: '' @ l) @ LF # concat (map (\<lambda>l. ''data: '' @ l @ [LF]) ls) @ rest)
      = sse_lines cb (f\<lparr>sse_data := sse_data f @ l @ [LF]\<rparr>) (concat (map (\<lambda>l. ''data: '' @ l @ [LF]) ls) @ rest)"
    using Cons.prems by (intro sse_lines_line sse_line_data plain_text_prefix) simp
  then show ?case using Cons by simp
qed simp

lemma butlast_unlines: "ls \<noteq> [] \<Longrightarrow> concat (map (\<lambda>l. l @ [LF]) ls) = join_lf ls @ [LF]"
  by (induction ls rule: join_lf.induct) auto

lemma join_lf_plain: "list_all plain_text ls \<Longrightarrow> NUL \<notin> set (join_lf ls)"
  by (induction ls rule: join_lf.induct) (auto simp: plain_text_def)

lemma sse_lines_print:
  assumes "event_ok (name, ls)" "sse_data f = []" "sse_ev f = []" "cb (sse_log f) (name, join_lf ls) = 0"
  shows "sse_lines cb f (sse_print name ls @ rest)
       = sse_lines cb (f\<lparr>sse_log := sse_log f @ [(name, join_lf ls)]\<rparr>) rest"
proof -
  let ?data = "concat (map (\<lambda>l. ''data: '' @ l @ [LF]) ls)"
  define f1 where "f1 = (if name = ''message'' then f else f\<lparr>sse_ev := name\<rparr>)"
  define f2 where "f2 = f1\<lparr>sse_data := join_lf ls @ [LF]\<rparr>"
  have ok: "plain_text name" "name \<noteq> []" "ls \<noteq> []" "list_all plain_text ls" using assms(1) by (auto simp: event_ok_def)
  have "sse_lines cb f (sse_print name ls @ rest) = sse_lines cb f1 (?data @ LF # rest)"
  proof (cases "name = ''message''")
    case False
    have "sse_lines cb f ((''event: '' @ name) @ LF # ?data @ LF # rest) = sse_lines cb f1 (?data @ LF # rest)"
      using sse_lines_line [OF plain_text_prefix(2) [OF ok(1)] sse_line_event] False by (simp add: f1_def)
    then show ?thesis using False by (simp add: sse_print_def)
  qed (simp add: sse_print_def f1_def)
  also have "\<dots> = sse_lines cb f2 ([] @ LF # rest)"
    using sse_lines_data [OF ok(4), of cb f1 "LF # rest"] butlast_unlines [OF ok(3)] assms(2)
    by (simp add: f2_def f1_def split: if_splits)
  also have "\<dots> = sse_lines cb (f\<lparr>sse_log := sse_log f @ [(name, join_lf ls)]\<rparr>) rest"
  proof (rule sse_lines_line)
    have "cstr name = name" "cstr (join_lf ls) = join_lf ls"
      using ok join_lf_plain [OF ok(4)] by (auto simp: cstr_id plain_text_def)
    then show "sse_line cb f2 [] = (f\<lparr>sse_log := sse_log f @ [(name, join_lf ls)]\<rparr>, 0)"
      using assms(2,3,4) ok(2) by (auto simp: sse_line_def sse_dispatch_def sse_reset_event_def f2_def f1_def Let_def)
  qed (simp add: plain_text_def)
  finally show ?thesis .
qed

lemma sse_lines_prints:
  "list_all event_ok es \<Longrightarrow> sse_data f = [] \<Longrightarrow> sse_ev f = [] \<Longrightarrow>
     sse_lines (\<lambda>_ _. 0) f (concat (map (\<lambda>(n, ls). sse_print n ls) es))
   = (f\<lparr>sse_log := sse_log f @ map (\<lambda>(n, ls). (n, join_lf ls)) es\<rparr>, 0, [])"
proof (induction es arbitrary: f)
  case Nil
  then show ?case by (simp add: sse_lines.simps)
next
  case (Cons e es)
  obtain n ls where e: "e = (n, ls)" by (cases e)
  show ?case
    using Cons e sse_lines_print [of n ls f "\<lambda>_ _. 0"] by simp
qed

text \<open>
  Events survive the wire: for events with a non-empty name and at least one line of data, free of
  line breaks and NUL, the bytes a server prints for them, however they are cut into chunks, deliver
  exactly these events, in order, each with its data lines joined by line feeds, and
  leave nothing behind in the parser.
\<close>

theorem sse_events_roundtrip:
  assumes "list_all event_ok es" "concat cs = concat (map (\<lambda>(n, ls). sse_print n ls) es)"
  shows "snd (sse_feed_all (\<lambda>_ _. 0) sse_parser_init cs) = 0
       \<and> sse_log (sse_fields (fst (sse_feed_all (\<lambda>_ _. 0) sse_parser_init cs))) = map (\<lambda>(n, ls). (n, join_lf ls)) es
       \<and> sse_buf (fst (sse_feed_all (\<lambda>_ _. 0) sse_parser_init cs)) = []"
proof -
  let ?f = "sse_fields sse_parser_init"
  have i: "sse_inv sse_parser_init" by (simp add: sse_inv_def sse_parser_init_def)
  have "feed_fields (\<lambda>_ _. 0) sse_parser_init (concat cs)
      = (?f\<lparr>sse_log := map (\<lambda>(n, ls). (n, join_lf ls)) es\<rparr>, 0, [])"
    using sse_lines_prints [of es ?f] assms by (simp add: feed_fields_def sse_parser_init_def)
  then show ?thesis using sse_feed_all_lines [OF i, of "\<lambda>_ _. 0" cs] by simp
qed

theorem sse_events_roundtrip_witness:
  "sse_log (sse_fields (fst (sse_feed_all (\<lambda>_ _. 0) sse_parser_init
     [sse_print ''delta'' [''a'', ''b''], sse_print ''message'' [''c'']])))
   = [(''delta'', ''a'' @ LF # ''b''), (''message'', ''c'')]"
  using sse_events_roundtrip [of "[(''delta'', [''a'', ''b'']), (''message'', [''c''])]"
      "[sse_print ''delta'' [''a'', ''b''], sse_print ''message'' [''c'']]"]
  by (simp add: event_ok_def plain_text_def)

section \<open>The retry field\<close>

fun dec_value :: "int \<Rightarrow> string \<Rightarrow> int" where
  "dec_value acc [] = acc"
| "dec_value acc (c # cs) = dec_value (acc * 10 + (int (of_char c) - 48)) cs"

lemma dec_value_mono: "0 \<le> acc \<Longrightarrow> list_all is_digit s \<Longrightarrow> acc \<le> dec_value acc s"
proof (induction acc s rule: dec_value.induct)
  case (2 acc c cs)
  have d: "0 \<le> int (of_char c) - 48" using 2(3) by (auto simp: is_digit_def)
  have "acc * 10 + (int (of_char c) - 48) \<le> dec_value (acc * 10 + (int (of_char c) - 48)) cs"
    using 2 d by simp
  then show ?case using d 2(2) by simp
qed simp

lemma sse_retry_loop_spec:
  "0 \<le> acc \<Longrightarrow> acc \<le> LONG_MAX \<Longrightarrow>
     sse_retry_loop acc s = (if list_all is_digit s \<and> dec_value acc s \<le> LONG_MAX then Some (dec_value acc s) else None)"
proof (induction acc s rule: sse_retry_loop.induct)
  case (2 acc c cs)
  let ?d = "int (of_char c) - 48"
  show ?case
  proof (cases "is_digit c")
    case True
    then have d: "0 \<le> ?d" "?d \<le> 9" by (auto simp: is_digit_def)
    have test: "acc > (LONG_MAX - ?d) div 10 \<longleftrightarrow> acc * 10 + ?d > LONG_MAX" by linarith
    show ?thesis
    proof (cases "acc * 10 + ?d > LONG_MAX")
      case True
      then have "list_all is_digit cs \<Longrightarrow> dec_value (acc * 10 + ?d) cs > LONG_MAX"
        using dec_value_mono [of "acc * 10 + ?d" cs] 2(2) d by simp
      then show ?thesis using True test \<open>is_digit c\<close> by (auto simp: Let_def)
    next
      case False
      then show ?thesis using 2 test d \<open>is_digit c\<close> by (simp add: Let_def)
    qed
  qed simp
qed simp

text \<open>
  The \<open>retry\<close> field is taken exactly when it is a non-empty string of decimal digits whose value fits
  in a \<open>long\<close>, and then with that value; the accumulation never overflows, and anything else leaves
  the retry time as it was.
\<close>

theorem sse_retry_spec:
  "sse_parse_retry v out =
     (if v \<noteq> [] \<and> list_all is_digit v \<and> dec_value 0 v \<le> LONG_MAX then dec_value 0 v else out)"
  using sse_retry_loop_spec [of 0 v] by (auto simp: sse_parse_retry_def LONG_MAX_def)

text \<open>
  When a callback fails, the consumed bytes stay in the buffer with their line ends overwritten:
  a caller that goes on feeding gets the old lines again, glued to the next one.
\<close>

lemma sse_error_keeps_consumed:
  "sse_parser_feed (\<lambda>_ _. 1) sse_parser_init (''data: x'' @ [LF, LF])
   = (\<lparr>sse_buf = ''data: x'' @ [NUL, NUL],
       sse_fields = \<lparr>sse_data = [], sse_ev = [], sse_id = [], retry_ms = -1, sse_log = [(''message'', ''x'')]\<rparr>\<rparr>, 1)"
  by code_simp

end
