(* ===== verification/Tokenizer.thy ===== *)
theory Tokenizer
  imports Utf8
begin

text \<open>
  The token estimate of \<open>src/agent/tokenizer.c\<close>, with the code-point classes of \<open>src/util/utf8.c\<close> that
  it uses.  The counters are \<open>int\<close>; the bound on the estimate shows when they cannot overflow.  \<open>None\<close>
  is undefined behaviour (a read past the terminator).
\<close>

section \<open>Model\<close>

datatype char_class =
    CHAR_ASCII_LOWER | CHAR_ASCII_UPPER | CHAR_ASCII_DIGIT | CHAR_ASCII_PUNCT | CHAR_ASCII_SPACE
  | CHAR_ASCII_NEWLINE | CHAR_CJK_IDEOGRAPH | CHAR_CJK_IDEOGRAPH_EXT | CHAR_HIRAGANA | CHAR_KATAKANA
  | CHAR_HANGUL | CHAR_EMOJI_OTHER | CHAR_LATIN_EXTENDED | CHAR_OTHER

definition in_ranges :: "int \<Rightarrow> (int \<times> int) list \<Rightarrow> bool" where
  "in_ranges cp rs = list_ex (\<lambda>(a, b). a \<le> cp \<and> cp \<le> b) rs"

definition utf8_is_cjk_cp :: "int \<Rightarrow> bool" where
  "utf8_is_cjk_cp cp = in_ranges cp
     [(0x4E00, 0x9FFF), (0x3400, 0x4DBF), (0xF900, 0xFAFF), (0x20000, 0x2EBEF), (0x30000, 0x3134F),
      (0x2E80, 0x2EFF), (0x2F00, 0x2FDF), (0x3100, 0x312F), (0x3040, 0x309F), (0x30A0, 0x30FF),
      (0xAC00, 0xD7AF), (0x1100, 0x11FF), (0x3130, 0x318F), (0xFF01, 0xFFEF)]"

definition utf8_is_hiragana_cp :: "int \<Rightarrow> bool" where
  "utf8_is_hiragana_cp cp = in_ranges cp [(0x3040, 0x309F)]"

definition utf8_is_katakana_cp :: "int \<Rightarrow> bool" where
  "utf8_is_katakana_cp cp = in_ranges cp [(0x30A0, 0x30FF)]"

definition utf8_is_hangul_cp :: "int \<Rightarrow> bool" where
  "utf8_is_hangul_cp cp = in_ranges cp [(0xAC00, 0xD7AF), (0x1100, 0x11FF), (0x3130, 0x318F)]"

definition utf8_is_latin_extended_cp :: "int \<Rightarrow> bool" where
  "utf8_is_latin_extended_cp cp = in_ranges cp [(0x00C0, 0x024F), (0x1E00, 0x1EFF)]"

definition is_emoji_cp :: "int \<Rightarrow> bool" where
  "is_emoji_cp cp = in_ranges cp
     [(0x1F600, 0x1F64F), (0x1F300, 0x1F5FF), (0x1F680, 0x1F6FF), (0x1F900, 0x1F9FF), (0x1FA00, 0x1FA6F),
      (0x1FA70, 0x1FAFF), (0x2600, 0x26FF), (0x2700, 0x27BF), (0xFE00, 0xFE0F), (0x1F000, 0x1F02F),
      (0x1F0A0, 0x1F0FF), (0x200D, 0x200D), (0xFE0F, 0xFE0F)]"

definition classify_ascii :: "nat \<Rightarrow> char_class" where
  "classify_ascii b0 =
     (if 97 \<le> b0 \<and> b0 \<le> 122 then CHAR_ASCII_LOWER
      else if 65 \<le> b0 \<and> b0 \<le> 90 then CHAR_ASCII_UPPER
      else if 48 \<le> b0 \<and> b0 \<le> 57 then CHAR_ASCII_DIGIT
      else if b0 = 32 \<or> b0 = 9 then CHAR_ASCII_SPACE
      else if b0 = 10 \<or> b0 = 13 then CHAR_ASCII_NEWLINE
      else if b0 = 95 \<or> b0 = 39 then CHAR_ASCII_LOWER
      else CHAR_ASCII_PUNCT)"

definition classify_cp :: "int \<Rightarrow> char_class" where
  "classify_cp cp =
     (if cp = 0 then CHAR_OTHER
      else if utf8_is_cjk_cp cp then CHAR_CJK_IDEOGRAPH_EXT
      else if utf8_is_hiragana_cp cp then CHAR_HIRAGANA
      else if utf8_is_katakana_cp cp then CHAR_KATAKANA
      else if utf8_is_hangul_cp cp then CHAR_HANGUL
      else if is_emoji_cp cp then CHAR_EMOJI_OTHER
      else if utf8_is_latin_extended_cp cp then CHAR_LATIN_EXTENDED
      else CHAR_OTHER)"

text \<open>\<open>classify_utf8\<close> yields the class and the number of bytes by which \<open>*p\<close> advances.\<close>

definition classify_utf8 :: "string \<Rightarrow> (char_class \<times> nat) option" where
  "classify_utf8 p =
     (let b0 = byte_at p 0
      in if b0 < 0x80 then Some (classify_ascii b0, 1)
         else (case utf8_decode_codepoint p (length p) of
             None \<Rightarrow> None
           | Some None \<Rightarrow> Some (CHAR_OTHER, 1)
           | Some (Some (cp, cp_len)) \<Rightarrow> Some (classify_cp cp, cp_len)))"

definition flush_word :: "int \<Rightarrow> int" where
  "flush_word word_chars = (if word_chars > 0 then (word_chars + 3) div 4 else 0)"

text \<open>One turn of the loop: \<open>tokens\<close> and \<open>word_chars\<close>; \<open>consecutive_newlines\<close> never changes the result.\<close>

definition token_step :: "char_class \<Rightarrow> int \<times> int \<Rightarrow> int \<times> int" where
  "token_step cc st = (case st of (tokens, word_chars) \<Rightarrow>
     (case cc of
        CHAR_ASCII_LOWER \<Rightarrow> (tokens, word_chars + 1)
      | CHAR_ASCII_UPPER \<Rightarrow> (tokens, word_chars + 1)
      | CHAR_ASCII_DIGIT \<Rightarrow> (tokens, word_chars + 1)
      | CHAR_ASCII_SPACE \<Rightarrow> (tokens, if word_chars > 0 then word_chars + 1 else word_chars)
      | CHAR_ASCII_PUNCT \<Rightarrow> (tokens + flush_word word_chars + 1, 0)
      | CHAR_ASCII_NEWLINE \<Rightarrow> (tokens + flush_word word_chars + 1, 0)
      | CHAR_EMOJI_OTHER \<Rightarrow> (tokens + flush_word word_chars + 3, 0)
      | _ \<Rightarrow> (tokens + flush_word word_chars + 2, 0)))"

fun token_loop :: "nat \<Rightarrow> string \<Rightarrow> int \<times> int \<Rightarrow> (int \<times> int) option" where
  "token_loop fuel [] st = Some st"
| "token_loop 0 (c # p) st = None"
| "token_loop (Suc fuel) (c # p) st =
     (case classify_utf8 (c # p) of
        None \<Rightarrow> None
      | Some (cc, k) \<Rightarrow> token_loop fuel (drop k (c # p)) (token_step cc st))"

text \<open>Each turn consumes a byte, so the length of the text is enough fuel.\<close>

definition tokenizer_estimate_tokens :: "string \<Rightarrow> int option" where
  "tokenizer_estimate_tokens txt =
     (if txt = [] then Some 0
      else (case token_loop (length txt) txt (0, 0) of
          None \<Rightarrow> None
        | Some (tokens, word_chars) \<Rightarrow>
            let tokens = tokens + flush_word word_chars in Some (if tokens = 0 then 1 else tokens)))"

section \<open>The estimate is safe and bounded\<close>

lemma classify_utf8_safe:
  assumes "NUL \<notin> set (c # p)"
  obtains cc k where "classify_utf8 (c # p) = Some (cc, k)" "1 \<le> k" "k \<le> length (c # p)"
    "snd (token_step cc (0, 0)) \<le> 1" "cc = CHAR_EMOJI_OTHER \<Longrightarrow> 2 \<le> k"
proof -
  have st: "snd (token_step cc (0, 0)) \<le> 1" for cc by (cases cc) (auto simp: token_step_def)
  show ?thesis
  proof (cases "byte_at (c # p) 0 < 0x80")
    case True
    have "classify_ascii b \<noteq> CHAR_EMOJI_OTHER" for b by (simp add: classify_ascii_def)
    then show ?thesis using True st by (intro that [of _ 1]) (auto simp: classify_utf8_def Let_def)
  next
    case False
    have ne: "c # p \<noteq> []" "hd (c # p) \<noteq> NUL" using assms by auto
    show ?thesis
    proof (rule utf8_decode_codepoint_safe [OF ne])
      assume "utf8_decode_codepoint (c # p) (length (c # p)) = Some None"
      then show thesis using False st by (intro that [of CHAR_OTHER 1]) (auto simp: classify_utf8_def Let_def)
    next
      fix cp k
      assume "utf8_decode_codepoint (c # p) (length (c # p)) = Some (Some (cp, k))" "1 \<le> k" "k \<le> length (c # p)"
        "128 \<le> byte_at (c # p) 0 \<Longrightarrow> 2 \<le> k"
      then show thesis using False st by (intro that [of "classify_cp cp" k]) (auto simp: classify_utf8_def Let_def)
    qed
  qed
qed

text \<open>Tokens so far plus the pending word never exceed two per byte, and are positive once a character other than white space was seen.\<close>

lemma token_step_bound:
  assumes "0 \<le> t" "0 \<le> w" "t + w \<le> 2 * n" "1 \<le> k" "cc = CHAR_EMOJI_OTHER \<Longrightarrow> 2 \<le> k"
    and "token_step cc (t, w) = (t', w')"
  shows "0 \<le> t' \<and> 0 \<le> w' \<and> t' + w' \<le> 2 * (n + k)"
proof -
  have f: "0 \<le> flush_word w" "flush_word w \<le> w" using assms(2) by (auto simp: flush_word_def)
  show ?thesis using assms f by (cases cc) (auto simp: token_step_def split: if_splits)
qed

lemma token_loop_bound:
  "NUL \<notin> set p \<Longrightarrow> length p \<le> fuel \<Longrightarrow> 0 \<le> fst st \<Longrightarrow> 0 \<le> snd st \<Longrightarrow> fst st + snd st \<le> 2 * n \<Longrightarrow>
   \<exists>t w. token_loop fuel p st = Some (t, w) \<and> 0 \<le> t \<and> 0 \<le> w \<and> t + w \<le> 2 * (n + int (length p))"
proof (induction fuel p st arbitrary: n rule: token_loop.induct)
  case (1 fuel st)
  then show ?case by (cases st) auto
next
  case (3 fuel c p st)
  obtain cc k where ck: "classify_utf8 (c # p) = Some (cc, k)" "1 \<le> k" "k \<le> length (c # p)"
    "cc = CHAR_EMOJI_OTHER \<Longrightarrow> 2 \<le> k"
    using classify_utf8_safe [OF 3(2)] by metis
  obtain t w where tw: "token_step cc st = (t, w)" by fastforce
  have b: "0 \<le> t \<and> 0 \<le> w \<and> t + w \<le> 2 * (n + int k)"
    using token_step_bound [of "fst st" "snd st" n "int k" cc t w] 3(4-6) ck tw by auto
  have nul: "NUL \<notin> set (drop k (c # p))" using 3(2) by (meson in_set_dropD)
  obtain t' w' where r: "token_loop fuel (drop k (c # p)) (t, w) = Some (t', w')"
    "0 \<le> t'" "0 \<le> w'" "t' + w' \<le> 2 * (n + int k + int (length (drop k (c # p))))"
    using 3(1) [OF ck(1) refl nul, of "n + int k"] 3(3) ck(2) b tw by fastforce
  have len: "int k + int (length (drop k (c # p))) = int (length (c # p))" using ck(3) by simp
  have "token_loop (Suc fuel) (c # p) st = Some (t', w')" using ck(1) tw r(1) by simp
  moreover have "t' + w' \<le> 2 * (n + int (length (c # p)))" using r(4) unfolding add.assoc len .
  ultimately show ?case using r(2,3) by blast
qed auto

text \<open>
  The token estimate never reads past its text, always ends, is zero exactly for the empty text, and
  is at most two per byte; so the counters stay in an \<open>int\<close> for every text below 2^30 bytes.
\<close>

theorem tokenizer_estimate_bounds:
  assumes "NUL \<notin> set s"
  shows "\<exists>n. tokenizer_estimate_tokens s = Some n \<and> 0 \<le> n \<and> n \<le> 2 * int (length s) \<and> (n = 0 \<longleftrightarrow> s = [])"
proof (cases "s = []")
  case True
  then show ?thesis by (simp add: tokenizer_estimate_tokens_def)
next
  case False
  obtain t w where r: "token_loop (length s) s (0, 0) = Some (t, w)" "0 \<le> t" "0 \<le> w" "t + w \<le> 2 * int (length s)"
    using token_loop_bound [of s "length s" "(0, 0)" 0] assms by auto
  have f: "0 \<le> flush_word w" "flush_word w \<le> w" using r(3) by (auto simp: flush_word_def)
  have "1 \<le> int (length s)" using False by (cases s) auto
  then show ?thesis using False r f by (auto simp: tokenizer_estimate_tokens_def Let_def)
qed

theorem tokenizer_estimate_bounds_witness:
  "tokenizer_estimate_tokens ''hello, world'' = Some 5 \<and> (5 :: int) \<le> 2 * int (length ''hello, world'')"
proof -
  have v: "tokenizer_estimate_tokens ''hello, world'' = Some 5" by code_simp
  show ?thesis using tokenizer_estimate_bounds [of "''hello, world''"] v by simp
qed

end
