(* ===== verification/Compress.thy ===== *)
theory Compress
  imports Tokenizer "HOL-Library.Sublist"
begin

text \<open>
  The conversation context (\<open>src/agent/context.c\<close>) and its compression (\<open>src/agent/compress.c\<close>): the
  sliding window, the removal of marked ReAct cycles, key facts, and summarisation.

  The linked list of messages is a HOL list; unlinking a node removes an element.  \<open>role\<close> and \<open>content\<close> may be
  null (\<open>None\<close>).  The summariser (a model call) and the BPE encoder are parameters.  Token counts are
  mathematical integers.  An outer \<open>None\<close> is undefined behaviour: the signed overflow of
  \<open>keep_rounds * 2\<close> or \<open>%s\<close> with a null pointer.
\<close>

section \<open>Messages\<close>

record message =
  role :: "string option"
  content :: "string option"
  file_paths :: "string list"
  token_count :: int
  compressed :: bool

definition msg_list_create :: "string option \<Rightarrow> string option \<Rightarrow> int \<Rightarrow> message" where
  "msg_list_create r c n =
     \<lparr>role = Some (case r of None \<Rightarrow> [] | Some s \<Rightarrow> s), content = Some (case c of None \<Rightarrow> [] | Some s \<Rightarrow> s),
      file_paths = [], token_count = n, compressed = False\<rparr>"

fun msg_list_append :: "message list \<Rightarrow> message \<Rightarrow> message list" where
  "msg_list_append [] m = [m]"
| "msg_list_append (cur # rest) m = cur # msg_list_append rest m"

fun msg_list_count :: "message list \<Rightarrow> int" where
  "msg_list_count [] = 0"
| "msg_list_count (cur # rest) = msg_list_count rest + 1"

text \<open>
  The estimate of a C string always exists (theory \<open>Tokenizer\<close>); for a null pointer it is zero.
  \<open>tok\<close> holds the functions behind \<open>tok->encoder\<close> and \<open>tok->count\<close>.
\<close>

record tokenizer =
  tok_encoder :: "(string option \<Rightarrow> int) option"
  tok_count :: "(string option \<Rightarrow> int) option"

definition estimate :: "string option \<Rightarrow> int" where
  "estimate c = (case c of None \<Rightarrow> 0
     | Some s \<Rightarrow> (case tokenizer_estimate_tokens s of None \<Rightarrow> 0 | Some n \<Rightarrow> n))"

text \<open>The count of a text, as \<open>tokenizer_count\<close> of \<open>src/agent/tokenizer.c\<close> makes it.\<close>

definition tokenizer_count :: "tokenizer option \<Rightarrow> string option \<Rightarrow> int" where
  "tokenizer_count tok t =
     (case tok of
        None \<Rightarrow> estimate t
      | Some tk \<Rightarrow>
          (case tok_encoder tk of
             Some enc \<Rightarrow> enc t
           | None \<Rightarrow> (case tok_count tk of Some f \<Rightarrow> f t | None \<Rightarrow> estimate t)))"

definition message_tokens :: "tokenizer option \<Rightarrow> message \<Rightarrow> int" where
  "message_tokens tok m =
     (if token_count m > 0 then token_count m
      else (case tok of
          None \<Rightarrow> estimate (content m)
        | Some t \<Rightarrow>
            (case tok_encoder t of
               Some enc \<Rightarrow> enc (content m)
             | None \<Rightarrow> (case tok_count t of Some f \<Rightarrow> f (content m) | None \<Rightarrow> estimate (content m)))))"

fun context_token_count :: "message list \<Rightarrow> tokenizer option \<Rightarrow> int" where
  "context_token_count [] tok = 0"
| "context_token_count (cur # rest) tok = message_tokens tok cur + context_token_count rest tok"

text \<open>\<open>threshold\<close> is the value of \<open>(int)(max_context_tokens * summarize_threshold_ratio)\<close>.\<close>

definition context_needs_compress :: "message list \<Rightarrow> tokenizer option \<Rightarrow> int option \<Rightarrow> bool" where
  "context_needs_compress ms tok threshold =
     (case threshold of None \<Rightarrow> False | Some t \<Rightarrow> context_token_count ms tok \<ge> t)"

section \<open>Compression\<close>

definition INT_MAX :: int where
  "INT_MAX = 2 ^ 31 - 1"

type_synonym key_info = "(string \<times> string) list"

record compress_result =
  original_tokens :: int
  compressed_tokens :: int
  messages_removed :: int
  messages_summarized :: int
  preserved :: key_info

definition result_init :: compress_result where
  "result_init = \<lparr>original_tokens = 0, compressed_tokens = 0, messages_removed = 0, messages_summarized = 0, preserved = []\<rparr>"

definition key_patterns :: "string list" where
  "key_patterns = [''file_path'', ''output'', ''result'', ''path'', ''error'', ''generated'', ''downloaded'',
     ''saved'', ''created'', ''wrote'']"

definition is_system_role :: "message \<Rightarrow> bool" where
  "is_system_role m = (role m = Some ''system'' \<and> content m \<noteq> None)"

text \<open>\<open>strstr\<close>: the text before the first occurrence and the text from it on.\<close>

fun strstr :: "string \<Rightarrow> string \<Rightarrow> string \<Rightarrow> (string \<times> string) option" where
  "strstr rev_before [] key = (if key = [] then Some (rev rev_before, []) else None)"
| "strstr rev_before (c # cs) key =
     (if take (length key) (c # cs) = key then Some (rev rev_before, c # cs)
      else strstr (c # rev_before) cs key)"

definition line_around :: "string \<Rightarrow> string \<Rightarrow> string" where
  "line_around before match =
     rev (takeWhile (\<lambda>c. c \<noteq> LF) (rev before)) @ takeWhile (\<lambda>c. c \<noteq> LF) match"

definition key_info_add :: "key_info \<Rightarrow> string \<Rightarrow> string \<Rightarrow> key_info" where
  "key_info_add info key c =
     (if key \<in> set (map fst info) then info
      else (case strstr [] c key of
          None \<Rightarrow> info
        | Some (before, match) \<Rightarrow> (key, line_around before match) # info))"

fun slide :: "int \<Rightarrow> int \<Rightarrow> int \<Rightarrow> message list \<Rightarrow> message list \<times> int" where
  "slide tot removed to_preserve [] = ([], removed)"
| "slide tot removed to_preserve (cur # rest) =
     (if tot - removed > to_preserve then
        if is_system_role cur then
          (case slide tot removed to_preserve rest of (ms, r) \<Rightarrow> (cur # ms, r))
        else slide tot (removed + 1) to_preserve rest
      else (cur # rest, removed))"

definition compress_sliding_window :: "message list \<Rightarrow> int \<Rightarrow> (rc \<times> message list \<times> compress_result) option" where
  "compress_sliding_window ms keep_rounds =
     (if ms = [] \<or> keep_rounds < 0 then Some (- EINVAL, ms, result_init)
      else if keep_rounds * 2 > INT_MAX then None
      else (case slide (msg_list_count ms) 0 (keep_rounds * 2) ms of (ms', removed) \<Rightarrow>
        Some (0, ms', result_init\<lparr>original_tokens := context_token_count ms None,
                                  messages_removed := removed,
                                  compressed_tokens := context_token_count ms' None\<rparr>)))"

fun react_unlink :: "message list \<Rightarrow> message list \<times> int" where
  "react_unlink [] = ([], 0)"
| "react_unlink (cur # rest) =
     (case react_unlink rest of (ms, n) \<Rightarrow> if compressed cur then (ms, n + 1) else (cur # ms, n))"

definition compress_react_trace :: "message list \<Rightarrow> compress_result \<Rightarrow> rc \<times> message list \<times> compress_result" where
  "compress_react_trace ms result =
     (case react_unlink ms of (ms', removed) \<Rightarrow> (0, ms', result\<lparr>messages_removed := removed\<rparr>))"

definition mark :: "message \<Rightarrow> message" where
  "mark m = m\<lparr>compressed := True\<rparr>"

definition react_triple :: "message \<Rightarrow> message \<Rightarrow> message \<Rightarrow> bool" where
  "react_triple a b c = (role a = Some ''assistant'' \<and> role b = Some ''assistant'' \<and> role c = Some ''user'')"

fun compress_detect_react_cycles :: "message list \<Rightarrow> message list \<times> int" where
  "compress_detect_react_cycles (a # b # c # rest) =
     (if compressed a \<or> compressed b \<or> compressed c then
        (case compress_detect_react_cycles (b # c # rest) of (ms, n) \<Rightarrow> (a # ms, n))
      else if react_triple a b c then
        (case compress_detect_react_cycles rest of (ms, n) \<Rightarrow> (mark a # mark b # mark c # ms, n + 3))
      else (case compress_detect_react_cycles (b # c # rest) of (ms, n) \<Rightarrow> (a # ms, n)))"
| "compress_detect_react_cycles ms = (ms, 0)"

definition extract_key_info :: "message list \<Rightarrow> key_info" where
  "extract_key_info ms = foldl (\<lambda>info m. case content m of
      None \<Rightarrow> info | Some c \<Rightarrow> foldl (\<lambda>info k. key_info_add info k c) info key_patterns) [] ms"

text \<open>The text given to the summariser; \<open>None\<close> when a null string would be printed.\<close>

fun summary_text :: "message list \<Rightarrow> string option" where
  "summary_text [] = Some []"
| "summary_text (m # ms) =
     (if is_system_role m \<or> compressed m then summary_text ms
      else (case (role m, content m, summary_text ms) of
          (Some r, Some c, Some t) \<Rightarrow> Some (''['' @ r @ '']: '' @ c @ [LF] @ t)
        | _ \<Rightarrow> None))"

fun rechain_preserved :: "message list \<Rightarrow> key_info \<Rightarrow> key_info" where
  "rechain_preserved [] info = info"
| "rechain_preserved (m # ms) info =
     (if is_system_role m \<or> compressed m then rechain_preserved ms info
      else rechain_preserved ms
        (case content m of None \<Rightarrow> info | Some c \<Rightarrow> key_info_add info ''summarized'' c))"

definition summary_message :: "string \<Rightarrow> message" where
  "summary_message summary =
     \<lparr>role = Some ''system'', content = Some summary, file_paths = [],
      token_count = (if estimate (Some summary) < 1 then 1 else estimate (Some summary)), compressed = False\<rparr>"

text \<open>
  \<open>fn\<close> is the summariser (its return code and the text it made) and \<open>mem\<close> whether the arena gives
  the summary node.  Without it the list is left as the loop has relinked it: from the old head
  only the first messages up to a system message and then the system messages can be reached.
\<close>

definition compress_summarize ::
  "message list \<Rightarrow> int \<Rightarrow> (string \<Rightarrow> rc \<times> string option) \<Rightarrow> bool \<Rightarrow> (rc \<times> message list \<times> compress_result) option"
where
  "compress_summarize ms keep_rounds fn mem =
     (if ms = [] \<or> keep_rounds < 0 then Some (- EINVAL, ms, result_init)
      else if keep_rounds * 2 > INT_MAX then None
      else
        let result = result_init\<lparr>original_tokens := context_token_count ms None\<rparr>;
            to_summarize = msg_list_count ms - keep_rounds * 2
        in if to_summarize \<le> 0 then Some (0, ms, result)
           else
             let front = take (nat to_summarize) ms; keep = drop (nat to_summarize) ms
             in (case summary_text front of
                  None \<Rightarrow> None
                | Some summary_in \<Rightarrow>
                    if summary_in = [] then Some (0, ms, result)
                    else (case fn summary_in of (rc, summary) \<Rightarrow>
                      if rc < 0 then Some (rc, ms, result)
                      else (case summary of
                          None \<Rightarrow> Some (rc, ms, result)
                        | Some s \<Rightarrow>
                            let result = result\<lparr>messages_summarized := int (length (filter (\<lambda>m. \<not> is_system_role m) front)),
                                                preserved := rechain_preserved front (preserved result)\<rparr>;
                                rechain = filter is_system_role front
                            in if \<not> mem then
                                 Some (- ENOMEM, takeWhile (\<lambda>m. \<not> is_system_role m) front @ rechain, result)
                               else
                                 let ms' = summary_message s # rechain @ keep
                                 in Some (1, ms', result\<lparr>compressed_tokens := context_token_count ms' None\<rparr>)))))"

section \<open>Lists of messages\<close>

lemma msg_list_append_eq: "msg_list_append ms m = ms @ [m]"
  by (induction ms m rule: msg_list_append.induct) auto

lemma msg_list_count_eq: "msg_list_count ms = int (length ms)"
  by (induction ms rule: msg_list_count.induct) auto

lemma context_token_count_append:
  "context_token_count (xs @ ys) tok = context_token_count xs tok + context_token_count ys tok"
  by (induction xs tok rule: context_token_count.induct) auto

section \<open>The sliding window\<close>

lemma slide_spec:
  "slide tot removed keep ms = (ms', r) \<Longrightarrow>
     filter is_system_role ms' = filter is_system_role ms
     \<and> removed \<le> r
     \<and> filter (\<lambda>m. \<not> is_system_role m) ms' = drop (nat (r - removed)) (filter (\<lambda>m. \<not> is_system_role m) ms)
     \<and> r - removed = min (int (length (filter (\<lambda>m. \<not> is_system_role m) ms))) (max 0 (tot - removed - keep))
     \<and> subseq ms' ms"
proof (induction tot removed keep ms arbitrary: ms' r rule: slide.induct)
  case (2 tot removed keep cur rest)
  show ?case
  proof (cases "tot - removed > keep")
    case False
    then show ?thesis using 2(3) by auto
  next
    case go: True
    show ?thesis
    proof (cases "is_system_role cur")
      case True
      obtain ns r' where ns: "slide tot removed keep rest = (ns, r')" by fastforce
      then have "ms' = cur # ns" "r = r'" using 2(3) go True by auto
      then show ?thesis using 2(1) [OF go True ns] True by auto
    next
      case False
      then have s: "slide tot (removed + 1) keep rest = (ms', r)" using 2(3) go by simp
      note IH = 2(2) [OF go False s]
      have "nat (r - removed) = Suc (nat (r - (removed + 1)))" using IH by linarith
      then show ?thesis using IH False go by (auto intro: list_emb.intros)
    qed
  qed
qed auto

text \<open>
  The sliding window drops the oldest part of the conversation and nothing else: the system
  messages all survive in order, the other survivors are the most recent ones, the order is kept, the number removed is
  what is needed to get down to \<open>2 * keep_rounds\<close> messages (or all that may be removed), and
  the result reports it together with the token counts before and after.
\<close>

theorem sliding_window_spec:
  assumes "ms \<noteq> []" "0 \<le> keep_rounds" "keep_rounds * 2 \<le> INT_MAX"
  shows "\<exists>ms' res. compress_sliding_window ms keep_rounds = Some (0, ms', res)
     \<and> filter is_system_role ms' = filter is_system_role ms
     \<and> filter (\<lambda>m. \<not> is_system_role m) ms'
       = drop (nat (messages_removed res)) (filter (\<lambda>m. \<not> is_system_role m) ms)
     \<and> messages_removed res = min (int (length (filter (\<lambda>m. \<not> is_system_role m) ms)))
                                  (max 0 (int (length ms) - keep_rounds * 2))
     \<and> length ms' = length ms - nat (messages_removed res)
     \<and> subseq ms' ms
     \<and> original_tokens res = context_token_count ms None \<and> compressed_tokens res = context_token_count ms' None"
proof -
  obtain ms' r where s: "slide (msg_list_count ms) 0 (keep_rounds * 2) ms = (ms', r)" by fastforce
  note sp = slide_spec [OF s]
  have len: "length xs = length (filter is_system_role xs) + length (filter (\<lambda>m. \<not> is_system_role m) xs)" for xs
    by (rule sum_length_filter_compl [symmetric])
  have "length ms' = length ms - nat r"
    using len [of ms] len [of ms'] sp by simp
  then show ?thesis
    using s sp assms by (auto simp: compress_sliding_window_def result_init_def msg_list_count_eq)
qed

theorem sliding_window_spec_witness:
  "\<exists>res. compress_sliding_window
      [msg_list_create (Some ''system'') (Some ''rules'') 5, msg_list_create (Some ''user'') (Some ''old'') 3,
       msg_list_create (Some ''user'') (Some ''a'') 1, msg_list_create (Some ''assistant'') (Some ''b'') 2] 1
    = Some (0, [msg_list_create (Some ''system'') (Some ''rules'') 5, msg_list_create (Some ''assistant'') (Some ''b'') 2], res)
      \<and> messages_removed res = 2 \<and> original_tokens res = 11 \<and> compressed_tokens res = 7"
proof -
  let ?ms = "[msg_list_create (Some ''system'') (Some ''rules'') 5, msg_list_create (Some ''user'') (Some ''old'') 3,
       msg_list_create (Some ''user'') (Some ''a'') 1, msg_list_create (Some ''assistant'') (Some ''b'') 2]"
  obtain ms' res where r: "compress_sliding_window ?ms 1 = Some (0, ms', res)" "messages_removed res = 2"
    "original_tokens res = 11" "compressed_tokens res = context_token_count ms' None"
    using sliding_window_spec [of ?ms 1]
    by (auto simp: INT_MAX_def msg_list_create_def is_system_role_def message_tokens_def)
  have "ms' = [msg_list_create (Some ''system'') (Some ''rules'') 5, msg_list_create (Some ''assistant'') (Some ''b'') 2]"
    using r(1) by (simp add: compress_sliding_window_def msg_list_create_def is_system_role_def INT_MAX_def)
  then show ?thesis using r by (simp add: msg_list_create_def message_tokens_def)
qed

section \<open>ReAct cycles\<close>

text \<open>The reference: what is left when every non-overlapping assistant, assistant, user triple is taken out.\<close>

fun drop_cycles :: "message list \<Rightarrow> message list" where
  "drop_cycles (a # b # c # rest) =
     (if react_triple a b c then drop_cycles rest else a # drop_cycles (b # c # rest))"
| "drop_cycles ms = ms"

lemma react_unlink_filter:
  "react_unlink ms = (filter (\<lambda>m. \<not> compressed m) ms, int (length (filter compressed ms)))"
  by (induction ms rule: react_unlink.induct) auto

lemma compressed_mark [simp]: "compressed (mark m)" by (simp add: mark_def)

lemma detect_filter:
  "\<forall>m \<in> set ms. \<not> compressed m \<Longrightarrow> compress_detect_react_cycles ms = (ms', n) \<Longrightarrow>
     filter (\<lambda>m. \<not> compressed m) ms' = drop_cycles ms \<and> n = int (length (filter compressed ms'))
     \<and> n = int (length ms) - int (length (drop_cycles ms)) \<and> n mod 3 = 0"
proof (induction ms arbitrary: ms' n rule: compress_detect_react_cycles.induct)
  case (1 a b c rest)
  have nc: "\<not> (compressed a \<or> compressed b \<or> compressed c)" using 1(4) by simp
  show ?case
  proof (cases "react_triple a b c")
    case True
    obtain ns k where ns: "compress_detect_react_cycles rest = (ns, k)" by fastforce
    then have "ms' = mark a # mark b # mark c # ns" "n = k + 3" using 1(5) nc True by auto
    then show ?thesis using 1(2) [OF nc True _ ns] 1(4) True by auto
  next
    case False
    obtain ns k where ns: "compress_detect_react_cycles (b # c # rest) = (ns, k)" by fastforce
    then have e: "ms' = a # ns" "n = k" using 1(5) nc False by auto
    have "\<forall>m \<in> set (b # c # rest). \<not> compressed m" using 1(4) by auto
    from 1(3) [OF nc False this ns] show ?thesis using e nc False by auto
  qed
qed auto

lemma detect_contents:
  "compress_detect_react_cycles ms = (ms', n) \<Longrightarrow> map (\<lambda>m. m\<lparr>compressed := False\<rparr>) ms' = map (\<lambda>m. m\<lparr>compressed := False\<rparr>) ms"
proof (induction ms arbitrary: ms' n rule: compress_detect_react_cycles.induct)
  case (1 a b c rest)
  then show ?case by (auto simp: mark_def split: if_splits prod.splits)
qed auto

lemma drop_cycles_system: "filter is_system_role (drop_cycles ms) = filter is_system_role ms"
  by (induction ms rule: drop_cycles.induct) (auto simp: react_triple_def is_system_role_def)

text \<open>
  Marking ReAct cycles and removing the marked messages amounts to taking every non-overlapping triple
  of two assistant messages and a user message out of the conversation: the marking changes
  nothing but the marks and reports how many there are, the removal reports the same number, and
  no system message is lost.
\<close>

theorem react_compression_spec:
  assumes "list_all (\<lambda>m. \<not> compressed m) ms" "compress_detect_react_cycles ms = (marked, n)"
  shows "map (\<lambda>m. m\<lparr>compressed := False\<rparr>) marked = ms
       \<and> compress_react_trace marked res = (0, drop_cycles ms, res\<lparr>messages_removed := n\<rparr>)
       \<and> n = int (length ms) - int (length (drop_cycles ms)) \<and> n mod 3 = 0
       \<and> filter is_system_role (drop_cycles ms) = filter is_system_role ms"
proof -
  have nc: "\<forall>m \<in> set ms. \<not> compressed m" using assms(1) by (simp add: list_all_iff)
  have "map (\<lambda>m. m\<lparr>compressed := False\<rparr>) ms = ms"
    using nc by (intro map_idI) (metis (full_types) message.surjective message.update_convs(5))
  then show ?thesis
    using detect_filter [OF nc assms(2)] detect_contents [OF assms(2)] drop_cycles_system
    by (auto simp: compress_react_trace_def react_unlink_filter)
qed

theorem react_compression_spec_witness:
  "compress_react_trace [mark (msg_list_create (Some ''assistant'') (Some ''t'') 1),
      mark (msg_list_create (Some ''assistant'') (Some ''a'') 1), mark (msg_list_create (Some ''user'') (Some ''o'') 1),
      msg_list_create (Some ''user'') (Some ''q'') 1] result_init
   = (0, [msg_list_create (Some ''user'') (Some ''q'') 1], result_init\<lparr>messages_removed := 3\<rparr>)"
proof -
  let ?a = "msg_list_create (Some ''assistant'') (Some ''t'') 1" and ?b = "msg_list_create (Some ''assistant'') (Some ''a'') 1"
    and ?c = "msg_list_create (Some ''user'') (Some ''o'') 1" and ?d = "msg_list_create (Some ''user'') (Some ''q'') 1"
  have "compress_detect_react_cycles [?a, ?b, ?c, ?d] = ([mark ?a, mark ?b, mark ?c, ?d], 3)"
    by (simp add: msg_list_create_def react_triple_def)
  from react_compression_spec [OF _ this, of result_init] show ?thesis
    by (simp add: msg_list_create_def react_triple_def)
qed

section \<open>Key facts\<close>

lemma strstr_found:
  "strstr acc cs key = Some (before, match) \<Longrightarrow>
     rev acc @ cs = before @ match \<and> take (length key) match = key \<and> length acc \<le> length before"
proof (induction acc cs key rule: strstr.induct)
  case (2 acc c cs key)
  show ?case
  proof (cases "take (length key) (c # cs) = key")
    case True
    then show ?thesis using 2(2) by auto
  next
    case False
    then show ?thesis using 2 by auto
  qed
qed (auto split: if_splits)

lemma strstr_none: "strstr acc (xs @ key @ ys) key \<noteq> None"
  by (induction xs arbitrary: acc) (cases key; cases ys; auto)+

text \<open>A fact is a whole line of its message, and the key occurs in it.\<close>

definition is_line_of :: "string \<Rightarrow> string \<Rightarrow> bool" where
  "is_line_of l c = (\<exists>a b. c = a @ l @ b \<and> LF \<notin> set l \<and> (a = [] \<or> last a = LF) \<and> (b = [] \<or> hd b = LF))"

lemma line_around_line:
  "is_line_of (line_around before match) (before @ match)"
proof -
  let ?p = "\<lambda>c. c \<noteq> LF"
  let ?a = "rev (dropWhile ?p (rev before))" and ?b = "dropWhile ?p match"
  have "rev before = takeWhile ?p (rev before) @ dropWhile ?p (rev before)" by simp
  then have "before = ?a @ rev (takeWhile ?p (rev before))" by (metis rev_append rev_rev_ident)
  then have "before @ match = ?a @ line_around before match @ ?b"
    by (metis append.assoc line_around_def takeWhile_dropWhile_id)
  moreover have "LF \<notin> set (line_around before match)"
    by (auto simp: line_around_def dest: set_takeWhileD)
  moreover have "?a = [] \<or> last ?a = LF"
    using hd_dropWhile [of ?p "rev before"] by (cases "dropWhile ?p (rev before)") (auto simp: last_rev)
  moreover have "?b = [] \<or> hd ?b = LF" using hd_dropWhile [of ?p match] by auto
  ultimately show ?thesis unfolding is_line_of_def by blast
qed

definition facts_ok :: "string list \<Rightarrow> key_info \<Rightarrow> bool" where
  "facts_ok cs info = (distinct (map fst info)
     \<and> (\<forall>(k, v) \<in> set info. \<exists>c \<in> set cs. is_line_of v c \<and> sublist k c))"

lemma key_info_add_ok:
  assumes "facts_ok cs info" "c \<in> set cs"
  shows "facts_ok cs (key_info_add info key c)"
proof (cases "key \<in> set (map fst info) \<or> strstr [] c key = None")
  case True
  then show ?thesis using assms by (auto simp: key_info_add_def)
next
  case False
  then obtain before match where bm: "strstr [] c key = Some (before, match)" by auto
  note f = strstr_found [OF bm]
  have c: "c = before @ match" using f by simp
  have "match = key @ drop (length key) match" using f by (metis append_take_drop_id)
  then have "sublist key c" unfolding c by (metis sublist_appendI)
  moreover have "is_line_of (line_around before match) c" unfolding c by (rule line_around_line)
  ultimately show ?thesis
    using False bm assms by (auto simp: key_info_add_def facts_ok_def)
qed

lemma key_info_add_keys:
  "set (map fst info) \<subseteq> set (map fst (key_info_add info key c))"
  "sublist key c \<Longrightarrow> key \<in> set (map fst (key_info_add info key c))"
proof -
  show "set (map fst info) \<subseteq> set (map fst (key_info_add info key c))"
    by (auto simp: key_info_add_def split: option.splits)
  assume "sublist key c"
  then have "strstr [] c key \<noteq> None" using strstr_none by (auto simp: sublist_def)
  then show "key \<in> set (map fst (key_info_add info key c))"
    by (cases "strstr [] c key") (auto simp: key_info_add_def image_iff intro: bexI)
qed

lemma fold_key_info:
  assumes "c \<in> set cs" "facts_ok cs info"
  shows "facts_ok cs (foldl (\<lambda>info k. key_info_add info k c) info ks)
       \<and> set (map fst info) \<subseteq> set (map fst (foldl (\<lambda>info k. key_info_add info k c) info ks))
       \<and> (\<forall>k \<in> set ks. sublist k c \<longrightarrow> k \<in> set (map fst (foldl (\<lambda>info k. key_info_add info k c) info ks)))"
  using assms(2)
proof (induction ks arbitrary: info)
  case (Cons k ks)
  show ?case
    using Cons.IH [OF key_info_add_ok [OF Cons.prems assms(1), of k]] key_info_add_keys [where info = info and key = k and c = c]
    by (auto simp del: set_map)
qed simp

definition message_facts :: "key_info \<Rightarrow> message \<Rightarrow> key_info" where
  "message_facts info m = (case content m of
      None \<Rightarrow> info | Some c \<Rightarrow> foldl (\<lambda>info k. key_info_add info k c) info key_patterns)"

lemma fold_message_facts:
  assumes "facts_ok cs info" "\<forall>m \<in> set ms. \<forall>c \<in> set_option (content m). c \<in> set cs"
  shows "facts_ok cs (foldl message_facts info ms)
       \<and> set (map fst info) \<subseteq> set (map fst (foldl message_facts info ms))
       \<and> (\<forall>m \<in> set ms. \<forall>c \<in> set_option (content m). \<forall>k \<in> set key_patterns. sublist k c \<longrightarrow>
            k \<in> set (map fst (foldl message_facts info ms)))"
  using assms
proof (induction ms arbitrary: info)
  case (Cons m ms)
  have step: "facts_ok cs (message_facts info m) \<and> set (map fst info) \<subseteq> set (map fst (message_facts info m))
    \<and> (\<forall>c \<in> set_option (content m). \<forall>k \<in> set key_patterns. sublist k c \<longrightarrow> k \<in> set (map fst (message_facts info m)))"
  proof (cases "content m")
    case None
    then show ?thesis using Cons.prems by (simp add: message_facts_def)
  next
    case (Some c)
    then have "c \<in> set cs" using Cons.prems(2) by simp
    from fold_key_info [OF this Cons.prems(1), of key_patterns] show ?thesis
      using Some by (simp add: message_facts_def)
  qed
  have IH: "facts_ok cs (foldl message_facts (message_facts info m) ms)
       \<and> set (map fst (message_facts info m)) \<subseteq> set (map fst (foldl message_facts (message_facts info m) ms))
       \<and> (\<forall>m' \<in> set ms. \<forall>c \<in> set_option (content m'). \<forall>k \<in> set key_patterns. sublist k c \<longrightarrow>
            k \<in> set (map fst (foldl message_facts (message_facts info m) ms)))"
    using Cons.IH [of "message_facts info m"] Cons.prems(2) step by simp
  show ?case
    unfolding foldl_Cons using IH step by (intro conjI ballI impI) (auto simp del: set_map)
qed simp

text \<open>
  The key facts drawn from a conversation are sound and complete: at most one fact per pattern, each
  a whole line of some message in which the pattern occurs; and every pattern that occurs in some message has its fact.
\<close>

theorem extract_key_info_spec:
  "distinct (map fst (extract_key_info ms))
   \<and> (\<forall>k v. (k, v) \<in> set (extract_key_info ms) \<longrightarrow>
        (\<exists>m \<in> set ms. \<exists>c. content m = Some c \<and> is_line_of v c \<and> sublist k c))
   \<and> (\<forall>m c k. m \<in> set ms \<and> content m = Some c \<and> k \<in> set key_patterns \<and> sublist k c \<longrightarrow>
        k \<in> fst ` set (extract_key_info ms))"
proof -
  let ?cs = "map (\<lambda>m. case content m of Some c \<Rightarrow> c | None \<Rightarrow> []) (filter (\<lambda>m. content m \<noteq> None) ms)"
  have e: "extract_key_info ms = foldl message_facts [] ms"
    by (simp add: extract_key_info_def message_facts_def [abs_def])
  have "facts_ok ?cs []" by (simp add: facts_ok_def)
  moreover have "\<forall>m \<in> set ms. \<forall>c \<in> set_option (content m). c \<in> set ?cs"
    by (auto simp: image_iff intro!: bexI split: option.splits)
  ultimately have f: "facts_ok ?cs (foldl message_facts [] ms)"
    "\<forall>m \<in> set ms. \<forall>c \<in> set_option (content m). \<forall>k \<in> set key_patterns. sublist k c \<longrightarrow>
        k \<in> set (map fst (foldl message_facts [] ms))"
    using fold_message_facts by blast+
  have "\<exists>m \<in> set ms. \<exists>c. content m = Some c \<and> is_line_of v c \<and> sublist k c"
    if "(k, v) \<in> set (foldl message_facts [] ms)" for k v
    using f(1) that by (fastforce simp: facts_ok_def split: option.splits)
  then show ?thesis using f unfolding e by (auto simp: facts_ok_def)
qed

theorem extract_key_info_spec_witness:
  "fst ` set (extract_key_info [msg_list_create (Some ''user'') (Some (''ok'' @ [LF] @ ''saved a.txt'' @ [LF] @ ''bye'')) 4])
     = {''saved''}"
proof -
  let ?c = "''ok'' @ [LF] @ ''saved a.txt'' @ [LF] @ ''bye''"
  let ?ms = "[msg_list_create (Some ''user'') (Some ?c) 4]"
  have m: "content (msg_list_create (Some ''user'') (Some ?c) 4) = Some ?c" by (simp add: msg_list_create_def)
  have "sublist ''saved'' ?c" unfolding sublist_def
    by (rule exI [of _ "''ok'' @ [LF]"], rule exI [of _ "'' a.txt'' @ [LF] @ ''bye''"]) simp
  then have "''saved'' \<in> fst ` set (extract_key_info ?ms)"
    using extract_key_info_spec [of ?ms] m by (auto simp: key_patterns_def)
  moreover have "extract_key_info ?ms = [(''saved'', ''saved a.txt'')]"
    by code_simp
  ultimately show ?thesis by simp
qed

section \<open>Summaries\<close>



text \<open>If the arena cannot give the summary node, the kept messages are no longer reachable.\<close>

lemma compress_summarize_nomem_loses_tail:
  "\<exists>res. compress_summarize
     [msg_list_create (Some ''user'') (Some ''a'') 1, msg_list_create (Some ''user'') (Some ''b'') 1,
      msg_list_create (Some ''user'') (Some ''c'') 1] 1 (\<lambda>_. (0, Some ''s'')) False
   = Some (- ENOMEM, [msg_list_create (Some ''user'') (Some ''a'') 1], res)"
  by (simp add: compress_summarize_def msg_list_create_def is_system_role_def INT_MAX_def Let_def)

end
