(* ===== verification/Ids.thy ===== *)
theory Ids
  imports Prelude
begin

text \<open>
  Random identifiers (\<open>src/util/id.c\<close>): the read loop over \<open>/dev/urandom\<close>, the hexadecimal encoding and the
  composition with a prefix.

  The operating system is a parameter: \<open>dev_open\<close> is the outcome of \<open>open\<close> (an \<open>errno\<close> on failure), and
  \<open>rd i n\<close> the outcome of the \<open>i\<close>-th \<open>read\<close>, asked for \<open>n\<close> bytes (an \<open>errno\<close>, or the bytes read: never
  more than asked for, and none at the end of the file).
\<close>

section \<open>The model\<close>

definition MORPH_RANDOM_ID_BYTES_MAX :: nat where
  "MORPH_RANDOM_ID_BYTES_MAX = 16"

abbreviation (input) EIO :: int where "EIO \<equiv> 5"

record entropy =
  dev_open :: "int option"
  dev_read :: "nat \<Rightarrow> nat \<Rightarrow> int + char list"

function random_read_loop :: "(nat \<Rightarrow> nat \<Rightarrow> int + char list) \<Rightarrow> nat \<Rightarrow> nat \<Rightarrow> char list \<Rightarrow> rc \<times> char list" where
  "random_read_loop rd i len buf =
     (if length buf < len then
        (case rd i (len - length buf) of
           Inl err \<Rightarrow> (- err, buf)
         | Inr bs \<Rightarrow>
             if take (len - length buf) bs = [] then (- EIO, buf)
             else random_read_loop rd (Suc i) len (buf @ take (len - length buf) bs))
      else (0, buf))"
  by pat_completeness auto
termination
  by (relation "measure (\<lambda>(rd, i, len, buf). len - length buf)") (auto simp: min_def length_greater_0_conv [symmetric] simp del: length_greater_0_conv)

declare random_read_loop.simps [simp del]

definition morph_random_bytes :: "entropy \<Rightarrow> nat \<Rightarrow> rc \<times> char list" where
  "morph_random_bytes e len =
     (if len = 0 then (0, [])
      else (case dev_open e of
          Some err \<Rightarrow> (- err, [])
        | None \<Rightarrow> random_read_loop (dev_read e) 0 len []))"

definition hex_digits :: string where
  "hex_digits = ''0123456789abcdef''"

fun hex_encode :: "char list \<Rightarrow> string" where
  "hex_encode [] = []"
| "hex_encode (b # bs) =
     hex_digits ! drop_bit 4 (of_char b) # hex_digits ! (of_char b AND 0x0F) # hex_encode bs"

text \<open>\<open>snprintf\<close> leaves the longest prefix that fits and reports the full length; buffer sizes fit an \<open>int\<close>.\<close>

definition morph_random_id_nbytes :: "entropy \<Rightarrow> string \<Rightarrow> nat \<Rightarrow> nat \<Rightarrow> rc \<times> string option" where
  "morph_random_id_nbytes e prefix random_bytes out_size =
     (if random_bytes = 0 \<or> random_bytes > MORPH_RANDOM_ID_BYTES_MAX then (- EINVAL, None)
      else (case morph_random_bytes e random_bytes of (rc, raw) \<Rightarrow>
        if rc < 0 then (rc, None)
        else
          let s = prefix @ hex_encode raw;
              out = (if out_size = 0 then None else Some (take (out_size - 1) s))
          in if length s \<ge> out_size then (- ENOSPC, out) else (0, out)))"

definition morph_random_id :: "entropy \<Rightarrow> string \<Rightarrow> nat \<Rightarrow> rc \<times> string option" where
  "morph_random_id e prefix out_size = morph_random_id_nbytes e prefix MORPH_RANDOM_ID_BYTES_MAX out_size"

section \<open>Hexadecimal\<close>

text \<open>The reader used as reference: the value of a digit, and of pairs of digits.\<close>

definition hex_value :: "char \<Rightarrow> nat" where
  "hex_value c = (if of_char c < (58 :: nat) then of_char c - 48 else of_char c - 87)"

fun hex_decode :: "string \<Rightarrow> char list" where
  "hex_decode (a # b # s) = char_of (16 * hex_value a + hex_value b) # hex_decode s"
| "hex_decode _ = []"

lemma hex_digits_all: "\<forall>n < 16. hex_value (hex_digits ! n) = n \<and> hex_digits ! n \<in> set hex_digits"
  by code_simp

lemma of_char_lt [simp]: "(of_char c :: nat) < 256"
  using of_char_mod_256 [of c, where ?'a = nat] by (metis mod_less_divisor zero_less_numeral)

lemma nibbles:
  "drop_bit 4 (of_char b :: nat) < 16" "(of_char b :: nat) AND 0x0F < 16"
  "16 * drop_bit 4 (of_char b :: nat) + (of_char b AND 0x0F) = of_char b"
proof -
  have a: "(of_char b :: nat) AND 0x0F = of_char b mod 16"
    using and_pow2_minus_1 [of "of_char b" 4] by simp
  have d: "drop_bit 4 (of_char b :: nat) = of_char b div 16" by (simp add: drop_bit_eq_div)
  show "drop_bit 4 (of_char b :: nat) < 16" "(of_char b :: nat) AND 0x0F < 16"
    unfolding a d using of_char_lt [of b] by (simp_all add: less_mult_imp_div_less)
  show "16 * drop_bit 4 (of_char b :: nat) + (of_char b AND 0x0F) = of_char b"
    unfolding a d by simp
qed

lemma hex_decode_encode: "hex_decode (hex_encode bs) = bs"
  by (induction bs) (use hex_digits_all nibbles in simp_all)

lemma length_hex_encode [simp]: "length (hex_encode bs) = 2 * length bs"
  by (induction bs) auto

lemma set_hex_encode: "set (hex_encode bs) \<subseteq> set hex_digits"
  by (induction bs) (use hex_digits_all nibbles in simp_all)

section \<open>The read loop\<close>

lemma random_read_loop_result:
  "random_read_loop rd i len buf = (rc, out) \<Longrightarrow> length buf \<le> len \<Longrightarrow> \<forall>i n e. rd i n = Inl e \<longrightarrow> 0 < e \<Longrightarrow>
     (rc = 0 \<and> length out = len) \<or> (rc < 0 \<and> length out < len)"
proof (induction rd i len buf rule: random_read_loop.induct)
  case (1 rd i len buf)
  show ?case
  proof (cases "length buf < len")
    case False
    then show ?thesis using 1(2,3) by (subst (asm) random_read_loop.simps) auto
  next
    case go: True
    show ?thesis
    proof (cases "rd i (len - length buf)")
      case (Inl e)
      then show ?thesis using 1(2,4) go by (subst (asm) random_read_loop.simps) auto
    next
      case (Inr bs)
      show ?thesis
      proof (cases "take (len - length buf) bs = []")
        case True
        then show ?thesis using 1(2) go Inr by (subst (asm) random_read_loop.simps) auto
      next
        case False
        then have "random_read_loop rd (Suc i) len (buf @ take (len - length buf) bs) = (rc, out)"
          using 1(2) go Inr by (subst (asm) random_read_loop.simps) simp
        from 1(1) [OF go Inr False this] show ?thesis using 1(4) go by simp
      qed
    qed
  qed
qed

text \<open>
  The device answers within its contract: errors are positive \<open>errno\<close> values.
\<close>

definition entropy_ok :: "entropy \<Rightarrow> bool" where
  "entropy_ok e = ((\<forall>err. dev_open e = Some err \<longrightarrow> 0 < err) \<and> (\<forall>i n err. dev_read e i n = Inl err \<longrightarrow> 0 < err))"

lemma morph_random_bytes_result:
  assumes "entropy_ok e" "morph_random_bytes e len = (rc, raw)"
  shows "(rc = 0 \<and> length raw = len) \<or> rc < 0"
proof (cases "len = 0 \<or> dev_open e \<noteq> None")
  case True
  then show ?thesis using assms by (auto simp: morph_random_bytes_def entropy_ok_def split: option.splits if_splits)
next
  case False
  then have "random_read_loop (dev_read e) 0 len [] = (rc, raw)" using assms(2) by (simp add: morph_random_bytes_def)
  from random_read_loop_result [OF this] show ?thesis using assms(1) by (auto simp: entropy_ok_def)
qed

text \<open>An identifier is its prefix followed by 32 hexadecimal digits from which the random bytes can be read back.\<close>

definition id_form :: "string \<Rightarrow> string \<Rightarrow> bool" where
  "id_form prefix s = (\<exists>h. s = prefix @ h \<and> length h = 2 * MORPH_RANDOM_ID_BYTES_MAX \<and> set h \<subseteq> set hex_digits)"

lemma morph_random_id_result:
  assumes "entropy_ok e" "morph_random_id e prefix out_size = (rc, out)"
  shows "rc \<le> 0" "rc = 0 \<Longrightarrow> \<exists>s. out = Some s \<and> id_form prefix s \<and> length s < out_size"
proof -
  obtain r raw where b: "morph_random_bytes e MORPH_RANDOM_ID_BYTES_MAX = (r, raw)" by fastforce
  note br = morph_random_bytes_result [OF assms(1) b]
  have z: "MORPH_RANDOM_ID_BYTES_MAX \<noteq> 0" by (simp add: MORPH_RANDOM_ID_BYTES_MAX_def)
  show "rc \<le> 0"
    using assms(2) b br z by (auto simp: morph_random_id_def morph_random_id_nbytes_def Let_def split: if_splits)
  assume "rc = 0"
  then have r0: "\<not> r < 0" "length prefix + 2 * length raw < out_size" "out = Some (take (out_size - 1) (prefix @ hex_encode raw))"
    using assms(2) b z by (auto simp: morph_random_id_def morph_random_id_nbytes_def Let_def split: if_splits)
  then have "out = Some (prefix @ hex_encode raw)" "length raw = MORPH_RANDOM_ID_BYTES_MAX" using br by auto
  then show "\<exists>s. out = Some s \<and> id_form prefix s \<and> length s < out_size"
    using r0(2) set_hex_encode [of raw] by (auto simp: id_form_def)
qed

text \<open>
  A device that delivers bytes without an error, in whatever portions, gives an identifier made of
  the prefix and the hexadecimal digits of the first 16 bytes, from which those bytes can be read back (so
  different random bytes give different identifiers); a buffer that is too small is reported as -ENOSPC and filled with
  the truncated text.
\<close>

theorem morph_random_id_spec:
  assumes "dev_open e = None" "\<forall>i n. \<exists>bs. dev_read e i n = Inr bs \<and> (0 < n \<longrightarrow> bs \<noteq> [])"
  shows "\<exists>raw. length raw = 16 \<and> hex_decode (hex_encode raw) = raw \<and> set (hex_encode raw) \<subseteq> set hex_digits
     \<and> morph_random_id e prefix out_size =
         (if length prefix + 32 < out_size then (0, Some (prefix @ hex_encode raw))
          else (- ENOSPC, if out_size = 0 then None else Some (take (out_size - 1) (prefix @ hex_encode raw))))"
proof -
  obtain rc raw where r: "morph_random_bytes e 16 = (rc, raw)" by fastforce
  have "random_read_loop (dev_read e) i len buf = (rc, out) \<Longrightarrow> rc = 0" for i len buf rc out
  proof (induction "dev_read e" i len buf rule: random_read_loop.induct)
    case (1 i len buf)
    show ?case
    proof (cases "length buf < len")
      case False
      then show ?thesis using 1(2) by (subst (asm) random_read_loop.simps) simp
    next
      case True
      then obtain bs where bs: "dev_read e i (len - length buf) = Inr bs" "take (len - length buf) bs \<noteq> []"
        using assms(2) by (metis take_eq_Nil zero_less_diff less_numeral_extra(3))
      then have "random_read_loop (dev_read e) (Suc i) len (buf @ take (len - length buf) bs) = (rc, out)"
        using 1(2) True by (subst (asm) random_read_loop.simps) simp
      with 1(1) [OF True bs] show ?thesis .
    qed
  qed
  then have rc: "rc = 0" using r assms(1) by (auto simp: morph_random_bytes_def)
  have "entropy_ok e" using assms by (auto simp: entropy_ok_def) (metis Inl_Inr_False)
  then have "length raw = 16" using morph_random_bytes_result [OF _ r] rc by simp
  then show ?thesis
    using r rc set_hex_encode [of raw] hex_decode_encode [of raw]
    by (intro exI [of _ raw])
       (auto simp: morph_random_id_def morph_random_id_nbytes_def MORPH_RANDOM_ID_BYTES_MAX_def Let_def)
qed

theorem morph_random_id_spec_witness:
  "morph_random_id \<lparr>dev_open = None, dev_read = \<lambda>i n. Inr [CHR ''A'']\<rparr> ''pln_'' 40
   = (0, Some ''pln_41414141414141414141414141414141'')"
proof -
  let ?e = "\<lparr>dev_open = None, dev_read = \<lambda>i n. Inr [CHR ''A'']\<rparr>"
  obtain raw where raw: "length raw = 16" "morph_random_id ?e ''pln_'' 40 = (0, Some (''pln_'' @ hex_encode raw))"
    using morph_random_id_spec [of ?e "''pln_''" 40] by auto
  have "morph_random_id ?e ''pln_'' 40 = (0, Some ''pln_41414141414141414141414141414141'')" by code_simp
  then show ?thesis using raw by simp
qed

end
