(* ===== verification/Plan.thy ===== *)
theory Plan
  imports Ids
begin

text \<open>
  The plan registry (\<open>src/agent/plan.c\<close>, \<open>plan.h\<close>): fixed tables of plans and steps, creation with a random
  identifier, updates of a step's status with the advance of the active step, and the formatted text.

  The \<open>count\<close> used entries of \<open>plans\<close> and the \<open>step_count\<close> used entries of \<open>steps\<close> are lists (an entry is
  zeroed before it is used).  A fixed character array is the string it holds: \<open>strncpy(dst, s, size - 1)\<close> into a zeroed array is
  \<open>strncpy_fixed\<close>.  A pointer to a plan is its index.  \<open>gen k\<close> is the outcome of the \<open>k\<close>-th call of \<open>morph_random_id\<close>.
\<close>

section \<open>The model\<close>

definition PLAN_NAME_MAX :: nat where "PLAN_NAME_MAX = 64"
definition PLAN_ID_MAX :: nat where "PLAN_ID_MAX = 40"
definition PLAN_GOAL_MAX :: nat where "PLAN_GOAL_MAX = 512"
definition PLAN_STEP_DESC_MAX :: nat where "PLAN_STEP_DESC_MAX = 256"
definition PLAN_MAX_STEPS :: nat where "PLAN_MAX_STEPS = 32"
definition PLAN_MAX_PLANS :: nat where "PLAN_MAX_PLANS = 8"
definition PLAN_STATUS_MAX :: nat where "PLAN_STATUS_MAX = 16"

record plan_step =
  step_id :: int
  step_description :: string
  step_status :: string

record plan =
  plan_id :: string
  plan_name :: string
  plan_goal :: string
  plan_steps :: "plan_step list"
  active_step :: int

record plan_registry =
  plans :: "plan list"

type_synonym id_calls = "nat \<Rightarrow> rc \<times> string option"

definition plan_registry_init :: plan_registry where
  "plan_registry_init = \<lparr>plans = []\<rparr>"

text \<open>The search loops: the first index from \<open>i\<close> on whose element satisfies \<open>P\<close>.\<close>

fun find_from :: "('a \<Rightarrow> bool) \<Rightarrow> nat \<Rightarrow> 'a list \<Rightarrow> nat option" where
  "find_from P i [] = None"
| "find_from P i (x # xs) = (if P x then Some i else find_from P (Suc i) xs)"

definition plan_find_by_name :: "plan_registry \<Rightarrow> string \<Rightarrow> nat option" where
  "plan_find_by_name reg name = find_from (\<lambda>p. plan_name p = name) 0 (plans reg)"

definition plan_find_by_id :: "plan_registry \<Rightarrow> string \<Rightarrow> nat option" where
  "plan_find_by_id reg ident = find_from (\<lambda>p. plan_id p = ident) 0 (plans reg)"

fun plan_id_tries :: "nat \<Rightarrow> id_calls \<Rightarrow> nat \<Rightarrow> plan_registry \<Rightarrow> rc + string" where
  "plan_id_tries 0 gen k reg = Inl (- EEXIST)"
| "plan_id_tries (Suc n) gen k reg =
     (case gen k of (rc, out) \<Rightarrow>
        if rc < 0 then Inl rc
        else (let ident = (case out of Some s \<Rightarrow> s | None \<Rightarrow> [])
              in if plan_find_by_id reg ident = None then Inr ident
                 else plan_id_tries n gen (Suc k) reg))"

definition plan_generate_id :: "id_calls \<Rightarrow> plan_registry \<Rightarrow> rc + string" where
  "plan_generate_id gen reg = plan_id_tries 16 gen 0 reg"

definition new_step :: "nat \<Rightarrow> string option \<Rightarrow> plan_step" where
  "new_step i desc =
     \<lparr>step_id = int i + 1,
      step_description = (case desc of None \<Rightarrow> [] | Some d \<Rightarrow> strncpy_fixed PLAN_STEP_DESC_MAX d),
      step_status = strncpy_fixed PLAN_STATUS_MAX (if i = 0 then ''in_progress'' else ''pending'')\<rparr>"

definition plan_create ::
  "id_calls \<Rightarrow> plan_registry \<Rightarrow> string \<Rightarrow> string option \<Rightarrow> string option list \<Rightarrow> plan_registry \<times> nat option"
where
  "plan_create gen reg name goal step_descs =
     (if step_descs = [] then (reg, None)
      else if length (plans reg) \<ge> PLAN_MAX_PLANS then (reg, None)
      else (case plan_generate_id gen reg of
          Inl _ \<Rightarrow> (reg, None)
        | Inr ident \<Rightarrow>
            let p = \<lparr>plan_id = ident, plan_name = strncpy_fixed PLAN_NAME_MAX name,
                     plan_goal = (case goal of None \<Rightarrow> [] | Some g \<Rightarrow> strncpy_fixed PLAN_GOAL_MAX g),
                     plan_steps = map (\<lambda>i. new_step i (step_descs ! i)) [0..<min (length step_descs) PLAN_MAX_STEPS],
                     active_step = 0\<rparr>
            in (reg\<lparr>plans := plans reg @ [p]\<rparr>, Some (length (plans reg)))))"

definition plan_find :: "plan_registry \<Rightarrow> string \<Rightarrow> nat option" where
  "plan_find reg name = plan_find_by_name reg name"

definition is_final :: "string \<Rightarrow> bool" where
  "is_final status = (status = ''completed'' \<or> status = ''failed'' \<or> status = ''skipped'')"

definition set_status :: "plan_step list \<Rightarrow> nat \<Rightarrow> string \<Rightarrow> plan_step list" where
  "set_status ss i status = ss[i := (ss ! i)\<lparr>step_status := strncpy_fixed PLAN_STATUS_MAX status\<rparr>]"

definition plan_update_step_ptr :: "plan \<Rightarrow> int \<Rightarrow> string \<Rightarrow> plan \<times> rc" where
  "plan_update_step_ptr p sid status =
     (case find_from (\<lambda>s. step_id s = sid) 0 (plan_steps p) of
        None \<Rightarrow> (p, - ENOENT)
      | Some idx \<Rightarrow>
          let p = p\<lparr>plan_steps := set_status (plan_steps p) idx status\<rparr>
          in if is_final status then
               if active_step p = int idx then
                 (case find_from (\<lambda>s. step_status s = ''pending'') (Suc idx) (drop (Suc idx) (plan_steps p)) of
                    Some next \<Rightarrow>
                      (p\<lparr>active_step := int next, plan_steps := set_status (plan_steps p) next ''in_progress''\<rparr>, 0)
                  | None \<Rightarrow> (p\<lparr>active_step := -1\<rparr>, 0))
               else (p, 0)
             else if status = ''in_progress'' then (p\<lparr>active_step := int idx\<rparr>, 0)
             else (p, 0))"

definition update_found :: "plan_registry \<Rightarrow> nat option \<Rightarrow> int \<Rightarrow> string \<Rightarrow> plan_registry \<times> rc" where
  "update_found reg found sid status =
     (case found of
        None \<Rightarrow> (reg, - ENOENT)
      | Some i \<Rightarrow> (case plan_update_step_ptr (plans reg ! i) sid status of (p, rc) \<Rightarrow>
          (reg\<lparr>plans := (plans reg)[i := p]\<rparr>, rc)))"

definition plan_update_step :: "plan_registry \<Rightarrow> string \<Rightarrow> int \<Rightarrow> string \<Rightarrow> plan_registry \<times> rc" where
  "plan_update_step reg name sid status = update_found reg (plan_find_by_name reg name) sid status"

definition plan_update_step_by_id :: "plan_registry \<Rightarrow> string \<Rightarrow> int \<Rightarrow> string \<Rightarrow> plan_registry \<times> rc" where
  "plan_update_step_by_id reg ident sid status = update_found reg (plan_find_by_id reg ident) sid status"

definition status_icon :: "string \<Rightarrow> string" where
  "status_icon status =
     (if status = ''completed'' then ''x''
      else if status = ''in_progress'' then ''>''
      else if status = ''failed'' then ''!''
      else if status = ''skipped'' then ''-''
      else '' '')"

text \<open>
  The output buffer holds the text written so far (\<open>pos\<close> is its length), or \<open>None\<close> while nothing has been
  written to it.  \<open>emit\<close> is a call of \<open>append_str\<close> followed by \<open>goto out\<close> on an error.
\<close>

definition buf_pos :: "string option \<Rightarrow> nat" where
  "buf_pos buf = (case buf of None \<Rightarrow> 0 | Some t \<Rightarrow> length t)"

definition append_str :: "nat \<Rightarrow> string option \<Rightarrow> string \<Rightarrow> rc \<times> string option" where
  "append_str buf_size buf s =
     (if buf_pos buf \<ge> buf_size - 1 then (- ENOSPC, buf)
      else
        let old = (case buf of None \<Rightarrow> [] | Some t \<Rightarrow> t)
        in if length s \<ge> buf_size - buf_pos buf then (- ENOSPC, Some (take (buf_size - 1) (old @ s)))
           else (0, Some (old @ s)))"

definition emit :: "nat \<Rightarrow> string \<Rightarrow> rc \<times> string option \<Rightarrow> rc \<times> string option" where
  "emit buf_size s st = (if fst st < 0 then st else append_str buf_size (snd st) s)"

definition all_done :: "plan \<Rightarrow> bool" where
  "all_done p = list_all (\<lambda>s. is_final (step_status s)) (plan_steps p)"

definition head_line :: "plan \<Rightarrow> string" where
  "head_line p = ''Plan '' @ [CHR 0x22] @ plan_name p @ [CHR 0x22] @ '' ['' @ plan_id p @ '']''"

definition goal_line :: "plan \<Rightarrow> string" where
  "goal_line p = [LF] @ ''  Goal: '' @ plan_goal p"

definition count_line :: "plan \<Rightarrow> string" where
  "count_line p = [LF] @ ''  '' @ show_int (int (length (plan_steps p))) @ '' step(s)''"

definition step_line :: "int \<Rightarrow> nat \<Rightarrow> plan_step \<Rightarrow> string" where
  "step_line active j s =
     [LF] @ ''  ['' @ status_icon (step_status s) @ ''] '' @ show_int (step_id s) @ ''. '' @ step_description s
     @ (if int j = active \<and> active \<ge> 0 then '' <-- active'' else [])"

fun format_steps :: "nat \<Rightarrow> int \<Rightarrow> nat \<Rightarrow> plan_step list \<Rightarrow> rc \<times> string option \<Rightarrow> rc \<times> string option" where
  "format_steps buf_size active j [] st = st"
| "format_steps buf_size active j (s # ss) st =
     format_steps buf_size active (Suc j) ss (emit buf_size (step_line active j s) st)"

definition format_plan :: "nat \<Rightarrow> plan \<Rightarrow> rc \<times> string option \<Rightarrow> rc \<times> string option" where
  "format_plan buf_size p st =
     (let st = emit buf_size ((if buf_pos (snd st) > 0 then [LF] else []) @ head_line p) st;
          st = (if plan_goal p \<noteq> [] then emit buf_size (goal_line p) st else st);
          st = emit buf_size (count_line p) st;
          st = (if all_done p then emit buf_size '' [all completed]'' st else st)
      in format_steps buf_size (active_step p) 0 (plan_steps p) st)"

definition no_plans_text :: string where
  "no_plans_text = ''No plans yet. Use plan create to start one.''"

definition plan_get_formatted :: "plan_registry \<Rightarrow> nat \<Rightarrow> rc \<times> string option" where
  "plan_get_formatted reg buf_size =
     (if buf_size = 0 then (- EINVAL, None)
      else
        let st = fold (format_plan buf_size) (plans reg) (0, None)
        in if buf_pos (snd st) = 0 \<and> plans reg = [] \<and> fst st = 0
           then (fst st, Some (take (buf_size - 1) no_plans_text))
           else st)"

section \<open>Searching\<close>

lemma find_from_None: "find_from P i xs = None \<longleftrightarrow> (\<forall>x \<in> set xs. \<not> P x)"
  by (induction P i xs rule: find_from.induct) auto

lemma find_from_Some:
  "find_from P i xs = Some j \<longleftrightarrow> i \<le> j \<and> j - i < length xs \<and> P (xs ! (j - i)) \<and> (\<forall>k < j - i. \<not> P (xs ! k))"
proof (induction P i xs rule: find_from.induct)
  case (2 P i x xs)
  show ?case
  proof (cases "P x")
    case True
    then show ?thesis by (auto simp: nth_Cons split: nat.splits)
  next
    case False
    show ?thesis
    proof (cases "i < j")
      case True
      then have "j - i = Suc (j - Suc i)" by simp
      then show ?thesis using 2 [OF False] False True by (auto simp: less_Suc_eq_0_disj)
    next
      case ij: False
      then show ?thesis using 2 [OF False] False by (cases "j = i") auto
    qed
  qed
qed auto

section \<open>Fresh identifiers\<close>

text \<open>The service of \<open>id.c\<close>: the \<open>k\<close>-th call finds the device in the state \<open>src k\<close>.\<close>

definition plan_ids :: "(nat \<Rightarrow> entropy) \<Rightarrow> id_calls" where
  "plan_ids src k = morph_random_id (src k) ''pln_'' PLAN_ID_MAX"

text \<open>
  What the registry needs of the identifier service, in an environment that keeps its contract: codes are
  at most zero, and an identifier that is announced has a form and a size that fits the field.
\<close>

locale id_service =
  fixes gen :: "'e \<Rightarrow> id_calls" and env_ok :: "'e \<Rightarrow> bool" and form :: "string \<Rightarrow> bool"
  assumes gen_rc: "env_ok e \<Longrightarrow> gen e k = (rc, out) \<Longrightarrow> rc \<le> 0"
    and gen_ok: "env_ok e \<Longrightarrow> gen e k = (0, out) \<Longrightarrow> \<exists>s. out = Some s \<and> form s \<and> length s < PLAN_ID_MAX"
begin

lemma tries_fresh:
  assumes "env_ok e"
  shows "plan_id_tries n (gen e) k reg = Inr ident \<Longrightarrow>
     plan_find_by_id reg ident = None \<and> form ident \<and> length ident < PLAN_ID_MAX"
proof (induction n arbitrary: k)
  case (Suc n)
  obtain rc out where g: "gen e k = (rc, out)" by fastforce
  have rc: "rc = 0" using Suc.prems g gen_rc [OF assms g] by (auto split: if_splits)
  then obtain s where s: "out = Some s" "form s" "length s < PLAN_ID_MAX" using gen_ok [OF assms] g by blast
  show ?case
  proof (cases "plan_find_by_id reg s = None")
    case True
    then show ?thesis using Suc.prems g rc s by (simp add: Let_def)
  next
    case False
    then have "plan_id_tries n (gen e) (Suc k) reg = Inr ident" using Suc.prems g rc s by (auto simp: Let_def)
    then show ?thesis by (rule Suc.IH)
  qed
qed simp

text \<open>If every call succeeds, the tries fail only because all of them gave identifiers in use.\<close>

lemma tries_complete:
  assumes "env_ok e"
  shows "(\<And>j. j < n \<Longrightarrow> fst (gen e (k + j)) = 0) \<Longrightarrow> plan_id_tries n (gen e) k reg = Inl err \<Longrightarrow>
     err = - EEXIST \<and> (\<forall>j < n. \<exists>s. gen e (k + j) = (0, Some s) \<and> plan_find_by_id reg s \<noteq> None)"
proof (induction n arbitrary: k)
  case (Suc n)
  obtain out where g: "gen e k = (0, out)" using Suc.prems(1) [of 0] by (cases "gen e k") auto
  then obtain s where s: "out = Some s" using gen_ok [OF assms] by blast
  have used: "plan_find_by_id reg s \<noteq> None" "plan_id_tries n (gen e) (Suc k) reg = Inl err"
    using Suc.prems(2) g s by (auto simp: Let_def split: if_splits)
  have "fst (gen e (Suc k + j)) = 0" if "j < n" for j using Suc.prems(1) [of "Suc j"] that by simp
  from Suc.IH [OF this used(2)] have IH: "err = - EEXIST"
    "\<forall>j < n. \<exists>s. gen e (Suc k + j) = (0, Some s) \<and> plan_find_by_id reg s \<noteq> None" by auto
  then show ?case using g s used(1) by (auto simp: less_Suc_eq_0_disj)
qed simp

end

definition plan_id_form :: "string \<Rightarrow> bool" where
  "plan_id_form s = id_form ''pln_'' s"

interpretation random_ids: id_service plan_ids "\<lambda>src. \<forall>k. entropy_ok (src k)" plan_id_form
proof
  fix src :: "nat \<Rightarrow> entropy" and k rc out
  assume ok: "\<forall>k. entropy_ok (src k)"
  show "plan_ids src k = (rc, out) \<Longrightarrow> rc \<le> 0"
    using morph_random_id_result(1) [of "src k"] ok by (auto simp: plan_ids_def)
  show "plan_ids src k = (0, out) \<Longrightarrow> \<exists>s. out = Some s \<and> plan_id_form s \<and> length s < PLAN_ID_MAX"
    using morph_random_id_result(2) [of "src k"] ok by (auto simp: plan_ids_def plan_id_form_def)
qed

section \<open>The registry invariant\<close>

text \<open>
  What the fixed tables promise: every string fits its array, a plan has 1 to 32 steps numbered from 1, and
  the active step is one of them or -1; there are at most eight plans with different identifiers.
\<close>

definition step_wf :: "plan_step \<Rightarrow> bool" where
  "step_wf s = (length (step_description s) < PLAN_STEP_DESC_MAX \<and> length (step_status s) < PLAN_STATUS_MAX)"

definition plan_wf :: "plan \<Rightarrow> bool" where
  "plan_wf p = (plan_id_form (plan_id p) \<and> length (plan_id p) < PLAN_ID_MAX \<and> length (plan_name p) < PLAN_NAME_MAX
     \<and> length (plan_goal p) < PLAN_GOAL_MAX
     \<and> plan_steps p \<noteq> [] \<and> length (plan_steps p) \<le> PLAN_MAX_STEPS
     \<and> map step_id (plan_steps p) = map (\<lambda>i. int i + 1) [0..<length (plan_steps p)]
     \<and> list_all step_wf (plan_steps p)
     \<and> -1 \<le> active_step p \<and> active_step p < int (length (plan_steps p)))"

definition registry_wf :: "plan_registry \<Rightarrow> bool" where
  "registry_wf reg = (length (plans reg) \<le> PLAN_MAX_PLANS \<and> list_all plan_wf (plans reg) \<and> distinct (map plan_id (plans reg)))"

lemmas plan_limits = PLAN_NAME_MAX_def PLAN_ID_MAX_def PLAN_GOAL_MAX_def PLAN_STEP_DESC_MAX_def
  PLAN_MAX_STEPS_def PLAN_MAX_PLANS_def PLAN_STATUS_MAX_def

lemma strncpy_fixed_fits: "0 < n \<Longrightarrow> length (strncpy_fixed n s) < n"
  by (simp add: strncpy_fixed_def)

lemma set_status_props [simp]:
  "length (set_status ss i st) = length ss" "map step_id (set_status ss i st) = map step_id ss"
  "set_status ss i st = [] \<longleftrightarrow> ss = []"
proof -
  show "set_status ss i st = [] \<longleftrightarrow> ss = []" by (simp add: set_status_def)
  show "length (set_status ss i st) = length ss" by (simp add: set_status_def)
  show "map step_id (set_status ss i st) = map step_id ss"
    by (cases "i < length ss") (simp_all add: set_status_def map_update list_update_same_conv list_update_beyond)
qed

lemma set_status_wf: "list_all step_wf ss \<Longrightarrow> i < length ss \<Longrightarrow> list_all step_wf (set_status ss i st)"
  by (auto simp: list_all_length set_status_def nth_list_update step_wf_def strncpy_fixed_fits PLAN_STATUS_MAX_def)

lemma new_steps_wf:
  assumes "0 < n"
  shows "map step_id (map (\<lambda>i. new_step i (f i)) [0..<n]) = map (\<lambda>i. int i + 1) [0..<n]"
    "list_all step_wf (map (\<lambda>i. new_step i (f i)) [0..<n])"
  by (auto simp: new_step_def step_wf_def list_all_iff strncpy_fixed_fits plan_limits split: option.splits)

lemma find_step:
  assumes "plan_wf p"
  shows "find_from (\<lambda>s. step_id s = sid) 0 (plan_steps p)
       = (if 1 \<le> sid \<and> sid \<le> int (length (plan_steps p)) then Some (nat (sid - 1)) else None)"
proof -
  have ids: "step_id (plan_steps p ! i) = int i + 1" if "i < length (plan_steps p)" for i
  proof -
    have "map step_id (plan_steps p) ! i = map (\<lambda>i. int i + 1) [0..<length (plan_steps p)] ! i"
      using assms by (simp add: plan_wf_def)
    then show ?thesis using that by simp
  qed
  show ?thesis
  proof (cases "1 \<le> sid \<and> sid \<le> int (length (plan_steps p))")
    case True
    then have "nat (sid - 1) < length (plan_steps p)" by linarith
    moreover have "step_id (plan_steps p ! k) \<noteq> sid" if "k < nat (sid - 1)" for k
      using that ids [of k] calculation by simp
    ultimately have "find_from (\<lambda>s. step_id s = sid) 0 (plan_steps p) = Some (nat (sid - 1))"
      using True ids [of "nat (sid - 1)"] by (simp add: find_from_Some)
    then show ?thesis using True by simp
  next
    case False
    have "step_id s \<noteq> sid" if "s \<in> set (plan_steps p)" for s
    proof -
      obtain i where "i < length (plan_steps p)" "s = plan_steps p ! i" using \<open>s \<in> _\<close> by (auto simp: in_set_conv_nth)
      then show ?thesis using ids [of i] False by auto
    qed
    then show ?thesis using False by (auto simp: find_from_None)
  qed
qed

lemma plan_update_step_ptr_wf:
  assumes "plan_wf p" "plan_update_step_ptr p sid status = (p', rc)"
  shows "plan_wf p' \<and> plan_id p' = plan_id p \<and> plan_name p' = plan_name p"
proof (cases "find_from (\<lambda>s. step_id s = sid) 0 (plan_steps p)")
  case None
  then show ?thesis using assms by (simp add: plan_update_step_ptr_def)
next
  case (Some idx)
  then have idx: "idx < length (plan_steps p)" by (simp add: find_from_Some)
  let ?q = "p\<lparr>plan_steps := set_status (plan_steps p) idx status\<rparr>"
  have q: "plan_wf ?q" using assms(1) idx by (auto simp: plan_wf_def set_status_wf)
  show ?thesis
  proof (cases "find_from (\<lambda>s. step_status s = ''pending'') (Suc idx) (drop (Suc idx) (plan_steps ?q))")
    case None
    then show ?thesis using assms(2) Some q idx
      by (auto simp: plan_update_step_ptr_def Let_def plan_wf_def split: if_splits)
  next
    case next': (Some n)
    then have "n < length (plan_steps p)" by (auto simp: find_from_Some)
    then have "plan_wf (?q\<lparr>active_step := int n, plan_steps := set_status (plan_steps ?q) n ''in_progress''\<rparr>)"
      using q by (auto simp: plan_wf_def set_status_wf)
    then show ?thesis using assms(2) Some q idx next'
      by (auto simp: plan_update_step_ptr_def Let_def plan_wf_def split: if_splits)
  qed
qed

section \<open>Runs of the registry\<close>

text \<open>What the agent can do with the registry; each creation meets some state of the random device.\<close>

inductive plan_reach :: "plan_registry \<Rightarrow> bool" where
  init: "plan_reach plan_registry_init"
| create: "plan_reach reg \<Longrightarrow> \<forall>k. entropy_ok (src k) \<Longrightarrow> plan_create (plan_ids src) reg name goal descs = (reg', r)
     \<Longrightarrow> plan_reach reg'"
| update: "plan_reach reg \<Longrightarrow> plan_update_step reg name sid status = (reg', rc) \<Longrightarrow> plan_reach reg'"
| update_id: "plan_reach reg \<Longrightarrow> plan_update_step_by_id reg ident sid status = (reg', rc) \<Longrightarrow> plan_reach reg'"

lemma plan_create_cases:
  assumes "\<forall>k. entropy_ok (src k)" "plan_create (plan_ids src) reg name goal descs = (reg', r)"
  obtains (fail) "reg' = reg" "r = None"
  | (ok) p where "reg' = reg\<lparr>plans := plans reg @ [p]\<rparr>" "r = Some (length (plans reg))" "length (plans reg) < PLAN_MAX_PLANS"
      "plan_wf p" "plan_find_by_id reg (plan_id p) = None" "plan_name p = strncpy_fixed PLAN_NAME_MAX name"
      "plan_goal p = (case goal of None \<Rightarrow> [] | Some g \<Rightarrow> strncpy_fixed PLAN_GOAL_MAX g)"
      "plan_steps p = map (\<lambda>i. new_step i (descs ! i)) [0..<min (length descs) PLAN_MAX_STEPS]" "active_step p = 0"
proof (cases "descs = [] \<or> length (plans reg) \<ge> PLAN_MAX_PLANS")
  case True
  then show thesis using fail assms(2) by (auto simp: plan_create_def split: if_splits)
next
  case False
  show thesis
  proof (cases "plan_generate_id (plan_ids src) reg")
    case (Inl e)
    then show thesis using fail assms(2) False by (auto simp: plan_create_def)
  next
    case (Inr ident)
    let ?n = "min (length descs) PLAN_MAX_STEPS"
    have n: "0 < ?n" using False by (simp add: PLAN_MAX_STEPS_def)
    have i: "plan_find_by_id reg ident = None" "plan_id_form ident" "length ident < PLAN_ID_MAX"
      using random_ids.tries_fresh [OF assms(1)] Inr by (auto simp: plan_generate_id_def)
    define p where "p = \<lparr>plan_id = ident, plan_name = strncpy_fixed PLAN_NAME_MAX name,
                     plan_goal = (case goal of None \<Rightarrow> [] | Some g \<Rightarrow> strncpy_fixed PLAN_GOAL_MAX g),
                     plan_steps = map (\<lambda>i. new_step i (descs ! i)) [0..<?n], active_step = 0\<rparr>"
    have g: "length (plan_goal p) < PLAN_GOAL_MAX"
      by (auto simp: p_def strncpy_fixed_fits PLAN_GOAL_MAX_def split: option.splits)
    have "plan_wf p"
      using i n g new_steps_wf [OF n, of "\<lambda>i. descs ! i"]
      by (auto simp: plan_wf_def p_def strncpy_fixed_fits PLAN_NAME_MAX_def)
    moreover have "reg' = reg\<lparr>plans := plans reg @ [p]\<rparr> \<and> r = Some (length (plans reg))"
      using assms(2) False Inr by (auto simp: plan_create_def Let_def p_def)
    ultimately show thesis using ok [of p] False i by (auto simp: p_def)
  qed
qed

lemma update_found_wf:
  assumes "registry_wf reg" "update_found reg found sid status = (reg', rc)" "\<forall>i. found = Some i \<longrightarrow> i < length (plans reg)"
  shows "registry_wf reg'"
proof (cases found)
  case None
  then show ?thesis using assms by (simp add: update_found_def)
next
  case (Some i)
  then have i: "i < length (plans reg)" using assms(3) by simp
  obtain p where p: "plan_update_step_ptr (plans reg ! i) sid status = (p, rc)" "reg' = reg\<lparr>plans := (plans reg)[i := p]\<rparr>"
    using assms(2) Some by (auto simp: update_found_def split: prod.splits)
  have "plan_wf (plans reg ! i)" using assms(1) i by (auto simp: registry_wf_def list_all_length)
  from plan_update_step_ptr_wf [OF this p(1)] have w: "plan_wf p" "plan_id p = plan_id (plans reg ! i)" by auto
  have "map plan_id ((plans reg)[i := p]) = map plan_id (plans reg)"
    using w(2) i by (simp add: map_update list_update_same_conv)
  then show ?thesis using assms(1) p(2) w i by (auto simp: registry_wf_def list_all_length nth_list_update)
qed

lemma find_in_range:
  "plan_find_by_name reg name = Some i \<Longrightarrow> i < length (plans reg)"
  "plan_find_by_id reg ident = Some i \<Longrightarrow> i < length (plans reg)"
  by (auto simp: plan_find_by_name_def plan_find_by_id_def find_from_Some)

lemma plan_reach_wf: "plan_reach reg \<Longrightarrow> registry_wf reg"
proof (induction rule: plan_reach.induct)
  case init
  then show ?case by (simp add: registry_wf_def plan_registry_init_def)
next
  case (create reg src name goal descs reg' r)
  from create(2,3) show ?case
  proof (cases rule: plan_create_cases)
    case (ok p)
    have "plan_id p \<notin> set (map plan_id (plans reg))"
      using ok(5) by (auto simp: plan_find_by_id_def find_from_None)
    then show ?thesis using ok create.IH by (auto simp: registry_wf_def)
  qed (use create.IH in simp)
next
  case (update reg name sid status reg' rc)
  then show ?case using update_found_wf find_in_range(1) by (metis plan_update_step_def)
next
  case (update_id reg ident sid status reg' rc)
  then show ?case using update_found_wf find_in_range(2) by (metis plan_update_step_by_id_def)
qed

text \<open>
  C34. Whatever the agent does with plans, and whatever the random device answers, the registry stays well
  formed: at most eight plans with pairwise different identifiers \<open>pln_\<close> + 32 hexadecimal digits, each with 1 to 32
  steps numbered from 1, every text within its array, and an active step that is one of the
  plan's steps or -1.
\<close>

theorem plan_registry_invariant:
  assumes "plan_reach reg"
  shows "length (plans reg) \<le> 8 \<and> distinct (map plan_id (plans reg)) \<and> list_all plan_wf (plans reg)"
  using plan_reach_wf [OF assms] by (simp add: registry_wf_def PLAN_MAX_PLANS_def)

definition sample_entropy :: "nat \<Rightarrow> entropy" where
  "sample_entropy k = \<lparr>dev_open = None, dev_read = \<lambda>i n. Inr [CHR ''A'']\<rparr>"

definition sample_registry :: plan_registry where
  "sample_registry = fst (plan_create (plan_ids sample_entropy) plan_registry_init ''ship'' None [Some ''build'', Some ''test''])"

lemma sample_entropy_ok: "\<forall>k. entropy_ok (sample_entropy k)"
  by (simp add: entropy_ok_def sample_entropy_def)

lemma sample_registry_reach: "plan_reach sample_registry"
  by (rule plan_reach.create [OF plan_reach.init sample_entropy_ok]) (auto simp: sample_registry_def intro: prod_eqI)

lemma sample_registry_eq:
  "plans sample_registry =
     [\<lparr>plan_id = ''pln_41414141414141414141414141414141'', plan_name = ''ship'', plan_goal = [],
       plan_steps = [\<lparr>step_id = 1, step_description = ''build'', step_status = ''in_progress''\<rparr>,
                     \<lparr>step_id = 2, step_description = ''test'', step_status = ''pending''\<rparr>], active_step = 0\<rparr>]"
  by code_simp

theorem plan_registry_invariant_witness:
  "plan_reach sample_registry \<and> length (plans sample_registry) \<le> 8 \<and> list_all plan_wf (plans sample_registry)"
  using plan_registry_invariant [OF sample_registry_reach] sample_registry_reach by simp

section \<open>Updates\<close>

lemma plan_update_step_ptr_effect:
  assumes "plan_wf p" "1 \<le> sid" "sid \<le> int (length (plan_steps p))" "plan_update_step_ptr p sid status = (p', rc)"
  shows "rc = 0 \<and> length (plan_steps p') = length (plan_steps p)
    \<and> step_status (plan_steps p' ! nat (sid - 1)) = strncpy_fixed PLAN_STATUS_MAX status
    \<and> (\<forall>j < length (plan_steps p). j \<noteq> nat (sid - 1) \<longrightarrow>
         plan_steps p' ! j = plan_steps p ! j
         \<or> is_final status \<and> active_step p' = int j \<and> active_step p = sid - 1 \<and> nat (sid - 1) < j
           \<and> step_status (plan_steps p ! j) = ''pending''
           \<and> plan_steps p' ! j = (plan_steps p ! j)\<lparr>step_status := ''in_progress''\<rparr>)"
proof -
  let ?i = "nat (sid - 1)"
  have i: "?i < length (plan_steps p)" "int ?i = sid - 1" using assms(2,3) by auto
  have f: "find_from (\<lambda>s. step_id s = sid) 0 (plan_steps p) = Some ?i" using find_step [OF assms(1)] assms(2,3) by simp
  have ip: "strncpy_fixed PLAN_STATUS_MAX ''in_progress'' = ''in_progress''" by (simp add: strncpy_fixed_def PLAN_STATUS_MAX_def)
  let ?ss = "set_status (plan_steps p) ?i status"
  show ?thesis
  proof (cases "find_from (\<lambda>s. step_status s = ''pending'') (Suc ?i) (drop (Suc ?i) ?ss)")
    case None
    then show ?thesis using assms(4) f i
      by (auto simp: plan_update_step_ptr_def Let_def set_status_def split: if_splits)
  next
    case (Some n)
    then have n: "?i < n" "n < length (plan_steps p)" "step_status (?ss ! n) = ''pending''" by (auto simp: find_from_Some)
    then show ?thesis using assms(4) f i Some ip
      by (auto simp: plan_update_step_ptr_def Let_def set_status_def nth_list_update split: if_splits)
  qed
qed

text \<open>
  An update either reports -ENOENT and changes nothing, exactly when no plan has the identifier or the
  plan has no step with that number, or succeeds, changes only that plan, gives that step the
  status (cut to its array) and touches at most one other step: when the active step is finished, the later
  step that becomes active goes from pending to in progress.
\<close>

theorem plan_update_step_by_id_spec:
  assumes "plan_reach reg" "plan_update_step_by_id reg ident sid status = (reg', rc)"
  shows "(rc = 0 \<or> rc = - ENOENT) \<and> (rc \<noteq> 0 \<longrightarrow> reg' = reg)
    \<and> (rc = 0 \<longleftrightarrow> (\<exists>p \<in> set (plans reg). plan_id p = ident \<and> 1 \<le> sid \<and> sid \<le> int (length (plan_steps p))))
    \<and> (rc = 0 \<longrightarrow> (\<exists>i p p'. i < length (plans reg) \<and> plans reg ! i = p \<and> plan_id p = ident
        \<and> reg' = reg\<lparr>plans := (plans reg)[i := p']\<rparr>
        \<and> step_status (plan_steps p' ! nat (sid - 1)) = strncpy_fixed PLAN_STATUS_MAX status
        \<and> (\<forall>j < length (plan_steps p). j \<noteq> nat (sid - 1) \<longrightarrow>
             plan_steps p' ! j = plan_steps p ! j
             \<or> is_final status \<and> active_step p' = int j \<and> active_step p = sid - 1 \<and> nat (sid - 1) < j
               \<and> step_status (plan_steps p ! j) = ''pending''
               \<and> plan_steps p' ! j = (plan_steps p ! j)\<lparr>step_status := ''in_progress''\<rparr>)))"
proof (cases "plan_find_by_id reg ident")
  case None
  then have "\<forall>p \<in> set (plans reg). plan_id p \<noteq> ident" by (simp add: plan_find_by_id_def find_from_None)
  moreover have "reg' = reg" "rc = - ENOENT" using assms(2) None by (auto simp: plan_update_step_by_id_def update_found_def)
  ultimately show ?thesis by auto
next
  case (Some i)
  note w = plan_reach_wf [OF assms(1)]
  have i: "i < length (plans reg)" "plan_id (plans reg ! i) = ident"
    using Some by (auto simp: plan_find_by_id_def find_from_Some)
  have uniq: "p = plans reg ! i" if "p \<in> set (plans reg)" "plan_id p = ident" for p
    using w i that by (auto simp: registry_wf_def distinct_map inj_on_def)
  have pw: "plan_wf (plans reg ! i)" using w i by (auto simp: registry_wf_def list_all_length)
  obtain p' where p': "plan_update_step_ptr (plans reg ! i) sid status = (p', rc)" "reg' = reg\<lparr>plans := (plans reg)[i := p']\<rparr>"
    using assms(2) Some by (auto simp: plan_update_step_by_id_def update_found_def split: prod.splits)
  show ?thesis
  proof (cases "1 \<le> sid \<and> sid \<le> int (length (plan_steps (plans reg ! i)))")
    case False
    then have "find_from (\<lambda>s. step_id s = sid) 0 (plan_steps (plans reg ! i)) = None" using find_step [OF pw, of sid] by simp
    then have "p' = plans reg ! i" "rc = - ENOENT" using p'(1) by (auto simp: plan_update_step_ptr_def)
    then show ?thesis using p'(2) uniq False by auto
  next
    case True
    then have s1: "1 \<le> sid" "sid \<le> int (length (plan_steps (plans reg ! i)))" by auto
    note e = plan_update_step_ptr_effect [OF pw s1 p'(1)]
    have "\<exists>p \<in> set (plans reg). plan_id p = ident \<and> 1 \<le> sid \<and> sid \<le> int (length (plan_steps p))"
      using i s1 nth_mem by blast
    then show ?thesis using e p'(2) i by blast
  qed
qed

theorem plan_update_step_by_id_spec_witness:
  "\<exists>reg'. plan_update_step_by_id sample_registry ''pln_41414141414141414141414141414141'' 1 ''completed'' = (reg', 0)
     \<and> map step_status (plan_steps (plans reg' ! 0)) = [''completed'', ''in_progress'']"
proof -
  let ?u = "plan_update_step_by_id sample_registry ''pln_41414141414141414141414141414141'' 1 ''completed''"
  obtain reg' rc where u: "?u = (reg', rc)" by fastforce
  have "rc = 0" using plan_update_step_by_id_spec [OF sample_registry_reach u] by (simp add: sample_registry_eq)
  moreover have "map step_status (plan_steps (plans (fst ?u) ! 0)) = [''completed'', ''in_progress'']" by code_simp
  ultimately show ?thesis using u by auto
qed

section \<open>A plan runs to completion\<close>

lemma find_from_map: "find_from (\<lambda>x. P (f x)) i xs = find_from P i (map f xs)"
  by (induction "\<lambda>x. P (f x)" i xs rule: find_from.induct) auto

lemma set_status_statuses:
  "i < length ss \<Longrightarrow> map step_status (set_status ss i st) = (map step_status ss)[i := strncpy_fixed PLAN_STATUS_MAX st]"
  by (simp add: set_status_def map_update)

lemma is_final_strncpy: "is_final f \<Longrightarrow> strncpy_fixed PLAN_STATUS_MAX f = f"
  by (auto simp: is_final_def strncpy_fixed_def PLAN_STATUS_MAX_def)

lemma finish_active:
  assumes "plan_wf p" "map step_status (plan_steps p) = fs @ ''in_progress'' # replicate m ''pending''"
    "active_step p = int (length fs)" "is_final f"
  shows "\<exists>p'. plan_update_step_ptr p (int (length fs) + 1) f = (p', 0) \<and> plan_wf p'
    \<and> map step_status (plan_steps p') = (fs @ [f]) @ (if m = 0 then [] else ''in_progress'' # replicate (m - 1) ''pending'')
    \<and> active_step p' = (if m = 0 then -1 else int (length fs) + 1)"
proof -
  let ?k = "length fs" let ?ss = "set_status (plan_steps p) ?k f"
  have len: "length (plan_steps p) = Suc (?k + m)" using arg_cong [OF assms(2), of length] by simp
  obtain p' rc where u: "plan_update_step_ptr p (int ?k + 1) f = (p', rc)" by fastforce
  have find: "find_from (\<lambda>s. step_id s = int ?k + 1) 0 (plan_steps p) = Some ?k"
    using find_step [OF assms(1), of "int ?k + 1"] len by simp
  have st: "map step_status ?ss = fs @ f # replicate m ''pending''"
    using assms(2) len by (simp add: set_status_statuses is_final_strncpy [OF assms(4)] list_update_append)
  then have d: "map step_status (drop (Suc ?k) ?ss) = replicate m ''pending''" by (simp add: drop_map [symmetric])
  have nx: "find_from (\<lambda>s. step_status s = ''pending'') (Suc ?k) (drop (Suc ?k) ?ss) = (if m = 0 then None else Some (Suc ?k))"
    unfolding find_from_map [where f = step_status and P = "\<lambda>x. x = ''pending''"] d by (cases m) auto
  have wf: "plan_wf p'" using plan_update_step_ptr_wf [OF assms(1) u] by simp
  show ?thesis
  proof (cases m)
    case 0
    then have "p' = p\<lparr>plan_steps := ?ss, active_step := -1\<rparr>" "rc = 0"
      using u find nx assms(3,4) by (auto simp: plan_update_step_ptr_def Let_def)
    then show ?thesis using u wf st 0 by simp
  next
    case (Suc m')
    then have "p' = p\<lparr>plan_steps := set_status ?ss (Suc ?k) ''in_progress'', active_step := int (Suc ?k)\<rparr>" "rc = 0"
      using u find nx assms(3,4) by (auto simp: plan_update_step_ptr_def Let_def)
    moreover have "map step_status (set_status ?ss (Suc ?k) ''in_progress'') = (fs @ [f]) @ ''in_progress'' # replicate m' ''pending''"
      using st Suc len by (simp add: set_status_statuses list_update_append strncpy_fixed_def PLAN_STATUS_MAX_def)
    ultimately show ?thesis using u wf Suc by simp
  qed
qed

text \<open>Finishing the steps with the given numbers and statuses one after the other.\<close>

definition finish_steps :: "plan \<Rightarrow> string list \<Rightarrow> plan" where
  "finish_steps p fs = foldl (\<lambda>p i. fst (plan_update_step_ptr p (int i + 1) (fs ! i))) p [0..<length fs]"

lemma finish_steps_snoc:
  "finish_steps p (fs @ [f]) = fst (plan_update_step_ptr (finish_steps p fs) (int (length fs) + 1) f)"
proof -
  have "foldl (\<lambda>p i. fst (plan_update_step_ptr p (int i + 1) ((fs @ [f]) ! i))) p [0..<length fs] = finish_steps p fs"
    unfolding finish_steps_def by (rule foldl_cong) (auto simp: nth_append)
  then show ?thesis by (simp add: finish_steps_def)
qed

lemma finish_steps_progress:
  assumes "plan_wf p" "map step_status (plan_steps p) = ''in_progress'' # replicate m ''pending''" "active_step p = 0"
  shows "list_all is_final fs \<Longrightarrow> length fs \<le> Suc m \<Longrightarrow>
    plan_wf (finish_steps p fs)
    \<and> map step_status (plan_steps (finish_steps p fs))
      = fs @ (if length fs = Suc m then [] else ''in_progress'' # replicate (m - length fs) ''pending'')
    \<and> active_step (finish_steps p fs) = (if length fs = Suc m then -1 else int (length fs))"
proof (induction fs rule: rev_induct)
  case Nil
  then show ?case using assms by (simp add: finish_steps_def)
next
  case (snoc f fs)
  then have IH: "plan_wf (finish_steps p fs)"
    "map step_status (plan_steps (finish_steps p fs)) = fs @ ''in_progress'' # replicate (m - length fs) ''pending''"
    "active_step (finish_steps p fs) = int (length fs)" by auto
  have "is_final f" using snoc.prems by simp
  from finish_active [OF IH this] show ?case
    using snoc.prems(2) by (auto simp: finish_steps_snoc)
qed

text \<open>
  C37. A plan that was created is carried to its end: reporting a final status for the steps one after the
  other makes each next step active in turn, and when the last one is reported every step has its
  final status, no step is active and the plan counts as done.
\<close>

theorem plan_runs_to_completion:
  assumes "\<forall>k. entropy_ok (src k)" "plan_create (plan_ids src) reg name goal descs = (reg', Some i)"
    and "n = min (length descs) 32" "length fs \<le> n" "list_all is_final fs"
  shows "\<exists>q. finish_steps (plans reg' ! i) fs = q
    \<and> map step_status (plan_steps q)
      = fs @ (if length fs = n then [] else ''in_progress'' # replicate (n - 1 - length fs) ''pending'')
    \<and> active_step q = (if length fs = n then -1 else int (length fs)) \<and> all_done q = (length fs = n)"
  using assms(1,2)
proof (cases rule: plan_create_cases)
  case (ok p)
  have n: "n \<noteq> 0" using ok(4,8) assms(3) by (auto simp: plan_wf_def PLAN_MAX_STEPS_def)
  then obtain m where m: "n = Suc m" by (cases n) auto
  have p: "plans reg' ! i = p" using ok by auto
  have "map step_status (plan_steps p) = map (\<lambda>i. if i = 0 then ''in_progress'' else ''pending'') [0..<n]"
    unfolding ok(8) using assms(3) by (auto simp: new_step_def strncpy_fixed_def PLAN_STATUS_MAX_def PLAN_MAX_STEPS_def)
  also have "\<dots> = ''in_progress'' # replicate m ''pending''"
    unfolding m map_upt_Suc by (simp add: map_replicate_const)
  finally have st: "map step_status (plan_steps p) = ''in_progress'' # replicate m ''pending''" .
  have "length fs \<le> Suc m" using assms(4) m by simp
  note r = finish_steps_progress [OF ok(4) st ok(9) assms(5) this]
  have "all_done (finish_steps p fs) = list_all is_final (map step_status (plan_steps (finish_steps p fs)))"
    by (simp add: all_done_def list_all_iff)
  also have "\<dots> = (length fs = n)" using r assms(5) m by (simp add: is_final_def)
  finally show ?thesis using r p m by simp
qed simp

theorem plan_runs_to_completion_witness:
  "map step_status (plan_steps (finish_steps (plans sample_registry ! 0) [''completed'', ''failed''])) = [''completed'', ''failed'']
   \<and> all_done (finish_steps (plans sample_registry ! 0) [''completed'', ''failed''])"
proof -
  have c: "plan_create (plan_ids sample_entropy) plan_registry_init ''ship'' None [Some ''build'', Some ''test'']
      = (sample_registry, Some 0)"
    by code_simp
  show ?thesis
    using plan_runs_to_completion [OF sample_entropy_ok c refl, of "[''completed'', ''failed'']"] by (simp add: is_final_def)
qed

section \<open>The formatted text\<close>

text \<open>The reference: the whole text of the registry, without any buffer.\<close>

definition plan_pieces :: "plan \<Rightarrow> string list" where
  "plan_pieces p = [head_line p] @ (if plan_goal p \<noteq> [] then [goal_line p] else []) @ [count_line p]
     @ (if all_done p then ['' [all completed]''] else [])
     @ map (\<lambda>j. step_line (active_step p) j (plan_steps p ! j)) [0..<length (plan_steps p)]"

fun registry_text :: "plan list \<Rightarrow> string" where
  "registry_text [] = []"
| "registry_text [p] = concat (plan_pieces p)"
| "registry_text (p # ps) = concat (plan_pieces p) @ [LF] @ registry_text ps"

text \<open>The buffer after text \<open>t\<close> was sent to it piece by piece.\<close>

definition filled :: "nat \<Rightarrow> string \<Rightarrow> rc \<times> string option" where
  "filled n t =
     (if t = [] then (0, None)
      else if length t < n then (0, Some t)
      else (- ENOSPC, if n = 1 then None else Some (take (n - 1) t)))"

lemma emit_filled:
  assumes "0 < n" "s \<noteq> []"
  shows "emit n s (filled n t) = filled n (t @ s)"
proof -
  obtain k where "length s = Suc k" using assms(2) by (cases s) auto
  then show ?thesis
    using assms by (cases "t = []") (auto simp: emit_def filled_def append_str_def buf_pos_def Let_def)
qed

lemma emits_filled:
  "0 < n \<Longrightarrow> [] \<notin> set ss \<Longrightarrow> fold (emit n) ss (filled n t) = filled n (t @ concat ss)"
  by (induction ss arbitrary: t) (auto simp: emit_filled)

lemma format_steps_emits:
  "format_steps n a j ss st = fold (emit n) (map (\<lambda>i. step_line a (j + i) (ss ! i)) [0..<length ss]) st"
proof (induction ss arbitrary: j st)
  case (Cons s ss)
  have "map (\<lambda>i. step_line a (j + i) ((s # ss) ! i)) [0..<length (s # ss)]
      = step_line a j s # map (\<lambda>i. step_line a (Suc j + i) (ss ! i)) [0..<length ss]"
    by (simp add: map_upt_Suc del: upt_Suc)
  then show ?case using Cons.IH by simp
qed simp

lemma pieces_nonempty: "[] \<notin> set (plan_pieces p)"
  by (auto simp: plan_pieces_def head_line_def goal_line_def count_line_def step_line_def)

lemma format_plan_emits:
  "format_plan n p st =
     fold (emit n) (((if buf_pos (snd st) > 0 then [LF] else []) @ head_line p) # tl (plan_pieces p)) st"
  by (simp add: format_plan_def Let_def plan_pieces_def format_steps_emits)

lemma format_plan_filled:
  assumes "0 < n"
  shows "format_plan n p (filled n t) = filled n (t @ (if t = [] then [] else [LF]) @ concat (plan_pieces p))"
proof -
  have c: "concat (plan_pieces p) = head_line p @ concat (tl (plan_pieces p))" by (simp add: plan_pieces_def)
  have hd: "head_line p \<noteq> []" by (simp add: head_line_def)
  have tl: "[] \<notin> set (tl (plan_pieces p))" using pieces_nonempty by (metis list.set_sel(2) list.sel(2))
  have skip: "fst st < 0 \<Longrightarrow> fold (emit n) ss st = st" for ss st
    by (induction ss) (auto simp: emit_def)
  show ?thesis
  proof (cases "fst (filled n t) < 0")
    case True
    then have "t \<noteq> []" "n \<le> length t" by (auto simp: filled_def split: if_splits)
    then have "filled n (t @ u) = filled n t" for u by (auto simp: filled_def)
    then show ?thesis unfolding format_plan_emits using skip [OF True] by (metis append.assoc)
  next
    case False
    then have "buf_pos (snd (filled n t)) = length t" by (auto simp: filled_def buf_pos_def split: if_splits)
    then show ?thesis
      unfolding format_plan_emits c using assms hd tl by (cases "t = []") (simp_all add: emit_filled emits_filled)
  qed
qed

lemma format_plans_filled:
  "0 < n \<Longrightarrow> fold (format_plan n) ps (filled n t) =
     filled n (t @ (if t = [] \<or> ps = [] then [] else [LF]) @ registry_text ps)"
proof (induction ps arbitrary: t)
  case (Cons p ps)
  let ?t = "t @ (if t = [] then [] else [LF]) @ concat (plan_pieces p)"
  have ne: "?t \<noteq> []" by (simp add: plan_pieces_def head_line_def)
  have "fold (format_plan n) (p # ps) (filled n t) = filled n (?t @ (if ps = [] then [] else [LF]) @ registry_text ps)"
    unfolding fold_simps format_plan_filled [OF Cons.prems] Cons.IH [OF Cons.prems, of ?t] using ne by presburger
  then show ?case by (cases ps) simp_all
qed simp

text \<open>
  The formatted text never leaves its buffer and is exact: it is the text of all plans when that fits
  with its terminator, and otherwise the longest prefix that fits, with -ENOSPC; without plans it is
  the notice, cut to the buffer.  Only for a buffer of one byte is nothing written when there are plans.
\<close>

theorem plan_get_formatted_spec:
  "plan_get_formatted reg n =
     (if n = 0 then (- EINVAL, None)
      else if plans reg = [] then (0, Some (take (n - 1) no_plans_text))
      else if length (registry_text (plans reg)) < n then (0, Some (registry_text (plans reg)))
      else (- ENOSPC, if n = 1 then None else Some (take (n - 1) (registry_text (plans reg)))))"
proof (cases "n = 0 \<or> plans reg = []")
  case True
  then show ?thesis by (auto simp: plan_get_formatted_def Let_def buf_pos_def)
next
  case False
  have "filled n [] = (0, None)" by (simp add: filled_def)
  with format_plans_filled [of n "plans reg" "[]"] False
  have f: "fold (format_plan n) (plans reg) (0, None) = filled n (registry_text (plans reg))" by simp
  have "registry_text (plans reg) \<noteq> []"
    using False by (cases "plans reg" rule: registry_text.cases) (auto simp: plan_pieces_def head_line_def)
  then show ?thesis using False f by (auto simp: plan_get_formatted_def Let_def filled_def)
qed

section \<open>Where the registry differs from its comments\<close>

text \<open>A name longer than the field is stored cut, so the plan cannot be found under the name it was given.\<close>

lemma plan_long_name_not_found:
  "\<exists>reg. plan_create (plan_ids sample_entropy) plan_registry_init (replicate 70 (CHR ''n'')) None [None] = (reg, Some 0)
     \<and> plan_find reg (replicate 70 (CHR ''n'')) = None"
  by (rule exI [of _ "fst (plan_create (plan_ids sample_entropy) plan_registry_init (replicate 70 (CHR ''n'')) None [None])"])
     code_simp

text \<open>Starting a second step leaves the first one in progress: two steps are in progress and only one is active.\<close>

lemma plan_two_in_progress:
  "map step_status (plan_steps (fst (plan_update_step_ptr (plans sample_registry ! 0) 2 ''in_progress'')))
   = [''in_progress'', ''in_progress'']"
  by code_simp

text \<open>When the active step is finished only later steps are considered: an earlier pending step is never started.\<close>

lemma plan_earlier_pending_abandoned:
  "\<exists>p1 p2 p3. plan_update_step_ptr (plans sample_registry ! 0) 2 ''in_progress'' = (p1, 0)
     \<and> plan_update_step_ptr p1 1 ''pending'' = (p2, 0) \<and> plan_update_step_ptr p2 2 ''completed'' = (p3, 0)
     \<and> active_step p3 = -1 \<and> map step_status (plan_steps p3) = [''pending'', ''completed'']"
  by (simp add: sample_registry_eq plan_update_step_ptr_def set_status_def strncpy_fixed_def PLAN_STATUS_MAX_def is_final_def Let_def)

end
