(* ===== verification/Arena.thy ===== *)
theory Arena
  imports Prelude "HOL-Library.Multiset"
begin

text \<open>
  The arena allocator (\<open>src/util/arena.c\<close>): a chain of regions with a bump pointer each, large blocks of
  their own, cleanup handlers, reset and destruction.

  The chain \<open>a, a->next, \<dots>\<close> is the list \<open>regions\<close>; a buffer from \<open>malloc\<close> is named by a number, and a pointer
  is such a number with an offset.  \<open>fresh\<close> (the next name) and \<open>freed\<close> (the names passed to \<open>free\<close>)
  are ghost state.  \<open>failed\<close> is a mathematical integer.  What \<open>malloc\<close> answers is a parameter of each call.  An
  outer \<open>None\<close> is undefined behaviour: a write outside a buffer, or a dangling \<open>current\<close>.
\<close>

section \<open>The model\<close>

definition ARENA_ALIGN :: nat where "ARENA_ALIGN = 8"
definition ARENA_DEFAULT_SIZE :: nat where "ARENA_DEFAULT_SIZE = 64 * 1024"
definition ARENA_LARGE_RATIO :: nat where "ARENA_LARGE_RATIO = 2"
definition ARENA_MAX_FAILED :: int where "ARENA_MAX_FAILED = 4"

type_synonym ptr = "nat \<times> nat"

record region =
  r_name :: nat
  r_buf :: "cell list"
  r_cap :: size_t
  r_used :: size_t
  r_failed :: int

record arena_large =
  l_name :: nat
  l_buf :: "cell list"

record arena_cleanup =
  c_handler :: "nat option"
  c_data :: "ptr option"

record arena =
  regions :: "region list"
  current :: "nat option"
  larges :: "arena_large list"
  cleanups :: "arena_cleanup list"
  fresh :: nat
  freed :: "nat list"

text \<open>The answers of \<open>malloc\<close>: for a region, for a large block (its address) and for its list node.\<close>

record malloc_env =
  region_ok :: bool
  large_addr :: "nat option"
  node_ok :: bool

definition arena_new_region :: "nat \<Rightarrow> size_t \<Rightarrow> region" where
  "arena_new_region name cap = \<lparr>r_name = name, r_buf = mem_alloc cap, r_cap = cap, r_used = 0, r_failed = 0\<rparr>"

definition arena_create :: "bool \<Rightarrow> size_t \<Rightarrow> arena option" where
  "arena_create mem cap =
     (let cap = (if cap = 0 then ARENA_DEFAULT_SIZE else cap)
      in if mem then Some \<lparr>regions = [arena_new_region 0 cap], current = None, larges = [], cleanups = [],
                           fresh = 1, freed = []\<rparr>
         else None)"

definition align_up :: "size_t \<Rightarrow> size_t \<Rightarrow> size_t" where
  "align_up v align = wrap64 (v + align - 1) AND (SIZE_MAX - (align - 1))"

definition arena_alloc_large :: "malloc_env \<Rightarrow> arena \<Rightarrow> size_t \<Rightarrow> size_t \<Rightarrow> (arena \<times> ptr option) option" where
  "arena_alloc_large env a sz align =
     (let align = (if align = 0 then ARENA_ALIGN else align)
      in if sz > SIZE_MAX - align + 1 then Some (a, None)
         else
           let tot = sz + align - 1
           in (case large_addr env of
                None \<Rightarrow> Some (a, None)
              | Some addr \<Rightarrow>
                  if \<not> node_ok env then Some (a\<lparr>fresh := Suc (fresh a), freed := fresh a # freed a\<rparr>, None)
                  else
                    let aligned = align_up addr align
                    in if aligned < addr then None
                       else (case mem_write (mem_alloc tot) (aligned - addr) (replicate sz NUL) of
                           None \<Rightarrow> None
                         | Some buf \<Rightarrow>
                             Some (a\<lparr>larges := \<lparr>l_name = fresh a, l_buf = buf\<rparr> # larges a, fresh := Suc (fresh a)\<rparr>,
                                   Some (fresh a, aligned - addr)))))"

fun alloc_loop :: "size_t \<Rightarrow> size_t \<Rightarrow> nat option \<Rightarrow> region list \<Rightarrow> (region list \<times> nat option \<times> ptr option) option" where
  "alloc_loop sz align c [] = Some ([], c, None)"
| "alloc_loop sz align c (r # rs) =
     (let aligned_used = align_up (r_used r) align;
          new_used = wrap64 (aligned_used + sz)
      in if new_used \<le> r_cap r \<and> new_used \<ge> r_used r then
           (case mem_write (r_buf r) aligned_used (replicate sz NUL) of
              None \<Rightarrow> None
            | Some buf \<Rightarrow>
                Some (r\<lparr>r_buf := buf, r_used := new_used, r_failed := 0\<rparr> # rs, Some (r_name r),
                      Some (r_name r, aligned_used)))
         else
           let r = r\<lparr>r_failed := r_failed r + 1\<rparr>;
               c = (if r_failed r > ARENA_MAX_FAILED
                    then (case rs of [] \<Rightarrow> None | s # _ \<Rightarrow> Some (r_name s)) else c)
           in (case alloc_loop sz align c rs of
                None \<Rightarrow> None
              | Some (rs', c', p) \<Rightarrow> Some (r # rs', c', p)))"

text \<open>The regions before the start of the search, and those from \<open>current\<close> (or from the head) on.\<close>

definition search_split :: "arena \<Rightarrow> region list \<times> region list" where
  "search_split a =
     (case current a of
        None \<Rightarrow> ([], regions a)
      | Some n \<Rightarrow> (takeWhile (\<lambda>r. r_name r \<noteq> n) (regions a), dropWhile (\<lambda>r. r_name r \<noteq> n) (regions a)))"

text \<open>\<open>a->cap\<close>: the arena is its first region.\<close>

definition arena_cap :: "arena \<Rightarrow> size_t" where
  "arena_cap a = r_cap (hd (regions a))"

definition arena_add_region :: "malloc_env \<Rightarrow> arena \<Rightarrow> size_t \<Rightarrow> size_t \<Rightarrow> (arena \<times> ptr option) option" where
  "arena_add_region env a sz align =
     (if \<not> region_ok env then Some (a, None)
      else
        let reg = arena_new_region (fresh a) (arena_cap a);
            aligned_used = align_up 0 align
        in (case mem_write (r_buf reg) aligned_used (replicate sz NUL) of
              None \<Rightarrow> None
            | Some buf \<Rightarrow>
                Some (a\<lparr>regions := hd (regions a) # reg\<lparr>r_buf := buf, r_used := aligned_used + sz\<rparr> # tl (regions a),
                        fresh := Suc (fresh a)\<rparr>,
                      Some (fresh a, aligned_used))))"

definition arena_alloc_aligned :: "malloc_env \<Rightarrow> arena \<Rightarrow> size_t \<Rightarrow> size_t \<Rightarrow> (arena \<times> ptr option) option" where
  "arena_alloc_aligned env a sz align =
     (if sz = 0 then Some (a, None)
      else
        let align = (if align = 0 then ARENA_ALIGN else align)
        in (case search_split a of (before, rs) \<Rightarrow>
             if rs = [] then None
             else (case alloc_loop sz align (current a) rs of
                 None \<Rightarrow> None
               | Some (rs', c, p) \<Rightarrow>
                   let a = a\<lparr>regions := before @ rs', current := c\<rparr>;
                       cap = arena_cap a
                   in (case p of
                        Some q \<Rightarrow> Some (a, Some q)
                      | None \<Rightarrow>
                          if align > cap \<or> sz > cap - align then arena_alloc_large env a sz align
                          else if sz > cap div ARENA_LARGE_RATIO then arena_alloc_large env a sz align
                          else arena_add_region env a sz align))))"

definition arena_alloc :: "malloc_env \<Rightarrow> arena \<Rightarrow> size_t \<Rightarrow> (arena \<times> ptr option) option" where
  "arena_alloc env a sz = arena_alloc_aligned env a sz ARENA_ALIGN"

text \<open>The calls made by the handlers, in order; entries without a handler are passed over.\<close>

definition arena_cleanup_run :: "arena \<Rightarrow> arena \<times> (nat \<times> ptr option) list" where
  "arena_cleanup_run a =
     (a\<lparr>cleanups := []\<rparr>, concat (map (\<lambda>c. case c_handler c of None \<Rightarrow> [] | Some h \<Rightarrow> [(h, c_data c)]) (cleanups a)))"

definition arena_free_large :: "arena \<Rightarrow> arena" where
  "arena_free_large a = a\<lparr>larges := [], freed := map l_name (larges a) @ freed a\<rparr>"

definition arena_reset :: "arena \<Rightarrow> arena \<times> (nat \<times> ptr option) list" where
  "arena_reset a =
     (case arena_cleanup_run a of (a, calls) \<Rightarrow>
        let a = arena_free_large a
        in (a\<lparr>freed := map r_name (tl (regions a)) @ freed a,
              regions := [(hd (regions a))\<lparr>r_used := 0, r_failed := 0\<rparr>], current := None\<rparr>, calls))"

text \<open>What is left after destruction: the names passed to \<open>free\<close> and the calls made.\<close>

definition arena_destroy :: "arena \<Rightarrow> nat list \<times> (nat \<times> ptr option) list" where
  "arena_destroy a =
     (case arena_cleanup_run a of (a, calls) \<Rightarrow>
        let a = arena_free_large a in (map r_name (regions a) @ freed a, calls))"

text \<open>Reading and writing through a pointer.\<close>

definition buffer_of :: "arena \<Rightarrow> nat \<Rightarrow> cell list option" where
  "buffer_of a name =
     (case find (\<lambda>r. r_name r = name) (regions a) of
        Some r \<Rightarrow> Some (r_buf r)
      | None \<Rightarrow> (case find (\<lambda>l. l_name l = name) (larges a) of Some l \<Rightarrow> Some (l_buf l) | None \<Rightarrow> None))"

definition arena_read :: "arena \<Rightarrow> ptr \<Rightarrow> nat \<Rightarrow> cell list option" where
  "arena_read a p n =
     (case buffer_of a (fst p) of
        None \<Rightarrow> None
      | Some b \<Rightarrow> if snd p + n \<le> length b then Some (take n (drop (snd p) b)) else None)"

definition set_buffer :: "arena \<Rightarrow> nat \<Rightarrow> cell list \<Rightarrow> arena" where
  "set_buffer a name b =
     a\<lparr>regions := map (\<lambda>r. if r_name r = name then r\<lparr>r_buf := b\<rparr> else r) (regions a),
       larges := map (\<lambda>l. if l_name l = name then l\<lparr>l_buf := b\<rparr> else l) (larges a)\<rparr>"

definition arena_write :: "arena \<Rightarrow> ptr \<Rightarrow> char list \<Rightarrow> arena option" where
  "arena_write a p bs =
     (case buffer_of a (fst p) of
        None \<Rightarrow> None
      | Some b \<Rightarrow> (case mem_write b (snd p) bs of None \<Rightarrow> None | Some b' \<Rightarrow> Some (set_buffer a (fst p) b')))"

definition arena_strdup :: "malloc_env \<Rightarrow> arena \<Rightarrow> string \<Rightarrow> (arena \<times> ptr option) option" where
  "arena_strdup env a s =
     (let len = length s + 1
      in (case arena_alloc env a len of
           None \<Rightarrow> None
         | Some (a, None) \<Rightarrow> Some (a, None)
         | Some (a, Some dst) \<Rightarrow> (case arena_write a dst (s @ [NUL]) of None \<Rightarrow> None | Some a \<Rightarrow> Some (a, Some dst))))"

definition SIZEOF_CLEANUP :: nat where "SIZEOF_CLEANUP = 24"

text \<open>The handler of a new entry is null until the caller sets it.\<close>

definition arena_cleanup_add :: "malloc_env \<Rightarrow> malloc_env \<Rightarrow> arena \<Rightarrow> size_t \<Rightarrow> (arena \<times> ptr option) option" where
  "arena_cleanup_add env env' a sz =
     (case arena_alloc env a SIZEOF_CLEANUP of
        None \<Rightarrow> None
      | Some (a, None) \<Rightarrow> Some (a, None)
      | Some (a, Some p) \<Rightarrow>
          if sz > 0 then
            (case arena_alloc env' a sz of
               None \<Rightarrow> None
             | Some (a, None) \<Rightarrow> Some (a, None)
             | Some (a, Some d) \<Rightarrow>
                 Some (a\<lparr>cleanups := \<lparr>c_handler = None, c_data = Some d\<rparr> # cleanups a\<rparr>, Some p))
          else Some (a\<lparr>cleanups := \<lparr>c_handler = None, c_data = None\<rparr> # cleanups a\<rparr>, Some p))"

section \<open>Alignment\<close>

lemma and_high_mask:
  assumes "x < 2 ^ n" "k \<le> n"
  shows "(x :: nat) AND (2 ^ n - 2 ^ k) = x - x mod 2 ^ k"
proof -
  have m: "2 ^ n - 2 ^ k = push_bit k (mask (n - k) :: nat)"
  proof -
    have "2 ^ k * 2 ^ (n - k) = (2 ^ n :: nat)" using assms(2) by (simp flip: power_add)
    then show ?thesis by (simp add: push_bit_eq_mult mask_eq_exp_minus_1 diff_mult_distrib mult.commute [of "2 ^ k"])
  qed
  have x: "take_bit n x = x" using assms(1) by (simp add: take_bit_nat_eq_self)
  have "x AND push_bit k (mask (n - k)) = push_bit k (drop_bit k x)"
  proof (rule bit_eqI)
    fix i
    have "bit x i \<Longrightarrow> i < n" using x by (metis bit_take_bit_iff)
    then show "bit (x AND push_bit k (mask (n - k))) i = bit (push_bit k (drop_bit k x)) i"
      by (auto simp: bit_and_iff bit_push_bit_iff bit_mask_iff bit_drop_bit_eq)
  qed
  also have "\<dots> = x - x mod 2 ^ k"
    by (simp add: push_bit_eq_mult drop_bit_eq_div minus_mod_eq_div_mult)
  finally show ?thesis using m by simp
qed

lemma align_up_pow2:
  assumes "v + 2 ^ k \<le> SIZE_MAX"
  shows "v \<le> align_up v (2 ^ k)" "align_up v (2 ^ k) < v + 2 ^ k" "align_up v (2 ^ k) mod 2 ^ k = 0"
proof -
  let ?x = "v + 2 ^ k - 1"
  have k: "k \<le> 64"
  proof (rule ccontr)
    assume "\<not> k \<le> 64"
    then have "(2 ^ 64 :: nat) \<le> 2 ^ k" by (intro power_increasing) auto
    then show False using assms by (simp add: SIZE_MAX_def)
  qed
  have p: "(1 :: nat) \<le> 2 ^ k" by simp
  have w: "wrap64 ?x = ?x" using assms by (intro wrap64_id) linarith
  have x: "?x < 2 ^ 64" using assms by (simp add: SIZE_MAX_def)
  have m: "SIZE_MAX - (2 ^ k - 1) = 2 ^ 64 - 2 ^ k" using p by (simp add: SIZE_MAX_def)
  have e: "align_up v (2 ^ k) = ?x - ?x mod 2 ^ k"
    unfolding align_up_def w m by (rule and_high_mask [OF x k])
  have "?x mod 2 ^ k \<le> 2 ^ k - 1" using mod_less_divisor [of "2 ^ k" ?x] p by linarith
  then show "v \<le> align_up v (2 ^ k)" using e p by linarith
  show "align_up v (2 ^ k) < v + 2 ^ k" using e p by linarith
  show "align_up v (2 ^ k) mod 2 ^ k = 0" unfolding e by (simp add: minus_mod_eq_mult_div)
qed

section \<open>The invariant\<close>

definition region_inv :: "region \<Rightarrow> bool" where
  "region_inv r = (length (r_buf r) = r_cap r \<and> r_used r \<le> r_cap r)"

definition regions_ok :: "size_t \<Rightarrow> region list \<Rightarrow> bool" where
  "regions_ok cap rs = (\<forall>r \<in> set rs. region_inv r \<and> r_cap r = cap)"

lemma regions_okD: "regions_ok cap rs \<Longrightarrow> r \<in> set rs \<Longrightarrow> region_inv r \<and> r_cap r = cap"
  by (simp add: regions_ok_def)

definition arena_names :: "arena \<Rightarrow> nat list" where
  "arena_names a = map r_name (regions a) @ map l_name (larges a) @ freed a"

definition arena_inv :: "arena \<Rightarrow> bool" where
  "arena_inv a = (regions a \<noteq> [] \<and> regions_ok (arena_cap a) (regions a)
     \<and> distinct (arena_names a) \<and> set (arena_names a) = {..<fresh a}
     \<and> (case current a of None \<Rightarrow> True | Some n \<Rightarrow> n \<in> set (map r_name (regions a))))"

text \<open>A block of \<open>m\<close> bytes that the arena has handed out, and blocks that do not overlap.\<close>

definition block_in :: "arena \<Rightarrow> ptr \<Rightarrow> nat \<Rightarrow> bool" where
  "block_in a p m =
     ((\<exists>r \<in> set (regions a). r_name r = fst p \<and> snd p + m \<le> r_used r)
      \<or> (\<exists>l \<in> set (larges a). l_name l = fst p \<and> snd p + m \<le> length (l_buf l)))"

definition apart :: "ptr \<Rightarrow> nat \<Rightarrow> ptr \<Rightarrow> nat \<Rightarrow> bool" where
  "apart p m q n = (fst p \<noteq> fst q \<or> snd p + m \<le> snd q \<or> snd q + n \<le> snd p)"

lemma find_unique:
  assumes "distinct (map f xs)" "x \<in> set xs"
  shows "find (\<lambda>y. f y = f x) xs = Some x"
  using assms by (induction xs) auto

lemma find_None: "n \<notin> set (map f xs) \<Longrightarrow> find (\<lambda>y. f y = n) xs = None"
  by (auto simp: find_None_iff)

lemma buffer_of_region:
  "distinct (arena_names a) \<Longrightarrow> r \<in> set (regions a) \<Longrightarrow> buffer_of a (r_name r) = Some (r_buf r)"
  by (simp add: buffer_of_def find_unique arena_names_def)

lemma buffer_of_large:
  assumes "distinct (arena_names a)" "l \<in> set (larges a)"
  shows "buffer_of a (l_name l) = Some (l_buf l)"
proof -
  have "l_name l \<notin> set (map r_name (regions a))" using assms by (auto simp: arena_names_def)
  then show ?thesis using assms by (simp add: buffer_of_def find_None find_unique arena_names_def)
qed

text \<open>
  What an allocation may do to the rest of the arena: blocks handed out before stay and keep their contents, and the
  new block is apart from all of them.
\<close>

definition arena_extends :: "arena \<Rightarrow> arena \<Rightarrow> bool" where
  "arena_extends a a' = (\<forall>q m. block_in a q m \<longrightarrow> block_in a' q m \<and> arena_read a' q m = arena_read a q m)"

definition block_new :: "arena \<Rightarrow> arena \<Rightarrow> ptr \<Rightarrow> nat \<Rightarrow> bool" where
  "block_new a a' p n = (block_in a' p n \<and> arena_read a' p n = Some (replicate n (Some NUL))
     \<and> (\<forall>q m. block_in a q m \<longrightarrow> apart q m p n))"

lemma block_in_read:
  assumes "arena_inv a" "block_in a q m"
  shows "\<exists>bs. arena_read a q m = Some bs \<and> length bs = m"
proof -
  have d: "distinct (arena_names a)" using assms(1) by (simp add: arena_inv_def)
  from assms(2) consider r where "r \<in> set (regions a)" "r_name r = fst q" "snd q + m \<le> r_used r"
    | l where "l \<in> set (larges a)" "l_name l = fst q" "snd q + m \<le> length (l_buf l)"
    by (auto simp: block_in_def)
  then obtain b where b: "buffer_of a (fst q) = Some b" "snd q + m \<le> length b"
  proof cases
    case 1
    have "region_inv r" using assms(1) 1(1) unfolding arena_inv_def by (blast dest: regions_okD)
    then have "r_used r \<le> length (r_buf r)" by (simp add: region_inv_def)
    then show ?thesis using that buffer_of_region [OF d 1(1)] 1(2,3) by fastforce
  next
    case 2
    then show ?thesis using that buffer_of_large [OF d 2(1)] by fastforce
  qed
  then show ?thesis by (simp add: arena_read_def)
qed

section \<open>The search through the regions\<close>

text \<open>What matters of a region: everything but the count of failures.\<close>

definition shape :: "region \<Rightarrow> nat \<times> cell list \<times> size_t \<times> size_t" where
  "shape r = (r_name r, r_buf r, r_cap r, r_used r)"

text \<open>The block \<open>p\<close> was placed in one of the regions \<open>rs\<close>, above everything in use there.\<close>

definition placed :: "region list \<Rightarrow> region list \<Rightarrow> ptr \<Rightarrow> nat \<Rightarrow> nat \<Rightarrow> bool" where
  "placed rs rs' p sz align =
     (\<exists>xs r ys off buf. rs = xs @ r # ys \<and> p = (r_name r, off)
        \<and> mem_write (r_buf r) off (replicate sz NUL) = Some buf \<and> off mod align = 0
        \<and> r_used r \<le> off \<and> off + sz \<le> r_cap r
        \<and> map shape rs' = map shape (xs @ r\<lparr>r_buf := buf, r_used := off + sz\<rparr> # ys))"

lemma placed_append: "placed rs rs' p sz k \<Longrightarrow> map shape zs' = map shape zs \<Longrightarrow> placed (zs @ rs) (zs' @ rs') p sz k"
proof -
  assume pl: "placed rs rs' p sz k" and zs: "map shape zs' = map shape zs"
  from pl obtain xs r ys off buf where h: "rs = xs @ r # ys" "p = (r_name r, off)"
    "mem_write (r_buf r) off (replicate sz NUL) = Some buf" "off mod k = 0" "r_used r \<le> off" "off + sz \<le> r_cap r"
    "map shape rs' = map shape (xs @ r\<lparr>r_buf := buf, r_used := off + sz\<rparr> # ys)"
    unfolding placed_def by (elim exE conjE) (rule that)
  have "zs @ rs = (zs @ xs) @ r # ys" "map shape (zs' @ rs') = map shape ((zs @ xs) @ r\<lparr>r_buf := buf, r_used := off + sz\<rparr> # ys)"
    using h zs by auto
  then show ?thesis unfolding placed_def using h(2-6)
    by (intro exI [of _ "zs @ xs"] exI [of _ r] exI [of _ ys] exI [of _ off] exI [of _ buf] conjI)
qed

lemma alloc_loop_spec:
  assumes "sz \<noteq> 0"
  shows "\<forall>r \<in> set rs. region_inv r \<and> r_cap r + sz + 2 ^ k \<le> SIZE_MAX \<Longrightarrow>
    \<exists>rs' c' p. alloc_loop sz (2 ^ k) c rs = Some (rs', c', p)
      \<and> (c' = None \<or> c' = c \<or> the c' \<in> set (map r_name rs))
      \<and> (case p of None \<Rightarrow> map shape rs' = map shape rs | Some q \<Rightarrow> placed rs rs' q sz (2 ^ k))"
proof (induction rs arbitrary: c)
  case (Cons r rs)
  have r: "region_inv r" "r_cap r + sz + 2 ^ k \<le> SIZE_MAX" using Cons.prems by auto
  have "r_used r + 2 ^ k \<le> SIZE_MAX" using r by (auto simp: region_inv_def)
  note al = align_up_pow2 [OF this]
  let ?off = "align_up (r_used r) (2 ^ k)"
  have "?off + sz \<le> SIZE_MAX" using al(2) r by (auto simp: region_inv_def)
  then have w: "wrap64 (?off + sz) = ?off + sz" by simp
  show ?case
  proof (cases "?off + sz \<le> r_cap r")
    case True
    then obtain buf where buf: "mem_write (r_buf r) ?off (replicate sz NUL) = Some buf"
      using r by (auto simp: mem_write_def region_inv_def)
    let ?r = "r\<lparr>r_buf := buf, r_used := ?off + sz, r_failed := 0\<rparr>"
    have a: "alloc_loop sz (2 ^ k) c (r # rs) = Some (?r # rs, Some (r_name r), Some (r_name r, ?off))"
      using True buf w al(1) by (simp add: Let_def)
    have "map shape (?r # rs) = map shape ([] @ r\<lparr>r_buf := buf, r_used := ?off + sz\<rparr> # rs)"
      by (simp add: shape_def)
    then have "placed (r # rs) (?r # rs) (r_name r, ?off) sz (2 ^ k)"
      unfolding placed_def using buf al(1,3) True
      by (intro exI [of _ "[]"] exI [of _ r] exI [of _ rs] exI [of _ ?off] exI [of _ buf] conjI) simp_all
    then show ?thesis using a by simp
  next
    case False
    let ?r = "r\<lparr>r_failed := r_failed r + 1\<rparr>"
    define d where "d = (if r_failed r + 1 > ARENA_MAX_FAILED then (case rs of [] \<Rightarrow> None | s # _ \<Rightarrow> Some (r_name s)) else c)"
    have dr: "d = None \<or> d = c \<or> the d \<in> set (map r_name rs)" by (auto simp: d_def split: list.splits)
    have sh: "map shape [?r] = map shape [r]" by (simp add: shape_def)
    have "\<forall>r \<in> set rs. region_inv r \<and> r_cap r + sz + 2 ^ k \<le> SIZE_MAX" using Cons.prems by simp
    from Cons.IH [OF this, of d] obtain rs' c' p where IH: "alloc_loop sz (2 ^ k) d rs = Some (rs', c', p)"
      "c' = None \<or> c' = d \<or> the c' \<in> set (map r_name rs)"
      "case p of None \<Rightarrow> map shape rs' = map shape rs | Some q \<Rightarrow> placed rs rs' q sz (2 ^ k)"
      by blast
    have res: "alloc_loop sz (2 ^ k) c (r # rs) = Some (?r # rs', c', p)"
      using False w IH(1) by (simp add: Let_def d_def)
    have c': "c' = None \<or> c' = c \<or> the c' \<in> set (map r_name (r # rs))" using IH(2) dr by auto
    have "case p of None \<Rightarrow> map shape (?r # rs') = map shape (r # rs) | Some q \<Rightarrow> placed (r # rs) (?r # rs') q sz (2 ^ k)"
      using IH(3) sh placed_append [of rs rs' _ sz "2 ^ k" "[?r]" "[r]"] by (auto split: option.splits)
    then show ?thesis using res c' by blast
  qed
qed simp

section \<open>Allocations keep what is there\<close>

lemma shape_mem: "map shape xs = map shape ys \<Longrightarrow> y \<in> set ys \<Longrightarrow> \<exists>x \<in> set xs. shape x = shape y"
  by (metis image_eqI image_iff list.set_map)

lemma shape_eqD:
  assumes "shape x = shape y"
  shows "r_name x = r_name y" "r_buf x = r_buf y" "r_cap x = r_cap y" "r_used x = r_used y" "region_inv x = region_inv y"
  using assms by (auto simp: shape_def region_inv_def)

lemma shape_maps:
  assumes "map shape xs = map shape ys"
  shows "map r_name xs = map r_name ys" "(xs = []) = (ys = [])" "r_cap (hd xs) = r_cap (hd ys)"
proof -
  show "(xs = []) = (ys = [])" using arg_cong [OF assms, of length] by auto
  have "map (fst \<circ> shape) xs = map (fst \<circ> shape) ys" using assms by (metis map_map)
  moreover have "fst \<circ> shape = r_name" by (auto simp: shape_def)
  ultimately show "map r_name xs = map r_name ys" by simp
  show "r_cap (hd xs) = r_cap (hd ys)" using assms by (cases xs; cases ys) (auto dest: shape_eqD)
qed

lemma arena_inv_shape:
  assumes "arena_inv a" "map shape rs = map shape (regions a)"
    and "c = None \<or> the c \<in> set (map r_name (regions a))"
  shows "arena_inv (a\<lparr>regions := rs, current := c\<rparr>)"
proof -
  note m = shape_maps [OF assms(2)]
  have "regions_ok (arena_cap a) rs"
    unfolding regions_ok_def
  proof
    fix r assume "r \<in> set rs"
    then obtain s where s: "s \<in> set (regions a)" "shape s = shape r" using shape_mem [OF assms(2) [symmetric]] by blast
    have "region_inv s \<and> r_cap s = arena_cap a" using assms(1) s(1) unfolding arena_inv_def by (blast dest: regions_okD)
    then show "region_inv r \<and> r_cap r = arena_cap a" using shape_eqD [OF s(2)] by simp
  qed
  moreover have "arena_cap (a\<lparr>regions := rs, current := c\<rparr>) = arena_cap a" using m(3) by (simp add: arena_cap_def)
  moreover have "arena_names (a\<lparr>regions := rs, current := c\<rparr>) = arena_names a" using m(1) by (simp add: arena_names_def)
  ultimately show ?thesis
    using assms(1,3) m(1,2) unfolding arena_inv_def by (cases c) (simp_all split: option.splits)
qed

lemma arena_extendsI:
  assumes "arena_inv a" "distinct (arena_names a')" "set (larges a) \<subseteq> set (larges a')"
    and regs: "\<And>r. r \<in> set (regions a) \<Longrightarrow>
      \<exists>s \<in> set (regions a'). r_name s = r_name r \<and> r_used r \<le> r_used s \<and> r_used r \<le> length (r_buf s)
         \<and> take (r_used r) (r_buf s) = take (r_used r) (r_buf r)"
  shows "arena_extends a a'"
  unfolding arena_extends_def
proof (intro allI impI)
  fix q m assume q: "block_in a q m"
  have d: "distinct (arena_names a)" using assms(1) by (simp add: arena_inv_def)
  from q consider r where "r \<in> set (regions a)" "r_name r = fst q" "snd q + m \<le> r_used r"
    | l where "l \<in> set (larges a)" "l_name l = fst q" "snd q + m \<le> length (l_buf l)"
    by (auto simp: block_in_def)
  then show "block_in a' q m \<and> arena_read a' q m = arena_read a q m"
  proof cases
    case 1
    obtain s where s: "s \<in> set (regions a')" "r_name s = r_name r" "r_used r \<le> r_used s" "r_used r \<le> length (r_buf s)"
      "take (r_used r) (r_buf s) = take (r_used r) (r_buf r)" using regs [OF 1(1)] by blast
    have "region_inv r" using assms(1) 1(1) unfolding arena_inv_def by (blast dest: regions_okD)
    then have ru: "r_used r \<le> length (r_buf r)" by (simp add: region_inv_def)
    have bufs: "buffer_of a (fst q) = Some (r_buf r)" "buffer_of a' (fst q) = Some (r_buf s)"
      using buffer_of_region [OF d 1(1)] buffer_of_region [OF assms(2) s(1)] 1(2) s(2) by simp_all
    have "take (snd q + m) (r_buf s) = take (snd q + m) (r_buf r)"
      using s(5) 1(3) by (metis min.absorb1 take_take)
    then have "take m (drop (snd q) (r_buf s)) = take m (drop (snd q) (r_buf r))"
      by (simp add: take_drop add.commute)
    then have "arena_read a' q m = arena_read a q m" using bufs 1(3) s(4) ru by (simp add: arena_read_def)
    moreover have "block_in a' q m" using s(1-3) 1(2,3) by (fastforce simp: block_in_def)
    ultimately show ?thesis by simp
  next
    case 2
    then have l: "l \<in> set (larges a')" using assms(3) by auto
    have "buffer_of a (fst q) = Some (l_buf l)" "buffer_of a' (fst q) = Some (l_buf l)"
      using buffer_of_large [OF d 2(1)] buffer_of_large [OF assms(2) l] 2(2) by simp_all
    then have "arena_read a' q m = arena_read a q m" by (simp add: arena_read_def)
    moreover have "block_in a' q m" using l 2(2,3) by (auto simp: block_in_def)
    ultimately show ?thesis by simp
  qed
qed

lemma mem_write_zeros:
  assumes "mem_write b off (replicate n NUL) = Some b'"
  shows "take n (drop off b') = replicate n (Some NUL)" "length b' = length b" "off + n \<le> length b"
proof -
  have w: "off + n \<le> length b" "b' = take off b @ map Some (replicate n NUL) @ drop (off + n) b"
    using assms by (auto simp: mem_write_def split: if_splits)
  then show "take n (drop off b') = replicate n (Some NUL)" "off + n \<le> length b" by simp_all
  show "length b' = length b" using assms by (rule mem_write_length)
qed

text \<open>A block placed in a region.\<close>

lemma placed_ok:
  assumes inv: "arena_inv a" and pl: "placed (regions a) rs p sz align" and c: "c = None \<or> the c \<in> set (map r_name (regions a))"
  shows "arena_inv (a\<lparr>regions := rs, current := c\<rparr>) \<and> arena_extends a (a\<lparr>regions := rs, current := c\<rparr>)
    \<and> block_new a (a\<lparr>regions := rs, current := c\<rparr>) p sz"
proof -
  let ?a = "a\<lparr>regions := rs, current := c\<rparr>"
  obtain xs r ys off buf where h: "regions a = xs @ r # ys" "p = (r_name r, off)"
    "mem_write (r_buf r) off (replicate sz NUL) = Some buf" "off mod align = 0" "r_used r \<le> off" "off + sz \<le> r_cap r"
    "map shape rs = map shape (xs @ r\<lparr>r_buf := buf, r_used := off + sz\<rparr> # ys)"
    using pl unfolding placed_def by (elim exE conjE) (rule that)
  let ?r = "r\<lparr>r_buf := buf, r_used := off + sz\<rparr>"
  have ok: "regions_ok (arena_cap a) (xs @ r # ys)" using inv h(1) by (simp add: arena_inv_def)
  have r: "region_inv r" "r_used r \<le> length (r_buf r)" using regions_okD [OF ok, of r] by (auto simp: region_inv_def)
  have "region_inv ?r" using r(1) h(6) mem_write_zeros(2) [OF h(3)] by (auto simp: region_inv_def)
  then have "regions_ok (arena_cap a) (xs @ ?r # ys)" using ok by (simp add: regions_ok_def)
  moreover have "arena_cap (a\<lparr>regions := xs @ ?r # ys\<rparr>) = arena_cap a" using h(1) by (cases xs) (simp_all add: arena_cap_def)
  moreover have "arena_names (a\<lparr>regions := xs @ ?r # ys\<rparr>) = arena_names a" using h(1) by (simp add: arena_names_def)
  moreover have "map r_name (xs @ ?r # ys) = map r_name (regions a)" using h(1) by simp
  ultimately have "arena_inv (a\<lparr>regions := xs @ ?r # ys\<rparr>)"
    using inv unfolding arena_inv_def by (simp split: option.splits)
  from arena_inv_shape [OF this, of rs c] have inv': "arena_inv ?a" using h(1,7) c by simp
  then have d': "distinct (arena_names ?a)" by (simp add: arena_inv_def)
  have ext: "arena_extends a ?a"
  proof (rule arena_extendsI [OF inv d'])
    fix s assume s: "s \<in> set (regions a)"
    define t where "t = (if s = r then ?r else s)"
    have "t \<in> set (xs @ ?r # ys)" using s h(1) by (auto simp: t_def)
    then obtain u where u: "u \<in> set rs" "shape u = shape t" using shape_mem [OF h(7)] by blast
    have "r_used s \<le> length (r_buf s)" using regions_okD [OF ok, of s] s h(1) by (auto simp: region_inv_def)
    moreover have "take (r_used r) buf = take (r_used r) (r_buf r)" using mem_write_take_before [OF h(3) h(5)] .
    ultimately show "\<exists>s' \<in> set (regions ?a). r_name s' = r_name s \<and> r_used s \<le> r_used s' \<and> r_used s \<le> length (r_buf s')
         \<and> take (r_used s) (r_buf s') = take (r_used s) (r_buf s)"
      using u shape_eqD [OF u(2)] h(5) r(2) mem_write_zeros(2) [OF h(3)]
      by (intro bexI [of _ u]) (auto simp: t_def split: if_splits)
  qed simp
  have "?r \<in> set (xs @ ?r # ys)" by simp
  then obtain u where u: "u \<in> set rs" "shape u = shape ?r" using shape_mem [OF h(7)] by blast
  have b: "buffer_of ?a (r_name r) = Some buf" using buffer_of_region [OF d', of u] u shape_eqD [OF u(2)] by simp
  have "block_in ?a p sz" using u shape_eqD [OF u(2)] h(2) by (auto simp: block_in_def)
  moreover have "arena_read ?a p sz = Some (replicate sz (Some NUL))"
    using b h(2) mem_write_zeros [OF h(3)] by (simp add: arena_read_def)
  moreover have "apart q m p sz" if "block_in a q m" for q m
  proof -
    have d: "distinct (map r_name (regions a))" "set (map r_name (regions a)) \<inter> set (map l_name (larges a)) = {}"
      using inv by (auto simp: arena_inv_def arena_names_def)
    have rin: "r \<in> set (regions a)" using h(1) by simp
    have n: "s = r" if "s \<in> set (regions a)" "r_name s = r_name r" for s
      using d(1) that rin by (auto simp: distinct_map inj_on_def)
    have "l_name l \<noteq> r_name r" if "l \<in> set (larges a)" for l
      using d(2) that rin by (metis disjoint_iff image_eqI list.set_map)
    then show ?thesis using \<open>block_in a q m\<close> n h(2,5) unfolding block_in_def apart_def by fastforce
  qed
  ultimately show ?thesis using inv' ext by (auto simp: block_new_def)
qed

text \<open>A block in a buffer of its own name.\<close>

lemma block_new_fresh:
  assumes "arena_inv a" "fst p = fresh a" "block_in a' p n" "arena_read a' p n = Some (replicate n (Some NUL))"
  shows "block_new a a' p n"
proof -
  have "r_name r < fresh a" if "r \<in> set (regions a)" for r
  proof -
    have "r_name r \<in> set (arena_names a)" using that by (simp add: arena_names_def)
    then show ?thesis using assms(1) unfolding arena_inv_def by simp
  qed
  moreover have "l_name l < fresh a" if "l \<in> set (larges a)" for l
  proof -
    have "l_name l \<in> set (arena_names a)" using that by (simp add: arena_names_def)
    then show ?thesis using assms(1) unfolding arena_inv_def by simp
  qed
  ultimately have "fst q \<noteq> fst p" if "block_in a q m" for q m
    using that assms(2) by (fastforce simp: block_in_def)
  then show ?thesis using assms(3,4) by (simp add: block_new_def apart_def)
qed

lemma fresh_inv:
  assumes "arena_inv a" "regions_ok (arena_cap a') (regions a')" "regions a' \<noteq> []"
    and "mset (arena_names a') = mset (fresh a # arena_names a)" "fresh a' = Suc (fresh a)"
    and "current a' = current a" "set (map r_name (regions a)) \<subseteq> set (map r_name (regions a'))"
  shows "arena_inv a'"
proof -
  have s: "set (arena_names a') = insert (fresh a) (set (arena_names a))"
    using assms(4) by (metis list.simps(15) set_mset_mset)
  have "distinct (fresh a # arena_names a)" using assms(1) by (simp add: arena_inv_def)
  then have "distinct (arena_names a')" using assms(4) by (metis mset_eq_imp_distinct_iff)
  then show ?thesis
    using assms s unfolding arena_inv_def by (auto simp: lessThan_Suc split: option.splits)
qed

lemma arena_add_region_ok:
  assumes inv: "arena_inv a" and "2 ^ k + sz \<le> arena_cap a" "arena_cap a + sz + 2 ^ k \<le> SIZE_MAX"
  shows "\<exists>a' p. arena_add_region env a sz (2 ^ k) = Some (a', p) \<and> arena_inv a' \<and> arena_cap a' = arena_cap a
    \<and> arena_extends a a' \<and> cleanups a' = cleanups a
    \<and> (case p of None \<Rightarrow> \<not> region_ok env | Some q \<Rightarrow> block_new a a' q sz)"
proof (cases "region_ok env")
  case False
  then show ?thesis using inv by (simp add: arena_add_region_def arena_extends_def)
next
  case True
  have "(0 :: nat) + 2 ^ k \<le> SIZE_MAX" using assms(3) by linarith
  note al = align_up_pow2 [OF this]
  have al0: "align_up 0 (2 ^ k) = 0" using al by (simp add: mod_less)
  obtain h t where ht: "regions a = h # t" using inv by (cases "regions a") (auto simp: arena_inv_def)
  obtain buf where buf: "mem_write (mem_alloc (arena_cap a)) 0 (replicate sz NUL) = Some buf"
    using assms(2) by (auto simp: mem_write_def)
  note z = mem_write_zeros [OF buf]
  let ?r = "(arena_new_region (fresh a) (arena_cap a))\<lparr>r_buf := buf, r_used := sz\<rparr>"
  let ?a = "a\<lparr>regions := h # ?r # t, fresh := Suc (fresh a)\<rparr>"
  have res: "arena_add_region env a sz (2 ^ k) = Some (?a, Some (fresh a, 0))"
    using True buf al0 ht by (simp add: arena_add_region_def arena_new_region_def)
  have cap: "arena_cap ?a = arena_cap a" using ht by (simp add: arena_cap_def)
  have "region_inv ?r" using z(2,3) by (simp add: region_inv_def arena_new_region_def)
  then have ok: "regions_ok (arena_cap ?a) (regions ?a)"
    using inv ht cap by (simp add: arena_inv_def regions_ok_def arena_new_region_def)
  have inv': "arena_inv ?a"
    by (rule fresh_inv [OF inv ok]) (use ht in \<open>auto simp: arena_names_def arena_new_region_def\<close>)
  then have d: "distinct (arena_names ?a)" by (simp add: arena_inv_def)
  have ext: "arena_extends a ?a"
  proof (rule arena_extendsI [OF inv d])
    fix r assume "r \<in> set (regions a)"
    moreover have "region_inv r" using inv calculation unfolding arena_inv_def by (blast dest: regions_okD)
    ultimately show "\<exists>s \<in> set (regions ?a). r_name s = r_name r \<and> r_used r \<le> r_used s \<and> r_used r \<le> length (r_buf s)
         \<and> take (r_used r) (r_buf s) = take (r_used r) (r_buf r)"
      using ht by (intro bexI [of _ r]) (auto simp: region_inv_def)
  qed simp
  have rin: "?r \<in> set (regions ?a)" by simp
  have "buffer_of ?a (fresh a) = Some buf" using buffer_of_region [OF d rin] by (simp add: arena_new_region_def)
  then have "arena_read ?a (fresh a, 0) sz = Some (replicate sz (Some NUL))" using z by (simp add: arena_read_def)
  moreover have "block_in ?a (fresh a, 0) sz" by (simp add: block_in_def arena_new_region_def)
  ultimately have "block_new a ?a (fresh a, 0) sz" using inv by (intro block_new_fresh) simp_all
  then show ?thesis using res inv' ext cap by simp
qed

text \<open>What a caller may ask for, and what \<open>malloc\<close> gives: blocks within the address space.\<close>

definition request_ok :: "arena \<Rightarrow> malloc_env \<Rightarrow> nat \<Rightarrow> nat \<Rightarrow> bool" where
  "request_ok a env sz align = (arena_cap a + sz + align \<le> SIZE_MAX
     \<and> (case large_addr env of None \<Rightarrow> True | Some addr \<Rightarrow> addr + sz + align \<le> SIZE_MAX))"

definition malloc_all :: "malloc_env \<Rightarrow> bool" where
  "malloc_all env = (region_ok env \<and> large_addr env \<noteq> None \<and> node_ok env)"

lemma arena_alloc_large_ok:
  assumes inv: "arena_inv a" and req: "request_ok a env sz (2 ^ k)"
  shows "\<exists>a' p. arena_alloc_large env a sz (2 ^ k) = Some (a', p) \<and> arena_inv a' \<and> arena_cap a' = arena_cap a
    \<and> arena_extends a a' \<and> cleanups a' = cleanups a
    \<and> (case p of None \<Rightarrow> \<not> malloc_all env | Some q \<Rightarrow> block_new a a' q sz)"
proof (cases "large_addr env")
  case None
  then show ?thesis using inv by (simp add: arena_alloc_large_def arena_extends_def malloc_all_def Let_def)
next
  case (Some addr)
  have "arena_cap a + sz + 2 ^ k \<le> SIZE_MAX" using req by (simp add: request_ok_def)
  then have big: "\<not> sz > SIZE_MAX - 2 ^ k + 1" by linarith
  have two: "(2 :: nat) ^ k \<noteq> 0" by simp
  show ?thesis
  proof (cases "node_ok env")
    case False
    let ?a = "a\<lparr>fresh := Suc (fresh a), freed := fresh a # freed a\<rparr>"
    have res: "arena_alloc_large env a sz (2 ^ k) = Some (?a, None)"
      using False Some big two by (simp add: arena_alloc_large_def)
    have cap: "arena_cap ?a = arena_cap a" by (simp add: arena_cap_def)
    have inv': "arena_inv ?a"
      by (rule fresh_inv [OF inv]) (use inv cap in \<open>auto simp: arena_names_def arena_inv_def\<close>)
    have "buffer_of ?a = buffer_of a" by (intro ext) (simp add: buffer_of_def cong: option.case_cong)
    then have "block_in ?a = block_in a" "arena_read ?a = arena_read a"
      by (simp_all add: block_in_def arena_read_def fun_eq_iff)
    then have "arena_extends a ?a" by (simp add: arena_extends_def)
    then show ?thesis using res inv' cap False by (simp add: malloc_all_def)
  next
    case True
    have "addr + 2 ^ k \<le> SIZE_MAX" using req Some by (simp add: request_ok_def)
    note al = align_up_pow2 [OF this]
    let ?off = "align_up addr (2 ^ k) - addr" and ?tot = "sz + 2 ^ k - 1"
    have fit: "?off + sz \<le> ?tot" using al(1,2) by linarith
    then obtain buf where buf: "mem_write (mem_alloc ?tot) ?off (replicate sz NUL) = Some buf"
      by (auto simp: mem_write_def)
    note z = mem_write_zeros [OF buf]
    let ?l = "\<lparr>l_name = fresh a, l_buf = buf\<rparr>"
    let ?a = "a\<lparr>larges := ?l # larges a, fresh := Suc (fresh a)\<rparr>"
    have res: "arena_alloc_large env a sz (2 ^ k) = Some (?a, Some (fresh a, ?off))"
      using True Some big two buf al(1) by (simp add: arena_alloc_large_def Let_def)
    have cap: "arena_cap ?a = arena_cap a" by (simp add: arena_cap_def)
    have inv': "arena_inv ?a"
      by (rule fresh_inv [OF inv]) (use inv cap in \<open>auto simp: arena_names_def arena_inv_def\<close>)
    then have d: "distinct (arena_names ?a)" by (simp add: arena_inv_def)
    have ext: "arena_extends a ?a"
    proof (rule arena_extendsI [OF inv d])
      fix r assume "r \<in> set (regions a)"
      moreover have "region_inv r" using inv calculation unfolding arena_inv_def by (blast dest: regions_okD)
      ultimately show "\<exists>s \<in> set (regions ?a). r_name s = r_name r \<and> r_used r \<le> r_used s \<and> r_used r \<le> length (r_buf s)
         \<and> take (r_used r) (r_buf s) = take (r_used r) (r_buf r)"
        by (intro bexI [of _ r]) (auto simp: region_inv_def)
    qed auto
    have lin: "?l \<in> set (larges ?a)" by simp
    have "buffer_of ?a (fresh a) = Some buf" using buffer_of_large [OF d lin] by simp
    then have "arena_read ?a (fresh a, ?off) sz = Some (replicate sz (Some NUL))" using z by (simp add: arena_read_def)
    moreover have "block_in ?a (fresh a, ?off) sz" using z by (simp add: block_in_def)
    ultimately have "block_new a ?a (fresh a, ?off) sz" using inv by (intro block_new_fresh) simp_all
    then show ?thesis using res inv' ext cap by simp
  qed
qed

lemma search_split_ok:
  assumes "arena_inv a" "search_split a = (before, rs)"
  shows "regions a = before @ rs" "rs \<noteq> []"
proof -
  show "regions a = before @ rs" using assms(2) by (auto simp: search_split_def split: option.splits)
  show "rs \<noteq> []"
  proof (cases "current a")
    case None
    then show ?thesis using assms by (simp add: search_split_def arena_inv_def)
  next
    case (Some n)
    then obtain r where "r \<in> set (regions a)" "\<not> r_name r \<noteq> n" using assms(1) by (auto simp: arena_inv_def)
    then have "dropWhile (\<lambda>r. r_name r \<noteq> n) (regions a) \<noteq> []" unfolding dropWhile_eq_Nil_conv by blast
    then show ?thesis using assms(2) Some by (auto simp: search_split_def)
  qed
qed

lemma extends_shape:
  assumes "arena_inv a" "arena_inv a'" "map shape (regions a') = map shape (regions a)" "larges a' = larges a"
  shows "arena_extends a a'" "block_in a' = block_in a"
proof -
  have d: "distinct (arena_names a')" using assms(2) by (simp add: arena_inv_def)
  show "arena_extends a a'"
  proof (rule arena_extendsI [OF assms(1) d])
    fix r assume "r \<in> set (regions a)"
    moreover obtain s where "s \<in> set (regions a')" "shape s = shape r" using shape_mem [OF assms(3) calculation] by blast
    moreover have "region_inv r" using assms(1) calculation(1) unfolding arena_inv_def by (blast dest: regions_okD)
    ultimately show "\<exists>s \<in> set (regions a'). r_name s = r_name r \<and> r_used r \<le> r_used s \<and> r_used r \<le> length (r_buf s)
         \<and> take (r_used r) (r_buf s) = take (r_used r) (r_buf r)"
      by (intro bexI [of _ s]) (auto simp: region_inv_def dest: shape_eqD)
  qed (use assms(4) in simp)
  have b: "block_in c p m = ((\<exists>n b cap used. (n, b, cap, used) \<in> set (map shape (regions c)) \<and> n = fst p \<and> snd p + m \<le> used)
      \<or> (\<exists>l \<in> set (larges c). l_name l = fst p \<and> snd p + m \<le> length (l_buf l)))" for c p m
  proof -
    have "(\<exists>n b cap used. (n, b, cap, used) \<in> set (map shape (regions c)) \<and> n = fst p \<and> snd p + m \<le> used)
      = (\<exists>s \<in> shape ` set (regions c). fst s = fst p \<and> snd p + m \<le> snd (snd (snd s)))"
      unfolding list.set_map by (metis prod.collapse fst_conv snd_conv)
    then show ?thesis by (simp add: block_in_def shape_def)
  qed
  show "block_in a' = block_in a" by (intro ext) (simp only: b assms(3,4))
qed

text \<open>The law of allocation.\<close>

lemma arena_alloc_aligned_ok:
  assumes inv: "arena_inv a" and req: "request_ok a env sz (2 ^ k)"
  shows "\<exists>a' p. arena_alloc_aligned env a sz (2 ^ k) = Some (a', p) \<and> arena_inv a' \<and> arena_cap a' = arena_cap a
    \<and> arena_extends a a' \<and> cleanups a' = cleanups a
    \<and> (case p of None \<Rightarrow> sz = 0 \<or> \<not> malloc_all env | Some q \<Rightarrow> block_new a a' q sz)"
proof (cases "sz = 0")
  case True
  then show ?thesis using inv by (simp add: arena_alloc_aligned_def arena_extends_def)
next
  case False
  obtain before rs where sp: "search_split a = (before, rs)" by fastforce
  note ss = search_split_ok [OF inv sp]
  have lim: "arena_cap a + sz + 2 ^ k \<le> SIZE_MAX" using req by (simp add: request_ok_def)
  have ok: "regions_ok (arena_cap a) (before @ rs)" using inv ss(1) by (simp add: arena_inv_def)
  have "\<forall>r \<in> set rs. region_inv r \<and> r_cap r + sz + 2 ^ k \<le> SIZE_MAX" using ok lim by (simp add: regions_ok_def)
  from alloc_loop_spec [OF False this, of "current a"] obtain rs' c p where
    l: "alloc_loop sz (2 ^ k) (current a) rs = Some (rs', c, p)" "c = None \<or> c = current a \<or> the c \<in> set (map r_name rs)"
      "case p of None \<Rightarrow> map shape rs' = map shape rs | Some q \<Rightarrow> placed rs rs' q sz (2 ^ k)"
    by blast
  have c: "c = None \<or> the c \<in> set (map r_name (regions a))"
    using l(2) ss(1) inv by (auto simp: arena_inv_def split: option.splits)
  let ?a = "a\<lparr>regions := before @ rs', current := c\<rparr>"
  show ?thesis
  proof (cases p)
    case (Some q)
    have "placed (regions a) (before @ rs') q sz (2 ^ k)"
      using l(3) Some ss(1) placed_append [of rs rs' q sz "2 ^ k" before before] by simp
    note pok = placed_ok [OF inv this c]
    have "arena_cap ?a = arena_cap a"
    proof -
      have "regions_ok (arena_cap a) (regions a)" using inv by (simp add: arena_inv_def)
      have r1: "r_cap (hd (before @ rs')) = arena_cap a"
      proof -
        from l(3) Some obtain xs r ys off buf where x: "rs = xs @ r # ys" "map shape rs' = map shape (xs @ r\<lparr>r_buf := buf, r_used := off + sz\<rparr> # ys)"
          unfolding placed_def by auto
        have "map r_cap rs' = map r_cap rs"
          using arg_cong [OF x(2), of "map (\<lambda>s. fst (snd (snd s)))"] x(1) by (simp add: shape_def comp_def)
        then have "map r_cap (before @ rs') = map r_cap (regions a)" using ss(1) by simp
        then show ?thesis using ss(2) x(1) by (simp add: arena_cap_def) (metis hd_map list.map_disc_iff map_append ss(1) append_is_Nil_conv)
      qed
      then show ?thesis by (simp add: arena_cap_def)
    qed
    then show ?thesis
      using pok l(1) sp ss(2) False Some by (simp add: arena_alloc_aligned_def Let_def)
  next
    case None
    have sh: "map shape (before @ rs') = map shape (regions a)" using l(3) None ss(1) by simp
    have inv1: "arena_inv ?a" by (rule arena_inv_shape [OF inv sh c])
    have cap: "arena_cap ?a = arena_cap a" using shape_maps(3) [OF sh] by (simp add: arena_cap_def)
    have ext1: "arena_extends a ?a" "block_in ?a = block_in a"
      using extends_shape [OF inv inv1] sh by simp_all
    have req1: "request_ok ?a env sz (2 ^ k)" using req cap by (simp add: request_ok_def)
    have fin: "\<exists>a' p. R = Some (a', p) \<and> arena_inv a' \<and> arena_cap a' = arena_cap a
        \<and> arena_extends a a' \<and> cleanups a' = cleanups a
        \<and> (case p of None \<Rightarrow> sz = 0 \<or> \<not> malloc_all env | Some q \<Rightarrow> block_new a a' q sz)"
      if "\<exists>a' p. R = Some (a', p) \<and> arena_inv a' \<and> arena_cap a' = arena_cap ?a
        \<and> arena_extends ?a a' \<and> cleanups a' = cleanups ?a
        \<and> (case p of None \<Rightarrow> \<not> malloc_all env | Some q \<Rightarrow> block_new ?a a' q sz)" for R
    proof -
      from that obtain a' p where r: "R = Some (a', p)" "arena_inv a'" "arena_cap a' = arena_cap ?a"
        "arena_extends ?a a'" "cleanups a' = cleanups ?a"
        "case p of None \<Rightarrow> \<not> malloc_all env | Some q \<Rightarrow> block_new ?a a' q sz" by blast
      have "arena_extends a a'" using ext1(1) r(4) unfolding arena_extends_def ext1(2) by simp
      moreover have "case p of None \<Rightarrow> sz = 0 \<or> \<not> malloc_all env | Some q \<Rightarrow> block_new a a' q sz"
        using r(6) unfolding block_new_def ext1(2) by (cases p) simp_all
      ultimately show ?thesis using r cap by simp
    qed
    show ?thesis
    proof (cases "2 ^ k > arena_cap ?a \<or> sz > arena_cap ?a - 2 ^ k \<or> sz > arena_cap ?a div ARENA_LARGE_RATIO")
      case True
      then have "arena_alloc_aligned env a sz (2 ^ k) = arena_alloc_large env ?a sz (2 ^ k)"
        using sp l(1) None False ss(2) by (auto simp: arena_alloc_aligned_def Let_def)
      then show ?thesis using fin [OF arena_alloc_large_ok [OF inv1 req1]] by simp
    next
      case small: False
      then have e: "arena_alloc_aligned env a sz (2 ^ k) = arena_add_region env ?a sz (2 ^ k)"
        using sp l(1) None False ss(2) by (auto simp: arena_alloc_aligned_def Let_def)
      have "2 ^ k + sz \<le> arena_cap ?a" using small by linarith
      from arena_add_region_ok [OF inv1 this, of env]
      have "\<exists>a' p. arena_add_region env ?a sz (2 ^ k) = Some (a', p) \<and> arena_inv a' \<and> arena_cap a' = arena_cap ?a
        \<and> arena_extends ?a a' \<and> cleanups a' = cleanups ?a
        \<and> (case p of None \<Rightarrow> \<not> malloc_all env | Some q \<Rightarrow> block_new ?a a' q sz)"
        using lim cap by (fastforce simp: malloc_all_def split: option.splits)
      then show ?thesis unfolding e by (rule fin)
    qed
  qed
qed

section \<open>Allocators and their clients\<close>









lemma arena_create_inv:
  assumes "arena_create mem cap = Some a"
  shows "arena_inv a" "arena_cap a = (if cap = 0 then ARENA_DEFAULT_SIZE else cap)"
  using assms by (auto simp: arena_create_def arena_inv_def arena_cap_def regions_ok_def region_inv_def arena_new_region_def
      arena_names_def Let_def split: if_splits)



section \<open>Strings in the arena\<close>

lemma set_buffer_ok:
  assumes inv: "arena_inv a" and b: "buffer_of a n = Some b" "length b' = length b"
  shows "arena_inv (set_buffer a n b')" "block_in (set_buffer a n b') = block_in a" "arena_cap (set_buffer a n b') = arena_cap a"
    "buffer_of (set_buffer a n b') m = (if m = n then Some b' else buffer_of a m)"
proof -
  let ?f = "\<lambda>r. if r_name r = n then r\<lparr>r_buf := b'\<rparr> else r" and ?g = "\<lambda>l. if l_name l = n then l\<lparr>l_buf := b'\<rparr> else l"
  have d: "distinct (arena_names a)" using inv by (simp add: arena_inv_def)
  have rb: "r_buf r = b" if "r \<in> set (regions a)" "r_name r = n" for r
    using buffer_of_region [OF d that(1)] that(2) b(1) by simp
  have lb: "l_buf l = b" if "l \<in> set (larges a)" "l_name l = n" for l
    using buffer_of_large [OF d that(1)] that(2) b(1) by simp
  have names: "map r_name (map ?f (regions a)) = map r_name (regions a)" "map l_name (map ?g (larges a)) = map l_name (larges a)"
    by simp_all
  have an: "arena_names (set_buffer a n b') = arena_names a" using names by (simp add: arena_names_def set_buffer_def)
  show cap: "arena_cap (set_buffer a n b') = arena_cap a"
    using inv by (cases "regions a") (simp_all add: arena_inv_def arena_cap_def set_buffer_def)
  have "regions_ok (arena_cap a) (map ?f (regions a))"
  proof -
    have "region_inv (?f r) \<and> r_cap (?f r) = arena_cap a" if "r \<in> set (regions a)" for r
    proof -
      have "region_inv r" "r_cap r = arena_cap a" using inv that unfolding arena_inv_def by (blast dest: regions_okD)+
      then show ?thesis using rb [OF that] b(2) by (auto simp: region_inv_def)
    qed
    then show ?thesis unfolding regions_ok_def list.set_map by blast
  qed
  moreover have "current (set_buffer a n b') = current a" "fresh (set_buffer a n b') = fresh a"
    "map r_name (regions (set_buffer a n b')) = map r_name (regions a)" "(regions (set_buffer a n b') = []) = (regions a = [])"
    "regions (set_buffer a n b') = map ?f (regions a)"
    by (simp_all add: set_buffer_def)
  ultimately show "arena_inv (set_buffer a n b')" using inv an cap unfolding arena_inv_def by (simp split: option.splits)
  show "block_in (set_buffer a n b') = block_in a"
  proof (intro ext)
    fix q m
    have regs: "regions (set_buffer a n b') = map ?f (regions a)" "larges (set_buffer a n b') = map ?g (larges a)"
      by (simp_all add: set_buffer_def)
    have ru: "r_name (?f r) = r_name r" "r_used (?f r) = r_used r" "l_name (?g l) = l_name l" for r l by simp_all
    have ll: "length (l_buf (?g l)) = length (l_buf l)" if "l \<in> set (larges a)" for l using lb [OF that] b(2) by simp
    have "block_in (set_buffer a n b') q m =
      ((\<exists>r \<in> set (regions a). r_name (?f r) = fst q \<and> snd q + m \<le> r_used (?f r))
       \<or> (\<exists>l \<in> set (larges a). l_name (?g l) = fst q \<and> snd q + m \<le> length (l_buf (?g l))))"
      unfolding block_in_def regs list.set_map bex_simps ..
    then show "block_in (set_buffer a n b') q m = block_in a q m" unfolding ru block_in_def using ll by simp
  qed
  have fr: "find (\<lambda>r. r_name r = m) (map ?f rs) = map_option ?f (find (\<lambda>r. r_name r = m) rs)" for rs
    by (induction rs) auto
  have fl: "find (\<lambda>l. l_name l = m) (map ?g ls) = map_option ?g (find (\<lambda>l. l_name l = m) ls)" for ls
    by (induction ls) auto
  have nr: "r_name r = m" if "find (\<lambda>r. r_name r = m) (regions a) = Some r" for r using that by (auto simp: find_Some_iff)
  have nl: "l_name l = m" if "find (\<lambda>l. l_name l = m) (larges a) = Some l" for l using that by (auto simp: find_Some_iff)
  show "buffer_of (set_buffer a n b') m = (if m = n then Some b' else buffer_of a m)"
  proof (cases "find (\<lambda>r. r_name r = m) (regions a)")
    case (Some r)
    then show ?thesis using nr [OF Some] by (simp add: buffer_of_def set_buffer_def fr)
  next
    case nor: None
    show ?thesis
    proof (cases "find (\<lambda>l. l_name l = m) (larges a)")
      case (Some l)
      then show ?thesis using nor nl [OF Some] by (simp add: buffer_of_def set_buffer_def fr fl)
    next
      case None
      then have "m \<noteq> n" using nor b(1) by (auto simp: buffer_of_def)
      then show ?thesis using nor None by (simp add: buffer_of_def set_buffer_def fr fl)
    qed
  qed
qed

lemma mem_write_outside:
  assumes "mem_write b off bs = Some b'" "snd q + n \<le> off \<or> off + length bs \<le> snd q"
  shows "take n (drop (snd q) b') = take n (drop (snd q) b)"
proof -
  have w: "off + length bs \<le> length b" "b' = take off b @ map Some bs @ drop (off + length bs) b"
    using assms(1) by (auto simp: mem_write_def split: if_splits)
  show ?thesis
  proof (cases "snd q + n \<le> off")
    case True
    then have "take (snd q + n) b' = take (snd q + n) b" using mem_write_take_before [OF assms(1) True] by simp
    then show ?thesis by (simp add: take_drop add.commute)
  next
    case False
    then have "off + length bs \<le> snd q" using assms(2) by simp
    moreover have "drop k b' = drop k b" if "off + length bs \<le> k" for k
    proof -
      have "drop (off + length bs) b' = drop (off + length bs) b" using w by simp
      then show ?thesis using that by (metis drop_drop le_add_diff_inverse2)
    qed
    ultimately show ?thesis by simp
  qed
qed

lemma arena_write_ok:
  assumes inv: "arena_inv a" and p: "block_in a p (length bs)"
  shows "\<exists>a'. arena_write a p bs = Some a' \<and> arena_inv a' \<and> arena_cap a' = arena_cap a \<and> block_in a' = block_in a
    \<and> arena_read a' p (length bs) = Some (map Some bs)
    \<and> (\<forall>q n. block_in a q n \<and> apart q n p (length bs) \<longrightarrow> arena_read a' q n = arena_read a q n)"
proof -
  obtain b where b: "buffer_of a (fst p) = Some b" "snd p + length bs \<le> length b"
    using block_in_read [OF inv p] by (auto simp: arena_read_def split: option.splits if_splits)
  obtain b' where w: "mem_write b (snd p) bs = Some b'" using b(2) by (auto simp: mem_write_def)
  note sb = set_buffer_ok [OF inv b(1) mem_write_length [OF w]]
  let ?a = "set_buffer a (fst p) b'"
  have res: "arena_write a p bs = Some ?a" using b(1) w by (simp add: arena_write_def)
  have "take (length bs) (drop (snd p) b') = map Some bs"
    using mem_write_take_through [OF w] b(2) by (simp add: take_drop add.commute)
  then have "arena_read ?a p (length bs) = Some (map Some bs)"
    using sb(4) b(2) mem_write_length [OF w] by (simp add: arena_read_def)
  moreover have "arena_read ?a q n = arena_read a q n" if "block_in a q n" "apart q n p (length bs)" for q n
  proof (cases "fst q = fst p")
    case True
    then have "take n (drop (snd q) b') = take n (drop (snd q) b)"
      using mem_write_outside [OF w, of q n] that(2) by (auto simp: apart_def)
    then show ?thesis using True sb(4) b(1) mem_write_length [OF w] by (simp add: arena_read_def)
  next
    case False
    then show ?thesis using sb(4) by (simp add: arena_read_def)
  qed
  ultimately show ?thesis using res sb(1-3) by blast
qed

lemma arena_strdup_ok:
  assumes inv: "arena_inv a" and req: "request_ok a env (length s + 1) ARENA_ALIGN"
  shows "\<exists>a' p. arena_strdup env a s = Some (a', p) \<and> arena_inv a' \<and> arena_cap a' = arena_cap a \<and> arena_extends a a'
    \<and> (case p of None \<Rightarrow> \<not> malloc_all env
       | Some q \<Rightarrow> block_in a' q (length s + 1) \<and> arena_read a' q (length s + 1) = Some (map Some (s @ [NUL])))"
proof -
  have k: "ARENA_ALIGN = 2 ^ 3" by (simp add: ARENA_ALIGN_def)
  obtain a1 p where a1: "arena_alloc env a (length s + 1) = Some (a1, p)" "arena_inv a1" "arena_cap a1 = arena_cap a"
    "arena_extends a a1" "case p of None \<Rightarrow> length s + 1 = 0 \<or> \<not> malloc_all env | Some q \<Rightarrow> block_new a a1 q (length s + 1)"
    using arena_alloc_aligned_ok [OF inv req [unfolded k]] unfolding arena_alloc_def k by blast
  show ?thesis
  proof (cases p)
    case None
    then show ?thesis using a1 by (simp add: arena_strdup_def)
  next
    case (Some q)
    then have q: "block_in a1 q (length (s @ [NUL]))" "\<forall>q' m. block_in a q' m \<longrightarrow> apart q' m q (length (s @ [NUL]))"
      using a1(5) by (auto simp: block_new_def)
    from arena_write_ok [OF a1(2) q(1)] obtain a2 where a2: "arena_write a1 q (s @ [NUL]) = Some a2" "arena_inv a2"
      "arena_cap a2 = arena_cap a1" "block_in a2 = block_in a1" "arena_read a2 q (length (s @ [NUL])) = Some (map Some (s @ [NUL]))"
      "\<forall>q' n. block_in a1 q' n \<and> apart q' n q (length (s @ [NUL])) \<longrightarrow> arena_read a2 q' n = arena_read a1 q' n" by blast
    have "arena_extends a a2" using a1(4) a2(4,6) q(2) by (simp add: arena_extends_def)
    moreover have "arena_strdup env a s = Some (a2, Some q)" using a1(1) a2(1) Some by (simp add: arena_strdup_def)
    ultimately show ?thesis using a2 a1(3) q(1) by simp
  qed
qed

section \<open>The life of an arena\<close>

lemma arena_reset_inv:
  assumes "arena_inv a"
  shows "arena_inv (fst (arena_reset a))" "arena_cap (fst (arena_reset a)) = arena_cap a"
proof -
  obtain h t where ht: "regions a = h # t" using assms by (cases "regions a") (auto simp: arena_inv_def)
  let ?a = "fst (arena_reset a)"
  have m: "mset (arena_names ?a) = mset (arena_names a)"
    using ht by (simp add: arena_reset_def arena_cleanup_run_def arena_free_large_def arena_names_def Let_def)
  then have n: "set (arena_names ?a) = set (arena_names a)" "distinct (arena_names ?a) = distinct (arena_names a)"
    using mset_eq_setD mset_eq_imp_distinct_iff by blast+
  have f: "fresh ?a = fresh a" "current ?a = None" "regions ?a = [h\<lparr>r_used := 0, r_failed := 0\<rparr>]"
    using ht by (simp_all add: arena_reset_def arena_cleanup_run_def arena_free_large_def Let_def)
  show cap: "arena_cap ?a = arena_cap a" using f(3) ht by (simp add: arena_cap_def)
  have "regions_ok (arena_cap a) (regions a)" using assms by (simp add: arena_inv_def)
  then have "regions_ok (arena_cap a) (regions ?a)" using f(3) ht by (simp add: regions_ok_def region_inv_def)
  then show "arena_inv ?a" using assms f n cap unfolding arena_inv_def by simp
qed

lemma arena_inv_cleanups: "arena_inv a \<Longrightarrow> arena_inv (a\<lparr>cleanups := cs\<rparr>)"
proof -
  assume inv: "arena_inv a"
  have "arena_cap (a\<lparr>cleanups := cs\<rparr>) = arena_cap a" "arena_names (a\<lparr>cleanups := cs\<rparr>) = arena_names a"
    by (simp_all add: arena_cap_def arena_names_def)
  then show ?thesis using inv by (simp add: arena_inv_def cong: option.case_cong)
qed

lemma arena_cleanup_add_inv:
  assumes "arena_inv a" "request_ok a env SIZEOF_CLEANUP ARENA_ALIGN" "request_ok a env' sz ARENA_ALIGN"
    "arena_cleanup_add env env' a sz = Some (a', p)"
  shows "arena_inv a'"
proof -
  have k: "ARENA_ALIGN = 2 ^ 3" by (simp add: ARENA_ALIGN_def)
  obtain a1 p1 where a1: "arena_alloc env a SIZEOF_CLEANUP = Some (a1, p1)" "arena_inv a1" "arena_cap a1 = arena_cap a"
    using arena_alloc_aligned_ok [OF assms(1) assms(2) [unfolded k]] unfolding arena_alloc_def k by blast
  have "request_ok a1 env' sz (2 ^ 3)" using assms(3) a1(3) by (simp add: request_ok_def k)
  then obtain a2 p2 where a2: "arena_alloc env' a1 sz = Some (a2, p2)" "arena_inv a2"
    using arena_alloc_aligned_ok [OF a1(2)] unfolding arena_alloc_def k by blast
  show ?thesis
    using assms(4) a1 a2 arena_inv_cleanups by (auto simp: arena_cleanup_add_def split: option.splits if_splits)
qed

text \<open>What can happen to an arena; the owner of a cleanup entry sets its handler.\<close>

inductive arena_reach :: "arena \<Rightarrow> bool" where
  create: "arena_create mem cap = Some a \<Longrightarrow> arena_reach a"
| alloc: "arena_reach a \<Longrightarrow> request_ok a env sz (2 ^ k) \<Longrightarrow> arena_alloc_aligned env a sz (2 ^ k) = Some (a', p) \<Longrightarrow> arena_reach a'"
| strdup: "arena_reach a \<Longrightarrow> request_ok a env (length s + 1) ARENA_ALIGN \<Longrightarrow> arena_strdup env a s = Some (a', p) \<Longrightarrow> arena_reach a'"
| store: "arena_reach a \<Longrightarrow> block_in a p (length bs) \<Longrightarrow> arena_write a p bs = Some a' \<Longrightarrow> arena_reach a'"
| cleanup_add: "arena_reach a \<Longrightarrow> request_ok a env SIZEOF_CLEANUP ARENA_ALIGN \<Longrightarrow> request_ok a env' sz ARENA_ALIGN \<Longrightarrow>
     arena_cleanup_add env env' a sz = Some (a', p) \<Longrightarrow> arena_reach a'"
| set_handler: "arena_reach a \<Longrightarrow> cs = map (\<lambda>(h, c). c\<lparr>c_handler := h\<rparr>) (zip hs (cleanups a)) \<Longrightarrow> length hs = length (cleanups a) \<Longrightarrow>
     arena_reach (a\<lparr>cleanups := cs\<rparr>)"
| reset: "arena_reach a \<Longrightarrow> arena_reset a = (a', calls) \<Longrightarrow> arena_reach a'"

lemma arena_reach_inv: "arena_reach a \<Longrightarrow> arena_inv a"
proof (induction rule: arena_reach.induct)
  case (create mem cap a)
  then show ?case by (rule arena_create_inv(1))
next
  case (alloc a env sz k a' p)
  then show ?case using arena_alloc_aligned_ok [OF alloc.IH alloc.hyps(2)] by auto
next
  case (strdup a env s a' p)
  then show ?case using arena_strdup_ok [OF strdup.IH strdup.hyps(2)] by auto
next
  case (store a p bs a')
  then show ?case using arena_write_ok [OF store.IH store.hyps(2)] by auto
next
  case (cleanup_add a env env' sz a' p)
  then show ?case using arena_cleanup_add_inv by blast
next
  case (set_handler a cs hs)
  then show ?case using arena_inv_cleanups by blast
next
  case (reset a a' calls)
  then show ?case using arena_reset_inv(1) [OF reset.IH] by (metis fst_conv)
qed

text \<open>
  Nothing is leaked and nothing is freed twice: after any life of an arena - allocations, copies of strings, writes
  into its blocks, cleanup entries and resets - destroying it passes every buffer it ever got from
  \<open>malloc\<close> to \<open>free\<close> exactly once, and runs the registered handlers in order, the latest first.
\<close>

theorem arena_destroy_frees_all:
  assumes "arena_reach a"
  shows "distinct (fst (arena_destroy a)) \<and> set (fst (arena_destroy a)) = {..<fresh a}
    \<and> snd (arena_destroy a) = concat (map (\<lambda>c. case c_handler c of None \<Rightarrow> [] | Some h \<Rightarrow> [(h, c_data c)]) (cleanups a))"
proof -
  have m: "mset (fst (arena_destroy a)) = mset (arena_names a)"
    by (simp add: arena_destroy_def arena_cleanup_run_def arena_free_large_def arena_names_def)
  have "set (fst (arena_destroy a)) = set (arena_names a)" using mset_eq_setD [OF m] .
  moreover have "distinct (fst (arena_destroy a)) = distinct (arena_names a)" using mset_eq_imp_distinct_iff [OF m] .
  ultimately show ?thesis using arena_reach_inv [OF assms]
    by (simp add: arena_inv_def arena_destroy_def arena_cleanup_run_def Let_def)
qed

theorem arena_destroy_frees_all_witness:
  "\<exists>a. arena_reach a \<and> fst (arena_destroy a) = [0] \<and> fresh a = 1"
proof -
  obtain a where a: "arena_create True 32 = Some a" "fresh a = 1" by (auto simp: arena_create_def)
  have r: "arena_reach a" by (rule arena_reach.create [OF a(1)])
  have "fst (arena_destroy a) = [0]"
    using a(1) by (auto simp: arena_create_def arena_destroy_def arena_cleanup_run_def arena_free_large_def arena_new_region_def)
  then show ?thesis using arena_destroy_frees_all [OF r] r a(2) by auto
qed

text \<open>
  The bound on the size cannot be dropped: the check \<open>new_used >= cur->used\<close> misses a sum that wraps
  but lands in the gap left by the alignment, and the block is then cleared far beyond its buffer.
\<close>

lemma arena_alloc_wraps:
  assumes "arena_create True 64 = Some a" "arena_alloc_aligned env a 1 1 = Some (a', Some p)"
  shows "arena_alloc env' a' (2 ^ 64 - 3) = None"
  using assms
  by (auto simp: arena_create_def arena_alloc_def arena_alloc_aligned_def search_split_def arena_new_region_def align_up_def
      wrap64_def SIZE_MAX_def mem_write_def mem_alloc_def ARENA_ALIGN_def arena_cap_def Let_def)

end
