(* ===== verification/Guardrail.thy ===== *)
theory Guardrail
  imports Paths
begin

text \<open>
  The guardrails (\<open>src/agent/guardrail.c\<close>): the rule registry, the six built-in rules, the rules answered by a
  language model or by an extension, and the engine that runs the rules of a hook.

  Outside code is the record \<open>world\<close>: the file system, the regular-expression matcher on the
  pattern for a link (position and length of the match), the JSON parser, the dynamic loader and the extension
  processes; the language model is a field of the configuration.  Log messages are left out and memory is always available.  A reason is \<open>None\<close> when the
  rule did not write to the buffer.
\<close>

section \<open>The model\<close>

definition GUARDRAIL_RULES_MAX :: nat where "GUARDRAIL_RULES_MAX = 16"
definition GUARDRAIL_REASON_MAX :: nat where "GUARDRAIL_REASON_MAX = 512"
definition GUARDRAIL_ACTION_MAX :: nat where "GUARDRAIL_ACTION_MAX = 512"
definition GUARDRAIL_NAME_MAX :: nat where "GUARDRAIL_NAME_MAX = 64"
definition GUARDRAIL_DESC_MAX :: nat where "GUARDRAIL_DESC_MAX = 1024"
definition GUARDRAIL_EXT_ENTRY_MAX :: nat where "GUARDRAIL_EXT_ENTRY_MAX = 4096"

datatype guardrail_verdict = GUARDRAIL_PASS | GUARDRAIL_FAIL
datatype guardrail_hook = GUARDRAIL_HOOK_INPUT | GUARDRAIL_HOOK_TOOL_OUTPUT | GUARDRAIL_HOOK_OUTPUT
datatype guardrail_rule_type = GUARDRAIL_RULE_C | GUARDRAIL_RULE_LLM | GUARDRAIL_RULE_EXT
datatype guardrail_ext_type = GUARDRAIL_EXT_EXEC | GUARDRAIL_EXT_SO
datatype react_step_type = REACT_STEP_THOUGHT | REACT_STEP_ACTION | REACT_STEP_OBSERVATION | REACT_STEP_REFLECTION
  | REACT_STEP_FINAL | REACT_STEP_REASONING

record react_step =
  st_type :: react_step_type
  st_error_code :: int
  st_artifacts :: "string list"
  st_tool_name :: "string option"

record eval_ctx =
  user_input :: "string option"
  ev_tool_name :: "string option"
  tool_result :: "string option"
  tool_error_code :: int
  tool_artifacts :: "string list option"
  proposed_answer :: "string option"
  ev_steps :: "react_step list"
  empty_round_count :: int
  max_empty_rounds :: int

text \<open>A parsed answer: \<open>pass\<close> when it is a Boolean, \<open>reason\<close> when it is a string.\<close>

record check_answer =
  ans_pass :: "bool option"
  ans_reason :: "string option"

record world =
  file_exists :: "string \<Rightarrow> bool"
  home_dir :: string
  re_match_link :: "string \<Rightarrow> (nat \<times> nat) option"
  json_answer :: "string \<Rightarrow> check_answer option"
  dl_load :: "string \<Rightarrow> (string \<Rightarrow> string \<Rightarrow> string \<Rightarrow> rc \<times> string option) option"
  exec_result :: "string \<Rightarrow> string \<Rightarrow> string \<Rightarrow> string \<Rightarrow> string option"

type_synonym verdict_reason = "guardrail_verdict \<times> string option"
type_synonym rule_fn = "eval_ctx \<Rightarrow> verdict_reason"

definition snprintf_reason :: "string \<Rightarrow> string" where
  "snprintf_reason s = take (GUARDRAIL_REASON_MAX - 1) s"

abbreviation passes :: verdict_reason where "passes \<equiv> (GUARDRAIL_PASS, None)"
abbreviation fails :: "string \<Rightarrow> verdict_reason" where "fails s \<equiv> (GUARDRAIL_FAIL, Some (snprintf_reason s))"

subsection \<open>Outcomes of tool calls\<close>

definition creative_tools :: "string list" where
  "creative_tools = [''img_gen'', ''img_inpaint'', ''img_compose'', ''img_resize'', ''img_convert'', ''vid_gen'']"

definition is_creative_tool :: "string \<Rightarrow> bool" where
  "is_creative_tool name = (name \<in> set creative_tools)"

record tool_outcome =
  o_name :: string
  o_succeeded :: bool
  o_is_creative :: bool
  o_has_file_output :: bool

fun next_observation :: "react_step list \<Rightarrow> react_step option \<times> react_step list" where
  "next_observation [] = (None, [])"
| "next_observation (obs # rest) =
     (if st_type obs = REACT_STEP_OBSERVATION then (Some obs, rest) else next_observation rest)"

definition outcome_of :: "string \<Rightarrow> react_step option \<Rightarrow> tool_outcome" where
  "outcome_of name obs =
     \<lparr>o_name = strncpy_fixed 64 name,
      o_succeeded = (case obs of None \<Rightarrow> False | Some ob \<Rightarrow> \<not> st_error_code ob < 0),
      o_is_creative = is_creative_tool name,
      o_has_file_output = (case obs of None \<Rightarrow> False | Some ob \<Rightarrow> \<not> st_error_code ob < 0 \<and> st_artifacts ob \<noteq> [])\<rparr>"

definition action_name :: "react_step \<Rightarrow> string option" where
  "action_name s = (if st_type s = REACT_STEP_ACTION then st_tool_name s else None)"

fun outcomes_loop :: "nat \<Rightarrow> react_step list \<Rightarrow> react_step list \<Rightarrow> tool_outcome list" where
  "outcomes_loop 0 obs_cursor cur = []"
| "outcomes_loop (Suc n) obs_cursor [] = []"
| "outcomes_loop (Suc n) obs_cursor (s # cur) =
     (case action_name s of
        None \<Rightarrow> outcomes_loop (Suc n) obs_cursor cur
      | Some name \<Rightarrow>
          (case next_observation obs_cursor of (obs, cursor') \<Rightarrow>
             outcome_of name obs # outcomes_loop n cursor' cur))"

definition build_tool_outcomes :: "react_step list \<Rightarrow> nat \<Rightarrow> tool_outcome list" where
  "build_tool_outcomes steps max_out = outcomes_loop max_out steps steps"

subsection \<open>The built-in rules\<close>

definition gr_empty_answer :: rule_fn where
  "gr_empty_answer ctx =
     (case proposed_answer ctx of
        None \<Rightarrow> fails ''Empty answer.''
      | Some a \<Rightarrow> if a = [] \<or> a = ''(no response)'' then fails ''Empty answer.'' else passes)"

definition gr_consecutive_empty :: rule_fn where
  "gr_consecutive_empty ctx =
     (if max_empty_rounds ctx > 0 \<and> empty_round_count ctx \<ge> max_empty_rounds ctx
      then fails ''Multiple empty responses. Provide a substantive answer.'' else passes)"

text \<open>The names of the failed calls, as far as they fit an array of 256 bytes.\<close>

definition add_failed_name :: "string \<Rightarrow> tool_outcome \<Rightarrow> string" where
  "add_failed_name names o' =
     (if o_succeeded o' then names
      else if length names + length (o_name o') + 2 < 256
        then names @ (if names \<noteq> [] then '', '' else []) @ o_name o'
        else names)"

definition gr_tools_all_failed :: rule_fn where
  "gr_tools_all_failed ctx =
     (let outs = build_tool_outcomes (ev_steps ctx) 64
      in if outs = [] then passes
         else if list_all (\<lambda>o'. \<not> o_succeeded o') outs
           then fails (''All tool calls failed ('' @ foldl add_failed_name [] outs
                       @ ''). Check arguments or try different tools.'')
           else passes)"

definition gr_creative_no_media :: rule_fn where
  "gr_creative_no_media ctx =
     (let outs = build_tool_outcomes (ev_steps ctx) 64;
          any_creative = list_ex o_is_creative outs;
          creative_all_no_file = list_all (\<lambda>o'. o_is_creative o' \<longrightarrow> \<not> o_has_file_output o') outs
      in if any_creative \<and> creative_all_no_file
         then fails ''Creative tools were called but no output files were produced.'' else passes)"

fun missing_artifact :: "world \<Rightarrow> string list \<Rightarrow> string option" where
  "missing_artifact w [] = None"
| "missing_artifact w (path # ps) =
     (if path \<noteq> [] \<and> \<not> file_exists w path then Some path else missing_artifact w ps)"

definition gr_creative_file_missing :: "world \<Rightarrow> rule_fn" where
  "gr_creative_file_missing w ctx =
     (case ev_tool_name ctx of
        None \<Rightarrow> passes
      | Some name \<Rightarrow>
          if \<not> is_creative_tool name then passes
          else if tool_error_code ctx < 0 then passes
          else (case tool_artifacts ctx of
              None \<Rightarrow> passes
            | Some paths \<Rightarrow>
                (case missing_artifact w paths of
                   None \<Rightarrow> passes
                 | Some path \<Rightarrow>
                     fails (''Creative tool '' @ [CHR 0x27] @ name @ [CHR 0x27] @ '' reported output '' @ [CHR 0x27]
                            @ path @ [CHR 0x27] @ '' but the file does not exist on disk.''))))"

subsection \<open>Links of an answer\<close>

definition scheme_char :: "char \<Rightarrow> bool" where
  "scheme_char c = (let b = (of_char c :: nat) in (65 \<le> b \<and> b \<le> 90) \<or> (97 \<le> b \<and> b \<le> 122) \<or> (48 \<le> b \<and> b \<le> 57)
     \<or> c = CHR ''+'' \<or> c = CHR ''-'' \<or> c = CHR ''.'')"

fun scheme_loop :: "bool \<Rightarrow> string \<Rightarrow> bool" where
  "scheme_loop at_start [] = False"
| "scheme_loop at_start (c # p) =
     (if c = CHR '':'' then \<not> at_start
      else if c = CHR ''/'' \<or> c = CHR ''?'' \<or> c = CHR ''#'' then False
      else if \<not> scheme_char c then False
      else scheme_loop False p)"

definition markdown_url_has_scheme :: "string \<Rightarrow> bool" where
  "markdown_url_has_scheme url = scheme_loop True url"

definition has_prefix :: "string \<Rightarrow> string \<Rightarrow> bool" where
  "has_prefix pre s = (take (length pre) s = pre)"

definition markdown_url_is_local :: "string \<Rightarrow> bool" where
  "markdown_url_is_local url =
     (if url = [] then False
      else if hd url = CHR ''#'' then False
      else if has_prefix ''//'' url then False
      else if has_prefix ''file://'' url then True
      else \<not> markdown_url_has_scheme url)"

definition markdown_local_path_from_url :: "string \<Rightarrow> string \<Rightarrow> string" where
  "markdown_local_path_from_url home url =
     (let path = (if has_prefix ''file://'' url then drop 7 url else url)
      in if path \<noteq> [] \<and> hd path = CHR ''~'' then file_expand_path home path else path)"

definition link_ws :: "char \<Rightarrow> bool" where
  "link_ws c = (c = CHR '' '' \<or> c = TAB \<or> c = CR \<or> c = LF)"

definition markdown_link_target_dup :: "string \<Rightarrow> string option" where
  "markdown_link_target_dup s =
     (let s = dropWhile link_ws s;
          s = rev (dropWhile link_ws (rev s));
          target = (if s \<noteq> [] \<and> hd s = CHR ''<'' then takeWhile (\<lambda>c. c \<noteq> CHR ''>'') (tl s)
                    else takeWhile (\<lambda>c. \<not> link_ws c) s)
      in if s = [] \<or> target = [] then None else Some target)"

definition missing_target :: "world \<Rightarrow> string \<Rightarrow> string option" where
  "missing_target w s =
     (case markdown_link_target_dup s of
        None \<Rightarrow> None
      | Some url \<Rightarrow>
          if \<not> markdown_url_is_local url then None
          else (let path = markdown_local_path_from_url (home_dir w) url
                in if \<not> file_exists w path then Some path else None))"

function link_loop :: "world \<Rightarrow> string \<Rightarrow> string option" where
  "link_loop w scan =
     (if scan = [] then None
      else (case re_match_link w scan of
          None \<Rightarrow> None
        | Some (idx, match_len) \<Rightarrow>
            let url_start = drop (idx + match_len) scan;
                inside = takeWhile (\<lambda>c. c \<noteq> CHR '')'') url_start
            in if CHR '')'' \<notin> set url_start then None
               else (case missing_target w inside of
                   Some path \<Rightarrow> Some path
                 | None \<Rightarrow> link_loop w (drop (length inside + 1) url_start))))"
  by pat_completeness auto
termination
proof (relation "measure (\<lambda>(w, s). length s)", goal_cases)
  case (2 w scan p idx match_len url_start inside)
  have "url_start \<noteq> []" using 2 by force
  then obtain n where "length url_start = Suc n" by (cases url_start) auto
  moreover have "length url_start \<le> length scan" using 2 by simp
  ultimately show ?case by simp
qed simp

declare link_loop.simps [simp del]

definition gr_final_local_file_missing :: "world \<Rightarrow> rule_fn" where
  "gr_final_local_file_missing w ctx =
     (case proposed_answer ctx of
        None \<Rightarrow> passes
      | Some answer \<Rightarrow>
          (case link_loop w answer of
             None \<Rightarrow> passes
           | Some path \<Rightarrow> fails (''Referenced local file does not exist: '' @ path)))"

subsection \<open>The registry\<close>

record guardrail_rule =
  gr_name :: string
  gr_hook :: guardrail_hook
  gr_type :: guardrail_rule_type
  gr_ext_type :: guardrail_ext_type
  gr_enabled :: bool
  gr_check :: "rule_fn option"
  gr_ext_check :: "(string \<Rightarrow> string \<Rightarrow> string \<Rightarrow> rc \<times> string option) option"
  gr_description :: string
  gr_ext_entry :: string
  gr_action_text :: string

record guardrail_config =
  cfg_enabled :: bool
  cfg_rules :: "guardrail_rule list"
  cfg_llm :: "(string \<Rightarrow> rc \<times> string) option"

fun lookup_loop :: "string \<Rightarrow> nat \<Rightarrow> guardrail_rule list \<Rightarrow> nat option" where
  "lookup_loop name i [] = None"
| "lookup_loop name i (r # rs) = (if gr_name r = name then Some i else lookup_loop name (Suc i) rs)"

definition guardrail_rule_lookup :: "guardrail_config \<Rightarrow> string \<Rightarrow> nat option" where
  "guardrail_rule_lookup cfg name = lookup_loop name 0 (cfg_rules cfg)"

definition opt_field :: "nat \<Rightarrow> string option \<Rightarrow> string" where
  "opt_field n s = (case s of None \<Rightarrow> [] | Some t \<Rightarrow> strncpy_fixed n t)"

definition guardrail_rule_register ::
  "guardrail_config \<Rightarrow> string \<Rightarrow> guardrail_hook \<Rightarrow> guardrail_rule_type \<Rightarrow> rule_fn option \<Rightarrow> string option
   \<Rightarrow> string option \<Rightarrow> string option \<Rightarrow> guardrail_config \<times> rc"
where
  "guardrail_rule_register cfg name hook type check description ext_entry action_text =
     (if length (cfg_rules cfg) \<ge> GUARDRAIL_RULES_MAX then (cfg, - ENOSPC)
      else if guardrail_rule_lookup cfg name \<noteq> None then (cfg, - EEXIST)
      else
        let r = \<lparr>gr_name = strncpy_fixed GUARDRAIL_NAME_MAX name, gr_hook = hook, gr_type = type,
                 gr_ext_type = GUARDRAIL_EXT_EXEC, gr_enabled = True,
                 gr_check = (if type = GUARDRAIL_RULE_C then check else None), gr_ext_check = None,
                 gr_description = opt_field GUARDRAIL_DESC_MAX description,
                 gr_ext_entry = opt_field GUARDRAIL_EXT_ENTRY_MAX ext_entry,
                 gr_action_text = opt_field GUARDRAIL_ACTION_MAX action_text\<rparr>
        in (cfg\<lparr>cfg_rules := cfg_rules cfg @ [r]\<rparr>, 0))"

definition rule_set_enabled :: "bool \<Rightarrow> guardrail_config \<Rightarrow> string \<Rightarrow> guardrail_config \<times> rc" where
  "rule_set_enabled b cfg name =
     (case guardrail_rule_lookup cfg name of
        None \<Rightarrow> (cfg, - ENOENT)
      | Some i \<Rightarrow> (cfg\<lparr>cfg_rules := (cfg_rules cfg)[i := (cfg_rules cfg ! i)\<lparr>gr_enabled := b\<rparr>]\<rparr>, 0))"

definition guardrail_rule_disable :: "guardrail_config \<Rightarrow> string \<Rightarrow> guardrail_config \<times> rc" where
  "guardrail_rule_disable cfg name = rule_set_enabled False cfg name"

definition guardrail_rule_enable :: "guardrail_config \<Rightarrow> string \<Rightarrow> guardrail_config \<times> rc" where
  "guardrail_rule_enable cfg name = rule_set_enabled True cfg name"

definition guardrail_set_llm :: "guardrail_config \<Rightarrow> (string \<Rightarrow> rc \<times> string) option \<Rightarrow> guardrail_config" where
  "guardrail_set_llm cfg llm = cfg\<lparr>cfg_llm := llm\<rparr>"

subsection \<open>Rules answered by a model or an extension\<close>

definition gr_check_text :: "guardrail_rule \<Rightarrow> eval_ctx \<Rightarrow> string option" where
  "gr_check_text rule ctx =
     (case gr_hook rule of
        GUARDRAIL_HOOK_INPUT \<Rightarrow> user_input ctx
      | GUARDRAIL_HOOK_TOOL_OUTPUT \<Rightarrow> tool_result ctx
      | GUARDRAIL_HOOK_OUTPUT \<Rightarrow> proposed_answer ctx)"

definition guardrail_parse_check_result :: "world \<Rightarrow> string \<Rightarrow> guardrail_rule \<Rightarrow> verdict_reason" where
  "guardrail_parse_check_result w result_json rule =
     (case json_answer w result_json of
        None \<Rightarrow> passes
      | Some ans \<Rightarrow>
          if (case ans_pass ans of None \<Rightarrow> True | Some b \<Rightarrow> b) then passes
          else fails (case ans_reason ans of Some r \<Rightarrow> r | None \<Rightarrow> gr_description rule))"

abbreviation QUOTE :: string where "QUOTE \<equiv> [CHR 0x22]"

text \<open>The prompt, cut to its array of 2048 bytes.\<close>

definition llm_prompt :: "string \<Rightarrow> string \<Rightarrow> string" where
  "llm_prompt description check_text =
     take 2047 (''Check if the following text passes this rule: '' @ QUOTE @ description @ QUOTE @ [LF, LF]
       @ ''Text: '' @ QUOTE @ check_text @ QUOTE @ [LF, LF]
       @ ''Respond with ONLY a JSON object: {'' @ QUOTE @ ''pass'' @ QUOTE @ '': true/false, '' @ QUOTE @ ''reason'' @ QUOTE
       @ '': '' @ QUOTE @ ''brief explanation'' @ QUOTE @ ''}'' @ [LF] @ ''Do not include any other text.'')"

definition guardrail_llm_check :: "world \<Rightarrow> guardrail_rule \<Rightarrow> guardrail_config \<Rightarrow> eval_ctx \<Rightarrow> verdict_reason" where
  "guardrail_llm_check w rule cfg ctx =
     (case cfg_llm cfg of
        None \<Rightarrow> passes
      | Some chat \<Rightarrow>
          (case gr_check_text rule ctx of
             None \<Rightarrow> passes
           | Some check_text \<Rightarrow>
               if check_text = [] then passes
               else (case chat (llm_prompt (gr_description rule) check_text) of (status, collect) \<Rightarrow>
                 if status < 0 \<or> collect = [] then passes
                 else guardrail_parse_check_result w collect rule)))"

abbreviation (input) MORPH_ERR_LOAD :: int where "MORPH_ERR_LOAD \<equiv> - 267"

definition guardrail_ext_so_load :: "world \<Rightarrow> guardrail_rule \<Rightarrow> guardrail_rule \<times> rc" where
  "guardrail_ext_so_load w rule =
     (if gr_ext_entry rule = [] then (rule, - EINVAL)
      else (case dl_load w (gr_ext_entry rule) of
          None \<Rightarrow> (rule, MORPH_ERR_LOAD)
        | Some f \<Rightarrow> (rule\<lparr>gr_ext_check := Some f\<rparr>, 0)))"

definition guardrail_ext_so_unload :: "guardrail_rule \<Rightarrow> guardrail_rule" where
  "guardrail_ext_so_unload rule = rule\<lparr>gr_ext_check := None\<rparr>"

definition text_or_empty :: "string option \<Rightarrow> string" where
  "text_or_empty t = (case t of None \<Rightarrow> [] | Some s \<Rightarrow> s)"

definition guardrail_ext_so_check :: "world \<Rightarrow> guardrail_rule \<Rightarrow> eval_ctx \<Rightarrow> verdict_reason" where
  "guardrail_ext_so_check w rule ctx =
     (case gr_ext_check rule of
        None \<Rightarrow> passes
      | Some f \<Rightarrow>
          (case f (text_or_empty (gr_check_text rule ctx)) (gr_name rule) (gr_description rule) of (rc, result) \<Rightarrow>
             if rc \<noteq> 0 then passes
             else (case result of None \<Rightarrow> passes | Some r \<Rightarrow> guardrail_parse_check_result w r rule)))"

text \<open>\<open>exec_result\<close> is what the helper process answers to the request, \<open>None\<close> when any step on the way fails.\<close>

definition guardrail_ext_exec_check :: "world \<Rightarrow> guardrail_rule \<Rightarrow> eval_ctx \<Rightarrow> verdict_reason" where
  "guardrail_ext_exec_check w rule ctx =
     (if gr_ext_entry rule = [] then passes
      else (case exec_result w (gr_ext_entry rule) (text_or_empty (gr_check_text rule ctx)) (gr_name rule) (gr_description rule) of
          None \<Rightarrow> passes
        | Some r \<Rightarrow> guardrail_parse_check_result w r rule))"

definition guardrail_ext_check :: "world \<Rightarrow> guardrail_rule \<Rightarrow> eval_ctx \<Rightarrow> verdict_reason" where
  "guardrail_ext_check w rule ctx =
     (if gr_ext_type rule = GUARDRAIL_EXT_SO then guardrail_ext_so_check w rule ctx
      else guardrail_ext_exec_check w rule ctx)"

subsection \<open>The engine\<close>

record guardrail_result =
  verdict :: guardrail_verdict
  reason :: string
  triggered_rule :: "guardrail_rule option"

definition rule_verdict :: "world \<Rightarrow> guardrail_config \<Rightarrow> eval_ctx \<Rightarrow> guardrail_rule \<Rightarrow> verdict_reason" where
  "rule_verdict w cfg ctx rule =
     (case gr_type rule of
        GUARDRAIL_RULE_C \<Rightarrow> (case gr_check rule of None \<Rightarrow> passes | Some f \<Rightarrow> f ctx)
      | GUARDRAIL_RULE_LLM \<Rightarrow> guardrail_llm_check w rule cfg ctx
      | GUARDRAIL_RULE_EXT \<Rightarrow> guardrail_ext_check w rule ctx)"

fun run_rules :: "world \<Rightarrow> guardrail_config \<Rightarrow> guardrail_hook \<Rightarrow> eval_ctx \<Rightarrow> string \<Rightarrow> guardrail_rule list \<Rightarrow> guardrail_result" where
  "run_rules w cfg hook ctx rsn [] = \<lparr>verdict = GUARDRAIL_PASS, reason = rsn, triggered_rule = None\<rparr>"
| "run_rules w cfg hook ctx rsn (rule # rules) =
     (if \<not> gr_enabled rule \<or> gr_hook rule \<noteq> hook then run_rules w cfg hook ctx rsn rules
      else (case rule_verdict w cfg ctx rule of (v, out) \<Rightarrow>
        let rsn = (case out of None \<Rightarrow> rsn | Some s \<Rightarrow> s)
        in if v = GUARDRAIL_FAIL then \<lparr>verdict = GUARDRAIL_FAIL, reason = rsn, triggered_rule = Some rule\<rparr>
           else run_rules w cfg hook ctx rsn rules))"

definition guardrail_run_hook :: "world \<Rightarrow> guardrail_config \<Rightarrow> guardrail_hook \<Rightarrow> eval_ctx \<Rightarrow> guardrail_result" where
  "guardrail_run_hook w cfg hook ctx =
     (if \<not> cfg_enabled cfg then \<lparr>verdict = GUARDRAIL_PASS, reason = [], triggered_rule = None\<rparr>
      else run_rules w cfg hook ctx [] (cfg_rules cfg))"

definition guardrail_register_builtin_rules :: "world \<Rightarrow> guardrail_config \<Rightarrow> guardrail_config" where
  "guardrail_register_builtin_rules w cfg =
     (let reg = (\<lambda>name hook f action cfg.
            fst (guardrail_rule_register cfg name hook GUARDRAIL_RULE_C (Some f) None None (Some action)));
          cfg = reg ''consecutive_empty'' GUARDRAIL_HOOK_OUTPUT gr_consecutive_empty
            ''Multiple empty responses. Provide a substantive answer.'' cfg;
          cfg = reg ''empty_answer'' GUARDRAIL_HOOK_OUTPUT gr_empty_answer ''Provide a substantive answer.'' cfg;
          cfg = reg ''tools_all_failed'' GUARDRAIL_HOOK_OUTPUT gr_tools_all_failed
            ''All your tool calls failed. Check the error messages above, fix your tool arguments, and try again.'' cfg;
          cfg = reg ''creative_no_media'' GUARDRAIL_HOOK_OUTPUT gr_creative_no_media
            ''Your creative tool calls did not produce output files. Verify the tool parameters are correct.'' cfg;
          cfg = reg ''creative_file_missing'' GUARDRAIL_HOOK_TOOL_OUTPUT (gr_creative_file_missing w)
            ''The creative tool reported an output file but it does not exist. The generation may have failed silently. Try calling the tool again.'' cfg
      in reg ''final_local_file_missing'' GUARDRAIL_HOOK_OUTPUT (gr_final_local_file_missing w)
           ''Regenerate the file or reference a local file that exists.'' cfg)"

section \<open>Pairing calls with their results\<close>

definition observations :: "react_step list \<Rightarrow> react_step list" where
  "observations steps = filter (\<lambda>s. st_type s = REACT_STEP_OBSERVATION) steps"

definition actions :: "react_step list \<Rightarrow> string list" where
  "actions steps = List.map_filter action_name steps"

text \<open>The reference: the \<open>i\<close>-th named call gets the \<open>i\<close>-th observation, if there is one.\<close>

definition nth_obs :: "react_step list \<Rightarrow> nat \<Rightarrow> react_step option" where
  "nth_obs obs i = (if i < length obs then Some (obs ! i) else None)"

lemma next_observation_eq:
  "next_observation steps = (r, rest) \<Longrightarrow>
     observations rest = tl (observations steps) \<and> r = (case observations steps of [] \<Rightarrow> None | ob # _ \<Rightarrow> Some ob)"
  by (induction steps rule: next_observation.induct) (auto simp: observations_def split: if_splits)

lemma map_filter_Cons:
  "List.map_filter f (x # xs) = (case f x of None \<Rightarrow> List.map_filter f xs | Some y \<Rightarrow> y # List.map_filter f xs)"
  by (simp add: List.map_filter_def split: option.splits)

lemma outcomes_loop_eq:
  "outcomes_loop n cursor cur =
     map (\<lambda>i. outcome_of (actions cur ! i) (nth_obs (observations cursor) i)) [0..<min n (length (actions cur))]"
proof (induction n cursor cur rule: outcomes_loop.induct)
  case (3 n cursor s cur)
  show ?case
  proof (cases "action_name s")
    case None
    then show ?thesis using 3(1) by (simp add: actions_def map_filter_Cons)
  next
    case (Some name)
    obtain ob rest where o: "next_observation cursor = (ob, rest)" by fastforce
    note e = next_observation_eq [OF o]
    have acts: "actions (s # cur) = name # actions cur" using Some by (simp add: actions_def map_filter_Cons)
    have hd: "nth_obs (observations cursor) 0 = ob" using e by (auto simp: nth_obs_def split: list.splits)
    have tl: "nth_obs (observations cursor) (Suc i) = nth_obs (observations rest) i" for i
      using e by (cases "observations cursor") (auto simp: nth_obs_def)
    have "outcomes_loop (Suc n) cursor (s # cur) = outcome_of name ob # outcomes_loop n rest cur" using Some o by simp
    also have "\<dots> = outcome_of name ob # map (\<lambda>i. outcome_of (actions cur ! i) (nth_obs (observations rest) i)) [0..<min n (length (actions cur))]"
      using 3(2) [OF Some o [symmetric]] by simp
    also have "\<dots> = map (\<lambda>i. outcome_of (actions (s # cur) ! i) (nth_obs (observations cursor) i))
        [0..<min (Suc n) (length (actions (s # cur)))]"
      unfolding acts by (simp add: map_upt_Suc hd tl del: upt_Suc)
    finally show ?thesis .
  qed
qed (simp_all add: actions_def List.map_filter_def)

text \<open>A call worked when its observation reports no error, and it delivered when that observation names a file.\<close>

definition call_worked :: "react_step list \<Rightarrow> nat \<Rightarrow> bool" where
  "call_worked steps i = (i < length (observations steps) \<and> 0 \<le> st_error_code (observations steps ! i))"

definition call_delivered :: "react_step list \<Rightarrow> nat \<Rightarrow> bool" where
  "call_delivered steps i = (call_worked steps i \<and> st_artifacts (observations steps ! i) \<noteq> [])"

lemma outcome_flags:
  "o_succeeded (outcome_of name (nth_obs (observations steps) i)) = call_worked steps i"
  "o_has_file_output (outcome_of name (nth_obs (observations steps) i)) = call_delivered steps i"
  "o_is_creative (outcome_of name ob) = is_creative_tool name"
  by (auto simp: outcome_of_def nth_obs_def call_worked_def call_delivered_def)

text \<open>
  The two rules about tool calls judge the first 64 named calls, the n-th call by the n-th observation: an answer
  is rejected because every call failed exactly when there was a call and none of them worked, and
  because nothing was produced exactly when a creative tool was called and no creative call
  delivered a file.
\<close>

theorem guardrail_tool_rules:
  fixes ctx :: eval_ctx
  defines "steps \<equiv> ev_steps ctx" and "calls \<equiv> actions (ev_steps ctx)"
  defines "n \<equiv> min 64 (length (actions (ev_steps ctx)))"
  shows "(fst (gr_tools_all_failed ctx) = GUARDRAIL_FAIL \<longleftrightarrow> calls \<noteq> [] \<and> (\<nexists>i. i < n \<and> call_worked steps i))
       \<and> (fst (gr_creative_no_media ctx) = GUARDRAIL_FAIL \<longleftrightarrow>
            (\<exists>i < n. is_creative_tool (calls ! i)) \<and> (\<nexists>i. i < n \<and> is_creative_tool (calls ! i) \<and> call_delivered steps i))"
proof -
  have b: "build_tool_outcomes steps 64 = map (\<lambda>i. outcome_of (calls ! i) (nth_obs (observations steps) i)) [0..<n]"
    by (simp add: build_tool_outcomes_def outcomes_loop_eq steps_def calls_def n_def)
  have e: "ev_steps ctx = steps" by (simp add: steps_def)
  have n0: "n = 0 \<longleftrightarrow> calls = []" by (auto simp: n_def calls_def min_def)
  have "fst (gr_tools_all_failed ctx) = GUARDRAIL_FAIL \<longleftrightarrow> calls \<noteq> [] \<and> (\<nexists>i. i < n \<and> call_worked steps i)"
    unfolding gr_tools_all_failed_def e b using n0 by (auto simp: Let_def list_all_iff outcome_flags)
  moreover have "fst (gr_creative_no_media ctx) = GUARDRAIL_FAIL \<longleftrightarrow>
      (\<exists>i < n. is_creative_tool (calls ! i)) \<and> (\<nexists>i. i < n \<and> is_creative_tool (calls ! i) \<and> call_delivered steps i)"
    unfolding gr_creative_no_media_def e b by (auto simp: Let_def list_all_iff list_ex_iff outcome_flags)
  ultimately show ?thesis by blast
qed

section \<open>Links to missing files\<close>

text \<open>What the pattern means: the first place where a closing bracket is followed by an opening parenthesis.\<close>

fun first_link :: "string \<Rightarrow> (nat \<times> nat) option" where
  "first_link [] = None"
| "first_link (c # cs) =
     (if c = CHR '']'' \<and> cs \<noteq> [] \<and> hd cs = CHR ''('' then Some (0, 2)
      else map_option (\<lambda>(i, n). (Suc i, n)) (first_link cs))"

definition link_matcher :: "world \<Rightarrow> bool" where
  "link_matcher w = (\<forall>s. re_match_link w s = first_link s)"

lemma first_link_append: "first_link t = None \<Longrightarrow> first_link (t @ '']('' @ s) = Some (length t, 2)"
proof (induction t)
  case (Cons c t)
  then have "first_link t = None" "\<not> (c = CHR '']'' \<and> t \<noteq> [] \<and> hd t = CHR ''('')" by (auto split: if_splits)
  then show ?case using Cons.IH by (cases t) auto
qed simp

text \<open>An answer as a sequence of texts and links, and the text after the last link.\<close>

definition link_answer :: "(string \<times> string) list \<Rightarrow> string \<Rightarrow> string" where
  "link_answer links rest = concat (map (\<lambda>(t, u). t @ '']('' @ u @ '')'') links) @ rest"

definition link_ok :: "string \<times> string \<Rightarrow> bool" where
  "link_ok l = (case l of (t, u) \<Rightarrow> first_link t = None \<and> CHR '')'' \<notin> set u)"

lemma link_loop_answer:
  assumes "link_matcher w" "first_link rest = None"
  shows "list_all link_ok links \<Longrightarrow>
    link_loop w (link_answer links rest) = List.find (\<lambda>p. True) (List.map_filter (\<lambda>(t, u). missing_target w u) links)"
proof (induction links)
  case Nil
  then show ?case using assms by (subst link_loop.simps) (simp add: link_answer_def link_matcher_def List.map_filter_def)
next
  case (Cons l links)
  obtain t u where l: "l = (t, u)" by fastforce
  have tu: "first_link t = None" "CHR '')'' \<notin> set u" using Cons.prems l by (auto simp: link_ok_def)
  let ?rest = "link_answer links rest"
  have a: "link_answer (l # links) rest = t @ '']('' @ (u @ CHR '')'' # ?rest)" by (simp add: link_answer_def l)
  have m: "re_match_link w (t @ CHR '']'' # CHR ''('' # u @ CHR '')'' # ?rest) = Some (length t, 2)"
    using assms(1) first_link_append [OF tu(1), of "u @ CHR '')'' # ?rest"] by (simp add: link_matcher_def)
  have tw: "takeWhile (\<lambda>c. c \<noteq> CHR '')'') (u @ CHR '')'' # ?rest) = u" using tu(2) by (subst takeWhile_append2) auto
  have "link_loop w (link_answer (l # links) rest) = (case missing_target w u of Some p \<Rightarrow> Some p | None \<Rightarrow> link_loop w ?rest)"
    unfolding a by (subst link_loop.simps) (simp add: m tw Let_def cong: option.case_cong)
  then show ?case using Cons l by (simp add: map_filter_Cons split: option.splits)
qed

text \<open>
  The final answer may not point to missing files: an answer whose links are read as texts in brackets
  followed by a target in parentheses is rejected exactly when some link names a local file that does
  not exist, and the reason names the first such file; web addresses, anchors and empty targets never
  reject it.
\<close>

theorem guardrail_links_spec:
  assumes "link_matcher w" "list_all link_ok links" "first_link rest = None"
    and "proposed_answer ctx = Some (link_answer links rest)"
  shows "gr_final_local_file_missing w ctx =
     (case List.map_filter (\<lambda>(t, u). missing_target w u) links of
        [] \<Rightarrow> (GUARDRAIL_PASS, None)
      | path # _ \<Rightarrow> (GUARDRAIL_FAIL, Some (take 511 (''Referenced local file does not exist: '' @ path))))"
  using link_loop_answer [OF assms(1,3,2)] assms(4)
  by (auto simp: gr_final_local_file_missing_def snprintf_reason_def GUARDRAIL_REASON_MAX_def split: list.splits)

definition sample_world :: world where
  "sample_world = \<lparr>file_exists = (\<lambda>p. p = ''out.png''), home_dir = ''/root'', re_match_link = first_link,
     json_answer = (\<lambda>_. None), dl_load = (\<lambda>_. None), exec_result = (\<lambda>_ _ _ _. None)\<rparr>"

definition sample_ctx :: "string \<Rightarrow> eval_ctx" where
  "sample_ctx answer = \<lparr>user_input = None, ev_tool_name = None, tool_result = None, tool_error_code = 0, tool_artifacts = None,
     proposed_answer = Some answer, ev_steps = [], empty_round_count = 0, max_empty_rounds = 0\<rparr>"

theorem guardrail_links_spec_witness:
  "gr_final_local_file_missing sample_world
     (sample_ctx ''see [a](out.png), [b](https://x.org) and [c]( ~/gone.txt )!'')
   = (GUARDRAIL_FAIL, Some ''Referenced local file does not exist: /root/gone.txt'')"
proof -
  let ?links = "[(''see [a'', ''out.png''), ('', [b'', ''https://x.org''), ('' and [c'', '' ~/gone.txt '')]"
  have m: "link_matcher sample_world" by (simp add: link_matcher_def sample_world_def)
  have o: "list_all link_ok ?links" by (simp add: link_ok_def)
  have a: "proposed_answer (sample_ctx ''see [a](out.png), [b](https://x.org) and [c]( ~/gone.txt )!'')
      = Some (link_answer ?links ''!'')" by (simp add: sample_ctx_def link_answer_def)
  have t: "List.map_filter (\<lambda>(t, u). missing_target sample_world u) ?links = [''/root/gone.txt'']" by code_simp
  show ?thesis using guardrail_links_spec [OF m o _ a] unfolding t by simp
qed

section \<open>The engine\<close>

definition rule_fires :: "world \<Rightarrow> guardrail_config \<Rightarrow> guardrail_hook \<Rightarrow> eval_ctx \<Rightarrow> guardrail_rule \<Rightarrow> bool" where
  "rule_fires w cfg hook ctx r = (gr_enabled r \<and> gr_hook r = hook \<and> fst (rule_verdict w cfg ctx r) = GUARDRAIL_FAIL)"

lemma run_rules_find:
  "verdict (run_rules w cfg hook ctx rsn rules) = (if \<exists>r \<in> set rules. rule_fires w cfg hook ctx r then GUARDRAIL_FAIL else GUARDRAIL_PASS)
   \<and> triggered_rule (run_rules w cfg hook ctx rsn rules) = List.find (rule_fires w cfg hook ctx) rules"
proof (induction rules arbitrary: rsn)
  case (Cons r rules)
  obtain v out where "rule_verdict w cfg ctx r = (v, out)" by fastforce
  then show ?case using Cons.IH by (auto simp: rule_fires_def Let_def)
qed simp

lemma verdict_text:
  "rule_verdict w cfg ctx r = (GUARDRAIL_PASS, out) \<Longrightarrow> gr_type r \<noteq> GUARDRAIL_RULE_C \<Longrightarrow> out = None"
  by (auto simp: rule_verdict_def guardrail_llm_check_def guardrail_ext_check_def guardrail_ext_so_check_def
      guardrail_ext_exec_check_def guardrail_parse_check_result_def split: guardrail_rule_type.splits option.splits if_splits prod.splits)

text \<open>
  C32. A hook rejects exactly when guardrails are on and some enabled rule of that hook fails, and it names the first such
  rule; rules of the other hooks and disabled rules have no influence.  A rule answered by a language model
  fails only when the model could be asked about a non-empty text and its answer was JSON
  saying so: every failure on the way passes.
\<close>

theorem guardrail_run_hook_spec:
  "verdict (guardrail_run_hook w cfg hook ctx)
     = (if cfg_enabled cfg \<and> (\<exists>r \<in> set (cfg_rules cfg). rule_fires w cfg hook ctx r) then GUARDRAIL_FAIL else GUARDRAIL_PASS)
   \<and> triggered_rule (guardrail_run_hook w cfg hook ctx)
     = (if cfg_enabled cfg then List.find (rule_fires w cfg hook ctx) (cfg_rules cfg) else None)
   \<and> (fst (guardrail_llm_check w rule cfg ctx) = GUARDRAIL_FAIL \<longleftrightarrow>
        (\<exists>chat c cs status out ans. cfg_llm cfg = Some chat \<and> gr_check_text rule ctx = Some (c # cs)
           \<and> chat (llm_prompt (gr_description rule) (c # cs)) = (status, out) \<and> 0 \<le> status \<and> out \<noteq> []
           \<and> json_answer w out = Some ans \<and> ans_pass ans = Some False))"
proof -
  have "fst (guardrail_parse_check_result w out rule) = GUARDRAIL_FAIL \<longleftrightarrow>
      (\<exists>ans. json_answer w out = Some ans \<and> ans_pass ans = Some False)" for out
    by (auto simp: guardrail_parse_check_result_def split: option.splits)
  then have "fst (guardrail_llm_check w rule cfg ctx) = GUARDRAIL_FAIL \<longleftrightarrow>
        (\<exists>chat c cs status out ans. cfg_llm cfg = Some chat \<and> gr_check_text rule ctx = Some (c # cs)
           \<and> chat (llm_prompt (gr_description rule) (c # cs)) = (status, out) \<and> 0 \<le> status \<and> out \<noteq> []
           \<and> json_answer w out = Some ans \<and> ans_pass ans = Some False)"
    by (cases "gr_check_text rule ctx") (auto simp: guardrail_llm_check_def neq_Nil_conv split: option.splits prod.splits)
  then show ?thesis
    using run_rules_find [of w cfg hook ctx "[]" "cfg_rules cfg"] by (simp add: guardrail_run_hook_def)
qed

section \<open>The registry\<close>

lemma lookup_loop_None: "lookup_loop name i rs = None \<longleftrightarrow> name \<notin> set (map gr_name rs)"
  by (induction name i rs rule: lookup_loop.induct) auto

lemma lookup_loop_Some: "lookup_loop name i rs = Some j \<Longrightarrow> i \<le> j \<and> j - i < length rs \<and> gr_name (rs ! (j - i)) = name"
proof (induction name i rs rule: lookup_loop.induct)
  case (2 name i r rs)
  show ?case
  proof (cases "gr_name r = name")
    case True
    then show ?thesis using 2(2) by simp
  next
    case False
    then have IH: "Suc i \<le> j" "j - Suc i < length rs" "gr_name (rs ! (j - Suc i)) = name" using 2 by auto
    then have "j - i = Suc (j - Suc i)" by linarith
    then show ?thesis using IH by simp
  qed
qed simp

lemma lookup_loop_append:
  "name \<notin> set (map gr_name rs) \<Longrightarrow> gr_name r = name \<Longrightarrow> lookup_loop name i (rs @ [r]) = Some (i + length rs)"
  by (induction name i rs rule: lookup_loop.induct) auto

definition registry_ok :: "guardrail_config \<Rightarrow> bool" where
  "registry_ok cfg = (length (cfg_rules cfg) \<le> GUARDRAIL_RULES_MAX \<and> distinct (map gr_name (cfg_rules cfg)))"

text \<open>What happens to a configuration; names fit the field, as those of the built-in rules do.\<close>

inductive gr_reach :: "guardrail_config \<Rightarrow> bool" where
  start: "cfg_rules cfg = [] \<Longrightarrow> gr_reach cfg"
| register: "gr_reach cfg \<Longrightarrow> length name < GUARDRAIL_NAME_MAX \<Longrightarrow>
     guardrail_rule_register cfg name hook type check desc entry action = (cfg', rc) \<Longrightarrow> gr_reach cfg'"
| switch: "gr_reach cfg \<Longrightarrow> rule_set_enabled b cfg name = (cfg', rc) \<Longrightarrow> gr_reach cfg'"
| set_llm: "gr_reach cfg \<Longrightarrow> gr_reach (guardrail_set_llm cfg llm)"
| so_load: "gr_reach cfg \<Longrightarrow> i < length (cfg_rules cfg) \<Longrightarrow>
     gr_reach (cfg\<lparr>cfg_rules := (cfg_rules cfg)[i := fst (guardrail_ext_so_load w (cfg_rules cfg ! i))]\<rparr>)"

lemma update_names:
  "i < length rs \<Longrightarrow> gr_name r = gr_name (rs ! i) \<Longrightarrow> map gr_name (rs[i := r]) = map gr_name rs"
  by (simp add: map_update list_update_same_conv)

lemma register_cases:
  assumes "length name < GUARDRAIL_NAME_MAX"
    "guardrail_rule_register cfg name hook type check desc entry action = (cfg', rc)"
  shows "(length (cfg_rules cfg) \<ge> GUARDRAIL_RULES_MAX \<and> rc = - ENOSPC \<and> cfg' = cfg)
    \<or> (length (cfg_rules cfg) < GUARDRAIL_RULES_MAX \<and> name \<in> set (map gr_name (cfg_rules cfg)) \<and> rc = - EEXIST \<and> cfg' = cfg)
    \<or> (length (cfg_rules cfg) < GUARDRAIL_RULES_MAX \<and> name \<notin> set (map gr_name (cfg_rules cfg)) \<and> rc = 0
       \<and> (\<exists>r. cfg_rules cfg' = cfg_rules cfg @ [r] \<and> gr_name r = name \<and> gr_enabled r))"
  using assms
  by (auto simp: guardrail_rule_register_def guardrail_rule_lookup_def lookup_loop_None strncpy_fixed_id Let_def
      split: if_splits simp del: set_map)

lemma registry_reach_ok: "gr_reach cfg \<Longrightarrow> registry_ok cfg"
proof (induction rule: gr_reach.induct)
  case (register cfg name hook type check desc entry action cfg' rc)
  then show ?case using register_cases [OF register.hyps(2,3)] by (auto simp: registry_ok_def)
next
  case (switch cfg b name cfg' rc)
  show ?case
  proof (cases "guardrail_rule_lookup cfg name")
    case None
    then show ?thesis using switch by (simp add: rule_set_enabled_def)
  next
    case (Some i)
    then have "i < length (cfg_rules cfg)" using lookup_loop_Some [of name 0] by (auto simp: guardrail_rule_lookup_def)
    then have "map gr_name ((cfg_rules cfg)[i := (cfg_rules cfg ! i)\<lparr>gr_enabled := b\<rparr>]) = map gr_name (cfg_rules cfg)"
      by (intro update_names) simp_all
    moreover have "cfg' = cfg\<lparr>cfg_rules := (cfg_rules cfg)[i := (cfg_rules cfg ! i)\<lparr>gr_enabled := b\<rparr>]\<rparr>"
      using switch Some by (simp add: rule_set_enabled_def)
    ultimately show ?thesis using switch.IH by (simp add: registry_ok_def)
  qed
next
  case (so_load cfg i w)
  have "gr_name (fst (guardrail_ext_so_load w r)) = gr_name r" for r
    by (auto simp: guardrail_ext_so_load_def split: option.splits)
  then have "map gr_name ((cfg_rules cfg)[i := fst (guardrail_ext_so_load w (cfg_rules cfg ! i))]) = map gr_name (cfg_rules cfg)"
    using so_load.hyps(2) by (intro update_names) simp_all
  then show ?case using so_load.IH by (simp add: registry_ok_def)
qed (auto simp: registry_ok_def guardrail_set_llm_def)

text \<open>
  Registering a rule reports a full table, then a name that is taken, and otherwise succeeds; an error changes
  nothing, and a success appends one enabled rule that can be looked up under its name.  The table never
  exceeds its 16 entries and no two rules share a name.
\<close>

theorem guardrail_register_spec:
  assumes "gr_reach cfg" "length name < 64"
    and "guardrail_rule_register cfg name hook type check desc entry action = (cfg', rc)"
  shows "length (cfg_rules cfg') \<le> 16 \<and> distinct (map gr_name (cfg_rules cfg'))
    \<and> (rc = - ENOSPC \<longleftrightarrow> length (cfg_rules cfg) = 16)
    \<and> (rc = - EEXIST \<longleftrightarrow> length (cfg_rules cfg) < 16 \<and> name \<in> set (map gr_name (cfg_rules cfg)))
    \<and> (if rc = 0 then \<exists>r. cfg_rules cfg' = cfg_rules cfg @ [r] \<and> gr_name r = name \<and> gr_enabled r
           \<and> guardrail_rule_lookup cfg' name = Some (length (cfg_rules cfg))
       else cfg' = cfg)"
proof -
  have n: "length name < GUARDRAIL_NAME_MAX" using assms(2) by (simp add: GUARDRAIL_NAME_MAX_def)
  have ok: "registry_ok cfg" "registry_ok cfg'"
    using registry_reach_ok assms(1) gr_reach.register [OF assms(1) n assms(3)] by blast+
  then have l: "length (cfg_rules cfg) \<le> 16" "length (cfg_rules cfg') \<le> 16" "distinct (map gr_name (cfg_rules cfg'))"
    by (auto simp: registry_ok_def GUARDRAIL_RULES_MAX_def)
  have look: "guardrail_rule_lookup cfg' name = Some (length (cfg_rules cfg))"
    if "cfg_rules cfg' = cfg_rules cfg @ [r]" "gr_name r = name" "name \<notin> set (map gr_name (cfg_rules cfg))" for r
    using lookup_loop_append [OF that(3,2), of 0] that(1) by (simp add: guardrail_rule_lookup_def)
  from register_cases [OF n assms(3)] show ?thesis
    using l look by (auto simp: GUARDRAIL_RULES_MAX_def simp del: set_map)
qed

definition sample_config :: guardrail_config where
  "sample_config = \<lparr>cfg_enabled = True, cfg_rules = [], cfg_llm = None\<rparr>"

lemma sample_config_reach: "gr_reach sample_config"
  by (rule gr_reach.start) (simp add: sample_config_def)

theorem guardrail_register_spec_witness:
  "\<exists>cfg' r. guardrail_rule_register sample_config ''empty_answer'' GUARDRAIL_HOOK_OUTPUT GUARDRAIL_RULE_C (Some gr_empty_answer) None None None
     = (cfg', 0) \<and> cfg_rules cfg' = [r] \<and> gr_name r = ''empty_answer'' \<and> guardrail_rule_lookup cfg' ''empty_answer'' = Some 0"
proof -
  let ?reg = "guardrail_rule_register sample_config ''empty_answer'' GUARDRAIL_HOOK_OUTPUT GUARDRAIL_RULE_C (Some gr_empty_answer) None None None"
  obtain cfg' rc where r: "?reg = (cfg', rc)" by fastforce
  then have "rc = 0" by (auto simp: guardrail_rule_register_def sample_config_def GUARDRAIL_RULES_MAX_def guardrail_rule_lookup_def Let_def)
  then show ?thesis using guardrail_register_spec [OF sample_config_reach _ r] r by (auto simp: sample_config_def)
qed

section \<open>Switching rules off\<close>

lemma rule_verdict_llm: "cfg_llm cfg = cfg_llm cfg' \<Longrightarrow> rule_verdict w cfg ctx r = rule_verdict w cfg' ctx r"
  by (simp add: rule_verdict_def guardrail_llm_check_def split: guardrail_rule_type.splits)

lemma run_rules_active:
  "cfg_llm cfg = cfg_llm cfg' \<Longrightarrow>
   run_rules w cfg hook ctx rsn rules = run_rules w cfg' hook ctx rsn (filter (\<lambda>r. gr_enabled r \<and> gr_hook r = hook) rules)"
proof (induction rules arbitrary: rsn)
  case (Cons r rules)
  then show ?case using rule_verdict_llm [OF Cons.prems, of w ctx r] by (auto split: prod.splits simp: Let_def)
qed simp

lemma filter_disabled:
  assumes "distinct (map gr_name rs)" "i < length rs" "\<not> P ((rs ! i)\<lparr>gr_enabled := False\<rparr>)"
  shows "filter P (rs[i := (rs ! i)\<lparr>gr_enabled := False\<rparr>]) = filter P (filter (\<lambda>r. gr_name r \<noteq> gr_name (rs ! i)) rs)"
  using assms
proof (induction rs arbitrary: i)
  case (Cons r rs)
  show ?case
  proof (cases i)
    case 0
    have "gr_name x \<noteq> gr_name r" if "x \<in> set rs" for x using Cons.prems(1) that by (metis distinct.simps(2) image_eqI list.set_map list.simps(9))
    then have "filter (\<lambda>x. gr_name x \<noteq> gr_name r) rs = rs" by (simp add: filter_id_conv)
    then show ?thesis using 0 Cons.prems(3) by (simp del: filter_filter)
  next
    case (Suc j)
    then have "filter P (rs[j := (rs ! j)\<lparr>gr_enabled := False\<rparr>]) = filter P (filter (\<lambda>x. gr_name x \<noteq> gr_name (rs ! j)) rs)"
      using Cons.IH [of j] Cons.prems by simp
    moreover have "gr_name r \<noteq> gr_name (rs ! j)" using Cons.prems(1,2) Suc by auto
    ultimately show ?thesis using Suc by (simp del: filter_filter)
  qed
qed simp

text \<open>
  A rule that was switched off is out of the game: every hook behaves as if the rule were not registered at all.
  Switching off reports an unknown name and then changes nothing.
\<close>

theorem guardrail_disable_spec:
  assumes "gr_reach cfg" "guardrail_rule_disable cfg name = (cfg', rc)"
  shows "rc = (if name \<in> set (map gr_name (cfg_rules cfg)) then 0 else - ENOENT)
    \<and> guardrail_run_hook w cfg' hook ctx
      = guardrail_run_hook w (cfg\<lparr>cfg_rules := filter (\<lambda>r. gr_name r \<noteq> name) (cfg_rules cfg)\<rparr>) hook ctx"
proof (cases "guardrail_rule_lookup cfg name")
  case None
  then have n: "name \<notin> set (map gr_name (cfg_rules cfg))" by (simp add: guardrail_rule_lookup_def lookup_loop_None del: set_map)
  then have "filter (\<lambda>r. gr_name r \<noteq> name) (cfg_rules cfg) = cfg_rules cfg" by (auto simp: filter_id_conv)
  then show ?thesis using None n assms(2) by (simp add: guardrail_rule_disable_def rule_set_enabled_def del: set_map)
next
  case (Some i)
  then have i: "i < length (cfg_rules cfg)" "gr_name (cfg_rules cfg ! i) = name"
    using lookup_loop_Some [of name 0] by (auto simp: guardrail_rule_lookup_def)
  have d: "distinct (map gr_name (cfg_rules cfg))" using registry_reach_ok [OF assms(1)] by (simp add: registry_ok_def)
  let ?rs = "(cfg_rules cfg)[i := (cfg_rules cfg ! i)\<lparr>gr_enabled := False\<rparr>]"
  have c: "cfg' = cfg\<lparr>cfg_rules := ?rs\<rparr>" "rc = 0"
    using assms(2) Some by (auto simp: guardrail_rule_disable_def rule_set_enabled_def)
  let ?on = "\<lambda>r. gr_enabled r \<and> gr_hook r = hook"
  have f: "filter ?on ?rs = filter ?on (filter (\<lambda>r. gr_name r \<noteq> name) (cfg_rules cfg))"
    using filter_disabled [OF d i(1), of ?on] i(2) by simp
  let ?cfg = "cfg\<lparr>cfg_rules := filter (\<lambda>r. gr_name r \<noteq> name) (cfg_rules cfg)\<rparr>"
  have "run_rules w cfg' hook ctx [] (cfg_rules cfg') = run_rules w ?cfg hook ctx [] (cfg_rules ?cfg)"
    using run_rules_active [of cfg' ?cfg w hook ctx "[]" "cfg_rules cfg'"] run_rules_active [of ?cfg ?cfg w hook ctx "[]" "cfg_rules ?cfg"]
      c f by simp
  moreover have "name \<in> set (map gr_name (cfg_rules cfg))" using i by auto
  ultimately show ?thesis using c by (simp add: guardrail_run_hook_def)
qed

lemma register_reach:
  "gr_reach cfg \<Longrightarrow> length name < GUARDRAIL_NAME_MAX \<Longrightarrow>
   gr_reach (fst (guardrail_rule_register cfg name hook type check desc entry action))"
  by (rule gr_reach.register) (auto intro: prod_eqI)

lemma builtin_reach: "gr_reach cfg \<Longrightarrow> gr_reach (guardrail_register_builtin_rules w cfg)"
  unfolding guardrail_register_builtin_rules_def Let_def
  by (intro register_reach) (simp_all add: GUARDRAIL_NAME_MAX_def)

theorem guardrail_disable_spec_witness:
  "verdict (guardrail_run_hook sample_world (guardrail_register_builtin_rules sample_world sample_config)
       GUARDRAIL_HOOK_OUTPUT (sample_ctx [])) = GUARDRAIL_FAIL
   \<and> verdict (guardrail_run_hook sample_world
       (fst (guardrail_rule_disable (guardrail_register_builtin_rules sample_world sample_config) ''empty_answer''))
       GUARDRAIL_HOOK_OUTPUT (sample_ctx [])) = GUARDRAIL_PASS"
proof -
  let ?cfg = "guardrail_register_builtin_rules sample_world sample_config"
  have r: "gr_reach ?cfg" by (rule builtin_reach [OF sample_config_reach])
  obtain cfg' rc where d: "guardrail_rule_disable ?cfg ''empty_answer'' = (cfg', rc)" by fastforce
  have f: "verdict (guardrail_run_hook sample_world ?cfg GUARDRAIL_HOOK_OUTPUT (sample_ctx [])) = GUARDRAIL_FAIL" by code_simp
  have "verdict (guardrail_run_hook sample_world (?cfg\<lparr>cfg_rules := filter (\<lambda>r. gr_name r \<noteq> ''empty_answer'') (cfg_rules ?cfg)\<rparr>)
      GUARDRAIL_HOOK_OUTPUT (sample_ctx [])) = GUARDRAIL_PASS" by code_simp
  then show ?thesis
    using f d guardrail_disable_spec [OF r d, of sample_world GUARDRAIL_HOOK_OUTPUT "sample_ctx []"] by simp
qed

section \<open>Limits of the rules\<close>

text \<open>The prompt of a language-model rule shows at most its first bytes: what follows in the text is never judged.\<close>

lemma llm_prompt_blind:
  assumes "2048 \<le> length t"
  shows "llm_prompt d (t @ s) = llm_prompt d t"
proof -
  have "take n (u @ t @ v) = take n (u @ t @ x)" if "n \<le> length t" for n and u v x :: string
    using that by simp
  then show ?thesis unfolding llm_prompt_def append.assoc [symmetric]
    using assms by (simp only: append.assoc) (simp add: take_Cons')
qed

text \<open>Names are compared in full but stored cut: two rules with the same stored name can be registered.\<close>

lemma long_names_collide:
  "\<exists>c1 c2. guardrail_rule_register sample_config (replicate 70 (CHR ''n'')) GUARDRAIL_HOOK_INPUT GUARDRAIL_RULE_C None None None None = (c1, 0)
     \<and> guardrail_rule_register c1 (replicate 70 (CHR ''n'')) GUARDRAIL_HOOK_INPUT GUARDRAIL_RULE_C None None None None = (c2, 0)
     \<and> \<not> distinct (map gr_name (cfg_rules c2))"
  by (simp add: guardrail_rule_register_def sample_config_def GUARDRAIL_RULES_MAX_def GUARDRAIL_NAME_MAX_def
      guardrail_rule_lookup_def strncpy_fixed_def Let_def)

text \<open>Only 64 calls are looked at: a later success does not count.\<close>

lemma late_success_ignored:
  assumes "length (actions (ev_steps ctx)) = 65" "\<forall>i < 64. \<not> call_worked (ev_steps ctx) i"
  shows "fst (gr_tools_all_failed ctx) = GUARDRAIL_FAIL"
proof -
  have b: "build_tool_outcomes (ev_steps ctx) 64
      = map (\<lambda>i. outcome_of (actions (ev_steps ctx) ! i) (nth_obs (observations (ev_steps ctx)) i)) [0..<64]"
    using assms(1) by (simp add: build_tool_outcomes_def outcomes_loop_eq)
  then show ?thesis
    unfolding gr_tools_all_failed_def b using assms(2) by (simp add: Let_def list_all_iff outcome_flags del: upt_rec_numeral)
qed

end
