(* ===== verification/Bash_Parse.thy ===== *)
theory Bash_Parse
  imports Paths
begin

text \<open>
  The shell analyser (\<open>src/util/bash_parse.c\<close>): the commands of a shell line, found in the syntax tree of the
  line, with their program and their name when the program is written literally.

  The grammar is outside code.  The parser is a parameter \<open>parse\<close>: it answers the root of the tree with the
  error flag of the root, or \<open>None\<close> when it cannot build a tree.  A node has its type, its range of bytes,
  its field \<open>name\<close> and its named children.  Memory is always available.
\<close>

section \<open>The model\<close>

definition BASH_PARSE_MAX_DEPTH :: nat where "BASH_PARSE_MAX_DEPTH = 256"
definition BASH_PARSE_COMMAND_NAME_MAX :: nat where "BASH_PARSE_COMMAND_NAME_MAX = 256"
definition UINT32_MAX :: nat where "UINT32_MAX = 2 ^ 32 - 1"

abbreviation (input) E2BIG :: int where "E2BIG \<equiv> 7"

datatype ts_node = TSNode (ts_type: string) (ts_start: nat) (ts_end: nat) (ts_name: "ts_node option")
  (ts_children: "ts_node list")

type_synonym ts_parser = "string \<Rightarrow> (ts_node \<times> bool) option"

record bash_parse_command =
  bc_program :: string
  bc_name :: string
  bc_start :: nat
  bc_end :: nat

record bash_parse_result =
  br_commands :: "bash_parse_command list"
  br_compound :: bool
  br_error :: bool

text \<open>\<open>strchr\<close> also finds the terminator, so a NUL byte would count.\<close>

definition is_static_program_char :: "char \<Rightarrow> bool" where
  "is_static_program_char c =
     (let b = (of_char c :: nat) in (97 \<le> b \<and> b \<le> 122) \<or> (65 \<le> b \<and> b \<le> 90) \<or> (48 \<le> b \<and> b \<le> 57)
      \<or> c \<in> set ''_./+@:-'' \<or> c = NUL)"

definition quoted_with :: "char \<Rightarrow> string \<Rightarrow> bool" where
  "quoted_with q s = (2 \<le> length s \<and> hd s = q \<and> last s = q)"

definition copy_static_program :: "string \<Rightarrow> ts_node option \<Rightarrow> nat \<Rightarrow> rc + string" where
  "copy_static_program source node out_size =
     (case node of
        None \<Rightarrow> Inl (- EINVAL)
      | Some n \<Rightarrow>
          if out_size = 0 then Inl (- EINVAL)
          else if ts_end n \<le> ts_start n then Inl (- ENOENT)
          else
            let bytes = take (ts_end n - ts_start n) (drop (ts_start n) source);
                bytes = (if quoted_with (CHR 0x27) bytes \<or> quoted_with (CHR 0x22) bytes
                         then butlast (tl bytes) else bytes)
            in if bytes = [] then Inl (- ENOENT)
               else if length bytes + 1 > out_size then Inl (- ENAMETOOLONG)
               else if \<not> list_all is_static_program_char bytes then Inl (- EINVAL)
               else Inr bytes)"

definition compound_types :: "string list" where
  "compound_types = [''pipeline'', ''list'', ''subshell'', ''command_substitution'', ''process_substitution'',
     ''if_statement'', ''for_statement'', ''c_style_for_statement'', ''while_statement'', ''case_statement'',
     ''function_definition'', ''coproc'', ''negated_command'']"

definition node_marks_compound :: "string \<Rightarrow> bool" where
  "node_marks_compound type = (type \<in> set compound_types)"

definition basename :: "string \<Rightarrow> string" where
  "basename program = (case last_slash program of None \<Rightarrow> program | Some (_, base) \<Rightarrow> base)"

definition make_command :: "string \<Rightarrow> ts_node \<Rightarrow> bash_parse_command" where
  "make_command source node =
     (let blank = \<lparr>bc_program = [], bc_name = [], bc_start = ts_start node, bc_end = ts_end node\<rparr>
      in (case copy_static_program source (ts_name node) PATH_MAX of
            Inl _ \<Rightarrow> blank
          | Inr program \<Rightarrow>
              let base = basename program
              in if base = [] \<or> length base \<ge> BASH_PARSE_COMMAND_NAME_MAX then blank
                 else blank\<lparr>bc_program := program, bc_name := base\<rparr>))"

definition append_command :: "string \<Rightarrow> ts_node \<Rightarrow> bash_parse_result \<Rightarrow> bash_parse_result" where
  "append_command source node result = result\<lparr>br_commands := br_commands result @ [make_command source node]\<rparr>"

fun visit_node :: "string \<Rightarrow> ts_node \<Rightarrow> bash_parse_result \<Rightarrow> nat \<Rightarrow> bash_parse_result \<times> rc"
and visit_children :: "string \<Rightarrow> ts_node list \<Rightarrow> bash_parse_result \<Rightarrow> nat \<Rightarrow> bash_parse_result \<times> rc" where
  "visit_node source (TSNode type s e nm children) result depth =
     (if depth > BASH_PARSE_MAX_DEPTH then (result\<lparr>br_error := True\<rparr>, - EOVERFLOW)
      else
        let result = (if node_marks_compound type then result\<lparr>br_compound := True\<rparr> else result);
            result = (if type = ''command'' then append_command source (TSNode type s e nm children) result else result)
        in visit_children source children result (depth + 1))"
| "visit_children source [] result depth = (result, 0)"
| "visit_children source (n # ns) result depth =
     (case visit_node source n result depth of (result', rc) \<Rightarrow>
        if rc \<noteq> 0 then (result', rc) else visit_children source ns result' depth)"

definition bash_parse_analyze :: "ts_parser \<Rightarrow> string \<Rightarrow> rc + bash_parse_result" where
  "bash_parse_analyze parse source =
     (if length source > UINT32_MAX then Inl (- E2BIG)
      else (case parse source of
          None \<Rightarrow> Inl (- ENOMEM)
        | Some (root, err) \<Rightarrow>
            (case visit_node source root \<lparr>br_commands = [], br_compound = False, br_error = err\<rparr> 0 of (result, rc) \<Rightarrow>
               if rc \<noteq> 0 then Inl rc
               else Inr (if length (br_commands result) > 1 then result\<lparr>br_compound := True\<rparr> else result))))"

definition bash_parse_first_command :: "bash_parse_result \<Rightarrow> bash_parse_command option" where
  "bash_parse_first_command result = (case br_commands result of [] \<Rightarrow> None | c # _ \<Rightarrow> Some c)"

definition copy_first_field :: "ts_parser \<Rightarrow> string \<Rightarrow> nat \<Rightarrow> bool \<Rightarrow> rc + string" where
  "copy_first_field parse source out_size use_name =
     (if out_size = 0 then Inl (- EINVAL)
      else (case bash_parse_analyze parse source of
          Inl rc \<Rightarrow> Inl rc
        | Inr result \<Rightarrow>
            (case bash_parse_first_command result of
               None \<Rightarrow> Inl (- ENOENT)
             | Some command \<Rightarrow>
                 if br_error result then Inl (- ENOENT)
                 else
                   let v = (if use_name then bc_name command else bc_program command)
                   in if v = [] then Inl (- EINVAL)
                      else if length v + 1 > out_size then Inl (- ENAMETOOLONG)
                      else Inr v)))"

definition bash_parse_command_name :: "ts_parser \<Rightarrow> string \<Rightarrow> nat \<Rightarrow> rc + string" where
  "bash_parse_command_name parse source out_size = copy_first_field parse source out_size True"

definition bash_parse_command_program :: "ts_parser \<Rightarrow> string \<Rightarrow> nat \<Rightarrow> rc + string" where
  "bash_parse_command_program parse source out_size = copy_first_field parse source out_size False"

section \<open>The commands of a line\<close>

text \<open>The reference: the nodes of type \<open>command\<close> in the order in which their text starts (a node before its
  children), and the depth of a tree.\<close>

fun command_nodes :: "ts_node \<Rightarrow> ts_node list" where
  "command_nodes (TSNode type s e nm children) =
     (if type = ''command'' then [TSNode type s e nm children] else []) @ concat (map command_nodes children)"

fun node_depth :: "ts_node \<Rightarrow> nat" where
  "node_depth (TSNode type s e nm children) = fold max (map (\<lambda>n. Suc (node_depth n)) children) 0"

fun has_compound :: "ts_node \<Rightarrow> bool" where
  "has_compound (TSNode type s e nm children) = (node_marks_compound type \<or> list_ex has_compound children)"

lemma fold_max_le: "fold max (xs :: nat list) a \<le> b \<longleftrightarrow> a \<le> b \<and> list_all (\<lambda>x. x \<le> b) xs"
  by (induction xs arbitrary: a) auto

definition collect :: "string \<Rightarrow> bash_parse_result \<Rightarrow> ts_node list \<Rightarrow> bash_parse_result" where
  "collect source result ns =
     result\<lparr>br_commands := br_commands result @ map (make_command source) (concat (map command_nodes ns)),
            br_compound := br_compound result \<or> list_ex has_compound ns\<rparr>"

lemma collect_Nil [simp]: "collect source result [] = result"
  by (simp add: collect_def)

lemma collect_Cons: "collect source (collect source result [n]) ns = collect source result (n # ns)"
  by (simp add: collect_def)

text \<open>Within the depth limit a visit collects exactly the command nodes; beyond it, the visit fails.\<close>

lemma visit_collects:
  shows "depth + node_depth n \<le> BASH_PARSE_MAX_DEPTH \<Longrightarrow> visit_node source n result depth = (collect source result [n], 0)"
    and "list_all (\<lambda>n. depth + node_depth n \<le> BASH_PARSE_MAX_DEPTH) ns \<Longrightarrow>
         visit_children source ns result depth = (collect source result ns, 0)"
proof (induction source n result depth and source ns result depth rule: visit_node_visit_children.induct)
  case (1 source type s e nm children result depth)
  have d: "\<not> depth > BASH_PARSE_MAX_DEPTH" using "1.prems" by simp
  have "list_all (\<lambda>n. depth + 1 + node_depth n \<le> BASH_PARSE_MAX_DEPTH) children"
  proof -
    have "fold max (map (\<lambda>n. Suc (node_depth n)) children) 0 \<le> BASH_PARSE_MAX_DEPTH - depth" using "1.prems" by simp
    then show ?thesis using d unfolding fold_max_le by (auto simp: list_all_iff)
  qed
  from "1.IH" [OF d refl refl this] show ?case
    using d by (auto simp: Let_def collect_def append_command_def)
qed (auto simp: collect_Cons)

lemma visit_too_deep:
  shows "depth \<le> BASH_PARSE_MAX_DEPTH \<Longrightarrow> BASH_PARSE_MAX_DEPTH < depth + node_depth n \<Longrightarrow>
      snd (visit_node source n result depth) = - EOVERFLOW"
    and "list_ex (\<lambda>n. BASH_PARSE_MAX_DEPTH < depth + node_depth n) ns \<Longrightarrow> snd (visit_children source ns result depth) = - EOVERFLOW"
proof (induction source n result depth and source ns result depth rule: visit_node_visit_children.induct)
  case (1 source type s e nm children result depth)
  have "\<not> fold max (map (\<lambda>n. Suc (node_depth n)) children) 0 \<le> BASH_PARSE_MAX_DEPTH - depth" using "1.prems" by simp
  then have "list_ex (\<lambda>n. BASH_PARSE_MAX_DEPTH < depth + 1 + node_depth n) children"
    unfolding fold_max_le list_ex_iff list_all_iff using "1.prems" by fastforce
  from "1.IH" [OF _ refl refl this] show ?case using "1.prems" by (simp add: Let_def)
next
  case (3 source n ns result depth)
  show ?case
  proof (cases "depth \<le> BASH_PARSE_MAX_DEPTH")
    case True
    show ?thesis
    proof (cases "BASH_PARSE_MAX_DEPTH < depth + node_depth n")
      case True
      then show ?thesis using "3.IH"(1) [OF \<open>depth \<le> BASH_PARSE_MAX_DEPTH\<close>] by (auto split: prod.splits)
    next
      case False
      then have v: "visit_node source n result depth = (collect source result [n], 0)" by (intro visit_collects) simp
      from "3.IH"(2) [OF v [symmetric]] False "3.prems" show ?thesis by (simp add: v)
    qed
  next
    case False
    then show ?thesis by (cases n) simp
  qed
qed simp

text \<open>What a listed command promises: the program is written in plain characters (no blank, no quote, no
  expansion, no pattern character), and the name is its last path component.\<close>

definition plain_word :: "string \<Rightarrow> bool" where
  "plain_word s = (s \<noteq> [] \<and> list_all (\<lambda>c. is_static_program_char c) s)"

definition command_ok :: "bash_parse_command \<Rightarrow> bool" where
  "command_ok c =
     (if bc_name c = [] then bc_program c = []
      else plain_word (bc_program c) \<and> plain_word (bc_name c) \<and> CHR ''/'' \<notin> set (bc_name c)
        \<and> length (bc_program c) < PATH_MAX \<and> length (bc_name c) < BASH_PARSE_COMMAND_NAME_MAX
        \<and> (bc_program c = bc_name c \<or> (\<exists>dir. bc_program c = dir @ CHR ''/'' # bc_name c)))"

lemma copy_static_program_ok:
  "copy_static_program source node n = Inr p \<Longrightarrow> plain_word p \<and> length p < n"
  by (auto simp: copy_static_program_def plain_word_def Let_def split: option.splits if_splits)

lemma basename_split: "CHR ''/'' \<notin> set (basename p) \<and> (p = basename p \<or> (\<exists>dir. p = dir @ CHR ''/'' # basename p))"
  by (auto simp: basename_def last_slash_None split: option.splits dest: last_slash_Some)

lemma make_command_ok: "command_ok (make_command source node)"
proof (cases "copy_static_program source (ts_name node) PATH_MAX")
  case (Inl e)
  then show ?thesis by (simp add: make_command_def command_ok_def)
next
  case (Inr p)
  from copy_static_program_ok [OF Inr] have p: "plain_word p" "length p < PATH_MAX" by auto
  have b: "CHR ''/'' \<notin> set (basename p) \<and> (p = basename p \<or> (\<exists>dir. p = dir @ CHR ''/'' # basename p))"
    by (rule basename_split)
  then have "set (basename p) \<subseteq> set p" by (metis order_refl set_append set_subset_Cons sup.coboundedI2)
  then have "list_all is_static_program_char (basename p)" using p(1) by (auto simp: plain_word_def list_all_iff)
  then show ?thesis using Inr p b by (auto simp: make_command_def command_ok_def Let_def plain_word_def)
qed

lemma bash_parse_analyze_eq:
  assumes "parse source = Some (root, err)" "length source \<le> UINT32_MAX"
  shows "bash_parse_analyze parse source
      = (if node_depth root \<le> BASH_PARSE_MAX_DEPTH
         then Inr \<lparr>br_commands = map (make_command source) (command_nodes root),
                   br_compound = (has_compound root \<or> 1 < length (command_nodes root)), br_error = err\<rparr>
         else Inl (- EOVERFLOW))"
proof (cases "node_depth root \<le> BASH_PARSE_MAX_DEPTH")
  case True
  then have "visit_node source root r 0 = (collect source r [root], 0)" for r
    by (intro visit_collects) simp
  then show ?thesis using True assms by (simp add: bash_parse_analyze_def collect_def)
next
  case False
  then have "snd (visit_node source root r 0) = - EOVERFLOW" for r by (intro visit_too_deep) auto
  then show ?thesis using False assms by (auto simp: bash_parse_analyze_def split: prod.splits) (metis snd_conv zero_neq_neg_numeral)+
qed

text \<open>
  C40. Analysing a line whose syntax tree is at most 256 deep lists exactly its command nodes, a node before
  those nested in it, tells whether the line is compound, and passes the error flag of the parser on; a deeper tree is
  an error.  Every listed command is either without a name or has a plain program whose last component is the name.
\<close>

theorem bash_parse_analyze_spec:
  assumes "parse source = Some (root, err)" "length source \<le> 4294967295"
  shows "bash_parse_analyze parse source
      = (if node_depth root \<le> 256
         then Inr \<lparr>br_commands = map (make_command source) (command_nodes root),
                   br_compound = (has_compound root \<or> 1 < length (command_nodes root)), br_error = err\<rparr>
         else Inl (- EOVERFLOW))
    \<and> list_all command_ok (map (make_command source) (command_nodes root))"
  using bash_parse_analyze_eq [of parse source root err] assms
  by (simp add: BASH_PARSE_MAX_DEPTH_def UINT32_MAX_def list_all_iff make_command_ok)

definition sample_tree :: ts_node where
  "sample_tree = TSNode ''program'' 0 19 None
     [TSNode ''pipeline'' 0 19 None
        [TSNode ''command'' 0 12 (Some (TSNode ''command_name'' 0 7 None [])) [],
         TSNode ''command'' 15 19 (Some (TSNode ''command_name'' 15 17 None [])) []]]"

definition sample_parser :: ts_parser where
  "sample_parser source = Some (sample_tree, False)"

theorem bash_parse_analyze_spec_witness:
  "\<exists>r. bash_parse_analyze sample_parser ''/bin/ls -l x | wc -l'' = Inr r
     \<and> map bc_name (br_commands r) = [''ls'', ''wc''] \<and> br_compound r"
proof -
  have "map bc_name (map (make_command ''/bin/ls -l x | wc -l'') (command_nodes sample_tree)) = [''ls'', ''wc'']"
    "node_depth sample_tree \<le> 256" "has_compound sample_tree"
    by code_simp+
  then show ?thesis
    using bash_parse_analyze_spec [of sample_parser "''/bin/ls -l x | wc -l''" sample_tree False]
    by (simp add: sample_parser_def)
qed

text \<open>The name handed to the permission checks.\<close>

lemma bash_parse_command_name_ok:
  assumes "bash_parse_command_name parse source n = Inr v"
  shows "plain_word v \<and> CHR ''/'' \<notin> set v \<and> length v < BASH_PARSE_COMMAND_NAME_MAX \<and> length v < n"
proof -
  from assms obtain r c where r: "bash_parse_analyze parse source = Inr r" "bash_parse_first_command r = Some c"
    "v = bc_name c" "v \<noteq> []" "length v < n"
    by (auto simp: bash_parse_command_name_def copy_first_field_def Let_def split: if_splits sum.splits option.splits)
  from r(1) obtain root err where p: "parse source = Some (root, err)" "length source \<le> UINT32_MAX"
    by (auto simp: bash_parse_analyze_def split: if_splits option.splits)
  from bash_parse_analyze_eq [of parse source root err] p r(1) have "set (br_commands r) \<subseteq> range (make_command source)" by (auto split: if_splits)
  moreover have "c \<in> set (br_commands r)"
    using r(2) by (auto simp: bash_parse_first_command_def split: list.splits)
  ultimately have "command_ok c" using make_command_ok by blast
  then show ?thesis using r(3-5) by (simp add: command_ok_def)
qed

lemma plain_word_chars:
  "plain_word s \<Longrightarrow> c \<in> set s \<Longrightarrow> c \<notin> {CHR '' '', TAB, CHR ''*'', CHR ''$'', CHR ''`'', CHR ''|'', CHR '';'', CHR ''&''}"
proof -
  assume "plain_word s" "c \<in> set s"
  then have "is_static_program_char c" by (auto simp: plain_word_def list_all_iff)
  then show ?thesis by (auto simp: is_static_program_char_def Let_def)
qed

end
