(* ===== verification/Grants.thy ===== *)
theory Grants
  imports Paths
begin

text \<open>
  The table of lasting permissions (\<open>src/db/permission_grant.c\<close>, with its schema in
  \<open>src/db/database.c\<close>): saving, listing and deleting grants of a project.

  The data base engine is outside code.  The table is the list of its rows with the next automatic number; each
  statement of the source has its documented effect on it (\<open>INSERT OR IGNORE\<close> under the \<open>UNIQUE\<close> clause,
  \<open>SELECT ... ORDER BY id\<close>, \<open>DELETE\<close>), unless the engine fails, which is a parameter (\<open>sql\<close>): preparing
  or binding fails, executing fails, or a listing ends with an error after some rows.
\<close>

section \<open>The model\<close>

definition MORPH_ERR_DB :: rc where "MORPH_ERR_DB = - 263"

record permission_grant =
  pg_id :: int
  pg_subject :: string
  pg_resource_kind :: string
  pg_resource :: string
  pg_project_root :: string
  pg_created_at :: int

record grant_table =
  gt_rows :: "permission_grant list"
  gt_next :: int

record sql =
  sql_ready :: bool
  sql_step :: bool
  sql_rows :: "nat option"
  sql_now :: int

definition snprintf_n :: "nat \<Rightarrow> string \<Rightarrow> string" where
  "snprintf_n n s = take (n - 1) s"

definition unique_key :: "permission_grant \<Rightarrow> string \<times> string \<times> string \<times> string" where
  "unique_key g = (pg_subject g, pg_resource_kind g, pg_resource g, pg_project_root g)"

definition insert_or_ignore :: "sql \<Rightarrow> grant_table \<Rightarrow> permission_grant \<Rightarrow> grant_table" where
  "insert_or_ignore q db g =
     (if unique_key g \<in> unique_key ` set (gt_rows db) then db
      else db\<lparr>gt_rows := gt_rows db @ [g\<lparr>pg_id := gt_next db, pg_created_at := sql_now q\<rparr>],
             gt_next := gt_next db + 1\<rparr>)"

definition permission_grant_save :: "sql \<Rightarrow> grant_table \<Rightarrow> permission_grant \<Rightarrow> grant_table \<times> rc" where
  "permission_grant_save q db g =
     (if pg_subject g = [] \<or> pg_resource_kind g = [] \<or> pg_resource g = [] \<or> pg_project_root g = [] then (db, - EINVAL)
      else if \<not> sql_ready q then (db, MORPH_ERR_DB)
      else if \<not> sql_step q then (db, MORPH_ERR_DB)
      else (insert_or_ignore q db g, 0))"

definition read_row :: "permission_grant \<Rightarrow> permission_grant" where
  "read_row g =
     g\<lparr>pg_subject := snprintf_n 256 (pg_subject g), pg_resource_kind := snprintf_n 32 (pg_resource_kind g),
       pg_resource := snprintf_n PATH_MAX (pg_resource g), pg_project_root := snprintf_n PATH_MAX (pg_project_root g)\<rparr>"

text \<open>The loop over the rows; the callback threads a state \<open>'s\<close> and stops the loop with a result other than 0.
  \<open>limit\<close> is the number of rows after which the engine fails.\<close>

fun each_loop :: "('s \<Rightarrow> permission_grant \<Rightarrow> 's \<times> rc) \<Rightarrow> nat option \<Rightarrow> 's \<Rightarrow> permission_grant list \<Rightarrow> 's \<times> rc" where
  "each_loop fn limit s rows =
     (if limit = Some 0 then (s, MORPH_ERR_DB)
      else (case rows of
          [] \<Rightarrow> (s, 0)
        | r # rs \<Rightarrow>
            (case fn s (read_row r) of (s', rc) \<Rightarrow>
               if rc \<noteq> 0 then (s', rc) else each_loop fn (map_option (\<lambda>n. n - 1) limit) s' rs)))"

declare each_loop.simps [simp del]

definition select_project :: "grant_table \<Rightarrow> string \<Rightarrow> permission_grant list" where
  "select_project db project_root = sort_key pg_id (filter (\<lambda>g. pg_project_root g = project_root) (gt_rows db))"

definition permission_grant_each ::
  "sql \<Rightarrow> grant_table \<Rightarrow> string \<Rightarrow> ('s \<Rightarrow> permission_grant \<Rightarrow> 's \<times> rc) \<Rightarrow> 's \<Rightarrow> 's \<times> rc" where
  "permission_grant_each q db project_root fn s =
     (if project_root = [] then (s, - EINVAL)
      else if \<not> sql_ready q then (s, MORPH_ERR_DB)
      else each_loop fn (sql_rows q) s (select_project db project_root))"

text \<open>The deletions differ in the condition of their statement; the count is the number of rows removed.\<close>

definition delete_grants :: "sql \<Rightarrow> grant_table \<Rightarrow> (permission_grant \<Rightarrow> bool) \<Rightarrow> grant_table \<times> rc \<times> nat" where
  "delete_grants q db cond =
     (if \<not> sql_ready q then (db, MORPH_ERR_DB, 0)
      else if \<not> sql_step q then (db, MORPH_ERR_DB, 0)
      else (db\<lparr>gt_rows := filter (\<lambda>g. \<not> cond g) (gt_rows db)\<rparr>, 0, length (filter cond (gt_rows db))))"

definition permission_grant_delete_id :: "sql \<Rightarrow> grant_table \<Rightarrow> string \<Rightarrow> int \<Rightarrow> grant_table \<times> rc \<times> nat" where
  "permission_grant_delete_id q db project_root i =
     (if project_root = [] \<or> i \<le> 0 then (db, - EINVAL, 0)
      else delete_grants q db (\<lambda>g. pg_project_root g = project_root \<and> pg_id g = i))"

definition permission_grant_delete_subject :: "sql \<Rightarrow> grant_table \<Rightarrow> string \<Rightarrow> string \<Rightarrow> grant_table \<times> rc \<times> nat" where
  "permission_grant_delete_subject q db project_root subject =
     (if project_root = [] \<or> subject = [] then (db, - EINVAL, 0)
      else delete_grants q db (\<lambda>g. pg_project_root g = project_root \<and> pg_subject g = subject))"

definition permission_grant_clear_project :: "sql \<Rightarrow> grant_table \<Rightarrow> string \<Rightarrow> grant_table \<times> rc \<times> nat" where
  "permission_grant_clear_project q db project_root =
     (if project_root = [] then (db, - EINVAL, 0)
      else delete_grants q db (\<lambda>g. pg_project_root g = project_root))"

definition permission_grant_clear_all :: "sql \<Rightarrow> grant_table \<Rightarrow> grant_table \<times> rc \<times> nat" where
  "permission_grant_clear_all q db = delete_grants q db (\<lambda>g. True)"

section \<open>The table\<close>

text \<open>Rows are in the order of their numbers, which stay below the next one, and no two rows share a key.\<close>

definition table_ok :: "grant_table \<Rightarrow> bool" where
  "table_ok db =
     (sorted_wrt (<) (map pg_id (gt_rows db)) \<and> (\<forall>g \<in> set (gt_rows db). 0 < pg_id g \<and> pg_id g < gt_next db)
      \<and> 0 < gt_next db \<and> distinct (map unique_key (gt_rows db)))"

definition empty_table :: grant_table where
  "empty_table = \<lparr>gt_rows = [], gt_next = 1\<rparr>"

lemma snprintf_n_id: "length s < n \<Longrightarrow> snprintf_n n s = s"
  by (simp add: snprintf_n_def)

lemma table_ok_empty: "table_ok empty_table"
  by (simp add: table_ok_def empty_table_def)

lemma table_ok_save: "table_ok db \<Longrightarrow> permission_grant_save q db g = (db', rc) \<Longrightarrow> table_ok db'"
  by (auto simp: permission_grant_save_def insert_or_ignore_def table_ok_def sorted_wrt_append unique_key_def split: if_splits)
    force+

lemma table_ok_filter: "table_ok db \<Longrightarrow> table_ok (db\<lparr>gt_rows := filter P (gt_rows db)\<rparr>)"
  by (auto simp: table_ok_def sorted_wrt_map distinct_map_filter intro: sorted_wrt_filter)

lemma table_ok_delete: "table_ok db \<Longrightarrow> delete_grants q db cond = (db', rc, n) \<Longrightarrow> table_ok db'"
  by (auto simp: delete_grants_def table_ok_filter split: if_splits)

lemma select_project_filter:
  assumes "table_ok db"
  shows "select_project db root = filter (\<lambda>g. pg_project_root g = root) (gt_rows db)"
proof -
  have "sorted (map pg_id (filter (\<lambda>g. pg_project_root g = root) (gt_rows db)))"
    using assms by (auto simp: table_ok_def sorted_map intro!: sorted_wrt_filter
        elim!: sorted_wrt_mono_rel [rotated] simp: sorted_wrt_map)
  then show ?thesis by (simp add: select_project_def sort_key_id_if_sorted)
qed

section \<open>The table as a service\<close>

text \<open>The buffers of \<open>struct permission_grant\<close>.\<close>

definition grant_fits :: "permission_grant \<Rightarrow> bool" where
  "grant_fits g = (length (pg_subject g) < 256 \<and> length (pg_resource_kind g) < 32 \<and> length (pg_resource g) < PATH_MAX
     \<and> length (pg_project_root g) < PATH_MAX)"

definition grant_key :: "permission_grant \<Rightarrow> string \<times> string \<times> string" where
  "grant_key g = (pg_subject g, pg_resource_kind g, pg_resource g)"

definition store_ok :: "grant_table \<Rightarrow> bool" where
  "store_ok db = (table_ok db \<and> list_all grant_fits (gt_rows db))"

lemma read_row_fits: "grant_fits g \<Longrightarrow> read_row g = g"
  by (cases g) (auto simp: read_row_def grant_fits_def snprintf_n_def)

text \<open>What the clients of the table rely on: a listing has distinct numbers and keys, saving adds one key to the
  listing of its project, deleting a subject removes its grants from one project, and other projects are not touched.\<close>

locale grant_store =
  fixes ok :: "'db \<Rightarrow> bool"
    and listing :: "'db \<Rightarrow> string \<Rightarrow> permission_grant list"
    and save :: "'db \<Rightarrow> permission_grant \<Rightarrow> 'db \<times> rc"
    and revoke :: "'db \<Rightarrow> string \<Rightarrow> string \<Rightarrow> 'db \<times> rc \<times> nat"
  assumes listing_ids: "ok db \<Longrightarrow> distinct (map pg_id (listing db root)) \<and> (\<forall>g \<in> set (listing db root). 0 < pg_id g)"
    and listing_keys: "ok db \<Longrightarrow> distinct (map grant_key (listing db root))"
    and listing_fits: "ok db \<Longrightarrow> list_all grant_fits (listing db root)"
    and save_ok: "ok db \<Longrightarrow> grant_fits g \<Longrightarrow> save db g = (db', rc) \<Longrightarrow> ok db'"
    and save_listing: "ok db \<Longrightarrow> save db g = (db', 0) \<Longrightarrow>
          grant_key ` set (listing db' root)
          = grant_key ` set (listing db root) \<union> (if root = pg_project_root g then {grant_key g} else {})"
    and revoke_ok: "ok db \<Longrightarrow> revoke db root s = (db', rc, n) \<Longrightarrow> ok db'"
    and revoke_listing: "ok db \<Longrightarrow> revoke db root s = (db', 0, n) \<Longrightarrow>
          listing db' root' = (if root' = root then filter (\<lambda>g. pg_subject g \<noteq> s) (listing db root) else listing db root')"
begin

text \<open>Grants of a subject that was revoked come back only by a new save.\<close>

lemma revoked_absent:
  "ok db \<Longrightarrow> revoke db root s = (db', 0, n) \<Longrightarrow> g \<in> set (listing db' root) \<Longrightarrow> pg_subject g \<noteq> s"
  using revoke_listing [of db root s db' n root] by simp

lemma revoke_keeps:
  "ok db \<Longrightarrow> revoke db root s = (db', 0, n) \<Longrightarrow> g \<in> set (listing db root') \<Longrightarrow> root' \<noteq> root \<or> pg_subject g \<noteq> s
   \<Longrightarrow> g \<in> set (listing db' root')"
  using revoke_listing [of db root s db' n root'] by auto

lemma saved_listed:
  "ok db \<Longrightarrow> save db g = (db', 0) \<Longrightarrow> \<exists>g' \<in> set (listing db' (pg_project_root g)). grant_key g' = grant_key g"
proof -
  assume "ok db" "save db g = (db', 0)"
  then have "grant_key g \<in> grant_key ` set (listing db' (pg_project_root g))" by (simp add: save_listing)
  then show ?thesis by (auto simp: image_iff)
qed

lemma save_after_revoke:
  assumes "ok db" "revoke db root s = (db', 0, n)" "save db' g = (db'', 0)" "pg_subject g \<noteq> s"
  shows "h \<in> set (listing db'' root) \<Longrightarrow> pg_subject h \<noteq> s"
proof -
  assume h: "h \<in> set (listing db'' root)"
  have "ok db'" using revoke_ok assms(1,2) by blast
  from save_listing [OF this assms(3), of root] h
  have "grant_key h \<in> grant_key ` set (listing db' root) \<or> grant_key h = grant_key g" by (auto split: if_splits)
  then obtain x where "pg_subject h = pg_subject x" "x \<in> set (listing db' root) \<or> x = g" by (auto simp: grant_key_def)
  then show ?thesis using revoked_absent [OF assms(1,2), of x] assms(4) by auto
qed

end

lemma select_project_mem: "set (select_project db root) = {g \<in> set (gt_rows db). pg_project_root g = root}"
  by (auto simp: select_project_def)

lemma unique_key_split: "unique_key g = unique_key g' \<longleftrightarrow> grant_key g = grant_key g' \<and> pg_project_root g = pg_project_root g'"
  by (auto simp: unique_key_def grant_key_def)

lemma insert_or_ignore_mem:
  "grant_key ` set (select_project (insert_or_ignore q db g) root)
   = grant_key ` set (select_project db root) \<union> (if root = pg_project_root g then {grant_key g} else {})"
proof (cases "unique_key g \<in> unique_key ` set (gt_rows db)")
  case True
  then have "root = pg_project_root g \<longrightarrow> grant_key g \<in> grant_key ` set (select_project db root)"
    by (auto simp: select_project_mem unique_key_split image_iff)
  then show ?thesis using True by (auto simp: insert_or_ignore_def)
next
  case False
  let ?g = "g\<lparr>pg_id := gt_next db, pg_created_at := sql_now q\<rparr>"
  have "set (select_project (insert_or_ignore q db g) root)
      = set (select_project db root) \<union> (if root = pg_project_root g then {?g} else {})"
    using False by (auto simp: insert_or_ignore_def select_project_mem)
  moreover have "grant_key ?g = grant_key g" by (simp add: grant_key_def)
  ultimately show ?thesis by auto
qed

interpretation gs: grant_store store_ok select_project "permission_grant_save q" "permission_grant_delete_subject q" for q
proof (unfold_locales, goal_cases)
  case (1 db root)
  then have o: "table_ok db" by (simp add: store_ok_def)
  then have "distinct (map pg_id (gt_rows db))" by (auto simp: table_ok_def strict_sorted_iff)
  then show ?case using o unfolding select_project_filter [OF o] by (auto simp: distinct_map_filter table_ok_def)
next
  case (2 db root)
  then have o: "table_ok db" by (simp add: store_ok_def)
  then have "inj_on unique_key (set (gt_rows db))" "distinct (gt_rows db)" by (auto simp: table_ok_def distinct_map)
  then show ?case unfolding select_project_filter [OF o]
    by (auto simp: distinct_map inj_on_def unique_key_split)
next
  case (3 db root)
  then show ?case by (auto simp: store_ok_def list_all_iff select_project_mem)
next
  case (4 db g db' rc)
  then have "list_all grant_fits (gt_rows db')"
    by (auto simp: store_ok_def permission_grant_save_def insert_or_ignore_def list_all_iff grant_fits_def split: if_splits)
  then show ?case using 4 table_ok_save by (auto simp: store_ok_def)
next
  case (5 db g db' root)
  then show ?case using insert_or_ignore_mem [of q db g root] by (auto simp: permission_grant_save_def MORPH_ERR_DB_def split: if_splits)
next
  case (6 db root s db' rc n)
  then show ?case
    by (auto simp: store_ok_def permission_grant_delete_subject_def delete_grants_def list_all_iff table_ok_filter split: if_splits)
next
  case (7 db root s db' n root')
  then have o: "table_ok db" by (simp add: store_ok_def)
  let ?keep = "\<lambda>g. \<not> (pg_project_root g = root \<and> pg_subject g = s)"
  from 7 have d: "db' = db\<lparr>gt_rows := filter ?keep (gt_rows db)\<rparr>"
    by (auto simp: permission_grant_delete_subject_def delete_grants_def MORPH_ERR_DB_def split: if_splits)
  have "select_project db' root' = filter (\<lambda>g. pg_project_root g = root') (filter ?keep (gt_rows db))"
    using select_project_filter [OF table_ok_filter [OF o, of ?keep]] unfolding d by simp
  then show ?case unfolding select_project_filter [OF o] filter_filter by (auto intro!: filter_cong)
qed

end
