(* ===== verification/Tool_Context.thy ===== *)
theory Tool_Context
  imports Patch_Apply Bash_Parse Grants
begin

text \<open>
  The permission checks of the tools (\<open>src/agent/tool_context.c\<close>): which paths and commands a tool may
  use without asking, what the user is asked, and what an answer grants for the turn, the session or for good.

  The record \<open>tool_context\<close> has the fields of the source; a fixed array with its count is a list.  The host
  is a parameter: environment variables, \<open>realpath\<close> and \<open>stat\<close> on a given file system, \<open>access\<close>, the
  answers to \<open>mkdir\<close>, the shell parser and the data base engine.  The state that outlives a context is the
  \<open>machine\<close>: the file system and the table of lasting grants.  The approval callback is a function from the operation
  to the answer; every check calls it at most once.  Pointers are not null where the type is \<open>string\<close>; log messages are left
  out and memory is always available.  A size of 0 for the buffer of the resolved path stands for a null
  buffer, for which the source uses a local one.
\<close>

section \<open>The data\<close>

definition TOOL_CONTEXT_ALLOW_MAX :: nat where "TOOL_CONTEXT_ALLOW_MAX = 32"
definition TOOL_CONTEXT_ACTION_MAX :: nat where "TOOL_CONTEXT_ACTION_MAX = 1024"
definition TOOL_CONTEXT_ENV_NAME_MAX :: nat where "TOOL_CONTEXT_ENV_NAME_MAX = 128"
definition TOOL_CONTEXT_CLI_NAME_MAX :: nat where "TOOL_CONTEXT_CLI_NAME_MAX = 256"
definition TOOL_CONTEXT_CLI_DIR_MAX :: nat where "TOOL_CONTEXT_CLI_DIR_MAX = 6"
definition TOOL_GRANT_SUBJECT_MAX :: nat where "TOOL_GRANT_SUBJECT_MAX = 256"

abbreviation (input) EPERM :: int where "EPERM \<equiv> 1"
abbreviation (input) EACCES :: int where "EACCES \<equiv> 13"
abbreviation (input) ENOTDIR :: int where "ENOTDIR \<equiv> 20"

datatype tool_path_op = TOOL_PATH_READ | TOOL_PATH_LIST | TOOL_PATH_WRITE | TOOL_PATH_DELETE

datatype tool_operation_kind = TOOL_OP_COMMAND | TOOL_OP_PATH_READ | TOOL_OP_PATH_LIST | TOOL_OP_PATH_WRITE
  | TOOL_OP_NETWORK | TOOL_OP_EXTERNAL_SEND | TOOL_OP_PATH_DELETE

datatype tool_operation_verdict = TOOL_OP_DENY | TOOL_OP_ALLOW | TOOL_OP_SESSION | TOOL_OP_ALWAYS

record tool_directory_capability =
  cap_path :: string
  cap_create :: bool

record tool_operation =
  op_kind :: tool_operation_kind
  op_tool_name :: "string option"
  op_principal :: "string option"
  op_action :: "string option"
  op_target :: "string option"
  op_scope :: "string option"
  op_details_json :: "string option"
  op_directories :: "tool_directory_capability list"

record tool_scoped_grant =
  sg_subject :: string
  sg_path :: string
  sg_kind :: tool_path_op
  sg_turn_only :: bool

record tool_context =
  workdir :: string
  output_dir :: string
  operation_approval_fn :: "(tool_operation \<Rightarrow> tool_operation_verdict) option"
  read_allowed_dirs :: "string list"
  write_allowed_dirs :: "string list"
  allowed_commands :: "string list"
  exec_allowed_dirs :: "string list"
  scoped_grants :: "tool_scoped_grant list"
  persistent_grants :: "permission_grant list"
  grant_db :: bool
  grant_project_root :: string
  default_timeout_seconds :: int
  bash_exec_local_mode :: bool
  bash_exec_mode_configured :: bool
  bash_exec_server_network_access :: bool
  bash_exec_server_read_dirs :: "string list"
  bash_exec_server_write_dirs :: "string list"
  bash_exec_server_delete_dirs :: "string list"
  bash_exec_server_allowed_env :: "string list"
  bash_exec_profile_write_dirs :: "string list"
  bash_exec_profile_delete_dirs :: "string list"

record host =
  h_env :: "string \<Rightarrow> string option"
  h_realpath :: "fs \<Rightarrow> realpath_fn"
  h_stat :: "fs \<Rightarrow> string \<Rightarrow> int + bool"
  h_exec :: "string \<Rightarrow> bool"
  h_os :: os_env
  h_parse :: ts_parser
  h_sql :: sql

record machine =
  m_fs :: fs
  m_db :: grant_table

text \<open>Names as this host sees them.\<close>

definition home_of :: "host \<Rightarrow> string" where
  "home_of h = (case h_env h ''HOME'' of None \<Rightarrow> ''/tmp'' | Some s \<Rightarrow> s)"

definition expand :: "host \<Rightarrow> string \<Rightarrow> string" where
  "expand h path = file_expand_path (home_of h) path"

definition resolve :: "host \<Rightarrow> fs \<Rightarrow> string \<Rightarrow> string option" where
  "resolve h fs path = file_resolve_path (home_of h) (h_realpath h fs) path"

definition within :: "host \<Rightarrow> fs \<Rightarrow> string \<Rightarrow> string \<Rightarrow> bool" where
  "within h fs path dir = path_is_within (home_of h) (h_realpath h fs) path dir"

definition buf_size :: "nat \<Rightarrow> nat" where
  "buf_size n = (if n = 0 then PATH_MAX else n)"

section \<open>Grants kept in a context\<close>

definition same_grant :: "permission_grant \<Rightarrow> permission_grant \<Rightarrow> bool" where
  "same_grant grant existing =
     ((pg_id grant > 0 \<and> pg_id existing = pg_id grant)
      \<or> (pg_subject existing = pg_subject grant \<and> pg_resource_kind existing = pg_resource_kind grant
         \<and> pg_resource existing = pg_resource grant))"

definition add_persistent_grant :: "tool_context \<Rightarrow> permission_grant \<Rightarrow> tool_context \<times> rc" where
  "add_persistent_grant t grant =
     (if list_ex (same_grant grant) (persistent_grants t) then (t, 0)
      else (t\<lparr>persistent_grants := persistent_grants t @ [grant]\<rparr>, 0))"

fun widen_grant :: "tool_path_op \<Rightarrow> string \<Rightarrow> string \<Rightarrow> bool \<Rightarrow> tool_scoped_grant list \<Rightarrow> tool_scoped_grant list option" where
  "widen_grant kind subject path turn_only [] = None"
| "widen_grant kind subject path turn_only (g # gs) =
     (if sg_kind g = kind \<and> sg_subject g = subject \<and> sg_path g = path
      then Some ((if turn_only then g else g\<lparr>sg_turn_only := False\<rparr>) # gs)
      else map_option (\<lambda>r. g # r) (widen_grant kind subject path turn_only gs))"

definition add_scoped_path_grant ::
  "tool_context \<Rightarrow> tool_path_op \<Rightarrow> string \<Rightarrow> string \<Rightarrow> bool \<Rightarrow> tool_context \<times> rc" where
  "add_scoped_path_grant t kind subject path turn_only =
     (if subject = [] \<or> path = [] then (t, - EINVAL)
      else (case widen_grant kind subject path turn_only (scoped_grants t) of
          Some gs \<Rightarrow> (t\<lparr>scoped_grants := gs\<rparr>, 0)
        | None \<Rightarrow>
            (t\<lparr>scoped_grants := scoped_grants t
                 @ [\<lparr>sg_subject = snprintf_n TOOL_GRANT_SUBJECT_MAX subject, sg_path = snprintf_n PATH_MAX path,
                     sg_kind = kind, sg_turn_only = turn_only\<rparr>]\<rparr>, 0)))"

definition add_allowed_dir :: "host \<Rightarrow> fs \<Rightarrow> string list \<Rightarrow> string \<Rightarrow> string list" where
  "add_allowed_dir h fs dirs dir =
     (if length dirs \<ge> TOOL_CONTEXT_ALLOW_MAX then dirs
      else
        let to_store = (case resolve h fs dir of Some r \<Rightarrow> r | None \<Rightarrow> dir)
        in if to_store \<in> set dirs then dirs else dirs @ [strncpy_fixed PATH_MAX to_store])"

definition add_parent_dir :: "host \<Rightarrow> fs \<Rightarrow> string list \<Rightarrow> string \<Rightarrow> string list" where
  "add_parent_dir h fs dirs path =
     (case last_slash (snprintf_n PATH_MAX path) of
        None \<Rightarrow> dirs
      | Some (parent, _) \<Rightarrow> add_allowed_dir h fs dirs (if parent = [] then ''/'' else parent))"

text \<open>Dropping the grants of a turn moves the others down in place.\<close>

function compact_loop :: "tool_scoped_grant list \<Rightarrow> nat \<Rightarrow> nat \<Rightarrow> tool_scoped_grant list" where
  "compact_loop grants src dst =
     (if src \<ge> length grants then take dst grants
      else if sg_turn_only (grants ! src) then compact_loop grants (src + 1) dst
      else compact_loop (if dst \<noteq> src then grants[dst := grants ! src] else grants) (src + 1) (dst + 1))"
  by pat_completeness auto
termination by (relation "measure (\<lambda>(g, s, d). length g - s)") auto

declare compact_loop.simps [simp del]

definition tool_context_clear_turn_grants :: "tool_context \<Rightarrow> tool_context" where
  "tool_context_clear_turn_grants t = t\<lparr>scoped_grants := compact_loop (scoped_grants t) 0 0\<rparr>"

section \<open>Patterns\<close>

definition ws :: "char \<Rightarrow> bool" where
  "ws c = (c = CHR '' '' \<or> c = TAB)"

definition skip_ws :: "string \<Rightarrow> string" where
  "skip_ws s = dropWhile ws s"

definition has_whitespace :: "string \<Rightarrow> bool" where
  "has_whitespace s = list_ex ws s"

definition tool_context_command_name :: "host \<Rightarrow> string \<Rightarrow> nat \<Rightarrow> rc + string" where
  "tool_context_command_name h command out_size = bash_parse_command_name (h_parse h) command out_size"

definition command_matches_pattern :: "host \<Rightarrow> string \<Rightarrow> string \<Rightarrow> bool" where
  "command_matches_pattern h cmd pat =
     (let cmd = skip_ws cmd; pat = skip_ws pat;
          name = tool_context_command_name h cmd TOOL_CONTEXT_CLI_NAME_MAX
      in if pat = [] then False
         else if pat = ''*'' then True
         else if last pat = CHR ''*'' then
           (let base = rev (dropWhile ws (rev (butlast pat)))
            in if base = [] then True
               else (case (has_whitespace pat, name) of
                   (False, Inr n) \<Rightarrow> n = base
                 | _ \<Rightarrow> take (length base) cmd = base
                        \<and> (length cmd = length base \<or> (length base < length cmd \<and> ws (cmd ! length base)))))
         else if \<not> has_whitespace pat then (case name of Inl _ \<Rightarrow> False | Inr n \<Rightarrow> n = pat)
         else cmd = pat)"

definition cwd_matches_pattern :: "string \<Rightarrow> string \<Rightarrow> bool" where
  "cwd_matches_pattern resolved pat =
     (if pat = ''*'' then True
      else if resolved = pat then True
      else if pat = [] then False
      else if take (length pat) resolved \<noteq> pat then False
      else length pat < length resolved \<and> resolved ! length pat = CHR ''/'')"

fun strtok :: "char \<Rightarrow> string \<Rightarrow> string \<Rightarrow> string list" where
  "strtok sep tok [] = (if tok = [] then [] else [rev tok])"
| "strtok sep tok (c # s) =
     (if c = sep then (if tok = [] then strtok sep [] s else rev tok # strtok sep [] s) else strtok sep (c # tok) s)"

fun find_program :: "host \<Rightarrow> fs \<Rightarrow> string \<Rightarrow> string list \<Rightarrow> string option" where
  "find_program h fs program [] = None"
| "find_program h fs program (dir # dirs) =
     (case file_path_join PATH_MAX dir program of
        Inl _ \<Rightarrow> find_program h fs program dirs
      | Inr candidate \<Rightarrow>
          if \<not> h_exec h candidate then find_program h fs program dirs
          else (case resolve h fs candidate of Some r \<Rightarrow> Some r | None \<Rightarrow> find_program h fs program dirs))"

definition tool_context_command_principal :: "host \<Rightarrow> fs \<Rightarrow> string \<Rightarrow> nat \<Rightarrow> rc + string" where
  "tool_context_command_principal h fs command out_size =
     (if out_size = 0 then Inl (- EINVAL)
      else (case bash_parse_command_program (h_parse h) command PATH_MAX of
          Inl rc \<Rightarrow> Inl rc
        | Inr program \<Rightarrow>
            if CHR ''/'' \<in> set program then
              (case resolve h fs program of
                 None \<Rightarrow> Inl (- ENOENT)
               | Some r \<Rightarrow> Inr (snprintf_n out_size r))
            else
              let dirs = (case h_env h ''PATH'' of None \<Rightarrow> [] | Some path \<Rightarrow> strtok (CHR '':'') [] path)
              in (case find_program h fs program dirs of
                    Some r \<Rightarrow> Inr (snprintf_n out_size r)
                  | None \<Rightarrow> Inr (snprintf_n out_size program))))"

section \<open>Directories a command-line program keeps\<close>

definition add_directory_capability ::
  "host \<Rightarrow> fs \<Rightarrow> nat \<Rightarrow> tool_directory_capability list \<Rightarrow> string \<Rightarrow> rc + tool_directory_capability list" where
  "add_directory_capability h fs max_directories dirs path =
     (if path = [] \<or> length dirs \<ge> max_directories then Inr dirs
      else (case resolve h fs path of
          None \<Rightarrow> Inl (- ENOMEM)
        | Some r \<Rightarrow>
            if \<not> file_path_is_absolute r then Inr dirs
            else if r \<in> cap_path ` set dirs then Inr dirs
            else Inr (dirs @ [\<lparr>cap_path = snprintf_n PATH_MAX r, cap_create = True\<rparr>])))"

definition add_cli_candidate :: "string list \<Rightarrow> string \<Rightarrow> string \<Rightarrow> string list" where
  "add_cli_candidate candidates base name =
     (if base = [] \<or> name = [] \<or> length candidates \<ge> TOOL_CONTEXT_CLI_DIR_MAX then candidates
      else (case file_path_join PATH_MAX base name of Inl _ \<Rightarrow> candidates | Inr p \<Rightarrow> candidates @ [p]))"

definition join_or_empty :: "string \<Rightarrow> string \<Rightarrow> string" where
  "join_or_empty dir name = (case file_path_join PATH_MAX dir name of Inl _ \<Rightarrow> [] | Inr p \<Rightarrow> p)"

definition xdg_base :: "host \<Rightarrow> string \<Rightarrow> string \<Rightarrow> string" where
  "xdg_base h var fallback =
     (case h_env h var of
        None \<Rightarrow> fallback
      | Some xdg \<Rightarrow> if xdg = [] then fallback else snprintf_n PATH_MAX xdg)"

fun add_capabilities ::
  "host \<Rightarrow> fs \<Rightarrow> nat \<Rightarrow> tool_directory_capability list \<Rightarrow> string list \<Rightarrow> rc + tool_directory_capability list" where
  "add_capabilities h fs mx dirs [] = Inr dirs"
| "add_capabilities h fs mx dirs (c # cs) =
     (case add_directory_capability h fs mx dirs c of
        Inl rc \<Rightarrow> Inl rc
      | Inr dirs' \<Rightarrow> add_capabilities h fs mx dirs' cs)"

text \<open>The branch for systems other than macOS, which adds no further candidates.\<close>

definition tool_context_discover_cli_dirs ::
  "host \<Rightarrow> fs \<Rightarrow> string \<Rightarrow> nat \<Rightarrow> rc + tool_directory_capability list" where
  "tool_context_discover_cli_dirs h fs command max_directories =
     (if command = [] \<or> max_directories = 0 then Inl (- EINVAL)
      else (case tool_context_command_name h command TOOL_CONTEXT_CLI_NAME_MAX of
          Inl _ \<Rightarrow> Inr []
        | Inr name \<Rightarrow>
            (case h_env h ''HOME'' of
               None \<Rightarrow> Inr []
             | Some home_env \<Rightarrow>
                 if home_env = [] then Inr []
                 else (case resolve h fs home_env of
                     None \<Rightarrow> Inl (- ENOMEM)
                   | Some home \<Rightarrow>
                       let dot_name = snprintf_n (TOOL_CONTEXT_CLI_NAME_MAX + 2) (CHR ''.'' # name);
                           config_base = xdg_base h ''XDG_CONFIG_HOME'' (join_or_empty home ''.config'');
                           cache_base = xdg_base h ''XDG_CACHE_HOME'' (join_or_empty home ''.cache'');
                           state_base = xdg_base h ''XDG_STATE_HOME''
                             (case file_path_join PATH_MAX home ''.local'' of
                                Inl _ \<Rightarrow> [] | Inr local \<Rightarrow> join_or_empty local ''state'');
                           c0 = add_cli_candidate [] home dot_name;
                           c1 = add_cli_candidate c0 config_base name;
                           c2 = add_cli_candidate c1 cache_base name;
                           c3 = add_cli_candidate c2 state_base name
                       in add_capabilities h fs max_directories [] c3))))"

section \<open>Setting a context up\<close>

definition resolve_into :: "host \<Rightarrow> fs \<Rightarrow> string option \<Rightarrow> string" where
  "resolve_into h fs src =
     (case src of
        None \<Rightarrow> []
      | Some s \<Rightarrow>
          if s = [] then []
          else (case resolve h fs s of
              Some r \<Rightarrow> strncpy_fixed PATH_MAX r
            | None \<Rightarrow> strncpy_fixed PATH_MAX (expand h s)))"

definition tool_context_create :: "host \<Rightarrow> fs \<Rightarrow> string option \<Rightarrow> string option \<Rightarrow> tool_context" where
  "tool_context_create h fs wd od =
     (let w = resolve_into h fs wd; out = resolve_into h fs od
      in \<lparr>workdir = w, output_dir = out, operation_approval_fn = None,
          read_allowed_dirs = (if out \<noteq> [] \<and> \<not> (w \<noteq> [] \<and> within h fs out w) then add_allowed_dir h fs [] out else []),
          write_allowed_dirs = [], allowed_commands = [], exec_allowed_dirs = [], scoped_grants = [],
          persistent_grants = [], grant_db = False, grant_project_root = [], default_timeout_seconds = 0,
          bash_exec_local_mode = False, bash_exec_mode_configured = False, bash_exec_server_network_access = False,
          bash_exec_server_read_dirs = [], bash_exec_server_write_dirs = [], bash_exec_server_delete_dirs = [],
          bash_exec_server_allowed_env = [], bash_exec_profile_write_dirs = [], bash_exec_profile_delete_dirs = []\<rparr>)"

definition tool_context_set_default_timeout :: "tool_context \<Rightarrow> int \<Rightarrow> tool_context" where
  "tool_context_set_default_timeout t seconds = t\<lparr>default_timeout_seconds := (if seconds > 0 then seconds else 0)\<rparr>"

definition tool_context_add_read_allowed_dir :: "host \<Rightarrow> fs \<Rightarrow> tool_context \<Rightarrow> string \<Rightarrow> tool_context" where
  "tool_context_add_read_allowed_dir h fs t dir = t\<lparr>read_allowed_dirs := add_allowed_dir h fs (read_allowed_dirs t) dir\<rparr>"

definition tool_context_add_write_allowed_dir :: "host \<Rightarrow> fs \<Rightarrow> tool_context \<Rightarrow> string \<Rightarrow> tool_context" where
  "tool_context_add_write_allowed_dir h fs t dir = t\<lparr>write_allowed_dirs := add_allowed_dir h fs (write_allowed_dirs t) dir\<rparr>"

definition tool_context_set_operation_approval ::
  "tool_context \<Rightarrow> (tool_operation \<Rightarrow> tool_operation_verdict) option \<Rightarrow> tool_context" where
  "tool_context_set_operation_approval t fn = t\<lparr>operation_approval_fn := fn\<rparr>"

definition tool_context_allow_command_pattern :: "tool_context \<Rightarrow> string \<Rightarrow> tool_context \<times> rc" where
  "tool_context_allow_command_pattern t pattern =
     (if pattern = [] then (t, - EINVAL)
      else if length pattern \<ge> TOOL_CONTEXT_ACTION_MAX then (t, - ENAMETOOLONG)
      else if pattern \<in> set (allowed_commands t) then (t, 0)
      else if length (allowed_commands t) \<ge> TOOL_CONTEXT_ALLOW_MAX then (t, - ENOSPC)
      else (t\<lparr>allowed_commands := allowed_commands t @ [snprintf_n TOOL_CONTEXT_ACTION_MAX pattern]\<rparr>, 0))"

definition tool_context_allow_command_scope :: "host \<Rightarrow> fs \<Rightarrow> tool_context \<Rightarrow> string \<Rightarrow> tool_context \<times> rc" where
  "tool_context_allow_command_scope h fs t path =
     (if path = [] then (t, - EINVAL)
      else (case (if path = ''*'' then Inr ''*'' else h_realpath h fs path) of
          Inl errno \<Rightarrow> (t, - errno)
        | Inr stored \<Rightarrow>
            if stored \<in> set (exec_allowed_dirs t) then (t, 0)
            else if length (exec_allowed_dirs t) \<ge> TOOL_CONTEXT_ALLOW_MAX then (t, - ENOSPC)
            else (t\<lparr>exec_allowed_dirs := exec_allowed_dirs t @ [snprintf_n PATH_MAX stored]\<rparr>, 0)))"

definition tool_context_set_bash_exec_mode :: "tool_context \<Rightarrow> string \<Rightarrow> tool_context" where
  "tool_context_set_bash_exec_mode t mode =
     t\<lparr>bash_exec_mode_configured := True, bash_exec_local_mode := (mode = ''local'')\<rparr>"

definition tool_context_set_bash_exec_server_network :: "tool_context \<Rightarrow> bool \<Rightarrow> tool_context" where
  "tool_context_set_bash_exec_server_network t enabled = t\<lparr>bash_exec_server_network_access := enabled\<rparr>"

definition env_start_char :: "char \<Rightarrow> bool" where
  "env_start_char c = (let b = (of_char c :: nat) in (65 \<le> b \<and> b \<le> 90) \<or> (97 \<le> b \<and> b \<le> 122) \<or> c = CHR ''_'')"

definition env_name_char :: "char \<Rightarrow> bool" where
  "env_name_char c = (env_start_char c \<or> (let b = (of_char c :: nat) in 48 \<le> b \<and> b \<le> 57))"

definition tool_context_add_bash_exec_server_env :: "tool_context \<Rightarrow> string \<Rightarrow> tool_context \<times> rc" where
  "tool_context_add_bash_exec_server_env t name =
     (if name = [] then (t, - EINVAL)
      else if length name \<ge> TOOL_CONTEXT_ENV_NAME_MAX then (t, - ENAMETOOLONG)
      else if \<not> env_start_char (hd name) then (t, - EINVAL)
      else if \<not> list_all env_name_char (tl name) then (t, - EINVAL)
      else if name \<in> set (bash_exec_server_allowed_env t) then (t, 0)
      else if length (bash_exec_server_allowed_env t) \<ge> TOOL_CONTEXT_ALLOW_MAX then (t, - ENOSPC)
      else (t\<lparr>bash_exec_server_allowed_env :=
                bash_exec_server_allowed_env t @ [strncpy_fixed TOOL_CONTEXT_ENV_NAME_MAX name]\<rparr>, 0))"

text \<open>Adding to one of the configured lists: the new list, and \<open>-ENOSPC\<close> when it was full.\<close>

definition add_configured_dir :: "host \<Rightarrow> fs \<Rightarrow> string list \<Rightarrow> string \<Rightarrow> string list \<times> rc" where
  "add_configured_dir h fs dirs dir =
     (let dirs' = add_allowed_dir h fs dirs dir
      in (dirs', if length dirs' = length dirs \<and> length dirs \<ge> TOOL_CONTEXT_ALLOW_MAX then - ENOSPC else 0))"

definition server_path_name :: "tool_context \<Rightarrow> string \<Rightarrow> string option" where
  "server_path_name t path =
     (if path = ''@workdir'' then Some (workdir t)
      else if path = ''@output'' then Some (output_dir t)
      else if path = ''@tmp'' then Some ''/tmp''
      else if path = ''*'' then Some ''/''
      else if file_path_is_absolute path then Some path
      else None)"

definition tool_context_add_bash_exec_server_path ::
  "host \<Rightarrow> fs \<Rightarrow> tool_context \<Rightarrow> tool_path_op \<Rightarrow> string \<Rightarrow> tool_context \<times> rc" where
  "tool_context_add_bash_exec_server_path h fs t op path =
     (if path = [] \<or> op = TOOL_PATH_LIST then (t, - EINVAL)
      else (case server_path_name t path of
          None \<Rightarrow> (t, - EINVAL)
        | Some expanded \<Rightarrow>
            if expanded = [] then (t, - EINVAL)
            else (case h_stat h fs expanded of
                Inl errno \<Rightarrow> (t, - errno)
              | Inr is_dir \<Rightarrow>
                  if \<not> is_dir then (t, - ENOTDIR)
                  else (case op of
                      TOOL_PATH_READ \<Rightarrow>
                        (case add_configured_dir h fs (bash_exec_server_read_dirs t) expanded of (ds, rc) \<Rightarrow>
                           (t\<lparr>bash_exec_server_read_dirs := ds\<rparr>, rc))
                    | TOOL_PATH_WRITE \<Rightarrow>
                        (case add_configured_dir h fs (bash_exec_server_write_dirs t) expanded of (ds, rc) \<Rightarrow>
                           (t\<lparr>bash_exec_server_write_dirs := ds\<rparr>, rc))
                    | _ \<Rightarrow>
                        (case add_configured_dir h fs (bash_exec_server_delete_dirs t) expanded of (ds, rc) \<Rightarrow>
                           (t\<lparr>bash_exec_server_delete_dirs := ds\<rparr>, rc))))))"

text \<open>The common part of the operations on a directory: the expanded name must be absolute and an existing
  directory; the answer is its canonical name.\<close>

definition canonical_dir :: "host \<Rightarrow> fs \<Rightarrow> string \<Rightarrow> rc + string" where
  "canonical_dir h fs path =
     (let expanded = expand h path
      in if \<not> file_path_is_absolute expanded then Inl (- EINVAL)
         else (case h_stat h fs expanded of
             Inl errno \<Rightarrow> Inl (- errno)
           | Inr is_dir \<Rightarrow>
               if \<not> is_dir then Inl (- ENOTDIR)
               else (case resolve h fs expanded of None \<Rightarrow> Inl (- ENOMEM) | Some c \<Rightarrow> Inr c)))"

definition tool_context_add_bash_exec_profile_path ::
  "host \<Rightarrow> fs \<Rightarrow> tool_context \<Rightarrow> tool_path_op \<Rightarrow> string \<Rightarrow> tool_context \<times> rc" where
  "tool_context_add_bash_exec_profile_path h fs t op path =
     (if path = [] \<or> (op \<noteq> TOOL_PATH_WRITE \<and> op \<noteq> TOOL_PATH_DELETE) then (t, - EINVAL)
      else (case canonical_dir h fs path of
          Inl rc \<Rightarrow> (t, rc)
        | Inr resolved \<Rightarrow>
            if op = TOOL_PATH_WRITE then
              (case add_configured_dir h fs (bash_exec_profile_write_dirs t) resolved of (ds, rc) \<Rightarrow>
                 (t\<lparr>bash_exec_profile_write_dirs := ds\<rparr>, rc))
            else
              (case add_configured_dir h fs (bash_exec_profile_delete_dirs t) resolved of (ds, rc) \<Rightarrow>
                 (t\<lparr>bash_exec_profile_delete_dirs := ds\<rparr>, rc))))"

section \<open>Lasting grants\<close>

definition load_grant :: "tool_context \<Rightarrow> permission_grant \<Rightarrow> tool_context \<times> rc" where
  "load_grant t grant = add_persistent_grant t grant"

definition tool_context_reload_persistent_grants :: "host \<Rightarrow> machine \<Rightarrow> tool_context \<Rightarrow> tool_context \<times> rc" where
  "tool_context_reload_persistent_grants h m t =
     (if \<not> grant_db t \<or> grant_project_root t = [] then (t, - EINVAL)
      else permission_grant_each (h_sql h) (m_db m) (grant_project_root t) load_grant (t\<lparr>persistent_grants := []\<rparr>))"

definition tool_context_set_grant_store :: "host \<Rightarrow> machine \<Rightarrow> tool_context \<Rightarrow> string \<Rightarrow> tool_context \<times> rc" where
  "tool_context_set_grant_store h m t project_root =
     (if project_root = [] then (t, - EINVAL)
      else (case resolve h (m_fs m) project_root of
          None \<Rightarrow> (t, - ENOMEM)
        | Some r \<Rightarrow>
            (case tool_context_reload_persistent_grants h m
                    (t\<lparr>grant_project_root := snprintf_n PATH_MAX r, grant_db := True\<rparr>) of (t', rc) \<Rightarrow>
               if rc \<noteq> 0 then (t'\<lparr>grant_db := False, grant_project_root := []\<rparr>, rc) else (t', rc))))"

definition save_grant ::
  "host \<Rightarrow> machine \<Rightarrow> tool_context \<Rightarrow> string \<Rightarrow> string \<Rightarrow> string \<Rightarrow> machine \<times> tool_context \<times> rc" where
  "save_grant h m t subject kind resource =
     (if kind = [] \<or> resource = [] then (m, t, - EINVAL)
      else
        let grant = \<lparr>pg_id = 0, pg_subject = snprintf_n 256 subject, pg_resource_kind = snprintf_n 32 kind,
                     pg_resource = snprintf_n PATH_MAX resource,
                     pg_project_root = snprintf_n PATH_MAX (grant_project_root t), pg_created_at = 0\<rparr>;
            (db, rc) = (if grant_db t \<and> pg_project_root grant \<noteq> [] then permission_grant_save (h_sql h) (m_db m) grant
                        else (m_db m, 0))
        in if rc \<noteq> 0 then (m\<lparr>m_db := db\<rparr>, t, rc)
           else (case add_persistent_grant t grant of (t', rc') \<Rightarrow> (m\<lparr>m_db := db\<rparr>, t', rc')))"

definition persistent_path_is_allowed :: "host \<Rightarrow> fs \<Rightarrow> tool_context \<Rightarrow> string \<Rightarrow> string \<Rightarrow> bool" where
  "persistent_path_is_allowed h fs t kind path =
     list_ex (\<lambda>g. pg_resource_kind g = kind \<and> within h fs path (pg_resource g)) (persistent_grants t)"

section \<open>Access to directories of a principal\<close>

definition scoped_is_allowed :: "host \<Rightarrow> fs \<Rightarrow> tool_context \<Rightarrow> tool_path_op \<Rightarrow> string \<Rightarrow> string \<Rightarrow> bool" where
  "scoped_is_allowed h fs t kind prin path =
     list_ex (\<lambda>g. sg_kind g = kind \<and> sg_subject g = prin \<and> within h fs path (sg_path g)) (scoped_grants t)"

definition scoped_write_is_allowed :: "host \<Rightarrow> fs \<Rightarrow> tool_context \<Rightarrow> string \<Rightarrow> string \<Rightarrow> bool" where
  "scoped_write_is_allowed h fs t prin path =
     (scoped_is_allowed h fs t TOOL_PATH_WRITE prin path
      \<or> (\<not> bash_exec_mode_configured t
         \<and> list_ex (\<lambda>g. pg_resource_kind g = ''write_path'' \<and> pg_subject g = prin
                      \<and> within h fs path (pg_resource g)) (persistent_grants t)))"

definition scoped_delete_is_allowed :: "host \<Rightarrow> fs \<Rightarrow> tool_context \<Rightarrow> string \<Rightarrow> string \<Rightarrow> bool" where
  "scoped_delete_is_allowed h fs t prin path = scoped_is_allowed h fs t TOOL_PATH_DELETE prin path"

definition configured_path_allowed :: "host \<Rightarrow> fs \<Rightarrow> string \<Rightarrow> string list \<Rightarrow> bool" where
  "configured_path_allowed h fs path dirs = list_ex (within h fs path) dirs"

definition tool_context_grant_write_access ::
  "host \<Rightarrow> machine \<Rightarrow> tool_context \<Rightarrow> string \<Rightarrow> string \<Rightarrow> bool \<Rightarrow> tool_operation_verdict \<Rightarrow> nat
   \<Rightarrow> machine \<times> tool_context \<times> rc \<times> string option" where
  "tool_context_grant_write_access h m t prin path create verdict rsize =
     (if prin = [] \<or> path = [] then (m, t, - EINVAL, None)
      else if verdict = TOOL_OP_DENY then (m, t, - EACCES, None)
      else if \<not> file_path_is_absolute (expand h path) then (m, t, - EINVAL, None)
      else
        let (fs, rc) = (if create then file_ensure_dir (h_os h) (m_fs m) (expand h path) else (m_fs m, 0));
            m = m\<lparr>m_fs := fs\<rparr>
        in if rc \<noteq> 0 then (m, t, rc, None)
           else (case canonical_dir h fs path of
               Inl rc \<Rightarrow> (m, t, rc, None)
             | Inr canonical \<Rightarrow>
                 if length canonical + 1 > buf_size rsize then (m, t, - ENAMETOOLONG, None)
                 else if verdict = TOOL_OP_SESSION then
                   (case add_scoped_path_grant t TOOL_PATH_WRITE prin canonical False of (t', rc) \<Rightarrow>
                      (m, t', rc, Some canonical))
                 else if verdict = TOOL_OP_ALWAYS then
                   (case save_grant h m t prin ''write_path'' canonical of (m', t', rc) \<Rightarrow>
                      (m', t', rc, Some canonical))
                 else (m, t, 0, Some canonical)))"

definition blank_operation :: "tool_operation_kind \<Rightarrow> tool_operation" where
  "blank_operation kind =
     \<lparr>op_kind = kind, op_tool_name = None, op_principal = None, op_action = None, op_target = None, op_scope = None,
      op_details_json = None, op_directories = []\<rparr>"

definition tool_context_request_write_access ::
  "host \<Rightarrow> machine \<Rightarrow> tool_context \<Rightarrow> string \<Rightarrow> string option \<Rightarrow> string \<Rightarrow> nat
   \<Rightarrow> machine \<times> tool_context \<times> rc \<times> string option" where
  "tool_context_request_write_access h m t prin command path rsize =
     (if prin = [] \<or> path = [] then (m, t, - EINVAL, None)
      else if \<not> file_path_is_absolute (expand h path) then (m, t, - EINVAL, None)
      else (case resolve h (m_fs m) (expand h path) of
          None \<Rightarrow> (m, t, - ENOMEM, None)
        | Some canonical \<Rightarrow>
            let resolved = snprintf_n (buf_size rsize) canonical
            in if (output_dir t \<noteq> [] \<and> within h (m_fs m) resolved (output_dir t))
                  \<or> scoped_write_is_allowed h (m_fs m) t prin resolved
               then (m, t, 0, Some resolved)
               else (case operation_approval_fn t of
                   None \<Rightarrow> (m, t, - EPERM, Some resolved)
                 | Some approve \<Rightarrow>
                     let op = (blank_operation TOOL_OP_PATH_WRITE)
                           \<lparr>op_tool_name := Some ''bash_exec'', op_principal := Some prin, op_action := command,
                            op_target := Some resolved, op_scope := Some (grant_project_root t)\<rparr>;
                         verdict = approve op
                     in if verdict = TOOL_OP_DENY then (m, t, - EACCES, Some resolved)
                        else
                          let verdict = (if bash_exec_mode_configured t \<and> verdict = TOOL_OP_ALWAYS
                                         then TOOL_OP_SESSION else verdict)
                          in (case tool_context_grant_write_access h m t prin resolved False verdict (buf_size rsize) of
                                (m', t', rc, r) \<Rightarrow> (m', t', rc, Some (case r of None \<Rightarrow> resolved | Some c \<Rightarrow> c))))))"

definition tool_context_request_delete_access ::
  "host \<Rightarrow> machine \<Rightarrow> tool_context \<Rightarrow> string \<Rightarrow> string option \<Rightarrow> string \<Rightarrow> nat \<Rightarrow> tool_context \<times> rc \<times> string option" where
  "tool_context_request_delete_access h m t prin command path rsize =
     (if prin = [] \<or> path = [] then (t, - EINVAL, None)
      else if \<not> file_path_is_absolute path then (t, - EINVAL, None)
      else (case resolve h (m_fs m) path of
          None \<Rightarrow> (t, - ENOMEM, None)
        | Some canonical \<Rightarrow>
            if length canonical + 1 > buf_size rsize then (t, - ENAMETOOLONG, None)
            else if scoped_delete_is_allowed h (m_fs m) t prin canonical then (t, 0, Some canonical)
            else (case operation_approval_fn t of
                None \<Rightarrow> (t, - EPERM, Some canonical)
              | Some approve \<Rightarrow>
                  let op = (blank_operation TOOL_OP_PATH_DELETE)
                        \<lparr>op_tool_name := Some ''bash_exec'', op_principal := Some prin, op_action := command,
                         op_target := Some canonical, op_scope := Some (grant_project_root t)\<rparr>;
                      verdict = approve op
                  in if verdict = TOOL_OP_DENY then (t, - EACCES, Some canonical)
                     else if verdict = TOOL_OP_SESSION \<or> verdict = TOOL_OP_ALWAYS then
                       (case add_scoped_path_grant t TOOL_PATH_DELETE prin canonical False of (t', rc) \<Rightarrow>
                          (t', rc, Some canonical))
                     else (t, 0, Some canonical))))"

definition tool_context_grant_delete_access ::
  "host \<Rightarrow> machine \<Rightarrow> tool_context \<Rightarrow> string \<Rightarrow> string \<Rightarrow> nat \<Rightarrow> tool_context \<times> rc \<times> string option" where
  "tool_context_grant_delete_access h m t prin path rsize =
     (if prin = [] \<or> path = [] then (t, - EINVAL, None)
      else (case canonical_dir h (m_fs m) path of
          Inl rc \<Rightarrow> (t, rc, None)
        | Inr canonical \<Rightarrow>
            if length canonical + 1 > buf_size rsize then (t, - ENAMETOOLONG, None)
            else (case add_scoped_path_grant t TOOL_PATH_DELETE prin canonical False of (t', rc) \<Rightarrow>
                (t', rc, Some canonical))))"

definition already_allowed :: "host \<Rightarrow> fs \<Rightarrow> tool_context \<Rightarrow> tool_path_op \<Rightarrow> string \<Rightarrow> string \<Rightarrow> bool" where
  "already_allowed h fs t operation prin canonical =
     ((workdir t \<noteq> [] \<and> within h fs canonical (workdir t))
      \<or> (output_dir t \<noteq> [] \<and> within h fs canonical (output_dir t))
      \<or> within h fs canonical ''/tmp''
      \<or> (if operation = TOOL_PATH_WRITE
         then scoped_write_is_allowed h fs t prin canonical
              \<or> configured_path_allowed h fs canonical (bash_exec_profile_write_dirs t)
         else scoped_delete_is_allowed h fs t prin canonical
              \<or> configured_path_allowed h fs canonical (bash_exec_profile_delete_dirs t)))"

definition tool_context_request_scoped_access ::
  "host \<Rightarrow> machine \<Rightarrow> tool_context \<Rightarrow> tool_path_op \<Rightarrow> string \<Rightarrow> string \<Rightarrow> string \<Rightarrow> bool \<Rightarrow> nat
   \<Rightarrow> tool_context \<times> rc \<times> string option" where
  "tool_context_request_scoped_access h m t operation prin command path session_scope rsize =
     (if prin = [] \<or> command = [] \<or> path = [] \<or> (operation \<noteq> TOOL_PATH_WRITE \<and> operation \<noteq> TOOL_PATH_DELETE)
      then (t, - EINVAL, None)
      else (case canonical_dir h (m_fs m) path of
          Inl rc \<Rightarrow> (t, rc, None)
        | Inr canonical \<Rightarrow>
            if length canonical + 1 > buf_size rsize then (t, - ENAMETOOLONG, None)
            else if already_allowed h (m_fs m) t operation prin canonical then (t, 0, Some canonical)
            else (case operation_approval_fn t of
                None \<Rightarrow> (t, - EPERM, Some canonical)
              | Some approve \<Rightarrow>
                  let op = (blank_operation (if operation = TOOL_PATH_WRITE then TOOL_OP_PATH_WRITE else TOOL_OP_PATH_DELETE))
                        \<lparr>op_tool_name := Some ''request_permissions'', op_principal := Some prin,
                         op_action := Some command, op_target := Some canonical,
                         op_scope := Some (if session_scope then ''session'' else ''turn'')\<rparr>
                  in if approve op = TOOL_OP_DENY then (t, - EACCES, Some canonical)
                     else (case add_scoped_path_grant t operation prin canonical (\<not> session_scope) of (t', rc) \<Rightarrow>
                         (t', rc, Some canonical)))))"

definition tool_context_collect_write_grants :: "tool_context \<Rightarrow> string \<Rightarrow> nat \<Rightarrow> string list" where
  "tool_context_collect_write_grants t prin max_paths =
     (let scoped = take max_paths (map sg_path (filter (\<lambda>g. sg_kind g = TOOL_PATH_WRITE \<and> sg_subject g = prin)
                      (scoped_grants t)))
      in if bash_exec_mode_configured t then scoped
         else scoped @ take (max_paths - length scoped)
                (map pg_resource (filter (\<lambda>g. pg_resource_kind g = ''write_path'' \<and> pg_subject g = prin)
                   (persistent_grants t))))"

definition tool_context_collect_delete_grants :: "tool_context \<Rightarrow> string \<Rightarrow> nat \<Rightarrow> string list" where
  "tool_context_collect_delete_grants t prin max_paths =
     take max_paths (map sg_path (filter (\<lambda>g. sg_kind g = TOOL_PATH_DELETE \<and> sg_subject g = prin) (scoped_grants t)))"

section \<open>Checking an operation\<close>

fun each_command_allowed :: "host \<Rightarrow> tool_context \<Rightarrow> string \<Rightarrow> bash_parse_command list \<Rightarrow> bool" where
  "each_command_allowed h t command [] = True"
| "each_command_allowed h t command (parsed # ps) =
     (if bc_end parsed < bc_start parsed \<or> bc_end parsed > length command then False
      else
        let source = take (bc_end parsed - bc_start parsed) (drop (bc_start parsed) command)
        in if \<not> list_ex (command_matches_pattern h source) (allowed_commands t) then False
           else each_command_allowed h t command ps)"

definition command_is_allowed :: "host \<Rightarrow> tool_context \<Rightarrow> string \<Rightarrow> bool" where
  "command_is_allowed h t command =
     (if bash_exec_mode_configured t \<and> \<not> bash_exec_local_mode t then
        (case bash_parse_analyze (h_parse h) command of
           Inl _ \<Rightarrow> False
         | Inr analysis \<Rightarrow>
             if br_error analysis \<or> br_commands analysis = [] then False
             else each_command_allowed h t command (br_commands analysis))
      else list_ex (command_matches_pattern h command) (allowed_commands t)
        \<or> list_ex (\<lambda>g. pg_resource_kind g = ''command'' \<and> command_matches_pattern h command (pg_resource g))
             (persistent_grants t))"

definition command_scope_is_allowed :: "host \<Rightarrow> fs \<Rightarrow> tool_context \<Rightarrow> string option \<Rightarrow> bool" where
  "command_scope_is_allowed h fs t cwd =
     (case cwd of
        None \<Rightarrow> True
      | Some c \<Rightarrow>
          if c = [] then True
          else (case h_realpath h fs c of
              Inl _ \<Rightarrow> False
            | Inr resolved \<Rightarrow>
                list_ex (cwd_matches_pattern resolved) (exec_allowed_dirs t)
                \<or> list_ex (\<lambda>g. pg_resource_kind g = ''command_cwd''
                      \<and> cwd_matches_pattern resolved
                          (case h_realpath h fs (pg_resource g) of Inr p \<Rightarrow> p | Inl _ \<Rightarrow> pg_resource g))
                     (persistent_grants t)))"

fun grant_directories ::
  "host \<Rightarrow> machine \<Rightarrow> tool_context \<Rightarrow> string \<Rightarrow> tool_operation_verdict \<Rightarrow> tool_directory_capability list
   \<Rightarrow> machine \<times> tool_context \<times> rc" where
  "grant_directories h m t prin v [] = (m, t, 0)"
| "grant_directories h m t prin v (d # ds) =
     (case tool_context_grant_write_access h m t prin (cap_path d) (cap_create d) v PATH_MAX of (m', t', rc, _) \<Rightarrow>
        if rc \<noteq> 0 then (m', t', rc) else grant_directories h m' t' prin v ds)"

definition or_else :: "string option \<Rightarrow> string \<Rightarrow> string" where
  "or_else s d = (case s of None \<Rightarrow> d | Some x \<Rightarrow> x)"

text \<open>What a lasting answer to a command leaves behind; failures are only logged.\<close>

definition persist_command ::
  "host \<Rightarrow> machine \<Rightarrow> tool_context \<Rightarrow> tool_operation \<Rightarrow> tool_operation_verdict \<Rightarrow> string \<Rightarrow> machine \<times> tool_context" where
  "persist_command h m t op v command =
     (case tool_context_command_name h command TOOL_CONTEXT_ACTION_MAX of
        Inl _ \<Rightarrow> (m, t)
      | Inr prog \<Rightarrow>
          if v = TOOL_OP_ALWAYS
          then (case save_grant h m t (or_else (op_principal op) prog) ''command'' prog of (m', t', _) \<Rightarrow> (m', t'))
          else (case tool_context_allow_command_pattern t prog of (t', _) \<Rightarrow> (m, t')))"

definition persist_cwd ::
  "host \<Rightarrow> machine \<Rightarrow> tool_context \<Rightarrow> tool_operation \<Rightarrow> tool_operation_verdict \<Rightarrow> string \<Rightarrow> machine \<times> tool_context" where
  "persist_cwd h m t op v cwd =
     (if v = TOOL_OP_ALWAYS
      then (case save_grant h m t (or_else (op_principal op) ''*'') ''command_cwd'' cwd of (m', t', _) \<Rightarrow> (m', t'))
      else (case tool_context_allow_command_scope h (m_fs m) t cwd of (t', _) \<Rightarrow> (m, t')))"

definition check_command_operation ::
  "host \<Rightarrow> machine \<Rightarrow> tool_context \<Rightarrow> tool_operation \<Rightarrow> tool_operation_verdict
   \<Rightarrow> machine \<times> tool_context \<times> rc \<times> tool_operation_verdict" where
  "check_command_operation h m t op verdict =
     (case op_action op of
        None \<Rightarrow> (m, t, - EINVAL, verdict)
      | Some command \<Rightarrow>
          let cmd_ok = command_is_allowed h t command;
              cwd_ok = command_scope_is_allowed h (m_fs m) t (op_scope op)
          in if bash_exec_mode_configured t then
               (if bash_exec_local_mode t then (m, t, 0, TOOL_OP_ALLOW)
                else if cmd_ok then (m, t, 0, TOOL_OP_ALLOW)
                else (m, t, - EPERM, verdict))
             else if cmd_ok \<and> cwd_ok then (m, t, 0, verdict)
             else (case operation_approval_fn t of
                 None \<Rightarrow> (m, t, - EPERM, verdict)
               | Some approve \<Rightarrow>
                   let v = approve op
                   in if v = TOOL_OP_DENY then (m, t, - EACCES, v)
                      else (case grant_directories h m t (or_else (op_principal op) ''shell'') v (op_directories op) of
                          (m1, t1, rc) \<Rightarrow>
                            if rc \<noteq> 0 then (m1, t1, rc, v)
                            else if v = TOOL_OP_SESSION \<or> v = TOOL_OP_ALWAYS then
                              (case (if \<not> cmd_ok then persist_command h m1 t1 op v command else (m1, t1)) of (m2, t2) \<Rightarrow>
                                 (case (if \<not> cwd_ok \<and> op_scope op \<noteq> None \<and> op_scope op \<noteq> Some []
                                        then persist_cwd h m2 t2 op v (the (op_scope op)) else (m2, t2)) of (m3, t3) \<Rightarrow>
                                    (m3, t3, 0, v)))
                            else (m1, t1, 0, v))))"

definition check_path_operation ::
  "host \<Rightarrow> machine \<Rightarrow> tool_context \<Rightarrow> tool_operation \<Rightarrow> machine \<times> tool_context \<times> rc" where
  "check_path_operation h m t op =
     (case op_target op of
        None \<Rightarrow> (m, t, - EINVAL)
      | Some target \<Rightarrow>
          (case operation_approval_fn t of
             None \<Rightarrow> (m, t, - EPERM)
           | Some approve \<Rightarrow>
               let v = approve op;
                   writing = (op_kind op = TOOL_OP_PATH_WRITE \<or> op_kind op = TOOL_OP_PATH_DELETE)
               in if v = TOOL_OP_DENY then (m, t, - EACCES)
                  else if v = TOOL_OP_SESSION then
                    (m, if writing then t\<lparr>write_allowed_dirs := add_parent_dir h (m_fs m) (write_allowed_dirs t) target\<rparr>
                        else t\<lparr>read_allowed_dirs := add_parent_dir h (m_fs m) (read_allowed_dirs t) target\<rparr>, 0)
                  else if v = TOOL_OP_ALWAYS then
                    let kind = (if op_kind op = TOOL_OP_PATH_WRITE then ''tool_write_path''
                                else if op_kind op = TOOL_OP_PATH_DELETE then ''delete_path'' else ''read_path'');
                        whole = snprintf_n PATH_MAX target;
                        parent = (case last_slash whole of None \<Rightarrow> whole | Some (d, _) \<Rightarrow> if d = [] then whole else d)
                    in (case save_grant h m t (or_else (op_principal op) ''tool:*'') kind parent of (m', t', _) \<Rightarrow> (m', t', 0))
                  else (m, t, 0)))"

definition tool_context_check_operation_verdict ::
  "host \<Rightarrow> machine \<Rightarrow> tool_context \<Rightarrow> tool_operation \<Rightarrow> machine \<times> tool_context \<times> rc \<times> tool_operation_verdict" where
  "tool_context_check_operation_verdict h m t op =
     (case op_kind op of
        TOOL_OP_COMMAND \<Rightarrow> check_command_operation h m t op TOOL_OP_DENY
      | TOOL_OP_NETWORK \<Rightarrow>
          (case operation_approval_fn t of
             None \<Rightarrow> (m, t, - EPERM, TOOL_OP_DENY)
           | Some approve \<Rightarrow> (m, t, if approve op = TOOL_OP_DENY then - EACCES else 0, TOOL_OP_DENY))
      | TOOL_OP_EXTERNAL_SEND \<Rightarrow>
          (case operation_approval_fn t of
             None \<Rightarrow> (m, t, - EPERM, TOOL_OP_DENY)
           | Some approve \<Rightarrow> (m, t, if approve op = TOOL_OP_DENY then - EACCES else 0, TOOL_OP_DENY))
      | _ \<Rightarrow> (case check_path_operation h m t op of (m', t', rc) \<Rightarrow> (m', t', rc, TOOL_OP_DENY)))"

definition tool_context_check_operation ::
  "host \<Rightarrow> machine \<Rightarrow> tool_context \<Rightarrow> tool_operation \<Rightarrow> machine \<times> tool_context \<times> rc" where
  "tool_context_check_operation h m t op =
     (case tool_context_check_operation_verdict h m t op of (m', t', rc, _) \<Rightarrow> (m', t', rc))"

section \<open>Authorising a path\<close>

definition path_op_is_read :: "tool_path_op \<Rightarrow> bool" where
  "path_op_is_read op = (op = TOOL_PATH_READ \<or> op = TOOL_PATH_LIST)"

fun path_op_to_kind :: "tool_path_op \<Rightarrow> tool_operation_kind" where
  "path_op_to_kind TOOL_PATH_READ = TOOL_OP_PATH_READ"
| "path_op_to_kind TOOL_PATH_LIST = TOOL_OP_PATH_LIST"
| "path_op_to_kind TOOL_PATH_WRITE = TOOL_OP_PATH_WRITE"
| "path_op_to_kind TOOL_PATH_DELETE = TOOL_OP_PATH_DELETE"

definition resolve_user_path :: "host \<Rightarrow> fs \<Rightarrow> tool_context \<Rightarrow> tool_path_op \<Rightarrow> string \<Rightarrow> nat \<Rightarrow> rc + string" where
  "resolve_user_path h fs t op path rsize =
     (let base = (if path_op_is_read op then workdir t else output_dir t)
      in (case file_path_full PATH_MAX base (expand h path) of
            Inl _ \<Rightarrow> Inl (- ENAMETOOLONG)
          | Inr candidate \<Rightarrow>
              (case resolve h fs candidate of
                 None \<Rightarrow> Inl (- ENOENT)
               | Some rp \<Rightarrow> Inr (snprintf_n rsize rp))))"

definition path_exists_for_read :: "host \<Rightarrow> fs \<Rightarrow> tool_path_op \<Rightarrow> string \<Rightarrow> bool" where
  "path_exists_for_read h fs op path =
     (if \<not> path_op_is_read op then True
      else (case h_stat h fs path of Inl _ \<Rightarrow> False | Inr is_dir \<Rightarrow> \<not> (op = TOOL_PATH_LIST \<and> \<not> is_dir)))"

definition path_root :: "tool_context \<Rightarrow> tool_path_op \<Rightarrow> string" where
  "path_root t op = (if path_op_is_read op then workdir t else output_dir t)"

definition inside_allowed :: "host \<Rightarrow> fs \<Rightarrow> tool_context \<Rightarrow> tool_path_op \<Rightarrow> string \<Rightarrow> bool" where
  "inside_allowed h fs t op resolved =
     ((path_root t op \<noteq> [] \<and> within h fs resolved (path_root t op))
      \<or> list_ex (within h fs resolved) (if path_op_is_read op then read_allowed_dirs t else write_allowed_dirs t)
      \<or> persistent_path_is_allowed h fs t (if path_op_is_read op then ''read_path'' else ''tool_write_path'') resolved)"

definition path_operation :: "tool_context \<Rightarrow> tool_path_op \<Rightarrow> string \<Rightarrow> tool_operation" where
  "path_operation t op resolved =
     (blank_operation (path_op_to_kind op))
       \<lparr>op_tool_name := Some ''tool'', op_principal := Some ''tool:*'', op_target := Some resolved,
        op_scope := Some (path_root t op)\<rparr>"

definition tool_context_authorize_path ::
  "host \<Rightarrow> machine \<Rightarrow> tool_context \<Rightarrow> tool_path_op \<Rightarrow> string \<Rightarrow> nat \<Rightarrow> machine \<times> tool_context \<times> rc \<times> string option" where
  "tool_context_authorize_path h m t op path rsize =
     (case resolve_user_path h (m_fs m) t op path (buf_size rsize) of
        Inl rc \<Rightarrow> (m, t, rc, None)
      | Inr resolved \<Rightarrow>
          if path_op_is_read op \<and> \<not> path_exists_for_read h (m_fs m) op resolved then (m, t, - ENOENT, Some resolved)
          else if inside_allowed h (m_fs m) t op resolved then (m, t, 0, Some resolved)
          else (case tool_context_check_operation h m t (path_operation t op resolved) of (m', t', rc) \<Rightarrow>
              (m', t', rc, Some resolved)))"

end
