(* ===== verification/Permissions.thy ===== *)
theory Permissions
  imports Tool_Context
begin

text \<open>
  What the permission checks of \<open>Tool_Context\<close> guarantee: nothing changes without a consenting answer; what a
  session answer opens, for paths and for commands; the fixed policy of the server mode; the lifetime of the grants of a turn;
  lasting grants across restarts and their revocation; the bounds of the tables.

  The laws of \<open>realpath\<close> that the statements need are the hypothesis \<open>realpath_ok\<close>: an answer is an absolute
  name that is its own canonical name and fits a path buffer.
\<close>

section \<open>Resolved names\<close>

definition realpath_ok :: "realpath_fn \<Rightarrow> bool" where
  "realpath_ok rp = (\<forall>p d. rp p = Inr d \<longrightarrow> file_path_is_absolute d \<and> rp d = Inr d \<and> length d < PATH_MAX)"

lemma expand_absolute [simp]: "file_path_is_absolute p \<Longrightarrow> expand h p = p"
  by (auto simp: expand_def file_expand_path_def file_path_is_absolute_def)

lemma resolve_existing: "file_path_is_absolute p \<Longrightarrow> h_realpath h fs p = Inr d \<Longrightarrow> resolve h fs p = Some d"
  using expand_absolute [of p h] by (simp add: resolve_def expand_def file_resolve_path_def)

lemma resolve_canonical: "realpath_ok (h_realpath h fs) \<Longrightarrow> h_realpath h fs p = Inr d \<Longrightarrow> resolve h fs d = Some d"
  by (rule resolve_existing) (auto simp: realpath_ok_def)

definition below :: "string \<Rightarrow> string \<Rightarrow> bool" where
  "below q d = (q = d \<or> (\<exists>s. q = d @ CHR ''/'' # s))"

lemma within_below:
  "resolve h fs x = Some d \<Longrightarrow> within h fs p x \<longleftrightarrow> (\<exists>q. resolve h fs p = Some q \<and> below q d)"
  by (simp add: within_def path_is_within_iff resolve_def below_def)

lemma below_refl [simp]: "below d d" by (simp add: below_def)

lemma below_trans: "below p q \<Longrightarrow> below q r \<Longrightarrow> below p r"
  by (auto simp: below_def)

lemma snprintf_n_length: "0 < n \<Longrightarrow> length (snprintf_n n s) < n"
  by (simp add: snprintf_n_def)

section \<open>Without consent nothing changes\<close>

definition no_consent :: "tool_context \<Rightarrow> bool" where
  "no_consent t = (case operation_approval_fn t of None \<Rightarrow> True | Some f \<Rightarrow> \<forall>op. f op = TOOL_OP_DENY)"

lemma no_consent_Some: "no_consent t \<Longrightarrow> operation_approval_fn t = Some f \<Longrightarrow> f op = TOOL_OP_DENY"
  by (simp add: no_consent_def)

lemma check_command_no_consent:
  "no_consent t \<Longrightarrow> check_command_operation h m t op v = (m', t', rc, v') \<Longrightarrow> m' = m \<and> t' = t"
  by (auto simp: check_command_operation_def Let_def no_consent_Some split: option.splits if_splits)

lemma check_path_no_consent:
  "no_consent t \<Longrightarrow> check_path_operation h m t op = (m', t', rc) \<Longrightarrow> m' = m \<and> t' = t \<and> rc < 0"
  by (auto simp: check_path_operation_def Let_def no_consent_Some split: option.splits if_splits)

lemma check_operation_no_consent:
  "no_consent t \<Longrightarrow> tool_context_check_operation_verdict h m t op = (m', t', rc, v) \<Longrightarrow> m' = m \<and> t' = t"
  by (auto simp: tool_context_check_operation_verdict_def split: tool_operation_kind.splits option.splits prod.splits
      dest: check_command_no_consent check_path_no_consent)

lemma check_operation_path_no_consent:
  "no_consent t \<Longrightarrow> tool_context_check_operation h m t (path_operation t' op r) = (m', t'', rc) \<Longrightarrow> m' = m \<and> t'' = t \<and> rc < 0"
  by (cases op) (auto simp: tool_context_check_operation_def tool_context_check_operation_verdict_def path_operation_def blank_operation_def
      split: prod.splits dest: check_path_no_consent)

lemma resolve_user_path_Inl: "resolve_user_path h fs t op path n = Inl rc \<Longrightarrow> rc < 0"
  by (auto simp: resolve_user_path_def Let_def split: sum.splits option.splits)

lemma authorize_no_consent:
  assumes "no_consent t" "tool_context_authorize_path h m t op path n = (m', t', rc, r)"
  shows "m' = m \<and> t' = t \<and> (rc = 0 \<longrightarrow> (\<exists>q. r = Some q \<and> inside_allowed h (m_fs m) t op q))"
proof (cases "resolve_user_path h (m_fs m) t op path (buf_size n)")
  case (Inl e)
  then show ?thesis using assms(2) resolve_user_path_Inl [OF Inl] by (auto simp: tool_context_authorize_path_def)
next
  case (Inr q)
  then show ?thesis
    using assms(2) check_operation_path_no_consent [OF assms(1), of h m t op q]
    by (auto simp: tool_context_authorize_path_def split: if_splits prod.splits)
qed

lemma request_write_no_consent:
  assumes "no_consent t" "tool_context_request_write_access h m t prin command path n = (m', t', rc, r)"
  shows "m' = m \<and> t' = t"
  using assms by (auto simp: tool_context_request_write_access_def Let_def no_consent_Some split: option.splits if_splits)

lemma request_delete_no_consent:
  assumes "no_consent t" "tool_context_request_delete_access h m t prin command path n = (t', rc, r)"
  shows "t' = t"
  using assms by (auto simp: tool_context_request_delete_access_def Let_def no_consent_Some split: option.splits if_splits)

lemma request_scoped_no_consent:
  assumes "no_consent t" "tool_context_request_scoped_access h m t op prin command path session n = (t', rc, r)"
  shows "t' = t"
  using assms
  by (auto simp: tool_context_request_scoped_access_def Let_def no_consent_Some split: option.splits if_splits sum.splits)

text \<open>
  C9. As long as there is no approval callback, or it refuses everything, no check and no request changes anything: not the
  context, not the file system, not the table of lasting grants.  A path is then authorised only if its resolved name
  lies inside the root for the operation, a configured directory or a lasting grant.
\<close>

theorem no_consent_no_change:
  assumes "no_consent t"
  shows "(\<exists>rc v. tool_context_check_operation_verdict h m t op = (m, t, rc, v))
    \<and> (\<exists>rc r. tool_context_authorize_path h m t pop path n = (m, t, rc, r)
           \<and> (rc = 0 \<longrightarrow> (\<exists>q. r = Some q \<and> inside_allowed h (m_fs m) t pop q)))
    \<and> (\<exists>rc r. tool_context_request_write_access h m t prin command path n = (m, t, rc, r))
    \<and> (\<exists>rc r. tool_context_request_delete_access h m t prin command path n = (t, rc, r))
    \<and> (\<exists>rc r. tool_context_request_scoped_access h m t pop prin cmd path session n = (t, rc, r))"
proof (intro conjI)
  show "\<exists>rc v. tool_context_check_operation_verdict h m t op = (m, t, rc, v)"
    by (metis check_operation_no_consent [OF assms] prod_cases4)
  show "\<exists>rc r. tool_context_authorize_path h m t pop path n = (m, t, rc, r)
      \<and> (rc = 0 \<longrightarrow> (\<exists>q. r = Some q \<and> inside_allowed h (m_fs m) t pop q))"
    by (metis authorize_no_consent [OF assms] prod_cases4)
  show "\<exists>rc r. tool_context_request_write_access h m t prin command path n = (m, t, rc, r)"
    by (metis request_write_no_consent [OF assms] prod_cases4)
  show "\<exists>rc r. tool_context_request_delete_access h m t prin command path n = (t, rc, r)"
    by (metis request_delete_no_consent [OF assms] prod_cases3)
  show "\<exists>rc r. tool_context_request_scoped_access h m t pop prin cmd path session n = (t, rc, r)"
    by (metis request_scoped_no_consent [OF assms] prod_cases3)
qed

text \<open>A host with a few directories on which every line is one command, its name the first word.\<close>

definition sample_dirs :: "string list" where
  "sample_dirs = [''/'', ''/work'', ''/out'', ''/data'', ''/tmp'']"

definition sample_realpath :: "fs \<Rightarrow> realpath_fn" where
  "sample_realpath fs p = (if p \<in> set sample_dirs then Inr p else Inl ENOENT)"

definition one_command :: ts_parser where
  "one_command source =
     Some (TSNode ''program'' 0 (length source) None
             [TSNode ''command'' 0 (length source)
                (Some (TSNode ''command_name'' 0 (length (takeWhile (\<lambda>c. \<not> ws c) source)) None [])) []], False)"

definition sample_sql :: sql where
  "sample_sql = \<lparr>sql_ready = True, sql_step = True, sql_rows = None, sql_now = 1000\<rparr>"

definition sample_os_env :: os_env where
  "sample_os_env = \<lparr>os_mkdir = (\<lambda>_. 0), os_mkstemp = (\<lambda>_. Inl 1), os_fchmod = 0, os_writes = [], os_fsync = 0, os_close = 0,
     os_rename = 0, os_unlink = (\<lambda>_. 0), os_fopen = 0\<rparr>"

definition sample_host :: host where
  "sample_host = \<lparr>h_env = (\<lambda>_. None), h_realpath = sample_realpath,
     h_stat = (\<lambda>fs p. if p \<in> set sample_dirs then Inr True else Inl ENOENT), h_exec = (\<lambda>_. False),
     h_os = sample_os_env, h_parse = one_command, h_sql = sample_sql\<rparr>"

definition sample_machine :: machine where
  "sample_machine = \<lparr>m_fs = (\<lambda>_. None), m_db = empty_table\<rparr>"

definition sample_context :: "tool_operation_verdict option \<Rightarrow> tool_context" where
  "sample_context v =
     (tool_context_create sample_host (\<lambda>_. None) (Some ''/work'') (Some ''/out''))
       \<lparr>operation_approval_fn := map_option (\<lambda>x op. x) v\<rparr>"

lemma sample_realpath_ok: "realpath_ok (h_realpath sample_host fs)"
  by (auto simp: realpath_ok_def sample_host_def sample_realpath_def sample_dirs_def file_path_is_absolute_def PATH_MAX_def
      split: if_splits)

lemma sample_resolve_dir: "p \<in> set sample_dirs \<Longrightarrow> resolve sample_host fs p = Some p"
  by (rule resolve_canonical [OF sample_realpath_ok, of _ p]) (simp add: sample_host_def sample_realpath_def)

lemma sample_resolve_new:
  assumes "d \<in> set sample_dirs" "d \<noteq> ''/''" "name \<noteq> []" "CHR ''/'' \<notin> set name" "length name < 100"
  shows "resolve sample_host fs (d @ CHR ''/'' # name) = Some (d @ CHR ''/'' # name)"
proof -
  have d: "d = ''/work'' \<or> d = ''/out'' \<or> d = ''/data'' \<or> d = ''/tmp''" using assms(1,2) by (auto simp: sample_dirs_def)
  have "d @ CHR ''/'' # name \<notin> set sample_dirs" using d assms(3) by (auto simp: sample_dirs_def)
  then show ?thesis unfolding resolve_def
    by (intro file_resolve_path_new [where e = ENOENT]) (use d assms in \<open>auto simp: sample_host_def sample_realpath_def sample_dirs_def PATH_MAX_def\<close>)
qed

lemmas sample_resolve_x = sample_resolve_new [where name = "''x''", simplified]

lemma sample_context_fields:
  "workdir (sample_context v) = ''/work''" "output_dir (sample_context v) = ''/out''"
  "read_allowed_dirs (sample_context v) = [''/out'']" "write_allowed_dirs (sample_context v) = []"
  "scoped_grants (sample_context v) = []" "persistent_grants (sample_context v) = []" "allowed_commands (sample_context v) = []"
  "exec_allowed_dirs (sample_context v) = []" "bash_exec_mode_configured (sample_context v) = False"
  "operation_approval_fn (sample_context v) = map_option (\<lambda>x op. x) v" "grant_db (sample_context v) = False"
  "bash_exec_profile_write_dirs (sample_context v) = []" "bash_exec_profile_delete_dirs (sample_context v) = []"
proof -
  have r: "resolve sample_host (\<lambda>_. None) ''/work'' = Some ''/work''" "resolve sample_host (\<lambda>_. None) ''/out'' = Some ''/out''"
    by (rule sample_resolve_dir, simp add: sample_dirs_def)+
  have w: "\<not> within sample_host (\<lambda>_. None) ''/out'' ''/work''"
    using within_below [OF r(1), of "''/out''"] r by (simp add: below_def)
  show "workdir (sample_context v) = ''/work''" "output_dir (sample_context v) = ''/out''"
  "read_allowed_dirs (sample_context v) = [''/out'']" "write_allowed_dirs (sample_context v) = []"
  "scoped_grants (sample_context v) = []" "persistent_grants (sample_context v) = []" "allowed_commands (sample_context v) = []"
  "exec_allowed_dirs (sample_context v) = []" "bash_exec_mode_configured (sample_context v) = False"
  "operation_approval_fn (sample_context v) = map_option (\<lambda>x op. x) v" "grant_db (sample_context v) = False"
  "bash_exec_profile_write_dirs (sample_context v) = []" "bash_exec_profile_delete_dirs (sample_context v) = []"
    using w by (simp_all add: sample_context_def tool_context_create_def resolve_into_def r Let_def add_allowed_dir_def
        TOOL_CONTEXT_ALLOW_MAX_def strncpy_fixed_def PATH_MAX_def)
qed

text \<open>The path \<open>/data/x\<close> is new and outside everything the sample context allows.\<close>

lemma sample_user_path:
  "resolve_user_path sample_host fs (sample_context v) TOOL_PATH_WRITE ''/data/x'' PATH_MAX = Inr ''/data/x''"
  using sample_resolve_x [of "''/data''" fs]
  by (simp add: resolve_user_path_def path_op_is_read_def file_path_full_def file_path_is_absolute_def expand_def
      file_expand_path_def PATH_MAX_def snprintf_n_def sample_dirs_def)

lemma sample_outside: "\<not> inside_allowed sample_host fs (sample_context v) TOOL_PATH_WRITE ''/data/x''"
proof -
  have "\<not> within sample_host fs ''/data/x'' ''/out''"
    using within_below [OF sample_resolve_dir [of "''/out''" fs], of "''/data/x''"] sample_resolve_x [of "''/data''" fs]
    by (simp add: sample_dirs_def below_def)
  then show ?thesis
    by (simp add: inside_allowed_def path_root_def path_op_is_read_def sample_context_fields persistent_path_is_allowed_def)
qed

theorem no_consent_no_change_witness:
  "\<exists>rc r. tool_context_authorize_path sample_host sample_machine (sample_context (Some TOOL_OP_DENY)) TOOL_PATH_WRITE ''/data/x'' 0
     = (sample_machine, sample_context (Some TOOL_OP_DENY), rc, r) \<and> rc \<noteq> 0"
proof -
  have n: "no_consent (sample_context (Some TOOL_OP_DENY))" by (simp add: no_consent_def sample_context_fields)
  from no_consent_no_change [OF n, of sample_host sample_machine "blank_operation TOOL_OP_NETWORK" TOOL_PATH_WRITE "''/data/x''" 0
      "''p''" None "''c''" True]
  obtain rc r where a: "tool_context_authorize_path sample_host sample_machine (sample_context (Some TOOL_OP_DENY)) TOOL_PATH_WRITE ''/data/x'' 0
     = (sample_machine, sample_context (Some TOOL_OP_DENY), rc, r)"
    "rc = 0 \<longrightarrow> (\<exists>q. r = Some q \<and> inside_allowed sample_host (m_fs sample_machine) (sample_context (Some TOOL_OP_DENY)) TOOL_PATH_WRITE q)"
    by blast
  have "r = Some ''/data/x''"
    using a(1) by (auto simp: tool_context_authorize_path_def sample_user_path buf_size_def split: if_splits prod.splits)
  then show ?thesis using a sample_outside by blast
qed




section \<open>What a session answer opens\<close>








text \<open>The answer \<open>always\<close> to a deletion is stored under a kind that no check reads: the next deletion is asked for again.\<close>

lemma always_delete_is_forgotten:
  assumes "op_kind op = TOOL_OP_PATH_DELETE" "operation_approval_fn t = Some f" "f op = TOOL_OP_ALWAYS"
    and "check_path_operation h m t op = (m', t', rc)"
  shows "inside_allowed h fs t' TOOL_PATH_DELETE p = inside_allowed h fs t TOOL_PATH_DELETE p"
proof -
  have s: "inside_allowed h fs t' TOOL_PATH_DELETE p = inside_allowed h fs t TOOL_PATH_DELETE p"
    if "save_grant h m t u ''delete_path'' r = (m', t', rc')" for u r m' t' rc'
    using that by (auto simp: save_grant_def add_persistent_grant_def Let_def snprintf_n_def inside_allowed_def path_op_is_read_def path_root_def
        persistent_path_is_allowed_def split: if_splits prod.splits)
  show ?thesis
    using assms s by (auto simp: check_path_operation_def Let_def split: option.splits prod.splits)
qed

text \<open>A file directly under \<open>/\<close>: the answer stores the root directory, below which the test finds nothing, so the
  next file there is asked for again.\<close>

lemma root_directory_contains_nothing:
  assumes "resolve h fs ''/'' = Some ''/''" "resolve h fs p = Some p" "p = CHR ''/'' # c # s" "c \<noteq> CHR ''/''"
  shows "\<not> within h fs p ''/''"
  using within_below [OF assms(1), of p] assms(2-4) by (simp add: below_def)

text \<open>A name of which neither the file nor its directory exists is taken as it is written, with its dots: it counts as inside.\<close>

lemma unresolved_dots_count_as_inside:
  "inside_allowed sample_host fs (sample_context v) TOOL_PATH_WRITE ''/out/new/../../etc/passwd''
   \<and> resolve_user_path sample_host fs (sample_context v) TOOL_PATH_WRITE ''new/../../etc/passwd'' PATH_MAX
     = Inr ''/out/new/../../etc/passwd''"
proof -
  let ?p = "''/out/new/../../etc/passwd''"
  have "last_slash ?p = Some (''/out/new/../../etc'', ''passwd'')" by code_simp
  then have r: "resolve sample_host fs ?p = Some ?p"
    by (simp add: resolve_def file_resolve_path_def file_expand_path_def sample_host_def sample_realpath_def sample_dirs_def PATH_MAX_def)
  have "within sample_host fs ?p ''/out''"
    using within_below [OF sample_resolve_dir [of "''/out''" fs], of ?p] r by (simp add: sample_dirs_def below_def)
  moreover have "file_path_full PATH_MAX ''/out'' ''new/../../etc/passwd'' = Inr ?p"
    by (simp add: file_path_full_def file_path_join_def file_path_is_absolute_def PATH_MAX_def SIZE_MAX_def Let_def)
  ultimately show ?thesis
    using r by (simp add: inside_allowed_def path_root_def path_op_is_read_def sample_context_fields resolve_user_path_def
        expand_def file_expand_path_def snprintf_n_def PATH_MAX_def)
qed

section \<open>Commands\<close>

lemma plain_word_skip_ws: "plain_word s \<Longrightarrow> skip_ws s = s"
  using plain_word_chars [of s "hd s"] by (cases s) (auto simp: skip_ws_def ws_def plain_word_def)

lemma plain_word_no_ws: "plain_word s \<Longrightarrow> \<not> has_whitespace s"
  using plain_word_chars [of s] by (auto simp: has_whitespace_def list_ex_iff ws_def)

text \<open>A plain word as a pattern stands for the commands with that name.\<close>

lemma command_matches_plain:
  assumes "plain_word pat"
  shows "command_matches_pattern h cmd pat \<longleftrightarrow> tool_context_command_name h (skip_ws cmd) TOOL_CONTEXT_CLI_NAME_MAX = Inr pat"
proof -
  have ne: "pat \<noteq> []" using assms by (simp add: plain_word_def)
  then have "last pat \<noteq> CHR ''*''" using plain_word_chars [OF assms, of "last pat"] by simp
  then show ?thesis
    using ne plain_word_skip_ws [OF assms] plain_word_no_ws [OF assms]
    by (auto simp: command_matches_pattern_def Let_def split: sum.splits)
qed

lemma command_name_plain:
  "tool_context_command_name h c n = Inr prog \<Longrightarrow> plain_word prog \<and> length prog < 256"
  using bash_parse_command_name_ok [of "h_parse h" c n prog] by (simp add: tool_context_command_name_def BASH_PARSE_COMMAND_NAME_MAX_def)

definition grant_with :: "tool_context \<Rightarrow> string \<Rightarrow> string \<Rightarrow> string \<Rightarrow> permission_grant" where
  "grant_with t subject kind resource =
     \<lparr>pg_id = 0, pg_subject = snprintf_n 256 subject, pg_resource_kind = snprintf_n 32 kind,
      pg_resource = snprintf_n PATH_MAX resource, pg_project_root = snprintf_n PATH_MAX (grant_project_root t), pg_created_at = 0\<rparr>"

definition sql_fine :: "sql \<Rightarrow> bool" where
  "sql_fine q = (sql_ready q \<and> sql_step q \<and> sql_rows q = None)"

lemma save_grant_fine:
  assumes "sql_fine (h_sql h)" "subject \<noteq> []" "kind \<noteq> []" "resource \<noteq> []"
  shows "save_grant h m t subject kind resource
    = (m\<lparr>m_db := if grant_db t \<and> grant_project_root t \<noteq> [] then insert_or_ignore (h_sql h) (m_db m) (grant_with t subject kind resource) else m_db m\<rparr>,
       fst (add_persistent_grant t (grant_with t subject kind resource)), 0)"
proof -
  have "snprintf_n 256 subject \<noteq> []" "snprintf_n 32 kind \<noteq> []" "snprintf_n PATH_MAX resource \<noteq> []"
    using assms(2-4) by (simp_all add: snprintf_n_def PATH_MAX_def)
  moreover have "snprintf_n PATH_MAX (grant_project_root t) \<noteq> [] \<longleftrightarrow> grant_project_root t \<noteq> []" by (simp add: snprintf_n_def PATH_MAX_def)
  ultimately show ?thesis
    using assms by (auto simp: save_grant_def Let_def sql_fine_def permission_grant_save_def add_persistent_grant_def grant_with_def)
qed

lemma add_persistent_grant_ex:
  assumes "\<And>g. pg_resource_kind g = pg_resource_kind grant \<Longrightarrow> pg_resource g = pg_resource grant \<Longrightarrow> P g = P grant" "pg_id grant = 0"
  shows "list_ex P (persistent_grants (fst (add_persistent_grant t grant))) \<longleftrightarrow> list_ex P (persistent_grants t) \<or> P grant"
proof (cases "list_ex (same_grant grant) (persistent_grants t)")
  case True
  then obtain g where g: "g \<in> set (persistent_grants t)" "same_grant grant g" unfolding list_ex_iff by blast
  then have "P g = P grant" using assms(2) unfolding same_grant_def by (intro assms(1)) simp_all
  then show ?thesis using True g(1) by (auto simp: add_persistent_grant_def list_ex_iff)
qed (auto simp: add_persistent_grant_def list_ex_iff)

lemma add_persistent_grant_keeps [simp]:
  "allowed_commands (fst (add_persistent_grant t g)) = allowed_commands t"
  "bash_exec_mode_configured (fst (add_persistent_grant t g)) = bash_exec_mode_configured t"
  "bash_exec_local_mode (fst (add_persistent_grant t g)) = bash_exec_local_mode t"
  by (simp_all add: add_persistent_grant_def)

definition named :: "host \<Rightarrow> string \<Rightarrow> string \<Rightarrow> bool" where
  "named h prog c = (tool_context_command_name h (skip_ws c) TOOL_CONTEXT_CLI_NAME_MAX = Inr prog)"

lemma persist_command_opens:
  assumes "tool_context_command_name h command TOOL_CONTEXT_ACTION_MAX = Inr prog" "sql_fine (h_sql h)"
    "v = TOOL_OP_SESSION \<or> v = TOOL_OP_ALWAYS" "op_principal op \<noteq> Some []" "length (allowed_commands t) < TOOL_CONTEXT_ALLOW_MAX"
    "\<not> bash_exec_mode_configured t"
  shows "\<exists>m' t'. persist_command h m t op v command = (m', t') \<and> (\<forall>c. command_is_allowed h t' c \<longleftrightarrow> command_is_allowed h t c \<or> named h prog c)"
proof -
  from command_name_plain [OF assms(1)] have p: "plain_word prog" "length prog < 256" "prog \<noteq> []" by (auto simp: plain_word_def)
  show ?thesis
  proof (cases "v = TOOL_OP_ALWAYS")
    case True
    let ?g = "grant_with t (or_else (op_principal op) prog) ''command'' prog"
    let ?P = "\<lambda>c g. pg_resource_kind g = ''command'' \<and> command_matches_pattern h c (pg_resource g)"
    have s: "or_else (op_principal op) prog \<noteq> []" using assms(4) p(3) by (auto simp: or_else_def split: option.splits)
    have g: "?P c ?g \<longleftrightarrow> named h prog c" for c
      using p command_matches_plain [OF p(1), of h c] by (simp add: grant_with_def snprintf_n_def PATH_MAX_def named_def)
    have l: "list_ex (?P c) (persistent_grants (fst (add_persistent_grant t ?g))) \<longleftrightarrow> list_ex (?P c) (persistent_grants t) \<or> ?P c ?g" for c
      by (rule add_persistent_grant_ex) (simp_all add: grant_with_def)
    have e: "persist_command h m t op v command
        = (fst (save_grant h m t (or_else (op_principal op) prog) ''command'' prog), fst (add_persistent_grant t ?g))"
      using save_grant_fine [OF assms(2) s _ p(3), of "''command''" m t] assms(1) True by (simp add: persist_command_def)
    then show ?thesis using l g assms(6) by (auto simp: command_is_allowed_def)
  next
    case False
    have "snprintf_n TOOL_CONTEXT_ACTION_MAX prog = prog" using p(2) by (intro snprintf_n_id) (simp add: TOOL_CONTEXT_ACTION_MAX_def)
    then show ?thesis
      using False assms p command_matches_plain [OF p(1), of h]
      by (auto simp: persist_command_def tool_context_allow_command_pattern_def TOOL_CONTEXT_ACTION_MAX_def command_is_allowed_def
          list_ex_iff named_def)
  qed
qed

text \<open>
  C13. The answer \<open>session\<close> or \<open>always\<close> to a command lets exactly the commands of the same name pass in addition, whatever the
  command was: the remembered word is the literal name, never a pattern.  (The command asks for no directories, its working
  directory is allowed, and the table of commands has room.)
\<close>

theorem lasting_answer_opens_command_name:
  assumes "\<not> bash_exec_mode_configured t" "op_kind op = TOOL_OP_COMMAND" "op_action op = Some command" "op_directories op = []"
    and "\<not> command_is_allowed h t command" "command_scope_is_allowed h (m_fs m) t (op_scope op)"
    and "operation_approval_fn t = Some f" "f op = v" "v = TOOL_OP_SESSION \<or> v = TOOL_OP_ALWAYS" "op_principal op \<noteq> Some []"
    and "tool_context_command_name h command 1024 = Inr prog" "sql_fine (h_sql h)" "length (allowed_commands t) < 32"
  shows "\<exists>m' t'. tool_context_check_operation_verdict h m t op = (m', t', 0, v)
    \<and> (\<forall>c. command_is_allowed h t' c \<longleftrightarrow> command_is_allowed h t c \<or> named h prog c)"
proof -
  from persist_command_opens [OF _ assms(12,9,10) _ assms(1), of command prog m] assms(11,13)
  obtain m' t' where p: "persist_command h m t op v command = (m', t')"
    "\<forall>c. command_is_allowed h t' c \<longleftrightarrow> command_is_allowed h t c \<or> named h prog c"
    by (auto simp: TOOL_CONTEXT_ACTION_MAX_def TOOL_CONTEXT_ALLOW_MAX_def)
  have "v \<noteq> TOOL_OP_DENY" using assms(9) by auto
  then have "tool_context_check_operation_verdict h m t op = (m', t', 0, v)"
    using assms(1-9) p(1) by (simp add: tool_context_check_operation_verdict_def check_command_operation_def Let_def)
  then show ?thesis using p(2) by blast
qed

definition sample_command :: "string \<Rightarrow> tool_operation" where
  "sample_command c = (blank_operation TOOL_OP_COMMAND)\<lparr>op_action := Some c\<rparr>"

lemma sample_name:
  assumes "8 \<le> n"
  shows "tool_context_command_name sample_host ''git status'' n = Inr ''git''"
proof -
  let ?root = "fst (the (one_command ''git status''))"
  have r: "one_command ''git status'' = Some (?root, False)" by (simp add: one_command_def)
  have d: "node_depth ?root \<le> BASH_PARSE_MAX_DEPTH"
    "map bc_name (map (make_command ''git status'') (command_nodes ?root)) = [''git'']" by code_simp+
  from bash_parse_analyze_eq [of one_command "''git status''" ?root False] r d assms show ?thesis
    by (auto simp: tool_context_command_name_def bash_parse_command_name_def copy_first_field_def sample_host_def UINT32_MAX_def
        bash_parse_first_command_def Let_def)
qed

lemma sample_sql_fine: "sql_fine (h_sql sample_host)"
  by (simp add: sql_fine_def sample_host_def sample_sql_def)

theorem lasting_answer_opens_command_name_witness:
  "\<exists>m' t'. tool_context_check_operation_verdict sample_host sample_machine (sample_context (Some TOOL_OP_SESSION)) (sample_command ''git status'')
       = (m', t', 0, TOOL_OP_SESSION) \<and> command_is_allowed sample_host t' ''git status''"
proof -
  let ?t = "sample_context (Some TOOL_OP_SESSION)"
  have n: "\<not> command_is_allowed sample_host ?t ''git status''" by (simp add: command_is_allowed_def sample_context_fields)
  have "\<exists>m' t'. tool_context_check_operation_verdict sample_host sample_machine ?t (sample_command ''git status'') = (m', t', 0, TOOL_OP_SESSION)
      \<and> (\<forall>c. command_is_allowed sample_host t' c \<longleftrightarrow> command_is_allowed sample_host ?t c \<or> named sample_host ''git'' c)"
    by (rule lasting_answer_opens_command_name [OF _ _ _ _ n, where f = "\<lambda>_. TOOL_OP_SESSION"])
      (simp_all add: sample_context_fields sample_command_def blank_operation_def command_scope_is_allowed_def sample_name
        sample_sql_fine)
  moreover have "named sample_host ''git'' ''git status''"
    by (simp add: named_def skip_ws_def ws_def sample_name TOOL_CONTEXT_CLI_NAME_MAX_def)
  ultimately show ?thesis by blast
qed

definition node_source :: "string \<Rightarrow> ts_node \<Rightarrow> string" where
  "node_source command n = take (ts_end n - ts_start n) (drop (ts_start n) command)"

lemma make_command_range [simp]: "bc_start (make_command source n) = ts_start n" "bc_end (make_command source n) = ts_end n"
  by (simp_all add: make_command_def Let_def split: sum.splits)

lemma each_command_allowed_iff:
  "each_command_allowed h t command (map (make_command source) ns) \<longleftrightarrow>
   (\<forall>n \<in> set ns. ts_start n \<le> ts_end n \<and> ts_end n \<le> length command
      \<and> (\<exists>pat \<in> set (allowed_commands t). command_matches_pattern h (node_source command n) pat))"
  by (induction ns) (auto simp: Let_def list_ex_iff node_source_def not_less)

text \<open>
  C10. In the server mode a command line passes exactly if it parses without an error, has at least one command, and every
  command in it, at any depth, matches an entry of the allow list; otherwise the result is \<open>-EPERM\<close>.  The user is
  never asked, no grant counts, and nothing changes.
\<close>

theorem server_mode_policy:
  assumes "bash_exec_mode_configured t" "\<not> bash_exec_local_mode t" "op_kind op = TOOL_OP_COMMAND" "op_action op = Some command"
    and "h_parse h command = Some (root, err)" "length command \<le> 4294967295"
  shows "tool_context_check_operation_verdict h m t op
    = (if \<not> err \<and> node_depth root \<le> 256 \<and> command_nodes root \<noteq> []
          \<and> (\<forall>n \<in> set (command_nodes root). ts_start n \<le> ts_end n \<and> ts_end n \<le> length command
               \<and> (\<exists>pat \<in> set (allowed_commands t). command_matches_pattern h (node_source command n) pat))
       then (m, t, 0, TOOL_OP_ALLOW) else (m, t, - EPERM, TOOL_OP_DENY))"
proof -
  have "command_is_allowed h t command \<longleftrightarrow> \<not> err \<and> node_depth root \<le> 256 \<and> command_nodes root \<noteq> []
      \<and> each_command_allowed h t command (map (make_command command) (command_nodes root))"
    using assms bash_parse_analyze_eq [of "h_parse h" command root err]
    by (auto simp: command_is_allowed_def UINT32_MAX_def BASH_PARSE_MAX_DEPTH_def)
  then show ?thesis
    using assms(1-4) unfolding each_command_allowed_iff
    by (simp add: tool_context_check_operation_verdict_def check_command_operation_def Let_def)
qed

theorem server_mode_policy_witness:
  "\<exists>t. allowed_commands t = [''git''] \<and> tool_context_check_operation_verdict sample_host sample_machine t (sample_command ''git status'')
     = (sample_machine, t, 0, TOOL_OP_ALLOW)"
proof -
  let ?t = "(sample_context None)\<lparr>bash_exec_mode_configured := True, bash_exec_local_mode := False, allowed_commands := [''git'']\<rparr>"
  let ?n = "TSNode ''command'' 0 10 (Some (TSNode ''command_name'' 0 3 None [])) []"
  let ?root = "TSNode ''program'' 0 10 None [?n]"
  have r: "h_parse sample_host ''git status'' = Some (?root, False)" by (simp add: sample_host_def one_command_def ws_def)
  have p: "plain_word ''git''" by code_simp
  have "command_matches_pattern sample_host ''git status'' ''git''"
    unfolding command_matches_plain [OF p] by (simp add: skip_ws_def ws_def sample_name TOOL_CONTEXT_CLI_NAME_MAX_def)
  then have "tool_context_check_operation_verdict sample_host sample_machine ?t (sample_command ''git status'') = (sample_machine, ?t, 0, TOOL_OP_ALLOW)"
    using server_mode_policy [of ?t "sample_command ''git status''" "''git status''" sample_host ?root False sample_machine] r
    by (simp add: sample_command_def blank_operation_def node_source_def)
  then show ?thesis by (intro exI [of _ ?t]) simp
qed

section \<open>Grants of a turn\<close>

lemma compact_loop_filter:
  "dst \<le> src \<Longrightarrow> src \<le> length gs \<Longrightarrow> compact_loop gs src dst = take dst gs @ filter (\<lambda>g. \<not> sg_turn_only g) (drop src gs)"
proof (induction gs src dst rule: compact_loop.induct)
  case (1 gs src dst)
  show ?case
  proof (cases "src < length gs")
    case True
    then have d: "drop src gs = gs ! src # drop (Suc src) gs" by (simp add: drop_nth_Cons)
    show ?thesis
    proof (cases "sg_turn_only (gs ! src)")
      case True
      then show ?thesis using "1.IH"(1) \<open>src < length gs\<close> "1.prems" d by (simp add: compact_loop.simps [of gs src dst])
    next
      case False
      let ?gs = "if dst \<noteq> src then gs[dst := gs ! src] else gs"
      have t: "take (Suc dst) ?gs = take dst gs @ [gs ! src]" "drop (Suc src) ?gs = drop (Suc src) gs"
        using "1.prems" \<open>src < length gs\<close> by (auto simp: take_Suc_conv_app_nth)
      have "compact_loop gs src dst = compact_loop ?gs (src + 1) (dst + 1)"
        using False \<open>src < length gs\<close> by (simp add: compact_loop.simps [of gs src dst])
      then show ?thesis using "1.IH"(2) False \<open>src < length gs\<close> "1.prems" d t by simp
    qed
  next
    case False
    then show ?thesis by (simp add: compact_loop.simps [of gs src dst])
  qed
qed

lemma clear_turn_grants_eq:
  "tool_context_clear_turn_grants t = t\<lparr>scoped_grants := filter (\<lambda>g. \<not> sg_turn_only g) (scoped_grants t)\<rparr>"
  by (simp add: tool_context_clear_turn_grants_def compact_loop_filter)

lemma widen_grant_None:
  "widen_grant kind subject path b gs = None \<longleftrightarrow> (\<forall>g \<in> set gs. \<not> (sg_kind g = kind \<and> sg_subject g = subject \<and> sg_path g = path))"
  by (induction gs) auto

definition scoped_grant :: "tool_path_op \<Rightarrow> string \<Rightarrow> string \<Rightarrow> bool \<Rightarrow> tool_scoped_grant" where
  "scoped_grant kind subject path turn_only = \<lparr>sg_subject = subject, sg_path = path, sg_kind = kind, sg_turn_only = turn_only\<rparr>"

lemma add_scoped_new:
  assumes "subject \<noteq> []" "path \<noteq> []" "length subject < TOOL_GRANT_SUBJECT_MAX" "length path < PATH_MAX"
    "\<forall>g \<in> set (scoped_grants t). \<not> (sg_kind g = kind \<and> sg_subject g = subject \<and> sg_path g = path)"
  shows "add_scoped_path_grant t kind subject path b = (t\<lparr>scoped_grants := scoped_grants t @ [scoped_grant kind subject path b]\<rparr>, 0)"
  using assms widen_grant_None [of kind subject path b "scoped_grants t"]
  by (simp add: add_scoped_path_grant_def snprintf_n_id scoped_grant_def)

lemma canonical_dir_existing:
  assumes "file_path_is_absolute (expand h path)" "h_stat h fs (expand h path) = Inr True" "h_realpath h fs (expand h path) = Inr c"
  shows "canonical_dir h fs path = Inr c"
  using assms resolve_existing [OF assms(1,3)] by (simp add: canonical_dir_def)

text \<open>
  C15. A request for a directory outside that the user does not refuse gives the asking principal, and no other, access of the
  requested kind to what lies below that directory.  A grant for the turn is gone, without a trace, after the turn is
  cleared; a grant for the session stays.
\<close>

theorem scoped_grant_lifetime:
  assumes "realpath_ok (h_realpath h (m_fs m))"
    and "file_path_is_absolute (expand h path)" "h_stat h (m_fs m) (expand h path) = Inr True" "h_realpath h (m_fs m) (expand h path) = Inr c"
    and "prin \<noteq> []" "length prin < 256" "command \<noteq> []" "path \<noteq> []" "kind = TOOL_PATH_WRITE \<or> kind = TOOL_PATH_DELETE"
    and "\<not> already_allowed h (m_fs m) t kind prin c" "operation_approval_fn t = Some f" "\<forall>op. f op \<noteq> TOOL_OP_DENY"
  shows "\<exists>t'. tool_context_request_scoped_access h m t kind prin command path session 0 = (t', 0, Some c)
    \<and> (\<forall>k q p. scoped_is_allowed h (m_fs m) t' k q p
        \<longleftrightarrow> scoped_is_allowed h (m_fs m) t k q p \<or> (k = kind \<and> q = prin \<and> within h (m_fs m) p c))
    \<and> tool_context_clear_turn_grants t'
        = (if session then (tool_context_clear_turn_grants t)
             \<lparr>scoped_grants := scoped_grants (tool_context_clear_turn_grants t) @ [scoped_grant kind prin c False]\<rparr>
           else tool_context_clear_turn_grants t)"
proof -
  have c: "file_path_is_absolute c" "length c < PATH_MAX" using assms(1,4) by (auto simp: realpath_ok_def)
  then have ne: "c \<noteq> []" by (auto simp: file_path_is_absolute_def)
  have "within h (m_fs m) c c" using within_below resolve_canonical [OF assms(1,4)] by fastforce
  then have new: "\<forall>g \<in> set (scoped_grants t). \<not> (sg_kind g = kind \<and> sg_subject g = prin \<and> sg_path g = c)"
    using assms(9,10) by (auto simp: already_allowed_def scoped_write_is_allowed_def scoped_delete_is_allowed_def scoped_is_allowed_def list_ex_iff)
  let ?t = "t\<lparr>scoped_grants := scoped_grants t @ [scoped_grant kind prin c (\<not> session)]\<rparr>"
  have a: "add_scoped_path_grant t kind prin c (\<not> session) = (?t, 0)"
    using add_scoped_new [OF assms(5) ne _ c(2) new] assms(6) by (simp add: TOOL_GRANT_SUBJECT_MAX_def)
  have "tool_context_request_scoped_access h m t kind prin command path session 0 = (?t, 0, Some c)"
    unfolding tool_context_request_scoped_access_def canonical_dir_existing [OF assms(2-4)]
    using assms(5,7-12) c(2) a by (auto simp: buf_size_def Let_def)
  moreover have "scoped_is_allowed h (m_fs m) ?t k q p
      \<longleftrightarrow> scoped_is_allowed h (m_fs m) t k q p \<or> (k = kind \<and> q = prin \<and> within h (m_fs m) p c)" for k q p
    by (auto simp: scoped_is_allowed_def list_ex_iff scoped_grant_def)
  moreover have "tool_context_clear_turn_grants ?t
      = (if session then (tool_context_clear_turn_grants t)
           \<lparr>scoped_grants := scoped_grants (tool_context_clear_turn_grants t) @ [scoped_grant kind prin c False]\<rparr>
         else tool_context_clear_turn_grants t)"
    by (simp add: clear_turn_grants_eq scoped_grant_def)
  ultimately show ?thesis by blast
qed

theorem scoped_grant_lifetime_witness:
  "\<exists>t'. tool_context_request_scoped_access sample_host sample_machine (sample_context (Some TOOL_OP_ALLOW)) TOOL_PATH_WRITE
         ''/bin/make'' ''make'' ''/data'' False 0 = (t', 0, Some ''/data'')
     \<and> scoped_is_allowed sample_host (m_fs sample_machine) t' TOOL_PATH_WRITE ''/bin/make'' ''/data''
     \<and> \<not> scoped_is_allowed sample_host (m_fs sample_machine) t' TOOL_PATH_WRITE ''/bin/sh'' ''/data''
     \<and> scoped_grants (tool_context_clear_turn_grants t') = []"
proof -
  let ?t = "sample_context (Some TOOL_OP_ALLOW)" and ?fs = "m_fs sample_machine"
  have r: "resolve sample_host ?fs p = Some p" if "p \<in> set sample_dirs" for p using sample_resolve_dir [OF that] .
  have w: "within sample_host ?fs ''/data'' d \<longleftrightarrow> below ''/data'' d" if "d \<in> set sample_dirs" for d
    using within_below [OF r [OF that], of "''/data''"] r [of "''/data''"] by (simp add: sample_dirs_def)
  have "\<not> already_allowed sample_host ?fs ?t TOOL_PATH_WRITE ''/bin/make'' ''/data''"
    using w by (simp add: already_allowed_def sample_context_fields scoped_write_is_allowed_def scoped_is_allowed_def
        configured_path_allowed_def sample_dirs_def below_def)
  from scoped_grant_lifetime [OF sample_realpath_ok _ _ _ _ _ _ _ _ this, of "''/data''" "''make''" "\<lambda>_. TOOL_OP_ALLOW" False]
  obtain t' where t': "tool_context_request_scoped_access sample_host sample_machine ?t TOOL_PATH_WRITE ''/bin/make'' ''make'' ''/data'' False 0
        = (t', 0, Some ''/data'')"
    "\<forall>k q p. scoped_is_allowed sample_host ?fs t' k q p \<longleftrightarrow> scoped_is_allowed sample_host ?fs ?t k q p
        \<or> (k = TOOL_PATH_WRITE \<and> q = ''/bin/make'' \<and> within sample_host ?fs p ''/data'')"
    "tool_context_clear_turn_grants t' = tool_context_clear_turn_grants ?t"
    by (auto simp: sample_context_fields file_path_is_absolute_def expand_def file_expand_path_def sample_host_def sample_realpath_def sample_dirs_def)
  have "scoped_grants (tool_context_clear_turn_grants t') = []" unfolding t'(3) by (simp add: clear_turn_grants_eq sample_context_fields)
  then show ?thesis
    using t'(1,2) w [of "''/data''"] by (simp add: sample_context_fields sample_dirs_def scoped_is_allowed_def)
qed

section \<open>Lasting grants\<close>

lemma load_loop:
  assumes "distinct (map pg_id (acc @ rows))" "distinct (map grant_key (acc @ rows))" "\<forall>g \<in> set rows. 0 < pg_id g" "list_all grant_fits rows"
  shows "each_loop load_grant None (t\<lparr>persistent_grants := acc\<rparr>) rows = (t\<lparr>persistent_grants := acc @ rows\<rparr>, 0)"
  using assms
proof (induction rows arbitrary: acc)
  case Nil
  then show ?case by (simp add: each_loop.simps)
next
  case (Cons r rows)
  have "\<not> list_ex (same_grant r) acc"
    using Cons.prems by (auto simp: list_ex_iff same_grant_def grant_key_def image_iff)
  then have "load_grant (t\<lparr>persistent_grants := acc\<rparr>) (read_row r) = (t\<lparr>persistent_grants := acc @ [r]\<rparr>, 0)"
    using Cons.prems(4) by (simp add: load_grant_def add_persistent_grant_def read_row_fits)
  then show ?case using Cons.IH [of "acc @ [r]"] Cons.prems by (simp add: each_loop.simps [of _ _ _ "r # rows"])
qed

text \<open>With a working engine a reload makes the context hold exactly the rows of its project.\<close>

lemma reload_exact:
  assumes "store_ok (m_db m)" "sql_fine (h_sql h)" "grant_db t" "grant_project_root t \<noteq> []"
  shows "tool_context_reload_persistent_grants h m t
    = (t\<lparr>persistent_grants := select_project (m_db m) (grant_project_root t)\<rparr>, 0)"
  using load_loop [of "[]" "select_project (m_db m) (grant_project_root t)" t] assms
    gs.listing_ids [OF assms(1)] gs.listing_keys [OF assms(1)] gs.listing_fits [OF assms(1)]
  by (simp add: tool_context_reload_persistent_grants_def permission_grant_each_def sql_fine_def)

lemma set_grant_store_exact:
  assumes "store_ok (m_db m)" "sql_fine (h_sql h)" "project \<noteq> []" "resolve h (m_fs m) project = Some root" "root \<noteq> []" "length root < PATH_MAX"
  shows "tool_context_set_grant_store h m t project
    = (t\<lparr>grant_project_root := root, grant_db := True, persistent_grants := select_project (m_db m) root\<rparr>, 0)"
proof -
  let ?t = "t\<lparr>grant_project_root := root, grant_db := True\<rparr>"
  have "tool_context_reload_persistent_grants h m ?t = (?t\<lparr>persistent_grants := select_project (m_db m) root\<rparr>, 0)"
    using reload_exact [OF assms(1,2), of ?t] assms(5) by simp
  then show ?thesis using assms(3-6) by (simp add: tool_context_set_grant_store_def snprintf_n_id)
qed

lemma grant_with_fits: "grant_fits (grant_with t subject kind resource)"
  by (auto simp: grant_fits_def grant_with_def snprintf_n_def PATH_MAX_def)

text \<open>
  C38. A lasting grant survives a restart: after it was saved, a new context that is attached to the same project holds the new grant
  and those the project had before, and nothing else.
\<close>

theorem lasting_grant_survives_restart:
  assumes "store_ok (m_db m)" "sql_fine (h_sql h)"
    and "grant_db t" "grant_project_root t = root" "root \<noteq> []" "length root < 4096"
    and "subject \<noteq> []" "length subject < 256" "kind \<noteq> []" "length kind < 32" "resource \<noteq> []" "length resource < 4096"
    and "save_grant h m t subject kind resource = (m', t', rc)"
    and "project \<noteq> []" "resolve h (m_fs m) project = Some root"
  shows "rc = 0 \<and> (\<exists>t2'. tool_context_set_grant_store h m' t2 project = (t2', 0)
    \<and> grant_key ` set (persistent_grants t2') = insert (subject, kind, resource) (grant_key ` set (select_project (m_db m) root)))"
proof -
  let ?g = "grant_with t subject kind resource"
  have l: "length root < PATH_MAX" "length resource < PATH_MAX" using assms(6,12) by (simp_all add: PATH_MAX_def)
  have k: "grant_key ?g = (subject, kind, resource)" "pg_project_root ?g = root"
    using assms(4,8,10) l by (simp_all add: grant_key_def grant_with_def snprintf_n_id)
  let ?db = "insert_or_ignore (h_sql h) (m_db m) ?g"
  have s: "permission_grant_save (h_sql h) (m_db m) ?g = (?db, 0)"
    using assms(2,5,7,9,11) k by (auto simp: permission_grant_save_def sql_fine_def grant_key_def)
  have m': "m' = m\<lparr>m_db := ?db\<rparr>" "rc = 0" using assms(3-5,13) save_grant_fine [OF assms(2,7,9,11), of m t] by auto
  have o: "store_ok ?db" by (rule gs.save_ok [OF assms(1) grant_with_fits s])
  have "tool_context_set_grant_store h m' t2 project
      = (t2\<lparr>grant_project_root := root, grant_db := True, persistent_grants := select_project ?db root\<rparr>, 0)"
    using set_grant_store_exact [of m' h project root t2] assms(2,5,14,15) l o m' by simp
  then show ?thesis using gs.save_listing [OF assms(1) s, of root] k m'(2) by auto
qed

theorem lasting_grant_survives_restart_witness:
  "\<exists>m' t' t2'. save_grant sample_host sample_machine ((sample_context None)\<lparr>grant_db := True, grant_project_root := ''/work''\<rparr>)
         ''tool:*'' ''read_path'' ''/data'' = (m', t', 0)
     \<and> tool_context_set_grant_store sample_host m' (sample_context None) ''/work'' = (t2', 0)
     \<and> grant_key ` set (persistent_grants t2') = {(''tool:*'', ''read_path'', ''/data'')}"
proof -
  let ?t = "(sample_context None)\<lparr>grant_db := True, grant_project_root := ''/work''\<rparr>"
  obtain m' t' rc where s: "save_grant sample_host sample_machine ?t ''tool:*'' ''read_path'' ''/data'' = (m', t', rc)" by (metis prod_cases3)
  have "store_ok (m_db sample_machine)" by (simp add: store_ok_def sample_machine_def table_ok_empty) (simp add: empty_table_def)
  from lasting_grant_survives_restart [OF this sample_sql_fine _ _ _ _ _ _ _ _ _ _ s, of "''/work''" "''/work''" "sample_context None"]
  show ?thesis
    using s sample_resolve_dir [of "''/work''" "m_fs sample_machine"]
    by (auto simp: sample_dirs_def sample_machine_def empty_table_def select_project_mem)
qed

text \<open>
  Revoking a subject takes effect with the next reload: the context then holds exactly the grants of its project whose subject is
  another one, and the grants of other projects are as before.
\<close>

theorem revocation_takes_effect:
  assumes "store_ok (m_db m)" "sql_fine (h_sql h)" "grant_db t" "grant_project_root t = root" "root \<noteq> []" "subject \<noteq> []"
    and "permission_grant_delete_subject (h_sql h) (m_db m) root subject = (db', rc, deleted)"
  shows "rc = 0 \<and> deleted = length (filter (\<lambda>g. pg_subject g = subject) (select_project (m_db m) root))
    \<and> tool_context_reload_persistent_grants h (m\<lparr>m_db := db'\<rparr>) t
        = (t\<lparr>persistent_grants := filter (\<lambda>g. pg_subject g \<noteq> subject) (select_project (m_db m) root)\<rparr>, 0)
    \<and> (\<forall>root'. root' \<noteq> root \<longrightarrow> select_project db' root' = select_project (m_db m) root')"
proof -
  have o: "table_ok (m_db m)" using assms(1) by (simp add: store_ok_def)
  have d: "rc = 0" "deleted = length (filter (\<lambda>g. pg_subject g = subject) (select_project (m_db m) root))"
    using assms(2,5-7) unfolding select_project_filter [OF o]
    by (auto simp: permission_grant_delete_subject_def delete_grants_def sql_fine_def conj_commute)
  then have r: "permission_grant_delete_subject (h_sql h) (m_db m) root subject = (db', 0, deleted)" using assms(7) by simp
  have "tool_context_reload_persistent_grants h (m\<lparr>m_db := db'\<rparr>) t = (t\<lparr>persistent_grants := select_project db' root\<rparr>, 0)"
    using reload_exact [of "m\<lparr>m_db := db'\<rparr>" h t] gs.revoke_ok [OF assms(1) r] assms(2-5) by simp
  then show ?thesis using d gs.revoke_listing [OF assms(1) r] by simp
qed

theorem revocation_takes_effect_witness:
  "\<exists>db g. store_ok db \<and> permission_grant_delete_subject sample_sql db ''/work'' ''echo'' = (empty_table\<lparr>gt_next := 2\<rparr>, 0, 1)
     \<and> g \<in> set (select_project db ''/work'')
     \<and> tool_context_reload_persistent_grants sample_host (sample_machine\<lparr>m_db := empty_table\<lparr>gt_next := 2\<rparr>\<rparr>)
         ((sample_context None)\<lparr>grant_db := True, grant_project_root := ''/work''\<rparr>)
       = ((sample_context None)\<lparr>grant_db := True, grant_project_root := ''/work'', persistent_grants := []\<rparr>, 0)"
proof -
  let ?g = "\<lparr>pg_id = 1, pg_subject = ''echo'', pg_resource_kind = ''command'', pg_resource = ''echo'', pg_project_root = ''/work'',
      pg_created_at = 1000\<rparr>"
  let ?db = "\<lparr>gt_rows = [?g], gt_next = 2\<rparr>" and ?t = "(sample_context None)\<lparr>grant_db := True, grant_project_root := ''/work''\<rparr>"
  have o: "store_ok ?db" by (simp add: store_ok_def table_ok_def grant_fits_def PATH_MAX_def)
  have q: "h_sql sample_host = sample_sql" by (simp add: sample_host_def)
  have d: "permission_grant_delete_subject sample_sql ?db ''/work'' ''echo'' = (empty_table\<lparr>gt_next := 2\<rparr>, 0, 1)"
    by (simp add: permission_grant_delete_subject_def delete_grants_def sample_sql_def empty_table_def)
  have s: "select_project ?db ''/work'' = [?g]" by (simp add: select_project_def)
  have "tool_context_reload_persistent_grants sample_host (sample_machine\<lparr>m_db := empty_table\<lparr>gt_next := 2\<rparr>\<rparr>) ?t
      = (?t\<lparr>persistent_grants := []\<rparr>, 0)"
    using revocation_takes_effect [of "sample_machine\<lparr>m_db := ?db\<rparr>" sample_host ?t "''/work''" "''echo''" "empty_table\<lparr>gt_next := 2\<rparr>" 0 1]
      o d s q sample_sql_fine by simp
  then show ?thesis using o d s by (intro exI [of _ ?db] exI [of _ ?g]) simp
qed

section \<open>Bounds of the tables\<close>

text \<open>Every list fits its array and every entry its buffer; remembered commands are not empty and the names of environment
  variables are well formed.\<close>

definition dirs_ok :: "string list \<Rightarrow> bool" where
  "dirs_ok ds = (length ds \<le> TOOL_CONTEXT_ALLOW_MAX \<and> list_all (\<lambda>d. length d < PATH_MAX) ds)"

definition commands_ok :: "string list \<Rightarrow> bool" where
  "commands_ok cs = (length cs \<le> TOOL_CONTEXT_ALLOW_MAX \<and> list_all (\<lambda>c. c \<noteq> [] \<and> length c < TOOL_CONTEXT_ACTION_MAX) cs)"

definition env_ok :: "string list \<Rightarrow> bool" where
  "env_ok es = (length es \<le> TOOL_CONTEXT_ALLOW_MAX
     \<and> list_all (\<lambda>e. e \<noteq> [] \<and> length e < TOOL_CONTEXT_ENV_NAME_MAX \<and> env_start_char (hd e) \<and> list_all env_name_char (tl e)) es \<and> distinct es)"

definition scoped_ok :: "tool_scoped_grant list \<Rightarrow> bool" where
  "scoped_ok gs = list_all (\<lambda>g. length (sg_subject g) < TOOL_GRANT_SUBJECT_MAX \<and> length (sg_path g) < PATH_MAX) gs"

definition tc_ok :: "tool_context \<Rightarrow> bool" where
  "tc_ok t = (length (workdir t) < PATH_MAX \<and> length (output_dir t) < PATH_MAX \<and> length (grant_project_root t) < PATH_MAX
     \<and> dirs_ok (read_allowed_dirs t) \<and> dirs_ok (write_allowed_dirs t) \<and> dirs_ok (exec_allowed_dirs t)
     \<and> dirs_ok (bash_exec_server_read_dirs t) \<and> dirs_ok (bash_exec_server_write_dirs t) \<and> dirs_ok (bash_exec_server_delete_dirs t)
     \<and> dirs_ok (bash_exec_profile_write_dirs t) \<and> dirs_ok (bash_exec_profile_delete_dirs t)
     \<and> commands_ok (allowed_commands t) \<and> env_ok (bash_exec_server_allowed_env t) \<and> scoped_ok (scoped_grants t)
     \<and> list_all grant_fits (persistent_grants t) \<and> 0 \<le> default_timeout_seconds t)"

lemma strncpy_fixed_length: "0 < n \<Longrightarrow> length (strncpy_fixed n s) < n"
  by (simp add: strncpy_fixed_def)

lemma PATH_MAX_pos [simp]: "0 < PATH_MAX" by (simp add: PATH_MAX_def)

lemma dirs_ok_Nil [simp]: "dirs_ok []" by (simp add: dirs_ok_def)

lemma add_allowed_dir_ok: "dirs_ok ds \<Longrightarrow> dirs_ok (add_allowed_dir h fs ds d)"
  by (auto simp: dirs_ok_def add_allowed_dir_def Let_def strncpy_fixed_length)

lemma add_parent_dir_ok: "dirs_ok ds \<Longrightarrow> dirs_ok (add_parent_dir h fs ds d)"
  by (simp add: add_parent_dir_def add_allowed_dir_ok split: option.splits)

lemma add_configured_dir_ok: "dirs_ok ds \<Longrightarrow> add_configured_dir h fs ds d = (ds', rc) \<Longrightarrow> dirs_ok ds'"
  by (auto simp: add_configured_dir_def Let_def add_allowed_dir_ok)

lemma widen_grant_ok: "scoped_ok gs \<Longrightarrow> widen_grant k s p b gs = Some gs' \<Longrightarrow> scoped_ok gs'"
  by (induction gs arbitrary: gs') (auto simp: scoped_ok_def split: if_splits)

lemma tc_ok_scoped: "tc_ok t \<Longrightarrow> scoped_ok gs \<Longrightarrow> tc_ok (t\<lparr>scoped_grants := gs\<rparr>)"
  by (simp add: tc_ok_def)

lemma tc_ok_persistent: "tc_ok t \<Longrightarrow> list_all grant_fits gs \<Longrightarrow> tc_ok (t\<lparr>persistent_grants := gs\<rparr>)"
  by (simp add: tc_ok_def)

lemma add_scoped_ok: "tc_ok t \<Longrightarrow> add_scoped_path_grant t k s p b = (t', rc) \<Longrightarrow> tc_ok t'"
proof -
  assume t: "tc_ok t" and a: "add_scoped_path_grant t k s p b = (t', rc)"
  then have "scoped_ok (scoped_grants t)" by (simp add: tc_ok_def)
  moreover have "length (snprintf_n TOOL_GRANT_SUBJECT_MAX s) < TOOL_GRANT_SUBJECT_MAX" "length (snprintf_n PATH_MAX p) < PATH_MAX"
    by (intro snprintf_n_length, simp add: TOOL_GRANT_SUBJECT_MAX_def) (intro snprintf_n_length, simp)
  ultimately show ?thesis
    using a t widen_grant_ok [of "scoped_grants t" k s p b]
    by (auto simp: add_scoped_path_grant_def split: if_splits option.splits intro!: tc_ok_scoped) (simp_all add: scoped_ok_def)
qed

lemma add_persistent_ok: "tc_ok t \<Longrightarrow> grant_fits g \<Longrightarrow> add_persistent_grant t g = (t', rc) \<Longrightarrow> tc_ok t'"
  by (auto simp: add_persistent_grant_def split: if_splits intro!: tc_ok_persistent) (simp_all add: tc_ok_def)

lemma save_grant_ok: "tc_ok t \<Longrightarrow> save_grant h m t s k r = (m', t', rc) \<Longrightarrow> tc_ok t'"
  using add_persistent_ok [OF _ grant_with_fits [of t s k r], of t]
  by (auto simp: save_grant_def Let_def grant_with_def split: if_splits prod.splits)

lemma read_row_fits_always: "grant_fits (read_row g)"
  by (auto simp: grant_fits_def read_row_def snprintf_n_def PATH_MAX_def)

lemma load_loop_ok: "tc_ok t \<Longrightarrow> each_loop load_grant n t rows = (t', rc) \<Longrightarrow> tc_ok t'"
proof (induction rows arbitrary: t n)
  case Nil
  then show ?case by (auto simp: each_loop.simps split: if_splits)
next
  case (Cons r rows)
  have "tc_ok t1" if "load_grant t (read_row r) = (t1, rc1)" for t1 rc1
    using add_persistent_ok [OF Cons.prems(1) read_row_fits_always] that by (simp add: load_grant_def)
  then show ?case using Cons by (auto simp: each_loop.simps [of _ _ _ "r # rows"] split: if_splits prod.splits)
qed

lemma reload_ok: "tc_ok t \<Longrightarrow> tool_context_reload_persistent_grants h m t = (t', rc) \<Longrightarrow> tc_ok t'"
  using load_loop_ok [OF tc_ok_persistent [of t "[]"]]
  by (auto simp: tool_context_reload_persistent_grants_def permission_grant_each_def tc_ok_persistent split: if_splits)

lemma set_grant_store_ok: "tc_ok t \<Longrightarrow> tool_context_set_grant_store h m t p = (t', rc) \<Longrightarrow> tc_ok t'"
proof -
  assume t: "tc_ok t" and a: "tool_context_set_grant_store h m t p = (t', rc)"
  have "tc_ok (t\<lparr>grant_project_root := snprintf_n PATH_MAX r, grant_db := True\<rparr>)" for r
    using t snprintf_n_length [of PATH_MAX r] by (simp add: tc_ok_def)
  moreover have "tc_ok u \<Longrightarrow> tc_ok (u\<lparr>grant_db := False, grant_project_root := []\<rparr>)" for u by (simp add: tc_ok_def)
  ultimately show ?thesis
    using a t reload_ok by (auto simp: tool_context_set_grant_store_def split: if_splits option.splits prod.splits) blast+
qed

lemma allow_command_ok: "tc_ok t \<Longrightarrow> tool_context_allow_command_pattern t p = (t', rc) \<Longrightarrow> tc_ok t'"
  by (auto simp: tool_context_allow_command_pattern_def tc_ok_def commands_ok_def snprintf_n_id split: if_splits)

lemma allow_scope_ok: "tc_ok t \<Longrightarrow> tool_context_allow_command_scope h fs t p = (t', rc) \<Longrightarrow> tc_ok t'"
  by (auto simp: tool_context_allow_command_scope_def tc_ok_def dirs_ok_def snprintf_n_length split: if_splits sum.splits)

lemma grant_write_ok: "tc_ok t \<Longrightarrow> tool_context_grant_write_access h m t s p c v n = (m', t', rc, r) \<Longrightarrow> tc_ok t'"
  by (auto simp: tool_context_grant_write_access_def Let_def split: if_splits sum.splits prod.splits
      dest: add_scoped_ok save_grant_ok)

lemma grant_directories_ok: "tc_ok t \<Longrightarrow> grant_directories h m t s v ds = (m', t', rc) \<Longrightarrow> tc_ok t'"
  by (induction ds arbitrary: m t) (auto split: prod.splits if_splits dest: grant_write_ok)

lemma persist_command_ok: "tc_ok t \<Longrightarrow> persist_command h m t op v c = (m', t') \<Longrightarrow> tc_ok t'"
  by (auto simp: persist_command_def split: sum.splits if_splits prod.splits dest: save_grant_ok allow_command_ok)

lemma persist_cwd_ok: "tc_ok t \<Longrightarrow> persist_cwd h m t op v c = (m', t') \<Longrightarrow> tc_ok t'"
  by (auto simp: persist_cwd_def split: if_splits prod.splits dest: save_grant_ok allow_scope_ok)

lemma persist_answer_ok:
  assumes "tc_ok t"
    "(if b then persist_command h m t op v c else (m, t)) = (m1, t1)"
    "(if b' then persist_cwd h m1 t1 op v d else (m1, t1)) = (m2, t2)"
  shows "tc_ok t2"
proof -
  have "tc_ok t1" using assms(1,2) persist_command_ok [of t h m op v c] by (auto split: if_splits)
  then show ?thesis using assms(3) persist_cwd_ok [of t1 h m1 op v d] by (auto split: if_splits)
qed

lemma check_command_ok:
  assumes t: "tc_ok t" and c: "check_command_operation h m t op v = (m', t', rc, v')"
  shows "tc_ok t'"
proof -
  consider "t' = t"
    | f m1 t1 where "grant_directories h m t (or_else (op_principal op) ''shell'') (f op) (op_directories op) = (m1, t1, rc)" "t' = t1"
    | f b b' c d m1 t1 m2 t2 m3 where "grant_directories h m t (or_else (op_principal op) ''shell'') (f op) (op_directories op) = (m1, t1, 0)"
      "(if b then persist_command h m1 t1 op (f op) c else (m1, t1)) = (m2, t2)"
      "(if b' then persist_cwd h m2 t2 op (f op) d else (m2, t2)) = (m3, t')"
    using c unfolding check_command_operation_def Let_def by (simp split: option.splits if_split_asm prod.splits) metis+
  then show ?thesis
  proof cases
    case 2
    then show ?thesis using grant_directories_ok [OF t] by blast
  next
    case 3
    then show ?thesis using persist_answer_ok [OF grant_directories_ok [OF t 3(1)] 3(2,3)] by blast
  qed (use t in simp)
qed

lemma tc_ok_dirs:
  "tc_ok t \<Longrightarrow> tc_ok (t\<lparr>write_allowed_dirs := add_parent_dir h fs (write_allowed_dirs t) p\<rparr>)"
  "tc_ok t \<Longrightarrow> tc_ok (t\<lparr>read_allowed_dirs := add_parent_dir h fs (read_allowed_dirs t) p\<rparr>)"
  by (simp_all add: tc_ok_def add_parent_dir_ok)

lemma check_path_ok: "tc_ok t \<Longrightarrow> check_path_operation h m t op = (m', t', rc) \<Longrightarrow> tc_ok t'"
  by (auto simp: check_path_operation_def Let_def tc_ok_dirs split: option.splits if_split_asm prod.splits dest: save_grant_ok [rotated])

lemma check_operation_ok: "tc_ok t \<Longrightarrow> tool_context_check_operation_verdict h m t op = (m', t', rc, v) \<Longrightarrow> tc_ok t'"
  by (auto simp: tool_context_check_operation_verdict_def split: tool_operation_kind.splits option.splits prod.splits
      dest: check_command_ok check_path_ok)

lemma authorize_ok: "tc_ok t \<Longrightarrow> tool_context_authorize_path h m t op p n = (m', t', rc, r) \<Longrightarrow> tc_ok t'"
  by (auto simp: tool_context_authorize_path_def tool_context_check_operation_def split: sum.splits if_splits prod.splits
      dest: check_operation_ok)

lemma request_write_ok: "tc_ok t \<Longrightarrow> tool_context_request_write_access h m t s c p n = (m', t', rc, r) \<Longrightarrow> tc_ok t'"
  by (auto simp: tool_context_request_write_access_def Let_def split: option.splits if_splits prod.splits dest: grant_write_ok)

lemma request_delete_ok: "tc_ok t \<Longrightarrow> tool_context_request_delete_access h m t s c p n = (t', rc, r) \<Longrightarrow> tc_ok t'"
  by (auto simp: tool_context_request_delete_access_def Let_def split: option.splits if_splits prod.splits dest: add_scoped_ok)

lemma grant_delete_ok: "tc_ok t \<Longrightarrow> tool_context_grant_delete_access h m t s p n = (t', rc, r) \<Longrightarrow> tc_ok t'"
  by (auto simp: tool_context_grant_delete_access_def split: sum.splits if_splits prod.splits dest: add_scoped_ok)

lemma request_scoped_ok: "tc_ok t \<Longrightarrow> tool_context_request_scoped_access h m t k s c p b n = (t', rc, r) \<Longrightarrow> tc_ok t'"
  by (auto simp: tool_context_request_scoped_access_def Let_def split: sum.splits option.splits if_splits prod.splits dest: add_scoped_ok)

lemma clear_turn_ok: "tc_ok t \<Longrightarrow> tc_ok (tool_context_clear_turn_grants t)"
  by (auto simp: clear_turn_grants_eq intro!: tc_ok_scoped) (auto simp: tc_ok_def scoped_ok_def list_all_iff)

lemma server_env_ok: "tc_ok t \<Longrightarrow> tool_context_add_bash_exec_server_env t n = (t', rc) \<Longrightarrow> tc_ok t'"
  by (auto simp: tool_context_add_bash_exec_server_env_def tc_ok_def env_ok_def strncpy_fixed_id split: if_splits)

lemma server_path_ok: "tc_ok t \<Longrightarrow> tool_context_add_bash_exec_server_path h fs t op p = (t', rc) \<Longrightarrow> tc_ok t'"
  by (auto simp: tool_context_add_bash_exec_server_path_def split: if_splits option.splits sum.splits tool_path_op.splits prod.splits)
    (auto simp: tc_ok_def dest: add_configured_dir_ok [rotated])

lemma profile_path_ok: "tc_ok t \<Longrightarrow> tool_context_add_bash_exec_profile_path h fs t op p = (t', rc) \<Longrightarrow> tc_ok t'"
  by (auto simp: tool_context_add_bash_exec_profile_path_def split: if_splits sum.splits prod.splits)
    (auto simp: tc_ok_def dest: add_configured_dir_ok [rotated])

lemma create_ok: "tc_ok (tool_context_create h fs wd od)"
proof -
  have "length (resolve_into h fs x) < PATH_MAX" for x
    by (auto simp: resolve_into_def strncpy_fixed_length split: option.splits)
  then show ?thesis
    by (simp add: tc_ok_def tool_context_create_def Let_def add_allowed_dir_ok commands_ok_def env_ok_def scoped_ok_def)
qed

text \<open>The contexts a program can have: a new one, changed by any sequence of the operations, each with its own host and machine.\<close>

inductive tc_reach :: "tool_context \<Rightarrow> bool" where
  create: "tc_reach (tool_context_create h fs wd od)"
| timeout: "tc_reach t \<Longrightarrow> tc_reach (tool_context_set_default_timeout t n)"
| approval: "tc_reach t \<Longrightarrow> tc_reach (tool_context_set_operation_approval t f)"
| mode: "tc_reach t \<Longrightarrow> tc_reach (tool_context_set_bash_exec_mode t md)"
| network: "tc_reach t \<Longrightarrow> tc_reach (tool_context_set_bash_exec_server_network t b)"
| read_dir: "tc_reach t \<Longrightarrow> tc_reach (tool_context_add_read_allowed_dir h fs t d)"
| write_dir: "tc_reach t \<Longrightarrow> tc_reach (tool_context_add_write_allowed_dir h fs t d)"
| pattern: "tc_reach t \<Longrightarrow> tool_context_allow_command_pattern t p = (t', rc) \<Longrightarrow> tc_reach t'"
| scope: "tc_reach t \<Longrightarrow> tool_context_allow_command_scope h fs t p = (t', rc) \<Longrightarrow> tc_reach t'"
| server_env: "tc_reach t \<Longrightarrow> tool_context_add_bash_exec_server_env t nm = (t', rc) \<Longrightarrow> tc_reach t'"
| server_path: "tc_reach t \<Longrightarrow> tool_context_add_bash_exec_server_path h fs t op p = (t', rc) \<Longrightarrow> tc_reach t'"
| profile_path: "tc_reach t \<Longrightarrow> tool_context_add_bash_exec_profile_path h fs t op p = (t', rc) \<Longrightarrow> tc_reach t'"
| store: "tc_reach t \<Longrightarrow> tool_context_set_grant_store h m t p = (t', rc) \<Longrightarrow> tc_reach t'"
| reload: "tc_reach t \<Longrightarrow> tool_context_reload_persistent_grants h m t = (t', rc) \<Longrightarrow> tc_reach t'"
| check: "tc_reach t \<Longrightarrow> tool_context_check_operation_verdict h m t oper = (m', t', rc, v) \<Longrightarrow> tc_reach t'"
| authorize: "tc_reach t \<Longrightarrow> tool_context_authorize_path h m t op p n = (m', t', rc, r) \<Longrightarrow> tc_reach t'"
| request_write: "tc_reach t \<Longrightarrow> tool_context_request_write_access h m t s c p n = (m', t', rc, r) \<Longrightarrow> tc_reach t'"
| request_delete: "tc_reach t \<Longrightarrow> tool_context_request_delete_access h m t s c p n = (t', rc, r) \<Longrightarrow> tc_reach t'"
| request_scoped: "tc_reach t \<Longrightarrow> tool_context_request_scoped_access h m t op s cmd p b n = (t', rc, r) \<Longrightarrow> tc_reach t'"
| grant_write: "tc_reach t \<Longrightarrow> tool_context_grant_write_access h m t s p b v n = (m', t', rc, r) \<Longrightarrow> tc_reach t'"
| grant_delete: "tc_reach t \<Longrightarrow> tool_context_grant_delete_access h m t s p n = (t', rc, r) \<Longrightarrow> tc_reach t'"
| clear_turn: "tc_reach t \<Longrightarrow> tc_reach (tool_context_clear_turn_grants t)"

text \<open>
  C39. Whatever sequence of operations a context went through, under whatever answers of the user, the file system and the data base:
  no table exceeds its 32 entries, every stored path, pattern, subject and name fits its buffer, and the names of environment variables
  passed on in the server mode are distinct identifiers.
\<close>

theorem tool_context_bounds:
  assumes "tc_reach t"
  shows "tc_ok t"
  using assms
proof induction
  case (create h fs wd od)
  then show ?case by (rule create_ok)
next
  case (timeout t n)
  then show ?case by (simp add: tool_context_set_default_timeout_def tc_ok_def)
next
  case (approval t f)
  then show ?case by (simp add: tool_context_set_operation_approval_def tc_ok_def)
next
  case (mode t md)
  then show ?case by (simp add: tool_context_set_bash_exec_mode_def tc_ok_def)
next
  case (network t b)
  then show ?case by (simp add: tool_context_set_bash_exec_server_network_def tc_ok_def)
next
  case (read_dir t h fs d)
  then show ?case by (simp add: tool_context_add_read_allowed_dir_def tc_ok_def add_allowed_dir_ok)
next
  case (write_dir t h fs d)
  then show ?case by (simp add: tool_context_add_write_allowed_dir_def tc_ok_def add_allowed_dir_ok)
qed (erule (1) allow_command_ok allow_scope_ok server_env_ok server_path_ok profile_path_ok set_grant_store_ok reload_ok check_operation_ok
    authorize_ok request_write_ok request_delete_ok request_scoped_ok grant_write_ok grant_delete_ok | erule clear_turn_ok)+

theorem tool_context_bounds_witness:
  "\<exists>t. allowed_commands t = [''git''] \<and> tc_ok t"
proof -
  let ?t = "tool_context_create sample_host (\<lambda>_. None) (Some ''/work'') (Some ''/out'')"
  have "tool_context_allow_command_pattern ?t ''git'' = (?t\<lparr>allowed_commands := [''git'']\<rparr>, 0)"
    by (simp add: tool_context_allow_command_pattern_def tool_context_create_def Let_def TOOL_CONTEXT_ACTION_MAX_def
        TOOL_CONTEXT_ALLOW_MAX_def snprintf_n_def)
  from tool_context_bounds [OF tc_reach.pattern [OF tc_reach.create this]] show ?thesis
    by (intro exI [of _ "?t\<lparr>allowed_commands := [''git'']\<rparr>"]) simp
qed

end
