(* ===== verification/Json.thy ===== *)
theory Json
  imports Prelude
begin

text \<open>
  The trees of \<open>vendor/cJSON.c\<close> as the agent's own code uses them, and the error codes of
  \<open>src/util/error.c\<close> that accompany them.  An object keeps its members in order and may hold the
  same name twice; \<open>cJSON_GetObjectItem\<close> finds the first member whose name agrees up to ASCII
  case, as \<open>get_object_item\<close> does.  A number is of a type \<open>'d\<close> of the caller's choosing (a C
  \<open>double\<close>).

  Every call that builds a tree may run out of memory.  The answers of the allocator are a list of
  booleans, consumed one per call (an exhausted list grants everything); a call that fails is
  \<open>None\<close>.
\<close>

section \<open>Trees\<close>

datatype 'd json =
    cJSON_False | cJSON_True | cJSON_NULL
  | cJSON_Number 'd
  | cJSON_String string
  | cJSON_Array "'d json list"
  | cJSON_Object "(string \<times> 'd json) list"

type_synonym 'd members = "(string \<times> 'd json) list"

definition tolower :: "char \<Rightarrow> char" where
  "tolower c = (let n = of_char c :: nat in if 65 \<le> n \<and> n \<le> 90 then char_of (n + 32) else c)"

definition case_insensitive_eq :: "string \<Rightarrow> string \<Rightarrow> bool" where
  "case_insensitive_eq s t \<longleftrightarrow> map tolower s = map tolower t"

fun find_member :: "'d members \<Rightarrow> string \<Rightarrow> 'd json option" where
  "find_member [] name = None"
| "find_member ((k, v) # ms) name = (if case_insensitive_eq name k then Some v else find_member ms name)"

text \<open>Only an object has children with names: the lookup in anything else finds nothing.\<close>

definition cJSON_GetObjectItem :: "'d json option \<Rightarrow> string \<Rightarrow> 'd json option" where
  "cJSON_GetObjectItem obj name = (case obj of Some (cJSON_Object ms) \<Rightarrow> find_member ms name | _ \<Rightarrow> None)"

fun delete_member :: "'d members \<Rightarrow> string \<Rightarrow> 'd members" where
  "delete_member [] name = []"
| "delete_member ((k, v) # ms) name =
     (if case_insensitive_eq name k then ms else (k, v) # delete_member ms name)"

definition cJSON_IsString :: "'d json option \<Rightarrow> bool" where
  "cJSON_IsString j \<longleftrightarrow> (case j of Some (cJSON_String _) \<Rightarrow> True | _ \<Rightarrow> False)"

definition cJSON_IsObject :: "'d json option \<Rightarrow> bool" where
  "cJSON_IsObject j \<longleftrightarrow> (case j of Some (cJSON_Object _) \<Rightarrow> True | _ \<Rightarrow> False)"

definition cJSON_IsArray :: "'d json option \<Rightarrow> bool" where
  "cJSON_IsArray j \<longleftrightarrow> (case j of Some (cJSON_Array _) \<Rightarrow> True | _ \<Rightarrow> False)"

definition cJSON_IsFalse :: "'d json option \<Rightarrow> bool" where
  "cJSON_IsFalse j \<longleftrightarrow> (case j of Some cJSON_False \<Rightarrow> True | _ \<Rightarrow> False)"

definition cJSON_GetStringValue :: "'d json option \<Rightarrow> string option" where
  "cJSON_GetStringValue j = (case j of Some (cJSON_String s) \<Rightarrow> Some s | _ \<Rightarrow> None)"

section \<open>Building trees\<close>

type_synonym allocs = "bool list"

fun alloc :: "allocs \<Rightarrow> bool \<times> allocs" where
  "alloc [] = (True, [])"
| "alloc (b # bs) = (b, bs)"

text \<open>\<open>cJSON_CreateObject\<close>, \<open>cJSON_CreateArray\<close> and \<open>cJSON_Duplicate\<close>: the tree, unless memory
  runs out.\<close>

definition cJSON_create :: "allocs \<Rightarrow> 'a \<Rightarrow> ('a \<times> allocs) option" where
  "cJSON_create bs x = (let (ok, bs') = alloc bs in if ok then Some (x, bs') else None)"

text \<open>\<open>cJSON_AddItemToObject\<close>: a new member at the end.\<close>

definition cJSON_AddItemToObject :: "allocs \<Rightarrow> 'd members \<Rightarrow> string \<Rightarrow> 'd json \<Rightarrow> ('d members \<times> allocs) option" where
  "cJSON_AddItemToObject bs ms name item = cJSON_create bs (ms @ [(name, item)])"

text \<open>The same where the caller ignores the result: without memory the member is missing.\<close>

definition add_or_skip :: "allocs \<Rightarrow> 'd members \<Rightarrow> string \<Rightarrow> 'd json \<Rightarrow> 'd members \<times> allocs" where
  "add_or_skip bs ms name item = (let (ok, bs') = alloc bs in (if ok then ms @ [(name, item)] else ms, bs'))"

section \<open>Facts\<close>

lemma case_insensitive_eq_refl [simp]: "case_insensitive_eq s s"
  by (simp add: case_insensitive_eq_def)

lemma case_insensitive_eq_sym: "case_insensitive_eq s t \<longleftrightarrow> case_insensitive_eq t s"
  by (auto simp: case_insensitive_eq_def)

lemma find_member_append:
  "find_member (ms @ ns) name = (case find_member ms name of None \<Rightarrow> find_member ns name | Some v \<Rightarrow> Some v)"
  by (induction ms name rule: find_member.induct) auto

lemma find_member_cong: "case_insensitive_eq a b \<Longrightarrow> find_member ms a = find_member ms b"
  by (induction ms) (auto simp: case_insensitive_eq_def)

lemma find_member_None: "find_member ms name = None \<longleftrightarrow> (\<forall>k \<in> fst ` set ms. \<not> case_insensitive_eq name k)"
  by (induction ms name rule: find_member.induct) auto

lemma find_member_delete_other:
  "\<not> case_insensitive_eq a b \<Longrightarrow> find_member (delete_member ms a) b = find_member ms b"
  by (induction ms a rule: delete_member.induct) (auto simp: case_insensitive_eq_def)

lemma set_delete_member: "set (delete_member ms name) \<subseteq> set ms"
  by (induction ms name rule: delete_member.induct) auto

lemma alloc_cases: "\<exists>b bs'. alloc bs = (b, bs')"
  by (cases "alloc bs") blast

lemma create_SomeD: "cJSON_create bs x = Some (y, bs') \<Longrightarrow> y = x"
  by (auto simp: cJSON_create_def split: prod.splits if_splits)

lemma add_item_SomeD: "cJSON_AddItemToObject bs ms name item = Some (ms', bs') \<Longrightarrow> ms' = ms @ [(name, item)]"
  by (auto simp: cJSON_AddItemToObject_def dest: create_SomeD)

lemma bind_pairE:
  assumes "Option.bind a (\<lambda>(x, y). f x y) = Some c"
  obtains x y where "a = Some (x, y)" "f x y = Some c"
  using assms by (auto split: Option.bind_splits)

text \<open>The names of an object are unambiguous: no two agree up to case.\<close>

definition names_distinct :: "'d members \<Rightarrow> bool" where
  "names_distinct ms \<longleftrightarrow> distinct (map (map tolower \<circ> fst) ms)"

lemma names_distinct_snoc:
  "names_distinct (ms @ [(k, v)]) \<longleftrightarrow> names_distinct ms \<and> find_member ms k = None"
  by (auto simp: names_distinct_def find_member_None case_insensitive_eq_def)

lemma names_distinct_delete: "names_distinct ms \<Longrightarrow> names_distinct (delete_member ms name)"
proof (induction ms name rule: delete_member.induct)
  case (2 k v ms name)
  then show ?case using set_delete_member [of ms name]
    by (fastforce simp: names_distinct_def)
qed simp

lemma find_member_delete_same:
  "names_distinct ms \<Longrightarrow> find_member (delete_member ms name) name = None"
proof (induction ms name rule: delete_member.induct)
  case (2 k v ms name)
  then show ?case
    by (auto simp: names_distinct_def find_member_None case_insensitive_eq_def rev_image_eqI)
qed simp

section \<open>Error codes\<close>

definition MORPH_ERR_BASE :: int where
  "MORPH_ERR_BASE = - 256"

abbreviation (input) MORPH_ERR_NOT_CONFIGURED :: int where "MORPH_ERR_NOT_CONFIGURED \<equiv> - 257"
abbreviation (input) MORPH_ERR_NOT_INITIALIZED :: int where "MORPH_ERR_NOT_INITIALIZED \<equiv> - 258"
abbreviation (input) MORPH_ERR_API :: int where "MORPH_ERR_API \<equiv> - 259"
abbreviation (input) MORPH_ERR_NETWORK :: int where "MORPH_ERR_NETWORK \<equiv> - 260"
abbreviation (input) MORPH_ERR_PARSE :: int where "MORPH_ERR_PARSE \<equiv> - 261"
abbreviation (input) MORPH_ERR_PROTOCOL :: int where "MORPH_ERR_PROTOCOL \<equiv> - 262"
abbreviation (input) MORPH_ERR_DB :: int where "MORPH_ERR_DB \<equiv> - 263"
abbreviation (input) MORPH_ERR_FORMAT :: int where "MORPH_ERR_FORMAT \<equiv> - 264"
abbreviation (input) MORPH_ERR_PROCESSING :: int where "MORPH_ERR_PROCESSING \<equiv> - 265"
abbreviation (input) MORPH_ERR_SANDBOX :: int where "MORPH_ERR_SANDBOX \<equiv> - 266"
abbreviation (input) MORPH_ERR_LOAD :: int where "MORPH_ERR_LOAD \<equiv> - 267"
abbreviation (input) MORPH_ERR_LLM :: int where "MORPH_ERR_LLM \<equiv> - 268"
abbreviation (input) MORPH_ERR_REACT_MAX_ITERATIONS :: int where "MORPH_ERR_REACT_MAX_ITERATIONS \<equiv> - 269"
abbreviation (input) MORPH_ERR_CONFIG :: int where "MORPH_ERR_CONFIG \<equiv> - 270"

definition morph_err_is_errno :: "int \<Rightarrow> bool" where
  "morph_err_is_errno err \<longleftrightarrow> err < 0 \<and> err > MORPH_ERR_BASE"

definition morph_err_is_domain :: "int \<Rightarrow> bool" where
  "morph_err_is_domain err \<longleftrightarrow> err \<le> MORPH_ERR_BASE"

text \<open>The libc \<open>strerror\<close> is an argument.\<close>

definition morph_strerror :: "(int \<Rightarrow> string) \<Rightarrow> int \<Rightarrow> string" where
  "morph_strerror strerror err =
     (if err = MORPH_ERR_NOT_CONFIGURED then ''not configured''
      else if err = MORPH_ERR_NOT_INITIALIZED then ''not initialized''
      else if err = MORPH_ERR_API then ''API error''
      else if err = MORPH_ERR_NETWORK then ''network error''
      else if err = MORPH_ERR_PARSE then ''parse error''
      else if err = MORPH_ERR_PROTOCOL then ''protocol error''
      else if err = MORPH_ERR_DB then ''database error''
      else if err = MORPH_ERR_FORMAT then ''invalid format''
      else if err = MORPH_ERR_PROCESSING then ''processing error''
      else if err = MORPH_ERR_SANDBOX then ''sandbox violation''
      else if err = MORPH_ERR_LOAD then ''load error''
      else if err = MORPH_ERR_LLM then ''LLM error''
      else if err = MORPH_ERR_REACT_MAX_ITERATIONS then ''maximum ReAct iterations reached''
      else if err = MORPH_ERR_CONFIG then ''invalid configuration''
      else if morph_err_is_errno err then strerror (- err)
      else ''unknown error'')"

lemma error_classes:
  "err < 0 \<longleftrightarrow> morph_err_is_errno err \<noteq> morph_err_is_domain err"
  by (auto simp: morph_err_is_errno_def morph_err_is_domain_def MORPH_ERR_BASE_def)

end
