(* ===== verification/React_Stream.thy ===== *)
theory React_Stream
  imports Guardrail Utf8 Json
begin

text \<open>
  Streaming of the model's answer in \<open>src/agent/react.c\<close>: tokens are accumulated, the text before a
  line that starts with \<open>Final:\<close> or \<open>Final answer:\<close> is shown as thought, the text after it as the
  final answer, and a tail of 16 bytes is held back because a marker may still be incomplete.  The
  theory also models \<open>react_split_legacy_final\<close>, which splits the finished text.

  The arena's answers are booleans consumed one per allocation, as for the trees of \<open>Json\<close>.  The
  outputs and events are appended to a log.  The flag set by the signal handler is an argument of
  the callbacks; \<open>sd_cancelled\<close> is the flag the stream points to.
\<close>

abbreviation (input) EINTR :: int where "EINTR \<equiv> 4"

section \<open>The final marker\<close>

definition is_blank :: "char \<Rightarrow> bool" where
  "is_blank c \<longleftrightarrow> c = CHR '' '' \<or> c = TAB"

definition react_final_marker_len :: "string \<Rightarrow> nat" where
  "react_final_marker_len p =
     (if take 6 p = ''Final:'' then 6
      else if take 13 p = ''Final answer:'' then 13
      else if take 13 p = ''Final Answer:'' then 13
      else 0)"

definition react_is_line_start :: "string \<Rightarrow> nat \<Rightarrow> bool" where
  "react_is_line_start base p \<longleftrightarrow> p = 0 \<or> base ! (p - 1) = LF \<or> base ! (p - 1) = CR"

text \<open>\<open>strchr(p, '\n')\<close>: how far the next newline is.\<close>

fun next_newline :: "string \<Rightarrow> nat option" where
  "next_newline [] = None"
| "next_newline (c # cs) = (if c = LF then Some 0 else map_option Suc (next_newline cs))"

text \<open>The length of the blanks and the marker at \<open>p\<close>, if one is there.\<close>

definition marker_at :: "string \<Rightarrow> nat \<Rightarrow> nat option" where
  "marker_at base p =
     (let line = dropWhile is_blank (drop p base); len = react_final_marker_len line
      in if len > 0 then Some (length (takeWhile is_blank (drop p base)) + len) else None)"

lemma next_newline_Some: "next_newline s = Some k \<Longrightarrow> k < length s \<and> s ! k = LF \<and> (\<forall>j < k. s ! j \<noteq> LF)"
proof (induction s arbitrary: k)
  case (Cons c s)
  show ?case
  proof (cases "c = LF")
    case False
    then obtain k' where "next_newline s = Some k'" "k = Suc k'" using Cons.prems by auto
    then show ?thesis using Cons.IH [of k'] False by (auto simp: less_Suc_eq_0_disj)
  qed (use Cons.prems in auto)
qed simp

lemma next_newline_None: "next_newline s = None \<longleftrightarrow> LF \<notin> set s"
  by (induction s) auto

text \<open>\<open>react_find_final_marker\<close>: the position of the line and the length up to the end of the
  marker.\<close>

function react_find_final_marker :: "string \<Rightarrow> nat \<Rightarrow> (nat \<times> nat) option" where
  "react_find_final_marker base p =
     (if p \<ge> length base then None
      else if react_is_line_start base p \<and> marker_at base p \<noteq> None then Some (p, the (marker_at base p))
      else case next_newline (drop p base) of
             None \<Rightarrow> None
           | Some k \<Rightarrow> react_find_final_marker base (p + k + 1))"
  by pat_completeness auto
termination
  by (relation "measure (\<lambda>(base, p). length base - p)") auto

declare react_find_final_marker.simps [simp del]

section \<open>The stream\<close>

datatype stream_out =
    Output react_step_type string
  | Text_event string string

record stream_data =
  sd_arena :: allocs
  sd_accumulated :: "string option"
  sd_acc_cap :: size_t
  sd_emitted_len :: size_t
  sd_in_final :: bool
  sd_skip_legacy_final_separator :: bool
  sd_provisional_typed_content :: bool
  sd_cancelled :: bool
  sd_log :: "stream_out list"

definition arena_grants :: "stream_data \<Rightarrow> bool \<times> stream_data" where
  "arena_grants sd = (let (ok, bs) = alloc (sd_arena sd) in (ok, sd\<lparr>sd_arena := bs\<rparr>))"

text \<open>The stream of one request, as \<open>react_call_llm\<close> prepares it.\<close>

definition react_stream_start :: "allocs \<Rightarrow> bool \<Rightarrow> stream_data" where
  "react_stream_start arena cancelled =
     (let (ok, arena) = alloc arena
      in \<lparr>sd_arena = arena, sd_accumulated = (if ok then Some [] else None), sd_acc_cap = 8192,
          sd_emitted_len = 0, sd_in_final = False, sd_skip_legacy_final_separator = False,
          sd_provisional_typed_content = False, sd_cancelled = cancelled, sd_log = []\<rparr>)"

definition react_emit_thought_delta :: "stream_data \<Rightarrow> string \<Rightarrow> rc \<times> stream_data" where
  "react_emit_thought_delta sd s =
     (if s = [] then (0, sd)
      else let (ok, sd) = arena_grants sd
           in if \<not> ok then (- ENOMEM, sd)
              else (0, sd\<lparr>sd_log := sd_log sd @ [Output REACT_STEP_THOUGHT s, Text_event ''react.thought.delta'' s]\<rparr>))"

definition react_emit_final_delta :: "stream_data \<Rightarrow> string \<Rightarrow> rc \<times> stream_data" where
  "react_emit_final_delta sd s =
     (let s = (if sd_skip_legacy_final_separator sd then dropWhile is_blank s else s)
      in if s = [] then (0, sd)
         else let (ok, sd) = arena_grants (sd\<lparr>sd_skip_legacy_final_separator := False\<rparr>)
              in if \<not> ok then (- ENOMEM, sd)
                 else (0, sd\<lparr>sd_log := sd_log sd @ [Text_event ''react.final.delta'' s]\<rparr>))"

fun react_utf8_safe_len :: "string \<Rightarrow> nat \<Rightarrow> nat" where
  "react_utf8_safe_len s 0 = 0"
| "react_utf8_safe_len s (Suc n) = (if utf8nvalid s (Suc n) \<noteq> None then react_utf8_safe_len s n else Suc n)"

definition STREAM_HOLDBACK :: nat where
  "STREAM_HOLDBACK = 16"

text \<open>The step both emitters share: the longest well-formed prefix of \<open>n\<close> bytes at the emission
  point goes out through \<open>emit\<close>.\<close>

definition emit_safe ::
    "(stream_data \<Rightarrow> string \<Rightarrow> rc \<times> stream_data) \<Rightarrow> stream_data \<Rightarrow> string \<Rightarrow> nat \<Rightarrow> rc \<times> stream_data" where
  "emit_safe emit sd start n =
     (let safe = react_utf8_safe_len start n
      in if safe = 0 then (0, sd)
         else let (rc, sd) = emit sd (take safe start)
              in if rc = 0 then (0, sd\<lparr>sd_emitted_len := sd_emitted_len sd + safe\<rparr>) else (rc, sd))"

text \<open>The marker was found at \<open>m\<close>: the thought before it goes out and the final answer starts.\<close>

definition enter_final :: "stream_data \<Rightarrow> string \<Rightarrow> nat \<Rightarrow> nat \<Rightarrow> rc \<times> stream_data" where
  "enter_final sd base m marker_len =
     (let (rc, sd) = react_emit_thought_delta sd (take (m - sd_emitted_len sd) (drop (sd_emitted_len sd) base))
      in if rc \<noteq> 0 then (rc, sd)
         else (0, sd\<lparr>sd_in_final := True, sd_skip_legacy_final_separator := True,
                     sd_emitted_len := m + marker_len\<rparr>))"

lemma enter_final_in_final: "enter_final sd base m l = (0, sd') \<Longrightarrow> sd_in_final sd'"
  by (auto simp: enter_final_def split: prod.splits if_splits)

function react_stream_parse_emit :: "stream_data \<Rightarrow> rc \<times> stream_data" where
  "react_stream_parse_emit sd =
     (case sd_accumulated sd of
        None \<Rightarrow> (0, sd)
      | Some base \<Rightarrow>
         let e = sd_emitted_len sd; start = drop e base; available = length base - e
         in if length base \<le> e then (0, sd)
            else if sd_provisional_typed_content sd then emit_safe react_emit_thought_delta sd start available
            else if sd_in_final sd then emit_safe react_emit_final_delta sd start available
            else case react_find_final_marker base e of
                   Some (m, l) \<Rightarrow>
                    (case enter_final sd base m l of
                       (rc, sd') \<Rightarrow> if rc \<noteq> 0 then (rc, sd') else react_stream_parse_emit sd')
                 | None \<Rightarrow>
                    if available \<le> STREAM_HOLDBACK then (0, sd)
                    else emit_safe react_emit_thought_delta sd start (available - STREAM_HOLDBACK))"
  by pat_completeness auto
termination
  by (relation "measure (\<lambda>sd. if sd_in_final sd then 0 else 1)") (auto dest!: sym [of "(0, _)"] enter_final_in_final)

declare react_stream_parse_emit.simps [simp del]

function react_stream_flush :: "stream_data \<Rightarrow> rc \<times> stream_data" where
  "react_stream_flush sd =
     (case sd_accumulated sd of
        None \<Rightarrow> (0, sd)
      | Some base \<Rightarrow>
         let e = sd_emitted_len sd; start = drop e base; available = length base - e
         in if length base \<le> e then (0, sd)
            else if sd_provisional_typed_content sd then emit_safe react_emit_thought_delta sd start available
            else if sd_in_final sd then emit_safe react_emit_final_delta sd start available
            else case react_find_final_marker base e of
                   Some (m, l) \<Rightarrow>
                    (case enter_final sd base m l of
                       (rc, sd') \<Rightarrow> if rc \<noteq> 0 then (rc, sd') else react_stream_flush sd')
                 | None \<Rightarrow> emit_safe react_emit_thought_delta sd start available)"
  by pat_completeness auto
termination
  by (relation "measure (\<lambda>sd. if sd_in_final sd then 0 else 1)") (auto dest!: sym [of "(0, _)"] enter_final_in_final)

declare react_stream_flush.simps [simp del]

text \<open>The first half of \<open>react_stream_cb\<close>: the buffer grows if it has to and if the arena allows,
  and the token is appended if it fits.\<close>

definition stream_accumulate :: "stream_data \<Rightarrow> string \<Rightarrow> stream_data" where
  "stream_accumulate sd token =
     (let acc_len = (case sd_accumulated sd of None \<Rightarrow> 0 | Some a \<Rightarrow> length a);
          tlen = length token;
          sd = (if acc_len + tlen + 1 \<ge> sd_acc_cap sd
                then let (ok, sd) = arena_grants sd
                     in if ok then sd\<lparr>sd_accumulated := Some (case sd_accumulated sd of None \<Rightarrow> [] | Some a \<Rightarrow> a),
                                      sd_acc_cap := (acc_len + tlen + 1) * 2\<rparr>
                        else sd
                else sd)
      in case sd_accumulated sd of
           None \<Rightarrow> sd
         | Some a \<Rightarrow> if acc_len + tlen < sd_acc_cap sd then sd\<lparr>sd_accumulated := Some (a @ token)\<rparr> else sd)"

definition react_stream_cb :: "bool \<Rightarrow> string \<Rightarrow> stream_data \<Rightarrow> rc \<times> stream_data" where
  "react_stream_cb sigint token sd =
     (let sd = stream_accumulate sd token;
          sd = (if sigint then sd\<lparr>sd_cancelled := True\<rparr> else sd)
      in if sd_cancelled sd then (- EINTR, sd) else react_stream_parse_emit sd)"

datatype llm_stream_kind = LLM_STREAM_CONTENT | LLM_STREAM_REASONING | LLM_STREAM_OTHER

definition react_typed_stream_cb :: "llm_stream_kind \<Rightarrow> bool \<Rightarrow> string \<Rightarrow> stream_data \<Rightarrow> rc \<times> stream_data" where
  "react_typed_stream_cb kind sigint token sd =
     (case kind of
        LLM_STREAM_REASONING \<Rightarrow>
         (let sd = (if sigint then sd\<lparr>sd_cancelled := True\<rparr> else sd)
          in if sd_cancelled sd then (- EINTR, sd)
             else (0, sd\<lparr>sd_log := sd_log sd @ [Output REACT_STEP_REASONING token, Text_event ''react.reasoning.delta'' token]\<rparr>))
      | LLM_STREAM_CONTENT \<Rightarrow> react_stream_cb sigint token (sd\<lparr>sd_provisional_typed_content := True\<rparr>)
      | LLM_STREAM_OTHER \<Rightarrow> react_stream_cb sigint token sd)"

section \<open>Splitting the finished text\<close>

definition isspace :: "char \<Rightarrow> bool" where
  "isspace c \<longleftrightarrow> c = CHR '' '' \<or> (let n = of_char c :: nat in 9 \<le> n \<and> n \<le> 13)"

definition react_trimmed_legacy_text :: "string \<Rightarrow> bool \<Rightarrow> string" where
  "react_trimmed_legacy_text s strip_thought_prefix =
     (let s = dropWhile isspace s;
          s = (if strip_thought_prefix \<and> length s \<ge> 8 \<and> case_insensitive_eq (take 8 s) ''Thought:''
               then dropWhile is_blank (drop 8 s) else s)
      in rev (dropWhile isspace (rev s)))"

definition react_split_legacy_final :: "bool \<Rightarrow> string \<Rightarrow> string option \<times> string" where
  "react_split_legacy_final arena_ok proposed =
     (case react_find_final_marker proposed 0 of
        None \<Rightarrow> (None, proposed)
      | Some (m, l) \<Rightarrow>
         ((if m > 0 \<and> arena_ok
           then (let th = react_trimmed_legacy_text (take m proposed) True in if th = [] then None else Some th)
           else None),
          dropWhile is_blank (drop (m + l) proposed)))"

section \<open>Boundaries of code points\<close>

lemma safe_len_eq: "react_utf8_safe_len s n = utf8_clamp_loop s n"
  by (induction s n rule: react_utf8_safe_len.induct) auto

lemma wf_seq_cont: "wf_seq q \<Longrightarrow> 0 < i \<Longrightarrow> i < length q \<Longrightarrow> utf8_cont (byte_at q i)"
  by (simp add: wf_seq_def utf8_check_seq_iff seq_ok_def)

text \<open>Well-formed text can be cut wherever no continuation byte follows, in particular before ASCII.\<close>

lemma utf8_wf_split:
  assumes "utf8_wf (u @ v)" "\<not> utf8_cont (byte_at v 0)"
  shows "utf8_wf u \<and> utf8_wf v"
proof -
  obtain qs where "u @ v = concat qs" "\<forall>q \<in> set qs. wf_seq q" using assms(1) by (auto simp: utf8_wf_def)
  then show ?thesis
  proof (induction qs arbitrary: u)
    case (Cons q qs)
    have q: "wf_seq q" and eq: "u @ v = q @ concat qs" using Cons.prems by auto
    show ?case
    proof (cases "length q \<le> length u")
      case True
      then obtain u' where u': "u = q @ u'" "u' @ v = concat qs"
        using eq True by (auto simp: append_eq_append_conv2 intro: that [of "[]"])
      then show ?thesis using Cons.IH [of u'] Cons.prems(2) q utf8_wf_seq_append by auto
    next
      case False
      show ?thesis
      proof (cases "u = []")
        case True
        then have "v = concat (q # qs)" using eq by simp
        then have "utf8_wf v" using Cons.prems(2) unfolding utf8_wf_def by blast
        then show ?thesis using True by simp
      next
        case False
        have "(q @ concat qs) ! length u = (u @ v) ! length u" using eq by simp
        moreover have "length u < length q" using \<open>\<not> length q \<le> length u\<close> by simp
        moreover have "v \<noteq> []" using eq calculation(2) by (cases v) (auto dest: arg_cong [of _ _ length])
        ultimately have "byte_at v 0 = byte_at q (length u)"
          by (simp add: byte_at_def nth_append hd_conv_nth)
        then show ?thesis using wf_seq_cont [OF q, of "length u"] False \<open>length u < length q\<close> assms(2) by simp
      qed
    qed
  qed simp
qed

lemma lead_unique: "lead k c b \<Longrightarrow> lead k' c b' \<Longrightarrow> k = k'"
  by (auto simp: lead_def split: if_splits)

lemma wf_seq_lead: "wf_seq q \<Longrightarrow> lead (length q) (byte_at (q @ t) 0) (byte_at q 1)"
  by (simp add: wf_seq_def utf8_check_seq_iff seq_ok_def byte_at_append)

lemma wf_seq_prefix_unique:
  assumes "wf_seq p" "wf_seq q" "p @ s = q @ t"
  shows "p = q \<and> s = t"
proof -
  have "length p = length q"
    using wf_seq_lead [OF assms(1), of s] wf_seq_lead [OF assms(2), of t] assms(3) lead_unique by auto
  then show ?thesis using assms(3) by simp
qed

lemma utf8_wf_cancel:
  assumes "utf8_wf u" "utf8_wf (u @ v)"
  shows "utf8_wf v"
proof -
  obtain ps where "u = concat ps" "\<forall>q \<in> set ps. wf_seq q" using assms(1) by (auto simp: utf8_wf_def)
  then show ?thesis using assms(2)
  proof (induction ps arbitrary: u)
    case (Cons p ps)
    have p: "wf_seq p" using Cons.prems by simp
    have ne: "u @ v \<noteq> []" using Cons.prems by (auto simp: wf_seq_def)
    obtain q t where q: "u @ v = q @ t" "wf_seq q" "utf8_wf t" using utf8_wf_cases [OF Cons.prems(3) ne] .
    have "p @ (concat ps @ v) = q @ t" using q(1) Cons.prems(1) by simp
    then have "concat ps @ v = t" using wf_seq_prefix_unique [OF p q(2)] by blast
    then show ?case using Cons.IH [of "concat ps"] Cons.prems(2) q(3) by simp
  qed simp
qed

lemma utf8_wf_no_NUL: "utf8_wf s \<Longrightarrow> NUL \<notin> set s"
proof -
  have "NUL \<notin> set q" if q: "wf_seq q" for q
  proof
    assume "NUL \<in> set q"
    then obtain i where i: "i < length q" "q ! i = NUL" by (auto simp: in_set_conv_nth)
    then have "byte_at q i = 0" by (simp add: byte_at_def)
    then have "i = 0" using wf_seq_cont [OF q, of i] i by (cases i) auto
    then show False using i q by (simp add: wf_seq_def hd_conv_nth)
  qed
  then show "utf8_wf s \<Longrightarrow> NUL \<notin> set s" by (auto simp: utf8_wf_def)
qed

lemma utf8_wf_drop_take:
  assumes "utf8_wf s" "utf8_wf (take n s)"
  shows "utf8_wf (drop n s)"
  using utf8_wf_cancel [OF assms(2), of "drop n s"] assms(1) by simp

text \<open>What the safe prefix of an accumulated part of well-formed text is.\<close>

lemma safe_len_spec:
  assumes "utf8_wf (s @ r)" "n \<le> length s"
  shows "react_utf8_safe_len s n \<le> n" and "utf8_wf (drop (react_utf8_safe_len s n) (s @ r))"
proof -
  let ?k = "react_utf8_safe_len s n"
  have nul: "NUL \<notin> set s" using utf8_wf_no_NUL [OF assms(1)] by simp
  show k: "?k \<le> n" by (simp add: safe_len_eq utf8_clamp_loop_le)
  have "utf8_wf (take ?k (s @ r))" using utf8_clamp_loop_wf [OF nul, of n] k assms(2) by (simp add: safe_len_eq)
  then show "utf8_wf (drop ?k (s @ r))" using assms(1) by (rule utf8_wf_drop_take [rotated])
qed

lemma safe_len_all: "utf8_wf s \<Longrightarrow> react_utf8_safe_len s (length s) = length s"
  using utf8_clamp_loop_max [of s "length s" "length s"] utf8_clamp_loop_le [of s "length s"] utf8_wf_no_NUL [of s]
  by (simp add: safe_len_eq)

section \<open>Where the marker is\<close>

definition final_markers :: "string set" where
  "final_markers = {''Final:'', ''Final answer:'', ''Final Answer:''}"

lemma marker_len_append: "m \<in> final_markers \<Longrightarrow> react_final_marker_len (m @ r) = length m"
  by (auto simp: final_markers_def react_final_marker_len_def)

lemma marker_len_pos: "react_final_marker_len s > 0 \<Longrightarrow> \<exists>m r. m \<in> final_markers \<and> s = m @ r \<and> length m = react_final_marker_len s"
proof -
  have t: "take n s = m \<Longrightarrow> s = m @ drop n s" for n m using append_take_drop_id [of n s] by simp
  assume "react_final_marker_len s > 0"
  then consider "take 6 s = ''Final:''" "react_final_marker_len s = 6"
    | "take 13 s = ''Final answer:''" "react_final_marker_len s = 13"
    | "take 13 s = ''Final Answer:''" "react_final_marker_len s = 13"
    by (auto simp: react_final_marker_len_def split: if_splits)
  then show ?thesis
    by cases (use t [of 6] t [of 13] in \<open>force simp: final_markers_def\<close>)+
qed

lemma marker_at_iff:
  "marker_at s p = Some l \<longleftrightarrow>
   (\<exists>b m r. drop p s = b @ m @ r \<and> list_all is_blank b \<and> m \<in> final_markers \<and> l = length b + length m)"
proof
  assume a: "marker_at s p = Some l"
  let ?line = "dropWhile is_blank (drop p s)"
  have len: "react_final_marker_len ?line > 0"
      "l = length (takeWhile is_blank (drop p s)) + react_final_marker_len ?line"
    using a by (auto simp: marker_at_def Let_def split: if_splits)
  obtain m r where "m \<in> final_markers" "?line = m @ r" "length m = react_final_marker_len ?line"
    using marker_len_pos [OF len(1)] by blast
  then show "\<exists>b m r. drop p s = b @ m @ r \<and> list_all is_blank b \<and> m \<in> final_markers \<and> l = length b + length m"
    using len(2) by (intro exI [of _ "takeWhile is_blank (drop p s)"] exI [of _ m] exI [of _ r])
      (auto simp: list_all_iff takeWhile_dropWhile_id dest: set_takeWhileD,
       metis takeWhile_dropWhile_id)
next
  assume "\<exists>b m r. drop p s = b @ m @ r \<and> list_all is_blank b \<and> m \<in> final_markers \<and> l = length b + length m"
  then obtain b m r where d: "drop p s = b @ m @ r" "list_all is_blank b" and m: "m \<in> final_markers"
      and l: "l = length b + length m" by blast
  obtain m' where h: "m = CHR ''F'' # m'" using m by (auto simp: final_markers_def)
  have "takeWhile is_blank (m @ r) = []" "dropWhile is_blank (m @ r) = m @ r"
    by (simp_all add: h is_blank_def)
  then have "takeWhile is_blank (drop p s) = b" "dropWhile is_blank (drop p s) = m @ r"
    using d by (simp_all add: list_all_iff takeWhile_append dropWhile_append)
  moreover have "length m > 0" by (simp add: h)
  ultimately show "marker_at s p = Some l" using marker_len_append [OF m] l by (simp add: marker_at_def)
qed

lemma marker_bounds:
  assumes "marker_at s p = Some l"
  shows "p + l \<le> length s" and "l > 0" and "i < l \<Longrightarrow> s ! (p + i) \<noteq> LF"
    and "\<not> utf8_cont (byte_at (drop p s) 0)"
proof -
  obtain b m r where d: "drop p s = b @ m @ r" "list_all is_blank b" and m: "m \<in> final_markers"
      and l: "l = length b + length m" using assms by (auto simp: marker_at_iff)
  have mne: "m \<noteq> []" using m by (auto simp: final_markers_def)
  have "p < length s" using d mne by (cases "p < length s") auto
  have "length s - p = length (b @ m @ r)" by (metis d(1) length_drop)
  then show "p + l \<le> length s" using \<open>p < length s\<close> l by simp
  show "l > 0" using mne l by simp
  have nth: "s ! (p + i) = (b @ m @ r) ! i" for i using d(1) nth_drop [of p s i] \<open>p < length s\<close> by simp
  have "\<not> is_blank LF" by (simp add: is_blank_def)
  then have "LF \<notin> set b" using d(2) by (auto simp: list_all_iff)
  moreover have "\<forall>m \<in> final_markers. LF \<notin> set m" by (simp add: final_markers_def)
  ultimately have lf: "LF \<notin> set (b @ m)" using m by simp
  show "s ! (p + i) \<noteq> LF" if "i < l" for i
  proof -
    have "s ! (p + i) = (b @ m) ! i" using nth [of i] that l nth_append [of "b @ m" r i] by simp
    moreover have "(b @ m) ! i \<in> set (b @ m)" using that l by (intro nth_mem) simp
    ultimately show ?thesis using lf by metis
  qed
  have "hd (b @ m) \<in> {CHR '' '', TAB, CHR ''F''}" using d(2) m
    by (cases b) (auto simp: is_blank_def final_markers_def)
  moreover have "byte_at (drop p s) 0 = of_char (hd (b @ m))"
  proof -
    have "drop p s = (b @ m) @ r" "b @ m \<noteq> []" using d(1) mne by simp_all
    then show ?thesis by (cases "b @ m") (simp_all add: byte_at_def)
  qed
  ultimately show "\<not> utf8_cont (byte_at (drop p s) 0)"
    by (auto simp: utf8_cont_def)
qed

text \<open>A marker in a part of the text is one in the whole, and conversely when it is all there.\<close>

lemma marker_at_prefix:
  "marker_at a p = Some l \<Longrightarrow> marker_at (a @ r) p = Some l"
proof -
  assume a: "marker_at a p = Some l"
  then have "p \<le> length a" using marker_bounds [OF a] by simp
  then show ?thesis using a by (force simp: marker_at_iff)
qed

lemma marker_at_visible:
  assumes "marker_at (a @ r) p = Some l" "p + l \<le> length a"
  shows "marker_at a p = Some l"
proof -
  obtain b m q where d: "drop p (a @ r) = b @ m @ q" "list_all is_blank b" "m \<in> final_markers"
      "l = length b + length m" using assms(1) by (auto simp: marker_at_iff)
  have "take l (drop p a @ r) = b @ m" using d(1,4) assms(2) by (simp add: marker_bounds)
  then have "take l (drop p a) = b @ m" using assms(2) by simp
  then have "drop p a = b @ m @ drop l (drop p a)" by (metis append.assoc append_take_drop_id)
  then show ?thesis using d unfolding marker_at_iff by blast
qed

text \<open>The search from \<open>e\<close> looks at \<open>e\<close> itself, if it is the start of a line, and behind every
  newline.\<close>

definition candidate :: "string \<Rightarrow> nat \<Rightarrow> nat \<Rightarrow> bool" where
  "candidate s e p \<longleftrightarrow> marker_at s p \<noteq> None \<and> (p = e \<and> react_is_line_start s e \<or> e < p \<and> s ! (p - 1) = LF)"

lemma candidate_skip:
  assumes "next_newline (drop e s) = Some k" "\<not> candidate s e e"
  shows "candidate s e p \<longleftrightarrow> candidate s (e + k + 1) p"
proof -
  have e: "e + k < length s" "s ! (e + k) = LF" "\<And>j. j < k \<Longrightarrow> s ! (e + j) \<noteq> LF"
    using next_newline_Some [OF assms(1)] by auto
  have "e + k + 1 \<le> p" if "e < p" "s ! (p - 1) = LF"
  proof (rule ccontr)
    assume n: "\<not> e + k + 1 \<le> p"
    then have "p - 1 = e + (p - 1 - e)" "p - 1 - e < k" using that by auto
    then show False using e(3) [of "p - 1 - e"] that by auto
  qed
  then show ?thesis using assms(2) e
    by (auto simp: candidate_def react_is_line_start_def)
qed

lemma find_final_marker_spec:
  "case react_find_final_marker s e of
     None \<Rightarrow> \<forall>p. \<not> candidate s e p
   | Some (p, l) \<Rightarrow> candidate s e p \<and> (\<forall>q < p. \<not> candidate s e q) \<and> marker_at s p = Some l"
proof (induction s e rule: react_find_final_marker.induct)
  case (1 s e)
  have low: "e \<le> p" "p < length s" if c: "candidate s e p" for p
  proof -
    obtain l where "marker_at s p = Some l" using c by (auto simp: candidate_def)
    then show "p < length s" using marker_bounds [of s p l] by simp
    show "e \<le> p" using c by (auto simp: candidate_def)
  qed
  show ?case
  proof (cases "e \<ge> length s")
    case True
    then show ?thesis using low by (force simp: react_find_final_marker.simps [of s e])
  next
    case False
    show ?thesis
    proof (cases "react_is_line_start s e \<and> marker_at s e \<noteq> None")
      case True
      then have "candidate s e e" by (simp add: candidate_def)
      then show ?thesis using True False low
        by (auto simp: react_find_final_marker.simps [of s e] dest: leD)
    next
      case no: False
      then have nc: "\<not> candidate s e e" by (auto simp: candidate_def)
      show ?thesis
      proof (cases "next_newline (drop e s)")
        case None
        have "\<not> candidate s e p" for p
        proof
          assume c: "candidate s e p"
          then have p: "e < p" "s ! (p - 1) = LF" using nc by (auto simp: candidate_def)
          then have "s ! (p - 1) \<in> set (drop e s)"
            using low [OF c] nth_mem [of "p - 1 - e" "drop e s"] by simp
          then show False using None p(2) by (simp add: next_newline_None)
        qed
        then show ?thesis using None no False by (simp add: react_find_final_marker.simps [of s e])
      next
        case (Some k)
        have "react_find_final_marker s e = react_find_final_marker s (e + k + 1)"
          using Some no False by (subst react_find_final_marker.simps) auto
        moreover have "candidate s e = candidate s (e + k + 1)"
          using candidate_skip [OF Some nc] by (simp add: fun_eq_iff)
        ultimately show ?thesis using "1.IH" [OF False no Some] by (simp only:)
      qed
    qed
  qed
qed

section \<open>Streaming and splitting agree\<close>

text \<open>A carriage return only ends a line together with a newline.\<close>

definition crlf_only :: "string \<Rightarrow> bool" where
  "crlf_only t \<longleftrightarrow> (\<forall>i. Suc i < length t \<longrightarrow> t ! i = CR \<longrightarrow> t ! Suc i = LF)"

definition final_at :: "string \<Rightarrow> (nat \<times> nat) option" where
  "final_at t = react_find_final_marker t 0"

lemma candidate_0: "candidate t 0 p \<longleftrightarrow> marker_at t p \<noteq> None \<and> (p = 0 \<or> t ! (p - 1) = LF)"
  by (auto simp: candidate_def react_is_line_start_def)

lemma final_at_SomeD:
  "final_at t = Some (p, l) \<Longrightarrow> candidate t 0 p \<and> (\<forall>q < p. \<not> candidate t 0 q) \<and> marker_at t p = Some l"
  using find_final_marker_spec [of t 0] by (simp add: final_at_def)

lemma stream_not_yet:
  assumes e: "e \<le> length a" and late: "\<forall>p l. final_at (a @ r) = Some (p, l) \<longrightarrow> e \<le> p"
    and none: "react_find_final_marker a e = None" and f: "final_at (a @ r) = Some (p, l)"
  shows "length a < p + l"
proof (rule ccontr)
  assume "\<not> ?thesis"
  then have vis: "p + l \<le> length a" by simp
  note c = final_at_SomeD [OF f]
  have m: "marker_at a p = Some l" using c vis by (auto intro: marker_at_visible)
  have "0 < l" using marker_bounds(2) [OF m] .
  then have "p = 0 \<or> a ! (p - 1) = LF" using c vis by (auto simp: candidate_0 nth_append split: if_splits)
  moreover have "e \<le> p" using late f by blast
  ultimately have "candidate a e p" using m by (auto simp: candidate_def react_is_line_start_def)
  then show False using find_final_marker_spec [of a e] none by simp
qed

lemma stream_found:
  assumes e: "e \<le> length a" and late: "\<forall>p l. final_at (a @ r) = Some (p, l) \<longrightarrow> e \<le> p"
    and crlf: "crlf_only (a @ r)" and some: "react_find_final_marker a e = Some (m, l)"
  shows "final_at (a @ r) = Some (m, l)"
proof -
  let ?t = "a @ r"
  have c: "candidate a e m" "\<forall>q < m. \<not> candidate a e q" "marker_at a m = Some l"
    using find_final_marker_spec [of a e] some by auto
  have mt: "marker_at ?t m = Some l" using c(3) by (rule marker_at_prefix)
  have b: "m + l \<le> length a" "0 < l" using marker_bounds(1,2) [OF c(3)] by auto
  have first: "?t ! m \<noteq> LF" using marker_bounds(3) [OF mt, of 0] b by simp
  have prev: "?t ! (q - 1) = a ! (q - 1)" if "q \<le> m" for q using that b by (auto simp: nth_append)
  have start: "m = 0 \<or> ?t ! (m - 1) = LF"
  proof (rule ccontr)
    assume n: "\<not> ?thesis"
    then have "m = e" "?t ! (m - 1) = CR" "0 < m"
      using c(1) prev [of m] by (auto simp: candidate_def react_is_line_start_def)
    moreover have "m < length ?t" using b by simp
    ultimately have "?t ! m = LF" using crlf [unfolded crlf_only_def, rule_format, of "m - 1"] by simp
    then show False using first by contradiction
  qed
  then have ct: "candidate ?t 0 m" using mt by (simp add: candidate_0)
  then obtain p l' where f: "final_at ?t = Some (p, l')"
    using find_final_marker_spec [of ?t 0] by (cases "final_at ?t") (auto simp: final_at_def)
  note fs = final_at_SomeD [OF f]
  have "e \<le> p" using late f by blast
  have "p = m"
  proof (rule ccontr)
    assume "p \<noteq> m"
    then have pm: "p < m" using fs ct by (meson linorder_neqE_nat)
    then have lf: "?t ! (m - 1) = LF" using start by simp
    have "p + l' \<le> m - 1"
    proof (rule ccontr)
      assume "\<not> p + l' \<le> m - 1"
      then have "m - 1 - p < l'" "p + (m - 1 - p) = m - 1" using pm by linarith+
      then show False using marker_bounds(3) [of ?t p l' "m - 1 - p"] fs lf by metis
    qed
    then have "marker_at a p = Some l'" using fs b marker_at_visible [of a r p l'] by simp
    moreover have "p = 0 \<or> a ! (p - 1) = LF" using fs prev [of p] pm by (auto simp: candidate_0)
    ultimately have "candidate a e p" using \<open>e \<le> p\<close> by (auto simp: candidate_def react_is_line_start_def)
    then show False using c(2) pm by blast
  qed
  then show ?thesis using f fs mt by simp
qed

text \<open>After the marker the text is still well formed.\<close>

lemma wf_after_marker:
  assumes wf: "utf8_wf (drop e t)" and ep: "e \<le> p" and m: "marker_at t p = Some l"
  shows "utf8_wf (drop (p + l) t)"
proof -
  have "drop e t = take (p - e) (drop e t) @ drop p t"
    using ep by (metis add.commute append_take_drop_id drop_drop le_add_diff_inverse2)
  then have wp: "utf8_wf (drop p t)" using utf8_wf_split [of "take (p - e) (drop e t)" "drop p t"] wf
    marker_bounds(4) [OF m] by metis
  obtain b k r where d: "drop p t = b @ k @ r" "list_all is_blank b" "k \<in> final_markers" "l = length b + length k"
    using m by (auto simp: marker_at_iff)
  have "is_blank c \<Longrightarrow> c \<noteq> NUL \<and> of_char c < (128 :: nat)" for c by (auto simp: is_blank_def)
  then have "\<forall>c \<in> set b. c \<noteq> NUL \<and> of_char c < (128 :: nat)" using d(2) unfolding list_all_iff by blast
  moreover have "\<forall>k \<in> final_markers. \<forall>c \<in> set k. c \<noteq> NUL \<and> of_char c < (128 :: nat)" by (simp add: final_markers_def)
  ultimately have "utf8_wf (b @ k)" using d(3) by (intro utf8_wf_append utf8_wf_ascii) auto
  then have "utf8_wf (take l (drop p t))" using d by simp
  then show ?thesis using utf8_wf_drop_take [OF wp, of l] by (simp add: add.commute)
qed

text \<open>What a reader of the outputs and events has seen.\<close>

fun thought_text :: "stream_out list \<Rightarrow> string" where
  "thought_text [] = []"
| "thought_text (Output REACT_STEP_THOUGHT s # xs) = s @ thought_text xs"
| "thought_text (_ # xs) = thought_text xs"

fun final_text :: "stream_out list \<Rightarrow> string" where
  "final_text [] = []"
| "final_text (Text_event n s # xs) = (if n = ''react.final.delta'' then s else []) @ final_text xs"
| "final_text (_ # xs) = final_text xs"

lemma thought_text_append [simp]: "thought_text (xs @ ys) = thought_text xs @ thought_text ys"
  by (induction xs rule: thought_text.induct) auto

lemma final_text_append [simp]: "final_text (xs @ ys) = final_text xs @ final_text ys"
  by (induction xs rule: final_text.induct) auto

text \<open>The stream after the tokens that make up \<open>a\<close>, of an answer \<open>t\<close>.\<close>

definition stream_phase :: "string \<Rightarrow> stream_data \<Rightarrow> bool" where
  "stream_phase t sd \<longleftrightarrow>
     (if sd_in_final sd
      then \<exists>p l. final_at t = Some (p, l) \<and> p + l \<le> sd_emitted_len sd \<and> thought_text (sd_log sd) = take p t \<and>
        final_text (sd_log sd) = dropWhile is_blank (take (sd_emitted_len sd - (p + l)) (drop (p + l) t)) \<and>
        (sd_skip_legacy_final_separator sd \<longleftrightarrow> final_text (sd_log sd) = [])
      else thought_text (sd_log sd) = take (sd_emitted_len sd) t \<and> final_text (sd_log sd) = [] \<and>
        (\<forall>p l. final_at t = Some (p, l) \<longrightarrow> sd_emitted_len sd \<le> p))"

definition stream_inv :: "string \<Rightarrow> string \<Rightarrow> stream_data \<Rightarrow> bool" where
  "stream_inv t a sd \<longleftrightarrow> sd_arena sd = [] \<and> \<not> sd_cancelled sd \<and> \<not> sd_provisional_typed_content sd \<and>
     sd_accumulated sd = Some a \<and>
     sd_emitted_len sd \<le> length a \<and> utf8_wf (drop (sd_emitted_len sd) t) \<and> stream_phase t sd"

lemma stream_phase_finalI:
  assumes "sd_in_final sd" "final_at t = Some (p, l)" "p + l \<le> sd_emitted_len sd" "thought_text (sd_log sd) = take p t"
    and "final_text (sd_log sd) = dropWhile is_blank (take (sd_emitted_len sd - (p + l)) (drop (p + l) t))"
    and "sd_skip_legacy_final_separator sd \<longleftrightarrow> final_text (sd_log sd) = []"
  shows "stream_phase t sd"
  unfolding stream_phase_def if_P [OF assms(1)] using assms by blast

lemma arena_grants_all [simp]: "sd_arena sd = [] \<Longrightarrow> arena_grants sd = (True, sd)"
  by (simp add: arena_grants_def)

lemma dropWhile_append_cases:
  "dropWhile P (xs @ ys) = (if dropWhile P xs = [] then dropWhile P ys else dropWhile P xs @ ys)"
  by (auto simp: dropWhile_append dropWhile_eq_Nil_conv)

text \<open>Emitting the safe part of what is there keeps the invariant, as thought or as final answer.\<close>

lemma emit_safe_final_inv:
  assumes inv: "stream_inv (a @ r) a sd" and fin: "sd_in_final sd" and e: "sd_emitted_len sd < length a"
  shows "\<exists>sd'. emit_safe react_emit_final_delta sd (drop (sd_emitted_len sd) a) (length a - sd_emitted_len sd) = (0, sd') \<and>
    stream_inv (a @ r) a sd' \<and> sd_in_final sd' \<and> sd_accumulated sd' = sd_accumulated sd \<and>
    (r = [] \<longrightarrow> sd_emitted_len sd' = length a)"
proof -
  define e where "e = sd_emitted_len sd"
  define k where "k = react_utf8_safe_len (drop e a) (length a - e)"
  have i: "sd_arena sd = []" "\<not> sd_cancelled sd" "\<not> sd_provisional_typed_content sd" "e \<le> length a"
      "utf8_wf (drop e a @ r)" "stream_phase (a @ r) sd"
    using inv by (auto simp: stream_inv_def e_def)
  have k: "k \<le> length a - e" "utf8_wf (drop k (drop e a @ r))"
    unfolding k_def by (rule safe_len_spec [OF i(5)], simp)+
  have kall: "r = [] \<longrightarrow> k = length a - e" using safe_len_all [of "drop e a"] i(5) by (auto simp: k_def)
  obtain p l where pl: "final_at (a @ r) = Some (p, l)" "p + l \<le> e" "thought_text (sd_log sd) = take p (a @ r)"
      "final_text (sd_log sd) = dropWhile is_blank (take (e - (p + l)) (drop (p + l) (a @ r)))"
      "sd_skip_legacy_final_separator sd \<longleftrightarrow> final_text (sd_log sd) = []"
    using i(6) [unfolded stream_phase_def if_P [OF fin]] unfolding e_def by blast
  have more: "take (e + k - (p + l)) (drop (p + l) (a @ r))
      = take (e - (p + l)) (drop (p + l) (a @ r)) @ take k (drop e a)"
  proof -
    define d X where "d = e - (p + l)" and "X = drop (p + l) (a @ r)"
    have "e + k - (p + l) = d + k" using pl(2) by (simp add: d_def)
    moreover have "take (d + k) X = take d X @ take k (drop d X)" by (rule take_add)
    moreover have "drop d X = drop e a @ r" using pl(2) i(4) by (simp add: d_def X_def)
    moreover have "take k (drop e a @ r) = take k (drop e a)" using k(1) by simp
    ultimately show ?thesis unfolding d_def [symmetric] X_def [symmetric] by simp
  qed
  define c where "c = take k (drop e a)"
  define c' where "c' = (if sd_skip_legacy_final_separator sd then dropWhile is_blank c else c)"
  have fin': "final_text (sd_log sd) @ c' = dropWhile is_blank (take (e + k - (p + l)) (drop (p + l) (a @ r)))"
    unfolding more dropWhile_append_cases c_def [symmetric] c'_def using pl(4,5) by auto
  have wf': "utf8_wf (drop (e + k) (a @ r))" using k(2) i(4) by (simp add: add.commute)
  show ?thesis
  proof (cases "k = 0")
    case True
    then show ?thesis using inv fin kall e i(4)
      by (intro exI [of _ sd]) (auto simp: emit_safe_def k_def e_def)
  next
    case False
    show ?thesis
    proof (cases "c' = []")
      case True
      let ?sd = "sd\<lparr>sd_emitted_len := e + k\<rparr>"
      have "c \<noteq> []" using False k(1) by (auto simp: c_def)
      then have skip: "sd_skip_legacy_final_separator sd" using True by (auto simp: c'_def split: if_splits)
      have "emit_safe react_emit_final_delta sd (drop e a) (length a - e) = (0, ?sd)"
        using True False skip
        by (simp add: emit_safe_def k_def [symmetric] react_emit_final_delta_def c_def [symmetric] c'_def Let_def e_def [symmetric])
      moreover have "stream_phase (a @ r) ?sd"
        by (rule stream_phase_finalI [OF _ pl(1)]) (use fin pl(2,3,5) fin' skip True in simp_all)
      then have "stream_inv (a @ r) a ?sd"
        using inv k(1) i(4) wf' by (auto simp: stream_inv_def split: option.splits)
      ultimately show ?thesis using kall fin i(4) by (auto simp: e_def)
    next
      case c: False
      let ?sd = "sd\<lparr>sd_skip_legacy_final_separator := False, sd_log := sd_log sd @ [Text_event ''react.final.delta'' c'],
                    sd_emitted_len := e + k\<rparr>"
      have "emit_safe react_emit_final_delta sd (drop e a) (length a - e) = (0, ?sd)"
        using c False i(1)
        by (simp add: emit_safe_def k_def [symmetric] react_emit_final_delta_def c_def [symmetric] c'_def Let_def e_def [symmetric]
            split: if_splits)
      moreover have "stream_phase (a @ r) ?sd"
        by (rule stream_phase_finalI [OF _ pl(1)]) ((use c in \<open>simp; fail\<close>) | (use fin pl(2,3) fin' in \<open>simp; fail\<close>))+
      then have "stream_inv (a @ r) a ?sd"
        using inv k(1) i(4) wf' by (auto simp: stream_inv_def split: option.splits)
      ultimately show ?thesis using kall fin i(4) by (auto simp: e_def)
    qed
  qed
qed

lemma emit_safe_thought_inv:
  assumes inv: "stream_inv (a @ r) a sd" and fin: "\<not> sd_in_final sd"
    and n: "n \<le> length a - sd_emitted_len sd" "sd_emitted_len sd \<le> length a"
    and late: "\<forall>p l. final_at (a @ r) = Some (p, l) \<longrightarrow> sd_emitted_len sd + n \<le> p"
  shows "\<exists>sd'. emit_safe react_emit_thought_delta sd (drop (sd_emitted_len sd) a) n = (0, sd') \<and>
    stream_inv (a @ r) a sd' \<and> \<not> sd_in_final sd' \<and> sd_accumulated sd' = sd_accumulated sd \<and>
    (r = [] \<and> n = length a - sd_emitted_len sd \<longrightarrow> sd_emitted_len sd' = length a)"
proof -
  define e where "e = sd_emitted_len sd"
  define k where "k = react_utf8_safe_len (drop e a) n"
  have i: "sd_arena sd = []" "e \<le> length a" "utf8_wf (drop e a @ r)" "stream_phase (a @ r) sd"
    using inv by (auto simp: stream_inv_def e_def)
  have k: "k \<le> n" "utf8_wf (drop k (drop e a @ r))"
    unfolding k_def by (rule safe_len_spec [OF i(3)], use n in \<open>simp add: e_def\<close>)+
  have kall: "r = [] \<and> n = length a - e \<longrightarrow> k = length a - e" using safe_len_all [of "drop e a"] i(3) by (auto simp: k_def)
  have ph: "thought_text (sd_log sd) = take e (a @ r)" "final_text (sd_log sd) = []"
    using i(4) fin by (auto simp: stream_phase_def e_def)
  have more: "take (e + k) (a @ r) = take e (a @ r) @ take k (drop e a)" using k(1) n by (simp add: take_add e_def)
  have wf': "utf8_wf (drop (e + k) (a @ r))" using k(2) i(2) by (simp add: add.commute)
  have late': "\<forall>p l. final_at (a @ r) = Some (p, l) \<longrightarrow> e + k \<le> p" using late k(1) by (force simp: e_def)
  have le: "e + k \<le> length a" using k(1) n by (simp add: e_def)
  show ?thesis
  proof (cases "k = 0")
    case True
    then show ?thesis using inv fin kall i(2)
      by (intro exI [of _ sd]) (auto simp: emit_safe_def k_def e_def)
  next
    case False
    let ?c = "take k (drop e a)"
    let ?sd = "sd\<lparr>sd_log := sd_log sd @ [Output REACT_STEP_THOUGHT ?c, Text_event ''react.thought.delta'' ?c],
                  sd_emitted_len := e + k\<rparr>"
    have "?c \<noteq> []" using False le by simp
    then have "emit_safe react_emit_thought_delta sd (drop e a) n = (0, ?sd)"
      using False i(1) by (simp add: emit_safe_def k_def [symmetric] react_emit_thought_delta_def e_def [symmetric] Let_def)
    moreover have "stream_inv (a @ r) a ?sd"
      using inv fin ph more wf' late' le by (auto simp: stream_inv_def stream_phase_def split: option.splits)
    ultimately show ?thesis using kall fin i(2) by (auto simp: e_def)
  qed
qed

lemma enter_final_inv:
  assumes inv: "stream_inv (a @ r) a sd" and fin: "\<not> sd_in_final sd" and crlf: "crlf_only (a @ r)"
    and found: "react_find_final_marker a (sd_emitted_len sd) = Some (m, l)"
  shows "\<exists>sd'. enter_final sd a m l = (0, sd') \<and> stream_inv (a @ r) a sd' \<and> sd_in_final sd' \<and>
    sd_accumulated sd' = sd_accumulated sd"
proof -
  define e where "e = sd_emitted_len sd"
  have i: "sd_arena sd = []" "e \<le> length a" "utf8_wf (drop e (a @ r))"
      "thought_text (sd_log sd) = take e (a @ r)" "final_text (sd_log sd) = []"
      "\<forall>p l. final_at (a @ r) = Some (p, l) \<longrightarrow> e \<le> p"
    using inv fin unfolding stream_inv_def stream_phase_def e_def by auto
  have f: "final_at (a @ r) = Some (m, l)" using stream_found [OF i(2,6) crlf] found by (simp add: e_def)
  have mk: "marker_at (a @ r) m = Some l" using final_at_SomeD [OF f] by blast
  have mka: "m + l \<le> length a"
    using find_final_marker_spec [of a e] found marker_bounds(1) [of a m l] by (simp add: e_def)
  have em: "e \<le> m" using i(6) f by blast
  let ?c = "take (m - e) (drop e a)"
  let ?log = "if ?c = [] then sd_log sd
    else sd_log sd @ [Output REACT_STEP_THOUGHT ?c, Text_event ''react.thought.delta'' ?c]"
  let ?sd = "sd\<lparr>sd_log := ?log, sd_in_final := True, sd_skip_legacy_final_separator := True, sd_emitted_len := m + l\<rparr>"
  have ef: "enter_final sd a m l = (0, ?sd)"
    using i(1) by (auto simp: enter_final_def react_emit_thought_delta_def e_def [symmetric])
  have th: "take e (a @ r) @ ?c = take m (a @ r)"
    using em mka by (metis add_leD1 le_add_diff_inverse take_add take_append diff_is_0_eq' append_Nil2 take0
        le_trans)
  have "thought_text ?log = take m (a @ r)" "final_text ?log = []"
    using i(4,5) th by auto
  then have "stream_phase (a @ r) ?sd" by (intro stream_phase_finalI [OF _ f]) simp_all
  moreover have "utf8_wf (drop (m + l) (a @ r))" using wf_after_marker [OF i(3) em mk] .
  ultimately have "stream_inv (a @ r) a ?sd" using inv mka by (auto simp: stream_inv_def split: option.splits)
  then show ?thesis using ef by auto
qed

definition marker_fits :: "string \<Rightarrow> bool" where
  "marker_fits t \<longleftrightarrow> (case final_at t of None \<Rightarrow> True | Some (p, l) \<Rightarrow> l \<le> STREAM_HOLDBACK + 1)"

text \<open>While the marker is incomplete, what may be emitted stays before it.\<close>

lemma holdback_late:
  assumes inv: "stream_inv (a @ r) a sd" and fin: "\<not> sd_in_final sd" and fits: "marker_fits (a @ r)"
    and none: "react_find_final_marker a (sd_emitted_len sd) = None"
    and f: "final_at (a @ r) = Some (p, l)"
  shows "length a - STREAM_HOLDBACK \<le> p"
proof -
  have "length a < p + l"
    using stream_not_yet [OF _ _ none f] inv fin by (auto simp: stream_inv_def stream_phase_def)
  then show ?thesis using fits f by (simp add: marker_fits_def)
qed

lemma parse_emit_inv:
  assumes inv: "stream_inv (a @ r) a sd" and acc: "sd_accumulated sd = Some a"
    and t: "crlf_only (a @ r)" "marker_fits (a @ r)"
  shows "\<exists>sd'. react_stream_parse_emit sd = (0, sd') \<and> stream_inv (a @ r) a sd'"
proof -
  have fin_case: "\<exists>sd'. react_stream_parse_emit sd = (0, sd') \<and> stream_inv (a @ r) a sd'"
    if "stream_inv (a @ r) a sd" "sd_in_final sd" "sd_accumulated sd = Some a" for sd
    using emit_safe_final_inv [OF that(1,2)] that
    by (cases "length a \<le> sd_emitted_len sd")
      (auto simp: react_stream_parse_emit.simps [of sd] stream_inv_def Let_def)
  have prov: "\<not> sd_provisional_typed_content sd" and le: "sd_emitted_len sd \<le> length a"
    using inv by (auto simp: stream_inv_def)
  consider (short) "length a \<le> sd_emitted_len sd" | (final) "sd_in_final sd"
    | (found) m l where "\<not> length a \<le> sd_emitted_len sd" "\<not> sd_in_final sd"
        "react_find_final_marker a (sd_emitted_len sd) = Some (m, l)"
    | (none) "\<not> length a \<le> sd_emitted_len sd" "\<not> sd_in_final sd"
        "react_find_final_marker a (sd_emitted_len sd) = None"
    by (metis not_None_eq surj_pair)
  then show ?thesis
  proof cases
    case short
    then show ?thesis using inv acc by (simp add: react_stream_parse_emit.simps [of sd])
  next
    case final
    then show ?thesis using fin_case inv acc by blast
  next
    case found
    obtain sd1 where sd1: "enter_final sd a m l = (0, sd1)" "stream_inv (a @ r) a sd1" "sd_in_final sd1"
        "sd_accumulated sd1 = Some a"
      using enter_final_inv [OF inv found(2) t(1) found(3)] acc by auto
    have "react_stream_parse_emit sd = react_stream_parse_emit sd1"
      using found acc prov sd1(1) by (subst react_stream_parse_emit.simps) (simp add: Let_def)
    then show ?thesis using fin_case sd1 by metis
  next
    case none
    let ?n = "length a - sd_emitted_len sd - STREAM_HOLDBACK"
    show ?thesis
    proof (cases "length a - sd_emitted_len sd \<le> STREAM_HOLDBACK")
      case True
      then show ?thesis using none acc prov inv by (simp add: react_stream_parse_emit.simps [of sd] Let_def)
    next
      case False
      have "\<forall>p l. final_at (a @ r) = Some (p, l) \<longrightarrow> sd_emitted_len sd + ?n \<le> p"
        using holdback_late [OF inv none(2) t(2) none(3)] False by fastforce
      then obtain sd' where "emit_safe react_emit_thought_delta sd (drop (sd_emitted_len sd) a) ?n = (0, sd')"
          "stream_inv (a @ r) a sd'"
        using emit_safe_thought_inv [OF inv none(2) diff_le_self le] by blast
      then show ?thesis using none acc prov False
        by (auto simp: react_stream_parse_emit.simps [of sd] Let_def)
    qed
  qed
qed

lemma flush_inv:
  assumes inv: "stream_inv t t sd" and crlf: "crlf_only t"
  shows "\<exists>sd'. react_stream_flush sd = (0, sd') \<and> stream_inv t t sd' \<and> sd_emitted_len sd' = length t"
proof -
  have fin_case: "\<exists>sd'. react_stream_flush sd = (0, sd') \<and> stream_inv t t sd' \<and> sd_emitted_len sd' = length t"
    if "stream_inv t t sd" "sd_in_final sd" for sd
    using emit_safe_final_inv [of t "[]" sd] that
    by (cases "length t \<le> sd_emitted_len sd") (auto simp: react_stream_flush.simps [of sd] stream_inv_def Let_def)
  have i: "\<not> sd_provisional_typed_content sd" "sd_emitted_len sd \<le> length t" "sd_accumulated sd = Some t"
    using inv by (auto simp: stream_inv_def)
  consider (short) "length t \<le> sd_emitted_len sd" | (final) "sd_in_final sd"
    | (found) m l where "\<not> length t \<le> sd_emitted_len sd" "\<not> sd_in_final sd"
        "react_find_final_marker t (sd_emitted_len sd) = Some (m, l)"
    | (none) "\<not> length t \<le> sd_emitted_len sd" "\<not> sd_in_final sd"
        "react_find_final_marker t (sd_emitted_len sd) = None"
    by (metis not_None_eq surj_pair)
  then show ?thesis
  proof cases
    case short
    then show ?thesis using inv i by (simp add: react_stream_flush.simps [of sd])
  next
    case final
    then show ?thesis using fin_case inv by blast
  next
    case found
    obtain sd1 where sd1: "enter_final sd t m l = (0, sd1)" "stream_inv t t sd1" "sd_in_final sd1"
      using enter_final_inv [of t "[]" sd m l] inv found crlf by auto
    have "react_stream_flush sd = react_stream_flush sd1"
      using found i sd1(1) by (subst react_stream_flush.simps) (simp add: Let_def)
    then show ?thesis using fin_case sd1 by metis
  next
    case none
    have "length t < p + l" if "final_at t = Some (p, l)" for p l
      using stream_not_yet [of "sd_emitted_len sd" t "[]" p l] that none inv
      by (auto simp: stream_inv_def stream_phase_def)
    moreover have "p + l \<le> length t" if "final_at t = Some (p, l)" for p l
      using final_at_SomeD [OF that] marker_bounds(1) by blast
    ultimately have "final_at t = None" by (cases "final_at t") (auto simp: leD)
    then obtain sd' where "emit_safe react_emit_thought_delta sd (drop (sd_emitted_len sd) t) (length t - sd_emitted_len sd)
        = (0, sd')" "stream_inv t t sd'" "sd_emitted_len sd' = length t"
      using emit_safe_thought_inv [of t "[]" sd "length t - sd_emitted_len sd"] inv none i by auto
    then show ?thesis using none i by (auto simp: react_stream_flush.simps [of sd] Let_def)
  qed
qed

lemma accumulate_inv:
  assumes inv: "stream_inv t a sd"
  shows "stream_inv t (a @ tok) (stream_accumulate sd tok)"
proof -
  have i: "sd_arena sd = []" "sd_accumulated sd = Some a" using inv by (auto simp: stream_inv_def)
  obtain c where "stream_accumulate sd tok = sd\<lparr>sd_acc_cap := c, sd_accumulated := Some (a @ tok)\<rparr>"
  proof (cases "length a + length tok + 1 \<ge> sd_acc_cap sd")
    case True
    then show ?thesis using i that [of "(length a + length tok + 1) * 2"] by (simp add: stream_accumulate_def Let_def)
  next
    case False
    then show ?thesis using i that [of "sd_acc_cap sd"] by (simp add: stream_accumulate_def Let_def)
  qed
  then show ?thesis using inv by (auto simp: stream_inv_def stream_phase_def)
qed

lemma stream_cb_inv:
  assumes inv: "stream_inv (a @ tok @ r) a sd" and t: "crlf_only (a @ tok @ r)" "marker_fits (a @ tok @ r)"
  shows "\<exists>sd'. react_stream_cb False tok sd = (0, sd') \<and> stream_inv (a @ tok @ r) (a @ tok) sd'"
proof -
  have "stream_inv ((a @ tok) @ r) (a @ tok) (stream_accumulate sd tok)"
    using accumulate_inv [OF inv, of tok] by simp
  moreover from this have "sd_accumulated (stream_accumulate sd tok) = Some (a @ tok)" "\<not> sd_cancelled (stream_accumulate sd tok)"
    by (simp_all add: stream_inv_def)
  ultimately show ?thesis using parse_emit_inv [of "a @ tok" r] t by (auto simp: react_stream_cb_def Let_def)
qed

text \<open>One request: the callback for every token, and the flush at the end.\<close>

fun react_stream_run :: "string list \<Rightarrow> stream_data \<Rightarrow> rc \<times> stream_data" where
  "react_stream_run [] sd = react_stream_flush sd"
| "react_stream_run (tok # toks) sd =
     (let (rc, sd) = react_stream_cb False tok sd in if rc \<noteq> 0 then (rc, sd) else react_stream_run toks sd)"

lemma stream_run_inv:
  "stream_inv (a @ concat toks) a sd \<Longrightarrow> crlf_only (a @ concat toks) \<Longrightarrow> marker_fits (a @ concat toks) \<Longrightarrow>
   \<exists>sd'. react_stream_run toks sd = (0, sd') \<and> stream_inv (a @ concat toks) (a @ concat toks) sd' \<and>
     sd_emitted_len sd' = length (a @ concat toks)"
proof (induction toks arbitrary: a sd)
  case Nil
  then show ?case using flush_inv [of a sd] by simp
next
  case (Cons tok toks)
  obtain sd1 where 1: "react_stream_cb False tok sd = (0, sd1)" "stream_inv ((a @ tok) @ concat toks) (a @ tok) sd1"
    using stream_cb_inv [of a tok "concat toks" sd] Cons.prems by auto
  show ?case using Cons.IH [OF 1(2)] Cons.prems 1(1) by simp
qed

text \<open>
  C16. Streaming an answer is independent of how the model cuts it into tokens: when the answer is
  well-formed UTF-8, every carriage return is followed by a newline, and the line with the final
  marker (with its leading blanks) is at most 17 bytes up to the colon, then for every way to cut it,
  the concatenated thought deltas are exactly the text before the marker and the concatenated final
  deltas exactly the final answer that \<open>react_split_legacy_final\<close> takes from the whole text; without a
  marker everything is thought.
\<close>

theorem react_stream_chunking:
  assumes wf: "utf8_wf t" and crlf: "crlf_only t" and fits: "marker_fits t" and t: "concat toks = t"
  shows "\<exists>sd. react_stream_run toks (react_stream_start [] False) = (0, sd) \<and>
     (case react_find_final_marker t 0 of
        None \<Rightarrow> thought_text (sd_log sd) = t \<and> final_text (sd_log sd) = []
      | Some (p, l) \<Rightarrow> thought_text (sd_log sd) = take p t \<and>
          final_text (sd_log sd) = snd (react_split_legacy_final True t))"
proof -
  have "stream_inv ([] @ concat toks) [] (react_stream_start [] False)"
    using wf t by (simp add: stream_inv_def stream_phase_def react_stream_start_def)
  from stream_run_inv [OF this] obtain sd where sd: "react_stream_run toks (react_stream_start [] False) = (0, sd)"
      "stream_inv t t sd" "sd_emitted_len sd = length t"
    using crlf fits t by auto
  have ph: "stream_phase t sd" using sd(2) by (simp add: stream_inv_def)
  have "case final_at t of
        None \<Rightarrow> thought_text (sd_log sd) = t \<and> final_text (sd_log sd) = []
      | Some (p, l) \<Rightarrow> thought_text (sd_log sd) = take p t \<and> final_text (sd_log sd) = dropWhile is_blank (drop (p + l) t)"
  proof (cases "sd_in_final sd")
    case True
    from ph [unfolded stream_phase_def if_P [OF True]] obtain p l where "final_at t = Some (p, l)"
        "thought_text (sd_log sd) = take p t"
        "final_text (sd_log sd) = dropWhile is_blank (take (length t - (p + l)) (drop (p + l) t))"
      using sd(3) by auto
    then show ?thesis by simp
  next
    case False
    have "final_at t = None"
    proof (cases "final_at t")
      case (Some pl)
      obtain p l where pl: "pl = (p, l)" by (cases pl)
      have "length t \<le> p" using ph False Some sd(3) pl by (auto simp: stream_phase_def)
      moreover have m: "marker_at t p = Some l" using final_at_SomeD Some pl by blast
      ultimately show ?thesis using marker_bounds(1,2) [OF m] by simp
    qed simp
    then show ?thesis using ph False sd(3) by (simp add: stream_phase_def)
  qed
  then show ?thesis using sd(1)
    by (auto simp: final_at_def react_split_legacy_final_def split: option.splits)
qed

theorem react_stream_chunking_witness:
  "\<exists>sd. react_stream_run [''Let me see'', LF # ''Fin'', ''al: for'', ''ty-two''] (react_stream_start [] False) = (0, sd) \<and>
     thought_text (sd_log sd) = ''Let me see'' @ [LF] \<and> final_text (sd_log sd) = ''forty-two''"
proof -
  let ?t = "''Let me see'' @ [LF] @ ''Final: forty-two''"
  have f: "react_find_final_marker ?t 0 = Some (11, 6)" by code_simp
  have "\<exists>sd. react_stream_run [''Let me see'', LF # ''Fin'', ''al: for'', ''ty-two''] (react_stream_start [] False) = (0, sd) \<and>
     (case react_find_final_marker ?t 0 of
        None \<Rightarrow> thought_text (sd_log sd) = ?t \<and> final_text (sd_log sd) = []
      | Some (p, l) \<Rightarrow> thought_text (sd_log sd) = take p ?t \<and>
          final_text (sd_log sd) = snd (react_split_legacy_final True ?t))"
  proof (rule react_stream_chunking)
    show "utf8_wf ?t" by (rule utf8_wf_ascii) simp
    show "crlf_only ?t" by (auto simp: crlf_only_def nth_Cons split: nat.splits)
    show "marker_fits ?t" by (simp only: marker_fits_def final_at_def f) (simp add: STREAM_HOLDBACK_def)
  qed simp
  then show ?thesis by (simp add: f [simplified] react_split_legacy_final_def is_blank_def)
qed

text \<open>With more leading blanks the streamed classification differs from the one made at the end: the
  part of the marker line that was already emitted hides the start of the line.\<close>

theorem react_stream_misses_indented_marker:
  "final_text (sd_log (snd (react_stream_run [''ok'' @ [LF] @ ''      Final answer'', '': 42''] (react_stream_start [] False)))) = []
   \<and> snd (react_split_legacy_final True (''ok'' @ [LF] @ ''      Final answer: 42'')) = ''42''"
  by code_simp

end
