(* ===== verification/Tools.thy ===== *)
theory Tools
  imports Strmap Json "HOL-Library.Multiset"
begin

text \<open>
  The tool registry and the tool results of \<open>src/agent/tool.c\<close>.

  A registry is an array of at most 128 entries with a count, a list of at most 32 disabled names,
  and two string maps over them that only speed lookups up: insertions into the maps may fail and
  their result is ignored, so a map may lack names that the arrays hold.  The value the first map
  keeps for a name is a pointer into the array, here its index.  A registry pointer is never null
  in the model; the operations' other null arguments are \<open>None\<close>.

  A tool result collects a JSON envelope, the slots for its parts, the printed text and up to 32
  artifacts.  Once a result is finalized its slots point into the envelope.  \<open>cJSON_Parse\<close>,
  \<open>cJSON_PrintUnformatted\<close>, the conversion of an integer to a JSON number and \<open>strerror\<close> are
  arguments; so is the function of a tool, which may do anything to the result it is given.
\<close>

definition TOOL_NAME_MAX :: nat where "TOOL_NAME_MAX = 512"
definition TOOL_DESC_MAX :: nat where "TOOL_DESC_MAX = 8192"
definition TOOL_SCHEMA_MAX :: nat where "TOOL_SCHEMA_MAX = 8192"
definition TOOL_FORMAT_MAX :: nat where "TOOL_FORMAT_MAX = 16384"
definition TOOL_MAX_ENTRIES :: nat where "TOOL_MAX_ENTRIES = 128"
definition TOOL_DISABLED_MAX :: nat where "TOOL_DISABLED_MAX = 32"
definition TOOL_ARTIFACT_MAX :: nat where "TOOL_ARTIFACT_MAX = 32"
definition TOOL_PATH_MAX :: nat where "TOOL_PATH_MAX = 4096"
definition TOOL_FLAG_READONLY :: "32 word" where "TOOL_FLAG_READONLY = 0x01"
definition TOOL_FLAG_INTERNAL_APPROVAL :: "32 word" where "TOOL_FLAG_INTERNAL_APPROVAL = 0x02"
definition TOOL_FLAG_DYNAMIC :: "32 word" where "TOOL_FLAG_DYNAMIC = 0x04"

abbreviation (input) ENOSYS :: int where "ENOSYS \<equiv> 38"

section \<open>Tool results\<close>

datatype tool_artifact_kind = TOOL_ARTIFACT_FILE | TOOL_ARTIFACT_IMAGE | TOOL_ARTIFACT_VIDEO

record tool_artifact =
  ta_kind :: tool_artifact_kind
  ta_path :: string
  ta_mime :: string
  ta_label :: string
  ta_width :: int
  ta_height :: int
  ta_duration_seconds :: int
  ta_size_bytes :: int

record 'd tool_result =
  tr_envelope :: "'d members option"
  tr_text :: "string option"
  tr_data :: "'d json option"
  tr_ui :: "'d json option"
  tr_meta :: "'d json option"
  tr_artifacts :: "tool_artifact list"

definition tool_result_init :: "'d tool_result" where
  "tool_result_init = \<lparr>tr_envelope = None, tr_text = None, tr_data = None, tr_ui = None, tr_meta = None,
     tr_artifacts = []\<rparr>"

text \<open>\<open>tool_result_clear\<close> frees what the result owns and starts again.\<close>

definition tool_result_clear :: "'d tool_result \<Rightarrow> 'd tool_result" where
  "tool_result_clear r = tool_result_init"

definition tool_result_set_owned_text :: "'d tool_result \<Rightarrow> string option \<Rightarrow> rc \<times> 'd tool_result" where
  "tool_result_set_owned_text r s = (case s of None \<Rightarrow> (- ENOMEM, r) | Some t \<Rightarrow> (0, r\<lparr>tr_text := Some (cstr t)\<rparr>))"

text \<open>
  \<open>tool_result_replace_envelope_field\<close> for the slots \<open>ui\<close> and \<open>meta\<close>: \<open>upd\<close> writes the slot.
  With an envelope the old member is deleted first; when the new one cannot be added the slot is
  left null and the value is gone.
\<close>

definition tool_result_replace_envelope_field ::
    "allocs \<Rightarrow> 'd tool_result \<Rightarrow> string \<Rightarrow> (('d json option \<Rightarrow> 'd json option) \<Rightarrow> 'd tool_result \<Rightarrow> 'd tool_result)
     \<Rightarrow> 'd json option \<Rightarrow> rc \<times> 'd tool_result" where
  "tool_result_replace_envelope_field bs r name upd v =
     (case v of
        None \<Rightarrow> (- ENOMEM, r)
      | Some j \<Rightarrow>
         (case tr_envelope r of
            None \<Rightarrow> (0, upd (\<lambda>_. Some j) r)
          | Some ms \<Rightarrow>
             (let ms' = delete_member ms name
              in case cJSON_AddItemToObject bs ms' name j of
                   None \<Rightarrow> (- ENOMEM, upd (\<lambda>_. None) (r\<lparr>tr_envelope := Some ms'\<rparr>))
                 | Some (ms'', _) \<Rightarrow> (0, upd (\<lambda>_. Some j) (r\<lparr>tr_envelope := Some ms''\<rparr>)))))"

definition tool_result_set_ui :: "allocs \<Rightarrow> 'd tool_result \<Rightarrow> 'd json option \<Rightarrow> rc \<times> 'd tool_result" where
  "tool_result_set_ui bs r ui = tool_result_replace_envelope_field bs r ''ui'' tr_ui_update ui"

definition tool_result_set_meta :: "allocs \<Rightarrow> 'd tool_result \<Rightarrow> 'd json option \<Rightarrow> rc \<times> 'd tool_result" where
  "tool_result_set_meta bs r m = tool_result_replace_envelope_field bs r ''meta'' tr_meta_update m"

text \<open>\<open>tool_result_detach_or_object\<close>: the value of a slot, or a new empty object.\<close>

definition tool_result_detach_or_object :: "allocs \<Rightarrow> 'd json option \<Rightarrow> ('d json \<times> allocs) option" where
  "tool_result_detach_or_object bs slot =
     (case slot of Some j \<Rightarrow> Some (j, bs) | None \<Rightarrow> cJSON_create bs (cJSON_Object []))"

text \<open>The envelope of a success: \<open>ok\<close> and \<open>data\<close>.\<close>

definition success_envelope :: "allocs \<Rightarrow> 'd json option \<Rightarrow> ('d members \<times> allocs) option" where
  "success_envelope bs slot = do {
     (ms, bs) \<leftarrow> cJSON_AddItemToObject bs [] ''ok'' cJSON_True;
     (item, bs) \<leftarrow> tool_result_detach_or_object bs slot;
     cJSON_AddItemToObject bs ms ''data'' item
   }"

definition tool_result_success :: "allocs \<Rightarrow> 'd tool_result \<Rightarrow> 'd json option \<Rightarrow> rc \<times> 'd tool_result" where
  "tool_result_success bs r dat =
     (case tool_result_detach_or_object bs dat of
        None \<Rightarrow> (- ENOMEM, tool_result_init)
      | Some (j, bs) \<Rightarrow>
         (case cJSON_create bs ([] :: 'd members) of
            None \<Rightarrow> (- ENOMEM, tool_result_init)
          | Some (_, bs) \<Rightarrow>
             (case success_envelope bs (Some j) of
                None \<Rightarrow> (- ENOMEM, tool_result_init)
              | Some (ms, _) \<Rightarrow> (0, tool_result_init\<lparr>tr_envelope := Some ms\<rparr>))))"

definition tool_result_success_text :: "allocs \<Rightarrow> 'd tool_result \<Rightarrow> string option \<Rightarrow> rc \<times> 'd tool_result" where
  "tool_result_success_text bs r txt' =
     (case (do { (_, bs) \<leftarrow> cJSON_create bs ();
                 cJSON_AddItemToObject bs [] ''text'' (cJSON_String (case txt' of None \<Rightarrow> [] | Some t \<Rightarrow> t)) }) of
        None \<Rightarrow> (- ENOMEM, r)
      | Some (ms, bs) \<Rightarrow> tool_result_success bs r (Some (cJSON_Object ms)))"

text \<open>The envelope of a failure: \<open>ok\<close> and an \<open>error\<close> with its code, message and details.\<close>

definition error_envelope :: "allocs \<Rightarrow> string \<Rightarrow> string \<Rightarrow> 'd json \<Rightarrow> ('d members \<times> allocs) option" where
  "error_envelope bs code msg details = do {
     (ms, bs) \<leftarrow> cJSON_AddItemToObject bs [] ''ok'' cJSON_False;
     (er, bs) \<leftarrow> cJSON_AddItemToObject bs [] ''code'' (cJSON_String code);
     (er, bs) \<leftarrow> cJSON_AddItemToObject bs er ''message'' (cJSON_String msg);
     (er, bs) \<leftarrow> cJSON_AddItemToObject bs er ''details'' details;
     cJSON_AddItemToObject bs ms ''error'' (cJSON_Object er)
   }"

definition tool_result_error ::
    "allocs \<Rightarrow> 'd tool_result \<Rightarrow> string option \<Rightarrow> string option \<Rightarrow> rc \<times> 'd tool_result" where
  "tool_result_error bs r code msg =
     (case (do { (_, bs) \<leftarrow> cJSON_create bs (); (_, bs) \<leftarrow> cJSON_create bs (); (_, bs) \<leftarrow> cJSON_create bs ();
                 error_envelope bs (case code of None \<Rightarrow> ''tool_failed'' | Some c \<Rightarrow> c)
                   (case msg of None \<Rightarrow> [] | Some m \<Rightarrow> m) (cJSON_Object []) }) of
        None \<Rightarrow> (- ENOMEM, tool_result_init)
      | Some (ms, _) \<Rightarrow> (0, tool_result_init\<lparr>tr_envelope := Some ms\<rparr>))"

text \<open>\<open>tool_result_success_json_text\<close>: text that does not parse is the \<open>text\<close> of a success; an
  object with an \<open>error\<close> member becomes a failure whose details are the object.\<close>

definition tool_result_success_json_text ::
    "(string \<Rightarrow> 'd json option) \<Rightarrow> allocs \<Rightarrow> 'd tool_result \<Rightarrow> string option \<Rightarrow> rc \<times> 'd tool_result" where
  "tool_result_success_json_text parse bs r json =
     (case json of
        None \<Rightarrow> (- ENOMEM, r)
      | Some s \<Rightarrow>
         (case parse s of
            None \<Rightarrow> tool_result_success_text bs r (Some s)
          | Some dat \<Rightarrow>
             (case cJSON_GetObjectItem (Some dat) ''error'' of
                None \<Rightarrow> tool_result_success bs r (Some dat)
              | Some er \<Rightarrow>
                 (case (do { (_, bs) \<leftarrow> cJSON_create bs (); (_, bs) \<leftarrow> cJSON_create bs ();
                             error_envelope bs ''tool_failed''
                               (case er of cJSON_String m \<Rightarrow> m | _ \<Rightarrow> ''tool failed'') dat }) of
                    None \<Rightarrow> (- ENOMEM, tool_result_init)
                  | Some (ms, _) \<Rightarrow> (0, tool_result_init\<lparr>tr_envelope := Some ms\<rparr>)))))"

text \<open>The two formatting variants; \<open>formatted\<close> is what the byte buffer holds after
  \<open>morph_buf_vprintf\<close>, or its error.\<close>

definition tool_result_successf ::
    "(string \<Rightarrow> 'd json option) \<Rightarrow> allocs \<Rightarrow> 'd tool_result \<Rightarrow> rc + string \<Rightarrow> rc \<times> 'd tool_result" where
  "tool_result_successf parse bs r formatted =
     (case formatted of Inl rc \<Rightarrow> (rc, r) | Inr s \<Rightarrow> tool_result_success_json_text parse bs r (Some s))"

definition tool_result_errorf ::
    "allocs \<Rightarrow> 'd tool_result \<Rightarrow> string option \<Rightarrow> rc + string \<Rightarrow> rc \<times> 'd tool_result" where
  "tool_result_errorf bs r code formatted =
     (case formatted of Inl rc \<Rightarrow> (rc, r) | Inr s \<Rightarrow> tool_result_error bs r code (Some s))"

definition tool_artifact_kind_name :: "tool_artifact_kind \<Rightarrow> string" where
  "tool_artifact_kind_name kind =
     (case kind of TOOL_ARTIFACT_IMAGE \<Rightarrow> ''image'' | TOOL_ARTIFACT_VIDEO \<Rightarrow> ''video'' | TOOL_ARTIFACT_FILE \<Rightarrow> ''file'')"

definition tool_artifact_kind_from_string :: "string option \<Rightarrow> tool_artifact_kind" where
  "tool_artifact_kind_from_string kind =
     (if kind = Some ''image'' then TOOL_ARTIFACT_IMAGE
      else if kind = Some ''video'' then TOOL_ARTIFACT_VIDEO else TOOL_ARTIFACT_FILE)"

definition tool_result_add_artifact ::
    "'d tool_result \<Rightarrow> tool_artifact_kind \<Rightarrow> string option \<Rightarrow> rc \<times> 'd tool_result" where
  "tool_result_add_artifact r kind path =
     (case path of
        None \<Rightarrow> (- EINVAL, r)
      | Some p \<Rightarrow>
         if p = [] then (- EINVAL, r)
         else if length (tr_artifacts r) \<ge> TOOL_ARTIFACT_MAX then (- ENOSPC, r)
         else (0, r\<lparr>tr_artifacts := tr_artifacts r @ [\<lparr>ta_kind = kind, ta_path = strncpy_fixed TOOL_PATH_MAX p,
                 ta_mime = [], ta_label = [], ta_width = 0, ta_height = 0, ta_duration_seconds = 0,
                 ta_size_bytes = 0\<rparr>]\<rparr>))"

definition update_last :: "('a \<Rightarrow> 'a) \<Rightarrow> 'a list \<Rightarrow> 'a list" where
  "update_last f xs = (if xs = [] then [] else butlast xs @ [f (last xs)])"

definition tool_result_add_image ::
    "'d tool_result \<Rightarrow> string option \<Rightarrow> int \<Rightarrow> int \<Rightarrow> rc \<times> 'd tool_result" where
  "tool_result_add_image r path width height =
     (let (rc, r') = tool_result_add_artifact r TOOL_ARTIFACT_IMAGE path
      in if rc < 0 then (rc, r')
         else (0, r'\<lparr>tr_artifacts := update_last (\<lambda>a. a\<lparr>ta_width := width, ta_height := height\<rparr>) (tr_artifacts r')\<rparr>))"

definition tool_result_add_video :: "'d tool_result \<Rightarrow> string option \<Rightarrow> int \<Rightarrow> rc \<times> 'd tool_result" where
  "tool_result_add_video r path duration_seconds =
     (let (rc, r') = tool_result_add_artifact r TOOL_ARTIFACT_VIDEO path
      in if rc < 0 then (rc, r')
         else (0, r'\<lparr>tr_artifacts := update_last (\<lambda>a. a\<lparr>ta_duration_seconds := duration_seconds\<rparr>) (tr_artifacts r')\<rparr>))"

text \<open>One artifact as an object; the additions' results are ignored.\<close>

definition artifact_to_json :: "(int \<Rightarrow> 'd) \<Rightarrow> allocs \<Rightarrow> tool_artifact \<Rightarrow> 'd members \<times> allocs" where
  "artifact_to_json num bs a =
     (let (ms, bs) = add_or_skip bs [] ''kind'' (cJSON_String (tool_artifact_kind_name (ta_kind a)));
          (ms, bs) = add_or_skip bs ms ''path'' (cJSON_String (ta_path a));
          (ms, bs) = (if ta_mime a \<noteq> [] then add_or_skip bs ms ''mime'' (cJSON_String (ta_mime a)) else (ms, bs));
          (ms, bs) = (if ta_label a \<noteq> [] then add_or_skip bs ms ''label'' (cJSON_String (ta_label a)) else (ms, bs));
          (ms, bs) = (if ta_width a > 0 then add_or_skip bs ms ''width'' (cJSON_Number (num (ta_width a))) else (ms, bs));
          (ms, bs) = (if ta_height a > 0 then add_or_skip bs ms ''height'' (cJSON_Number (num (ta_height a))) else (ms, bs));
          (ms, bs) = (if ta_duration_seconds a > 0
                      then add_or_skip bs ms ''duration_seconds'' (cJSON_Number (num (ta_duration_seconds a))) else (ms, bs))
      in if ta_size_bytes a > 0 then add_or_skip bs ms ''size_bytes'' (cJSON_Number (num (ta_size_bytes a))) else (ms, bs))"

fun artifacts_to_json :: "(int \<Rightarrow> 'd) \<Rightarrow> allocs \<Rightarrow> tool_artifact list \<Rightarrow> 'd json list \<Rightarrow> ('d json list \<times> allocs) option" where
  "artifacts_to_json num bs [] acc = Some (acc, bs)"
| "artifacts_to_json num bs (a # as) acc = do {
     (_, bs) \<leftarrow> cJSON_create bs ();
     let (ms, bs) = artifact_to_json num bs a;
     artifacts_to_json num bs as (acc @ [cJSON_Object ms])
   }"

definition tool_artifact_list_to_json :: "(int \<Rightarrow> 'd) \<Rightarrow> allocs \<Rightarrow> tool_artifact list \<Rightarrow> ('d json \<times> allocs) option" where
  "tool_artifact_list_to_json num bs as = do {
     (_, bs) \<leftarrow> cJSON_create bs ();
     (js, bs) \<leftarrow> artifacts_to_json num bs as [];
     Some (cJSON_Array js, bs)
   }"

definition artifact_of_item :: "'d tool_result \<Rightarrow> 'd json \<Rightarrow> 'd tool_result" where
  "artifact_of_item r item =
     (let kind = cJSON_GetObjectItem (Some item) ''kind'';
          path = cJSON_GetObjectItem (Some item) ''path'';
          path = (if cJSON_IsString path then path else cJSON_GetObjectItem (Some item) ''output_path'')
      in case cJSON_GetStringValue path of
           None \<Rightarrow> r
         | Some p \<Rightarrow> snd (tool_result_add_artifact r (tool_artifact_kind_from_string (cJSON_GetStringValue kind)) (Some p)))"

definition tool_result_take_artifacts :: "'d tool_result \<Rightarrow> 'd json option \<Rightarrow> rc \<times> 'd tool_result" where
  "tool_result_take_artifacts r arts =
     (case arts of
        None \<Rightarrow> (- ENOMEM, r)
      | Some j \<Rightarrow>
         (let r' = r\<lparr>tr_artifacts := []\<rparr>
          in (0, case j of cJSON_Array items \<Rightarrow> foldl artifact_of_item r' items
                         | cJSON_Object _ \<Rightarrow> artifact_of_item r' j
                         | _ \<Rightarrow> r')))"

text \<open>\<open>tool_result_finalize\<close>.  The scalar members of \<open>data\<close> are repeated in the envelope unless it
  has a member of that name.\<close>

fun hoist_members :: "allocs \<Rightarrow> 'd members \<Rightarrow> 'd members \<Rightarrow> ('d members \<times> allocs) option" where
  "hoist_members bs ms [] = Some (ms, bs)"
| "hoist_members bs ms ((k, v) # rest) =
     (if find_member ms k \<noteq> None \<or> cJSON_IsArray (Some v) \<or> cJSON_IsObject (Some v)
      then hoist_members bs ms rest
      else do {
        (dup, bs) \<leftarrow> cJSON_create bs v;
        (ms, bs) \<leftarrow> cJSON_AddItemToObject bs ms k dup;
        hoist_members bs ms rest
      })"

definition finalize_members :: "allocs \<Rightarrow> 'd tool_result \<Rightarrow> 'd json \<Rightarrow> 'd members \<Rightarrow> ('d members \<times> allocs) option" where
  "finalize_members bs r arts ms = do {
     (ms, bs) \<leftarrow> cJSON_AddItemToObject bs (delete_member ms ''artifacts'') ''artifacts'' arts;
     (ms, bs) \<leftarrow> (if find_member ms ''ui'' \<noteq> None then Some (ms, bs)
                  else cJSON_AddItemToObject bs ms ''ui'' (case tr_ui r of Some j \<Rightarrow> j | None \<Rightarrow> cJSON_NULL));
     (ms, bs) \<leftarrow> (if find_member ms ''meta'' \<noteq> None then Some (ms, bs)
                  else do { (item, bs) \<leftarrow> tool_result_detach_or_object bs (tr_meta r);
                            cJSON_AddItemToObject bs ms ''meta'' item });
     (case find_member ms ''data'' of Some (cJSON_Object ds) \<Rightarrow> hoist_members bs ms ds | _ \<Rightarrow> Some (ms, bs))
   }"

text \<open>The second half: artifacts, the other members, the slots and the text, for an envelope \<open>ms\<close>.\<close>

definition finalize_envelope ::
    "(int \<Rightarrow> 'd) \<Rightarrow> ('d json \<Rightarrow> string option) \<Rightarrow> allocs \<Rightarrow> 'd tool_result \<Rightarrow> 'd members \<Rightarrow> rc \<times> 'd tool_result" where
  "finalize_envelope num print bs r ms =
     (case tool_artifact_list_to_json num bs (tr_artifacts r) of
        None \<Rightarrow> (- ENOMEM, r\<lparr>tr_envelope := Some ms\<rparr>)
      | Some (arts, bs) \<Rightarrow>
         (case finalize_members bs r arts ms of
            None \<Rightarrow> (- ENOMEM, tool_result_init)
          | Some (ms, bs) \<Rightarrow>
              tool_result_set_owned_text
                (r\<lparr>tr_envelope := Some ms, tr_data := find_member ms ''data'', tr_ui := find_member ms ''ui'',
                   tr_meta := find_member ms ''meta''\<rparr>) (print (cJSON_Object ms))))"

definition tool_result_finalize ::
    "(int \<Rightarrow> 'd) \<Rightarrow> ('d json \<Rightarrow> string option) \<Rightarrow> allocs \<Rightarrow> 'd tool_result \<Rightarrow> rc \<times> 'd tool_result" where
  "tool_result_finalize num print bs r =
     (case tr_envelope r of
        Some ms \<Rightarrow> finalize_envelope num print bs r ms
      | None \<Rightarrow>
         (case cJSON_create bs () of
            None \<Rightarrow> (- ENOMEM, r)
          | Some (_, bs) \<Rightarrow>
             (case success_envelope bs (tr_data r) of
                None \<Rightarrow> (- ENOMEM, tool_result_init)
              | Some (ms, bs) \<Rightarrow> finalize_envelope num print bs (r\<lparr>tr_data := None\<rparr>) ms)))"

section \<open>The registry\<close>

datatype tool_origin = TOOL_ORIGIN_BUILTIN | TOOL_ORIGIN_DYNAMIC_SESSION | TOOL_ORIGIN_DYNAMIC_PERSISTENT
  | TOOL_ORIGIN_MCP | TOOL_ORIGIN_EXT

text \<open>\<open>enum tool_input_kind\<close>, with any other value an \<open>int\<close> of the enum type can hold.\<close>

datatype tool_input_kind = TOOL_INPUT_JSON | TOOL_INPUT_TEXT | TOOL_INPUT_OTHER int

text \<open>The function of a tool: arguments, result and user data to the return code and the result.\<close>

type_synonym ('d, 'u) tool_exec_fn = "string option \<Rightarrow> 'd tool_result \<Rightarrow> 'u option \<Rightarrow> rc \<times> 'd tool_result"

record tool_desc =
  td_name :: string
  td_title :: string
  td_description :: string
  td_input_schema :: string
  td_output_schema :: string
  td_input_kind :: tool_input_kind
  td_input_format :: string

record ('d, 'u) tool_entry =
  te_desc :: tool_desc
  te_exec :: "('d, 'u) tool_exec_fn option"
  te_user_data :: "'u option"
  te_user_data_destroy :: bool
  te_origin :: tool_origin
  te_flags :: "32 word"
  te_timeout_seconds :: int

record ('d, 'u) tool_spec =
  ts_origin :: tool_origin
  ts_name :: "string option"
  ts_title :: "string option"
  ts_description :: "string option"
  ts_input_schema :: "string option"
  ts_output_schema :: "string option"
  ts_input_kind :: tool_input_kind
  ts_input_format :: "string option"
  ts_exec :: "('d, 'u) tool_exec_fn option"
  ts_user_data :: "'u option"
  ts_user_data_destroy :: bool
  ts_flags :: "32 word"
  ts_timeout_seconds :: int

record ('d, 'u) tool_registry =
  rg_entries :: "('d, 'u) tool_entry list"
  rg_disabled :: "string list"
  rg_by_name :: "nat strmap"
  rg_disabled_by_name :: "nat strmap"

abbreviation entry_name :: "('d, 'u) tool_entry \<Rightarrow> string" where
  "entry_name e \<equiv> td_name (te_desc e)"

definition strmap_null :: "'v strmap" where
  "strmap_null = \<lparr>m_entries = None, m_count = 0, m_cap = 0, m_deleted = 0\<rparr>"

definition init_or_null :: "bool \<Rightarrow> size_t \<Rightarrow> 'v strmap" where
  "init_or_null ok cap = (case morph_strmap_init ok cap of Inl _ \<Rightarrow> strmap_null | Inr m \<Rightarrow> m)"

definition tool_registry_init :: "bool \<Rightarrow> bool \<Rightarrow> ('d, 'u) tool_registry" where
  "tool_registry_init ok1 ok2 =
     \<lparr>rg_entries = [], rg_disabled = [], rg_by_name = init_or_null ok1 TOOL_MAX_ENTRIES,
      rg_disabled_by_name = init_or_null ok2 TOOL_DISABLED_MAX\<rparr>"

text \<open>The user data whose destructor a loop over the entries calls, in order.\<close>

definition destroyed :: "('d, 'u) tool_entry list \<Rightarrow> 'u list" where
  "destroyed es = concat (map (\<lambda>e. case te_user_data e of
      Some u \<Rightarrow> if te_user_data_destroy e then [u] else [] | None \<Rightarrow> []) es)"

definition tool_entry_cleanup_user_data :: "('d, 'u) tool_registry \<Rightarrow> 'u list \<times> ('d, 'u) tool_registry" where
  "tool_entry_cleanup_user_data reg =
     (destroyed (rg_entries reg), reg\<lparr>rg_entries := map (\<lambda>e. e\<lparr>te_user_data := None\<rparr>) (rg_entries reg)\<rparr>)"

definition tool_registry_cleanup :: "('d, 'u) tool_registry \<Rightarrow> 'u list \<times> ('d, 'u) tool_registry" where
  "tool_registry_cleanup reg =
     (let (us, reg) = tool_entry_cleanup_user_data reg
      in (us, reg\<lparr>rg_by_name := morph_strmap_cleanup (rg_by_name reg),
                  rg_disabled_by_name := morph_strmap_cleanup (rg_disabled_by_name reg)\<rparr>))"

definition tool_origin_name :: "tool_origin \<Rightarrow> string" where
  "tool_origin_name origin = (case origin of
       TOOL_ORIGIN_BUILTIN \<Rightarrow> ''system built-in''
     | TOOL_ORIGIN_DYNAMIC_SESSION \<Rightarrow> ''dynamic session''
     | TOOL_ORIGIN_DYNAMIC_PERSISTENT \<Rightarrow> ''dynamic persistent''
     | TOOL_ORIGIN_MCP \<Rightarrow> ''mcp''
     | TOOL_ORIGIN_EXT \<Rightarrow> ''ext'')"

text \<open>The linear search: the first position of a name.\<close>

fun index_of :: "string list \<Rightarrow> string \<Rightarrow> nat option" where
  "index_of [] name = None"
| "index_of (x # xs) name = (if x = name then Some 0 else map_option Suc (index_of xs name))"

text \<open>\<open>find_tool\<close>: the index, \<open>Some None\<close> for \<open>-1\<close>; \<open>None\<close> would be a lookup in the map that does not
  return.\<close>

definition find_tool :: "('d, 'u) tool_registry \<Rightarrow> string option \<Rightarrow> nat option option" where
  "find_tool reg name =
     (case name of
        None \<Rightarrow> Some None
      | Some n \<Rightarrow>
         (case morph_strmap_get (rg_by_name reg) (Some n) of
            None \<Rightarrow> None
          | Some (Some i) \<Rightarrow> Some (Some i)
          | Some None \<Rightarrow> Some (index_of (map entry_name (rg_entries reg)) n)))"

text \<open>An insertion into an index whose result is ignored, with the answers of the allocator for
  the table and the key.\<close>

definition set_ignored :: "bool \<times> bool \<Rightarrow> 'v strmap \<Rightarrow> string \<Rightarrow> 'v \<Rightarrow> 'v strmap option" where
  "set_ignored ok m k v = map_option snd (morph_strmap_set (fst ok) (snd ok) m (Some k) (Some v))"

fun index_names :: "(nat \<Rightarrow> bool \<times> bool) \<Rightarrow> nat strmap \<Rightarrow> nat \<Rightarrow> string list \<Rightarrow> nat strmap option" where
  "index_names ok m i [] = Some m"
| "index_names ok m i (n # ns) = do { m' \<leftarrow> set_ignored (ok i) m n i; index_names ok m' (Suc i) ns }"

definition rebuild_tool_name_index ::
    "(nat \<Rightarrow> bool \<times> bool) \<Rightarrow> ('d, 'u) tool_registry \<Rightarrow> ('d, 'u) tool_registry option" where
  "rebuild_tool_name_index ok reg =
     map_option (\<lambda>m. reg\<lparr>rg_by_name := m\<rparr>)
       (index_names ok (morph_strmap_clear (rg_by_name reg)) 0 (map entry_name (rg_entries reg)))"

definition tool_enable_remove_disabled ::
    "(nat \<Rightarrow> bool \<times> bool) \<Rightarrow> ('d, 'u) tool_registry \<Rightarrow> string \<Rightarrow> ('d, 'u) tool_registry option" where
  "tool_enable_remove_disabled ok reg name =
     (case index_of (rg_disabled reg) name of
        None \<Rightarrow> Some reg
      | Some i \<Rightarrow>
         (let ds = take i (rg_disabled reg) @ drop (Suc i) (rg_disabled reg)
          in map_option (\<lambda>m. reg\<lparr>rg_disabled := ds, rg_disabled_by_name := m\<rparr>)
               (index_names ok (morph_strmap_clear (rg_disabled_by_name reg)) 0 ds)))"

fun required_known :: "'d json option \<Rightarrow> 'd json list \<Rightarrow> bool" where
  "required_known props [] = True"
| "required_known props (item # items) =
     (case item of
        cJSON_String s \<Rightarrow> cJSON_GetObjectItem props s \<noteq> None \<and> required_known props items
      | _ \<Rightarrow> False)"

definition tool_schema_validate :: "(string \<Rightarrow> 'd json option) \<Rightarrow> string option \<Rightarrow> bool \<Rightarrow> rc" where
  "tool_schema_validate parse schema require_closed =
     (case schema of
        None \<Rightarrow> - EINVAL
      | Some s \<Rightarrow>
         if s = [] then - EINVAL
         else case parse s of
           None \<Rightarrow> MORPH_ERR_PARSE
         | Some root \<Rightarrow>
            (let typ = cJSON_GetObjectItem (Some root) ''type'';
                 props = cJSON_GetObjectItem (Some root) ''properties'';
                 required = cJSON_GetObjectItem (Some root) ''required''
             in if \<not> cJSON_IsObject (Some root) then - EINVAL
                else if cJSON_GetStringValue typ \<noteq> Some ''object'' \<or> \<not> cJSON_IsObject props then - EINVAL
                else if require_closed \<and>
                        \<not> cJSON_IsFalse (cJSON_GetObjectItem (Some root) ''additionalProperties'') then - EINVAL
                else case required of
                  None \<Rightarrow> 0
                | Some (cJSON_Array items) \<Rightarrow> if required_known props items then 0 else - EINVAL
                | Some _ \<Rightarrow> - EINVAL))"

definition str_or_empty :: "nat \<Rightarrow> string option \<Rightarrow> string" where
  "str_or_empty n s = (case s of None \<Rightarrow> [] | Some t \<Rightarrow> strncpy_fixed n t)"

definition entry_of_spec :: "('d, 'u) tool_spec \<Rightarrow> string \<Rightarrow> ('d, 'u) tool_entry" where
  "entry_of_spec spec name =
     \<lparr>te_desc = \<lparr>td_name = strncpy_fixed TOOL_NAME_MAX name,
         td_title = str_or_empty TOOL_NAME_MAX (ts_title spec),
         td_description = str_or_empty TOOL_DESC_MAX (ts_description spec),
         td_input_schema = str_or_empty TOOL_SCHEMA_MAX (ts_input_schema spec),
         td_output_schema = str_or_empty TOOL_SCHEMA_MAX (ts_output_schema spec),
         td_input_kind = ts_input_kind spec,
         td_input_format = str_or_empty TOOL_FORMAT_MAX (ts_input_format spec)\<rparr>,
      te_exec = ts_exec spec, te_user_data = ts_user_data spec,
      te_user_data_destroy = ts_user_data_destroy spec, te_origin = ts_origin spec, te_flags = ts_flags spec,
      te_timeout_seconds = (if ts_timeout_seconds spec > 0 then ts_timeout_seconds spec else 0)\<rparr>"

text \<open>The two schemas of a specification, in the order \<open>tool_register\<close> checks them.\<close>

definition tool_schemas_rc :: "(string \<Rightarrow> 'd json option) \<Rightarrow> ('d, 'u) tool_spec \<Rightarrow> rc" where
  "tool_schemas_rc parse spec =
     (let out = tool_schema_validate parse (ts_output_schema spec) False
      in case ts_input_kind spec of
           TOOL_INPUT_JSON \<Rightarrow>
             (let rc = tool_schema_validate parse (ts_input_schema spec) False in if rc \<noteq> 0 then rc else out)
         | TOOL_INPUT_TEXT \<Rightarrow> out
         | TOOL_INPUT_OTHER _ \<Rightarrow> - EINVAL)"

definition tool_register ::
    "(string \<Rightarrow> 'd json option) \<Rightarrow> bool \<times> bool \<Rightarrow> ('d, 'u) tool_registry \<Rightarrow> ('d, 'u) tool_spec
     \<Rightarrow> (rc \<times> ('d, 'u) tool_registry) option" where
  "tool_register parse ok reg spec =
     (case ts_name spec of
        None \<Rightarrow> Some (- EINVAL, reg)
      | Some name \<Rightarrow>
         if ts_exec spec = None then Some (- EINVAL, reg)
         else if length (rg_entries reg) \<ge> TOOL_MAX_ENTRIES then Some (- ENOSPC, reg)
         else do {
           found \<leftarrow> find_tool reg (Some name);
           if found \<noteq> None then Some (- EEXIST, reg)
           else let rc = tool_schemas_rc parse spec
                in if rc \<noteq> 0 then Some (rc, reg)
                   else let e = entry_of_spec spec name
                        in map_option (\<lambda>m. (0, reg\<lparr>rg_entries := rg_entries reg @ [e], rg_by_name := m\<rparr>))
                             (set_ignored ok (rg_by_name reg) (entry_name e) (length (rg_entries reg)))
         })"

definition tool_unregister ::
    "(nat \<Rightarrow> bool \<times> bool) \<Rightarrow> (nat \<Rightarrow> bool \<times> bool) \<Rightarrow> ('d, 'u) tool_registry \<Rightarrow> string option
     \<Rightarrow> (rc \<times> 'u list \<times> ('d, 'u) tool_registry) option" where
  "tool_unregister ok1 ok2 reg name =
     (case name of
        None \<Rightarrow> Some (- EINVAL, [], reg)
      | Some n \<Rightarrow> do {
          found \<leftarrow> find_tool reg (Some n);
          (case found of
             None \<Rightarrow> Some (- ENOENT, [], reg)
           | Some idx \<Rightarrow>
              if idx \<ge> length (rg_entries reg) then None
              else do {
                let es = rg_entries reg;
                reg' \<leftarrow> rebuild_tool_name_index ok1 (reg\<lparr>rg_entries := take idx es @ drop (Suc idx) es\<rparr>);
                reg'' \<leftarrow> tool_enable_remove_disabled ok2 reg' n;
                Some (0, destroyed [es ! idx], reg'')
              })
        })"

text \<open>\<open>tool_lookup\<close>: the position of the entry (a pointer into the array).\<close>

definition tool_lookup :: "('d, 'u) tool_registry \<Rightarrow> string option \<Rightarrow> nat option option" where
  "tool_lookup reg name = find_tool reg name"

definition tool_exec ::
    "(int \<Rightarrow> string) \<Rightarrow> (int \<Rightarrow> 'd) \<Rightarrow> ('d json \<Rightarrow> string option) \<Rightarrow> allocs \<Rightarrow> allocs \<Rightarrow> ('d, 'u) tool_registry
     \<Rightarrow> string option \<Rightarrow> string option \<Rightarrow> 'd tool_result \<Rightarrow> (rc \<times> 'd tool_result) option" where
  "tool_exec strerror num print bs bs' reg name args r =
     (case name of
        None \<Rightarrow> Some (- EINVAL, r)
      | Some n \<Rightarrow> do {
          found \<leftarrow> tool_lookup reg (Some n);
          (case found of
             None \<Rightarrow> Some (- ENOENT, r)
           | Some idx \<Rightarrow>
              if idx \<ge> length (rg_entries reg) then None
              else let e = rg_entries reg ! idx
                   in case te_exec e of
                        None \<Rightarrow> Some (- ENOSYS, r)
                      | Some f \<Rightarrow>
                         (let (rc, r) = f args r (te_user_data e);
                              (result_rc, r) =
                                (if rc < 0 \<and> tr_envelope r = None
                                 then tool_result_error bs r
                                        (Some (if rc = - EINVAL then ''invalid_arguments'' else ''tool_failed''))
                                        (Some (morph_strerror strerror rc))
                                 else (0, r))
                          in if result_rc \<noteq> 0 then Some (result_rc, r)
                             else let (result_rc, r) = tool_result_finalize num print bs' r
                                  in Some (if result_rc \<noteq> 0 then result_rc else rc, r)))
        })"

definition tool_set_timeout ::
    "('d, 'u) tool_registry \<Rightarrow> string option \<Rightarrow> int \<Rightarrow> (rc \<times> ('d, 'u) tool_registry) option" where
  "tool_set_timeout reg name timeout_seconds =
     (case name of
        None \<Rightarrow> Some (- EINVAL, reg)
      | Some n \<Rightarrow> do {
          found \<leftarrow> tool_lookup reg (Some n);
          (case found of
             None \<Rightarrow> Some (- ENOENT, reg)
           | Some idx \<Rightarrow>
              if idx \<ge> length (rg_entries reg) then None
              else Some (0, reg\<lparr>rg_entries := (rg_entries reg)[idx := (rg_entries reg ! idx)
                     \<lparr>te_timeout_seconds := (if timeout_seconds > 0 then timeout_seconds else 0)\<rparr>]\<rparr>))
        })"

definition tool_timeout_seconds :: "('d, 'u) tool_registry \<Rightarrow> string option \<Rightarrow> int option" where
  "tool_timeout_seconds reg name = do {
     found \<leftarrow> tool_lookup reg name;
     (case found of
        None \<Rightarrow> Some 0
      | Some idx \<Rightarrow> if idx \<ge> length (rg_entries reg) then None else Some (te_timeout_seconds (rg_entries reg ! idx)))
   }"

definition tool_is_disabled :: "('d, 'u) tool_registry \<Rightarrow> string option \<Rightarrow> bool option" where
  "tool_is_disabled reg name =
     (case name of
        None \<Rightarrow> Some False
      | Some n \<Rightarrow>
         (case morph_strmap_contains (rg_disabled_by_name reg) (Some n) of
            None \<Rightarrow> None
          | Some True \<Rightarrow> Some True
          | Some False \<Rightarrow> Some (index_of (rg_disabled reg) n \<noteq> None)))"

definition tool_disable ::
    "bool \<times> bool \<Rightarrow> ('d, 'u) tool_registry \<Rightarrow> string option \<Rightarrow> (rc \<times> ('d, 'u) tool_registry) option" where
  "tool_disable ok reg name =
     (case name of
        None \<Rightarrow> Some (- EINVAL, reg)
      | Some n \<Rightarrow>
         if length (rg_disabled reg) \<ge> TOOL_DISABLED_MAX then Some (- ENOSPC, reg)
         else do {
           dis \<leftarrow> tool_is_disabled reg (Some n);
           if dis then Some (0, reg)
           else let d = strncpy_fixed TOOL_NAME_MAX n
                in map_option (\<lambda>m. (0, reg\<lparr>rg_disabled := rg_disabled reg @ [d], rg_disabled_by_name := m\<rparr>))
                     (set_ignored ok (rg_disabled_by_name reg) d (length (rg_disabled reg)))
         })"

definition tool_has_flag :: "('d, 'u) tool_registry \<Rightarrow> string option \<Rightarrow> 32 word \<Rightarrow> bool option" where
  "tool_has_flag reg name flag = do {
     found \<leftarrow> tool_lookup reg name;
     (case found of
        None \<Rightarrow> Some False
      | Some idx \<Rightarrow> if idx \<ge> length (rg_entries reg) then None else Some (te_flags (rg_entries reg ! idx) AND flag \<noteq> 0))
   }"

definition tool_is_readonly :: "('d, 'u) tool_registry \<Rightarrow> string option \<Rightarrow> bool option" where
  "tool_is_readonly reg name = tool_has_flag reg name TOOL_FLAG_READONLY"

section \<open>An index that may forget\<close>

text \<open>
  What the registry relies on: a lookup finds what is bound, an insertion either takes effect or
  changes nothing, and clearing leaves nothing.
\<close>

locale lossy_index =
  fixes inv :: "'m \<Rightarrow> bool"
    and bindings :: "'m \<Rightarrow> (string \<rightharpoonup> nat)"
    and get :: "'m \<Rightarrow> string \<Rightarrow> nat option option"
    and put :: "'e \<Rightarrow> 'm \<Rightarrow> string \<Rightarrow> nat \<Rightarrow> 'm option"
    and clear :: "'m \<Rightarrow> 'm"
  assumes get_law: "inv m \<Longrightarrow> get m k = Some (bindings m k)"
    and put_law: "inv m \<Longrightarrow> \<exists>m'. put e m k i = Some m' \<and> inv m' \<and>
        (bindings m' = bindings m \<or> bindings m' = (bindings m)(k \<mapsto> i))"
    and clear_law: "inv m \<Longrightarrow> inv (clear m) \<and> bindings (clear m) = Map.empty"
begin

definition sound :: "string list \<Rightarrow> 'm \<Rightarrow> bool" where
  "sound names m \<longleftrightarrow> inv m \<and> (\<forall>k i. bindings m k = Some i \<longrightarrow> i < length names \<and> names ! i = k)"

lemma sound_clear: "inv m \<Longrightarrow> sound [] (clear m)"
  using clear_law by (auto simp: sound_def)

lemma sound_put:
  assumes "sound names m"
  shows "\<exists>m'. put e m n (length names) = Some m' \<and> sound (names @ [n]) m'"
proof -
  have inv: "inv m" and b: "\<And>k i. bindings m k = Some i \<Longrightarrow> i < length names \<and> names ! i = k"
    using assms by (auto simp: sound_def)
  obtain m' where m': "put e m n (length names) = Some m'" "inv m'"
      "bindings m' = bindings m \<or> bindings m' = (bindings m)(n \<mapsto> length names)"
    using put_law [OF inv] by blast
  have "i < length (names @ [n]) \<and> (names @ [n]) ! i = k" if "bindings m' k = Some i" for k i
  proof (cases "bindings m k = Some i")
    case True
    then show ?thesis using b [OF True] by (simp add: nth_append)
  next
    case False
    then show ?thesis using m'(3) that by (auto split: if_splits)
  qed
  then show ?thesis using m' by (auto simp: sound_def)
qed

text \<open>With distinct names a search that tries the index first is the plain search.\<close>

lemma sound_search:
  assumes "sound names m" "distinct names"
    and pos: "\<And>i. i < length names \<Longrightarrow> index_of names (names ! i) = Some i"
  shows "\<exists>r. get m n = Some r \<and> (case r of Some i \<Rightarrow> Some i | None \<Rightarrow> index_of names n) = index_of names n"
proof -
  have "get m n = Some (bindings m n)" using assms(1) by (auto simp: sound_def intro: get_law)
  moreover have "index_of names n = Some i" if "bindings m n = Some i" for i
    using that assms(1) pos [of i] by (auto simp: sound_def)
  ultimately show ?thesis by (auto split: option.splits)
qed

end

lemma index_of_None: "index_of xs n = None \<longleftrightarrow> n \<notin> set xs"
  by (induction xs) auto

lemma index_of_Some: "index_of xs n = Some i \<Longrightarrow> i < length xs \<and> xs ! i = n"
  by (induction xs arbitrary: i) (auto split: if_splits)

lemma index_of_nth: "distinct xs \<Longrightarrow> i < length xs \<Longrightarrow> index_of xs (xs ! i) = Some i"
proof (induction xs arbitrary: i)
  case (Cons x xs)
  then show ?case by (cases i) auto
qed simp

lemma index_of_Some_iff: "distinct xs \<Longrightarrow> index_of xs n = Some i \<longleftrightarrow> i < length xs \<and> xs ! i = n"
  using index_of_Some index_of_nth by blast

text \<open>The string maps of the registry are such indexes, also when their table could not be
  allocated.\<close>

definition map_inv :: "nat strmap \<Rightarrow> bool" where
  "map_inv m \<longleftrightarrow> (m_entries m = None \<or> strmap_inv m) \<and> None \<notin> ran (strmap_abs m)"

definition map_bindings :: "nat strmap \<Rightarrow> (string \<rightharpoonup> nat)" where
  "map_bindings m k = Option.bind (strmap_abs m k) (\<lambda>v. v)"

lemma map_bindings_eq:
  "strmap_abs m k = Some v \<Longrightarrow> map_bindings m k = v" "strmap_abs m k = None \<Longrightarrow> map_bindings m k = None"
  by (simp_all add: map_bindings_def)

lemma set_ignored_law:
  assumes "map_inv m"
  shows "\<exists>m'. set_ignored ok m k i = Some m' \<and> map_inv m' \<and>
    (map_bindings m' = map_bindings m \<or> map_bindings m' = (map_bindings m)(k \<mapsto> i))"
proof (cases "m_entries m = None")
  case True
  then show ?thesis using assms by (auto simp: set_ignored_def morph_strmap_set_def)
next
  case False
  then have inv: "strmap_inv m" using assms by (auto simp: map_inv_def)
  obtain r m' where s: "morph_strmap_set (fst ok) (snd ok) m (Some k) (Some i) = Some (r, m')" "strmap_inv m'"
      "strmap_abs m' = (if r = 0 then (strmap_abs m)(k \<mapsto> Some i) else strmap_abs m)"
    using set_spec [OF inv] by blast
  have "None \<notin> ran (strmap_abs m')" using s(3) assms by (auto simp: map_inv_def ran_def split: if_splits)
  moreover have "map_bindings m' = map_bindings m \<or> map_bindings m' = (map_bindings m)(k \<mapsto> i)"
    using s(3) by (auto simp: map_bindings_def fun_eq_iff)
  ultimately show ?thesis using s by (auto simp: set_ignored_def map_inv_def)
qed

lemma clear_ignored_law:
  assumes "map_inv m"
  shows "map_inv (morph_strmap_clear m) \<and> map_bindings (morph_strmap_clear m) = Map.empty"
proof (cases "m_entries m = None")
  case True
  then show ?thesis using assms
    by (auto simp: morph_strmap_clear_def map_inv_def map_bindings_def strmap_abs_def)
next
  case False
  then show ?thesis using assms clear_spec [of m] by (auto simp: map_inv_def map_bindings_def)
qed

lemma get_contains_law:
  assumes "map_inv m"
  shows "morph_strmap_get m (Some k) = Some (map_bindings m k)"
    and "morph_strmap_contains m (Some k) = Some (map_bindings m k \<noteq> None)"
proof -
  have n: "strmap_abs m k \<noteq> Some None" using assms by (auto simp: map_inv_def ran_def)
  show "morph_strmap_get m (Some k) = Some (map_bindings m k)"
  proof (cases "m_entries m = None")
    case True
    then show ?thesis by (simp add: morph_strmap_get_def map_bindings_def strmap_abs_def)
  next
    case False
    then show ?thesis using assms get_spec(1) [of m k]
      by (auto simp: map_inv_def map_bindings_def split: option.splits)
  qed
  show "morph_strmap_contains m (Some k) = Some (map_bindings m k \<noteq> None)"
  proof (cases "m_entries m = None")
    case True
    then show ?thesis by (simp add: morph_strmap_contains_def map_bindings_def strmap_abs_def)
  next
    case False
    then show ?thesis using assms n get_spec(2) [of m k]
      by (cases "strmap_abs m k") (auto simp: map_inv_def map_bindings_def)
  qed
qed

interpretation name_index: lossy_index map_inv map_bindings "\<lambda>m k. morph_strmap_get m (Some k)"
  set_ignored morph_strmap_clear
  by unfold_locales (simp_all add: get_contains_law set_ignored_law clear_ignored_law)

lemma index_names_sound:
  "name_index.sound ns m \<Longrightarrow>
   \<exists>m'. index_names ok m (length ns) rest = Some m' \<and> name_index.sound (ns @ rest) m'"
proof (induction rest arbitrary: ns m)
  case (Cons n rest)
  obtain m1 where m1: "set_ignored (ok (length ns)) m n (length ns) = Some m1" "name_index.sound (ns @ [n]) m1"
    using name_index.sound_put [OF Cons.prems] by blast
  then show ?case using Cons.IH [OF m1(2)] by simp
qed simp

lemma init_or_null_sound: "name_index.sound [] (init_or_null ok cap)"
proof -
  have "map_inv (init_or_null ok cap) \<and> map_bindings (init_or_null ok cap) = Map.empty"
  proof (cases "morph_strmap_init ok cap :: rc + nat strmap")
    case (Inl a)
    then show ?thesis
      by (auto simp: init_or_null_def strmap_null_def map_inv_def map_bindings_def strmap_abs_def)
  next
    case (Inr m)
    then show ?thesis using init_spec [OF Inr] by (auto simp: init_or_null_def map_inv_def map_bindings_def)
  qed
  then show ?thesis by (simp add: name_index.sound_def)
qed

section \<open>The registry against its specification\<close>

text \<open>
  The specification: a list of entries with distinct names, in order of registration, and a list of
  disabled names.  No index, no allocator.
\<close>

type_synonym ('d, 'u) tool_table = "('d, 'u) tool_entry list \<times> string list"

datatype ('d, 'u) tool_op =
    Register "bool \<times> bool" "('d, 'u) tool_spec"
  | Unregister "nat \<Rightarrow> bool \<times> bool" "nat \<Rightarrow> bool \<times> bool" "string option"
  | Disable "bool \<times> bool" "string option"
  | Set_timeout "string option" int

fun tool_step ::
    "(string \<Rightarrow> 'd json option) \<Rightarrow> ('d, 'u) tool_op \<Rightarrow> ('d, 'u) tool_registry
     \<Rightarrow> (rc \<times> 'u list \<times> ('d, 'u) tool_registry) option" where
  "tool_step parse (Register ok spec) reg = map_option (\<lambda>(rc, reg'). (rc, [], reg')) (tool_register parse ok reg spec)"
| "tool_step parse (Unregister ok1 ok2 n) reg = tool_unregister ok1 ok2 reg n"
| "tool_step parse (Disable ok n) reg = map_option (\<lambda>(rc, reg'). (rc, [], reg')) (tool_disable ok reg n)"
| "tool_step parse (Set_timeout n t) reg = map_option (\<lambda>(rc, reg'). (rc, [], reg')) (tool_set_timeout reg n t)"

fun table_step ::
    "(string \<Rightarrow> 'd json option) \<Rightarrow> ('d, 'u) tool_op \<Rightarrow> ('d, 'u) tool_table \<Rightarrow> rc \<times> 'u list \<times> ('d, 'u) tool_table" where
  "table_step parse (Register ok spec) (es, ds) =
     (case ts_name spec of
        None \<Rightarrow> (- EINVAL, [], (es, ds))
      | Some n \<Rightarrow>
         if ts_exec spec = None then (- EINVAL, [], (es, ds))
         else if length es \<ge> TOOL_MAX_ENTRIES then (- ENOSPC, [], (es, ds))
         else if n \<in> entry_name ` set es then (- EEXIST, [], (es, ds))
         else if tool_schemas_rc parse spec \<noteq> 0 then (tool_schemas_rc parse spec, [], (es, ds))
         else (0, [], (es @ [entry_of_spec spec n], ds)))"
| "table_step parse (Unregister ok1 ok2 name) (es, ds) =
     (case name of
        None \<Rightarrow> (- EINVAL, [], (es, ds))
      | Some n \<Rightarrow>
         if n \<notin> entry_name ` set es then (- ENOENT, [], (es, ds))
         else (0, destroyed (filter (\<lambda>e. entry_name e = n) es),
               (filter (\<lambda>e. entry_name e \<noteq> n) es, filter (\<lambda>d. d \<noteq> n) ds)))"
| "table_step parse (Disable ok name) (es, ds) =
     (case name of
        None \<Rightarrow> (- EINVAL, [], (es, ds))
      | Some n \<Rightarrow>
         if length ds \<ge> TOOL_DISABLED_MAX then (- ENOSPC, [], (es, ds))
         else if n \<in> set ds then (0, [], (es, ds)) else (0, [], (es, ds @ [n])))"
| "table_step parse (Set_timeout name t) (es, ds) =
     (case name of
        None \<Rightarrow> (- EINVAL, [], (es, ds))
      | Some n \<Rightarrow>
         if n \<notin> entry_name ` set es then (- ENOENT, [], (es, ds))
         else (0, [], (map (\<lambda>e. if entry_name e = n then e\<lparr>te_timeout_seconds := (if t > 0 then t else 0)\<rparr> else e) es, ds)))"

text \<open>Names fit the arrays of the registry.\<close>

fun op_fits :: "('d, 'u) tool_op \<Rightarrow> bool" where
  "op_fits (Register ok spec) = (case ts_name spec of None \<Rightarrow> True | Some n \<Rightarrow> length n < TOOL_NAME_MAX)"
| "op_fits (Disable ok name) = (case name of None \<Rightarrow> True | Some n \<Rightarrow> length n < TOOL_NAME_MAX)"
| "op_fits _ = True"

fun tool_run ::
    "(string \<Rightarrow> 'd json option) \<Rightarrow> ('d, 'u) tool_op list \<Rightarrow> ('d, 'u) tool_registry
     \<Rightarrow> (rc list \<times> 'u list \<times> ('d, 'u) tool_registry) option" where
  "tool_run parse [] reg = Some ([], [], reg)"
| "tool_run parse (x # xs) reg = do {
     (rc, us, reg) \<leftarrow> tool_step parse x reg;
     (rcs, us', reg) \<leftarrow> tool_run parse xs reg;
     Some (rc # rcs, us @ us', reg)
   }"

fun table_run ::
    "(string \<Rightarrow> 'd json option) \<Rightarrow> ('d, 'u) tool_op list \<Rightarrow> ('d, 'u) tool_table \<Rightarrow> rc list \<times> 'u list \<times> ('d, 'u) tool_table" where
  "table_run parse [] t = ([], [], t)"
| "table_run parse (x # xs) t =
     (let (rc, us, t) = table_step parse x t; (rcs, us', t) = table_run parse xs t in (rc # rcs, us @ us', t))"

definition registry_ok :: "('d, 'u) tool_registry \<Rightarrow> bool" where
  "registry_ok reg \<longleftrightarrow>
     name_index.sound (map entry_name (rg_entries reg)) (rg_by_name reg) \<and>
     name_index.sound (rg_disabled reg) (rg_disabled_by_name reg) \<and>
     distinct (map entry_name (rg_entries reg)) \<and> distinct (rg_disabled reg) \<and>
     length (rg_entries reg) \<le> TOOL_MAX_ENTRIES \<and> length (rg_disabled reg) \<le> TOOL_DISABLED_MAX"

definition table_of :: "('d, 'u) tool_registry \<Rightarrow> ('d, 'u) tool_table" where
  "table_of reg = (rg_entries reg, rg_disabled reg)"

lemma registry_init_ok: "registry_ok (tool_registry_init a b)" "table_of (tool_registry_init a b) = ([], [])"
  by (simp_all add: registry_ok_def tool_registry_init_def init_or_null_sound table_of_def)

lemma find_tool_eq:
  assumes "registry_ok reg"
  shows "find_tool reg (Some n) = Some (index_of (map entry_name (rg_entries reg)) n)"
proof -
  have "distinct (map entry_name (rg_entries reg))" using assms by (simp add: registry_ok_def)
  with name_index.sound_search [OF _ this index_of_nth [OF this], of "rg_by_name reg" n] assms
  show ?thesis by (auto simp: registry_ok_def find_tool_def split: option.splits)
qed

lemma is_disabled_eq:
  assumes "registry_ok reg"
  shows "tool_is_disabled reg (Some n) = Some (n \<in> set (rg_disabled reg))"
proof -
  have s: "name_index.sound (rg_disabled reg) (rg_disabled_by_name reg)" using assms by (simp add: registry_ok_def)
  then have "map_bindings (rg_disabled_by_name reg) n \<noteq> None \<Longrightarrow> n \<in> set (rg_disabled reg)"
    by (auto simp: name_index.sound_def intro: nth_mem)
  then show ?thesis using s get_contains_law(2) [of "rg_disabled_by_name reg" n]
    by (auto simp: tool_is_disabled_def name_index.sound_def index_of_None split: option.splits bool.splits)
qed

lemma filter_other_names:
  assumes "distinct (map f xs)" "i < length xs"
  shows "filter (\<lambda>x. f x \<noteq> f (xs ! i)) xs = take i xs @ drop (Suc i) xs"
    and "filter (\<lambda>x. f x = f (xs ! i)) xs = [xs ! i]"
proof -
  have xs: "xs = take i xs @ xs ! i # drop (Suc i) xs" using assms(2) by (simp add: id_take_nth_drop)
  have d: "distinct (map f (take i xs @ xs ! i # drop (Suc i) xs))" using assms(1) xs by simp
  have n: "\<forall>x \<in> set (take i xs @ drop (Suc i) xs). f x \<noteq> f (xs ! i)"
    using d by (auto simp: image_iff)
  show "filter (\<lambda>x. f x \<noteq> f (xs ! i)) xs = take i xs @ drop (Suc i) xs"
    using n by (subst (2) xs) simp
  show "filter (\<lambda>x. f x = f (xs ! i)) xs = [xs ! i]"
    using n by (subst (2) xs) (auto simp: filter_empty_conv)
qed

lemma distinct_delete_nth: "distinct xs \<Longrightarrow> distinct (take i xs @ drop (Suc i) xs)"
  by (cases "i < length xs") (metis distinct_append filter_other_names(1) distinct_map_filter map_ident
      distinct_filter, simp)

lemma map_delete_nth: "map f (take i xs @ drop (Suc i) xs) = take i (map f xs) @ drop (Suc i) (map f xs)"
  by (simp add: take_map drop_map)

lemma fixed_name: "length n < TOOL_NAME_MAX \<Longrightarrow> strncpy_fixed TOOL_NAME_MAX n = n"
  by (rule strncpy_fixed_id)

lemma entry_of_spec_name [simp]: "entry_name (entry_of_spec spec n) = strncpy_fixed TOOL_NAME_MAX n"
  by (simp add: entry_of_spec_def)

text \<open>One step of the registry is one step of the specification.\<close>

definition simulates ::
    "(rc \<times> 'u list \<times> ('d, 'u) tool_registry) option \<Rightarrow> rc \<times> 'u list \<times> ('d, 'u) tool_table \<Rightarrow> bool" where
  "simulates c a \<longleftrightarrow> (\<exists>rc us reg'. c = Some (rc, us, reg') \<and> registry_ok reg' \<and> a = (rc, us, table_of reg'))"

lemma simulatesI:
  "c = Some (rc, us, reg') \<Longrightarrow> registry_ok reg' \<Longrightarrow> a = (rc, us, table_of reg') \<Longrightarrow> simulates c a"
  by (auto simp: simulates_def)

lemma register_simulates:
  assumes reg: "registry_ok reg" and fits: "op_fits (Register ok spec)"
  shows "simulates (tool_step parse (Register ok spec) reg) (table_step parse (Register ok spec) (table_of reg))"
proof -
  define es where "es = rg_entries reg"
  have refused: ?thesis
    if "tool_step parse (Register ok spec) reg = Some (rc, [], reg)"
      "table_step parse (Register ok spec) (table_of reg) = (rc, [], table_of reg)" for rc
    using that reg by (auto intro: simulatesI)
  show ?thesis
  proof (cases "ts_name spec")
    case None
    then show ?thesis by (intro refused) (simp_all add: tool_register_def table_of_def)
  next
    case (Some n)
    note f = find_tool_eq [OF reg, of n, folded es_def]
    have in_names: "index_of (map entry_name es) n = None \<longleftrightarrow> n \<notin> entry_name ` set es"
      by (simp add: index_of_None)
    show ?thesis
    proof (cases "ts_exec spec \<noteq> None \<and> length es < TOOL_MAX_ENTRIES \<and> n \<notin> entry_name ` set es
        \<and> tool_schemas_rc parse spec = 0")
      case False
      then show ?thesis using Some f in_names
        by (intro refused [of "if ts_exec spec = None then - EINVAL else if length es \<ge> TOOL_MAX_ENTRIES then - ENOSPC
              else if n \<in> entry_name ` set es then - EEXIST else tool_schemas_rc parse spec"])
          (auto simp: tool_register_def table_of_def Let_def es_def)
    next
      case True
      have n: "strncpy_fixed TOOL_NAME_MAX n = n" using fits Some by (simp add: fixed_name)
      have s: "name_index.sound (map entry_name es) (rg_by_name reg)" using reg by (simp add: registry_ok_def es_def)
      obtain m where m: "set_ignored ok (rg_by_name reg) n (length es) = Some m"
          "name_index.sound (map entry_name es @ [n]) m"
        using name_index.sound_put [OF s, of ok n] by auto
      let ?reg = "reg\<lparr>rg_entries := es @ [entry_of_spec spec n], rg_by_name := m\<rparr>"
      have "registry_ok ?reg" using reg True m(2) n by (auto simp: registry_ok_def es_def)
      moreover have "tool_step parse (Register ok spec) reg = Some (0, [], ?reg)"
        using True Some f in_names m(1) n by (simp add: tool_register_def Let_def es_def)
      ultimately show ?thesis using True Some
        by (intro simulatesI) (auto simp: table_of_def es_def)
    qed
  qed
qed

lemma delete_entry_ok:
  assumes reg: "registry_ok reg" and i: "i < length (rg_entries reg)"
  obtains reg' where "rebuild_tool_name_index ok (reg\<lparr>rg_entries := take i (rg_entries reg) @ drop (Suc i) (rg_entries reg)\<rparr>)
      = Some reg'" "registry_ok reg'" "rg_entries reg' = take i (rg_entries reg) @ drop (Suc i) (rg_entries reg)"
    "rg_disabled reg' = rg_disabled reg"
proof -
  define es where "es = take i (rg_entries reg) @ drop (Suc i) (rg_entries reg)"
  have "map_inv (rg_by_name reg)" using reg by (simp add: registry_ok_def name_index.sound_def)
  from index_names_sound [OF name_index.sound_clear [OF this], of ok "map entry_name es"]
  obtain m where m: "index_names ok (morph_strmap_clear (rg_by_name reg)) 0 (map entry_name es) = Some m"
      "name_index.sound (map entry_name es) m"
    by auto
  have "distinct (map entry_name es)"
    unfolding es_def map_delete_nth using reg by (intro distinct_delete_nth) (simp add: registry_ok_def)
  moreover have "length es \<le> TOOL_MAX_ENTRIES" using reg i by (auto simp: registry_ok_def es_def)
  ultimately have "registry_ok (reg\<lparr>rg_entries := es, rg_by_name := m\<rparr>)"
    using reg m(2) by (simp add: registry_ok_def)
  then show ?thesis using m(1) by (intro that [of "reg\<lparr>rg_entries := es, rg_by_name := m\<rparr>"])
      (simp_all add: rebuild_tool_name_index_def es_def)
qed

lemma enable_ok:
  assumes reg: "registry_ok reg"
  obtains reg' where "tool_enable_remove_disabled ok reg n = Some reg'" "registry_ok reg'"
    "rg_entries reg' = rg_entries reg" "rg_disabled reg' = filter (\<lambda>d. d \<noteq> n) (rg_disabled reg)"
proof (cases "index_of (rg_disabled reg) n")
  case None
  then have "filter (\<lambda>d. d \<noteq> n) (rg_disabled reg) = rg_disabled reg"
    by (auto simp: index_of_None filter_id_conv)
  then show ?thesis using None reg that by (auto simp: tool_enable_remove_disabled_def)
next
  case (Some i)
  define ds where "ds = take i (rg_disabled reg) @ drop (Suc i) (rg_disabled reg)"
  have i: "i < length (rg_disabled reg)" "rg_disabled reg ! i = n" using index_of_Some [OF Some] by auto
  have d: "distinct (rg_disabled reg)" using reg by (simp add: registry_ok_def)
  have ds: "filter (\<lambda>d. d \<noteq> n) (rg_disabled reg) = ds"
    using filter_other_names(1) [of "\<lambda>x. x" "rg_disabled reg" i] d i by (simp add: ds_def)
  have "map_inv (rg_disabled_by_name reg)" using reg by (simp add: registry_ok_def name_index.sound_def)
  from index_names_sound [OF name_index.sound_clear [OF this], of ok ds]
  obtain m where m: "index_names ok (morph_strmap_clear (rg_disabled_by_name reg)) 0 ds = Some m"
      "name_index.sound ds m"
    by auto
  have "distinct ds" unfolding ds_def using d by (rule distinct_delete_nth)
  moreover have "length ds \<le> TOOL_DISABLED_MAX" using reg i by (auto simp: registry_ok_def ds_def)
  ultimately have "registry_ok (reg\<lparr>rg_disabled := ds, rg_disabled_by_name := m\<rparr>)"
    using reg m(2) by (simp add: registry_ok_def)
  then show ?thesis using m(1) Some ds
    by (intro that [of "reg\<lparr>rg_disabled := ds, rg_disabled_by_name := m\<rparr>"])
      (simp_all add: tool_enable_remove_disabled_def ds_def)
qed

lemma unregister_simulates:
  assumes reg: "registry_ok reg"
  shows "simulates (tool_step parse (Unregister ok1 ok2 name) reg) (table_step parse (Unregister ok1 ok2 name) (table_of reg))"
proof (cases name)
  case None
  then show ?thesis using reg
    by (intro simulatesI [of _ "- EINVAL" "[]" reg]) (simp_all add: tool_unregister_def table_of_def)
next
  case (Some n)
  define es where "es = rg_entries reg"
  note f = find_tool_eq [OF reg, of n, folded es_def]
  show ?thesis
  proof (cases "index_of (map entry_name es) n")
    case None
    then have "n \<notin> entry_name ` set es" by (simp add: index_of_None)
    then show ?thesis using \<open>name = Some n\<close> f None reg
      by (intro simulatesI [of _ "- ENOENT" "[]" reg]) (auto simp: tool_unregister_def table_of_def es_def)
  next
    case (Some i)
    have i: "i < length es" "entry_name (es ! i) = n" using index_of_Some [OF Some] by auto
    obtain r1 where r1: "rebuild_tool_name_index ok1 (reg\<lparr>rg_entries := take i es @ drop (Suc i) es\<rparr>) = Some r1"
        "registry_ok r1" "rg_entries r1 = take i es @ drop (Suc i) es" "rg_disabled r1 = rg_disabled reg"
      using delete_entry_ok [OF reg, of i ok1] i by (auto simp: es_def)
    obtain r2 where r2: "tool_enable_remove_disabled ok2 r1 n = Some r2" "registry_ok r2"
        "rg_entries r2 = rg_entries r1" "rg_disabled r2 = filter (\<lambda>d. d \<noteq> n) (rg_disabled r1)"
      using enable_ok [OF r1(2)] by blast
    have d: "distinct (map entry_name es)" using reg by (simp add: registry_ok_def es_def)
    have "n \<in> entry_name ` set es" using i by (auto simp: image_iff intro!: bexI [of _ "es ! i"])
    then show ?thesis using \<open>name = Some n\<close> f Some i r1 r2 filter_other_names [OF d i(1)]
      by (intro simulatesI [of _ 0 "destroyed [es ! i]" r2])
        (auto simp: tool_unregister_def table_of_def es_def Let_def)
  qed
qed

lemma disable_simulates:
  assumes reg: "registry_ok reg" and fits: "op_fits (Disable ok name)"
  shows "simulates (tool_step parse (Disable ok name) reg) (table_step parse (Disable ok name) (table_of reg))"
proof (cases name)
  case None
  then show ?thesis using reg
    by (intro simulatesI [of _ "- EINVAL" "[]" reg]) (simp_all add: tool_disable_def table_of_def)
next
  case (Some n)
  define ds where "ds = rg_disabled reg"
  note d = is_disabled_eq [OF reg, of n, folded ds_def]
  show ?thesis
  proof (cases "length ds < TOOL_DISABLED_MAX \<and> n \<notin> set ds")
    case False
    then show ?thesis using Some d reg
      by (intro simulatesI [of _ "if length ds \<ge> TOOL_DISABLED_MAX then - ENOSPC else 0" "[]" reg])
        (auto simp: tool_disable_def table_of_def ds_def)
  next
    case True
    have s: "name_index.sound ds (rg_disabled_by_name reg)" using reg by (simp add: registry_ok_def ds_def)
    obtain m where m: "set_ignored ok (rg_disabled_by_name reg) n (length ds) = Some m" "name_index.sound (ds @ [n]) m"
      using name_index.sound_put [OF s, of ok n] by blast
    have n: "strncpy_fixed TOOL_NAME_MAX n = n" using fits Some by (simp add: fixed_name)
    have "registry_ok (reg\<lparr>rg_disabled := ds @ [n], rg_disabled_by_name := m\<rparr>)"
      using reg True m(2) by (auto simp: registry_ok_def ds_def)
    then show ?thesis using True Some d m(1) n
      by (intro simulatesI [of _ 0 "[]" "reg\<lparr>rg_disabled := ds @ [n], rg_disabled_by_name := m\<rparr>"])
        (auto simp: tool_disable_def table_of_def ds_def Let_def)
  qed
qed

lemma set_timeout_simulates:
  assumes reg: "registry_ok reg"
  shows "simulates (tool_step parse (Set_timeout name t) reg) (table_step parse (Set_timeout name t) (table_of reg))"
proof (cases name)
  case None
  then show ?thesis using reg
    by (intro simulatesI [of _ "- EINVAL" "[]" reg]) (simp_all add: tool_set_timeout_def table_of_def)
next
  case (Some n)
  define es where "es = rg_entries reg"
  note f = find_tool_eq [OF reg, of n, folded es_def]
  show ?thesis
  proof (cases "index_of (map entry_name es) n")
    case None
    then have "n \<notin> entry_name ` set es" by (simp add: index_of_None)
    then show ?thesis using \<open>name = Some n\<close> f None reg
      by (intro simulatesI [of _ "- ENOENT" "[]" reg])
        (auto simp: tool_set_timeout_def tool_lookup_def table_of_def es_def)
  next
    case (Some i)
    let ?g = "\<lambda>e. e\<lparr>te_timeout_seconds := (if t > 0 then t else 0)\<rparr>"
    have i: "i < length es" "entry_name (es ! i) = n" using index_of_Some [OF Some] by auto
    have d: "distinct (map entry_name es)" using reg by (simp add: registry_ok_def es_def)
    have "entry_name (es ! j) = n \<longleftrightarrow> j = i" if "j < length es" for j
      using nth_eq_iff_index_eq [OF d, of j i] that i by auto
    then have upd: "map (\<lambda>e. if entry_name e = n then ?g e else e) es = es[i := ?g (es ! i)]"
      by (intro nth_equalityI) (auto simp: nth_list_update)
    have names: "map entry_name (es[i := ?g (es ! i)]) = map entry_name es"
      using i by (simp add: map_update list_update_same_conv)
    have "registry_ok (reg\<lparr>rg_entries := es[i := ?g (es ! i)]\<rparr>)"
      using reg names by (simp add: registry_ok_def es_def)
    moreover have "n \<in> entry_name ` set es" using i by (auto simp: image_iff intro!: bexI [of _ "es ! i"])
    ultimately show ?thesis using \<open>name = Some n\<close> f Some i upd
      by (intro simulatesI [of _ 0 "[]" "reg\<lparr>rg_entries := es[i := ?g (es ! i)]\<rparr>"])
        (auto simp: tool_set_timeout_def tool_lookup_def table_of_def es_def)
  qed
qed

lemma tool_step_simulates:
  "registry_ok reg \<Longrightarrow> op_fits x \<Longrightarrow> simulates (tool_step parse x reg) (table_step parse x (table_of reg))"
  by (cases x) (simp_all only: register_simulates unregister_simulates disable_simulates set_timeout_simulates)

lemma tool_run_simulates:
  "registry_ok reg \<Longrightarrow> list_all op_fits xs \<Longrightarrow>
   \<exists>rcs us reg'. tool_run parse xs reg = Some (rcs, us, reg') \<and> registry_ok reg' \<and>
     table_run parse xs (table_of reg) = (rcs, us, table_of reg')"
proof (induction xs arbitrary: reg)
  case (Cons x xs)
  obtain rc us reg1 where 1: "tool_step parse x reg = Some (rc, us, reg1)" "registry_ok reg1"
      "table_step parse x (table_of reg) = (rc, us, table_of reg1)"
    using tool_step_simulates [OF Cons.prems(1), of x parse] Cons.prems(2) by (auto simp: simulates_def)
  obtain rcs us' reg2 where "tool_run parse xs reg1 = Some (rcs, us', reg2)" "registry_ok reg2"
      "table_run parse xs (table_of reg1) = (rcs, us', table_of reg2)"
    using Cons.IH [OF 1(2)] Cons.prems(2) by auto
  then show ?case using 1 by simp
qed simp

text \<open>
  C23. For every sequence of registrations, removals, disablings and timeout changes with names that
  fit the registry's arrays, and whatever the allocator answers: the registry does exactly what the
  plain table does (same return codes, same destroyed user data, same entries and disabled names),
  entries and disabled names stay distinct and within bounds, and lookups by name through the index
  agree with a search of the arrays.
\<close>

theorem tool_registry_refines:
  fixes parse :: "string \<Rightarrow> 'd json option" and xs :: "('d, 'u) tool_op list"
  assumes "list_all op_fits xs"
  shows "\<exists>rcs us reg. tool_run parse xs (tool_registry_init a b) = Some (rcs, us, reg) \<and>
     table_run parse xs ([], []) = (rcs, us, (rg_entries reg, rg_disabled reg)) \<and>
     distinct (map entry_name (rg_entries reg)) \<and> distinct (rg_disabled reg) \<and>
     length (rg_entries reg) \<le> 128 \<and> length (rg_disabled reg) \<le> 32 \<and>
     (\<forall>n. find_tool reg (Some n) = Some (index_of (map entry_name (rg_entries reg)) n)) \<and>
     (\<forall>n. tool_is_disabled reg (Some n) = Some (n \<in> set (rg_disabled reg)))"
proof -
  obtain rcs us reg where r: "tool_run parse xs (tool_registry_init a b) = Some (rcs, us, reg)" "registry_ok reg"
      "table_run parse xs ([], []) = (rcs, us, table_of reg)"
    using tool_run_simulates [OF registry_init_ok(1) assms] registry_init_ok(2) by metis
  moreover have "distinct (map entry_name (rg_entries reg)) \<and> distinct (rg_disabled reg) \<and>
     length (rg_entries reg) \<le> 128 \<and> length (rg_disabled reg) \<le> 32"
    using r(2) by (simp add: registry_ok_def TOOL_MAX_ENTRIES_def TOOL_DISABLED_MAX_def)
  ultimately show ?thesis using find_tool_eq [OF r(2)] is_disabled_eq [OF r(2)]
    unfolding table_of_def by blast
qed

definition example_spec :: "string \<Rightarrow> nat \<Rightarrow> (unit, nat) tool_spec" where
  "example_spec name u =
     \<lparr>ts_origin = TOOL_ORIGIN_BUILTIN, ts_name = Some name, ts_title = None, ts_description = None,
      ts_input_schema = Some ''s'', ts_output_schema = Some ''s'', ts_input_kind = TOOL_INPUT_JSON,
      ts_input_format = None, ts_exec = Some (\<lambda>args r u. (0, r)), ts_user_data = Some u,
      ts_user_data_destroy = True, ts_flags = 1, ts_timeout_seconds = 5\<rparr>"

definition example_parse :: "string \<Rightarrow> unit json option" where
  "example_parse s = Some (cJSON_Object [(''type'', cJSON_String ''object''), (''properties'', cJSON_Object [])])"

definition example_ops :: "(unit, nat) tool_op list" where
  "example_ops = [Register (True, True) (example_spec ''plan'' 7), Register (False, False) (example_spec ''bash'' 8),
     Register (True, True) (example_spec ''plan'' 9), Disable (True, True) (Some ''plan''),
     Unregister (\<lambda>_. (False, False)) (\<lambda>_. (True, True)) (Some ''plan'')]"

lemma example_ops_fit: "list_all op_fits example_ops"
  by (simp add: example_ops_def example_spec_def TOOL_NAME_MAX_def)

lemma example_table_run:
  "fst (table_run example_parse example_ops ([], [])) = [0, 0, - 17, 0, 0] \<and>
   fst (snd (table_run example_parse example_ops ([], []))) = [7]"
  by (simp add: example_ops_def example_spec_def example_parse_def tool_schemas_rc_def tool_schema_validate_def
      cJSON_GetObjectItem_def cJSON_IsObject_def cJSON_GetStringValue_def case_insensitive_eq_def tolower_def
      TOOL_MAX_ENTRIES_def TOOL_DISABLED_MAX_def TOOL_NAME_MAX_def strncpy_fixed_def destroyed_def entry_of_spec_def)

theorem tool_registry_refines_witness:
  "\<exists>us reg. tool_run example_parse example_ops (tool_registry_init True True) = Some ([0, 0, - 17, 0, 0], us, reg) \<and>
     us = [7] \<and> find_tool reg (Some ''plan'') = Some (index_of (map entry_name (rg_entries reg)) ''plan'')"
  using tool_registry_refines [OF example_ops_fit, of example_parse True True] example_table_run by auto

section \<open>User data\<close>

lemma destroyed_append [simp]: "destroyed (es @ fs) = destroyed es @ destroyed fs"
  by (simp add: destroyed_def)

lemma destroyed_Nil [simp]: "destroyed [] = []"
  by (simp add: destroyed_def)

lemma destroyed_partition:
  "mset (destroyed (filter P es)) + mset (destroyed (filter (\<lambda>e. \<not> P e) es)) = mset (destroyed es)"
proof (induction es)
  case (Cons e es)
  have c: "destroyed (e # fs) = destroyed [e] @ destroyed fs" for fs by (simp add: destroyed_def)
  show ?case
  proof (cases "P e")
    case True
    then show ?thesis using Cons by (simp add: c [of es] c [of "filter P es"])
  next
    case False
    then show ?thesis using Cons by (simp add: c [of es] c [of "filter (\<lambda>e. \<not> P e) es"])
  qed
qed simp

lemma destroyed_map:
  "(\<And>e. te_user_data (f e) = te_user_data e) \<Longrightarrow> (\<And>e. te_user_data_destroy (f e) = te_user_data_destroy e) \<Longrightarrow>
   destroyed (map f es) = destroyed es"
  by (simp add: destroyed_def comp_def cong: option.case_cong)

text \<open>The user data that successful registrations hand over together with a destructor.\<close>

fun handed_over :: "('d, 'u) tool_op list \<Rightarrow> rc list \<Rightarrow> 'u list" where
  "handed_over (Register ok spec # xs) (rc # rcs) =
     (if rc = 0 \<and> ts_user_data_destroy spec then (case ts_user_data spec of Some u \<Rightarrow> [u] | None \<Rightarrow> []) else [])
     @ handed_over xs rcs"
| "handed_over (_ # xs) (rc # rcs) = handed_over xs rcs"
| "handed_over _ _ = []"

lemma table_step_user_data:
  "table_step parse x (es, ds) = (rc, us, (es', ds')) \<Longrightarrow>
   mset us + mset (destroyed es') = mset (destroyed es) + mset (handed_over [x] [rc])"
proof (cases x)
  case (Register ok spec)
  assume "table_step parse x (es, ds) = (rc, us, (es', ds'))"
  then show ?thesis unfolding Register
    by (auto split: option.splits if_splits simp: destroyed_def entry_of_spec_def)
next
  case (Unregister ok1 ok2 name)
  assume "table_step parse x (es, ds) = (rc, us, (es', ds'))"
  then show ?thesis unfolding Unregister
    by (auto split: option.splits if_splits simp: destroyed_partition)
next
  case (Disable ok name)
  assume "table_step parse x (es, ds) = (rc, us, (es', ds'))"
  then show ?thesis unfolding Disable by (auto split: option.splits if_splits)
next
  case (Set_timeout name t)
  assume "table_step parse x (es, ds) = (rc, us, (es', ds'))"
  then show ?thesis unfolding Set_timeout
    by (auto split: option.splits if_splits simp: destroyed_map)
qed

lemma table_run_user_data:
  "table_run parse xs (es, ds) = (rcs, us, (es', ds')) \<Longrightarrow>
   mset us + mset (destroyed es') = mset (destroyed es) + mset (handed_over xs rcs)"
proof (induction xs arbitrary: es ds rcs us)
  case (Cons x xs)
  obtain rc us1 es1 ds1 where 1: "table_step parse x (es, ds) = (rc, us1, (es1, ds1))" by (metis prod_cases3)
  obtain rcs2 us2 where 2: "table_run parse xs (es1, ds1) = (rcs2, us2, (es', ds'))" "rcs = rc # rcs2" "us = us1 @ us2"
    using Cons.prems 1 by (auto split: prod.splits)
  have "handed_over (x # xs) rcs = handed_over [x] [rc] @ handed_over xs rcs2"
    using 2 by (cases x) auto
  then show ?case using table_step_user_data [OF 1] Cons.IH [OF 2(1)] 2(3) by (simp add: ac_simps)
qed simp

text \<open>
  C27. Ownership of user data: over the whole life of a registry, from its initialization through any
  operations to its cleanup, the destructor runs exactly once for every user data that a successful
  registration handed over with a destructor, and for nothing else.
\<close>

theorem tool_user_data_destroyed_once:
  fixes parse :: "string \<Rightarrow> 'd json option" and xs :: "('d, 'u) tool_op list"
  assumes "list_all op_fits xs"
  shows "\<exists>rcs us reg. tool_run parse xs (tool_registry_init a b) = Some (rcs, us, reg) \<and>
     mset (us @ fst (tool_registry_cleanup reg)) = mset (handed_over xs rcs) \<and>
     fst (tool_registry_cleanup (snd (tool_registry_cleanup reg))) = []"
proof -
  obtain rcs us reg where r: "tool_run parse xs (tool_registry_init a b) = Some (rcs, us, reg)"
      "table_run parse xs ([], []) = (rcs, us, table_of reg)"
    using tool_run_simulates [OF registry_init_ok(1) assms] registry_init_ok(2) by metis
  have "mset us + mset (destroyed (rg_entries reg)) = mset (handed_over xs rcs)"
    using table_run_user_data [OF r(2) [unfolded table_of_def]] by simp
  moreover have "destroyed (map (\<lambda>e. e\<lparr>te_user_data := None\<rparr>) es) = []" for es :: "('d, 'u) tool_entry list"
    by (simp add: destroyed_def)
  ultimately show ?thesis using r(1)
    by (auto simp: tool_registry_cleanup_def tool_entry_cleanup_user_data_def)
qed

theorem tool_user_data_destroyed_once_witness:
  "\<exists>rcs us reg. tool_run example_parse example_ops (tool_registry_init False True) = Some (rcs, us, reg) \<and>
     mset (us @ fst (tool_registry_cleanup reg)) = mset (handed_over example_ops rcs)"
  using tool_user_data_destroyed_once [OF example_ops_fit, of example_parse False True] by blast

section \<open>Finalized results\<close>

text \<open>What every step of finalizing keeps: unambiguous names, and every member but the old
  artifacts.\<close>

definition keeps :: "'d members \<Rightarrow> 'd members \<Rightarrow> bool" where
  "keeps ms ms' \<longleftrightarrow> (names_distinct ms \<longrightarrow> names_distinct ms') \<and>
     (\<forall>k v. find_member ms k = Some v \<longrightarrow> find_member ms' k = Some v)"

lemma keeps_refl: "keeps ms ms"
  by (simp add: keeps_def)

lemma keeps_trans: "keeps a b \<Longrightarrow> keeps b c \<Longrightarrow> keeps a c"
  by (simp add: keeps_def)

lemma keeps_snoc: "find_member ms k = None \<Longrightarrow> keeps ms (ms @ [(k, v)])"
  by (auto simp: keeps_def names_distinct_snoc find_member_append)

lemma find_member_snoc: "\<exists>w. find_member (ms @ [(k, v)]) k = Some w"
  by (auto simp: find_member_append split: option.splits)

lemma artifact_list_is_array: "tool_artifact_list_to_json num bs as = Some (j, bs') \<Longrightarrow> \<exists>js. j = cJSON_Array js"
  by (auto simp: tool_artifact_list_to_json_def split: Option.bind_splits)

lemma hoist_keeps: "hoist_members bs ms ds = Some (ms', bs') \<Longrightarrow> keeps ms ms'"
proof (induction bs ms ds rule: hoist_members.induct)
  case (2 bs ms k v rest)
  show ?case
  proof (cases "find_member ms k \<noteq> None \<or> cJSON_IsArray (Some v) \<or> cJSON_IsObject (Some v)")
    case True
    then show ?thesis using "2.IH"(1) "2.prems" by simp
  next
    case False
    then have p: "(do { (dup, bs) \<leftarrow> cJSON_create bs v; (ms, bs) \<leftarrow> cJSON_AddItemToObject bs ms k dup;
        hoist_members bs ms rest }) = Some (ms', bs')"
      using "2.prems" by simp
    from p obtain dup bs1 where c: "cJSON_create bs v = Some (dup, bs1)"
        "(do { (ms, bs) \<leftarrow> cJSON_AddItemToObject bs1 ms k dup; hoist_members bs ms rest }) = Some (ms', bs')"
      by (rule bind_pairE)
    from c(2) obtain ms1 bs2 where a: "cJSON_AddItemToObject bs1 ms k dup = Some (ms1, bs2)"
        "hoist_members bs2 ms1 rest = Some (ms', bs')"
      by (rule bind_pairE)
    have "ms1 = ms @ [(k, v)]" using create_SomeD [OF c(1)] add_item_SomeD [OF a(1)] by simp
    moreover have "keeps ms1 ms'" using "2.IH"(2) [OF False c(1) refl a(1) refl] a(2) by simp
    ultimately have "keeps (ms @ [(k, v)]) ms'" by simp
    then show ?thesis using keeps_snoc [of ms k v] False keeps_trans by auto
  qed
qed (simp add: keeps_refl)

lemma finalize_members_keeps:
  assumes "finalize_members bs r arts ms = Some (ms', bs')"
  shows "keeps (delete_member ms ''artifacts'' @ [(''artifacts'', arts)]) ms'"
    and "find_member ms' ''ui'' \<noteq> None" and "find_member ms' ''meta'' \<noteq> None"
proof -
  let ?m1 = "delete_member ms ''artifacts'' @ [(''artifacts'', arts)]"
  obtain bs1 m2 bs2 m3 bs3 where
      1: "cJSON_AddItemToObject bs (delete_member ms ''artifacts'') ''artifacts'' arts = Some (?m1, bs1)"
    and 2: "(if find_member ?m1 ''ui'' \<noteq> None then Some (?m1, bs1)
          else cJSON_AddItemToObject bs1 ?m1 ''ui'' (case tr_ui r of Some j \<Rightarrow> j | None \<Rightarrow> cJSON_NULL)) = Some (m2, bs2)"
    and 3: "(if find_member m2 ''meta'' \<noteq> None then Some (m2, bs2)
          else do { (item, bs) \<leftarrow> tool_result_detach_or_object bs2 (tr_meta r);
                    cJSON_AddItemToObject bs m2 ''meta'' item }) = Some (m3, bs3)"
    and 4: "(case find_member m3 ''data'' of Some (cJSON_Object ds) \<Rightarrow> hoist_members bs3 m3 ds | _ \<Rightarrow> Some (m3, bs3))
        = Some (ms', bs')"
    using assms [unfolded finalize_members_def]
    by (elim bind_pairE) (use add_item_SomeD in blast)
  define m1 where "m1 = ?m1"
  have k2: "keeps m1 m2" "find_member m2 ''ui'' \<noteq> None"
    using 2 [folded m1_def]
    by (auto split: if_splits dest!: add_item_SomeD intro: keeps_refl keeps_snoc simp: find_member_snoc)
  have k3: "keeps m2 m3" "find_member m3 ''meta'' \<noteq> None"
    using 3 by (auto split: if_splits Option.bind_splits prod.splits dest!: add_item_SomeD
        intro: keeps_refl keeps_snoc simp: find_member_snoc)
  have k4: "keeps m3 ms'"
    using 4 by (auto split: option.splits json.splits dest: hoist_keeps intro: keeps_refl)
  show "keeps ?m1 ms'" using k2(1) k3(1) k4 keeps_trans unfolding m1_def by blast
  show "find_member ms' ''ui'' \<noteq> None" "find_member ms' ''meta'' \<noteq> None"
    using k2 k3 k4 by (auto simp: keeps_def)
qed

text \<open>A finalized envelope \<open>ms'\<close> made from \<open>ms\<close>: names stay unambiguous, no member but the artifacts
  is replaced, and the four standard members are there.\<close>

definition finalized :: "'d members \<Rightarrow> 'd members \<Rightarrow> bool" where
  "finalized ms ms' \<longleftrightarrow> names_distinct ms' \<and>
     (\<forall>k v. \<not> case_insensitive_eq k ''artifacts'' \<longrightarrow> find_member ms k = Some v \<longrightarrow> find_member ms' k = Some v) \<and>
     cJSON_IsArray (find_member ms' ''artifacts'') \<and> find_member ms' ''ui'' \<noteq> None \<and> find_member ms' ''meta'' \<noteq> None"

lemma finalize_members_finalized:
  assumes f: "finalize_members bs r (cJSON_Array js) ms = Some (ms', bs')" and d: "names_distinct ms"
  shows "finalized ms ms'"
proof -
  let ?m1 = "delete_member ms ''artifacts'' @ [(''artifacts'', cJSON_Array js)]"
  have gone: "find_member (delete_member ms ''artifacts'') ''artifacts'' = None"
    using d by (rule find_member_delete_same)
  have "names_distinct ?m1" using d gone by (simp add: names_distinct_snoc names_distinct_delete)
  moreover have "find_member ?m1 ''artifacts'' = Some (cJSON_Array js)"
    using gone by (simp add: find_member_append)
  moreover have "find_member ?m1 k = Some v"
    if "\<not> case_insensitive_eq k ''artifacts''" "find_member ms k = Some v" for k v
    using that find_member_delete_other [of "''artifacts''" k ms]
    by (simp add: find_member_append case_insensitive_eq_sym)
  ultimately show ?thesis
    using finalize_members_keeps [OF f] by (auto simp: keeps_def finalized_def cJSON_IsArray_def)
qed

lemma success_envelope_Some:
  assumes "success_envelope bs slot = Some (ms, bs')"
  shows "ms = [(''ok'', cJSON_True), (''data'', case slot of Some j \<Rightarrow> j | None \<Rightarrow> cJSON_Object [])]"
  using assms
  by (auto simp: success_envelope_def tool_result_detach_or_object_def
      split: Option.bind_splits option.splits dest!: add_item_SomeD create_SomeD)

lemma error_envelope_Some:
  assumes "error_envelope bs code msg details = Some (ms, bs')"
  shows "ms = [(''ok'', cJSON_False),
     (''error'', cJSON_Object [(''code'', cJSON_String code), (''message'', cJSON_String msg), (''details'', details)])]"
  using assms by (auto simp: error_envelope_def split: Option.bind_splits dest!: add_item_SomeD)

definition envelope_or_success :: "'d tool_result \<Rightarrow> 'd members" where
  "envelope_or_success r = (case tr_envelope r of Some ms \<Rightarrow> ms
     | None \<Rightarrow> [(''ok'', cJSON_True), (''data'', case tr_data r of Some j \<Rightarrow> j | None \<Rightarrow> cJSON_Object [])])"

lemma names_distinct_success: "names_distinct [(''ok'', a), (''data'', b)]" "names_distinct [(''ok'', a), (''error'', b)]"
  by (simp_all add: names_distinct_def tolower_def)

text \<open>\<open>tool_result_finalize\<close> runs out of memory, or leaves the finalized envelope and its text.\<close>

definition finalized_result :: "('d json \<Rightarrow> string option) \<Rightarrow> 'd members \<Rightarrow> rc \<Rightarrow> 'd tool_result \<Rightarrow> bool" where
  "finalized_result print ms rc r' \<longleftrightarrow> rc = - ENOMEM \<or> rc = 0 \<and> (\<exists>ms' s. tr_envelope r' = Some ms' \<and>
     finalized ms ms' \<and> print (cJSON_Object ms') = Some s \<and> tr_text r' = Some (cstr s))"

lemma finalize_envelope_result:
  assumes f: "finalize_envelope num print bs r ms = (rc, r')" and d: "names_distinct ms"
  shows "finalized_result print ms rc r'"
proof -
  consider (oom) "rc = - ENOMEM"
    | (ok) arts bs1 ms' bs2 where
        "tool_artifact_list_to_json num bs (tr_artifacts r) = Some (arts, bs1)"
        "finalize_members bs1 r arts ms = Some (ms', bs2)"
        "(rc, r') = tool_result_set_owned_text
                    (r\<lparr>tr_envelope := Some ms', tr_data := find_member ms' ''data'', tr_ui := find_member ms' ''ui'',
                       tr_meta := find_member ms' ''meta''\<rparr>) (print (cJSON_Object ms'))"
    using f unfolding finalize_envelope_def by (auto split: option.splits)
  then show ?thesis
  proof cases
    case ok
    obtain js where "arts = cJSON_Array js" using artifact_list_is_array [OF ok(1)] by blast
    then have "finalized ms ms'" using ok(2) d by (simp add: finalize_members_finalized)
    then show ?thesis using ok(3)
      by (auto simp: tool_result_set_owned_text_def finalized_result_def split: option.splits)
  qed (simp add: finalized_result_def)
qed

lemma finalize_result:
  assumes "tool_result_finalize num print bs r = (rc, r')" and "names_distinct (envelope_or_success r)"
  shows "finalized_result print (envelope_or_success r) rc r'"
proof -
  have oom: "finalized_result print ms (- ENOMEM) x" for ms x by (simp add: finalized_result_def)
  note f = assms(1) [unfolded tool_result_finalize_def]
  show ?thesis
  proof (cases "tr_envelope r")
    case (Some ms)
    then show ?thesis using f assms(2) by (auto simp: envelope_or_success_def intro: finalize_envelope_result)
  next
    case None
    then consider "rc = - ENOMEM"
      | ms bs0 bs1 where "success_envelope bs0 (tr_data r) = Some (ms, bs1)"
          "finalize_envelope num print bs1 (r\<lparr>tr_data := None\<rparr>) ms = (rc, r')"
      using f by (auto split: option.splits)
    then show ?thesis
    proof cases
      case 2
      have "envelope_or_success r = ms"
        using None success_envelope_Some [OF 2(1)] by (simp add: envelope_or_success_def)
      then show ?thesis using finalize_envelope_result [OF 2(2)] assms(2) by simp
    qed (simp add: oom)
  qed
qed

lemma error_result:
  assumes "tool_result_error bs r (Some code) (Some msg) = (rc, r')"
  shows "rc = - ENOMEM \<or> rc = 0 \<and> tr_envelope r' = Some [(''ok'', cJSON_False),
     (''error'', cJSON_Object [(''code'', cJSON_String code), (''message'', cJSON_String msg), (''details'', cJSON_Object [])])]"
  using assms by (auto simp: tool_result_error_def split: option.splits Option.bind_splits dest!: error_envelope_Some)

text \<open>The envelope a tool's function asks for: its own, a success around its data, or, when it failed
  without one, the error for its return code.\<close>

definition asked_envelope :: "(int \<Rightarrow> string) \<Rightarrow> rc \<Rightarrow> 'd tool_result \<Rightarrow> 'd members" where
  "asked_envelope strerror rc r =
     (if rc < 0 \<and> tr_envelope r = None
      then [(''ok'', cJSON_False),
            (''error'', cJSON_Object [(''code'', cJSON_String (if rc = - EINVAL then ''invalid_arguments'' else ''tool_failed'')),
               (''message'', cJSON_String (morph_strerror strerror rc)), (''details'', cJSON_Object [])])]
      else envelope_or_success r)"

text \<open>
  C28. Running a tool.  An unknown name is refused and changes nothing.  Otherwise the tool's function
  runs on the result, and the call either reports that memory ran out, or returns the function's own
  code with an envelope that keeps everything the function's envelope said except its artifacts: a
  member of the tool's data never replaces \<open>ok\<close>, \<open>error\<close> or any other member.  A function that fails
  without an envelope gets one that says so.  The text of the result is the printed envelope.
\<close>

theorem tool_exec_spec:
  fixes reg :: "('d, 'u) tool_registry"
  assumes reg: "registry_ok reg"
  shows "if n \<notin> entry_name ` set (rg_entries reg)
    then tool_exec strerror num print bs bs' reg (Some n) args r = Some (- ENOENT, r)
    else \<exists>e \<in> set (rg_entries reg). entry_name e = n \<and>
     (case te_exec e of
        None \<Rightarrow> tool_exec strerror num print bs bs' reg (Some n) args r = Some (- ENOSYS, r)
      | Some f \<Rightarrow> \<exists>rc r1 rc' r'. f args r (te_user_data e) = (rc, r1) \<and>
          tool_exec strerror num print bs bs' reg (Some n) args r = Some (rc', r') \<and>
          (names_distinct (envelope_or_success r1) \<longrightarrow> rc' = - ENOMEM \<or> rc' = rc \<and>
            (\<exists>ms' s. tr_envelope r' = Some ms' \<and> finalized (asked_envelope strerror rc r1) ms' \<and>
               print (cJSON_Object ms') = Some s \<and> tr_text r' = Some (cstr s))))"
proof (cases "n \<in> entry_name ` set (rg_entries reg)")
  case False
  then have "index_of (map entry_name (rg_entries reg)) n = None" by (simp add: index_of_None)
  then show ?thesis using False find_tool_eq [OF reg, of n] by (simp add: tool_exec_def tool_lookup_def)
next
  case True
  then obtain i where "index_of (map entry_name (rg_entries reg)) n = Some i"
    by (metis index_of_None list.set_map not_Some_eq)
  with find_tool_eq [OF reg, of n] have look: "tool_lookup reg (Some n) = Some (Some i)"
      and i: "i < length (rg_entries reg)" "entry_name (rg_entries reg ! i) = n"
    by (auto simp: tool_lookup_def dest: index_of_Some)
  define e where "e = rg_entries reg ! i"
  have "\<exists>rc r1 rc' r'. f args r (te_user_data e) = (rc, r1) \<and>
          tool_exec strerror num print bs bs' reg (Some n) args r = Some (rc', r') \<and>
          (names_distinct (envelope_or_success r1) \<longrightarrow> rc' = - ENOMEM \<or> rc' = rc \<and>
            (\<exists>ms' s. tr_envelope r' = Some ms' \<and> finalized (asked_envelope strerror rc r1) ms' \<and>
               print (cJSON_Object ms') = Some s \<and> tr_text r' = Some (cstr s)))" if f: "te_exec e = Some f" for f
  proof -
    obtain rc r1 where r1: "f args r (te_user_data e) = (rc, r1)" by (cases "f args r (te_user_data e)")
    obtain rc2 r2 where r2: "(if rc < 0 \<and> tr_envelope r1 = None
        then tool_result_error bs r1 (Some (if rc = - EINVAL then ''invalid_arguments'' else ''tool_failed''))
               (Some (morph_strerror strerror rc)) else (0, r1)) = (rc2, r2)"
      by (meson surj_pair)
    obtain rc3 r3 where r3: "tool_result_finalize num print bs' r2 = (rc3, r3)" by (meson surj_pair)
    have ex: "tool_exec strerror num print bs bs' reg (Some n) args r
        = Some (if rc2 \<noteq> 0 then (rc2, r2) else (if rc3 \<noteq> 0 then rc3 else rc, r3))"
      using look i f r1 r2 r3 by (simp add: tool_exec_def e_def Let_def)
    have asked: "rc2 = - ENOMEM \<or> rc2 = 0 \<and> asked_envelope strerror rc r1 = envelope_or_success r2
        \<and> (names_distinct (envelope_or_success r1) \<longrightarrow> names_distinct (envelope_or_success r2))"
      using r2 by (auto simp: asked_envelope_def envelope_or_success_def names_distinct_success
          split: if_splits dest!: error_result)
    show ?thesis using asked ex r1 finalize_result [OF r3] unfolding finalized_result_def
      by (cases "rc2 = 0") (auto intro!: exI [of _ rc] exI [of _ r1])
  qed
  moreover have "te_exec e = None \<Longrightarrow> tool_exec strerror num print bs bs' reg (Some n) args r = Some (- ENOSYS, r)"
    using look i by (simp add: tool_exec_def e_def Let_def)
  ultimately show ?thesis using True i
    by (auto simp: e_def [symmetric] split: option.splits intro!: bexI [of _ e]) (auto simp: e_def)
qed

definition example_registry :: "(unit, nat) tool_registry" where
  "example_registry = \<lparr>rg_entries = [entry_of_spec (example_spec ''plan'' 7) ''plan''], rg_disabled = [],
     rg_by_name = strmap_null, rg_disabled_by_name = strmap_null\<rparr>"

lemma example_registry_ok: "registry_ok example_registry"
  by (simp add: registry_ok_def example_registry_def name_index.sound_def map_inv_def map_bindings_def
      strmap_null_def strmap_abs_def TOOL_MAX_ENTRIES_def TOOL_DISABLED_MAX_def)

theorem tool_exec_spec_witness:
  "\<exists>rc' r'. tool_exec (\<lambda>_. []) (\<lambda>_. ()) (\<lambda>_. Some ''x'') [] [] example_registry (Some ''plan'') None tool_result_init
     = Some (rc', r') \<and> (rc' = - 12 \<or> rc' = 0 \<and> tr_text r' = Some ''x'')"
  using tool_exec_spec [OF example_registry_ok, of "''plan''" "\<lambda>_. []" "\<lambda>_. ()" "\<lambda>_. Some ''x''" "[]" "[]" None tool_result_init]
  by (auto simp: example_registry_def example_spec_def entry_of_spec_def strncpy_fixed_def TOOL_NAME_MAX_def
      envelope_or_success_def tool_result_init_def names_distinct_success cstr_def)

end
