(* ===== verification/React.thy ===== *)
theory React
  imports React_Stream Tools Compress
begin

text \<open>
  The ReAct loop of \<open>src/agent/react.c\<close>: one turn from \<open>react_run\<close> to \<open>react_finish_run\<close>, with the
  approvals, the tool calls of a round, the tracking of repeated failures, the guardrails, the
  actions drained from outside and the outcome of the turn.

  What happens outside is the record \<open>env\<close>; every question the code asks the outside (the model, the
  history database, the person who approves, a worker thread, the allocator where the code reports its
  failure) takes the answer at the current tick of a clock in the context, so that answers may change
  in any way from one question to the next.  Copies of strings into the turn arena always succeed.
  Events and outputs are appended to a log; requests to the model and started worker threads are
  recorded too.  Streaming of one answer is composed from \<open>React_Stream\<close>, the registry from \<open>Tools\<close>, the
  rules from \<open>Guardrail\<close>, the compression of the session from \<open>Compress\<close>.
\<close>

abbreviation (input) EPERM :: int where "EPERM \<equiv> 1"
abbreviation (input) EAGAIN :: int where "EAGAIN \<equiv> 11"
abbreviation (input) ECANCELED :: int where "ECANCELED \<equiv> 125"
abbreviation (input) ETIMEDOUT :: int where "ETIMEDOUT \<equiv> 110"

section \<open>State\<close>

datatype react_state = REACT_STATE_INIT | REACT_STATE_THINKING | REACT_STATE_ACTING | REACT_STATE_OBSERVING
  | REACT_STATE_GUARDRAIL | REACT_STATE_FINAL | REACT_STATE_DONE | REACT_STATE_ABORT | REACT_STATE_TOOL_FAIL

datatype react_outcome = REACT_OUTCOME_NONE | REACT_OUTCOME_SUCCESS | REACT_OUTCOME_CANCELLED
  | REACT_OUTCOME_TIMEOUT | REACT_OUTCOME_MAX_ITERATIONS | REACT_OUTCOME_LLM_ERROR | REACT_OUTCOME_TOOL_ERROR
  | REACT_OUTCOME_GUARDRAIL_DENIED | REACT_OUTCOME_INTERNAL_ERROR

datatype react_output_status = REACT_OUTPUT_NONE | REACT_OUTPUT_DELTA | REACT_OUTPUT_STARTED
  | REACT_OUTPUT_COMPLETED | REACT_OUTPUT_FAILED | REACT_OUTPUT_CANCELLED | REACT_OUTPUT_TIMEOUT

datatype hitl_verdict = HITL_APPROVE | HITL_DENY | HITL_ALWAYS

record tool_call =
  tc_id :: string
  tc_tool_call_id :: string
  tc_name :: string
  tc_arguments :: "string option"
  tc_input_kind :: tool_input_kind

record chat_message =
  cm_role :: string
  cm_content :: "string option"
  cm_tool_call_id :: "string option"
  cm_tool_calls :: "tool_call list"
  cm_reasoning_content :: "string option"

record chat_response =
  cr_content :: "string option"
  cr_reasoning_content :: "string option"
  cr_tool_calls :: "tool_call list"

text \<open>A step of the trace: what the guardrails see of it, and its text.\<close>

record run_step = react_step +
  sp_content :: string
  sp_tool_args :: "string option"
  sp_tool_call_id :: "string option"

datatype log_entry =
    Event string string
  | Output_event react_step_type react_output_status
  | Clear_turn_grants

record react_ctx =
  rx_steps :: "run_step list"
  rx_state :: react_state
  rx_outcome :: react_outcome
  rx_last_error_code :: int
  rx_outcome_reason :: string
  rx_last_error_detail :: "string option"
  rx_final_answer :: "string option"
  rx_tool_fail_name :: "string option"
  rx_tool_fail_args :: "string option"
  rx_tool_fail_count :: int
  rx_guardrail_retry_count :: int
  rx_empty_round_count :: int
  rx_steer_count :: int
  rx_in_turn_compaction_count :: int
  rx_incomplete_final_retry_count :: int
  rx_cancelled :: bool
  rx_history_error :: int
  rx_auto_approved :: "string list"
  rx_messages :: "message list"
  rx_turn_id :: string
  rx_turn_id_user_set :: bool
  rx_clock :: nat
  rx_log :: "log_entry list"
  rx_requests :: "(react_outcome \<times> chat_message list) list"
  rx_started :: "tool_call list"

text \<open>Which of the functions of the model is there.\<close>

datatype llm_backend = Chat_with_tools_stream | Chat_with_tools | Chat_only

record 'u react_config =
  cf_max_iterations :: int
  cf_tool_timeout_seconds :: int
  cf_tool_max_retries :: int
  cf_guardrail :: guardrail_config
  cf_guardrail_max_retries :: int
  cf_guardrail_max_empty_rounds :: int
  cf_hitl_enabled :: bool
  cf_hitl_tools :: "string list"
  cf_hitl_auto_approve_readonly :: bool
  cf_hitl_approval_cb :: bool
  cf_tools :: "(unit, 'u) tool_registry"
  cf_llm_ready :: bool
  cf_history_enabled :: bool
  cf_history_db :: bool
  cf_memory_options :: bool
  cf_in_turn_compaction :: bool
  cf_max_context_tokens :: int
  cf_protocol_reserve_tokens :: int
  cf_llm_max_tokens :: int
  cf_max_history_rounds :: int
  cf_llm_backend :: llm_backend

text \<open>How a worker thread ended: in time with a return code, a text, a replacement for the history and
  artifacts; too late; or interrupted.\<close>

datatype join_result =
    Joined int "string option" "string option" "tool_artifact list"
  | Join_timeout
  | Join_cancelled

text \<open>A call of the model: the tokens it delivers, each with its kind and the flag of the signal handler at
  that time, the answers of the arena while they are handled, the status it returns in view of what the
  callback answered to each token, and the response it fills in.  \<open>chat\<close> fills in none.\<close>

record llm_reply =
  lr_arena :: allocs
  lr_tokens :: "(llm_stream_kind \<times> bool \<times> string) list"
  lr_status :: "int list \<Rightarrow> int"
  lr_response :: chat_response

record env =
  en_world :: world
  en_sigint :: "nat \<Rightarrow> bool"
  en_actions :: "nat \<Rightarrow> (string option \<times> string option) list"
  en_prompt_text :: "string \<Rightarrow> string option"
  en_alloc :: "nat \<Rightarrow> bool"
  en_history :: "nat \<Rightarrow> nat \<times> bool"
  en_prepare :: "nat \<Rightarrow> string \<Rightarrow> nat \<times> string"
  en_hitl :: "nat \<Rightarrow> string \<Rightarrow> string \<Rightarrow> hitl_verdict"
  en_join :: "nat \<Rightarrow> join_result"
  en_llm :: "nat \<Rightarrow> llm_reply"
  en_memory :: "nat \<Rightarrow> nat"
  en_id :: "nat \<Rightarrow> nat \<times> string"
  en_input_arg :: "string \<Rightarrow> string option"
  en_normalize :: "nat \<Rightarrow> string option \<Rightarrow> nat \<times> string"
  en_arg_timeout :: "string \<Rightarrow> int option"
  en_system_prompt :: "nat \<Rightarrow> string option"
  en_tokenizer :: "tokenizer option"
  en_ratio :: "int \<Rightarrow> int"
  en_compact :: "nat \<Rightarrow> int"
  en_history_messages :: "nat \<Rightarrow> nat \<times> chat_message list"
  en_summarize :: "nat \<Rightarrow> (string \<Rightarrow> rc \<times> string option) \<times> bool"

text \<open>A question to the outside.\<close>

definition ask :: "(nat \<Rightarrow> 'a) \<Rightarrow> react_ctx \<Rightarrow> 'a \<times> react_ctx" where
  "ask f c = (f (rx_clock c), c\<lparr>rx_clock := Suc (rx_clock c)\<rparr>)"

definition emit_event :: "string \<Rightarrow> string \<Rightarrow> react_ctx \<Rightarrow> react_ctx" where
  "emit_event name phase c = c\<lparr>rx_log := rx_log c @ [Event name phase]\<rparr>"

definition react_output_emit :: "react_step_type \<Rightarrow> react_output_status \<Rightarrow> react_ctx \<Rightarrow> react_ctx" where
  "react_output_emit ty st c = c\<lparr>rx_log := rx_log c @ [Output_event ty st]\<rparr>"

text \<open>The answer of a history operation: its return code is never positive, and the first failure may
  be kept in \<open>history_error\<close>.\<close>

definition ask_history :: "env \<Rightarrow> react_ctx \<Rightarrow> int \<times> react_ctx" where
  "ask_history e c =
     (let ((n, sets), c) = ask (en_history e) c; rc = - int n
      in (rc, if rc \<noteq> 0 \<and> sets \<and> rx_history_error c = 0 then c\<lparr>rx_history_error := rc\<rparr> else c))"

definition HITL_TOOL_NAME_MAX :: nat where "HITL_TOOL_NAME_MAX = 64"
definition HITL_AUTO_APPROVED_MAX :: nat where "HITL_AUTO_APPROVED_MAX = 32"

section \<open>Names\<close>

definition react_step_type_name :: "react_step_type \<Rightarrow> string" where
  "react_step_type_name ty = (case ty of
       REACT_STEP_THOUGHT \<Rightarrow> ''Thought'' | REACT_STEP_ACTION \<Rightarrow> ''Action''
     | REACT_STEP_OBSERVATION \<Rightarrow> ''Observation'' | REACT_STEP_REFLECTION \<Rightarrow> ''Reflection''
     | REACT_STEP_FINAL \<Rightarrow> ''Final'' | REACT_STEP_REASONING \<Rightarrow> ''Reasoning'')"

definition react_state_name :: "react_state \<Rightarrow> string" where
  "react_state_name st = (case st of
       REACT_STATE_INIT \<Rightarrow> ''INIT'' | REACT_STATE_THINKING \<Rightarrow> ''THINKING'' | REACT_STATE_ACTING \<Rightarrow> ''ACTING''
     | REACT_STATE_OBSERVING \<Rightarrow> ''OBSERVING'' | REACT_STATE_GUARDRAIL \<Rightarrow> ''GUARDRAIL''
     | REACT_STATE_FINAL \<Rightarrow> ''FINAL'' | REACT_STATE_DONE \<Rightarrow> ''DONE'' | REACT_STATE_ABORT \<Rightarrow> ''ABORT''
     | REACT_STATE_TOOL_FAIL \<Rightarrow> ''TOOL_FAIL'')"

definition react_outcome_name :: "react_outcome \<Rightarrow> string" where
  "react_outcome_name oc = (case oc of
       REACT_OUTCOME_NONE \<Rightarrow> ''none'' | REACT_OUTCOME_SUCCESS \<Rightarrow> ''success''
     | REACT_OUTCOME_CANCELLED \<Rightarrow> ''cancelled'' | REACT_OUTCOME_TIMEOUT \<Rightarrow> ''timeout''
     | REACT_OUTCOME_MAX_ITERATIONS \<Rightarrow> ''max_iterations'' | REACT_OUTCOME_LLM_ERROR \<Rightarrow> ''llm_error''
     | REACT_OUTCOME_TOOL_ERROR \<Rightarrow> ''tool_error'' | REACT_OUTCOME_GUARDRAIL_DENIED \<Rightarrow> ''guardrail_denied''
     | REACT_OUTCOME_INTERNAL_ERROR \<Rightarrow> ''internal_error'')"

definition react_auth_backend_for_tool :: "string option \<Rightarrow> string option" where
  "react_auth_backend_for_tool tool =
     (case tool of
        None \<Rightarrow> None
      | Some t \<Rightarrow>
          if t \<in> {''img_qa'', ''plan''} then Some ''text''
          else if t \<in> {''img_gen'', ''img_inpaint'', ''img_compose''} then Some ''image''
          else if t = ''vid_gen'' then Some ''video'' else None)"

section \<open>The active turns\<close>

definition REACT_ACTIVE_MAX :: nat where "REACT_ACTIVE_MAX = 16"

definition react_active_push :: "'c \<Rightarrow> 'c list \<Rightarrow> 'c list" where
  "react_active_push ctx stack = (if length stack < REACT_ACTIVE_MAX then stack @ [ctx] else stack)"

text \<open>The last entry moves into the place of the last occurrence.\<close>

fun last_position :: "'c \<Rightarrow> 'c list \<Rightarrow> nat option" where
  "last_position c [] = None"
| "last_position c (x # xs) =
     (case last_position c xs of Some i \<Rightarrow> Some (Suc i) | None \<Rightarrow> if x = c then Some 0 else None)"

definition react_active_pop :: "'c \<Rightarrow> 'c list \<Rightarrow> 'c list" where
  "react_active_pop ctx stack =
     (case last_position ctx stack of None \<Rightarrow> stack | Some i \<Rightarrow> butlast (stack[i := last stack]))"

section \<open>Outcome of a turn\<close>

definition react_set_state :: "react_state \<Rightarrow> react_ctx \<Rightarrow> react_ctx" where
  "react_set_state st c = c\<lparr>rx_state := st\<rparr>"

definition react_set_result :: "react_outcome \<Rightarrow> int \<Rightarrow> string option \<Rightarrow> react_ctx \<Rightarrow> react_ctx" where
  "react_set_result oc code why c =
     c\<lparr>rx_outcome := oc, rx_last_error_code := code,
       rx_state := (if oc = REACT_OUTCOME_SUCCESS then REACT_STATE_DONE else REACT_STATE_ABORT),
       rx_outcome_reason := (case why of None \<Rightarrow> [] | Some s \<Rightarrow> take 63 s)\<rparr>"

definition react_set_error_detail :: "string \<Rightarrow> react_ctx \<Rightarrow> react_ctx" where
  "react_set_error_detail detail c =
     c\<lparr>rx_last_error_detail := (if detail = [] then None else Some (utf8_dup_clamped detail 8192))\<rparr>"

text \<open>\<open>react_finish\<close>: an outcome when none was recorded, the event that names it, and the end of the turn.\<close>

definition finish_outcome :: "react_ctx \<Rightarrow> react_ctx" where
  "finish_outcome c =
     (if rx_outcome c = REACT_OUTCOME_NONE
      then if rx_state c = REACT_STATE_DONE then react_set_result REACT_OUTCOME_SUCCESS 0 None c
           else if rx_cancelled c
           then react_set_result REACT_OUTCOME_CANCELLED (- ECANCELED) (Some ''user_cancelled'') c
           else react_set_result REACT_OUTCOME_INTERNAL_ERROR (- ECANCELED) (Some ''internal_error'') c
      else c)"

definition finish_event :: "react_outcome \<Rightarrow> string \<times> string" where
  "finish_event oc =
     (if oc = REACT_OUTCOME_CANCELLED then (''react.cancelled'', ''cancelled'')
      else if oc = REACT_OUTCOME_TIMEOUT then (''react.timed_out'', ''timeout'')
      else if oc = REACT_OUTCOME_MAX_ITERATIONS then (''react.max_iterations'', ''failed'')
      else (''react.failed'', ''failed''))"

definition react_finish :: "react_ctx \<Rightarrow> int \<times> react_ctx" where
  "react_finish c =
     (let c = finish_outcome c;
          rc = (if rx_last_error_code c < 0 then rx_last_error_code c else 0)
      in if rx_outcome c = REACT_OUTCOME_SUCCESS then (0, emit_event ''react.turn.end'' ''end'' c)
         else let rc = (if rc = 0 then - ECANCELED else rc);
                  (name, phase) = finish_event (rx_outcome c)
              in (rc, emit_event ''react.turn.end'' phase (emit_event name phase c)))"

definition react_finish_run :: "react_ctx \<Rightarrow> int \<times> react_ctx" where
  "react_finish_run c = (let (rc, c) = react_finish c in (rc, c\<lparr>rx_turn_id_user_set := False\<rparr>))"

definition react_set_turn_id :: "string option \<Rightarrow> react_ctx \<Rightarrow> react_ctx" where
  "react_set_turn_id turn_id c =
     (case turn_id of
        None \<Rightarrow> c\<lparr>rx_turn_id := [], rx_turn_id_user_set := False\<rparr>
      | Some t \<Rightarrow> if t = [] then c\<lparr>rx_turn_id := [], rx_turn_id_user_set := False\<rparr>
                  else c\<lparr>rx_turn_id := take 63 t, rx_turn_id_user_set := True\<rparr>)"

definition react_reset :: "react_ctx \<Rightarrow> react_ctx" where
  "react_reset c =
     c\<lparr>rx_steps := [], rx_state := REACT_STATE_INIT, rx_outcome := REACT_OUTCOME_NONE, rx_last_error_code := 0,
       rx_outcome_reason := [], rx_last_error_detail := None, rx_final_answer := None, rx_tool_fail_name := None,
       rx_tool_fail_args := None, rx_tool_fail_count := 0, rx_guardrail_retry_count := 0, rx_empty_round_count := 0,
       rx_in_turn_compaction_count := 0, rx_incomplete_final_retry_count := 0, rx_cancelled := False\<rparr>"

definition react_cancel :: "react_ctx \<Rightarrow> react_ctx" where
  "react_cancel c = c\<lparr>rx_cancelled := True\<rparr>"

definition react_step_create ::
    "react_step_type \<Rightarrow> string \<Rightarrow> string option \<Rightarrow> string option \<Rightarrow> string option \<Rightarrow> run_step" where
  "react_step_create ty body tool args call_id =
     \<lparr>st_type = ty, st_error_code = 0, st_artifacts = [], st_tool_name = tool, sp_content = body,
      sp_tool_args = args, sp_tool_call_id = call_id\<rparr>"

definition add_step :: "run_step \<Rightarrow> react_ctx \<Rightarrow> react_ctx" where
  "add_step s c = c\<lparr>rx_steps := rx_steps c @ [s]\<rparr>"

definition check_sigint :: "env \<Rightarrow> react_ctx \<Rightarrow> react_ctx" where
  "check_sigint e c = (let (b, c) = ask (en_sigint e) c in if b then c\<lparr>rx_cancelled := True\<rparr> else c)"

section \<open>Approvals\<close>

definition has_flag :: "'u react_config \<Rightarrow> string \<Rightarrow> 32 word \<Rightarrow> bool" where
  "has_flag cfg name flag \<longleftrightarrow> tool_has_flag (cf_tools cfg) (Some name) flag = Some True"

definition hitl_needs_approval :: "'u react_config \<Rightarrow> react_ctx \<Rightarrow> string \<Rightarrow> bool" where
  "hitl_needs_approval cfg c name \<longleftrightarrow>
     cf_hitl_enabled cfg \<and> name \<notin> set (rx_auto_approved c) \<and> \<not> has_flag cfg name TOOL_FLAG_INTERNAL_APPROVAL \<and>
     (if cf_hitl_tools cfg \<noteq> [] then name \<in> set (cf_hitl_tools cfg)
      else \<not> (cf_hitl_auto_approve_readonly cfg \<and> has_flag cfg name TOOL_FLAG_READONLY))"

definition hitl_add_auto_approved :: "string \<Rightarrow> react_ctx \<Rightarrow> react_ctx" where
  "hitl_add_auto_approved name c =
     (if length (rx_auto_approved c) \<ge> HITL_AUTO_APPROVED_MAX \<or> name \<in> set (rx_auto_approved c) then c
      else c\<lparr>rx_auto_approved := rx_auto_approved c @ [strncpy_fixed HITL_TOOL_NAME_MAX name]\<rparr>)"

definition call_args :: "tool_call \<Rightarrow> string" where
  "call_args tc = (case tc_arguments tc of None \<Rightarrow> ''{}'' | Some a \<Rightarrow> a)"

definition action_step :: "tool_call \<Rightarrow> run_step" where
  "action_step tc = react_step_create REACT_STEP_ACTION (tc_name tc @ ''('' @ call_args tc @ '')'')
     (Some (tc_name tc)) (Some (call_args tc)) (Some (tc_tool_call_id tc))"

text \<open>The verdict on one call: whether it is denied.\<close>

definition check_hitl_approval :: "'u react_config \<Rightarrow> env \<Rightarrow> tool_call \<Rightarrow> react_ctx \<Rightarrow> bool \<times> react_ctx" where
  "check_hitl_approval cfg e tc c =
     (if \<not> hitl_needs_approval cfg c (tc_name tc) \<or> \<not> cf_hitl_approval_cb cfg then (False, c)
      else let (v, c) = ask (\<lambda>n. en_hitl e n (tc_name tc) (call_args tc)) (emit_event ''hitl.request'' ''begin'' c)
           in case v of
                HITL_ALWAYS \<Rightarrow> (False, emit_event ''hitl.always'' ''end'' (hitl_add_auto_approved (tc_name tc) c))
              | HITL_DENY \<Rightarrow>
                 (let msg = take 511 (''tool error: '' @ [CHR 0x27] @ tc_name tc @ [CHR 0x27] @ '' execution denied by user'')
                  in (True, emit_event ''react.observation'' ''failed''
                       (add_step (react_step_create REACT_STEP_OBSERVATION msg None None None)
                         (add_step (action_step tc) (emit_event ''hitl.denied'' ''failed'' c)))))
              | HITL_APPROVE \<Rightarrow> (False, emit_event ''hitl.approved'' ''end'' c))"

fun react_check_hitl_approvals ::
    "'u react_config \<Rightarrow> env \<Rightarrow> tool_call list \<Rightarrow> react_ctx \<Rightarrow> bool list \<times> react_ctx" where
  "react_check_hitl_approvals cfg e [] c = ([], c)"
| "react_check_hitl_approvals cfg e (tc # tcs) c =
     (let (d, c) = check_hitl_approval cfg e tc c; (ds, c) = react_check_hitl_approvals cfg e tcs c in (d # ds, c))"

section \<open>Starting the tools of a round\<close>

datatype tool_slot = Slot_denied | Slot_running | Slot_empty

definition push_ok :: "env \<Rightarrow> react_ctx \<Rightarrow> bool \<times> react_ctx" where
  "push_ok e c = ask (en_alloc e) c"

text \<open>One call that was not denied: \<open>False\<close> when the loop breaks.\<close>

definition start_tool_call :: "env \<Rightarrow> tool_call \<Rightarrow> react_ctx \<Rightarrow> bool \<times> react_ctx" where
  "start_tool_call e tc c =
     (let c = emit_event ''tool.call'' ''begin'' (emit_event ''react.action'' ''begin''
                (react_output_emit REACT_STEP_ACTION REACT_OUTPUT_STARTED (add_step (action_step tc) c)));
          (created, c) = push_ok e c
      in if \<not> created
         then (False, react_set_result REACT_OUTCOME_INTERNAL_ERROR (- ENOMEM) (Some ''internal_error'') c)
         else let (started, c) = push_ok e c
              in if \<not> started
                 then (False, react_set_result REACT_OUTCOME_INTERNAL_ERROR (- EAGAIN) (Some ''tool_thread_failed'')
                                (emit_event ''tool.failed'' ''failed'' c))
                 else (True, c\<lparr>rx_started := rx_started c @ [tc]\<rparr>))"

fun start_loop :: "env \<Rightarrow> (tool_call \<times> bool) list \<Rightarrow> react_ctx \<Rightarrow> tool_slot list \<times> react_ctx" where
  "start_loop e [] c = ([], c)"
| "start_loop e ((tc, denied) # rest) c =
     (if denied then let (ss, c) = start_loop e rest c in (Slot_denied # ss, c)
      else let (go, c) = start_tool_call e tc c
           in if go then let (ss, c) = start_loop e rest c in (Slot_running # ss, c)
              else (Slot_empty # map (\<lambda>(tc, d). if d then Slot_denied else Slot_empty) rest, c))"

definition release_slots :: "tool_slot list \<Rightarrow> react_ctx \<Rightarrow> react_ctx" where
  "release_slots ss c = foldl (\<lambda>c s. if s = Slot_running then emit_event ''tool.running'' ''begin'' c else c) c ss"

definition react_start_tool_calls ::
    "'u react_config \<Rightarrow> env \<Rightarrow> tool_call list \<Rightarrow> react_ctx \<Rightarrow> tool_slot list \<times> react_ctx" where
  "react_start_tool_calls cfg e tcs c =
     (let (ds, c) = react_check_hitl_approvals cfg e tcs c;
          (ss, c) = start_loop e (zip tcs ds) c
      in (ss, release_slots ss c))"

section \<open>Repeated failures\<close>

definition fail_text :: "string option \<Rightarrow> string" where
  "fail_text name = take 255 (''Tool '' @ [CHR 0x27] @ (case name of None \<Rightarrow> ''(unknown)'' | Some n \<Rightarrow> n) @ [CHR 0x27]
     @ '' repeatedly failed. Please try a different approach.'')"

definition react_track_tool_failure :: "'u react_config \<Rightarrow> string \<Rightarrow> string \<Rightarrow> int \<Rightarrow> react_ctx \<Rightarrow> bool \<times> react_ctx" where
  "react_track_tool_failure cfg name args rc c =
     (let c = (if rc < 0
               then let c = react_set_state REACT_STATE_TOOL_FAIL c
                    in if rx_tool_fail_name c = Some name \<and> rx_tool_fail_args c = Some args
                       then c\<lparr>rx_tool_fail_count := rx_tool_fail_count c + 1\<rparr>
                       else c\<lparr>rx_tool_fail_name := Some name, rx_tool_fail_args := Some args, rx_tool_fail_count := 1\<rparr>
               else c\<lparr>rx_tool_fail_name := None, rx_tool_fail_args := None, rx_tool_fail_count := 0\<rparr>)
      in if rx_tool_fail_count c < cf_tool_max_retries cfg then (False, c)
         else let msg = fail_text (rx_tool_fail_name c);
                  c = add_step (react_step_create REACT_STEP_FINAL msg None None None) c;
                  c = react_set_state REACT_STATE_DONE (c\<lparr>rx_final_answer := Some msg\<rparr>);
                  c = emit_event ''react.final'' ''end'' (react_output_emit REACT_STEP_FINAL REACT_OUTPUT_COMPLETED c)
              in (True, c\<lparr>rx_tool_fail_name := None, rx_tool_fail_args := None, rx_tool_fail_count := 0\<rparr>))"

section \<open>Guardrails of the loop\<close>

definition steps_view :: "react_ctx \<Rightarrow> react_step list" where
  "steps_view c = map react_step.truncate (rx_steps c)"

definition eval_zero :: eval_ctx where
  "eval_zero = \<lparr>user_input = None, ev_tool_name = None, tool_result = None, tool_error_code = 0, tool_artifacts = None,
     proposed_answer = None, ev_steps = [], empty_round_count = 0, max_empty_rounds = 0\<rparr>"

definition action_of :: "guardrail_result \<Rightarrow> string \<Rightarrow> string" where
  "action_of gr dflt =
     (case triggered_rule gr of
        Some r \<Rightarrow> if gr_action_text r \<noteq> [] then gr_action_text r else dflt
      | None \<Rightarrow> dflt)"

definition react_check_input_guardrail :: "'u react_config \<Rightarrow> env \<Rightarrow> string \<Rightarrow> react_ctx \<Rightarrow> bool \<times> react_ctx" where
  "react_check_input_guardrail cfg e input c =
     (if \<not> cfg_enabled (cf_guardrail cfg) then (False, c)
      else let gr = guardrail_run_hook (en_world e) (cf_guardrail cfg) GUARDRAIL_HOOK_INPUT (eval_zero\<lparr>user_input := Some input\<rparr>)
           in if verdict gr \<noteq> GUARDRAIL_FAIL then (False, c)
              else let msg = take 2047 (''Input rejected: '' @ reason gr @ [LF] @ action_of gr []);
                       c = emit_event ''react.reflection'' ''failed''
                             (add_step (react_step_create REACT_STEP_REFLECTION msg None None None) c)
                   in (True, react_set_result REACT_OUTCOME_GUARDRAIL_DENIED (- EPERM) (Some ''guardrail_denied'')
                               (c\<lparr>rx_final_answer := Some msg\<rparr>)))"

definition react_apply_tool_output_guardrail ::
    "'u react_config \<Rightarrow> env \<Rightarrow> tool_call \<Rightarrow> string \<Rightarrow> int \<Rightarrow> tool_artifact list \<Rightarrow> react_ctx \<Rightarrow> string \<times> react_ctx" where
  "react_apply_tool_output_guardrail cfg e tc obs_text rc arts c =
     (if \<not> cfg_enabled (cf_guardrail cfg) then (obs_text, c)
      else let gr = guardrail_run_hook (en_world e) (cf_guardrail cfg) GUARDRAIL_HOOK_TOOL_OUTPUT
                 (eval_zero\<lparr>ev_tool_name := Some (tc_name tc), tool_result := Some obs_text, tool_error_code := rc,
                    tool_artifacts := Some (map ta_path arts), ev_steps := steps_view c\<rparr>)
           in if verdict gr \<noteq> GUARDRAIL_FAIL then (obs_text, c)
              else (take 2047 (''guardrail: '' @ reason gr @ [LF] @ action_of gr ''Verify tool parameters and try again.''),
                    emit_event ''react.reflection'' ''failed''
                      (react_output_emit REACT_STEP_REFLECTION REACT_OUTPUT_FAILED
                        (add_step (react_step_create REACT_STEP_REFLECTION (reason gr) None None None) c))))"

definition chat_text :: "string \<Rightarrow> string \<Rightarrow> chat_message" where
  "chat_text r body = \<lparr>cm_role = r, cm_content = Some body, cm_tool_call_id = None, cm_tool_calls = [],
     cm_reasoning_content = None\<rparr>"

definition answer_is_empty :: "string \<Rightarrow> bool" where
  "answer_is_empty proposed \<longleftrightarrow> proposed = [] \<or> proposed = ''(no response)''"

text \<open>What the output rules say of an answer; an empty answer never passes.\<close>

definition output_verdict :: "'u react_config \<Rightarrow> env \<Rightarrow> string \<Rightarrow> react_ctx \<Rightarrow> guardrail_result" where
  "output_verdict cfg e proposed c =
     (let gr = guardrail_run_hook (en_world e) (cf_guardrail cfg) GUARDRAIL_HOOK_OUTPUT
                 (eval_zero\<lparr>proposed_answer := Some proposed, ev_steps := steps_view c,
                    empty_round_count := rx_empty_round_count c, max_empty_rounds := cf_guardrail_max_empty_rounds cfg\<rparr>)
      in if answer_is_empty proposed \<and> verdict gr = GUARDRAIL_PASS
         then gr\<lparr>verdict := GUARDRAIL_FAIL, reason := ''The model returned an empty response.''\<rparr> else gr)"

text \<open>\<open>react_handle_guardrail_retry\<close>; the results are those of the source: 0 accept, 1 try again, 2 terminal
  error, negative for lack of memory.\<close>

definition react_handle_guardrail_retry ::
    "'u react_config \<Rightarrow> env \<Rightarrow> string \<Rightarrow> chat_message list \<Rightarrow> react_ctx \<Rightarrow> int \<times> chat_message list \<times> react_ctx" where
  "react_handle_guardrail_retry cfg e proposed msgs c =
     (let empty = answer_is_empty proposed
      in if \<not> cfg_enabled (cf_guardrail cfg) \<and> \<not> empty then (0, msgs, c)
         else if \<not> empty \<and> rx_guardrail_retry_count c \<ge> cf_guardrail_max_retries cfg
         then (0, msgs, c\<lparr>rx_empty_round_count := 0\<rparr>)
         else
           let c = c\<lparr>rx_empty_round_count := (if empty then rx_empty_round_count c + 1 else 0)\<rparr>;
               c = react_set_state REACT_STATE_GUARDRAIL c;
               gr = output_verdict cfg e proposed c
           in if verdict gr = GUARDRAIL_PASS then (0, msgs, c)
              else if empty \<and> (rx_guardrail_retry_count c \<ge> cf_guardrail_max_retries cfg \<or>
                      cf_guardrail_max_empty_rounds cfg > 0 \<and> rx_empty_round_count c \<ge> cf_guardrail_max_empty_rounds cfg)
              then let detail = ''LLM repeatedly returned an empty response.'';
                       (ok, c) = push_ok e c
                   in if \<not> ok then (- ENOMEM, msgs, c\<lparr>rx_final_answer := None\<rparr>)
                      else (2, msgs, react_set_result REACT_OUTCOME_LLM_ERROR MORPH_ERR_LLM (Some ''empty_response'')
                              (react_set_error_detail detail (c\<lparr>rx_final_answer := Some detail\<rparr>)))
              else let c = c\<lparr>rx_guardrail_retry_count := rx_guardrail_retry_count c + 1\<rparr>;
                       c = emit_event ''react.reflection'' ''failed''
                             (react_output_emit REACT_STEP_REFLECTION REACT_OUTPUT_FAILED
                               (add_step (react_step_create REACT_STEP_REFLECTION (reason gr) None None None) c));
                       (ok, c) = push_ok e c
                   in if \<not> ok then (- ENOMEM, msgs, c)
                      else (1, msgs @ [chat_text ''assistant'' proposed,
                               chat_text ''user'' (''Quality check failed: '' @ reason gr @ [LF]
                                 @ action_of gr ''Try again using the available tools.'')], c))"

section \<open>Actions from outside\<close>

definition user_message :: "env \<Rightarrow> string \<Rightarrow> message" where
  "user_message e t = msg_list_create (Some ''user'') (Some t) (tokenizer_count (en_tokenizer e) (Some t))"

text \<open>The loop of \<open>react_drain_actions\<close> over the actions that are waiting.  The result says whether the
  caller returns at once, and counts the prompts taken.\<close>

fun drain_loop ::
    "'u react_config \<Rightarrow> env \<Rightarrow> (string option \<times> string option) list \<Rightarrow> nat \<Rightarrow> chat_message list \<Rightarrow> react_ctx
     \<Rightarrow> bool \<times> nat \<times> chat_message list \<times> react_ctx" where
  "drain_loop cfg e [] n msgs c = (False, n, msgs, c)"
| "drain_loop cfg e ((ty, payload) # acts) n msgs c =
     (if ty = Some ''cancel'' then drain_loop cfg e acts n msgs (c\<lparr>rx_cancelled := True\<rparr>)
      else if ty \<noteq> Some ''prompt'' then drain_loop cfg e acts n msgs c
      else case Option.bind payload (en_prompt_text e) of
        None \<Rightarrow> drain_loop cfg e acts n msgs c
      | Some body \<Rightarrow>
         if body = [] then drain_loop cfg e acts n msgs c
         else let (ok, c) = push_ok e c
              in if \<not> ok
                 then (True, n, msgs, react_set_result REACT_OUTCOME_INTERNAL_ERROR (- ENOMEM) (Some ''internal_error'') c)
                 else let msgs = msgs @ [chat_text ''user'' body];
                          c = c\<lparr>rx_steer_count := rx_steer_count c + 1\<rparr>;
                          (rc, c) = ask_history e c
                      in if rc \<noteq> 0
                         then (True, n, msgs, react_set_result REACT_OUTCOME_INTERNAL_ERROR (rx_history_error c)
                                 (Some ''history_persistence_error'') c)
                         else let (mrc, c) = (if cf_memory_options cfg \<and> cf_history_db cfg
                                              then let (m, c) = ask (en_memory e) c in (- int m, c) else (0, c))
                              in if mrc \<noteq> 0
                                 then (True, n, msgs, react_set_result REACT_OUTCOME_INTERNAL_ERROR mrc
                                         (Some ''preference_persistence_error'') c)
                                 else drain_loop cfg e acts (Suc n) msgs
                                        (emit_event ''react.user.steer'' ''end''
                                          (c\<lparr>rx_messages := msg_list_append (rx_messages c) (user_message e body)\<rparr>)))"

definition react_drain_actions ::
    "'u react_config \<Rightarrow> env \<Rightarrow> chat_message list \<Rightarrow> react_ctx \<Rightarrow> bool \<times> nat \<times> chat_message list \<times> react_ctx" where
  "react_drain_actions cfg e msgs c =
     (let c = check_sigint e c;
          (acts, c) = ask (en_actions e) c;
          (stop, n, msgs, c) = drain_loop cfg e acts 0 msgs c
      in if stop then (True, n, msgs, c)
         else if \<not> rx_cancelled c then (False, n, msgs, c)
         else (True, n, msgs, react_set_result REACT_OUTCOME_CANCELLED (- ECANCELED) (Some ''user_cancelled'') c))"

section \<open>Joining the tools of a round\<close>

definition tool_message :: "string \<Rightarrow> string \<Rightarrow> chat_message" where
  "tool_message body call_id = \<lparr>cm_role = ''tool'', cm_content = Some body, cm_tool_call_id = Some call_id,
     cm_tool_calls = [], cm_reasoning_content = None\<rparr>"

definition react_append_tool_message ::
    "env \<Rightarrow> chat_message list \<Rightarrow> string \<Rightarrow> string \<Rightarrow> react_ctx \<Rightarrow> int \<times> chat_message list \<times> react_ctx" where
  "react_append_tool_message e msgs body call_id c =
     (let (ok, c) = push_ok e c
      in if ok then (0, msgs @ [tool_message body call_id], c) else (- ENOMEM, msgs, c))"

text \<open>\<open>arg_timeout\<close> answers the member \<open>timeout_seconds\<close> of the arguments, cut to an integer, when it is a
  number above zero.\<close>

definition react_tool_call_timeout :: "'u react_config \<Rightarrow> (string \<Rightarrow> int option) \<Rightarrow> tool_call \<Rightarrow> int" where
  "react_tool_call_timeout cfg arg_timeout tc =
     (let t = (case tool_timeout_seconds (cf_tools cfg) (Some (tc_name tc)) of Some s \<Rightarrow> s | None \<Rightarrow> 0);
          t = (if t \<le> 0 then cf_tool_timeout_seconds cfg else t)
      in case tc_arguments tc of
           None \<Rightarrow> t
         | Some a \<Rightarrow> (case arg_timeout a of Some s \<Rightarrow> s | None \<Rightarrow> t))"

definition timeout_text :: "tool_call \<Rightarrow> int \<Rightarrow> string" where
  "timeout_text tc t =
     take 255 (''tool error: '' @ [CHR 0x27] @ tc_name tc @ [CHR 0x27] @ '' timed out after '' @ show_int t @ ''s'')"

definition history_or_db :: "react_ctx \<Rightarrow> int" where
  "history_or_db c = (if rx_history_error c \<noteq> 0 then rx_history_error c else MORPH_ERR_DB)"

definition persistence_error :: "int \<Rightarrow> react_ctx \<Rightarrow> react_ctx" where
  "persistence_error code c = react_set_result REACT_OUTCOME_INTERNAL_ERROR code (Some ''history_persistence_error'') c"

text \<open>A denied call: its result is recorded and answered.\<close>

definition join_denied ::
    "env \<Rightarrow> tool_call \<Rightarrow> chat_message list \<Rightarrow> react_ctx \<Rightarrow> bool \<times> chat_message list \<times> react_ctx" where
  "join_denied e tc msgs c =
     (let (rc, c) = ask_history e c
      in if rc \<noteq> 0 then (False, msgs, persistence_error (rx_history_error c) c)
         else let (rc, msgs, c) = react_append_tool_message e msgs ''tool error: execution denied by user'' (tc_id tc) c
              in if rc < 0
                 then (False, msgs, react_set_result REACT_OUTCOME_INTERNAL_ERROR (- ENOMEM) (Some ''internal_error'') c)
                 else (True, msgs, c))"

text \<open>\<open>react_record_tool_timeout\<close> with the reaction of its caller.\<close>

definition join_timed_out ::
    "env \<Rightarrow> tool_call \<Rightarrow> string \<Rightarrow> chat_message list \<Rightarrow> react_ctx \<Rightarrow> bool \<times> chat_message list \<times> react_ctx" where
  "join_timed_out e tc msg msgs c =
     (let c = emit_event ''tool.failed'' ''timeout'' c;
          c = add_step ((react_step_create REACT_STEP_OBSERVATION msg (Some (tc_name tc)) (Some (call_args tc))
                 (Some (tc_tool_call_id tc)))\<lparr>st_error_code := - ETIMEDOUT\<rparr>) c;
          c = react_output_emit REACT_STEP_OBSERVATION REACT_OUTPUT_FAILED
                (react_output_emit REACT_STEP_ACTION REACT_OUTPUT_TIMEOUT c);
          c = emit_event ''react.observation'' ''failed'' c;
          (hrc, c) = ask_history e c
      in if hrc \<noteq> 0 then (False, msgs, persistence_error (history_or_db c) c)
         else let (rc, msgs, c) = react_append_tool_message e msgs msg (tc_id tc) c
              in if rc < 0 then (False, msgs, persistence_error (history_or_db c) c) else (True, msgs, c))"

definition react_record_tool_cancelled :: "react_ctx \<Rightarrow> react_ctx" where
  "react_record_tool_cancelled c =
     react_set_result REACT_OUTCOME_CANCELLED (- ECANCELED) (Some ''tool_cancelled'')
       (emit_event ''react.observation'' ''cancelled''
         (add_step (react_step_create REACT_STEP_OBSERVATION ''Tool execution cancelled by user'' None None None) c))"

definition react_tool_call_finish :: "tool_call \<Rightarrow> int \<Rightarrow> react_ctx \<Rightarrow> react_ctx" where
  "react_tool_call_finish tc rc c =
     (let c = (if rc = MORPH_ERR_NOT_CONFIGURED \<and> react_auth_backend_for_tool (Some (tc_name tc)) \<noteq> None
               then emit_event ''auth.required'' ''blocked'' c else c)
      in emit_event (if rc < 0 then ''tool.failed'' else ''tool.result'') (if rc < 0 then ''failed'' else ''end'') c)"

definition react_record_tool_observation ::
    "env \<Rightarrow> tool_call \<Rightarrow> string \<Rightarrow> int \<Rightarrow> tool_artifact list \<Rightarrow> chat_message list \<Rightarrow> react_ctx
     \<Rightarrow> int \<times> chat_message list \<times> react_ctx" where
  "react_record_tool_observation e tc obs_text rc arts msgs c =
     (let c = add_step ((react_step_create REACT_STEP_OBSERVATION obs_text None None None)
                \<lparr>st_error_code := rc, st_artifacts := map ta_path arts\<rparr>) c;
          c = react_output_emit REACT_STEP_OBSERVATION (if rc < 0 then REACT_OUTPUT_FAILED else REACT_OUTPUT_COMPLETED) c;
          c = emit_event ''react.observation'' (if rc < 0 then ''failed'' else ''end'') c
      in react_append_tool_message e msgs obs_text (tc_id tc) c)"

definition emit_artifacts :: "tool_artifact list \<Rightarrow> react_ctx \<Rightarrow> react_ctx" where
  "emit_artifacts arts c = foldl (\<lambda>c a. emit_event ''artifact.ready'' ''ready'' c) c arts"

text \<open>A call that ended by itself: \<open>False\<close> when \<open>react_join_tool_calls\<close> returns 1.\<close>

definition join_result_of ::
    "'u react_config \<Rightarrow> env \<Rightarrow> tool_call \<Rightarrow> int \<Rightarrow> string option \<Rightarrow> string option \<Rightarrow> tool_artifact list
     \<Rightarrow> chat_message list \<Rightarrow> react_ctx \<Rightarrow> bool \<times> chat_message list \<times> react_ctx" where
  "join_result_of cfg e tc rc result history_content arts msgs c =
     (let c = react_set_state REACT_STATE_OBSERVING c;
          obs = (case result of None \<Rightarrow> [] | Some r \<Rightarrow> r);
          c = (if rc < 0 then react_set_error_detail obs c else c);
          obs = (case history_content of None \<Rightarrow> obs | Some h \<Rightarrow> h);
          (forced, c) = react_track_tool_failure cfg (tc_name tc) (call_args tc) rc c
      in if forced
         then let (hrc, c) = ask_history e c
              in (False, msgs, if hrc \<noteq> 0 then persistence_error (rx_history_error c) c else c)
         else
           let c = react_tool_call_finish tc rc c;
               c = (if rc \<ge> 0 then emit_artifacts arts c else c);
               (obs, c) = react_apply_tool_output_guardrail cfg e tc obs rc arts c;
               (prc, c) = ask_history e c
           in if prc \<noteq> 0 then (False, msgs, persistence_error prc c)
              else let ((n, prepared), c) = ask (\<lambda>n. en_prepare e n obs) c
                   in if n \<noteq> 0 then (False, msgs, persistence_error (- int n) c)
                      else let (orc, msgs, c) = react_record_tool_observation e tc prepared rc arts msgs c
                           in if orc < 0 then (False, msgs, persistence_error (history_or_db c) c)
                              else (True, msgs, c))"

text \<open>The loop over the slots: the first component is \<open>True\<close> when it runs to its end or breaks, \<open>False\<close>
  when the function returns 1.\<close>

fun join_loop ::
    "'u react_config \<Rightarrow> env \<Rightarrow> (tool_call \<times> tool_slot) list \<Rightarrow> chat_message list \<Rightarrow> react_ctx
     \<Rightarrow> bool \<times> chat_message list \<times> react_ctx" where
  "join_loop cfg e [] msgs c = (True, msgs, c)"
| "join_loop cfg e ((tc, Slot_denied) # rest) msgs c =
     (let (go, msgs, c) = join_denied e tc msgs c in if go then join_loop cfg e rest msgs c else (False, msgs, c))"
| "join_loop cfg e ((tc, Slot_empty) # rest) msgs c = join_loop cfg e rest msgs c"
| "join_loop cfg e ((tc, Slot_running) # rest) msgs c =
     (let (j, c) = ask (en_join e) c
      in case j of
           Join_timeout \<Rightarrow>
            (let (go, msgs, c) = join_timed_out e tc (timeout_text tc (react_tool_call_timeout cfg (en_arg_timeout e) tc)) msgs c
             in if go then join_loop cfg e rest msgs c else (False, msgs, c))
         | Join_cancelled \<Rightarrow>
            (let c = c\<lparr>rx_cancelled := True\<rparr>;
                 (hrc, c) = ask_history e c;
                 c = (if hrc \<noteq> 0 then persistence_error (rx_history_error c) c else c)
             in (True, msgs, react_record_tool_cancelled (emit_event ''tool.cancelled'' ''cancelled'' c)))
         | Joined rc result history_content arts \<Rightarrow>
            (let (go, msgs, c) = join_result_of cfg e tc rc result history_content arts msgs c
             in if go then join_loop cfg e rest msgs c else (False, msgs, c)))"

definition react_join_tool_calls ::
    "'u react_config \<Rightarrow> env \<Rightarrow> (tool_call \<times> tool_slot) list \<Rightarrow> chat_message list \<Rightarrow> react_ctx
     \<Rightarrow> bool \<times> chat_message list \<times> react_ctx" where
  "react_join_tool_calls cfg e slots msgs c =
     (let c = check_sigint e c;
          (end_reached, msgs, c) = join_loop cfg e slots msgs c
      in if \<not> end_reached then (True, msgs, c)
         else let (stop, _, msgs, c) = react_drain_actions cfg e msgs c
              in if stop then (True, msgs, c)
                 else (rx_state c = REACT_STATE_DONE \<or> rx_state c = REACT_STATE_ABORT, msgs, c))"

section \<open>The calls of a response\<close>

definition fresh_id :: "env \<Rightarrow> string \<Rightarrow> react_ctx \<Rightarrow> (int + string) \<times> react_ctx" where
  "fresh_id e old c =
     (if old \<noteq> [] then (Inr old, c)
      else let ((n, s), c) = ask (en_id e) c in (if n \<noteq> 0 then Inl (- int n) else Inr s, c))"

fun react_prepare_tool_call_ids :: "env \<Rightarrow> tool_call list \<Rightarrow> react_ctx \<Rightarrow> (int + tool_call list) \<times> react_ctx" where
  "react_prepare_tool_call_ids e [] c = (Inr [], c)"
| "react_prepare_tool_call_ids e (tc # tcs) c =
     (case fresh_id e (tc_id tc) c of
        (Inl rc, c) \<Rightarrow> (Inl rc, c)
      | (Inr i, c) \<Rightarrow>
         (case fresh_id e (tc_tool_call_id tc) c of
            (Inl rc, c) \<Rightarrow> (Inl rc, c)
          | (Inr j, c) \<Rightarrow>
             (case react_prepare_tool_call_ids e tcs c of
                (Inl rc, c) \<Rightarrow> (Inl rc, c)
              | (Inr tcs, c) \<Rightarrow> (Inr (tc\<lparr>tc_id := i, tc_tool_call_id := j\<rparr> # tcs), c))))"

definition entry_kind :: "'u react_config \<Rightarrow> string \<Rightarrow> tool_input_kind option" where
  "entry_kind cfg name =
     (case tool_lookup (cf_tools cfg) (Some name) of
        Some (Some i) \<Rightarrow> if i < length (rg_entries (cf_tools cfg))
                         then Some (td_input_kind (te_desc (rg_entries (cf_tools cfg) ! i))) else None
      | _ \<Rightarrow> None)"

fun react_normalize_tool_inputs ::
    "'u react_config \<Rightarrow> env \<Rightarrow> tool_call list \<Rightarrow> react_ctx \<Rightarrow> (int + tool_call list) \<times> react_ctx" where
  "react_normalize_tool_inputs cfg e [] c = (Inr [], c)"
| "react_normalize_tool_inputs cfg e (tc # tcs) c =
     (let (r, c) =
        (if entry_kind cfg (tc_name tc) = None \<or> entry_kind cfg (tc_name tc) = Some TOOL_INPUT_JSON
         then (Inr (tc\<lparr>tc_input_kind := TOOL_INPUT_JSON\<rparr>), c)
         else if tc_input_kind tc = TOOL_INPUT_TEXT then (Inr tc, c)
         else case en_input_arg e (case tc_arguments tc of None \<Rightarrow> [] | Some a \<Rightarrow> a) of
                None \<Rightarrow> (Inr (tc\<lparr>tc_input_kind := TOOL_INPUT_TEXT\<rparr>), c)
              | Some v \<Rightarrow>
                 (let (ok, c) = push_ok e c
                  in if ok then (Inr (tc\<lparr>tc_arguments := Some v, tc_input_kind := TOOL_INPUT_TEXT\<rparr>), c)
                     else (Inl (- ENOMEM), c)))
      in case r of
           Inl rc \<Rightarrow> (Inl rc, c)
         | Inr tc \<Rightarrow>
            (case react_normalize_tool_inputs cfg e tcs c of
               (Inl rc, c) \<Rightarrow> (Inl rc, c)
             | (Inr tcs, c) \<Rightarrow> (Inr (tc # tcs), c)))"

text \<open>The copies of the calls in the assistant's message: the arguments of a JSON call are normalized.
  The arrays for names and identifiers are as large as those they are copied from.\<close>

fun copy_calls :: "env \<Rightarrow> tool_call list \<Rightarrow> react_ctx \<Rightarrow> (int + tool_call list) \<times> react_ctx" where
  "copy_calls e [] c = (Inr [], c)"
| "copy_calls e (tc # tcs) c =
     (let (r, c) =
        (if tc_input_kind tc = TOOL_INPUT_TEXT
         then let (ok, c) = push_ok e c
              in (if ok then Inr (case tc_arguments tc of None \<Rightarrow> [] | Some a \<Rightarrow> a) else Inl (- ENOMEM), c)
         else let ((n, a), c) = ask (\<lambda>k. en_normalize e k (tc_arguments tc)) c
              in (if n \<noteq> 0 then Inl (- int n) else Inr a, c))
      in case r of
           Inl rc \<Rightarrow> (Inl rc, c)
         | Inr a \<Rightarrow>
            (case copy_calls e tcs c of
               (Inl rc, c) \<Rightarrow> (Inl rc, c)
             | (Inr tcs, c) \<Rightarrow> (Inr (\<lparr>tc_id = tc_id tc, tc_tool_call_id = [], tc_name = tc_name tc, tc_arguments = Some a, tc_input_kind = tc_input_kind tc\<rparr> # tcs), c)))"

text \<open>On failure the turn ends and the array of messages is not read again.\<close>

definition react_append_assistant_tool_call_message ::
    "env \<Rightarrow> chat_message list \<Rightarrow> chat_response \<Rightarrow> tool_call list \<Rightarrow> react_ctx \<Rightarrow> int \<times> chat_message list \<times> react_ctx" where
  "react_append_assistant_tool_call_message e msgs resp tcs c =
     (let (ok, c) = push_ok e c
      in if \<not> ok then (- ENOMEM, msgs, c)
         else let (ok, c) = push_ok e c
              in if \<not> ok then (- ENOMEM, msgs, c)
                 else case copy_calls e tcs c of
                        (Inl rc, c) \<Rightarrow> (rc, msgs, c)
                      | (Inr calls, c) \<Rightarrow>
                          (0, msgs @ [\<lparr>cm_role = ''assistant'',
                             cm_content = (case cr_content resp of Some (x # xs) \<Rightarrow> Some (x # xs) | _ \<Rightarrow> None),
                             cm_tool_call_id = None, cm_tool_calls = calls,
                             cm_reasoning_content = cr_reasoning_content resp\<rparr>], c))"

section \<open>Final answers\<close>

definition continuation_prefixes :: "string list" where
  "continuation_prefixes = [''let me understand'', ''let me inspect'', ''let me investigate'', ''let me check'',
     ''now let me'', ''i need to inspect'', ''i need to investigate'', ''i need to check'']"

definition react_final_is_continuation_note :: "react_ctx \<Rightarrow> string \<Rightarrow> bool" where
  "react_final_is_continuation_note c proposed \<longleftrightarrow>
     rx_in_turn_compaction_count c > 0 \<and> rx_incomplete_final_retry_count c \<le> 0 \<and>
     (let t = dropWhile isspace proposed
      in list_ex (\<lambda>p. case_insensitive_eq (take (length p) t) p) continuation_prefixes)"

definition retry_prompt :: string where
  "retry_prompt = ''Your previous response was a continuation note, not a completed ''
     @ ''answer. Continue the current task from the checkpoint and preserved ''
     @ ''recent tool results. Use tools if needed. Return a final answer only ''
     @ ''after the requested work is complete or a concrete blocker exists.''"

definition react_retry_incomplete_final ::
    "env \<Rightarrow> string \<Rightarrow> chat_message list \<Rightarrow> react_ctx \<Rightarrow> int \<times> chat_message list \<times> react_ctx" where
  "react_retry_incomplete_final e proposed msgs c =
     (if \<not> react_final_is_continuation_note c proposed then (0, msgs, c)
      else let (ok, c) = push_ok e c
           in if \<not> ok then (- ENOMEM, msgs, c)
              else (1, msgs @ [chat_text ''assistant'' proposed, chat_text ''user'' retry_prompt],
                    emit_event ''react.final.retry'' ''retry''
                      (c\<lparr>rx_incomplete_final_retry_count := rx_incomplete_final_retry_count c + 1\<rparr>)))"

text \<open>\<open>True\<close> when the loop ends.\<close>

definition react_handle_final_response ::
    "'u react_config \<Rightarrow> env \<Rightarrow> string \<Rightarrow> chat_message list \<Rightarrow> react_ctx \<Rightarrow> bool \<times> chat_message list \<times> react_ctx" where
  "react_handle_final_response cfg e proposed msgs c =
     (let (thought, final) = react_split_legacy_final True proposed;
          c = (case thought of
                 None \<Rightarrow> c
               | Some t \<Rightarrow> emit_event ''react.thought.end'' ''end''
                            (add_step (react_step_create REACT_STEP_THOUGHT t None None None) c));
          (retry, msgs, c) = react_retry_incomplete_final e final msgs c
      in if retry < 0
         then (True, msgs, react_set_result REACT_OUTCOME_INTERNAL_ERROR retry (Some ''internal_error'') c)
         else if retry > 0 then (False, msgs, c)
         else let (gr, msgs, c) = react_handle_guardrail_retry cfg e final msgs c
              in if gr < 0
                 then (True, msgs, react_set_result REACT_OUTCOME_INTERNAL_ERROR gr (Some ''internal_error'') c)
                 else if gr = 1 then (False, msgs, c)
                 else if gr = 2 then (True, msgs, c)
                 else let c = add_step (react_step_create REACT_STEP_FINAL final None None None) c;
                          c = react_set_result REACT_OUTCOME_SUCCESS 0 None (c\<lparr>rx_final_answer := Some final\<rparr>)
                      in (True, msgs, emit_event ''react.final'' ''end''
                            (react_output_emit REACT_STEP_FINAL REACT_OUTPUT_COMPLETED c)))"

definition react_handle_llm_cancelled :: "chat_response \<Rightarrow> react_ctx \<Rightarrow> bool \<times> react_ctx" where
  "react_handle_llm_cancelled resp c =
     (if \<not> rx_cancelled c then (False, c)
      else let c = emit_event ''react.observation'' ''cancelled''
                     (add_step (react_step_create REACT_STEP_OBSERVATION ''LLM call interrupted by user'' None None None) c);
               c = (case cr_content resp of None \<Rightarrow> c | Some t \<Rightarrow> c\<lparr>rx_final_answer := Some t\<rparr>)
           in (True, react_set_result REACT_OUTCOME_CANCELLED (- ECANCELED) (Some ''user_cancelled'') c))"

definition react_handle_llm_error :: "chat_response \<Rightarrow> int \<Rightarrow> react_ctx \<Rightarrow> bool \<times> react_ctx" where
  "react_handle_llm_error resp status c =
     (if status \<ge> 0 then (False, c)
      else let t = (case cr_content resp of Some (x # xs) \<Rightarrow> x # xs | _ \<Rightarrow> ''LLM call failed'');
               c = emit_event ''react.observation'' ''failed''
                     (react_output_emit REACT_STEP_OBSERVATION REACT_OUTPUT_FAILED
                       (add_step (react_step_create REACT_STEP_OBSERVATION t None None None) c))
           in (True, react_set_result REACT_OUTCOME_LLM_ERROR status (Some ''llm_error'') c))"

definition react_complete_max_iterations :: "react_ctx \<Rightarrow> react_ctx" where
  "react_complete_max_iterations c =
     (if rx_state c = REACT_STATE_DONE \<or> rx_state c = REACT_STATE_ABORT then c
      else let obs = filter (\<lambda>s. st_type s = REACT_STEP_OBSERVATION) (rx_steps c);
               c = (case rx_final_answer c of
                      Some _ \<Rightarrow> c
                    | None \<Rightarrow> c\<lparr>rx_final_answer := Some
                        (if obs \<noteq> [] \<and> st_error_code (last obs) \<ge> 0 then sp_content (last obs)
                         else ''Maximum iterations reached. No final answer produced.'')\<rparr>)
           in react_set_result REACT_OUTCOME_MAX_ITERATIONS MORPH_ERR_REACT_MAX_ITERATIONS (Some ''max_iterations'') c)"

definition react_append_final_message :: "env \<Rightarrow> react_ctx \<Rightarrow> react_ctx" where
  "react_append_final_message e c =
     (if rx_state c \<noteq> REACT_STATE_DONE \<or> rx_steps c = [] then c
      else let answer = (case rx_final_answer c of None \<Rightarrow> ''(no answer)'' | Some a \<Rightarrow> a)
           in c\<lparr>rx_messages := msg_list_append (rx_messages c)
                  (msg_list_create (Some ''assistant'') (Some answer) (tokenizer_count (en_tokenizer e) (Some answer)))\<rparr>)"

section \<open>The size of the active window\<close>

definition react_count_text_tokens :: "env \<Rightarrow> string option \<Rightarrow> int" where
  "react_count_text_tokens e t = (case t of Some (x # xs) \<Rightarrow> tokenizer_count (en_tokenizer e) (Some (x # xs)) | _ \<Rightarrow> 0)"

definition call_tokens :: "env \<Rightarrow> tool_call \<Rightarrow> int" where
  "call_tokens e tc = 16 + react_count_text_tokens e (Some (tc_id tc)) + react_count_text_tokens e (Some (tc_name tc))
     + react_count_text_tokens e (tc_arguments tc)"

definition chat_message_tokens :: "env \<Rightarrow> chat_message \<Rightarrow> int" where
  "chat_message_tokens e m = 12 + react_count_text_tokens e (Some (cm_role m)) + react_count_text_tokens e (cm_content m)
     + react_count_text_tokens e (cm_reasoning_content m) + react_count_text_tokens e (cm_tool_call_id m)
     + sum_list (map (call_tokens e) (cm_tool_calls m))"

definition desc_tokens :: "env \<Rightarrow> tool_desc \<Rightarrow> int" where
  "desc_tokens e d = 24 + sum_list (map (\<lambda>t. react_count_text_tokens e (Some t))
     [td_name d, td_title d, td_description d, td_input_schema d, td_output_schema d, td_input_format d])"

definition react_estimate_active_tokens :: "env \<Rightarrow> string \<Rightarrow> chat_message list \<Rightarrow> tool_desc list \<Rightarrow> int" where
  "react_estimate_active_tokens e prompt msgs tools =
     min INT_MAX (react_count_text_tokens e (Some prompt) + 16 + sum_list (map (chat_message_tokens e) msgs)
       + sum_list (map (desc_tokens e) tools))"

definition react_compaction_trigger_tokens :: "'u react_config \<Rightarrow> env \<Rightarrow> int" where
  "react_compaction_trigger_tokens cfg e =
     (let limit = cf_max_context_tokens cfg
      in if limit \<le> 0 then INT_MAX
         else let protocol = max 0 (cf_protocol_reserve_tokens cfg);
                  output = (if cf_llm_max_tokens cfg > 0 then cf_llm_max_tokens cfg else 4096);
                  output = (if output > limit div 2 then limit div 2 else output);
                  ratio_limit = en_ratio e limit;
                  hard_limit = max 1 (limit - output - protocol)
              in if ratio_limit < 1 \<or> ratio_limit > hard_limit then hard_limit else ratio_limit)"

definition tool_active :: "'u react_config \<Rightarrow> string \<Rightarrow> bool" where
  "tool_active cfg name \<longleftrightarrow> tool_is_disabled (cf_tools cfg) (Some name) = Some False"

text \<open>\<open>count_active_tools\<close> and \<open>collect_active_tools\<close>: the enabled tools, with their origin in the
  description.\<close>

definition collect_active_tools :: "'u react_config \<Rightarrow> tool_desc list" where
  "collect_active_tools cfg =
     map (\<lambda>en. (te_desc en)\<lparr>td_description := strncpy_fixed TOOL_DESC_MAX
             (''['' @ tool_origin_name (te_origin en) @ ''] '' @ td_description (te_desc en))\<rparr>)
       (filter (\<lambda>en. tool_active cfg (entry_name en)) (rg_entries (cf_tools cfg)))"

definition react_has_active_tool :: "'u react_config \<Rightarrow> string \<Rightarrow> bool" where
  "react_has_active_tool cfg name \<longleftrightarrow>
     (\<exists>i. tool_lookup (cf_tools cfg) (Some name) = Some (Some i)) \<and> tool_active cfg name"

text \<open>The result is negative on failure, 1 after a compaction and 0 when none was needed.\<close>

definition react_maybe_compact_active_window ::
    "'u react_config \<Rightarrow> env \<Rightarrow> string \<Rightarrow> chat_message list \<Rightarrow> tool_desc list \<Rightarrow> react_ctx
     \<Rightarrow> int \<times> chat_message list \<times> react_ctx" where
  "react_maybe_compact_active_window cfg e prompt msgs tools c =
     (if \<not> (cf_in_turn_compaction cfg \<and> cf_history_enabled cfg \<and> cf_history_db cfg) then (0, msgs, c)
      else let trigger = react_compaction_trigger_tokens cfg e
           in if react_estimate_active_tokens e prompt msgs tools < trigger then (0, msgs, c)
              else
                let c = c\<lparr>rx_in_turn_compaction_count := rx_in_turn_compaction_count c + 1\<rparr>;
                    c = emit_event ''react.compaction.begin'' ''begin'' c;
                    (reload, c) = ask_history e c;
                    (rc, c) = (if reload = 0 then ask (en_compact e) c else (reload, c));
                    compacted = (rc > 0);
                    (rc, msgs, c) = (if compacted
                                     then let ((n, ms), c) = ask (en_history_messages e) c in (- int n, ms, c)
                                     else (rc, msgs, c))
                in if rc < 0 \<or> \<not> compacted
                   then (if rc \<ge> 0 then MORPH_ERR_PROTOCOL else rc, msgs, emit_event ''react.compaction.failed'' ''failed'' c)
                   else if react_estimate_active_tokens e prompt msgs tools \<ge> trigger
                   then (MORPH_ERR_LLM, msgs, emit_event ''react.compaction.failed'' ''failed'' c)
                   else (1, msgs, emit_event ''react.compaction.completed'' ''end'' c))"

section \<open>One iteration and the whole turn\<close>

text \<open>\<open>react_maybe_compress_context\<close>.  The summariser is asked once; \<open>None\<close> of \<open>compress_summarize\<close> is undefined
  behaviour, which \<open>compress_summarize_defined\<close> excludes for the lists of a session.\<close>

definition react_maybe_compress_context :: "'u react_config \<Rightarrow> env \<Rightarrow> react_ctx \<Rightarrow> react_ctx" where
  "react_maybe_compress_context cfg e c =
     (if \<not> context_needs_compress (rx_messages c) (en_tokenizer e) (Some (en_ratio e (cf_max_context_tokens cfg))) then c
      else let (ms, _) = compress_detect_react_cycles (rx_messages c);
               (_, ms, _) = compress_react_trace ms result_init;
               ((fn, mem), c) = ask (en_summarize e) c
           in c\<lparr>rx_messages := (case compress_summarize ms (cf_max_history_rounds cfg) fn mem of
                                  None \<Rightarrow> ms | Some (_, ms, _) \<Rightarrow> ms)\<rparr>)"

definition history_text :: "message \<Rightarrow> chat_message" where
  "history_text m = chat_text (case role m of None \<Rightarrow> [] | Some r \<Rightarrow> r) (case content m of None \<Rightarrow> [] | Some t \<Rightarrow> t)"

definition react_prepare_messages ::
    "'u react_config \<Rightarrow> env \<Rightarrow> string \<Rightarrow> react_ctx \<Rightarrow> (int + chat_message list) \<times> react_ctx" where
  "react_prepare_messages cfg e input c =
     (let (ok, c) = push_ok e c
      in if \<not> ok then (Inl (- ENOMEM), c)
         else if cf_history_enabled cfg
         then let ((n, ms), c) = ask (en_history_messages e) c
              in if n \<noteq> 0 then (Inl (- int n), c)
                 else let (ok, c) = push_ok e c
                      in (if ok then Inr (ms @ [chat_text ''user'' input]) else Inl (- ENOMEM), c)
         else let (ok, c) = push_ok e c
              in (if ok then Inr (map history_text (rx_messages c)) else Inl (- ENOMEM), c))"

text \<open>The callback of the model on every token.\<close>

fun deliver_tokens :: "llm_backend \<Rightarrow> (llm_stream_kind \<times> bool \<times> string) list \<Rightarrow> stream_data \<Rightarrow> int list \<times> stream_data" where
  "deliver_tokens b [] sd = ([], sd)"
| "deliver_tokens b ((kind, sigint, token) # ts) sd =
     (let (rc, sd) = (if b = Chat_with_tools_stream then react_typed_stream_cb kind sigint token sd
                      else react_stream_cb sigint token sd);
          (rcs, sd) = deliver_tokens b ts sd
      in (rc # rcs, sd))"

definition stream_entry :: "stream_out \<Rightarrow> log_entry" where
  "stream_entry s = (case s of Output ty _ \<Rightarrow> Output_event ty REACT_OUTPUT_DELTA | Text_event n _ \<Rightarrow> Event n ''delta'')"

definition response_zero :: chat_response where
  "response_zero = \<lparr>cr_content = None, cr_reasoning_content = None, cr_tool_calls = []\<rparr>"

text \<open>What the stream leaves behind: its deltas in the log and the flag of cancellation.\<close>

definition stream_effects :: "stream_data \<Rightarrow> react_ctx \<Rightarrow> react_ctx" where
  "stream_effects sd c = c\<lparr>rx_cancelled := sd_cancelled sd, rx_log := rx_log c @ map stream_entry (sd_log sd)\<rparr>"

text \<open>\<open>react_chat_once\<close>: the request is recorded with the outcome the turn has at that time.  A model that can
  only \<open>chat\<close> gets the texts of the session, and the accumulated text becomes its response.\<close>

definition react_chat_once ::
    "'u react_config \<Rightarrow> env \<Rightarrow> chat_message list \<Rightarrow> react_ctx \<Rightarrow> (int \<times> chat_response) \<times> react_ctx" where
  "react_chat_once cfg e msgs c =
     (let b = cf_llm_backend cfg;
          (listed, c) = (if b = Chat_only then push_ok e c else (True, c))
      in if \<not> listed \<and> rx_messages c \<noteq> []
         then ((- ENOMEM, response_zero), react_set_result REACT_OUTCOME_INTERNAL_ERROR (- ENOMEM) (Some ''internal_error'') c)
         else
           let sent = (if b = Chat_only then map (\<lambda>m. (history_text m)\<lparr>cm_role := []\<rparr>) (rx_messages c) else msgs);
               c = c\<lparr>rx_requests := rx_requests c @ [(rx_outcome c, sent)]\<rparr>;
               (r, c) = ask (en_llm e) c;
               (rcs, sd) = deliver_tokens b (lr_tokens r) (react_stream_start (lr_arena r) (rx_cancelled c));
               status = lr_status r rcs;
               taken = (b = Chat_only \<and> status \<ge> 0 \<and> sd_accumulated sd \<noteq> None);
               resp = (if b \<noteq> Chat_only then lr_response r
                       else if taken then response_zero\<lparr>cr_content := sd_accumulated sd\<rparr> else response_zero);
               sd = (if taken then sd\<lparr>sd_accumulated := None\<rparr> else sd);
               (frc, sd) = (if status \<ge> 0 then react_stream_flush sd else (0, sd))
           in ((if frc \<noteq> 0 then frc else status, resp), stream_effects sd c))"

text \<open>The branch of the loop for a response with tool calls: \<open>True\<close> when the loop ends.\<close>

definition react_tool_round ::
    "'u react_config \<Rightarrow> env \<Rightarrow> chat_response \<Rightarrow> chat_message list \<Rightarrow> react_ctx \<Rightarrow> bool \<times> chat_message list \<times> react_ctx" where
  "react_tool_round cfg e resp msgs c =
     (case react_prepare_tool_call_ids e (cr_tool_calls resp) c of
        (Inl rc, c) \<Rightarrow> (True, msgs, react_set_result REACT_OUTCOME_INTERNAL_ERROR rc (Some ''internal_error'') c)
      | (Inr tcs, c) \<Rightarrow>
         (case react_normalize_tool_inputs cfg e tcs c of
            (Inl rc, c) \<Rightarrow> (True, msgs, react_set_result REACT_OUTCOME_INTERNAL_ERROR rc (Some ''invalid_tool_input'') c)
          | (Inr tcs, c) \<Rightarrow>
             (let (hrc, c) = ask_history e c
              in if hrc \<noteq> 0 then (True, msgs, persistence_error hrc c)
                 else let (arc, msgs, c) = react_append_assistant_tool_call_message e msgs resp tcs c
                      in if arc < 0
                         then (True, msgs, react_set_result REACT_OUTCOME_INTERNAL_ERROR (- ENOMEM) (Some ''internal_error'') c)
                         else let c = react_set_state REACT_STATE_ACTING c;
                                  (ok, c) = push_ok e c
                              in if \<not> ok
                                 then (True, msgs, react_set_result REACT_OUTCOME_INTERNAL_ERROR (- ENOMEM) (Some ''internal_error'') c)
                                 else let (slots, c) = react_start_tool_calls cfg e tcs c
                                      in react_join_tool_calls cfg e (zip tcs slots) msgs c)))"

text \<open>What the iteration does with the model's answer.\<close>

definition react_after_chat ::
    "'u react_config \<Rightarrow> env \<Rightarrow> bool \<Rightarrow> int \<times> chat_response \<Rightarrow> chat_message list \<Rightarrow> react_ctx \<Rightarrow> bool \<times> chat_message list \<times> react_ctx" where
  "react_after_chat cfg e has_tools r msgs c =
     (if rx_outcome c \<noteq> REACT_OUTCOME_NONE then (True, msgs, c)
      else let (status, resp) = r;
               (stop, c) = react_handle_llm_cancelled resp (check_sigint e c)
           in if stop then (True, msgs, c)
              else let (stop, prompts, msgs, c) = react_drain_actions cfg e msgs c
                   in if stop then (True, msgs, c)
                      else if prompts > 0 then (False, msgs, c)
                      else let (stop, c) = react_handle_llm_error resp status c
                           in if stop then (True, msgs, c)
                              else let c = (case cr_content resp of
                                              Some (x # xs) \<Rightarrow>
                                                if cr_tool_calls resp \<noteq> []
                                                then emit_event ''react.thought.end'' ''end''
                                                       (add_step (react_step_create REACT_STEP_THOUGHT (x # xs) None None None) c)
                                                else c
                                            | _ \<Rightarrow> c)
                                   in if cr_tool_calls resp \<noteq> [] \<and> has_tools
                                      then react_tool_round cfg e resp msgs c
                                      else react_handle_final_response cfg e
                                             (case cr_content resp of None \<Rightarrow> [] | Some t \<Rightarrow> t) msgs c)"

text \<open>With long-term memory the system prompt is built again in every iteration.\<close>

definition refresh_memory ::
    "'u react_config \<Rightarrow> env \<Rightarrow> string \<Rightarrow> react_ctx \<Rightarrow> (int + string) \<times> react_ctx" where
  "refresh_memory cfg e prompt c =
     (if \<not> (cf_memory_options cfg \<and> cf_history_db cfg) then (Inr prompt, c)
      else let (m, c) = ask (en_memory e) c
           in if m \<noteq> 0 then (Inl (- int m), c)
              else let (p, c) = ask (en_system_prompt e) c
                   in (case p of None \<Rightarrow> Inl (- ENOMEM) | Some p \<Rightarrow> Inr p, c))"

definition react_iteration ::
    "'u react_config \<Rightarrow> env \<Rightarrow> string \<Rightarrow> chat_message list \<Rightarrow> react_ctx \<Rightarrow> bool \<times> string \<times> chat_message list \<times> react_ctx" where
  "react_iteration cfg e prompt msgs c =
     (let (stop, _, msgs, c) = react_drain_actions cfg e msgs c
      in if stop then (True, prompt, msgs, c)
         else case refresh_memory cfg e prompt c of
           (Inl rc, c) \<Rightarrow>
             (True, prompt, msgs, react_set_result REACT_OUTCOME_INTERNAL_ERROR rc (Some ''memory_context_error'') c)
         | (Inr prompt, c) \<Rightarrow>
            (let c = react_output_emit REACT_STEP_THOUGHT REACT_OUTPUT_STARTED
                       (emit_event ''react.thinking'' ''begin'' (react_set_state REACT_STATE_THINKING c));
                 tools = collect_active_tools cfg;
                 (ok, c) = push_ok e c
             in if \<not> ok \<and> tools \<noteq> []
                then (True, prompt, msgs, react_set_result REACT_OUTCOME_INTERNAL_ERROR (- ENOMEM) (Some ''internal_error'') c)
                else let (status, msgs, c) = react_maybe_compact_active_window cfg e prompt msgs tools c
                     in if status < 0
                        then (True, prompt, msgs, react_set_result REACT_OUTCOME_LLM_ERROR status
                                (Some ''context_compaction_failed'') c)
                        else let (r, c) = react_chat_once cfg e msgs c;
                                 (stop, msgs, c) = react_after_chat cfg e (tools \<noteq> []) r msgs c
                             in (stop, prompt, msgs, c)))"

text \<open>The \<open>for\<close> loop, by the number of iterations left.\<close>

fun react_iterations ::
    "'u react_config \<Rightarrow> env \<Rightarrow> nat \<Rightarrow> string \<Rightarrow> chat_message list \<Rightarrow> react_ctx \<Rightarrow> chat_message list \<times> react_ctx" where
  "react_iterations cfg e 0 prompt msgs c = (msgs, c)"
| "react_iterations cfg e (Suc n) prompt msgs c =
     (let (stop, prompt, msgs, c) = react_iteration cfg e prompt msgs c
      in if stop then (msgs, c) else react_iterations cfg e n prompt msgs c)"

text \<open>Everything of \<open>react_run\<close> after the turn has an identifier, up to \<open>react_finish_run\<close>.\<close>

definition react_turn :: "'u react_config \<Rightarrow> env \<Rightarrow> string \<Rightarrow> react_ctx \<Rightarrow> react_ctx" where
  "react_turn cfg e input c =
     (let c = emit_event ''react.turn.begin'' ''begin'' (react_set_state REACT_STATE_THINKING (c\<lparr>rx_history_error := 0\<rparr>));
          (denied, c) = react_check_input_guardrail cfg e input c
      in if denied then c
         else let (hrc, c) = ask_history e c
              in if hrc \<noteq> 0 then persistence_error (if cf_llm_ready cfg then rx_history_error c else hrc) c
                 else if \<not> cf_llm_ready cfg
                 then react_set_result REACT_OUTCOME_LLM_ERROR MORPH_ERR_NOT_CONFIGURED (Some ''missing_api_key'')
                        (emit_event ''auth.required'' ''blocked'' c)
                 else let c = c\<lparr>rx_messages := msg_list_append (rx_messages c) (user_message e input)\<rparr>;
                          (prompt, c) = ask (en_system_prompt e) c
                      in case prompt of
                           None \<Rightarrow> react_set_result REACT_OUTCOME_INTERNAL_ERROR (- ENOMEM) (Some ''internal_error'') c
                         | Some prompt \<Rightarrow>
                            (let c = (if cf_history_enabled cfg then c
                                      else react_maybe_compress_context cfg e c)
                             in case react_prepare_messages cfg e input c of
                                  (Inl _, c) \<Rightarrow> react_set_result REACT_OUTCOME_INTERNAL_ERROR (- ENOMEM) (Some ''internal_error'') c
                                | (Inr msgs, c) \<Rightarrow>
                                    react_append_final_message e (react_complete_max_iterations
                                      (snd (react_iterations cfg e (nat (cf_max_iterations cfg)) prompt msgs c)))))"

definition react_run :: "'u react_config \<Rightarrow> env \<Rightarrow> string option \<Rightarrow> react_ctx \<Rightarrow> int \<times> react_ctx" where
  "react_run cfg e input c =
     (case input of
        None \<Rightarrow> (- EINVAL, c)
      | Some t \<Rightarrow>
         (let c = (case tool_lookup (cf_tools cfg) (Some ''request_permissions'') of
                     Some (Some i) \<Rightarrow>
                       if i < length (rg_entries (cf_tools cfg)) \<and> te_user_data (rg_entries (cf_tools cfg) ! i) \<noteq> None
                       then c\<lparr>rx_log := rx_log c @ [Clear_turn_grants]\<rparr> else c
                   | _ \<Rightarrow> c);
              user_set = (rx_turn_id_user_set c \<and> rx_turn_id c \<noteq> []);
              c = react_reset c
          in if user_set then react_finish_run (react_turn cfg e t c)
             else let ((n, i), c) = ask (en_id e) c
                  in if n \<noteq> 0 then (- int n, c)
                     else react_finish_run (react_turn cfg e t (c\<lparr>rx_turn_id := i\<rparr>))))"

end
