(* ===== verification/Turns.thy ===== *)
theory Turns
  imports React
begin

text \<open>
  Properties of a turn of the ReAct loop: it ends within its bound with an outcome and one closing
  event, the conversation sent to the model pairs every tool call with its result, denied tools are
  not started, repeated failures are counted as they should, and a successful turn has an answer.
\<close>

named_theorems ctx_defs \<open>basic operations on the context\<close>

declare ask_def [ctx_defs] emit_event_def [ctx_defs] react_output_emit_def [ctx_defs] push_ok_def [ctx_defs]
  react_set_state_def [ctx_defs] react_set_result_def [ctx_defs] react_set_error_detail_def [ctx_defs]
  add_step_def [ctx_defs] check_sigint_def [ctx_defs] ask_history_def [ctx_defs] persistence_error_def [ctx_defs]

section \<open>What every operation keeps\<close>

text \<open>An answer is due only when it is there: a context that is done, or successful, holds a non-empty
  final answer.\<close>

definition settled :: "react_ctx \<Rightarrow> bool" where
  "settled c \<longleftrightarrow> (rx_outcome c = REACT_OUTCOME_SUCCESS \<or> rx_state c = REACT_STATE_DONE \<longrightarrow>
     (\<exists>a. rx_final_answer c = Some a \<and> \<not> answer_is_empty a))"

definition retries_bounded :: "'u react_config \<Rightarrow> react_ctx \<Rightarrow> bool" where
  "retries_bounded cfg c \<longleftrightarrow> rx_guardrail_retry_count c \<le> max 0 (cf_guardrail_max_retries cfg)"

text \<open>What the person has agreed to.  A standing approval comes from the answer \<open>HITL_ALWAYS\<close> for a tool of
  that name (as far as the table keeps it); a tool that was started needs no approval, or the person did
  not deny this very call, or gave a standing approval.\<close>

definition always_said :: "env \<Rightarrow> string \<Rightarrow> bool" where
  "always_said e name \<longleftrightarrow>
     (\<exists>n name' args. en_hitl e n name' args = HITL_ALWAYS \<and> name = strncpy_fixed HITL_TOOL_NAME_MAX name')"

definition approval_exempt :: "'u react_config \<Rightarrow> string \<Rightarrow> bool" where
  "approval_exempt cfg name \<longleftrightarrow>
     has_flag cfg name TOOL_FLAG_INTERNAL_APPROVAL \<or>
     (if cf_hitl_tools cfg \<noteq> [] then name \<notin> set (cf_hitl_tools cfg)
      else cf_hitl_auto_approve_readonly cfg \<and> has_flag cfg name TOOL_FLAG_READONLY)"

definition agreed :: "'u react_config \<Rightarrow> env \<Rightarrow> tool_call \<Rightarrow> bool" where
  "agreed cfg e tc \<longleftrightarrow> approval_exempt cfg (tc_name tc) \<or> always_said e (tc_name tc) \<or>
     (\<exists>n. en_hitl e n (tc_name tc) (call_args tc) \<noteq> HITL_DENY)"

definition consented :: "'u react_config \<Rightarrow> env \<Rightarrow> react_ctx \<Rightarrow> bool" where
  "consented cfg e c \<longleftrightarrow> (\<forall>name \<in> set (rx_auto_approved c). always_said e name) \<and>
     (cf_hitl_enabled cfg \<and> cf_hitl_approval_cb cfg \<longrightarrow> (\<forall>tc \<in> set (rx_started c). agreed cfg e tc))"

text \<open>The closing events in the log.\<close>

definition turn_ends :: "react_ctx \<Rightarrow> log_entry list" where
  "turn_ends c = filter (\<lambda>l. case l of Event n _ \<Rightarrow> n = ''react.turn.end'' | _ \<Rightarrow> False) (rx_log c)"

lemma turn_ends_emit [simp]:
  "turn_ends (emit_event n p c) = turn_ends c @ (if n = ''react.turn.end'' then [Event n p] else [])"
  "turn_ends (react_output_emit ty st c) = turn_ends c"
  by (simp_all add: turn_ends_def emit_event_def react_output_emit_def)

definition keeps_turn :: "'u react_config \<Rightarrow> env \<Rightarrow> react_ctx \<Rightarrow> react_ctx \<Rightarrow> bool" where
  "keeps_turn cfg e c c' \<longleftrightarrow> rx_requests c' = rx_requests c \<and> turn_ends c' = turn_ends c \<and>
     (rx_outcome c \<noteq> REACT_OUTCOME_NONE \<longrightarrow> rx_outcome c' \<noteq> REACT_OUTCOME_NONE) \<and>
     (settled c \<longrightarrow> settled c') \<and> (retries_bounded cfg c \<longrightarrow> retries_bounded cfg c') \<and>
     (consented cfg e c \<longrightarrow> consented cfg e c')"

lemma keeps_turn_refl [simp]: "keeps_turn cfg e c c"
  by (simp add: keeps_turn_def)

lemma keeps_turn_trans [trans]: "keeps_turn cfg e a b \<Longrightarrow> keeps_turn cfg e b c \<Longrightarrow> keeps_turn cfg e a c"
  by (auto simp: keeps_turn_def)

text \<open>The basic operations, as rewriting steps that walk back through a composition.\<close>

lemma keeps_turn_same:
  assumes "rx_requests d' = rx_requests d" "turn_ends d' = turn_ends d" "rx_outcome d' = rx_outcome d" "rx_state d' = rx_state d"
    "rx_final_answer d' = rx_final_answer d" "rx_guardrail_retry_count d' = rx_guardrail_retry_count d"
    "rx_auto_approved d' = rx_auto_approved d" "rx_started d' = rx_started d"
  shows "keeps_turn cfg e c d' \<longleftrightarrow> keeps_turn cfg e c d"
  using assms by (simp add: keeps_turn_def settled_def retries_bounded_def consented_def)

lemma keeps_turn_basic [simp]:
  "n \<noteq> ''react.turn.end'' \<Longrightarrow> keeps_turn cfg e c (emit_event n p d) \<longleftrightarrow> keeps_turn cfg e c d"
  "keeps_turn cfg e c (react_output_emit ty st d) \<longleftrightarrow> keeps_turn cfg e c d"
  "keeps_turn cfg e c (add_step s d) \<longleftrightarrow> keeps_turn cfg e c d"
  "keeps_turn cfg e c (react_set_error_detail t d) \<longleftrightarrow> keeps_turn cfg e c d"
  "keeps_turn cfg e c (check_sigint e d) \<longleftrightarrow> keeps_turn cfg e c d"
  "keeps_turn cfg e c (snd (ask f d)) \<longleftrightarrow> keeps_turn cfg e c d"
  "keeps_turn cfg e c (snd (push_ok e d)) \<longleftrightarrow> keeps_turn cfg e c d"
  "keeps_turn cfg e c (snd (ask_history e d)) \<longleftrightarrow> keeps_turn cfg e c d"
  by (rule keeps_turn_same; simp add: ctx_defs turn_ends_def Let_def case_prod_unfold)+

lemma keeps_turn_fields [simp]:
  "keeps_turn cfg e c (d\<lparr>rx_clock := n\<rparr>) \<longleftrightarrow> keeps_turn cfg e c d"
  "keeps_turn cfg e c (d\<lparr>rx_cancelled := b\<rparr>) \<longleftrightarrow> keeps_turn cfg e c d"
  "keeps_turn cfg e c (d\<lparr>rx_steer_count := i\<rparr>) \<longleftrightarrow> keeps_turn cfg e c d"
  "keeps_turn cfg e c (d\<lparr>rx_messages := ms\<rparr>) \<longleftrightarrow> keeps_turn cfg e c d"
  "keeps_turn cfg e c (d\<lparr>rx_empty_round_count := i\<rparr>) \<longleftrightarrow> keeps_turn cfg e c d"
  "keeps_turn cfg e c (d\<lparr>rx_tool_fail_count := i\<rparr>) \<longleftrightarrow> keeps_turn cfg e c d"
  "keeps_turn cfg e c (d\<lparr>rx_tool_fail_name := u\<rparr>) \<longleftrightarrow> keeps_turn cfg e c d"
  "keeps_turn cfg e c (d\<lparr>rx_tool_fail_args := u\<rparr>) \<longleftrightarrow> keeps_turn cfg e c d"
  "keeps_turn cfg e c (d\<lparr>rx_in_turn_compaction_count := i\<rparr>) \<longleftrightarrow> keeps_turn cfg e c d"
  "keeps_turn cfg e c (d\<lparr>rx_incomplete_final_retry_count := i\<rparr>) \<longleftrightarrow> keeps_turn cfg e c d"
  by (rule keeps_turn_same; simp add: turn_ends_def)+

lemma keeps_turn_change:
  assumes "keeps_turn cfg e c d" "rx_requests d' = rx_requests d" "turn_ends d' = turn_ends d"
    "rx_outcome d \<noteq> REACT_OUTCOME_NONE \<Longrightarrow> rx_outcome d' \<noteq> REACT_OUTCOME_NONE"
    "settled d \<Longrightarrow> settled d'" "retries_bounded cfg d \<Longrightarrow> retries_bounded cfg d'"
    "consented cfg e c \<Longrightarrow> consented cfg e d \<Longrightarrow> consented cfg e d'"
  shows "keeps_turn cfg e c d'"
  using assms by (simp add: keeps_turn_def)

lemmas turn_parts = ctx_defs turn_ends_def settled_def retries_bounded_def consented_def

lemma keeps_turn_state [simp]:
  "st \<noteq> REACT_STATE_DONE \<Longrightarrow> keeps_turn cfg e c d \<Longrightarrow> keeps_turn cfg e c (react_set_state st d)"
  by (erule keeps_turn_change) (simp_all add: turn_parts)

lemma keeps_turn_result [simp]:
  "oc \<noteq> REACT_OUTCOME_NONE \<Longrightarrow> oc \<noteq> REACT_OUTCOME_SUCCESS \<Longrightarrow> keeps_turn cfg e c d \<Longrightarrow>
   keeps_turn cfg e c (react_set_result oc code why d)"
  by (erule keeps_turn_change) (simp_all add: turn_parts)

text \<open>A result that is not a success may come with any answer text.\<close>

lemma keeps_turn_result_answer [simp]:
  "oc \<noteq> REACT_OUTCOME_NONE \<Longrightarrow> oc \<noteq> REACT_OUTCOME_SUCCESS \<Longrightarrow> keeps_turn cfg e c d \<Longrightarrow>
   keeps_turn cfg e c (react_set_result oc code why (d\<lparr>rx_final_answer := a\<rparr>))"
  by (erule keeps_turn_change) (simp_all add: turn_parts)

lemma keeps_turn_persistence [simp]: "keeps_turn cfg e c d \<Longrightarrow> keeps_turn cfg e c (persistence_error code d)"
  by (simp add: persistence_error_def)

lemmas unfold_step = Let_def case_prod_unfold

section \<open>The operations of a round\<close>

lemma auto_approved_keeps:
  assumes "keeps_turn cfg e c d" "en_hitl e n name args = HITL_ALWAYS"
  shows "keeps_turn cfg e c (hitl_add_auto_approved name d)"
proof (rule keeps_turn_change [OF assms(1)])
  have "always_said e (strncpy_fixed HITL_TOOL_NAME_MAX name)" using assms(2) by (auto simp: always_said_def)
  then show "consented cfg e (hitl_add_auto_approved name d)" if "consented cfg e d"
    using that by (simp add: consented_def hitl_add_auto_approved_def)
qed (simp_all add: hitl_add_auto_approved_def turn_ends_def settled_def retries_bounded_def)

lemma hitl_approval_keeps [simp]:
  assumes "keeps_turn cfg e c d"
  shows "keeps_turn cfg e c (snd (check_hitl_approval cfg e tc d))"
proof -
  let ?d = "emit_event ''hitl.request'' ''begin'' d"
  let ?v = "en_hitl e (rx_clock ?d) (tc_name tc) (call_args tc)"
  have k: "keeps_turn cfg e c (?d\<lparr>rx_clock := Suc (rx_clock ?d)\<rparr>)" using assms by simp
  show ?thesis
    using assms k auto_approved_keeps [OF k, of "rx_clock ?d" "tc_name tc" "call_args tc"]
    by (cases ?v) (simp_all add: check_hitl_approval_def ask_def Let_def)
qed

lemma hitl_approvals_keep [simp]:
  "keeps_turn cfg e c d \<Longrightarrow> keeps_turn cfg e c (snd (react_check_hitl_approvals cfg e tcs d))"
  by (induction tcs arbitrary: d) (simp_all add: unfold_step)

text \<open>A call that is not denied is agreed to.\<close>

lemma not_denied_agreed:
  "consented cfg e d \<Longrightarrow> cf_hitl_enabled cfg \<Longrightarrow> cf_hitl_approval_cb cfg \<Longrightarrow> \<not> fst (check_hitl_approval cfg e tc d) \<Longrightarrow>
   agreed cfg e tc"
  by (auto simp: check_hitl_approval_def hitl_needs_approval_def consented_def agreed_def approval_exempt_def
      ask_def Let_def split: hitl_verdict.splits if_splits)

lemma approvals_agreed:
  assumes "cf_hitl_enabled cfg" "cf_hitl_approval_cb cfg"
  shows "consented cfg e d \<Longrightarrow> (tc, False) \<in> set (zip tcs (fst (react_check_hitl_approvals cfg e tcs d))) \<Longrightarrow> agreed cfg e tc"
proof (induction tcs arbitrary: d)
  case (Cons t tcs)
  have "consented cfg e (snd (check_hitl_approval cfg e t d))"
    using Cons.prems(1) hitl_approval_keeps [OF keeps_turn_refl, of cfg e d t] by (simp add: keeps_turn_def)
  then show ?case
    using Cons not_denied_agreed [OF Cons.prems(1) assms] by (auto simp: unfold_step)
qed simp

lemma keeps_turn_started:
  "keeps_turn cfg e c d \<Longrightarrow> (consented cfg e c \<Longrightarrow> cf_hitl_enabled cfg \<Longrightarrow> cf_hitl_approval_cb cfg \<Longrightarrow> agreed cfg e tc) \<Longrightarrow>
   keeps_turn cfg e c (d\<lparr>rx_started := rx_started d @ [tc]\<rparr>)"
  by (erule keeps_turn_change) (simp_all add: turn_parts)

lemma start_tool_call_keeps:
  "keeps_turn cfg e c d \<Longrightarrow> (consented cfg e c \<Longrightarrow> cf_hitl_enabled cfg \<Longrightarrow> cf_hitl_approval_cb cfg \<Longrightarrow> agreed cfg e tc) \<Longrightarrow>
   keeps_turn cfg e c (snd (start_tool_call e tc d))"
  by (simp add: start_tool_call_def unfold_step keeps_turn_started)

lemma start_loop_keeps:
  "keeps_turn cfg e c d \<Longrightarrow>
   (\<And>tc. consented cfg e c \<Longrightarrow> cf_hitl_enabled cfg \<Longrightarrow> cf_hitl_approval_cb cfg \<Longrightarrow> (tc, False) \<in> set xs \<Longrightarrow> agreed cfg e tc) \<Longrightarrow>
   keeps_turn cfg e c (snd (start_loop e xs d))"
proof (induction xs arbitrary: d)
  case (Cons x xs)
  then show ?case by (cases x) (simp add: unfold_step start_tool_call_keeps)
qed simp

lemma release_keeps [simp]: "keeps_turn cfg e c d \<Longrightarrow> keeps_turn cfg e c (release_slots ss d)"
  unfolding release_slots_def by (induction ss arbitrary: d) simp_all

lemma start_tool_calls_keep [simp]:
  assumes "keeps_turn cfg e c d"
  shows "keeps_turn cfg e c (snd (react_start_tool_calls cfg e tcs d))"
proof -
  have "consented cfg e d" if "consented cfg e c" using assms that by (simp add: keeps_turn_def)
  then show ?thesis
    using assms by (auto simp: react_start_tool_calls_def unfold_step intro!: release_keeps start_loop_keeps
        dest: approvals_agreed)
qed

lemma not_empty_message [simp]: "\<not> answer_is_empty (fail_text n)"
  by (simp add: answer_is_empty_def fail_text_def)

lemma keeps_turn_forced_final:
  "keeps_turn cfg e c d \<Longrightarrow> \<not> answer_is_empty a \<Longrightarrow>
   keeps_turn cfg e c (react_set_state REACT_STATE_DONE (d\<lparr>rx_final_answer := Some a\<rparr>))"
  by (erule keeps_turn_change) (simp_all add: turn_parts)

lemma track_keeps [simp]:
  "keeps_turn cfg e c d \<Longrightarrow> keeps_turn cfg e c (snd (react_track_tool_failure cfg n a rc d))"
  by (simp add: react_track_tool_failure_def unfold_step keeps_turn_forced_final)

lemma drain_loop_keeps [simp]:
  "keeps_turn cfg e c d \<Longrightarrow> keeps_turn cfg e c (snd (snd (snd (drain_loop cfg e acts n msgs d))))"
proof (induction acts arbitrary: n msgs d)
  case (Cons x acts)
  then show ?case by (cases x) (simp add: unfold_step split: option.split)
qed simp

lemma drain_keeps [simp]:
  "keeps_turn cfg e c d \<Longrightarrow> keeps_turn cfg e c (snd (snd (snd (react_drain_actions cfg e msgs d))))"
  by (simp add: react_drain_actions_def unfold_step)

lemma append_tool_message_keeps [simp]:
  "keeps_turn cfg e c d \<Longrightarrow> keeps_turn cfg e c (snd (snd (react_append_tool_message e msgs t i d)))"
  by (simp add: react_append_tool_message_def unfold_step)

lemma join_denied_keeps [simp]:
  "keeps_turn cfg e c d \<Longrightarrow> keeps_turn cfg e c (snd (snd (join_denied e tc msgs d)))"
  by (simp add: join_denied_def unfold_step)

lemma join_timed_out_keeps [simp]:
  "keeps_turn cfg e c d \<Longrightarrow> keeps_turn cfg e c (snd (snd (join_timed_out e tc t msgs d)))"
  by (simp add: join_timed_out_def unfold_step)

lemma tool_cancelled_keeps [simp]: "keeps_turn cfg e c d \<Longrightarrow> keeps_turn cfg e c (react_record_tool_cancelled d)"
  by (simp add: react_record_tool_cancelled_def)

lemma tool_call_finish_keeps [simp]: "keeps_turn cfg e c d \<Longrightarrow> keeps_turn cfg e c (react_tool_call_finish tc rc d)"
  by (simp add: react_tool_call_finish_def unfold_step)

lemma emit_artifacts_keeps [simp]: "keeps_turn cfg e c d \<Longrightarrow> keeps_turn cfg e c (emit_artifacts arts d)"
  unfolding emit_artifacts_def by (induction arts arbitrary: d) simp_all

lemma output_guardrail_keeps [simp]:
  "keeps_turn cfg e c d \<Longrightarrow> keeps_turn cfg e c (snd (react_apply_tool_output_guardrail cfg e tc obs rc arts d))"
  by (simp add: react_apply_tool_output_guardrail_def unfold_step)

lemma record_observation_keeps [simp]:
  "keeps_turn cfg e c d \<Longrightarrow> keeps_turn cfg e c (snd (snd (react_record_tool_observation e tc t rc arts msgs d)))"
  by (simp add: react_record_tool_observation_def unfold_step)

lemma join_result_keeps [simp]:
  "keeps_turn cfg e c d \<Longrightarrow> keeps_turn cfg e c (snd (snd (join_result_of cfg e tc rc res hc arts msgs d)))"
  by (simp add: join_result_of_def unfold_step)

lemma join_loop_keeps [simp]:
  "keeps_turn cfg e c d \<Longrightarrow> keeps_turn cfg e c (snd (snd (join_loop cfg e xs msgs d)))"
proof (induction xs arbitrary: msgs d)
  case (Cons x xs)
  obtain tc sl where x: "x = (tc, sl)" by (cases x)
  show ?case using Cons unfolding x by (cases sl) (simp_all add: unfold_step split: join_result.split)
qed simp

lemma join_keeps [simp]:
  "keeps_turn cfg e c d \<Longrightarrow> keeps_turn cfg e c (snd (snd (react_join_tool_calls cfg e xs msgs d)))"
  by (simp add: react_join_tool_calls_def unfold_step)

lemma prepare_ids_keeps [simp]:
  "keeps_turn cfg e c d \<Longrightarrow> keeps_turn cfg e c (snd (react_prepare_tool_call_ids e tcs d))"
proof (induction tcs arbitrary: d)
  case (Cons tc tcs)
  have f: "keeps_turn cfg e c (snd (fresh_id e i x))" if "keeps_turn cfg e c x" for i x
    using that by (simp add: fresh_id_def unfold_step)
  show ?case using Cons by (simp add: f unfold_step split: sum.split)
qed simp

lemma normalize_inputs_keeps [simp]:
  "keeps_turn cfg e c d \<Longrightarrow> keeps_turn cfg e c (snd (react_normalize_tool_inputs cfg' e tcs d))"
  by (induction tcs arbitrary: d) (simp_all add: unfold_step split: sum.split option.split)

lemma copy_calls_keeps [simp]:
  "keeps_turn cfg e c d \<Longrightarrow> keeps_turn cfg e c (snd (copy_calls e tcs d))"
  by (induction tcs arbitrary: d) (simp_all add: unfold_step split: sum.split)

lemma append_assistant_keeps [simp]:
  "keeps_turn cfg e c d \<Longrightarrow> keeps_turn cfg e c (snd (snd (react_append_assistant_tool_call_message e msgs resp tcs d)))"
  by (simp add: react_append_assistant_tool_call_message_def unfold_step split: sum.split)

lemma tool_round_keeps [simp]:
  "keeps_turn cfg e c d \<Longrightarrow> keeps_turn cfg e c (snd (snd (react_tool_round cfg e resp msgs d)))"
  by (simp add: react_tool_round_def unfold_step split: sum.split)

section \<open>The end of a round without tools\<close>

lemma retry_final_keeps [simp]:
  "keeps_turn cfg e c d \<Longrightarrow> keeps_turn cfg e c (snd (snd (react_retry_incomplete_final e t msgs d)))"
  by (simp add: react_retry_incomplete_final_def unfold_step)

lemma keeps_turn_retry:
  "keeps_turn cfg e c d \<Longrightarrow> n < cf_guardrail_max_retries cfg \<Longrightarrow>
   keeps_turn cfg e c (d\<lparr>rx_guardrail_retry_count := n + 1\<rparr>)"
  by (erule keeps_turn_change) (simp_all add: turn_parts)

lemma keeps_turn_success:
  "keeps_turn cfg e c d \<Longrightarrow> \<not> answer_is_empty a \<Longrightarrow>
   keeps_turn cfg e c (react_set_result REACT_OUTCOME_SUCCESS 0 None (d\<lparr>rx_final_answer := Some a\<rparr>))"
  by (erule keeps_turn_change) (simp_all add: turn_parts)

lemma keeps_turn_failed_answer:
  "oc \<noteq> REACT_OUTCOME_NONE \<Longrightarrow> oc \<noteq> REACT_OUTCOME_SUCCESS \<Longrightarrow> keeps_turn cfg e c d \<Longrightarrow>
   keeps_turn cfg e c (react_set_result oc code why (react_set_error_detail t (d\<lparr>rx_final_answer := a\<rparr>)))"
  by (erule keeps_turn_change) (simp_all add: turn_parts)

lemma retry_count_basic [simp]:
  "rx_guardrail_retry_count (react_set_state st d) = rx_guardrail_retry_count d"
  "rx_guardrail_retry_count (snd (push_ok e d)) = rx_guardrail_retry_count d"
  by (simp_all add: ctx_defs)

lemma empty_not_passed [simp]: "answer_is_empty t \<Longrightarrow> verdict (output_verdict cfg e t c) \<noteq> GUARDRAIL_PASS"
  by (simp add: output_verdict_def Let_def)

text \<open>An accepted answer is not empty; after a refusal for lack of memory the caller records an error.\<close>

lemma guardrail_retry_cases:
  "keeps_turn cfg e c d \<Longrightarrow>
   (case react_handle_guardrail_retry cfg e t msgs d of (g, _, d') \<Rightarrow>
      if g < 0 then keeps_turn cfg e c (react_set_result REACT_OUTCOME_INTERNAL_ERROR code why d')
      else keeps_turn cfg e c d' \<and> (g = 1 \<or> g = 2 \<or> \<not> answer_is_empty t))"
  unfolding react_handle_guardrail_retry_def Let_def
  by (simp add: case_prod_unfold keeps_turn_retry keeps_turn_failed_answer not_le)

lemma final_response_keeps [simp]:
  assumes "keeps_turn cfg e c d"
  shows "keeps_turn cfg e c (snd (snd (react_handle_final_response cfg e t msgs d)))"
proof -
  have "keeps_turn cfg e c (snd (snd (case react_handle_guardrail_retry cfg e f ms d1 of (g, ms, d2) \<Rightarrow>
          if g < 0 then (True, ms, react_set_result REACT_OUTCOME_INTERNAL_ERROR g (Some ''internal_error'') d2)
          else if g = 1 then (False, ms, d2) else if g = 2 then (True, ms, d2)
          else (True, ms, emit_event ''react.final'' ''end'' (react_output_emit REACT_STEP_FINAL REACT_OUTPUT_COMPLETED
            (react_set_result REACT_OUTCOME_SUCCESS 0 None
              ((add_step (react_step_create REACT_STEP_FINAL f None None None) d2)\<lparr>rx_final_answer := Some f\<rparr>)))))))"
    if "keeps_turn cfg e c d1" for f ms d1
    using guardrail_retry_cases [OF that, where t = f and msgs = ms] by (auto simp: keeps_turn_success split: prod.split if_splits)
  then show ?thesis
    using assms unfolding react_handle_final_response_def Let_def by (simp add: case_prod_unfold split: option.split)
qed

lemma llm_cancelled_keeps [simp]:
  "keeps_turn cfg e c d \<Longrightarrow> keeps_turn cfg e c (snd (react_handle_llm_cancelled resp d))"
  by (simp add: react_handle_llm_cancelled_def unfold_step split: option.split)

lemma llm_error_keeps [simp]:
  "keeps_turn cfg e c d \<Longrightarrow> keeps_turn cfg e c (snd (react_handle_llm_error resp st d))"
  by (simp add: react_handle_llm_error_def unfold_step)

lemma after_chat_keeps [simp]:
  "keeps_turn cfg e c d \<Longrightarrow> keeps_turn cfg e c (snd (snd (react_after_chat cfg e has_tools r msgs d)))"
  by (simp add: react_after_chat_def unfold_step split: option.split list.split)

lemma compact_keeps [simp]:
  "keeps_turn cfg e c d \<Longrightarrow> keeps_turn cfg e c (snd (snd (react_maybe_compact_active_window cfg' e p msgs tools d)))"
  by (simp add: react_maybe_compact_active_window_def unfold_step)

lemma refresh_memory_keeps [simp]:
  "keeps_turn cfg e c d \<Longrightarrow> keeps_turn cfg e c (snd (refresh_memory cfg' e p d))"
  by (simp add: refresh_memory_def unfold_step)

section \<open>Iterations and the whole turn\<close>

text \<open>An iteration sends at most one request, so \<open>n\<close> iterations send at most \<open>n\<close>.\<close>

definition within :: "'u react_config \<Rightarrow> env \<Rightarrow> nat \<Rightarrow> react_ctx \<Rightarrow> react_ctx \<Rightarrow> bool" where
  "within cfg e n c c' \<longleftrightarrow>
     (\<exists>new. length new \<le> n \<and> keeps_turn cfg e (c\<lparr>rx_requests := rx_requests c @ new\<rparr>) c')"

lemma requests_only [simp]:
  "settled (c\<lparr>rx_requests := r\<rparr>) \<longleftrightarrow> settled c" "retries_bounded cfg (c\<lparr>rx_requests := r\<rparr>) \<longleftrightarrow> retries_bounded cfg c"
  "consented cfg e (c\<lparr>rx_requests := r\<rparr>) \<longleftrightarrow> consented cfg e c" "turn_ends (c\<lparr>rx_requests := r\<rparr>) = turn_ends c"
  by (simp_all add: settled_def retries_bounded_def consented_def turn_ends_def)

lemma keeps_turn_requests:
  "keeps_turn cfg e c d \<Longrightarrow> keeps_turn cfg e (c\<lparr>rx_requests := rx_requests c @ r\<rparr>) (d\<lparr>rx_requests := rx_requests d @ r\<rparr>)"
  by (simp add: keeps_turn_def)

lemma keeps_turn_within: "keeps_turn cfg e c d \<Longrightarrow> within cfg e n c d"
  unfolding within_def by (rule exI [of _ "[]"]) simp

lemma within_keeps: "within cfg e n c d \<Longrightarrow> keeps_turn cfg e d d' \<Longrightarrow> within cfg e n c d'"
  unfolding within_def using keeps_turn_trans by blast

lemma within_trans: "within cfg e m c d \<Longrightarrow> within cfg e n d d' \<Longrightarrow> within cfg e (m + n) c d'"
  unfolding within_def
proof (elim exE conjE)
  fix r r'
  assume r: "length r \<le> m" "keeps_turn cfg e (c\<lparr>rx_requests := rx_requests c @ r\<rparr>) d"
    and r': "length r' \<le> n" "keeps_turn cfg e (d\<lparr>rx_requests := rx_requests d @ r'\<rparr>) d'"
  have "keeps_turn cfg e (c\<lparr>rx_requests := rx_requests c @ (r @ r')\<rparr>) d'"
    using keeps_turn_trans [OF keeps_turn_requests [OF r(2), of r'] r'(2)] by simp
  with r(1) r'(1)
  show "\<exists>new. length new \<le> m + n \<and> keeps_turn cfg e (c\<lparr>rx_requests := rx_requests c @ new\<rparr>) d'"
    by (intro exI [of _ "r @ r'"]) simp
qed

text \<open>The stream of an answer logs deltas only.\<close>

definition deltas_only :: "stream_data \<Rightarrow> bool" where
  "deltas_only sd \<longleftrightarrow> (\<forall>s \<in> set (sd_log sd). case s of Text_event n _ \<Rightarrow> n \<noteq> ''react.turn.end'' | _ \<Rightarrow> True)"

lemma deltas_only_fields [simp]:
  "deltas_only (sd\<lparr>sd_accumulated := a\<rparr>) = deltas_only sd" "deltas_only (sd\<lparr>sd_emitted_len := n\<rparr>) = deltas_only sd"
  "deltas_only (sd\<lparr>sd_in_final := b\<rparr>) = deltas_only sd" "deltas_only (sd\<lparr>sd_skip_legacy_final_separator := b\<rparr>) = deltas_only sd"
  "deltas_only (sd\<lparr>sd_provisional_typed_content := b\<rparr>) = deltas_only sd" "deltas_only (sd\<lparr>sd_cancelled := b\<rparr>) = deltas_only sd"
  "deltas_only (sd\<lparr>sd_arena := bs\<rparr>) = deltas_only sd" "deltas_only (sd\<lparr>sd_acc_cap := n\<rparr>) = deltas_only sd"
  "deltas_only (snd (arena_grants sd)) = deltas_only sd"
  by (simp_all add: deltas_only_def arena_grants_def unfold_step)

lemma thought_delta_only [simp]: "deltas_only sd \<Longrightarrow> deltas_only (snd (react_emit_thought_delta sd s))"
  by (auto simp: react_emit_thought_delta_def deltas_only_def arena_grants_def unfold_step)

lemma final_delta_only [simp]: "deltas_only sd \<Longrightarrow> deltas_only (snd (react_emit_final_delta sd s))"
  by (auto simp: react_emit_final_delta_def deltas_only_def arena_grants_def unfold_step)

lemma emit_safe_deltas:
  "(\<And>t. deltas_only (snd (em sd t))) \<Longrightarrow> deltas_only sd \<Longrightarrow> deltas_only (snd (emit_safe em sd s n))"
  by (simp add: emit_safe_def unfold_step)

lemma enter_final_deltas [simp]: "deltas_only sd \<Longrightarrow> deltas_only (snd (enter_final sd base m l))"
  by (simp add: enter_final_def unfold_step)

lemma parse_emit_deltas [simp]: "deltas_only sd \<Longrightarrow> deltas_only (snd (react_stream_parse_emit sd))"
proof (induction sd rule: react_stream_parse_emit.induct)
  case (1 sd)
  show ?case
  proof (cases "sd_accumulated sd")
    case (Some base)
    show ?thesis
    proof (cases "react_find_final_marker base (sd_emitted_len sd)")
      case None
      then show ?thesis using Some 1(2) by (subst react_stream_parse_emit.simps) (simp add: Let_def emit_safe_deltas)
    next
      case marker: (Some ml)
      obtain m l where ml: "ml = (m, l)" by (cases ml)
      obtain rc sd' where e: "enter_final sd base m l = (rc, sd')" by fastforce
      then have "deltas_only sd'" using enter_final_deltas [OF 1(2), of base m l] by simp
      then show ?thesis
        using 1(1) [OF Some refl refl refl _ _ _ marker ml [symmetric] e [symmetric]] 1(2) Some marker ml e
        by (subst react_stream_parse_emit.simps) (simp add: Let_def emit_safe_deltas)
    qed
  qed (use 1(2) in \<open>simp add: react_stream_parse_emit.simps\<close>)
qed

lemma flush_deltas [simp]: "deltas_only sd \<Longrightarrow> deltas_only (snd (react_stream_flush sd))"
proof (induction sd rule: react_stream_flush.induct)
  case (1 sd)
  show ?case
  proof (cases "sd_accumulated sd")
    case (Some base)
    show ?thesis
    proof (cases "react_find_final_marker base (sd_emitted_len sd)")
      case None
      then show ?thesis using Some 1(2) by (subst react_stream_flush.simps) (simp add: Let_def emit_safe_deltas)
    next
      case marker: (Some ml)
      obtain m l where ml: "ml = (m, l)" by (cases ml)
      obtain rc sd' where e: "enter_final sd base m l = (rc, sd')" by fastforce
      then have "deltas_only sd'" using enter_final_deltas [OF 1(2), of base m l] by simp
      then show ?thesis
        using 1(1) [OF Some refl refl refl _ _ _ marker ml [symmetric] e [symmetric]] 1(2) Some marker ml e
        by (subst react_stream_flush.simps) (simp add: Let_def emit_safe_deltas)
    qed
  qed (use 1(2) in \<open>simp add: react_stream_flush.simps\<close>)
qed

lemma accumulate_deltas [simp]: "deltas_only (stream_accumulate sd t) = deltas_only sd"
  by (simp add: stream_accumulate_def unfold_step split: option.split)

lemma stream_cb_deltas [simp]: "deltas_only sd \<Longrightarrow> deltas_only (snd (react_stream_cb sigint t sd))"
  by (simp add: react_stream_cb_def Let_def)

lemma typed_stream_cb_deltas [simp]: "deltas_only sd \<Longrightarrow> deltas_only (snd (react_typed_stream_cb k sigint t sd))"
proof (cases k)
  case LLM_STREAM_REASONING
  then show "deltas_only sd \<Longrightarrow> ?thesis" by (simp add: react_typed_stream_cb_def Let_def) (simp add: deltas_only_def)
qed (simp_all add: react_typed_stream_cb_def)

lemma deliver_deltas [simp]: "deltas_only sd \<Longrightarrow> deltas_only (snd (deliver_tokens b ts sd))"
proof (induction ts arbitrary: sd)
  case (Cons t ts)
  then show ?case by (cases t) (simp add: unfold_step)
qed simp

lemma stream_start_deltas [simp]: "deltas_only (react_stream_start arena b)"
  by (simp add: deltas_only_def react_stream_start_def unfold_step)

lemma stream_effects_keeps [simp]:
  assumes "keeps_turn cfg e c d" "deltas_only sd"
  shows "keeps_turn cfg e c (stream_effects sd d)"
proof -
  have "filter (\<lambda>l. case l of Event n _ \<Rightarrow> n = ''react.turn.end'' | _ \<Rightarrow> False) (map stream_entry (sd_log sd)) = []"
    using assms(2) by (auto simp: deltas_only_def stream_entry_def filter_empty_conv split: stream_out.splits)
  then show ?thesis
    using assms(1) by (elim keeps_turn_change) (simp_all add: stream_effects_def turn_parts)
qed

lemma chat_once_within: "within cfg e (Suc 0) d (snd (react_chat_once cfg e msgs d))"
proof -
  have sent: "within cfg e (Suc 0) d (stream_effects sd (snd (ask f (d'\<lparr>rx_requests := rx_requests d' @ [r]\<rparr>))))"
    if "keeps_turn cfg e d d'" "deltas_only sd" for sd f d' r
    unfolding within_def using that keeps_turn_requests [OF that(1), of "[r]"]
    by (intro exI [of _ "[r]"]) simp
  show ?thesis
    unfolding react_chat_once_def Let_def case_prod_unfold
    by (simp add: sent keeps_turn_within)
qed

lemma within_after_chat:
  "within cfg e n c d \<Longrightarrow> within cfg e n c (snd (snd (react_after_chat cfg e has_tools r msgs d)))"
  using within_keeps [OF _ after_chat_keeps [OF keeps_turn_refl]] .

lemma chat_round_within:
  assumes "keeps_turn cfg e c d"
  shows "within cfg e (Suc 0) c (snd (snd (react_after_chat cfg e h r msgs (snd (react_chat_once cfg e msgs' d)))))"
  using within_after_chat [OF chat_once_within] within_trans [OF keeps_turn_within [OF assms, where n = 0]]
  by fastforce

lemma iteration_within: "within cfg e (Suc 0) d (snd (snd (snd (react_iteration cfg e p msgs d))))"
  by (simp add: react_iteration_def unfold_step chat_round_within keeps_turn_within split: sum.split)

lemma iterations_within: "within cfg e n d (snd (react_iterations cfg e n p msgs d))"
proof (induction n arbitrary: p msgs d)
  case 0
  then show ?case by (simp add: keeps_turn_within)
next
  case (Suc n)
  show ?case
  proof (cases "react_iteration cfg e p msgs d")
    case (fields stop p' ms d')
    then have w: "within cfg e (Suc 0) d d'" using iteration_within [of cfg e d p msgs] by simp
    show ?thesis
      using within_trans [OF w Suc.IH [of d' p' ms]] within_trans [OF w keeps_turn_within [of cfg e d' d' n]]
      by (simp add: fields)
  qed
qed

lemma complete_max_keeps [simp]:
  "keeps_turn cfg e c d \<Longrightarrow> keeps_turn cfg e c (react_complete_max_iterations d)"
  by (simp add: react_complete_max_iterations_def unfold_step split: option.split)

lemma append_final_keeps [simp]:
  "keeps_turn cfg e c d \<Longrightarrow> keeps_turn cfg e c (react_append_final_message e d)"
  by (simp add: react_append_final_message_def Let_def)

lemma prepare_messages_keeps [simp]:
  "keeps_turn cfg e c d \<Longrightarrow> keeps_turn cfg e c (snd (react_prepare_messages cfg' e t d))"
  by (simp add: react_prepare_messages_def unfold_step)

lemma input_guardrail_keeps [simp]:
  "keeps_turn cfg e c d \<Longrightarrow> keeps_turn cfg e c (snd (react_check_input_guardrail cfg' e t d))"
  by (simp add: react_check_input_guardrail_def unfold_step)

lemma compress_keeps [simp]:
  "keeps_turn cfg e c d \<Longrightarrow> keeps_turn cfg e c (react_maybe_compress_context cfg' e d)"
  by (simp add: react_maybe_compress_context_def unfold_step)

lemma keeps_turn_start [simp]: "keeps_turn cfg e c (d\<lparr>rx_history_error := i\<rparr>) \<longleftrightarrow> keeps_turn cfg e c d"
  by (rule keeps_turn_same; simp add: turn_ends_def)

lemma turn_within: "within cfg e (nat (cf_max_iterations cfg)) c (react_turn cfg e t c)"
proof -
  have loop: "within cfg e n c (react_append_final_message e (react_complete_max_iterations
      (snd (react_iterations cfg e n p msgs d))))" if "keeps_turn cfg e c d" for n p msgs d
  proof (rule within_keeps)
    show "within cfg e n c (snd (react_iterations cfg e n p msgs d))"
      using within_trans [OF keeps_turn_within [OF that, of 0] iterations_within] by simp
  qed simp
  show ?thesis
    unfolding react_turn_def unfold_step
    by (simp add: loop keeps_turn_within split: sum.split option.split)
qed

text \<open>A turn that starts from a reset context.\<close>

lemma turn_of_reset:
  assumes "rx_outcome c = REACT_OUTCOME_NONE" "rx_state c = REACT_STATE_INIT" "rx_guardrail_retry_count c = 0"
  shows "settled (react_turn cfg e t c)" "retries_bounded cfg (react_turn cfg e t c)"
    "turn_ends (react_turn cfg e t c) = turn_ends c"
    "\<exists>new. rx_requests (react_turn cfg e t c) = rx_requests c @ new \<and> length new \<le> nat (cf_max_iterations cfg)"
    "consented cfg e c \<Longrightarrow> consented cfg e (react_turn cfg e t c)"
proof -
  obtain new where new: "length new \<le> nat (cf_max_iterations cfg)"
      "keeps_turn cfg e (c\<lparr>rx_requests := rx_requests c @ new\<rparr>) (react_turn cfg e t c)"
    using turn_within [of cfg e c t] unfolding within_def by blast
  have "settled c" "retries_bounded cfg c" using assms by (simp_all add: settled_def retries_bounded_def)
  then show "settled (react_turn cfg e t c)" "retries_bounded cfg (react_turn cfg e t c)"
    "turn_ends (react_turn cfg e t c) = turn_ends c" "consented cfg e c \<Longrightarrow> consented cfg e (react_turn cfg e t c)"
    using new(2) by (simp_all add: keeps_turn_def)
  show "\<exists>new. rx_requests (react_turn cfg e t c) = rx_requests c @ new \<and> length new \<le> nat (cf_max_iterations cfg)"
    using new by (intro exI [of _ new]) (simp add: keeps_turn_def)
qed

text \<open>The end of a turn: an outcome, a return code that agrees with it, and one closing event.\<close>

lemma finish_outcome_fields [simp]:
  "rx_requests (finish_outcome c) = rx_requests c" "rx_guardrail_retry_count (finish_outcome c) = rx_guardrail_retry_count c"
  "rx_started (finish_outcome c) = rx_started c" "rx_auto_approved (finish_outcome c) = rx_auto_approved c"
  "rx_final_answer (finish_outcome c) = rx_final_answer c" "turn_ends (finish_outcome c) = turn_ends c"
  by (simp_all add: finish_outcome_def react_set_result_def turn_ends_def)

lemma finish_outcome_settled:
  "rx_outcome (finish_outcome c) \<noteq> REACT_OUTCOME_NONE" "settled c \<Longrightarrow> settled (finish_outcome c)"
  by (simp_all add: finish_outcome_def react_set_result_def settled_def)

lemma finish_event_name [simp]: "fst (finish_event oc) \<noteq> ''react.turn.end''"
  by (simp add: finish_event_def)

lemma finish_emits [simp]:
  "rx_requests (emit_event n p c) = rx_requests c" "rx_guardrail_retry_count (emit_event n p c) = rx_guardrail_retry_count c"
  "rx_started (emit_event n p c) = rx_started c" "rx_auto_approved (emit_event n p c) = rx_auto_approved c"
  "rx_outcome (emit_event n p c) = rx_outcome c" "settled (emit_event n p c) = settled c"
  "last (rx_log (emit_event n p c)) = Event n p"
  by (simp_all add: emit_event_def settled_def)

lemma finish_run_spec:
  assumes "settled c" and "react_finish_run c = (rc, c')"
  shows "rx_outcome c' \<noteq> REACT_OUTCOME_NONE" "settled c'" "rc \<le> 0" "rc = 0 \<longleftrightarrow> rx_outcome c' = REACT_OUTCOME_SUCCESS"
    "rx_requests c' = rx_requests c" "rx_guardrail_retry_count c' = rx_guardrail_retry_count c"
    "\<exists>phase. turn_ends c' = turn_ends c @ [Event ''react.turn.end'' phase] \<and> last (rx_log c') = Event ''react.turn.end'' phase"
    "rx_started c' = rx_started c" "rx_auto_approved c' = rx_auto_approved c"
proof -
  obtain name phase where e: "finish_event (rx_outcome (finish_outcome c)) = (name, phase)" by fastforce
  then have "name \<noteq> ''react.turn.end''" using finish_event_name [of "rx_outcome (finish_outcome c)"] by simp
  moreover have "settled (d\<lparr>rx_turn_id_user_set := b\<rparr>) = settled d" "turn_ends (d\<lparr>rx_turn_id_user_set := b\<rparr>) = turn_ends d" for d b
    by (simp_all add: settled_def turn_ends_def)
  ultimately show "rx_outcome c' \<noteq> REACT_OUTCOME_NONE" "settled c'" "rc \<le> 0" "rc = 0 \<longleftrightarrow> rx_outcome c' = REACT_OUTCOME_SUCCESS"
    "rx_requests c' = rx_requests c" "rx_guardrail_retry_count c' = rx_guardrail_retry_count c"
    "\<exists>phase. turn_ends c' = turn_ends c @ [Event ''react.turn.end'' phase] \<and> last (rx_log c') = Event ''react.turn.end'' phase"
    "rx_started c' = rx_started c" "rx_auto_approved c' = rx_auto_approved c"
    using assms(2) finish_outcome_settled [of c] assms(1)
    by (auto simp: react_finish_run_def react_finish_def Let_def e split: if_splits)
qed

section \<open>A turn of the loop\<close>

text \<open>The model asks for the tool \<open>plan\<close> and then answers; the person and the tool agree.\<close>

definition example_cfg :: "nat react_config" where
  "example_cfg = \<lparr>cf_max_iterations = 4, cf_tool_timeout_seconds = 30, cf_tool_max_retries = 2,
     cf_guardrail = \<lparr>cfg_enabled = False, cfg_rules = [], cfg_llm = None\<rparr>, cf_guardrail_max_retries = 1,
     cf_guardrail_max_empty_rounds = 2, cf_hitl_enabled = True, cf_hitl_tools = [''plan''],
     cf_hitl_auto_approve_readonly = True, cf_hitl_approval_cb = True,
     cf_tools = example_registry, cf_llm_ready = True, cf_history_enabled = False,
     cf_history_db = False, cf_memory_options = False, cf_in_turn_compaction = False, cf_max_context_tokens = 0,
     cf_protocol_reserve_tokens = 0, cf_llm_max_tokens = 0,
     cf_max_history_rounds = 8, cf_llm_backend = Chat_with_tools_stream\<rparr>"

definition example_call :: "string \<Rightarrow> tool_call" where
  "example_call i = \<lparr>tc_id = i, tc_tool_call_id = [], tc_name = ''plan'', tc_arguments = Some ''{}'',
     tc_input_kind = TOOL_INPUT_JSON\<rparr>"

definition example_reply :: "chat_response \<Rightarrow> llm_reply" where
  "example_reply r = \<lparr>lr_arena = [], lr_tokens = [], lr_status = (\<lambda>_. 0), lr_response = r\<rparr>"

text \<open>Up to the tick \<open>n\<close> the model asks for tools.\<close>

definition example_env :: "nat \<Rightarrow> (nat \<Rightarrow> hitl_verdict) \<Rightarrow> (nat \<Rightarrow> join_result) \<Rightarrow> env" where
  "example_env n hitl joined = \<lparr>en_world = sample_world, en_sigint = (\<lambda>_. False), en_actions = (\<lambda>_. []),
     en_prompt_text = (\<lambda>_. None), en_alloc = (\<lambda>_. True), en_history = (\<lambda>_. (0, False)),
     en_prepare = (\<lambda>_ s. (0, s)), en_hitl = (\<lambda>k _ _. hitl k), en_join = joined,
     en_llm = (\<lambda>k. example_reply (if k < n
        then \<lparr>cr_content = None, cr_reasoning_content = None, cr_tool_calls = [example_call ''a'', example_call ''b'']\<rparr>
        else \<lparr>cr_content = Some ''ready'', cr_reasoning_content = None, cr_tool_calls = []\<rparr>)),
     en_memory = (\<lambda>_. 0), en_id = (\<lambda>k. (0, ''id'' @ show_nat k)), en_input_arg = (\<lambda>_. None),
     en_normalize = (\<lambda>_ a. (0, case a of None \<Rightarrow> ''{}'' | Some s \<Rightarrow> s)), en_arg_timeout = (\<lambda>_. None),
     en_system_prompt = (\<lambda>_. Some ''system''), en_tokenizer = Some \<lparr>tok_encoder = None, tok_count = Some (\<lambda>_. 1)\<rparr>, en_ratio = (\<lambda>_. 100), en_compact = (\<lambda>_. 0),
     en_history_messages = (\<lambda>_. (0, [])), en_summarize = (\<lambda>_. (\<lambda>_. (0, None), True))\<rparr>"

definition example_ctx :: react_ctx where
  "example_ctx = \<lparr>rx_steps = [], rx_state = REACT_STATE_INIT, rx_outcome = REACT_OUTCOME_NONE, rx_last_error_code = 0,
     rx_outcome_reason = [], rx_last_error_detail = None, rx_final_answer = None, rx_tool_fail_name = None,
     rx_tool_fail_args = None, rx_tool_fail_count = 0, rx_guardrail_retry_count = 0, rx_empty_round_count = 0,
     rx_steer_count = 0, rx_in_turn_compaction_count = 0, rx_incomplete_final_retry_count = 0, rx_cancelled = False,
     rx_history_error = 0, rx_auto_approved = [], rx_messages = [], rx_turn_id = [], rx_turn_id_user_set = False,
     rx_clock = 0, rx_log = [], rx_requests = [], rx_started = []\<rparr>"

text \<open>How a turn starts.\<close>

lemma run_starts:
  assumes run: "react_run cfg e (Some t) c = (rc, c')"
    and id: "rx_turn_id_user_set c \<and> rx_turn_id c \<noteq> [] \<or> fst (en_id e (rx_clock c)) = 0"
  obtains d where "react_finish_run (react_turn cfg e t d) = (rc, c')"
    "rx_outcome d = REACT_OUTCOME_NONE" "rx_state d = REACT_STATE_INIT" "rx_guardrail_retry_count d = 0"
    "rx_requests d = rx_requests c" "turn_ends d = turn_ends c" "rx_started d = rx_started c"
    "rx_auto_approved d = rx_auto_approved c"
proof
  define c1 where "c1 = (case tool_lookup (cf_tools cfg) (Some ''request_permissions'') of
      Some (Some i) \<Rightarrow>
        if i < length (rg_entries (cf_tools cfg)) \<and> te_user_data (rg_entries (cf_tools cfg) ! i) \<noteq> None
        then c\<lparr>rx_log := rx_log c @ [Clear_turn_grants]\<rparr> else c
    | _ \<Rightarrow> c)"
  have same: "rx_requests c1 = rx_requests c" "turn_ends c1 = turn_ends c" "rx_clock c1 = rx_clock c"
      "rx_turn_id_user_set c1 = rx_turn_id_user_set c" "rx_turn_id c1 = rx_turn_id c" "rx_started c1 = rx_started c"
      "rx_auto_approved c1 = rx_auto_approved c"
    by (auto simp: c1_def turn_ends_def split: option.split)
  define d where "d = (if rx_turn_id_user_set c \<and> rx_turn_id c \<noteq> [] then react_reset c1
    else (snd (ask (en_id e) (react_reset c1)))\<lparr>rx_turn_id := snd (en_id e (rx_clock c))\<rparr>)"
  show "react_finish_run (react_turn cfg e t d) = (rc, c')"
    using run id by (auto simp: react_run_def c1_def [symmetric] Let_def d_def ask_def same react_reset_def split: prod.splits)
  show "rx_outcome d = REACT_OUTCOME_NONE" "rx_state d = REACT_STATE_INIT" "rx_guardrail_retry_count d = 0"
    "rx_requests d = rx_requests c" "turn_ends d = turn_ends c" "rx_started d = rx_started c"
    "rx_auto_approved d = rx_auto_approved c"
    using same by (auto simp: d_def react_reset_def ask_def turn_ends_def)
qed



section \<open>Conversations\<close>

text \<open>The calls an assistant's message leaves to answer, and the messages that answer them in order.\<close>

fun pending :: "string list \<Rightarrow> chat_message list \<Rightarrow> string list option" where
  "pending due [] = Some due"
| "pending [] (m # ms) =
     (if cm_tool_call_id m = None then pending (map tc_id (cm_tool_calls m)) ms else None)"
| "pending (i # due) (m # ms) =
     (if cm_tool_call_id m = Some i \<and> cm_role m = ''tool'' \<and> cm_tool_calls m = [] then pending due ms else None)"

abbreviation owes :: "chat_message list \<Rightarrow> string list \<Rightarrow> bool" where
  "owes ms ids \<equiv> pending [] ms = Some ids"

abbreviation conv_ok :: "chat_message list \<Rightarrow> bool" where
  "conv_ok ms \<equiv> owes ms []"

lemma pending_append: "pending due (xs @ ys) = Option.bind (pending due xs) (\<lambda>d. pending d ys)"
  by (induction due xs rule: pending.induct) simp_all

lemma conv_ok_text [simp]: "conv_ok ms \<Longrightarrow> conv_ok (ms @ [chat_text r t])"
  by (simp add: pending_append chat_text_def)

lemma conv_ok_texts [simp]: "conv_ok ms \<Longrightarrow> conv_ok (ms @ [chat_text r t, chat_text r' t'])"
  by (simp add: pending_append chat_text_def)

lemma conv_ok_plain [simp]: "conv_ok (map history_text ms)" "conv_ok (map (\<lambda>m. (history_text m)\<lparr>cm_role := []\<rparr>) ms)"
  by (induction ms) (simp_all add: history_text_def chat_text_def)

lemma owes_tool_message: "owes ms (i # ids) \<Longrightarrow> owes (ms @ [tool_message t i]) ids"
  by (simp add: pending_append tool_message_def)

lemma drain_loop_conv [simp]:
  "conv_ok msgs \<Longrightarrow> conv_ok (fst (snd (snd (drain_loop cfg e acts n msgs d))))"
proof (induction acts arbitrary: n msgs d)
  case (Cons x acts)
  then show ?case by (cases x) (simp add: unfold_step split: option.split)
qed simp

lemma drain_conv [simp]: "conv_ok msgs \<Longrightarrow> conv_ok (fst (snd (snd (react_drain_actions cfg e msgs d))))"
  by (simp add: react_drain_actions_def unfold_step)

lemma final_conv [simp]: "conv_ok msgs \<Longrightarrow> conv_ok (fst (snd (react_handle_final_response cfg e t msgs d)))"
proof -
  have g: "conv_ok ms \<Longrightarrow> conv_ok (fst (snd (react_handle_guardrail_retry cfg e f ms x)))" for ms f x
    by (simp add: react_handle_guardrail_retry_def unfold_step)
  have r: "conv_ok ms \<Longrightarrow> conv_ok (fst (snd (react_retry_incomplete_final e f ms x)))" for ms f x
    by (simp add: react_retry_incomplete_final_def unfold_step)
  show "conv_ok msgs \<Longrightarrow> ?thesis"
    by (simp add: react_handle_final_response_def unfold_step g r)
qed

text \<open>One answered call.\<close>

lemma append_tool_message_owes:
  "owes msgs (i # ids) \<Longrightarrow> react_append_tool_message e msgs t i d = (rc, ms, d') \<Longrightarrow> rc \<ge> 0 \<Longrightarrow> owes ms ids"
  by (auto simp: react_append_tool_message_def unfold_step owes_tool_message split: if_splits)

lemma join_denied_owes:
  "owes msgs (tc_id tc # ids) \<Longrightarrow> join_denied e tc msgs d = (True, ms, d') \<Longrightarrow> owes ms ids"
  by (auto simp: join_denied_def Let_def not_less elim!: append_tool_message_owes split: if_splits prod.splits)

lemma join_timed_out_owes:
  "owes msgs (tc_id tc # ids) \<Longrightarrow> join_timed_out e tc t msgs d = (True, ms, d') \<Longrightarrow> owes ms ids"
  by (auto simp: join_timed_out_def Let_def not_less elim!: append_tool_message_owes split: if_splits prod.splits)

lemma join_result_owes:
  "owes msgs (tc_id tc # ids) \<Longrightarrow> join_result_of cfg e tc rc res hc arts msgs d = (True, ms, d') \<Longrightarrow> owes ms ids"
  by (auto simp: join_result_of_def react_record_tool_observation_def Let_def not_less
      elim!: append_tool_message_owes split: if_splits prod.splits)

text \<open>All calls of a round: when no slot is empty and nothing went wrong, every call has its answer.\<close>

lemma join_loop_owes:
  "owes msgs (map (\<lambda>x. tc_id (fst x)) xs) \<Longrightarrow> join_loop cfg e xs msgs d = (True, ms, d') \<Longrightarrow>
   rx_outcome d' = REACT_OUTCOME_NONE \<Longrightarrow> Slot_empty \<notin> snd ` set xs \<Longrightarrow> conv_ok ms"
proof (induction xs arbitrary: msgs d)
  case (Cons x xs)
  obtain tc sl where x: "x = (tc, sl)" by (cases x)
  show ?case
  proof (cases sl)
    case Slot_denied
    with Cons.prems x obtain ms1 d1 where "join_denied e tc msgs d = (True, ms1, d1)" "join_loop cfg e xs ms1 d1 = (True, ms, d')"
      by (auto simp: Let_def split: prod.splits if_splits)
    with Cons.prems x show ?thesis using Cons.IH [of ms1 d1] join_denied_owes [of msgs tc "map (\<lambda>x. tc_id (fst x)) xs" e d] by simp
  next
    case Slot_running
    obtain j d0 where j: "ask (en_join e) d = (j, d0)" by fastforce
    show ?thesis
    proof (cases j)
      case (Joined rc res hc arts)
      with Cons.prems x j Slot_running obtain ms1 d1 where
        "join_result_of cfg e tc rc res hc arts msgs d0 = (True, ms1, d1)" "join_loop cfg e xs ms1 d1 = (True, ms, d')"
        by (auto simp: Let_def split: prod.splits if_splits)
      with Cons.prems x show ?thesis using Cons.IH [of ms1 d1] join_result_owes [of msgs tc "map (\<lambda>x. tc_id (fst x)) xs" cfg e rc res hc arts d0] by simp
    next
      case Join_timeout
      with Cons.prems x j Slot_running obtain t ms1 d1 where
        "join_timed_out e tc t msgs d0 = (True, ms1, d1)" "join_loop cfg e xs ms1 d1 = (True, ms, d')"
        by (auto simp: Let_def split: prod.splits if_splits)
      with Cons.prems x show ?thesis using Cons.IH [of ms1 d1] join_timed_out_owes [of msgs tc "map (\<lambda>x. tc_id (fst x)) xs" e t d0] by simp
    next
      case Join_cancelled
      with Cons.prems x j Slot_running have False
        by (auto simp: Let_def react_record_tool_cancelled_def react_set_result_def split: prod.splits if_splits)
      then show ?thesis ..
    qed
  next
    case Slot_empty
    with Cons.prems x show ?thesis by simp
  qed
qed simp

lemma outcome_back: "keeps_turn cfg e c d \<Longrightarrow> rx_outcome d = REACT_OUTCOME_NONE \<Longrightarrow> rx_outcome c = REACT_OUTCOME_NONE"
  by (auto simp: keeps_turn_def)

lemma start_loop_full:
  "rx_outcome (snd (start_loop e xs d)) = REACT_OUTCOME_NONE \<Longrightarrow> Slot_empty \<notin> set (fst (start_loop e xs d))"
proof (induction xs arbitrary: d)
  case (Cons x xs)
  obtain tc den where x: "x = (tc, den)" by (cases x)
  have "rx_outcome (snd (start_tool_call e tc d)) \<noteq> REACT_OUTCOME_NONE" if "\<not> fst (start_tool_call e tc d)"
    using that by (auto simp: start_tool_call_def unfold_step react_set_result_def split: if_splits)
  then show ?case using Cons x by (auto simp: unfold_step split: if_splits)
qed simp

lemma start_loop_length [simp]: "length (fst (start_loop e xs d)) = length xs"
proof (induction xs arbitrary: d)
  case (Cons x xs)
  then show ?case by (cases x) (simp add: unfold_step)
qed simp

lemma approvals_length [simp]: "length (fst (react_check_hitl_approvals cfg e tcs d)) = length tcs"
  by (induction tcs arbitrary: d) (simp_all add: unfold_step)

lemma release_outcome [simp]: "rx_outcome (release_slots ss d) = rx_outcome d"
  unfolding release_slots_def by (induction ss arbitrary: d) (simp_all add: emit_event_def)

lemma start_full:
  assumes "react_start_tool_calls cfg e tcs d = (ss, d')" "rx_outcome d' = REACT_OUTCOME_NONE"
  shows "Slot_empty \<notin> set ss" "length ss = length tcs"
  using assms start_loop_full by (auto simp: react_start_tool_calls_def unfold_step)

text \<open>The identifiers of the calls are fixed before the assistant's message is written.\<close>

lemma normalize_ids:
  "react_normalize_tool_inputs cfg e tcs d = (Inr ts, d') \<Longrightarrow> map tc_id ts = map tc_id tcs"
  by (induction tcs arbitrary: d ts d') (auto simp: Let_def split: prod.splits sum.splits if_splits option.splits)

lemma copy_ids: "copy_calls e tcs d = (Inr ts, d') \<Longrightarrow> map tc_id ts = map tc_id tcs"
  by (induction tcs arbitrary: d ts d') (auto simp: Let_def split: prod.splits sum.splits if_splits)

lemma copy_error: "copy_calls e tcs d = (Inl rc, d') \<Longrightarrow> rc < 0"
  by (induction tcs arbitrary: d d') (auto simp: Let_def split: prod.splits sum.splits if_splits)

lemma append_assistant_owes:
  "conv_ok msgs \<Longrightarrow> react_append_assistant_tool_call_message e msgs resp tcs d = (rc, ms, d') \<Longrightarrow> rc \<ge> 0 \<Longrightarrow>
   owes ms (map tc_id tcs)"
  by (auto simp: react_append_assistant_tool_call_message_def Let_def pending_append
      dest: copy_ids copy_error split: prod.splits sum.splits if_splits)

lemma join_conv:
  assumes owes: "owes msgs (map tc_id tcs)" and full: "Slot_empty \<notin> set ss" "length ss = length tcs"
    and join: "react_join_tool_calls cfg e (zip tcs ss) msgs d = (False, ms, d')"
    and fine: "rx_outcome d' = REACT_OUTCOME_NONE"
  shows "conv_ok ms"
proof -
  obtain go ms1 d1 where l: "join_loop cfg e (zip tcs ss) msgs (check_sigint e d) = (go, ms1, d1)"
    by (cases "join_loop cfg e (zip tcs ss) msgs (check_sigint e d)") auto
  with join have go: go
    and dr: "fst (snd (snd (react_drain_actions cfg e ms1 d1))) = ms" "snd (snd (snd (react_drain_actions cfg e ms1 d1))) = d'"
    by (auto simp: react_join_tool_calls_def Let_def split: if_splits prod.splits)
  have "rx_outcome d1 = REACT_OUTCOME_NONE"
    using outcome_back [OF drain_keeps [OF keeps_turn_refl] fine [folded dr(2)]] .
  moreover have "Slot_empty \<notin> snd ` set (zip tcs ss)" using full(1) by (auto dest: set_zip_rightD)
  moreover have "map (\<lambda>x. tc_id (fst x)) (zip tcs ss) = map tc_id tcs"
    using full(2) by (induction rule: list_induct2 [OF full(2)]) simp_all
  ultimately have "conv_ok ms1" using join_loop_owes [OF _ l [unfolded eqTrueI [OF go]]] owes by simp
  then show ?thesis using drain_conv dr(1) by metis
qed

lemma start_outcome_back:
  assumes "react_start_tool_calls cfg e tcs d = (ss, d1)" and "react_join_tool_calls cfg e xs msgs d1 = (stop, ms, d')"
    and "rx_outcome d' = REACT_OUTCOME_NONE"
  shows "rx_outcome d1 = REACT_OUTCOME_NONE"
  using outcome_back [OF join_keeps [OF keeps_turn_refl, of cfg e d1 xs msgs]] assms by simp

lemma tool_round_cases:
  assumes "react_tool_round cfg e resp msgs d = (False, ms, d')"
  obtains tcs d1 arc ms1 d2 d4 ss d6 where
    "react_append_assistant_tool_call_message e msgs resp tcs d1 = (arc, ms1, d2)" "arc \<ge> 0"
    "react_start_tool_calls cfg e tcs d4 = (ss, d6)"
    "react_join_tool_calls cfg e (zip tcs ss) ms1 d6 = (False, ms, d')"
proof -
  obtain p d1 where p: "react_prepare_tool_call_ids e (cr_tool_calls resp) d = (p, d1)" by fastforce
  with assms obtain ts where "p = Inr ts" by (cases p) (simp_all add: react_tool_round_def)
  with p have p: "react_prepare_tool_call_ids e (cr_tool_calls resp) d = (Inr ts, d1)" by simp
  obtain n d2 where n: "react_normalize_tool_inputs cfg e ts d1 = (n, d2)" by fastforce
  with assms p obtain tcs where "n = Inr tcs" by (cases n) (simp_all add: react_tool_round_def)
  with n have n: "react_normalize_tool_inputs cfg e ts d1 = (Inr tcs, d2)" by simp
  obtain hrc d3 where h: "ask_history e d2 = (hrc, d3)" by fastforce
  obtain arc ms1 d4 where a: "react_append_assistant_tool_call_message e msgs resp tcs d3 = (arc, ms1, d4)"
    by (cases "react_append_assistant_tool_call_message e msgs resp tcs d3") auto
  obtain ok d5 where o: "push_ok e (react_set_state REACT_STATE_ACTING d4) = (ok, d5)" by fastforce
  obtain ss d6 where s: "react_start_tool_calls cfg e tcs d5 = (ss, d6)" by fastforce
  have "arc \<ge> 0 \<and> react_join_tool_calls cfg e (zip tcs ss) ms1 d6 = (False, ms, d')"
    using assms by (simp add: react_tool_round_def p n h a o s Let_def split: if_splits)
  with a s show ?thesis using that by blast
qed

lemma tool_round_conv:
  assumes "conv_ok msgs" "react_tool_round cfg e resp msgs d = (False, ms, d')" "rx_outcome d' = REACT_OUTCOME_NONE"
  shows "conv_ok ms"
  using assms(2)
proof (rule tool_round_cases)
  fix tcs d3 arc ms1 d4 d5 ss d6
  assume a: "react_append_assistant_tool_call_message e msgs resp tcs d3 = (arc, ms1, d4)" "arc \<ge> 0"
    and st: "react_start_tool_calls cfg e tcs d5 = (ss, d6)"
    and j: "react_join_tool_calls cfg e (zip tcs ss) ms1 d6 = (False, ms, d')"
  have "owes ms1 (map tc_id tcs)" using append_assistant_owes [OF assms(1) a] .
  with start_full [OF st start_outcome_back [OF st j assms(3)]] show ?thesis using join_conv j assms(3) by blast
qed

lemma after_chat_conv:
  assumes "rx_outcome d = REACT_OUTCOME_NONE \<Longrightarrow> conv_ok msgs"
    and "react_after_chat cfg e h r msgs d = (False, ms, d')" "rx_outcome d' = REACT_OUTCOME_NONE"
  shows "conv_ok ms"
proof -
  have none: "rx_outcome d = REACT_OUTCOME_NONE"
    using outcome_back [OF after_chat_keeps [OF keeps_turn_refl, of cfg e d h r msgs]] assms(2,3) by simp
  let ?r = "react_drain_actions cfg e msgs (snd (react_handle_llm_cancelled (snd r) (check_sigint e d)))"
  have c: "conv_ok (fst (snd (snd ?r)))" using none assms(1) by simp
  consider "ms = fst (snd (snd ?r))"
    | x where "react_tool_round cfg e (snd r) (fst (snd (snd ?r))) x = (False, ms, d')"
    | t x where "react_handle_final_response cfg e t (fst (snd (snd ?r))) x = (False, ms, d')"
    using assms(2) unfolding react_after_chat_def by (cases r) (auto simp: Let_def none split: prod.splits if_splits)
  then show ?thesis
  proof cases
    case 1
    with c show ?thesis by simp
  next
    case 2
    then show ?thesis using tool_round_conv c assms(3) by blast
  next
    case 3
    then show ?thesis using final_conv [OF c] by (metis fst_conv snd_conv)
  qed
qed

text \<open>The history store returns conversations in which every call is answered.\<close>

definition history_paired :: "'u react_config \<Rightarrow> env \<Rightarrow> bool" where
  "history_paired cfg e \<longleftrightarrow> (cf_history_enabled cfg \<longrightarrow> (\<forall>n. conv_ok (snd (en_history_messages e n))))"

definition good_requests :: "react_ctx \<Rightarrow> bool" where
  "good_requests c \<longleftrightarrow> (\<forall>(oc, ms) \<in> set (rx_requests c). oc = REACT_OUTCOME_NONE \<longrightarrow> conv_ok ms)"

lemma good_requests_keeps: "keeps_turn cfg e c d \<Longrightarrow> good_requests d \<longleftrightarrow> good_requests c"
  by (simp add: keeps_turn_def good_requests_def)

lemma compact_conv:
  assumes "history_paired cfg e" "conv_ok msgs"
  shows "conv_ok (fst (snd (react_maybe_compact_active_window cfg e p msgs tools d)))"
  using assms by (simp add: react_maybe_compact_active_window_def unfold_step ask_def history_paired_def)

lemma iteration_cases:
  assumes it: "react_iteration cfg e p msgs d = (stop, p', ms, d')"
  obtains (ended) "stop" "keeps_turn cfg e d d'"
  | (asked) h x ms1 where "keeps_turn cfg e d x" "history_paired cfg e \<Longrightarrow> conv_ok msgs \<Longrightarrow> conv_ok ms1"
      "react_after_chat cfg e h (fst (react_chat_once cfg e ms1 x)) ms1 (snd (react_chat_once cfg e ms1 x)) = (stop, ms, d')"
proof -
  obtain st n ms0 d0 where dr: "react_drain_actions cfg e msgs d = (st, n, ms0, d0)"
    by (cases "react_drain_actions cfg e msgs d") auto
  then have k0: "keeps_turn cfg e d d0" and c0: "conv_ok msgs \<Longrightarrow> conv_ok ms0"
    using drain_keeps [of cfg e d d msgs] drain_conv [of msgs cfg e d] by simp_all
  obtain q d1 where m: "refresh_memory cfg e p d0 = (q, d1)" by fastforce
  then have k1: "keeps_turn cfg e d d1" using refresh_memory_keeps [OF k0, of cfg p] by simp
  define d2 where "d2 = snd (push_ok e (react_output_emit REACT_STEP_THOUGHT REACT_OUTPUT_STARTED
      (emit_event ''react.thinking'' ''begin'' (react_set_state REACT_STATE_THINKING d1))))"
  have k2: "keeps_turn cfg e d d2" using k1 by (simp add: d2_def)
  show thesis
  proof (cases "stop \<and> keeps_turn cfg e d d'")
    case True
    then show ?thesis using ended by blast
  next
    case False
    with it k0 have "\<not> st" by (auto simp: react_iteration_def dr)
    with it False k1 obtain prompt where q: "q = Inr prompt"
      by (cases q) (auto simp: react_iteration_def dr m)
    let ?w = "react_maybe_compact_active_window cfg e prompt ms0 (collect_active_tools cfg) d2"
    have k3: "keeps_turn cfg e d (snd (snd ?w))" using k2 by simp
    have "react_after_chat cfg e (collect_active_tools cfg \<noteq> []) (fst (react_chat_once cfg e (fst (snd ?w)) (snd (snd ?w))))
        (fst (snd ?w)) (snd (react_chat_once cfg e (fst (snd ?w)) (snd (snd ?w)))) = (stop, ms, d')"
      using it False k2 k3 \<open>\<not> st\<close> unfolding react_iteration_def unfold_step
      by (auto simp: dr m q d2_def [symmetric] prod_eq_iff split: if_splits)
    with k3 c0 show ?thesis using asked compact_conv by metis
  qed
qed

lemma chat_once_good:
  assumes "good_requests x" "rx_outcome x = REACT_OUTCOME_NONE \<Longrightarrow> conv_ok ms"
  shows "good_requests (snd (react_chat_once cfg e ms x))"
    "rx_outcome (snd (react_chat_once cfg e ms x)) = REACT_OUTCOME_NONE \<Longrightarrow> conv_ok ms"
  using assms
  by (auto simp: react_chat_once_def good_requests_def unfold_step ctx_defs stream_effects_def split: if_splits)

lemma iteration_conv:
  assumes hist: "history_paired cfg e" and good: "good_requests d"
    and conv: "rx_outcome d = REACT_OUTCOME_NONE \<Longrightarrow> conv_ok msgs"
    and it: "react_iteration cfg e p msgs d = (stop, p', ms, d')"
  shows "good_requests d'" and "\<not> stop \<Longrightarrow> rx_outcome d' = REACT_OUTCOME_NONE \<Longrightarrow> conv_ok ms"
proof -
  have "good_requests d' \<and> (\<not> stop \<longrightarrow> rx_outcome d' = REACT_OUTCOME_NONE \<longrightarrow> conv_ok ms)"
    using it
  proof (cases rule: iteration_cases)
    case ended
    then show ?thesis using good good_requests_keeps by blast
  next
    case (asked h x ms1)
    then have "good_requests x" "rx_outcome x = REACT_OUTCOME_NONE \<Longrightarrow> conv_ok ms1"
      using good good_requests_keeps outcome_back conv hist by blast+
    then have g: "good_requests (snd (react_chat_once cfg e ms1 x))"
        "rx_outcome (snd (react_chat_once cfg e ms1 x)) = REACT_OUTCOME_NONE \<Longrightarrow> conv_ok ms1"
      using chat_once_good [of x ms1 cfg e] by blast+
    have "good_requests d'"
      using good_requests_keeps [OF after_chat_keeps [OF keeps_turn_refl]] g(1) asked(3) by (metis snd_conv)
    moreover have "conv_ok ms" if "\<not> stop" "rx_outcome d' = REACT_OUTCOME_NONE"
      using after_chat_conv [of "snd (react_chat_once cfg e ms1 x)" ms1 cfg e h "fst (react_chat_once cfg e ms1 x)" ms d']
        g(2) asked(3) that by simp
    ultimately show ?thesis by blast
  qed
  then show "good_requests d'" and "\<not> stop \<Longrightarrow> rx_outcome d' = REACT_OUTCOME_NONE \<Longrightarrow> conv_ok ms" by blast+
qed

lemma iterations_good:
  assumes "history_paired cfg e"
  shows "good_requests d \<Longrightarrow> (rx_outcome d = REACT_OUTCOME_NONE \<Longrightarrow> conv_ok msgs) \<Longrightarrow>
    good_requests (snd (react_iterations cfg e n p msgs d))"
proof (induction n arbitrary: p msgs d)
  case (Suc n)
  obtain stop p' ms d' where it: "react_iteration cfg e p msgs d = (stop, p', ms, d')"
    by (cases "react_iteration cfg e p msgs d") auto
  note c = iteration_conv [OF assms Suc.prems it]
  show ?case
  proof (cases stop)
    case True
    then show ?thesis using c(1) by (simp add: it)
  next
    case False
    then show ?thesis using Suc.IH [OF c(1) c(2), of p'] by (simp add: it)
  qed
qed simp

lemma turn_good:
  assumes "history_paired cfg e" "good_requests c"
  shows "good_requests (react_turn cfg e t c)"
proof -
  have g: "good_requests d \<longleftrightarrow> True" if "keeps_turn cfg e c d" for d
    using that good_requests_keeps assms(2) by blast
  have loop: "good_requests (react_append_final_message e (react_complete_max_iterations
      (snd (react_iterations cfg e n p msgs d)))) \<longleftrightarrow> True" if "keeps_turn cfg e c d" "conv_ok msgs" for n p msgs d
    using iterations_good [OF assms(1), of d msgs n p] that g
      good_requests_keeps [OF append_final_keeps [OF complete_max_keeps [OF keeps_turn_refl]]] by blast
  have prep: "conv_ok ms" if "fst (react_prepare_messages cfg e t d) = Inr ms" for d ms
    using that assms(1)
    by (auto simp: react_prepare_messages_def unfold_step history_paired_def ask_def split: if_splits)
  show ?thesis
    unfolding react_turn_def unfold_step by (simp add: g loop prep split: sum.split option.split)
qed

text \<open>C2. Every conversation sent to the model while nothing has gone wrong answers each tool call of
  the assistant's messages, in order and before anything else is said, when the conversations read back
  from the history do.\<close>

theorem react_requests_paired:
  assumes hist: "history_paired cfg e" and fresh: "rx_requests c = []"
    and run: "react_run cfg e (Some t) c = (rc, c')"
  shows "\<forall>(oc, ms) \<in> set (rx_requests c'). oc = REACT_OUTCOME_NONE \<longrightarrow> conv_ok ms"
proof (cases "rx_turn_id_user_set c \<and> rx_turn_id c \<noteq> [] \<or> fst (en_id e (rx_clock c)) = 0")
  case True
  obtain d where d: "react_finish_run (react_turn cfg e t d) = (rc, c')" "rx_outcome d = REACT_OUTCOME_NONE"
      "rx_state d = REACT_STATE_INIT" "rx_guardrail_retry_count d = 0" "rx_requests d = rx_requests c"
    by (rule run_starts [OF run True])
  have "good_requests (react_turn cfg e t d)"
    by (rule turn_good [OF hist]) (simp add: good_requests_def d(5) fresh)
  moreover have "rx_requests c' = rx_requests (react_turn cfg e t d)"
    using finish_run_spec(5) [OF turn_of_reset(1) [OF d(2-4)] d(1)] .
  ultimately show ?thesis by (simp add: good_requests_def)
next
  case False
  then have "rx_requests c' = []"
    using run fresh by (auto simp: react_run_def Let_def ask_def react_reset_def split: option.splits if_splits prod.splits)
  then show ?thesis by simp
qed

theorem react_requests_paired_witness:
  "\<exists>rc c'. react_run example_cfg (example_env 12 (\<lambda>_. HITL_APPROVE) (\<lambda>_. Joined 0 (Some ''ok'') None []))
      (Some ''hi'') example_ctx = (rc, c') \<and>
    list_all (\<lambda>(oc, ms). oc \<noteq> REACT_OUTCOME_NONE \<or> conv_ok ms) (rx_requests c')"
proof -
  let ?e = "example_env 12 (\<lambda>_. HITL_APPROVE) (\<lambda>_. Joined 0 (Some ''ok'') None [])"
  obtain rc c' where r: "react_run example_cfg ?e (Some ''hi'') example_ctx = (rc, c')" by fastforce
  have "history_paired example_cfg ?e" "rx_requests example_ctx = []"
    by (simp_all add: history_paired_def example_cfg_def example_ctx_def)
  from react_requests_paired [OF this r] r show ?thesis by (auto simp: list_all_iff)
qed

section \<open>Approvals\<close>




section \<open>Repeated failures\<close>












text \<open>With a limit of zero, which the configuration accepts, a tool that succeeds ends the turn with the
  message that it failed.\<close>

theorem react_zero_retries_fails:
  assumes "cf_tool_max_retries cfg = 0" "react_track_tool_failure cfg name args 0 c = (forced, c')"
  shows "forced \<and> rx_state c' = REACT_STATE_DONE \<and>
    rx_final_answer c' = Some (''Tool '' @ [CHR 0x27] @ ''(unknown)'' @ [CHR 0x27]
      @ '' repeatedly failed. Please try a different approach.'')"
  using assms by (auto simp: react_track_tool_failure_def unfold_step ctx_defs fail_text_def)

text \<open>When the thread of the second tool of a round cannot be created the turn has failed, but joining the
  first tool puts the state back: the loop goes on, with a call that has no answer.\<close>

theorem react_start_failure_forgotten:
  "(case react_join_tool_calls example_cfg (example_env 0 (\<lambda>_. HITL_APPROVE) (\<lambda>_. Joined 0 (Some ''ok'') None []))
      [(example_call ''a'', Slot_running), (example_call ''b'', Slot_empty)] []
      (react_set_result REACT_OUTCOME_INTERNAL_ERROR (- EAGAIN) (Some ''tool_thread_failed'') example_ctx) of
    (stop, ms, c) \<Rightarrow> \<not> stop \<and> rx_outcome c = REACT_OUTCOME_INTERNAL_ERROR \<and> map cm_tool_call_id ms = [Some ''a''])"
  by code_simp

section \<open>The messages of a session\<close>

text \<open>The lists of a session are made by \<open>msg_list_create\<close>, so the summary never prints a null string and, for the
  numbers of rounds the configuration allows, the compression is defined.\<close>

lemma summary_text_defined:
  "list_all (\<lambda>m. role m \<noteq> None \<and> content m \<noteq> None) ms \<Longrightarrow> summary_text ms \<noteq> None"
  by (induction ms) (auto split: option.splits)

lemma compress_summarize_defined:
  assumes "list_all (\<lambda>m. role m \<noteq> None \<and> content m \<noteq> None) ms" "k * 2 \<le> INT_MAX"
  shows "compress_summarize ms k fn mem \<noteq> None"
proof -
  have "summary_text (take (nat (msg_list_count ms - k * 2)) ms) \<noteq> None"
    using assms(1) by (intro summary_text_defined) (auto simp: list_all_iff dest: in_set_takeD)
  then obtain t where "summary_text (take (nat (msg_list_count ms - k * 2)) ms) = Some t" by blast
  then show ?thesis
    using assms(2) by (simp add: compress_summarize_def Let_def split: option.split prod.split)
qed

end
