(* ===== verification/Security.thy ===== *)
theory Security
  imports Ids Base64
begin

text \<open>
  Passwords and credentials of the web front end (\<open>src/sapi/fastcgi/security.c\<close>): SHA-256 with its buffered
  context, HMAC, PBKDF2, the stored form of a password, and the \<open>Basic\<close> authorization header.

  Bytes are \<open>8 word\<close>, the arithmetic of the compression function is that of \<open>32 word\<close> and the bit counter a
  \<open>64 word\<close>, so that every wrap-around is the one of the source.  Fixed arrays are lists of their length, updated
  by index.  The reference definitions (padding of a whole message, RFC 2104, RFC 8018) come after the model.
\<close>

section \<open>SHA-256\<close>

type_synonym uint32 = "32 word"

definition SHA256_BLOCK_SIZE :: nat where "SHA256_BLOCK_SIZE = 64"
definition SHA256_DIGEST_SIZE :: nat where "SHA256_DIGEST_SIZE = 32"
definition PWD_SALT_BYTES :: nat where "PWD_SALT_BYTES = 16"
definition PWD_HASH_BYTES :: nat where "PWD_HASH_BYTES = 32"
definition PWD_ITERATIONS :: int where "PWD_ITERATIONS = 120000"

record sha256_ctx =
  sc_state :: "uint32 list"
  sc_bitlen :: "64 word"
  sc_data :: "byte list"
  sc_datalen :: nat

text \<open>The table row by row, as the source lays it out.\<close>

definition k256 :: "uint32 list" where
  "k256 = concat
    [[0x428a2f98, 0x71374491, 0xb5c0fbcf, 0xe9b5dba5],
     [0x3956c25b, 0x59f111f1, 0x923f82a4, 0xab1c5ed5],
     [0xd807aa98, 0x12835b01, 0x243185be, 0x550c7dc3],
     [0x72be5d74, 0x80deb1fe, 0x9bdc06a7, 0xc19bf174],
     [0xe49b69c1, 0xefbe4786, 0x0fc19dc6, 0x240ca1cc],
     [0x2de92c6f, 0x4a7484aa, 0x5cb0a9dc, 0x76f988da],
     [0x983e5152, 0xa831c66d, 0xb00327c8, 0xbf597fc7],
     [0xc6e00bf3, 0xd5a79147, 0x06ca6351, 0x14292967],
     [0x27b70a85, 0x2e1b2138, 0x4d2c6dfc, 0x53380d13],
     [0x650a7354, 0x766a0abb, 0x81c2c92e, 0x92722c85],
     [0xa2bfe8a1, 0xa81a664b, 0xc24b8b70, 0xc76c51a3],
     [0xd192e819, 0xd6990624, 0xf40e3585, 0x106aa070],
     [0x19a4c116, 0x1e376c08, 0x2748774c, 0x34b0bcb5],
     [0x391c0cb3, 0x4ed8aa4a, 0x5b9cca4f, 0x682e6ff3],
     [0x748f82ee, 0x78a5636f, 0x84c87814, 0x8cc70208],
     [0x90befffa, 0xa4506ceb, 0xbef9a3f7, 0xc67178f2]]"

definition rotr32 :: "uint32 \<Rightarrow> nat \<Rightarrow> uint32" where
  "rotr32 x n = drop_bit n x OR push_bit (32 - n) x"

text \<open>The message schedule: sixteen words read from the block, then one word per pass of the second loop
  (\<open>i\<close> is the number of words present).\<close>

definition sha256_word :: "byte list \<Rightarrow> nat \<Rightarrow> uint32" where
  "sha256_word data i =
     push_bit 24 (ucast (data ! (i * 4))) OR push_bit 16 (ucast (data ! (i * 4 + 1))) OR
     push_bit 8 (ucast (data ! (i * 4 + 2))) OR ucast (data ! (i * 4 + 3))"

definition sha256_extend :: "uint32 list \<Rightarrow> uint32 list" where
  "sha256_extend m =
     (let i = length m;
          s0 = rotr32 (m ! (i - 15)) 7 XOR rotr32 (m ! (i - 15)) 18 XOR drop_bit 3 (m ! (i - 15));
          s1 = rotr32 (m ! (i - 2)) 17 XOR rotr32 (m ! (i - 2)) 19 XOR drop_bit 10 (m ! (i - 2))
      in m @ [m ! (i - 16) + s0 + m ! (i - 7) + s1])"

definition sha256_schedule :: "byte list \<Rightarrow> uint32 list" where
  "sha256_schedule data = (sha256_extend ^^ 48) (map (sha256_word data) [0..<16])"

text \<open>One pass of the main loop over the working variables \<open>a\<close> to \<open>h\<close>.\<close>

fun sha256_round :: "uint32 list \<Rightarrow> uint32 list \<Rightarrow> nat \<Rightarrow> uint32 list" where
  "sha256_round m [a, b, c, d, e, f, g, h] i =
     (let s1 = rotr32 e 6 XOR rotr32 e 11 XOR rotr32 e 25;
          ch = (e AND f) XOR (NOT e AND g);
          t1 = h + s1 + ch + k256 ! i + m ! i;
          s0 = rotr32 a 2 XOR rotr32 a 13 XOR rotr32 a 22;
          maj = (a AND b) XOR (a AND c) XOR (b AND c);
          t2 = s0 + maj
      in [t1 + t2, a, b, c, d + t1, e, f, g])"
| "sha256_round m st i = st"

definition sha256_compress :: "uint32 list \<Rightarrow> byte list \<Rightarrow> uint32 list" where
  "sha256_compress st data =
     (let m = sha256_schedule data
      in map2 (+) st (foldl (sha256_round m) st [0..<64]))"

definition sha256_transform :: "sha256_ctx \<Rightarrow> byte list \<Rightarrow> sha256_ctx" where
  "sha256_transform ctx data = ctx\<lparr>sc_state := sha256_compress (sc_state ctx) data\<rparr>"

definition sha256_h0 :: "uint32 list" where
  "sha256_h0 = [0x6a09e667, 0xbb67ae85, 0x3c6ef372, 0xa54ff53a,
                0x510e527f, 0x9b05688c, 0x1f83d9ab, 0x5be0cd19]"

definition sha256_init :: sha256_ctx where
  "sha256_init = \<lparr>sc_state = sha256_h0, sc_bitlen = 0, sc_data = replicate SHA256_BLOCK_SIZE 0, sc_datalen = 0\<rparr>"

definition sha256_put :: "sha256_ctx \<Rightarrow> byte \<Rightarrow> sha256_ctx" where
  "sha256_put ctx b =
     (let ctx = ctx\<lparr>sc_data := (sc_data ctx)[sc_datalen ctx := b], sc_datalen := sc_datalen ctx + 1\<rparr>
      in if sc_datalen ctx = SHA256_BLOCK_SIZE
         then (sha256_transform ctx (sc_data ctx))\<lparr>sc_bitlen := sc_bitlen ctx + 512, sc_datalen := 0\<rparr>
         else ctx)"

definition sha256_update :: "sha256_ctx \<Rightarrow> byte list \<Rightarrow> sha256_ctx" where
  "sha256_update ctx data = foldl sha256_put ctx data"

text \<open>\<open>while (i < n) d[i++] = 0\<close>.\<close>

definition zero_to :: "byte list \<Rightarrow> nat \<Rightarrow> nat \<Rightarrow> byte list" where
  "zero_to d i n = take i d @ replicate (n - i) 0 @ drop (max i n) d"

definition store_bitlen :: "byte list \<Rightarrow> 64 word \<Rightarrow> byte list" where
  "store_bitlen d n = foldl (\<lambda>d j. d[63 - j := ucast (drop_bit (j * 8) n)]) d [0..<8]"

definition sha256_bytes :: "uint32 list \<Rightarrow> byte list" where
  "sha256_bytes st = concat (map (\<lambda>w. map (\<lambda>i. ucast (drop_bit (24 - i * 8) w)) [0..<4]) st)"

definition sha256_final :: "sha256_ctx \<Rightarrow> byte list" where
  "sha256_final ctx =
     (let i = sc_datalen ctx;
          ctx = ctx\<lparr>sc_data := (sc_data ctx)[i := 0x80]\<rparr>;
          i = i + 1;
          (ctx, i) =
            (if i > 56
             then (let ctx = ctx\<lparr>sc_data := zero_to (sc_data ctx) i 64\<rparr> in (sha256_transform ctx (sc_data ctx), 0))
             else (ctx, i));
          ctx = ctx\<lparr>sc_data := zero_to (sc_data ctx) i 56\<rparr>;
          ctx = ctx\<lparr>sc_bitlen := sc_bitlen ctx + word_of_nat (sc_datalen ctx * 8)\<rparr>;
          ctx = ctx\<lparr>sc_data := store_bitlen (sc_data ctx) (sc_bitlen ctx)\<rparr>
      in sha256_bytes (sc_state (sha256_transform ctx (sc_data ctx))))"

section \<open>HMAC and PBKDF2\<close>

definition hmac_sha256 :: "byte list \<Rightarrow> byte list \<Rightarrow> byte list" where
  "hmac_sha256 key data =
     (let k0 = (if length key > SHA256_BLOCK_SIZE
                then sha256_final (sha256_update sha256_init key) @ replicate (SHA256_BLOCK_SIZE - SHA256_DIGEST_SIZE) 0
                else key @ replicate (SHA256_BLOCK_SIZE - length key) 0);
          ipad = map (\<lambda>b. b XOR 0x36) k0;
          opad = map (\<lambda>b. b XOR 0x5c) k0;
          inner = sha256_final (sha256_update (sha256_update sha256_init ipad) data)
      in sha256_final (sha256_update (sha256_update sha256_init opad) inner))"

definition be32 :: "uint32 \<Rightarrow> byte list" where
  "be32 w = [ucast (drop_bit 24 w), ucast (drop_bit 16 w), ucast (drop_bit 8 w), ucast w]"

primrec pbkdf2_rounds :: "byte list \<Rightarrow> nat \<Rightarrow> byte list \<times> byte list \<Rightarrow> byte list \<times> byte list" where
  "pbkdf2_rounds pass 0 ut = ut"
| "pbkdf2_rounds pass (Suc n) ut =
     (case ut of (u, t) \<Rightarrow>
        let u' = hmac_sha256 pass u in pbkdf2_rounds pass n (u', map2 (XOR) t u'))"

text \<open>A digest has 32 bytes, so each pass of the outer loop makes progress.\<close>

lemma length_sha256_round [simp]: "length (sha256_round m st i) = length st"
  by (induction m st i rule: sha256_round.induct) (simp_all add: Let_def)

lemma length_sha256_rounds [simp]: "length (foldl (sha256_round m) st is) = length st"
  by (induction "is" arbitrary: st) simp_all

lemma length_sha256_compress [simp]: "length (sha256_compress st data) = length st"
  by (simp add: sha256_compress_def Let_def)

lemma length_sha256_put [simp]: "length (sc_state (sha256_put ctx b)) = length (sc_state ctx)"
  by (simp add: sha256_put_def sha256_transform_def Let_def)

lemma length_sha256_update [simp]: "length (sc_state (sha256_update ctx data)) = length (sc_state ctx)"
  unfolding sha256_update_def by (induction data arbitrary: ctx) simp_all

lemma length_sha256_bytes [simp]: "length (sha256_bytes st) = 4 * length st"
  by (induction st) (simp_all add: sha256_bytes_def)

lemma length_sha256_final [simp]: "length (sha256_final ctx) = 4 * length (sc_state ctx)"
  by (simp add: sha256_final_def sha256_transform_def Let_def)

lemma length_hmac_sha256 [simp]: "length (hmac_sha256 key data) = 32"
  by (simp add: hmac_sha256_def sha256_init_def sha256_h0_def Let_def)

lemma length_pbkdf2_rounds:
  "length u = 32 \<Longrightarrow> length t = 32 \<Longrightarrow> length (snd (pbkdf2_rounds pass n (u, t))) = 32"
  by (induction n arbitrary: u t) (simp_all add: Let_def)

text \<open>The outer loop; \<open>out\<close> is what has been written so far (\<open>done\<close> bytes).  The scratch block of 128 bytes
  holds the salt and the four bytes of the index: the salts of the program have 16 bytes.\<close>

function pbkdf2_loop :: "byte list \<Rightarrow> byte list \<Rightarrow> int \<Rightarrow> nat \<Rightarrow> uint32 \<Rightarrow> byte list \<Rightarrow> byte list" where
  "pbkdf2_loop pass salt iterations out_len block_index out =
     (if length out < out_len then
        let chunk = (if out_len - length out > SHA256_DIGEST_SIZE then SHA256_DIGEST_SIZE else out_len - length out);
            u = hmac_sha256 pass (salt @ be32 block_index);
            t = snd (pbkdf2_rounds pass (nat (iterations - 1)) (u, u))
        in pbkdf2_loop pass salt iterations out_len (block_index + 1) (out @ take chunk t)
      else out)"
  by pat_completeness auto
termination
  by (relation "measure (\<lambda>(pass, salt, iterations, out_len, block_index, out). out_len - length out)")
     (auto simp: SHA256_DIGEST_SIZE_def length_pbkdf2_rounds)

declare pbkdf2_loop.simps [simp del]

definition bytes_of :: "string \<Rightarrow> byte list" where
  "bytes_of s = map (\<lambda>c. word_of_nat (of_char c)) s"

definition chars_of :: "byte list \<Rightarrow> string" where
  "chars_of bs = map (\<lambda>b. char_of (unat b)) bs"

definition pbkdf2_sha256 :: "string \<Rightarrow> byte list \<Rightarrow> int \<Rightarrow> nat \<Rightarrow> byte list" where
  "pbkdf2_sha256 password salt iterations out_len = pbkdf2_loop (bytes_of password) salt iterations out_len 1 []"

section \<open>Stored passwords\<close>

text \<open>The hexadecimal helpers of this file; \<open>char\<close> is signed, so that no byte above 127 is in a range.\<close>

definition sec_hex_encode :: "byte list \<Rightarrow> string" where
  "sec_hex_encode data = concat (map (\<lambda>b. [hex_digits ! unat (drop_bit 4 b), hex_digits ! unat (b AND 0x0f)]) data)"

definition sec_hex_value :: "char \<Rightarrow> int" where
  "sec_hex_value c =
     (if char_ge c CHR ''0'' \<and> char_ge CHR ''9'' c then of_char c - of_char CHR ''0''
      else if char_ge c CHR ''a'' \<and> char_ge CHR ''f'' c then of_char c - of_char CHR ''a'' + 10
      else if char_ge c CHR ''A'' \<and> char_ge CHR ''F'' c then of_char c - of_char CHR ''A'' + 10
      else - 1)"

fun sec_hex_pairs :: "string \<Rightarrow> rc + byte list" where
  "sec_hex_pairs (a # b # rest) =
     (let hi = sec_hex_value a; lo = sec_hex_value b
      in if hi < 0 \<or> lo < 0 then Inl (- EINVAL)
         else (case sec_hex_pairs rest of
             Inl e \<Rightarrow> Inl e
           | Inr bs \<Rightarrow> Inr (word_of_int (push_bit 4 hi OR lo) # bs)))"
| "sec_hex_pairs _ = Inr []"

definition sec_hex_decode :: "string \<Rightarrow> nat \<Rightarrow> rc + byte list" where
  "sec_hex_decode hex out_len = (if length hex \<noteq> out_len * 2 then Inl (- EINVAL) else sec_hex_pairs hex)"

definition fcgi_random_id :: "entropy \<Rightarrow> string \<Rightarrow> nat \<Rightarrow> rc \<times> string option" where
  "fcgi_random_id e prefix out_size = morph_random_id e prefix out_size"

definition fcgi_password_hash :: "entropy \<Rightarrow> string option \<Rightarrow> nat \<Rightarrow> rc \<times> string option" where
  "fcgi_password_hash e password out_size =
     (case password of
        None \<Rightarrow> (- EINVAL, None)
      | Some pw \<Rightarrow>
          if pw = [] then (- EINVAL, None)
          else (case morph_random_bytes e PWD_SALT_BYTES of (rc, raw) \<Rightarrow>
            if rc < 0 then (rc, None)
            else
              let salt = bytes_of raw;
                  hash = pbkdf2_sha256 pw salt PWD_ITERATIONS PWD_HASH_BYTES;
                  s = ''pbkdf2-sha256$'' @ show_int PWD_ITERATIONS @ ''$'' @ sec_hex_encode salt @ ''$'' @ sec_hex_encode hash;
                  out = (if out_size = 0 then None else Some (take (out_size - 1) s))
              in if length s \<ge> out_size then (- ENOSPC, out) else (0, out)))"

definition ct_eq :: "byte list \<Rightarrow> byte list \<Rightarrow> nat \<Rightarrow> bool" where
  "ct_eq a b len = (foldl (\<lambda>diff i. diff OR (a ! i XOR b ! i)) 0 [0..<len] = 0)"

text \<open>The C library: \<open>strtok_r\<close> with the delimiter \<open>$\<close> gives the next token and what is left of the text, and
  \<open>atoi\<close> is \<open>strtol\<close> (white space, a sign, digits, saturating at 64 bits) cut to \<open>int\<close>.\<close>

definition strtok_dollar :: "string \<Rightarrow> (string \<times> string) option" where
  "strtok_dollar s =
     (let s = dropWhile (\<lambda>c. c = CHR ''$'') s
      in if s = [] then None
         else Some (takeWhile (\<lambda>c. c \<noteq> CHR ''$'') s, drop 1 (dropWhile (\<lambda>c. c \<noteq> CHR ''$'') s)))"

definition is_digit :: "char \<Rightarrow> bool" where
  "is_digit c = (char_ge c CHR ''0'' \<and> char_ge CHR ''9'' c)"

definition c_isspace :: "char \<Rightarrow> bool" where
  "c_isspace c = (c \<in> set [CHR '' '', TAB, LF, CHR 0x0B, CHR 0x0C, CHR 0x0D])"

definition digits_value :: "string \<Rightarrow> int" where
  "digits_value ds = foldl (\<lambda>n c. n * 10 + (of_char c - 48)) 0 ds"

definition c_strtol :: "string \<Rightarrow> int" where
  "c_strtol s =
     (let s = dropWhile c_isspace s;
          neg = (s \<noteq> [] \<and> hd s = CHR ''-'');
          s = (if s \<noteq> [] \<and> (hd s = CHR ''-'' \<or> hd s = CHR ''+'') then tl s else s);
          n = digits_value (takeWhile is_digit s);
          n = (if neg then - n else n)
      in max (- (2 ^ 63)) (min (2 ^ 63 - 1) n))"

definition c_atoi :: "string \<Rightarrow> int" where
  "c_atoi s = signed_take_bit 31 (c_strtol s)"

definition fcgi_password_verify :: "string option \<Rightarrow> string option \<Rightarrow> bool" where
  "fcgi_password_verify password encoded =
     (case (password, encoded) of
        (Some pw, Some enc) \<Rightarrow>
          if length enc \<ge> 256 then False
          else (case strtok_dollar enc of None \<Rightarrow> False | Some (algo, r1) \<Rightarrow>
               (case strtok_dollar r1 of None \<Rightarrow> False | Some (iter_s, r2) \<Rightarrow>
               (case strtok_dollar r2 of None \<Rightarrow> False | Some (salt_s, r3) \<Rightarrow>
               (case strtok_dollar r3 of None \<Rightarrow> False | Some (hash_s, r4) \<Rightarrow>
                  if algo \<noteq> ''pbkdf2-sha256'' then False
                  else let iterations = c_atoi iter_s
                       in if iterations < 10000 then False
                          else (case sec_hex_decode salt_s PWD_SALT_BYTES of Inl _ \<Rightarrow> False | Inr salt \<Rightarrow>
                               (case sec_hex_decode hash_s PWD_HASH_BYTES of Inl _ \<Rightarrow> False | Inr expected \<Rightarrow>
                                  ct_eq (pbkdf2_sha256 pw salt iterations PWD_HASH_BYTES) expected PWD_HASH_BYTES))))))
      | _ \<Rightarrow> False)"

section \<open>The Basic header\<close>

definition b64_value :: "char \<Rightarrow> int" where
  "b64_value c = (if c = CHR ''='' then - 2 else base64_value c)"

text \<open>The loop over groups of four characters.  Shifting a negative value is undefined in the standard; the value
  is the one of two's complement, as the compilers of the project compute it.  The length is a multiple of four, so
  the last equation is reached at the end of the text only.\<close>

fun b64_decode_loop :: "nat \<Rightarrow> byte list \<Rightarrow> string \<Rightarrow> rc + byte list" where
  "b64_decode_loop out_cap out (p # q # r # s # rest) =
     (let v0 = b64_value p; v1 = b64_value q; v2 = b64_value r; v3 = b64_value s
      in if v0 = - 1 \<or> v1 = - 1 \<or> v2 = - 1 \<or> v3 = - 1 then Inl (- EINVAL)
         else if length out \<ge> out_cap then Inl (- ENOSPC)
         else let out = out @ [word_of_int (push_bit 2 v0 OR drop_bit 4 v1)]
         in if v2 \<noteq> - 2 \<and> length out \<ge> out_cap then Inl (- ENOSPC)
         else let out = (if v2 \<noteq> - 2 then out @ [word_of_int (push_bit 4 (v1 AND 15) OR drop_bit 2 v2)] else out)
         in if v3 \<noteq> - 2 \<and> length out \<ge> out_cap then Inl (- ENOSPC)
         else let out = (if v3 \<noteq> - 2 then out @ [word_of_int (push_bit 6 (v2 AND 3) OR v3)] else out)
         in b64_decode_loop out_cap out rest)"
| "b64_decode_loop out_cap out _ = Inr out"

definition b64_decode :: "string \<Rightarrow> nat \<Rightarrow> rc + byte list" where
  "b64_decode input out_cap =
     (if length input mod 4 \<noteq> 0 then Inl (- EINVAL) else b64_decode_loop out_cap [] input)"

definition fcgi_basic_decode :: "string option \<Rightarrow> nat \<Rightarrow> nat \<Rightarrow> (string \<times> string) option" where
  "fcgi_basic_decode auth_hdr user_size pass_size =
     (case auth_hdr of
        None \<Rightarrow> None
      | Some h \<Rightarrow>
          if take 6 h \<noteq> ''Basic '' then None
          else (case b64_decode (drop 6 h) 511 of
              Inl _ \<Rightarrow> None
            | Inr bs \<Rightarrow>
                let decoded = cstr (chars_of bs)
                in if CHR '':'' \<notin> set decoded then None
                   else
                     let user = takeWhile (\<lambda>c. c \<noteq> CHR '':'') decoded;
                         pass = tl (dropWhile (\<lambda>c. c \<noteq> CHR '':'') decoded)
                     in if length user \<ge> user_size then None
                        else if length pass \<ge> pass_size then None
                        else if user \<noteq> [] \<and> pass \<noteq> [] then Some (user, pass) else None))"

section \<open>SHA-256 against the standard\<close>

text \<open>The standard pads the whole message and folds the compression function over its blocks.\<close>

definition be64 :: "64 word \<Rightarrow> byte list" where
  "be64 n = map (\<lambda>j. ucast (drop_bit (56 - j * 8) n)) [0..<8]"

definition sha_pad :: "byte list \<Rightarrow> byte list" where
  "sha_pad msg = msg @ [0x80] @ replicate ((119 - length msg mod 64) mod 64) 0 @ be64 (word_of_nat (8 * length msg))"

function blocks :: "byte list \<Rightarrow> byte list list" where
  "blocks xs = (if length xs < 64 then [] else take 64 xs # blocks (drop 64 xs))"
  by pat_completeness auto
termination
  by (relation "measure length") auto

declare blocks.simps [simp del]

definition sha256 :: "byte list \<Rightarrow> byte list" where
  "sha256 msg = sha256_bytes (foldl sha256_compress sha256_h0 (blocks (sha_pad msg)))"

lemma blocks_short [simp]: "length xs < 64 \<Longrightarrow> blocks xs = []"
  by (simp add: blocks.simps)

lemma blocks_block: "length b = 64 \<Longrightarrow> blocks (b @ xs) = b # blocks xs"
  by (simp add: blocks.simps [of "b @ xs"])

lemma blocks_one [simp]: "length b = 64 \<Longrightarrow> blocks b = [b]"
  using blocks_block [of b "[]"] by simp

lemma blocks_append: "length xs mod 64 = 0 \<Longrightarrow> blocks (xs @ ys) = blocks xs @ blocks ys"
proof (induction xs rule: blocks.induct)
  case (1 xs)
  show ?case
  proof (cases "length xs < 64")
    case True
    then show ?thesis using 1(2) by simp
  next
    case False
    then have "blocks (drop 64 xs @ ys) = blocks (drop 64 xs) @ blocks ys"
      using 1 by (simp add: le_mod_geq)
    then show ?thesis using False by (simp add: blocks.simps [of xs] blocks.simps [of "xs @ ys"])
  qed
qed

text \<open>What a context has absorbed: full blocks went through the compression function, the rest waits in the
  buffer.\<close>

definition absorbed :: "sha256_ctx \<Rightarrow> byte list \<Rightarrow> bool" where
  "absorbed ctx msg =
     (\<exists>full rest. msg = full @ rest \<and> length full mod 64 = 0 \<and> length rest < 64 \<and>
        sc_state ctx = foldl sha256_compress sha256_h0 (blocks full) \<and>
        sc_bitlen ctx = word_of_nat (8 * length full) \<and>
        length (sc_data ctx) = 64 \<and> sc_datalen ctx = length rest \<and> take (length rest) (sc_data ctx) = rest)"

lemma absorbed_init: "absorbed sha256_init []"
  by (auto simp: absorbed_def sha256_init_def SHA256_BLOCK_SIZE_def)

lemma take_update_snoc:
  "n < length d \<Longrightarrow> take (Suc n) (d[n := b]) = take n d @ [b]"
  by (simp add: take_Suc_conv_app_nth)

lemma absorbed_put:
  assumes "absorbed ctx msg"
  shows "absorbed (sha256_put ctx b) (msg @ [b])"
proof -
  obtain full rest where msg: "msg = full @ rest" and full: "length full mod 64 = 0" and rest: "length rest < 64"
    and st: "sc_state ctx = foldl sha256_compress sha256_h0 (blocks full)"
    and bl: "sc_bitlen ctx = word_of_nat (8 * length full)"
    and d: "length (sc_data ctx) = 64" "sc_datalen ctx = length rest" "take (length rest) (sc_data ctx) = rest"
    using assms by (auto simp: absorbed_def)
  let ?d = "(sc_data ctx)[length rest := b]"
  have t: "take (Suc (length rest)) ?d = rest @ [b]"
    using rest d by (simp add: take_update_snoc)
  show ?thesis
  proof (cases "Suc (length rest) = 64")
    case True
    then have d64: "(sc_data ctx)[63 := b] = rest @ [b]" using t d(1) by simp
    have "absorbed (sha256_put ctx b) ((full @ rest @ [b]) @ [])"
      unfolding absorbed_def
      by (rule exI [of _ "full @ rest @ [b]"], rule exI [of _ "[]"])
         (use True full st bl d in \<open>simp add: sha256_put_def sha256_transform_def SHA256_BLOCK_SIZE_def Let_def
            d64 blocks_append mod_add_left_eq [symmetric]\<close>)
    then show ?thesis by (simp add: msg)
  next
    case False
    have "absorbed (sha256_put ctx b) (full @ (rest @ [b]))"
      unfolding absorbed_def
      by (rule exI [of _ full], rule exI [of _ "rest @ [b]"])
         (use False rest full st bl d t in \<open>simp add: sha256_put_def SHA256_BLOCK_SIZE_def Let_def\<close>)
    then show ?thesis by (simp add: msg)
  qed
qed

lemma absorbed_update: "absorbed ctx msg \<Longrightarrow> absorbed (sha256_update ctx data) (msg @ data)"
  unfolding sha256_update_def
proof (induction data arbitrary: ctx msg)
  case (Cons b data)
  from Cons.IH [OF absorbed_put [OF Cons.prems, of b]] show ?case by simp
qed simp

lemma upt_8: "[0..<8] = [0, 1, 2, 3, 4, 5, 6, 7 :: nat]"
  by (simp add: upt_rec)

lemma store_bitlen_be64:
  assumes "length d = 64"
  shows "store_bitlen d n = take 56 d @ be64 n"
proof -
  have "d = take 56 d @ drop 56 d" by simp
  moreover have *: "length xs = 8 \<Longrightarrow> \<exists>a b c e f g h i. xs = [a, b, c, e, f, g, h, i]" for xs :: "byte list"
    by (auto simp: length_Suc_conv eval_nat_numeral)
  have "length (drop 56 d) = 8" using assms by simp
  from * [OF this] obtain a b c e f g h i where "drop 56 d = [a, b, c, e, f, g, h, i]" by blast
  ultimately have d: "d = take 56 d @ [a, b, c, e, f, g, h, i]" by simp
  show ?thesis
    unfolding store_bitlen_def be64_def upt_8 by (subst d) (simp add: list_update_append assms)
qed

lemma zero_to_take:
  "i \<le> n \<Longrightarrow> n \<le> length d \<Longrightarrow> take i d = xs \<Longrightarrow> zero_to d i n = xs @ replicate (n - i) 0 @ drop n d"
  by (simp add: zero_to_def max_def)

lemma sha256_final_absorbed:
  assumes "absorbed ctx msg"
  shows "sha256_final ctx = sha256 msg"
proof -
  obtain full rest where msg: "msg = full @ rest" and full: "length full mod 64 = 0" and rest: "length rest < 64"
    and st: "sc_state ctx = foldl sha256_compress sha256_h0 (blocks full)"
    and bl: "sc_bitlen ctx = word_of_nat (8 * length full)"
    and d: "length (sc_data ctx) = 64" "sc_datalen ctx = length rest" "take (length rest) (sc_data ctx) = rest"
    using assms by (auto simp: absorbed_def)
  let ?d = "(sc_data ctx)[length rest := 0x80]" and ?n = "word_of_nat (8 * length msg) :: 64 word"
  have t: "take (Suc (length rest)) ?d = rest @ [0x80]" using rest d by (simp add: take_update_snoc)
  have n: "word_of_nat (8 * length full) + word_of_nat (length rest * 8) = ?n" by (simp add: msg)
  have m: "length msg mod 64 = length rest" using full rest by (simp add: msg mod_add_eq [symmetric])
  show ?thesis
  proof (cases "Suc (length rest) > 56")
    case True
    have z: "zero_to ?d (Suc (length rest)) 64 = rest @ 0x80 # replicate (64 - Suc (length rest)) 0"
      using zero_to_take [OF _ _ t, of 64] rest d(1) by simp
    have k: "(119 - length rest) mod 64 = (64 - Suc (length rest)) + 56" using True rest by simp
    have "blocks (sha_pad msg) = blocks full @ blocks ((rest @ 0x80 # replicate (64 - Suc (length rest)) 0)
            @ (replicate 56 0 @ be64 ?n))"
      using full m unfolding sha_pad_def m k replicate_add by (simp add: msg blocks_append)
    also have "\<dots> = blocks full @ [rest @ 0x80 # replicate (64 - Suc (length rest)) 0, replicate 56 0 @ be64 ?n]"
      using rest by (subst blocks_block) (simp_all add: be64_def)
    finally show ?thesis
      using True rest st bl d z n
      by (simp add: sha256_final_def sha256_def sha256_transform_def Let_def store_bitlen_be64 zero_to_def)
  next
    case False
    have z: "zero_to ?d (Suc (length rest)) 56 = rest @ 0x80 # replicate (56 - Suc (length rest)) 0 @ drop 56 ?d"
      using zero_to_take [OF _ _ t, of 56] False d(1) by simp
    have "119 - length rest = 64 + (56 - Suc (length rest))" using False by simp
    then have k: "(119 - length rest) mod 64 = 56 - Suc (length rest)" by (simp only: mod_add_self1) simp
    have "blocks (sha_pad msg) = blocks full @ blocks (rest @ 0x80 # replicate (56 - Suc (length rest)) 0 @ be64 ?n)"
      using full unfolding sha_pad_def m k by (simp add: msg blocks_append)
    also have "\<dots> = blocks full @ [rest @ 0x80 # replicate (56 - Suc (length rest)) 0 @ be64 ?n]"
      using False by (simp add: be64_def)
    finally have b: "blocks (sha_pad msg) = \<dots>" .
    have "take (56 - length rest) (0x80 # replicate (55 - length rest) 0 @ xs) = 0x80 # replicate (55 - length rest) (0 :: byte)" for xs
      using False by (simp add: take_Cons')
    then show ?thesis
      using b False rest st bl d z n
      by (simp add: sha256_final_def sha256_def sha256_transform_def Let_def store_bitlen_be64)
  qed
qed

lemma sha256_chunks:
  "sha256_final (foldl sha256_update sha256_init chunks) = sha256 (concat chunks)"
proof -
  have "absorbed ctx msg \<Longrightarrow> absorbed (foldl sha256_update ctx chunks) (msg @ concat chunks)" for ctx msg
  proof (induction chunks arbitrary: ctx msg)
    case (Cons c chunks)
    from Cons.IH [OF absorbed_update [OF Cons.prems, of c]] show ?case by simp
  qed simp
  from sha256_final_absorbed [OF this [OF absorbed_init]] show ?thesis by simp
qed

lemmas sha256_once = sha256_chunks [of "[_]", simplified]
lemmas sha256_twice = sha256_chunks [of "[_, _]", simplified]


section \<open>HMAC and PBKDF2 against the standards\<close>

text \<open>RFC 2104 and RFC 8018: a function \<open>F\<close> per block, the exclusive or of the first \<open>c\<close> values of the chain
  \<open>U\<close>; the key is the beginning of the blocks one after the other.\<close>

definition hmac_key :: "byte list \<Rightarrow> byte list" where
  "hmac_key key = (let k = (if length key > 64 then sha256 key else key) in k @ replicate (64 - length k) 0)"

definition hmac :: "byte list \<Rightarrow> byte list \<Rightarrow> byte list" where
  "hmac key text =
     sha256 (map (\<lambda>b. b XOR 0x5c) (hmac_key key) @ sha256 (map (\<lambda>b. b XOR 0x36) (hmac_key key) @ text))"

primrec pbkdf2_u :: "byte list \<Rightarrow> byte list \<Rightarrow> nat \<Rightarrow> byte list" where
  "pbkdf2_u pass salt_i 0 = hmac pass salt_i"
| "pbkdf2_u pass salt_i (Suc j) = hmac pass (pbkdf2_u pass salt_i j)"

primrec pbkdf2_f :: "byte list \<Rightarrow> byte list \<Rightarrow> nat \<Rightarrow> byte list" where
  "pbkdf2_f pass salt_i 0 = pbkdf2_u pass salt_i 0"
| "pbkdf2_f pass salt_i (Suc c) = map2 (XOR) (pbkdf2_f pass salt_i c) (pbkdf2_u pass salt_i (Suc c))"

definition pbkdf2 :: "byte list \<Rightarrow> byte list \<Rightarrow> nat \<Rightarrow> nat \<Rightarrow> byte list" where
  "pbkdf2 pass salt c dk_len =
     take dk_len (concat (map (\<lambda>i. pbkdf2_f pass (salt @ be32 (word_of_nat (Suc i))) (c - 1)) [0..<(dk_len + 31) div 32]))"

lemma length_sha256 [simp]: "length (sha256 msg) = 32"
  unfolding sha256_once [symmetric] by (simp add: sha256_init_def sha256_h0_def)

lemma hmac_sha256_hmac: "hmac_sha256 key data = hmac key data"
  by (simp add: hmac_sha256_def hmac_def hmac_key_def sha256_once sha256_twice Let_def
      SHA256_BLOCK_SIZE_def SHA256_DIGEST_SIZE_def)

lemma pbkdf2_rounds_f:
  "pbkdf2_rounds pass n (pbkdf2_u pass salt_i j, pbkdf2_f pass salt_i j) = (pbkdf2_u pass salt_i (j + n), pbkdf2_f pass salt_i (j + n))"
proof (induction n arbitrary: j)
  case (Suc n)
  from Suc [of "Suc j"] show ?case by (simp add: hmac_sha256_hmac Let_def)
qed simp

lemma length_pbkdf2_f [simp]: "length (pbkdf2_f pass salt_i c) = 32"
  using length_pbkdf2_rounds [of "pbkdf2_u pass salt_i 0" "pbkdf2_u pass salt_i 0" pass c] pbkdf2_rounds_f [of pass c salt_i 0]
  by (simp flip: hmac_sha256_hmac)

lemma pbkdf2_block:
  "snd (pbkdf2_rounds pass n (hmac_sha256 pass salt_i, hmac_sha256 pass salt_i)) = pbkdf2_f pass salt_i n"
  using pbkdf2_rounds_f [of pass n salt_i 0] by (simp add: hmac_sha256_hmac)

lemma length_concat_blocks: "(\<And>i. length (f i) = 32) \<Longrightarrow> length (concat (map f [0..<n])) = 32 * n"
  by (induction n) simp_all

lemma pbkdf2_loop_done: "out_len \<le> length out \<Longrightarrow> pbkdf2_loop pass salt iterations out_len i out = out"
  by (subst pbkdf2_loop.simps) simp

text \<open>After \<open>k\<close> blocks the output is their concatenation, cut at the wanted length.\<close>

lemma pbkdf2_loop_spec:
  fixes pass salt and iterations :: int
  defines "f \<equiv> \<lambda>i. pbkdf2_f pass (salt @ be32 (word_of_nat (Suc i))) (nat iterations - 1)"
  assumes "32 * k \<le> out_len"
  shows "pbkdf2_loop pass salt iterations out_len (word_of_nat (Suc k)) (concat (map f [0..<k]))
       = take out_len (concat (map f [0..<(out_len + 31) div 32]))"
  using assms(2)
proof (induction "out_len - 32 * k" arbitrary: k rule: less_induct)
  case less
  have lf: "length (f i) = 32" for i by (simp add: f_def)
  note lc = length_concat_blocks [of f, OF lf]
  show ?case
  proof (cases "32 * k < out_len")
    case False
    then have "out_len = 32 * k" "(out_len + 31) div 32 = k" using less.prems by auto
    then show ?thesis by (simp add: pbkdf2_loop_done lc)
  next
    case more: True
    have i: "nat (iterations - 1) = nat iterations - 1" by simp
    let ?u = "hmac_sha256 pass (salt @ be32 (word_of_nat (Suc k)))"
    have fk: "snd (pbkdf2_rounds pass (nat (iterations - 1)) (?u, ?u)) = f k"
      by (simp only: pbkdf2_block i f_def)
    have step: "pbkdf2_loop pass salt iterations out_len (word_of_nat (Suc k)) (concat (map f [0..<k])) =
        pbkdf2_loop pass salt iterations out_len (word_of_nat (Suc (Suc k)))
          (concat (map f [0..<k]) @ take (if out_len - 32 * k > 32 then 32 else out_len - 32 * k) (f k))"
      using more by (subst pbkdf2_loop.simps)
        (simp only: lc fk SHA256_DIGEST_SIZE_def Let_def of_nat_Suc [where ?'a = uint32, of "Suc k"] add.commute [of 1] if_True)
    show ?thesis
    proof (cases "32 * Suc k \<le> out_len")
      case True
      then have "take (if out_len - 32 * k > 32 then 32 else out_len - 32 * k) (f k) = f k" by (auto simp: lf)
      then show ?thesis using step less.hyps [of "Suc k"] True more by simp
    next
      case False
      have n: "(out_len + 31) div 32 = Suc k" using False more by (intro div_nat_eqI) auto
      have s: "\<not> out_len - 32 * k > 32" using False by simp
      show ?thesis unfolding step n using False more s
        by (subst pbkdf2_loop_done) (simp_all add: lc lf)
    qed
  qed
qed

lemma pbkdf2_sha256_pbkdf2:
  "pbkdf2_sha256 password salt iterations out_len = pbkdf2 (bytes_of password) salt (nat iterations) out_len"
  using pbkdf2_loop_spec [of 0 out_len "bytes_of password" salt iterations]
  by (simp add: pbkdf2_sha256_def pbkdf2_def)

lemma length_pbkdf2_sha256: "length (pbkdf2_sha256 password salt iterations out_len) = out_len"
proof -
  have "out_len \<le> 32 * ((out_len + 31) div 32)" by linarith
  then show ?thesis
    by (simp add: pbkdf2_sha256_pbkdf2 pbkdf2_def length_concat_blocks)
qed


section \<open>Stored passwords\<close>

lemma sec_hex_value_digit: "n < 16 \<Longrightarrow> sec_hex_value (hex_digits ! n) = int n"
proof -
  have "list_all (\<lambda>(i, c). sec_hex_value c = int i) (enumerate 0 hex_digits)"
    unfolding hex_digits_def by (simp add: sec_hex_value_def char_ge_def)
  moreover have "length hex_digits = 16" by (simp add: hex_digits_def)
  ultimately show "n < 16 \<Longrightarrow> ?thesis" by (auto simp: list_all_length nth_enumerate_eq)
qed

lemma byte_nibbles:
  fixes b :: byte
  shows "unat (drop_bit 4 b) < 16" "unat (b AND 0x0f) < 16"
    "word_of_int (push_bit 4 (int (unat (drop_bit 4 b))) OR int (unat (b AND 0x0f))) = b"
proof -
  have "unat b < 256" using unsigned_less [of b] by simp
  then have "drop_bit 4 (unat b) < 16" by (simp add: drop_bit_eq_div less_mult_imp_div_less)
  then show "unat (drop_bit 4 b) < 16" by (simp only: unat_drop_bit_eq)
  have m: "(0x0f :: byte) = mask 4" by (simp add: mask_eq_exp_minus_1)
  have "unat (b AND 0x0f) \<le> unat (0x0f :: byte)" using word_and_le1 [of b "0x0f"] by (simp add: word_le_nat_alt)
  then show "unat (b AND 0x0f) < 16" by simp
  show "word_of_int (push_bit 4 (int (unat (drop_bit 4 b))) OR int (unat (b AND 0x0f))) = b"
    by (rule bit_word_eqI)
       (auto simp: m bit_low bit_or_iff bit_push_bit_iff bit_uint_iff bit_drop_bit_eq bit_and_iff bit_mask_iff)
qed

lemma length_sec_hex_encode [simp]: "length (sec_hex_encode bs) = 2 * length bs"
  by (induction bs) (simp_all add: sec_hex_encode_def)

lemma sec_hex_pairs_encode: "sec_hex_pairs (sec_hex_encode bs) = Inr bs"
proof (induction bs)
  case (Cons b bs)
  then show ?case
    using byte_nibbles [of b] by (simp add: sec_hex_encode_def sec_hex_value_digit Let_def)
qed (simp add: sec_hex_encode_def)

lemma sec_hex_roundtrip [simp]: "length bs = n \<Longrightarrow> sec_hex_decode (sec_hex_encode bs) n = Inr bs"
  by (simp add: sec_hex_decode_def sec_hex_pairs_encode)

lemma sec_hex_no_dollar: "CHR ''$'' \<notin> set (sec_hex_encode bs)"
proof -
  have "n < 16 \<Longrightarrow> hex_digits ! n \<noteq> CHR ''$''" for n
    using sec_hex_value_digit [of n] by (auto simp: sec_hex_value_def char_ge_def)
  then have "CHR ''$'' \<noteq> hex_digits ! unat (drop_bit 4 b) \<and> CHR ''$'' \<noteq> hex_digits ! unat (b AND 0x0f)" for b :: byte
    using byte_nibbles(1,2) [of b] by metis
  then show ?thesis by (induction bs) (simp_all add: sec_hex_encode_def)
qed

lemma strtok_token:
  assumes "t \<noteq> []" "CHR ''$'' \<notin> set t"
  shows "strtok_dollar (t @ CHR ''$'' # r) = Some (t, r)" "strtok_dollar t = Some (t, [])"
proof -
  have "dropWhile (\<lambda>c. c = CHR ''$'') (t @ x) = t @ x" for x using assms by (cases t) auto
  moreover from this [of "[]"] have "dropWhile (\<lambda>c. c = CHR ''$'') t = t" by simp
  moreover have "takeWhile (\<lambda>c. c \<noteq> CHR ''$'') t = t" "drop 1 (dropWhile (\<lambda>c. c \<noteq> CHR ''$'') t) = []"
    using assms(2) by (induction t) auto
  moreover have "takeWhile (\<lambda>c. c \<noteq> CHR ''$'') (t @ CHR ''$'' # r) = t"
    "dropWhile (\<lambda>c. c \<noteq> CHR ''$'') (t @ CHR ''$'' # r) = CHR ''$'' # r"
    using assms(2) by (induction t) auto
  ultimately show "strtok_dollar (t @ CHR ''$'' # r) = Some (t, r)" "strtok_dollar t = Some (t, [])"
    using assms(1) unfolding strtok_dollar_def Let_def by simp_all
qed

lemma xor_zero_iff: "(x :: byte) XOR y = 0 \<longleftrightarrow> x = y"
  by (auto simp: bit_eq_iff bit_xor_iff)

lemma ct_eq_iff:
  assumes "length a = len" "length b = len"
  shows "ct_eq a b len \<longleftrightarrow> a = b"
proof -
  have f: "foldl (\<lambda>diff i. diff OR (a ! i XOR b ! i)) d is = 0 \<longleftrightarrow> d = 0 \<and> (\<forall>i \<in> set is. a ! i = b ! i)" for d "is"
    by (induction "is" arbitrary: d)
       (simp_all only: foldl_Nil foldl_Cons or_eq_0_iff xor_zero_iff list.set ball_simps conj_assoc simp_thms insert_iff)
  show ?thesis using assms unfolding ct_eq_def f by (auto intro: nth_equalityI)
qed

text \<open>The stored form, and what it accepts.\<close>

definition pwd_encoding :: "byte list \<Rightarrow> byte list \<Rightarrow> string" where
  "pwd_encoding salt hash = ''pbkdf2-sha256$120000$'' @ sec_hex_encode salt @ ''$'' @ sec_hex_encode hash"

lemma show_iterations: "show_int PWD_ITERATIONS = ''120000''"
proof -
  have "char_of (49 :: nat) = CHR ''1''" "char_of (50 :: nat) = CHR ''2''" "char_of (48 :: nat) = CHR ''0''"
    by code_simp+
  then show ?thesis by (simp add: PWD_ITERATIONS_def show_int_def)
qed

lemma atoi_iterations: "c_atoi ''120000'' = 120000"
  by code_simp

lemma length_pwd_encoding:
  "length salt = 16 \<Longrightarrow> length hash = 32 \<Longrightarrow> length (pwd_encoding salt hash) = 118"
  by (simp add: pwd_encoding_def)

lemma verify_pwd_encoding:
  assumes "length salt = 16" "length hash = 32"
  shows "fcgi_password_verify (Some pw) (Some (pwd_encoding salt hash)) \<longleftrightarrow> pbkdf2_sha256 pw salt 120000 32 = hash"
proof -
  have ne: "sec_hex_encode salt \<noteq> []" "sec_hex_encode hash \<noteq> []"
    using assms by (auto simp flip: length_0_conv)
  have e: "pwd_encoding salt hash =
      ''pbkdf2-sha256'' @ CHR ''$'' # ''120000'' @ CHR ''$'' # sec_hex_encode salt @ CHR ''$'' # sec_hex_encode hash"
    by (simp add: pwd_encoding_def)
  have t: "strtok_dollar (''pbkdf2-sha256'' @ CHR ''$'' # r) = Some (''pbkdf2-sha256'', r)"
    "strtok_dollar (''120000'' @ CHR ''$'' # r) = Some (''120000'', r)" for r
    by (rule strtok_token; simp)+
  note u = strtok_token [OF ne(1) sec_hex_no_dollar] strtok_token [OF ne(2) sec_hex_no_dollar]
  show ?thesis
    using assms length_pwd_encoding [OF assms]
    unfolding fcgi_password_verify_def e
    by (simp only: prod.case option.case t u Let_def atoi_iterations)
       (simp add: PWD_SALT_BYTES_def PWD_HASH_BYTES_def ct_eq_iff length_pbkdf2_sha256)
qed

lemma fcgi_password_hash_result:
  assumes "entropy_ok e" "fcgi_password_hash e (Some pw) out_size = (0, out)"
  shows "\<exists>salt. length salt = 16 \<and> out = Some (pwd_encoding salt (pbkdf2_sha256 pw salt 120000 32))"
proof -
  obtain r raw where b: "morph_random_bytes e PWD_SALT_BYTES = (r, raw)" by fastforce
  let ?s = "pwd_encoding (bytes_of raw) (pbkdf2_sha256 pw (bytes_of raw) 120000 32)"
  from assms(2) b have "pw \<noteq> []" "\<not> r < 0" and o: "length ?s < out_size" "out = Some (take (out_size - 1) ?s)"
    unfolding fcgi_password_hash_def show_iterations pwd_encoding_def
    by (auto simp: Let_def PWD_ITERATIONS_def PWD_HASH_BYTES_def split: if_splits)
  with morph_random_bytes_result [OF assms(1) b] have "length (bytes_of raw) = 16"
    by (simp add: bytes_of_def PWD_SALT_BYTES_def)
  then show ?thesis using o by (intro exI [of _ "bytes_of raw"]) simp
qed


section \<open>The Basic header\<close>

lemma b64_value_b64_char [simp]: "b64_value (b64_char v) = uint (v AND 0x3F)"
  by (simp add: b64_value_def)

lemma b64_value_pad [simp]: "b64_value CHR ''='' = - 2"
  by (simp add: b64_value_def)

lemma sextet_not_marker [simp]: "uint (w :: 32 word) \<noteq> - 1" "uint w \<noteq> - 2"
  using uint_nonnegative [of w] by linarith+

lemma masked_shift:
  "(word_of_int (push_bit 4 x AND 240 OR y) :: byte) = word_of_int (push_bit 4 x OR y)"
  "(word_of_int (push_bit 6 x AND 192 OR y) :: byte) = word_of_int (push_bit 6 x OR y)"
proof -
  have m: "(240 :: int) = push_bit 4 (mask 4)" "(192 :: int) = push_bit 6 (mask 2)"
    by (simp_all add: mask_eq_exp_minus_1 push_bit_eq_mult)
  show "(word_of_int (push_bit 4 x AND 240 OR y) :: byte) = word_of_int (push_bit 4 x OR y)"
    "(word_of_int (push_bit 6 x AND 192 OR y) :: byte) = word_of_int (push_bit 6 x OR y)"
    unfolding m by (rule bit_word_eqI; auto simp: bit_low bit_or_iff bit_push_bit_iff bit_and_iff bit_mask_iff)+
qed

lemma b64_decode_encode:
  "length out + length xs \<le> out_cap \<Longrightarrow> b64_decode_loop out_cap out (base64_encode_loop xs) = Inr (out @ xs)"
proof (induction xs arbitrary: out rule: base64_encode_loop.induct)
  case (2 a)
  then show ?case
    using sextets_one [of a] by (simp add: b64_quad_def b64_group_def Let_def)
next
  case (3 a b)
  then show ?case
    using sextets_two [of a b] by (simp add: b64_quad_def b64_group_def Let_def masked_shift)
next
  case (4 a b c rest)
  then show ?case
    using 4(1) [of "out @ [a, b, c]"] sextets_bytes [of a b c]
    by (simp add: b64_quad_def b64_group_def Let_def masked_shift or.assoc)
qed simp

lemma chars_of_bytes_of [simp]: "chars_of (bytes_of s) = s"
  by (induction s) (simp_all add: chars_of_def bytes_of_def unat_of_nat)

lemma length_bytes_of [simp]: "length (bytes_of s) = length s"
  by (simp add: bytes_of_def)

section \<open>Properties\<close>

text \<open>
  C21. A password that was stored is accepted again: the stored form has 118 characters whatever the password and the
  random salt, and a password is accepted with it exactly if it derives the same key under that salt.
\<close>

theorem password_roundtrip:
  assumes "entropy_ok e" "fcgi_password_hash e (Some pw) out_size = (0, out)"
  shows "\<exists>salt s. out = Some s \<and> length salt = 16 \<and> length s = 118 \<and>
     (\<forall>pw'. fcgi_password_verify (Some pw') (Some s) \<longleftrightarrow>
        pbkdf2 (bytes_of pw') salt 120000 32 = pbkdf2 (bytes_of pw) salt 120000 32)"
proof -
  from fcgi_password_hash_result [OF assms] obtain salt where
    salt: "length salt = 16" "out = Some (pwd_encoding salt (pbkdf2_sha256 pw salt 120000 32))" by blast
  have "length (pbkdf2_sha256 pw salt 120000 32) = 32" by (rule length_pbkdf2_sha256)
  from verify_pwd_encoding [OF salt(1) this] length_pwd_encoding [OF salt(1) this] salt show ?thesis
    by (auto simp: pbkdf2_sha256_pbkdf2)
qed

theorem password_roundtrip_witness:
  "\<exists>s. fcgi_password_hash \<lparr>dev_open = None, dev_read = \<lambda>i n. Inr (replicate n CHR ''s'')\<rparr> (Some ''correct horse'') 192
        = (0, Some s) \<and> fcgi_password_verify (Some ''correct horse'') (Some s)"
proof -
  let ?e = "\<lparr>dev_open = None, dev_read = \<lambda>i n. Inr (replicate n CHR ''s'')\<rparr>"
  have e: "entropy_ok ?e" by (simp add: entropy_ok_def)
  have b: "morph_random_bytes ?e PWD_SALT_BYTES = (0, replicate 16 CHR ''s'')"
    by (simp add: morph_random_bytes_def PWD_SALT_BYTES_def random_read_loop.simps)
  obtain out where h: "fcgi_password_hash ?e (Some ''correct horse'') 192 = (0, out)"
    by (simp add: fcgi_password_hash_def b Let_def show_iterations length_pbkdf2_sha256 PWD_HASH_BYTES_def)
  from password_roundtrip [OF e h] show ?thesis unfolding h by auto
qed

text \<open>
  The credentials a client puts into a \<open>Basic\<close> header are the ones the server reads: a user name without
  a colon and a password, neither empty, are given back if they fit the buffers.
\<close>

theorem basic_roundtrip:
  assumes "user \<noteq> []" "pass \<noteq> []" "CHR '':'' \<notin> set user" "NUL \<notin> set user" "NUL \<notin> set pass"
    "length user < user_size" "length pass < pass_size" "length user + length pass \<le> 510"
  shows "fcgi_basic_decode (Some (''Basic '' @ base64_encode_loop (bytes_of (user @ '':'' @ pass)))) user_size pass_size
       = Some (user, pass)"
proof -
  have d: "b64_decode (base64_encode_loop (bytes_of (user @ '':'' @ pass))) 511 = Inr (bytes_of (user @ '':'' @ pass))"
    using assms(8) b64_decode_encode [of "[]" "bytes_of (user @ '':'' @ pass)" 511]
    by (simp add: b64_decode_def encode_loop_mod4)
  have c: "cstr (user @ '':'' @ pass) = user @ '':'' @ pass"
    using assms(4,5) by (intro cstr_id) auto
  have "takeWhile (\<lambda>c. c \<noteq> CHR '':'') (user @ '':'' @ pass) = user"
    "dropWhile (\<lambda>c. c \<noteq> CHR '':'') (user @ '':'' @ pass) = '':'' @ pass"
    using assms(3) by (induction user) auto
  then show ?thesis using assms(1,2,6,7) d c by (simp add: fcgi_basic_decode_def Let_def)
qed

theorem basic_roundtrip_witness:
  "fcgi_basic_decode (Some ''Basic QWxhZGRpbjpvcGVuIHNlc2FtZQ=='') 128 256 = Some (''Aladdin'', ''open sesame'')"
proof -
  have "base64_encode_loop (bytes_of (''Aladdin'' @ '':'' @ ''open sesame'')) = ''QWxhZGRpbjpvcGVuIHNlc2FtZQ==''"
    by (simp add: bytes_of_def b64_quad_def b64_group_def b64_char_def B64_ALPHABET_def)
  then show ?thesis using basic_roundtrip [of "''Aladdin''" "''open sesame''" 128 256] by simp
qed

end
