(* ===== verification/Security_Vectors.thy ===== *)
theory Security_Vectors
  imports Security
begin

text \<open>
  The hash functions of \<open>security.c\<close> against the standards, with the standard's example computed to anchor the
  compression function, which the specification and the program share.
\<close>

section \<open>A known answer\<close>

text \<open>
  The compression function on the example of the standard: the block of the message \<open>abc\<close>, its message schedule and
  the working variables after every sixteen rounds.
\<close>

definition abc_words :: "uint32 list" where
  "abc_words =
    [0x61626380, 0, 0, 0, 0, 0, 0, 0,
     0, 0, 0, 0, 0, 0, 0, 0x00000018,
     0x61626380, 0x000f0000, 0x7da86405, 0x600003c6, 0x3e9d7b78, 0x0183fc00, 0x12dcbfdb, 0xe2e2c38e,
     0xc8215c1a, 0xb73679a2, 0xe5bc3909, 0x32663c5b, 0x9d209d67, 0xec8726cb, 0x702138a4, 0xd3b7973b,
     0x93f5997f, 0x3b68ba73, 0xaff4ffc1, 0xf10a5c62, 0x0a8b3996, 0x72af830a, 0x9409e33e, 0x24641522,
     0x9f47bf94, 0xf0a64f5a, 0x3e246a79, 0x27333ba3, 0x0c4763f2, 0x840abf27, 0x7a290d5d, 0x065c43da,
     0xfb3e89cb, 0xcc7617db, 0xb9e66c34, 0xa9993667, 0x84badedd, 0xc21462bc, 0x1487472c, 0xb20f7a99,
     0xef57b9cd, 0xebe6b238, 0x9fe3095e, 0x78bc8d4b, 0xa43fcf15, 0x668b2ff8, 0xeeaba2cc, 0x12b1edeb]"

lemma upt_numbers:
  "[0..<16] = [0, 1, 2, 3, 4, 5, 6, 7, 8, 9, 10, 11, 12, 13, 14, 15 :: nat]" "[0..<4] = [0, 1, 2, 3 :: nat]"
  "[0..<64] = [0..<16] @ [16..<32] @ [32..<48] @ [48..<64]"
  by code_simp+

lemma abc_pad: "sha_pad (bytes_of ''abc'') =
    [0x61, 0x62, 0x63, 0x80, 0, 0, 0, 0, 0, 0, 0, 0, 0, 0, 0, 0, 0, 0, 0, 0, 0, 0, 0, 0, 0, 0, 0, 0, 0, 0, 0, 0,
     0, 0, 0, 0, 0, 0, 0, 0, 0, 0, 0, 0, 0, 0, 0, 0, 0, 0, 0, 0, 0, 0, 0, 0, 0, 0, 0, 0, 0, 0, 0, 24]"
  by code_simp

lemma abc_block: "map (sha256_word (sha_pad (bytes_of ''abc''))) [0..<16] = take 16 abc_words"
  by (simp add: upt_numbers abc_pad sha256_word_def abc_words_def)

text \<open>Every further word of the table follows from the words before it.\<close>

lemma abc_extend: "list_all (\<lambda>i. sha256_extend (take i abc_words) = take (Suc i) abc_words) [16..<64]"
  by (simp add: abc_words_def sha256_extend_def rotr32_def Let_def)

lemma abc_schedule: "sha256_schedule (sha_pad (bytes_of ''abc'')) = abc_words"
proof -
  have "k \<le> 48 \<Longrightarrow> (sha256_extend ^^ k) (take 16 abc_words) = take (16 + k) abc_words" for k
  proof (induction k)
    case (Suc k)
    then have "sha256_extend (take (16 + k) abc_words) = take (Suc (16 + k)) abc_words"
      using bspec [OF abc_extend [unfolded list_all_iff set_upt], of "16 + k"] by simp
    then show ?case using Suc by simp
  qed simp
  from this [of 48] show ?thesis by (simp add: sha256_schedule_def abc_block) (simp add: abc_words_def)
qed

lemma abc_rounds_0:
  "foldl (sha256_round abc_words) sha256_h0 [0..<16] =
     [0xb0fa238e, 0xc0645fde, 0xd932eb16, 0x87912990, 0x07590dcd, 0x0b92f20c, 0x745a48de, 0x1e578218]"
  by (simp add: abc_words_def k256_def rotr32_def Let_def sha256_h0_def upt_numbers(1))

lemma abc_rounds_16:
  "foldl (sha256_round abc_words) 
     [0xb0fa238e, 0xc0645fde, 0xd932eb16, 0x87912990, 0x07590dcd, 0x0b92f20c, 0x745a48de, 0x1e578218] [16..<32] =
     [0x73b33bf5, 0xea992a22, 0xa0060b30, 0x363482c9, 0xba591112, 0x0109ab3a, 0xade79437, 0x6112a3b7]"
  by (simp add: abc_words_def k256_def rotr32_def Let_def)

lemma abc_rounds_32:
  "foldl (sha256_round abc_words) 
     [0x73b33bf5, 0xea992a22, 0xa0060b30, 0x363482c9, 0xba591112, 0x0109ab3a, 0xade79437, 0x6112a3b7] [32..<48] =
     [0x4172328d, 0xa14c14b0, 0x72ab4b91, 0x26628815, 0xfecf0bc6, 0xd57b94a9, 0xb7755da1, 0xa80f11f0]"
  by (simp add: abc_words_def k256_def rotr32_def Let_def)

lemma abc_rounds_48:
  "foldl (sha256_round abc_words) 
     [0x4172328d, 0xa14c14b0, 0x72ab4b91, 0x26628815, 0xfecf0bc6, 0xd57b94a9, 0xb7755da1, 0xa80f11f0] [48..<64] =
     [0x506e3058, 0xd39a2165, 0x04d24d6c, 0xb85e2ce9, 0x5ef50f24, 0xfb121210, 0x948d25b6, 0x961f4894]"
  by (simp add: abc_words_def k256_def rotr32_def Let_def)

lemma abc_compress: "sha256_compress sha256_h0 (sha_pad (bytes_of ''abc'')) =
    [0xba7816bf, 0x8f01cfea, 0x414140de, 0x5dae2223, 0xb00361a3, 0x96177a9c, 0xb410ff61, 0xf20015ad]"
proof -
  have "foldl (sha256_round abc_words) sha256_h0 [0..<64] =
     [0x506e3058, 0xd39a2165, 0x04d24d6c, 0xb85e2ce9, 0x5ef50f24, 0xfb121210, 0x948d25b6, 0x961f4894]"
    unfolding upt_numbers(3) foldl_append abc_rounds_0 abc_rounds_16 abc_rounds_32 abc_rounds_48 ..
  then show ?thesis by (simp add: sha256_compress_def abc_schedule del: upt_rec_numeral) (simp add: sha256_h0_def)
qed

lemma sha256_abc: "sec_hex_encode (sha256 (bytes_of ''abc'')) =
    ''ba7816bf8f01cfea414140de5dae2223b00361a396177a9cb410ff61f20015ad''"
proof -
  have "length (sha_pad (bytes_of ''abc'')) = 64" by (simp add: sha_pad_def be64_def bytes_of_def)
  then show ?thesis
    by (simp add: sha256_def abc_compress) (simp add: sha256_bytes_def sec_hex_encode_def hex_digits_def upt_numbers(2))
qed

text \<open>
  C22. The buffered SHA-256, the HMAC over it and the key derivation are those of the standards: a message fed in
  pieces of any sizes gives the hash of its padded whole, and a derived key has the requested length and is the
  beginning of the blocks of RFC 8018.  The compression function gives the digest the standard prints for its example.
\<close>

theorem key_derivation_standard:
  "sha256_final (foldl sha256_update sha256_init chunks) = sha256 (concat chunks)
   \<and> hmac_sha256 key data = hmac key data
   \<and> pbkdf2_sha256 password salt iterations out_len = pbkdf2 (bytes_of password) salt (nat iterations) out_len
   \<and> length (pbkdf2_sha256 password salt iterations out_len) = out_len
   \<and> sec_hex_encode (sha256 (bytes_of ''abc'')) = ''ba7816bf8f01cfea414140de5dae2223b00361a396177a9cb410ff61f20015ad''"
  by (simp add: sha256_chunks hmac_sha256_hmac length_pbkdf2_sha256 sha256_abc) (rule pbkdf2_sha256_pbkdf2)

end
