(* ===== verification/Fcgi_Store.thy ===== *)
theory Fcgi_Store
  imports Security Grants Json
begin

text \<open>
  The data the web front end keeps (\<open>src/sapi/fastcgi/session_store.c\<close>, with the parts of \<open>src/session.c\<close>
  it calls): users, quotas, artifacts, session ownership, the event log, the action queue and the canvas.

  The data base engine is outside code.  A table is the list of its rows in insertion order, or a map where its
  primary key is all that is asked for; each statement has its documented effect.  \<open>sql e i\<close> says whether the
  \<open>i\<close>-th engine call of an operation succeeds, a failing statement has no effect.  All workers of the server share
  one connection, so the connection carries the transaction: \<open>cx_saved\<close> is the state to which \<open>ROLLBACK\<close> returns,
  \<open>BEGIN\<close> inside a transaction fails, and a \<open>COMMIT\<close> that fails leaves the transaction open.  Values of columns read
  with \<open>sqlite3_column_int\<close> are within \<open>int\<close>.
\<close>

section \<open>Tables\<close>

abbreviation (input) EAGAIN :: int where "EAGAIN \<equiv> 11"
abbreviation (input) EDQUOT :: int where "EDQUOT \<equiv> 122"

record user_row =
  us_user_id :: string
  us_username :: string
  us_password_hash :: string
  us_role :: string
  us_disabled :: bool
  us_created_at :: int
  us_updated_at :: int

record quota_profile =
  qp_daily_turns :: int
  qp_daily_images :: int
  qp_daily_videos :: int
  qp_storage_bytes :: int
  qp_max_concurrent_turns :: int

record usage_daily =
  ud_turns :: int
  ud_images :: int
  ud_videos :: int

record running_turn =
  rt_id :: string
  rt_user_id :: string
  rt_session_id :: string
  rt_started_at :: int
  rt_heartbeat_at :: int

record artifact_record =
  ar_id :: string
  ar_user_id :: string
  ar_session_id :: string
  ar_kind :: string
  ar_mime :: string
  ar_filename :: string
  ar_relative_path :: string
  ar_size_bytes :: int
  ar_status :: string
  ar_created_at :: int

record event_row =
  ev_id :: int
  ev_session_id :: string
  ev_type :: string
  ev_payload :: string
  ev_ts :: int

record action_row =
  ac_id :: int
  ac_session_id :: string
  ac_type :: string
  ac_payload :: string
  ac_ts :: int
  ac_consumed :: bool

text \<open>The server writes nodes of the kind \<open>node\<close> at the origin, without parent and content.\<close>

record canvas_node =
  cn_id :: string
  cn_session_id :: string
  cn_meta :: string
  cn_created_at :: int
  cn_updated_at :: int

record session_row =
  se_id :: int
  se_display_id :: string
  se_name :: string
  se_model :: string
  se_created_at :: int
  se_updated_at :: int

text \<open>\<open>st_owner\<close> relates sessions to users; \<open>st_tasks\<close> are the parent and child sessions of sub-agents.\<close>

record store =
  st_users :: "user_row list"
  st_profiles :: "string \<rightharpoonup> quota_profile"
  st_user_quota :: "string \<rightharpoonup> string"
  st_usage :: "string \<times> string \<rightharpoonup> usage_daily"
  st_storage :: "string \<rightharpoonup> int"
  st_running :: "running_turn list"
  st_artifacts :: "artifact_record list"
  st_owner :: "(string \<times> string) list"
  st_sessions :: "session_row list"
  st_next_session :: int
  st_tasks :: "(int \<times> int) list"
  st_events :: "event_row list"
  st_next_event :: int
  st_actions :: "action_row list"
  st_next_action :: int
  st_canvas :: "canvas_node list"

record conn =
  cx_db :: store
  cx_saved :: "store option"

text \<open>What one operation meets: the random device for its \<open>i\<close>-th identifier, the clock, the day of
  \<open>date('now')\<close>, \<open>rand()\<close>, the engine and the allocator.\<close>

record call_env =
  ce_entropy :: "nat \<Rightarrow> entropy"
  ce_now :: int
  ce_today :: string
  ce_rand :: nat
  ce_sql :: "nat \<Rightarrow> bool"
  ce_mem :: "nat \<Rightarrow> bool"

definition sql_begin :: "bool \<Rightarrow> conn \<Rightarrow> conn" where
  "sql_begin ok c = (if ok \<and> cx_saved c = None then c\<lparr>cx_saved := Some (cx_db c)\<rparr> else c)"

definition sql_rollback :: "conn \<Rightarrow> conn" where
  "sql_rollback c = (case cx_saved c of None \<Rightarrow> c | Some d \<Rightarrow> c\<lparr>cx_db := d, cx_saved := None\<rparr>)"

definition sql_commit :: "bool \<Rightarrow> conn \<Rightarrow> conn" where
  "sql_commit ok c = (if ok then c\<lparr>cx_saved := None\<rparr> else c)"

abbreviation upd :: "(store \<Rightarrow> store) \<Rightarrow> conn \<Rightarrow> conn" where
  "upd f c \<equiv> c\<lparr>cx_db := f (cx_db c)\<rparr>"

definition str_of :: "string option \<Rightarrow> string" where
  "str_of s = (case s of None \<Rightarrow> [] | Some x \<Rightarrow> x)"

section \<open>Users\<close>

definition init_default_quota_profiles :: "store \<Rightarrow> store" where
  "init_default_quota_profiles s =
     s\<lparr>st_profiles :=
        (let p = st_profiles s;
             p = (if p ''admin'' = None then p(''admin'' \<mapsto>
                    \<lparr>qp_daily_turns = - 1, qp_daily_images = - 1, qp_daily_videos = - 1, qp_storage_bytes = - 1,
                     qp_max_concurrent_turns = 4\<rparr>) else p)
         in if p ''free'' = None then p(''free'' \<mapsto>
                    \<lparr>qp_daily_turns = 50, qp_daily_images = 10, qp_daily_videos = 2, qp_storage_bytes = 1073741824,
                     qp_max_concurrent_turns = 1\<rparr>) else p)\<rparr>"

definition username_char :: "char \<Rightarrow> bool" where
  "username_char c =
     ((char_ge c CHR ''a'' \<and> char_ge CHR ''z'' c) \<or> (char_ge c CHR ''A'' \<and> char_ge CHR ''Z'' c) \<or>
      (char_ge c CHR ''0'' \<and> char_ge CHR ''9'' c) \<or> c = CHR ''_'' \<or> c = CHR ''-'' \<or> c = CHR ''.'')"

definition username_valid :: "string \<Rightarrow> bool" where
  "username_valid username =
     (if length username < 3 \<or> length username > 63 then False else list_all username_char username)"

definition store_setup_required :: "call_env \<Rightarrow> conn \<Rightarrow> bool" where
  "store_setup_required e c =
     (if \<not> ce_sql e 0 then True
      else let count = (if ce_sql e 1 then length (filter (\<lambda>u. \<not> us_disabled u) (st_users (cx_db c))) else 0)
           in count = 0)"

definition insert_user :: "user_row \<Rightarrow> store \<Rightarrow> store" where
  "insert_user u s = s\<lparr>st_users := st_users s @ [u]\<rparr>"

definition store_create_user ::
    "call_env \<Rightarrow> conn \<Rightarrow> string \<Rightarrow> string \<Rightarrow> string \<Rightarrow> conn \<times> rc \<times> string" where
  "store_create_user e c username password role =
     (if \<not> username_valid username \<or> length password < 8 then (c, - EINVAL, [])
      else (case fcgi_random_id (ce_entropy e 0) ''usr_'' 64 of (rc, idb) \<Rightarrow>
        if rc < 0 then (c, rc, [])
        else let user_id = str_of idb in
        (case fcgi_password_hash (ce_entropy e 1) (Some password) 192 of (rc, hb) \<Rightarrow>
        if rc < 0 then (c, rc, [])
        else let hash = str_of hb in
        if \<not> ce_sql e 0 then (c, - EIO, [])
        else if \<exists>u \<in> set (st_users (cx_db c)). us_user_id u = user_id \<or> us_username u = username then (c, - EEXIST, [])
        else if \<not> ce_sql e 1 then (c, - EIO, [])
        else
          let c = upd (insert_user \<lparr>us_user_id = user_id, us_username = username, us_password_hash = hash, us_role = role,
                      us_disabled = False, us_created_at = ce_now e, us_updated_at = ce_now e\<rparr>) c;
              profile = (if role = ''admin'' then ''admin'' else ''free'')
          in if \<not> ce_sql e 2 then (c, - EIO, [])
             else if \<not> ce_sql e 3 then (c, - EIO, [])
             else
               let c = upd (\<lambda>s. s\<lparr>st_user_quota := (st_user_quota s)(user_id \<mapsto> profile)\<rparr>) c;
                   c = (if ce_sql e 4 \<and> ce_sql e 5 \<and> st_storage (cx_db c) user_id = None
                        then upd (\<lambda>s. s\<lparr>st_storage := (st_storage s)(user_id \<mapsto> 0)\<rparr>) c else c)
               in (c, 0, snprintf_n 64 user_id))))"

record fcgi_user =
  fu_user_id :: string
  fu_username :: string
  fu_role :: string

definition store_verify_user :: "call_env \<Rightarrow> conn \<Rightarrow> string \<Rightarrow> string \<Rightarrow> fcgi_user option" where
  "store_verify_user e c username password =
     (if \<not> ce_sql e 0 then None
      else if \<not> ce_sql e 1 then None
      else (case find (\<lambda>u. us_username u = username \<and> \<not> us_disabled u) (st_users (cx_db c)) of
          None \<Rightarrow> None
        | Some u \<Rightarrow>
            if fcgi_password_verify (Some password) (Some (us_password_hash u))
            then Some \<lparr>fu_user_id = snprintf_n 64 (us_user_id u), fu_username = snprintf_n 64 (us_username u),
                       fu_role = snprintf_n 24 (us_role u)\<rparr>
            else None))"

section \<open>Quotas\<close>

definition running_of :: "store \<Rightarrow> string \<Rightarrow> int" where
  "running_of s user_id = int (length (filter (\<lambda>r. rt_user_id r = user_id) (st_running s)))"

definition turns_today :: "store \<Rightarrow> string \<Rightarrow> string \<Rightarrow> int" where
  "turns_today s user_id today = (case st_usage s (user_id, today) of None \<Rightarrow> 0 | Some d \<Rightarrow> ud_turns d)"

definition profile_of :: "store \<Rightarrow> string \<Rightarrow> quota_profile option" where
  "profile_of s user_id = Option.bind (st_user_quota s user_id) (st_profiles s)"

text \<open>\<open>INSERT ... ON CONFLICT DO UPDATE\<close>: the counter of one column of the day.\<close>

definition bump_usage :: "(usage_daily \<Rightarrow> usage_daily) \<Rightarrow> string \<Rightarrow> string \<Rightarrow> store \<Rightarrow> store" where
  "bump_usage f user_id today s =
     s\<lparr>st_usage := (st_usage s)((user_id, today) \<mapsto>
        f (case st_usage s (user_id, today) of None \<Rightarrow> \<lparr>ud_turns = 0, ud_images = 0, ud_videos = 0\<rparr> | Some d \<Rightarrow> d))\<rparr>"

definition insert_running :: "running_turn \<Rightarrow> store \<Rightarrow> store" where
  "insert_running r s = s\<lparr>st_running := st_running s @ [r]\<rparr>"

text \<open>The statements of \<open>store_quota_begin_turn\<close> one by one: the query, the counter, the running turn.\<close>

definition quota_select :: "call_env \<Rightarrow> store \<Rightarrow> string \<Rightarrow> (int \<times> int \<times> int \<times> int) option" where
  "quota_select e s user_id =
     map_option (\<lambda>p. (qp_daily_turns p, qp_max_concurrent_turns p, turns_today s user_id (ce_today e), running_of s user_id))
       (profile_of s user_id)"

definition quota_verdict :: "int \<times> int \<times> int \<times> int \<Rightarrow> rc" where
  "quota_verdict row =
     (case row of (daily_limit, concurrent_limit, used_turns, running) \<Rightarrow>
        if daily_limit \<ge> 0 \<and> used_turns \<ge> daily_limit then - EDQUOT
        else if concurrent_limit \<ge> 0 \<and> running \<ge> concurrent_limit then - EAGAIN
        else 0)"

definition store_quota_begin_turn ::
    "call_env \<Rightarrow> conn \<Rightarrow> string \<Rightarrow> string \<Rightarrow> conn \<times> rc \<times> string" where
  "store_quota_begin_turn e c user_id session_id =
     (case fcgi_random_id (ce_entropy e 0) ''turn_'' 64 of (rc, idb) \<Rightarrow>
        if rc < 0 then (c, rc, [])
        else
          let turn_id = str_of idb;
              c = sql_begin (ce_sql e 0) c
          in if \<not> ce_sql e 1 then (sql_rollback c, - EIO, [])
             else (case (if ce_sql e 2 then quota_select e (cx_db c) user_id else None) of
                 None \<Rightarrow> (sql_rollback c, - ENOENT, [])
               | Some row \<Rightarrow>
                   if quota_verdict row \<noteq> 0 then (sql_rollback c, quota_verdict row, [])
                   else if \<not> ce_sql e 3 then (sql_rollback c, - EIO, [])
                   else if \<not> ce_sql e 4 then (sql_rollback c, - EIO, [])
                   else
                     let c = upd (bump_usage (\<lambda>d. d\<lparr>ud_turns := ud_turns d + 1\<rparr>) user_id (ce_today e)) c
                     in if \<not> ce_sql e 5 then (sql_rollback c, - EIO, [])
                        else if \<not> ce_sql e 6 \<or> (\<exists>r \<in> set (st_running (cx_db c)). rt_id r = turn_id)
                        then (sql_rollback c, - EIO, [])
                        else
                          let c = upd (insert_running \<lparr>rt_id = turn_id, rt_user_id = user_id, rt_session_id = session_id,
                                        rt_started_at = ce_now e, rt_heartbeat_at = ce_now e\<rparr>) c
                          in (sql_commit (ce_sql e 7) c, 0, snprintf_n 64 turn_id)))"

definition store_quota_end_turn :: "call_env \<Rightarrow> conn \<Rightarrow> string \<Rightarrow> conn" where
  "store_quota_end_turn e c turn_id =
     (if turn_id = [] then c
      else if ce_sql e 0 \<and> ce_sql e 1
      then upd (\<lambda>s. s\<lparr>st_running := filter (\<lambda>r. rt_id r \<noteq> turn_id) (st_running s)\<rparr>) c
      else c)"

section \<open>Artifacts\<close>

definition insert_artifact :: "artifact_record \<Rightarrow> store \<Rightarrow> store" where
  "insert_artifact a s = s\<lparr>st_artifacts := st_artifacts s @ [a]\<rparr>"

definition add_storage :: "string \<Rightarrow> int \<Rightarrow> store \<Rightarrow> store" where
  "add_storage user_id n s =
     s\<lparr>st_storage := (st_storage s)(user_id \<mapsto> (case st_storage s user_id of None \<Rightarrow> n | Some m \<Rightarrow> m + n))\<rparr>"

definition store_artifact_register ::
    "call_env \<Rightarrow> conn \<Rightarrow> string \<Rightarrow> string \<Rightarrow> string \<Rightarrow> string \<Rightarrow> string \<Rightarrow> string \<Rightarrow> int \<Rightarrow> conn \<times> rc \<times> string" where
  "store_artifact_register e c user_id session_id kind mime filename relative_path size_bytes =
     (case fcgi_random_id (ce_entropy e 0) ''art_'' 64 of (rc, idb) \<Rightarrow>
        if rc < 0 then (c, rc, [])
        else
          let id = str_of idb
          in if \<not> ce_sql e 0 then (c, - EIO, [])
             else if \<not> ce_sql e 1 \<or> (\<exists>a \<in> set (st_artifacts (cx_db c)). ar_id a = id) then (c, - EIO, [])
             else
               let c = upd (insert_artifact \<lparr>ar_id = id, ar_user_id = user_id, ar_session_id = session_id, ar_kind = kind,
                         ar_mime = mime, ar_filename = filename, ar_relative_path = relative_path,
                         ar_size_bytes = size_bytes, ar_status = ''ready'', ar_created_at = ce_now e\<rparr>) c;
                   c = (if ce_sql e 2 \<and> ce_sql e 3 then upd (add_storage user_id size_bytes) c else c);
                   c = (if kind = ''image'' \<or> kind = ''video'' then
                          (if ce_sql e 4 \<and> ce_sql e 5
                           then upd (bump_usage (if kind = ''image'' then (\<lambda>d. d\<lparr>ud_images := ud_images d + 1\<rparr>)
                                                 else (\<lambda>d. d\<lparr>ud_videos := ud_videos d + 1\<rparr>)) user_id (ce_today e)) c
                           else c)
                        else c)
               in (c, 0, snprintf_n 64 id))"

definition read_artifact :: "artifact_record \<Rightarrow> artifact_record" where
  "read_artifact a =
     a\<lparr>ar_id := snprintf_n 64 (ar_id a), ar_user_id := snprintf_n 64 (ar_user_id a),
       ar_session_id := snprintf_n 64 (ar_session_id a), ar_kind := snprintf_n 16 (ar_kind a),
       ar_mime := snprintf_n 64 (ar_mime a), ar_filename := snprintf_n 128 (ar_filename a),
       ar_relative_path := snprintf_n 512 (ar_relative_path a), ar_status := snprintf_n 16 (ar_status a)\<rparr>"

definition store_artifact_get :: "call_env \<Rightarrow> conn \<Rightarrow> string \<Rightarrow> string \<Rightarrow> rc + artifact_record" where
  "store_artifact_get e c artifact_id user_id =
     (if \<not> ce_sql e 0 then Inl (- EIO)
      else if \<not> ce_sql e 1 then Inl (- ENOENT)
      else (case find (\<lambda>a. ar_id a = artifact_id \<and> ar_user_id a = user_id) (st_artifacts (cx_db c)) of
          None \<Rightarrow> Inl (- ENOENT)
        | Some a \<Rightarrow> Inr (read_artifact a)))"

text \<open>\<open>ORDER BY created_at DESC\<close>; rows of the same second keep their order.  The tree is printed by \<open>cJSON\<close>
  (\<open>pr\<close>), which fails without memory.\<close>

definition artifact_url :: "string \<Rightarrow> string" where
  "artifact_url aid = snprintf_n 128 (''/api/artifacts/'' @ aid)"

definition artifact_item :: "artifact_record \<Rightarrow> int json" where
  "artifact_item a = cJSON_Object
     [(''id'', cJSON_String (ar_id a)), (''session_id'', cJSON_String (ar_session_id a)), (''kind'', cJSON_String (ar_kind a)),
      (''mime'', cJSON_String (ar_mime a)), (''filename'', cJSON_String (ar_filename a)),
      (''size_bytes'', cJSON_Number (ar_size_bytes a)), (''status'', cJSON_String (ar_status a)),
      (''created_at'', cJSON_Number (ar_created_at a)), (''url'', cJSON_String (artifact_url (ar_id a)))]"

definition artifact_json_array :: "(int json \<Rightarrow> string option) \<Rightarrow> artifact_record list \<Rightarrow> string option" where
  "artifact_json_array pr rows = pr (cJSON_Object [(''items'', cJSON_Array (map artifact_item rows))])"

definition store_artifact_list_json ::
    "(int json \<Rightarrow> string option) \<Rightarrow> call_env \<Rightarrow> conn \<Rightarrow> string \<Rightarrow> string \<Rightarrow> rc + string" where
  "store_artifact_list_json pr e c user_id session_id =
     (if \<not> ce_sql e 0 then Inl (- EIO)
      else (case artifact_json_array pr (sort_key (\<lambda>a. - ar_created_at a)
              (filter (\<lambda>a. ar_user_id a = user_id \<and> ar_session_id a = session_id) (st_artifacts (cx_db c)))) of
          None \<Rightarrow> Inl (- ENOMEM)
        | Some json \<Rightarrow> Inr json))"

section \<open>Sessions\<close>

definition generate_display_id :: "entropy \<Rightarrow> rc \<times> string option" where
  "generate_display_id ent = morph_random_id_nbytes ent [] 4 16"

text \<open>The insertion with its retries: \<open>retries\<close> counts down from 3, the try \<open>3 - retries\<close> uses the random device
  and two engine calls of that number.  A name or a display identifier that is taken violates \<open>UNIQUE\<close>.\<close>

fun session_insert :: "call_env \<Rightarrow> conn \<Rightarrow> string \<Rightarrow> string \<Rightarrow> nat \<Rightarrow> string \<Rightarrow> conn \<times> rc \<times> session_row option" where
  "session_insert e c name model retries display_id =
     (case (if retries < 3 then generate_display_id (ce_entropy e (3 - retries)) else (0, Some display_id)) of (rc, idb) \<Rightarrow>
        if rc < 0 then (c, rc, None)
        else
          let display_id = str_of idb; k = 2 * (3 - retries)
          in if \<not> ce_sql e k then (c, MORPH_ERR_DB, None)
             else if \<not> ce_sql e (k + 1) then (c, MORPH_ERR_DB, None)
             else if \<exists>s \<in> set (st_sessions (cx_db c)). se_display_id s = display_id \<or> se_name s = name
             then (case retries of 0 \<Rightarrow> (c, - EEXIST, None) | Suc n \<Rightarrow> session_insert e c name model n display_id)
             else
               let row = \<lparr>se_id = st_next_session (cx_db c), se_display_id = display_id, se_name = name, se_model = model,
                          se_created_at = ce_now e, se_updated_at = ce_now e\<rparr>
               in (upd (\<lambda>s. s\<lparr>st_sessions := st_sessions s @ [row], st_next_session := st_next_session s + 1\<rparr>) c, 0, Some row))"

declare session_insert.simps [simp del]

definition session_create :: "call_env \<Rightarrow> conn \<Rightarrow> string \<Rightarrow> string \<Rightarrow> conn \<times> rc \<times> session_row option" where
  "session_create e c name model =
     (case generate_display_id (ce_entropy e 0) of (rc, idb) \<Rightarrow>
        if rc < 0 then (c, rc, None)
        else session_insert e c (strncpy_fixed 256 name) (strncpy_fixed 64 model) 3 (str_of idb))"

definition rename_session :: "int \<Rightarrow> string \<Rightarrow> session_row \<Rightarrow> session_row" where
  "rename_session i d x = (if se_id x = i then x\<lparr>se_display_id := d\<rparr> else x)"

definition session_ensure_display_id :: "call_env \<Rightarrow> conn \<Rightarrow> session_row \<Rightarrow> conn \<times> rc \<times> session_row" where
  "session_ensure_display_id e c s =
     (if se_display_id s \<noteq> [] then (c, 0, s)
      else (case generate_display_id (ce_entropy e 4) of (rc, idb) \<Rightarrow>
        if rc < 0 then (c, rc, s)
        else
          let id_str = str_of idb
          in if \<not> ce_sql e 8 then (c, MORPH_ERR_DB, s)
             else if \<not> ce_sql e 9 \<or> (\<exists>x \<in> set (st_sessions (cx_db c)). se_id x \<noteq> se_id s \<and> se_display_id x = id_str)
             then (c, MORPH_ERR_DB, s)
             else (upd (\<lambda>t. t\<lparr>st_sessions := map (rename_session (se_id s) id_str) (st_sessions t)\<rparr>) c,
                   0, s\<lparr>se_display_id := id_str\<rparr>)))"

definition set_owner :: "string \<Rightarrow> string \<Rightarrow> store \<Rightarrow> store" where
  "set_owner session_id user_id s =
     s\<lparr>st_owner := filter (\<lambda>(k, v). k \<noteq> session_id) (st_owner s) @ [(session_id, user_id)]\<rparr>"

definition store_create_session :: "call_env \<Rightarrow> conn \<Rightarrow> string \<Rightarrow> string \<Rightarrow> string \<Rightarrow> conn \<times> rc \<times> string" where
  "store_create_session e c user_id name model =
     (case session_create e c name model of (c, rc, sess) \<Rightarrow>
        (case sess of
           None \<Rightarrow> (c, - EIO, [])
         | Some s \<Rightarrow>
             if rc \<noteq> 0 then (c, - EIO, [])
             else (case session_ensure_display_id e c s of (c, rc, s) \<Rightarrow>
               if rc \<noteq> 0 then (c, - EIO, [])
               else
                 let sid = snprintf_n 64 (se_display_id s)
                 in if \<not> ce_sql e 10 then (c, - EIO, sid)
                    else if \<not> ce_sql e 11 then (c, - EIO, sid)
                    else (upd (set_owner sid user_id) c, 0, sid))))"

definition store_session_owned_by :: "call_env \<Rightarrow> conn \<Rightarrow> string \<Rightarrow> string \<Rightarrow> bool" where
  "store_session_owned_by e c session_id user_id =
     (ce_sql e 0 \<and> ce_sql e 1 \<and> (session_id, user_id) \<in> set (st_owner (cx_db c)))"

text \<open>The text is collected in a byte buffer; the \<open>i\<close>-th append may run out of memory.\<close>

definition session_item :: "session_row \<Rightarrow> string" where
  "session_item s =
     ''{\"id\":\"'' @ se_display_id s @ ''\",\"name\":\"'' @ se_name s @ ''\",\"model\":\"'' @ se_model s @
     ''\",\"created_at\":'' @ show_int (se_created_at s) @ '',\"updated_at\":'' @ show_int (se_updated_at s) @ ''}''"

primrec join_comma :: "string list \<Rightarrow> string" where
  "join_comma [] = []"
| "join_comma (x # xs) = x @ concat (map (\<lambda>y. '','' @ y) xs)"

definition list_text :: "(nat \<Rightarrow> bool) \<Rightarrow> string \<Rightarrow> string list \<Rightarrow> rc + string" where
  "list_text mem opening items =
     (if \<forall>i \<in> set [0..<length items + 3]. mem i then Inr (opening @ join_comma items @ '']}'') else Inl (- ENOMEM))"

definition owned_sessions :: "store \<Rightarrow> string \<Rightarrow> session_row list" where
  "owned_sessions s user_id =
     concat (map (\<lambda>(sid, u). if u = user_id then filter (\<lambda>x. se_display_id x = sid) (st_sessions s) else []) (st_owner s))"

definition store_list_sessions_json :: "call_env \<Rightarrow> conn \<Rightarrow> string \<Rightarrow> rc + string" where
  "store_list_sessions_json e c user_id =
     (if \<not> ce_sql e 0 then Inl (- EIO)
      else list_text (ce_mem e) ''{\"items\":[''
             (map session_item (sort_key (\<lambda>s. - se_updated_at s) (owned_sessions (cx_db c) user_id))))"

definition session_get_by_display_id :: "bool \<Rightarrow> bool \<Rightarrow> store \<Rightarrow> string \<Rightarrow> rc + session_row" where
  "session_get_by_display_id prepared stepped s display_id =
     (if \<not> prepared then Inl MORPH_ERR_DB
      else if \<not> stepped then Inl (- ENOENT)
      else (case find (\<lambda>x. se_display_id x = display_id) (st_sessions s) of
          None \<Rightarrow> Inl (- ENOENT) | Some x \<Rightarrow> Inr x))"

text \<open>The row, the sessions of its sub-agents, and by \<open>ON DELETE CASCADE\<close> the tasks of either.\<close>

definition delete_session_rows :: "int \<Rightarrow> store \<Rightarrow> store" where
  "delete_session_rows i s =
     (let gone = i # map snd (filter (\<lambda>(p, ch). p = i) (st_tasks s))
      in s\<lparr>st_sessions := filter (\<lambda>x. se_id x \<notin> set gone) (st_sessions s),
           st_tasks := filter (\<lambda>(p, ch). p \<notin> set gone \<and> ch \<notin> set gone) (st_tasks s)\<rparr>)"

definition session_delete :: "bool \<Rightarrow> bool \<Rightarrow> conn \<Rightarrow> int \<Rightarrow> conn \<times> rc" where
  "session_delete prepared stepped c i =
     (if \<not> prepared then (c, MORPH_ERR_DB)
      else if \<not> stepped then (c, MORPH_ERR_DB)
      else (upd (delete_session_rows i) c, 0))"

definition del_tables :: "(string \<Rightarrow> store \<Rightarrow> store) list" where
  "del_tables =
    [\<lambda>sid s. s\<lparr>st_owner := filter (\<lambda>(k, v). k \<noteq> sid) (st_owner s)\<rparr>,
     \<lambda>sid s. s\<lparr>st_events := filter (\<lambda>x. ev_session_id x \<noteq> sid) (st_events s)\<rparr>,
     \<lambda>sid s. s\<lparr>st_actions := filter (\<lambda>x. ac_session_id x \<noteq> sid) (st_actions s)\<rparr>,
     \<lambda>sid s. s\<lparr>st_canvas := filter (\<lambda>x. cn_session_id x \<noteq> sid) (st_canvas s)\<rparr>,
     \<lambda>sid s. s\<lparr>st_artifacts := filter (\<lambda>x. ar_session_id x \<noteq> sid) (st_artifacts s)\<rparr>,
     \<lambda>sid s. s\<lparr>st_running := filter (\<lambda>x. rt_session_id x \<noteq> sid) (st_running s)\<rparr>]"

fun run_deletes :: "call_env \<Rightarrow> nat \<Rightarrow> (string \<Rightarrow> store \<Rightarrow> store) list \<Rightarrow> string \<Rightarrow> conn \<Rightarrow> conn \<times> bool" where
  "run_deletes e k [] sid c = (c, True)"
| "run_deletes e k (d # ds) sid c =
     (if \<not> ce_sql e k then (c, False)
      else if \<not> ce_sql e (k + 1) then (c, False)
      else run_deletes e (k + 2) ds sid (upd (d sid) c))"

definition store_delete_session :: "call_env \<Rightarrow> conn \<Rightarrow> string \<Rightarrow> string \<Rightarrow> conn \<times> rc" where
  "store_delete_session e c session_id user_id =
     (let c = sql_begin (ce_sql e 0) c
      in if \<not> ce_sql e 1 then (sql_rollback c, - EIO)
         else if \<not> ce_sql e 2 \<or> (session_id, user_id) \<notin> set (st_owner (cx_db c)) then (sql_rollback c, - ENOENT)
         else if \<not> ce_sql e 3 then (sql_rollback c, - EIO)
         else
           let running = (if ce_sql e 4 then length (filter (\<lambda>r. rt_session_id r = session_id) (st_running (cx_db c))) else 0)
           in if running > 0 then (sql_rollback c, - EAGAIN)
              else (case run_deletes e 5 del_tables session_id c of (c, ok) \<Rightarrow>
                if \<not> ok then (sql_rollback c, - EIO)
                else (case session_get_by_display_id (ce_sql e 17) (ce_sql e 18) (cx_db c) session_id of
                    Inl _ \<Rightarrow> (sql_rollback c, - EIO)
                  | Inr sess \<Rightarrow>
                      (case session_delete (ce_sql e 19) (ce_sql e 20) c (se_id sess) of (c, rc) \<Rightarrow>
                         if rc \<noteq> 0 then (sql_rollback c, - EIO)
                         else (sql_commit (ce_sql e 21) c, 0)))))"

section \<open>Events and actions\<close>

definition insert_event :: "int \<Rightarrow> string \<Rightarrow> string \<Rightarrow> string \<Rightarrow> store \<Rightarrow> store" where
  "insert_event now session_id type payload s =
     s\<lparr>st_events := st_events s @ [\<lparr>ev_id = st_next_event s, ev_session_id = session_id, ev_type = type,
                       ev_payload = payload, ev_ts = now\<rparr>],
       st_next_event := st_next_event s + 1\<rparr>"

definition events_publish :: "call_env \<Rightarrow> conn \<Rightarrow> string \<Rightarrow> string \<Rightarrow> string \<Rightarrow> conn \<times> rc" where
  "events_publish e c session_id type payload =
     (if \<not> ce_sql e 0 then (c, - EIO)
      else if \<not> ce_sql e 1 then (c, - EIO)
      else (upd (insert_event (ce_now e) session_id type payload) c, 0))"

text \<open>The result is 1 with the record, 0 when there is nothing new, or an error.  The copy of the payload may fail
  (\<open>None\<close>).\<close>

record event_record =
  er_id :: int
  er_type :: string
  er_payload :: "string option"

definition next_event :: "store \<Rightarrow> string \<Rightarrow> int \<Rightarrow> event_row option" where
  "next_event s session_id last_id =
     (case sort_key ev_id (filter (\<lambda>x. ev_session_id x = session_id \<and> ev_id x > last_id) (st_events s)) of
        [] \<Rightarrow> None | x # _ \<Rightarrow> Some x)"

definition events_fetch_after :: "call_env \<Rightarrow> conn \<Rightarrow> string \<Rightarrow> int \<Rightarrow> rc \<times> event_record option" where
  "events_fetch_after e c session_id last_id =
     (if \<not> ce_sql e 0 then (- EIO, None)
      else (case (if ce_sql e 1 then next_event (cx_db c) session_id last_id else None) of
          None \<Rightarrow> (0, None)
        | Some x \<Rightarrow> (1, Some \<lparr>er_id = ev_id x, er_type = snprintf_n 32 (ev_type x),
                             er_payload = (if ce_mem e 0 then Some (ev_payload x) else None)\<rparr>)))"

text \<open>\<open>c2\<close> and \<open>e2\<close> are the connection and the engine after the wait, in which other workers ran, and \<open>timed_out\<close>
  is its outcome.\<close>

definition events_wait_after ::
    "call_env \<Rightarrow> conn \<Rightarrow> bool \<Rightarrow> call_env \<Rightarrow> conn \<Rightarrow> string \<Rightarrow> int \<Rightarrow> rc \<times> event_record option" where
  "events_wait_after e c timed_out e2 c2 session_id last_id =
     (case events_fetch_after e c session_id last_id of (got, rec) \<Rightarrow>
        if got \<noteq> 0 then (got, rec)
        else if timed_out then (0, None)
        else events_fetch_after e2 c2 session_id last_id)"

definition actions_enqueue :: "call_env \<Rightarrow> conn \<Rightarrow> string \<Rightarrow> string \<Rightarrow> string \<Rightarrow> conn \<times> rc" where
  "actions_enqueue e c session_id type payload =
     (if \<not> ce_sql e 0 then (c, - EIO)
      else if \<not> ce_sql e 1 then (c, - EIO)
      else (upd (\<lambda>s. s\<lparr>st_actions := st_actions s @ [\<lparr>ac_id = st_next_action s, ac_session_id = session_id, ac_type = type,
                                       ac_payload = payload, ac_ts = ce_now e, ac_consumed = False\<rparr>],
                       st_next_action := st_next_action s + 1\<rparr>) c, 0))"

definition pending_actions :: "store \<Rightarrow> string \<Rightarrow> action_row list" where
  "pending_actions s session_id =
     sort_key ac_id (filter (\<lambda>x. ac_session_id x = session_id \<and> \<not> ac_consumed x) (st_actions s))"

definition consume :: "int \<Rightarrow> store \<Rightarrow> store" where
  "consume i s = s\<lparr>st_actions := map (\<lambda>x. if ac_id x = i then x\<lparr>ac_consumed := True\<rparr> else x) (st_actions s)\<rparr>"

record action_record =
  ad_id :: int
  ad_type :: string
  ad_payload :: "string option"

definition actions_drain_one :: "call_env \<Rightarrow> conn \<Rightarrow> string \<Rightarrow> conn \<times> action_record option" where
  "actions_drain_one e c session_id =
     (let c = sql_begin (ce_sql e 0) c
      in if \<not> ce_sql e 1 then (sql_rollback c, None)
         else (case (if ce_sql e 2 then pending_actions (cx_db c) session_id else []) of
             [] \<Rightarrow> (sql_commit (ce_sql e 5) c, None)
           | x # _ \<Rightarrow>
               let c = (if ce_sql e 3 \<and> ce_sql e 4 then upd (consume (ac_id x)) c else c)
               in (sql_commit (ce_sql e 5) c,
                   Some \<lparr>ad_id = ac_id x, ad_type = snprintf_n 32 (ac_type x),
                         ad_payload = (if ce_mem e 0 then Some (ac_payload x) else None)\<rparr>)))"

section \<open>The canvas\<close>

fun show_hex :: "nat \<Rightarrow> string" where
  "show_hex n = (if n < 16 then [hex_digits ! n] else show_hex (n div 16) @ [hex_digits ! (n mod 16)])"

definition mk_node_id :: "call_env \<Rightarrow> string" where
  "mk_node_id e = snprintf_n 40 (''n_'' @ show_hex (nat (ce_now e mod 2 ^ 64)) @ ''_'' @ show_hex (ce_rand e AND 0xffffff))"

definition canvas_item :: "canvas_node \<Rightarrow> string" where
  "canvas_item n =
     ''{\"id\":\"'' @ cn_id n @ ''\",\"parent\":null,\"kind\":\"node\",\"x\":0,\"y\":0,\"w\":0,\"h\":0,\"content_ref\":null,\"meta\":'' @
     (if cn_meta n \<noteq> [] then cn_meta n else ''null'') @ '',\"updated_at\":'' @ show_int (cn_updated_at n) @ ''}''"

definition canvas_list_json :: "call_env \<Rightarrow> conn \<Rightarrow> string \<Rightarrow> rc + string" where
  "canvas_list_json e c session_id =
     (if \<not> ce_sql e 0 then Inl (- EIO)
      else list_text (ce_mem e) ''{\"nodes\":[''
             (map canvas_item (sort_key cn_updated_at (filter (\<lambda>n. cn_session_id n = session_id) (st_canvas (cx_db c))))))"

definition canvas_add_node :: "call_env \<Rightarrow> conn \<Rightarrow> string \<Rightarrow> string \<Rightarrow> conn \<times> rc \<times> string" where
  "canvas_add_node e c session_id node_json =
     (let id = mk_node_id e
      in if \<not> ce_sql e 0 then (c, - EIO, id)
         else if \<not> ce_sql e 1 \<or> (\<exists>n \<in> set (st_canvas (cx_db c)). cn_id n = id) then (c, - EIO, id)
         else (upd (\<lambda>s. s\<lparr>st_canvas := st_canvas s @ [\<lparr>cn_id = id, cn_session_id = session_id, cn_meta = node_json,
                                        cn_created_at = ce_now e, cn_updated_at = ce_now e\<rparr>]\<rparr>) c, 0, id))"

definition canvas_patch_node :: "call_env \<Rightarrow> conn \<Rightarrow> string \<Rightarrow> string \<Rightarrow> string \<Rightarrow> conn \<times> rc" where
  "canvas_patch_node e c session_id node_id patch_json =
     (if \<not> ce_sql e 0 then (c, - EIO)
      else if \<not> ce_sql e 1 then (c, - EIO)
      else
        let hit = (\<lambda>n. cn_id n = node_id \<and> cn_session_id n = session_id)
        in (upd (\<lambda>s. s\<lparr>st_canvas := map (\<lambda>n. if hit n then n\<lparr>cn_meta := patch_json, cn_updated_at := ce_now e\<rparr> else n) (st_canvas s)\<rparr>) c,
            if \<exists>n \<in> set (st_canvas (cx_db c)). hit n then 0 else - ENOENT))"

end
