(* ===== verification/Fcgi.thy ===== *)
theory Fcgi
  imports Fcgi_Store
begin

text \<open>
  The web front end (\<open>src/sapi/fastcgi\<close>): requests and replies (\<open>fcgi_io.c\<close>), login tokens
  (\<open>session_store.c\<close>), the token cache and \<open>auth_check\<close> (\<open>auth.c\<close>), the routes (\<open>router.c\<close>), the endpoints
  (\<open>handlers/*.c\<close>) and the construction of a request (\<open>main.c\<close>).

  A handler takes the server's state and the request and gives the new state and the reply.  Outside code is a
  parameter, collected in \<open>handler_env\<close>: the store calls of a request meet \<open>he_call 0\<close>, \<open>he_call 1\<close>, ... in
  order; \<open>he_parse\<close> and \<open>he_print\<close> are \<open>cJSON_Parse\<close> and \<open>cJSON_PrintUnformatted\<close>; files, clock and allocator
  answer as given.  The work of a turn runs in a thread of its own (\<open>turn_thread\<close>); here the job is handed over
  (\<open>sv_jobs\<close>).  The quota and health reports only read, and are the parameter \<open>he_report\<close>.
\<close>

section \<open>Requests and replies\<close>

definition FCGI_MAX_BODY_BYTES :: int where "FCGI_MAX_BODY_BYTES = 4 * 1024 * 1024"
definition FCGI_MAX_PATH_PARAMS :: nat where "FCGI_MAX_PATH_PARAMS = 4"

record request =
  rq_method :: "string option"
  rq_path :: "string option"
  rq_auth_hdr :: "string option"
  rq_trust_user :: "string option"
  rq_last_event_id :: "string option"
  rq_content_length :: int
  rq_input :: string
  rq_params :: "(string \<times> string) list"
  rq_user_id :: string
  rq_username :: string
  rq_role :: string

datatype sse_item = SseEvent int string string | SseHeartbeat int

datatype reply =
    Reply (status: string) (body: string)
  | FileReply (mime: string) (filename: string) (content: string)
  | EventStream "sse_item list"

definition fcgi_read_body :: "bool \<Rightarrow> request \<Rightarrow> rc + string" where
  "fcgi_read_body mem r =
     (if rq_content_length r \<le> 0 then (if mem then Inr [] else Inl (- ENOMEM))
      else if rq_content_length r > FCGI_MAX_BODY_BYTES then Inl (- EFBIG)
      else if \<not> mem then Inl (- ENOMEM)
      else
        let buf = take (nat (rq_content_length r)) (rq_input r)
        in if int (length buf) \<noteq> rq_content_length r then Inl (- EIO) else Inr (cstr buf))"

definition path_param :: "request \<Rightarrow> string \<Rightarrow> string option" where
  "path_param r key = map_option snd (find (\<lambda>p. fst p = key) (rq_params r))"

definition status_text :: "int \<Rightarrow> string" where
  "status_text code =
     (if code = 200 then ''200 OK''
      else if code = 201 then ''201 Created''
      else if code = 202 then ''202 Accepted''
      else if code = 204 then ''204 No Content''
      else if code = 400 then ''400 Bad Request''
      else if code = 401 then ''401 Unauthorized''
      else if code = 403 then ''403 Forbidden''
      else if code = 404 then ''404 Not Found''
      else if code = 409 then ''409 Conflict''
      else if code = 429 then ''429 Too Many Requests''
      else ''500 Internal Server Error'')"

definition reply_json :: "int \<Rightarrow> string \<Rightarrow> reply" where
  "reply_json code text = Reply (status_text code) text"

definition reply_204 :: reply where
  "reply_204 = Reply ''204 No Content'' []"

definition reply_400 :: "string \<Rightarrow> reply" where
  "reply_400 msg = reply_json 400 (snprintf_n 256 (''{\"error\":\"bad_request\",\"message\":\"'' @ msg @ ''\"}''))"

definition reply_401 :: reply where
  "reply_401 = reply_json 401 ''{\"error\":\"unauthorized\"}''"

definition reply_403 :: reply where
  "reply_403 = reply_json 403 ''{\"error\":\"forbidden\"}''"

definition reply_404 :: reply where
  "reply_404 = reply_json 404 ''{\"error\":\"not_found\"}''"

definition reply_500 :: "string \<Rightarrow> reply" where
  "reply_500 msg = reply_json 500 (snprintf_n 256 (''{\"error\":\"internal\",\"message\":\"'' @ msg @ ''\"}''))"

section \<open>The server\<close>

record token_entry =
  te_token :: string
  te_user_id :: string
  te_username :: string
  te_role :: string
  te_expires_at :: int

record turn_job =
  tj_session_id :: string
  tj_user_id :: string
  tj_turn_id :: string
  tj_input :: string

text \<open>\<open>sv_files\<close> are the login token files by path, \<open>sv_cache\<close> the buckets of the token cache.\<close>

record server =
  sv_conn :: conn
  sv_files :: "string \<rightharpoonup> string"
  sv_cache :: "token_entry list list"
  sv_trust_hdr :: string
  sv_jobs :: "turn_job list"

text \<open>One pass of the loop over the event stream: whether the lifetime is over, the store at the first look, the
  wait, the store after it, the time of a heartbeat and whether the output could be flushed.\<close>

record sse_round =
  sr_expired :: bool
  sr_env1 :: call_env
  sr_conn1 :: conn
  sr_timed_out :: bool
  sr_env2 :: call_env
  sr_conn2 :: conn
  sr_now :: int
  sr_flushed :: bool

datatype handler =
    handle_health | handle_install | handle_signup | handle_login | handle_logout | handle_me_quota
  | handle_create_session | handle_list_sessions | handle_get_session | handle_delete_session
  | handle_post_turn | handle_get_canvas | handle_add_canvas_node | handle_patch_canvas_node
  | handle_post_action | handle_sse | handle_list_artifacts | handle_artifact_meta | handle_get_artifact

record handler_env =
  he_call :: "nat \<Rightarrow> call_env"
  he_parse :: "string \<Rightarrow> int json option"
  he_print :: "int json \<Rightarrow> string option"
  he_now :: "nat \<Rightarrow> int"
  he_mem :: "nat \<Rightarrow> bool"
  he_getenv :: "string \<Rightarrow> string option"
  he_sess_dir :: rc
  he_token_entropy :: entropy
  he_token_open :: "int option"
  he_bridge_turn_begin :: bool
  he_thread :: bool
  he_artifact_root :: string
  he_realpath :: realpath_fn
  he_regular :: "string \<Rightarrow> bool"
  he_open :: "string \<Rightarrow> string option"
  he_first_flush :: bool
  he_rounds :: "sse_round list"
  he_report :: "handler \<Rightarrow> conn \<Rightarrow> request \<Rightarrow> reply"

section \<open>Login tokens\<close>

definition file_path_append :: "nat \<Rightarrow> string \<Rightarrow> string \<Rightarrow> rc + string" where
  "file_path_append dst_size dst suffix =
     (if dst_size = 0 then Inl (- EINVAL)
      else if length dst > SIZE_MAX - length suffix then Inl (- ENAMETOOLONG)
      else
        let total = length dst + length suffix
        in if total = SIZE_MAX \<or> total + 1 > dst_size then Inl (- ENAMETOOLONG) else Inr (dst @ suffix))"

definition file_path_join_append :: "nat \<Rightarrow> string \<Rightarrow> string \<Rightarrow> string \<Rightarrow> rc + string" where
  "file_path_join_append dst_size dir name suffix =
     (case file_path_join dst_size dir name of Inl rc \<Rightarrow> Inl rc | Inr dst \<Rightarrow> file_path_append dst_size dst suffix)"

definition SESS_DIR :: string where "SESS_DIR = ''/tmp/morph-sess''"
definition SESS_TOKEN_TTL_HOURS :: int where "SESS_TOKEN_TTL_HOURS = 24"

definition token_json :: "string \<Rightarrow> string \<Rightarrow> string \<Rightarrow> int \<Rightarrow> int json" where
  "token_json user_id username role expires = cJSON_Object
     [(''user_id'', cJSON_String user_id), (''username'', cJSON_String username), (''role'', cJSON_String role),
      (''expires_at'', cJSON_Number expires)]"

text \<open>\<open>fopen(path, "wx")\<close> refuses a file that exists; another failure is \<open>he_token_open\<close>.\<close>

definition login_token_create ::
    "handler_env \<Rightarrow> server \<Rightarrow> int \<Rightarrow> string \<Rightarrow> string \<Rightarrow> string \<Rightarrow> int \<Rightarrow> server \<times> rc \<times> string" where
  "login_token_create he sv now user_id username role ttl_hours =
     (let expires = now + (if ttl_hours > 0 then ttl_hours else SESS_TOKEN_TTL_HOURS) * 3600
      in if he_sess_dir he < 0 then (sv, he_sess_dir he, [])
         else (case fcgi_random_id (he_token_entropy he) ''sess_'' 64 of (rc, idb) \<Rightarrow>
           if rc < 0 then (sv, rc, [])
           else
             let token = str_of idb
             in (case he_print he (token_json user_id username role expires) of
                 None \<Rightarrow> (sv, - ENOMEM, [])
               | Some json \<Rightarrow>
                   (case file_path_join_append PATH_MAX SESS_DIR token ''.json'' of
                      Inl _ \<Rightarrow> (sv, - ENAMETOOLONG, [])
                    | Inr path \<Rightarrow>
                        if sv_files sv path \<noteq> None then (sv, - EEXIST, [])
                        else (case he_token_open he of
                            Some err \<Rightarrow> (sv, - err, [])
                          | None \<Rightarrow> (sv\<lparr>sv_files := (sv_files sv)(path \<mapsto> json)\<rparr>, 0, snprintf_n 64 token))))))"

text \<open>A name with a slash or two dots in a row is no token.  A missing or non-numeric expiry is the value the
  compiled cast of NaN has, the least 64-bit integer.\<close>

fun has_dotdot :: "string \<Rightarrow> bool" where
  "has_dotdot (a # b # s) = (a = CHR ''.'' \<and> b = CHR ''.'' \<or> has_dotdot (b # s))"
| "has_dotdot _ = False"

definition json_expiry :: "int json option \<Rightarrow> int" where
  "json_expiry j = (case cJSON_GetObjectItem j ''expires_at'' of Some (cJSON_Number n) \<Rightarrow> n | _ \<Rightarrow> - (2 ^ 63))"

definition login_token_verify ::
    "handler_env \<Rightarrow> server \<Rightarrow> int \<Rightarrow> string \<Rightarrow> server \<times> (string \<times> string \<times> string) option" where
  "login_token_verify he sv now token =
     (if token = [] then (sv, None)
      else if CHR ''/'' \<in> set token \<or> has_dotdot token then (sv, None)
      else (case file_path_join_append PATH_MAX SESS_DIR token ''.json'' of
          Inl _ \<Rightarrow> (sv, None)
        | Inr path \<Rightarrow>
            (case sv_files sv path of
               None \<Rightarrow> (sv, None)
             | Some text \<Rightarrow>
                 let buf = take 1023 text
                 in if buf = [] then (sv, None)
                    else (case he_parse he (cstr buf) of
                        None \<Rightarrow> (sv, None)
                      | Some obj \<Rightarrow>
                          let field = (\<lambda>name n. snprintf_n n (str_of (cJSON_GetStringValue (cJSON_GetObjectItem (Some obj) name))))
                          in if json_expiry (Some obj) > now
                             then (sv, Some (field ''user_id'' 64, field ''username'' 64, field ''role'' 24))
                             else (sv\<lparr>sv_files := (sv_files sv)(path := None)\<rparr>, None)))))"

definition login_token_revoke :: "server \<Rightarrow> string \<Rightarrow> server" where
  "login_token_revoke sv token =
     (if token = [] then sv
      else if CHR ''/'' \<in> set token \<or> has_dotdot token then sv
      else (case file_path_join_append PATH_MAX SESS_DIR token ''.json'' of
          Inl _ \<Rightarrow> sv
        | Inr path \<Rightarrow> sv\<lparr>sv_files := (sv_files sv)(path := None)\<rparr>))"

section \<open>The token cache\<close>

definition TOKEN_CACHE_SIZE :: nat where "TOKEN_CACHE_SIZE = 256"

definition token_hash :: "string \<Rightarrow> uint32" where
  "token_hash s = foldl (\<lambda>h c. h * 33 + word_of_nat (of_char c)) 5381 s"

definition token_idx :: "string \<Rightarrow> nat" where
  "token_idx tok = unat (token_hash tok) mod TOKEN_CACHE_SIZE"

definition cache_get :: "token_entry list list \<Rightarrow> string \<Rightarrow> token_entry option" where
  "cache_get cache tok = find (\<lambda>e. te_token e = tok) (cache ! token_idx tok)"

fun bucket_update :: "string \<Rightarrow> (token_entry \<Rightarrow> token_entry) \<Rightarrow> token_entry list \<Rightarrow> token_entry list option" where
  "bucket_update token f [] = None"
| "bucket_update token f (e # es) =
     (if te_token e = token then Some (f e # es) else map_option ((#) e) (bucket_update token f es))"

definition cache_put ::
    "bool \<Rightarrow> token_entry list list \<Rightarrow> string \<Rightarrow> string \<Rightarrow> string \<Rightarrow> string \<Rightarrow> int \<Rightarrow> token_entry list list" where
  "cache_put mem cache token user_id username role expires_at =
     (let idx = token_idx token;
          fill = (\<lambda>e. e\<lparr>te_user_id := snprintf_n 64 user_id, te_username := snprintf_n 64 username,
                        te_role := snprintf_n 24 role, te_expires_at := expires_at\<rparr>)
      in (case bucket_update token fill (cache ! idx) of
          Some b \<Rightarrow> cache[idx := b]
        | None \<Rightarrow>
            if \<not> mem then cache
            else cache[idx := fill \<lparr>te_token = snprintf_n 64 token, te_user_id = [], te_username = [], te_role = [],
                                    te_expires_at = 0\<rparr> # cache ! idx]))"

fun bucket_delete :: "string \<Rightarrow> token_entry list \<Rightarrow> token_entry list" where
  "bucket_delete tok [] = []"
| "bucket_delete tok (e # es) = (if te_token e = tok then es else e # bucket_delete tok es)"

definition cache_del :: "token_entry list list \<Rightarrow> string \<Rightarrow> token_entry list list" where
  "cache_del cache tok = cache[token_idx tok := bucket_delete tok (cache ! token_idx tok)]"

definition auth_init :: "string option \<Rightarrow> server \<Rightarrow> server" where
  "auth_init trust_header sv = sv\<lparr>sv_trust_hdr := snprintf_n 64 (str_of trust_header)\<rparr>"

definition auth_token_created :: "bool \<Rightarrow> server \<Rightarrow> string \<Rightarrow> string \<Rightarrow> string \<Rightarrow> string \<Rightarrow> int \<Rightarrow> server" where
  "auth_token_created mem sv token user_id username role expires_at =
     sv\<lparr>sv_cache := cache_put mem (sv_cache sv) token user_id username role expires_at\<rparr>"

definition auth_token_revoked :: "server \<Rightarrow> string \<Rightarrow> server" where
  "auth_token_revoked sv token = sv\<lparr>sv_cache := cache_del (sv_cache sv) token\<rparr>"

text \<open>The scan for the expiry in the file's text: \<open>strstr\<close>, \<open>strchr\<close> and \<open>strtoll\<close>.\<close>

fun after_substring :: "string \<Rightarrow> string \<Rightarrow> string option" where
  "after_substring needle s =
     (if take (length needle) s = needle then Some (drop (length needle) s)
      else (case s of [] \<Rightarrow> None | _ # s' \<Rightarrow> after_substring needle s'))"

declare after_substring.simps [simp del]

definition scan_expiry :: "string \<Rightarrow> int" where
  "scan_expiry text =
     (case after_substring ''\"expires_at\"'' text of
        None \<Rightarrow> 0
      | Some p \<Rightarrow> (case dropWhile (\<lambda>c. c \<noteq> CHR '':'') p of [] \<Rightarrow> 0 | _ # q \<Rightarrow> c_strtol q))"

definition set_identity :: "request \<Rightarrow> string \<Rightarrow> string \<Rightarrow> string \<Rightarrow> request" where
  "set_identity r user_id username role =
     r\<lparr>rq_user_id := snprintf_n 64 user_id, rq_username := snprintf_n 64 username, rq_role := snprintf_n 24 role\<rparr>"

definition bearer_token :: "request \<Rightarrow> string option" where
  "bearer_token r =
     (case rq_auth_hdr r of
        Some h \<Rightarrow> if take 7 h = ''Bearer '' then Some (drop 7 h) else None
      | None \<Rightarrow> None)"

text \<open>\<open>auth_check\<close> in three parts: the trusted header, a \<open>Basic\<close> header, a \<open>Bearer\<close> token (in the cache, then
  in its file).\<close>

definition auth_token_file :: "handler_env \<Rightarrow> server \<Rightarrow> request \<Rightarrow> string \<Rightarrow> server \<times> request \<times> bool" where
  "auth_token_file he sv r tok =
     (case login_token_verify he sv (he_now he 1) tok of
        (sv, None) \<Rightarrow> (sv, r, False)
      | (sv, Some (uid, uname, urole)) \<Rightarrow>
          (case file_path_join_append 512 SESS_DIR tok ''.json'' of
             Inl _ \<Rightarrow> (sv, r, True)
           | Inr path \<Rightarrow>
               let expires = (case sv_files sv path of None \<Rightarrow> 0 | Some text \<Rightarrow> scan_expiry (cstr (take 1023 text)))
               in (sv\<lparr>sv_cache := cache_put (he_mem he 0) (sv_cache sv) tok uid uname urole expires\<rparr>,
                   set_identity r uid uname urole, True)))"

definition auth_bearer :: "handler_env \<Rightarrow> server \<Rightarrow> request \<Rightarrow> server \<times> request \<times> bool" where
  "auth_bearer he sv r =
     (case bearer_token r of
        None \<Rightarrow> (sv, r, False)
      | Some tok \<Rightarrow>
          (case cache_get (sv_cache sv) tok of
             Some e \<Rightarrow>
               if te_expires_at e > he_now he 0 then (sv, set_identity r (te_user_id e) (te_username e) (te_role e), True)
               else auth_token_file he sv r tok
           | None \<Rightarrow> auth_token_file he sv r tok))"

definition auth_check :: "handler_env \<Rightarrow> server \<Rightarrow> request \<Rightarrow> server \<times> request \<times> bool" where
  "auth_check he sv r =
     (if sv_trust_hdr sv \<noteq> [] \<and> rq_trust_user r \<noteq> None \<and> rq_trust_user r \<noteq> Some []
      then (sv, set_identity r (str_of (rq_trust_user r)) (str_of (rq_trust_user r)) ''user'', True)
      else (case (case fcgi_basic_decode (rq_auth_hdr r) 128 256 of
                    None \<Rightarrow> None
                  | Some (username, password) \<Rightarrow> store_verify_user (he_call he 1) (sv_conn sv) username password) of
          Some u \<Rightarrow> (sv, set_identity r (fu_user_id u) (fu_username u) (fu_role u), True)
        | None \<Rightarrow> auth_bearer he sv r))"

section \<open>Users\<close>

definition user_created_json :: "handler_env \<Rightarrow> string \<Rightarrow> string \<Rightarrow> string \<Rightarrow> string option" where
  "user_created_json he user_id username role = he_print he (cJSON_Object
     [(''user_id'', cJSON_String user_id), (''username'', cJSON_String username), (''role'', cJSON_String role)])"

text \<open>The user name, the password and the signup code of the body.\<close>

definition read_user_password :: "handler_env \<Rightarrow> request \<Rightarrow> rc + string \<times> string \<times> string option" where
  "read_user_password he r =
     (case fcgi_read_body (he_mem he 1) r of
        Inl _ \<Rightarrow> Inl (- EFBIG)
      | Inr text \<Rightarrow>
          let root = he_parse he text
          in if \<not> cJSON_IsObject root then Inl (- EINVAL)
             else (case (cJSON_GetStringValue (cJSON_GetObjectItem root ''username''),
                         cJSON_GetStringValue (cJSON_GetObjectItem root ''password'')) of
                 (Some u, Some p) \<Rightarrow> Inr (u, p, cJSON_GetStringValue (cJSON_GetObjectItem root ''signup_code''))
               | _ \<Rightarrow> Inl (- EINVAL)))"

text \<open>The end both endpoints share: the new account, and the reply to each outcome.\<close>

definition create_account :: "handler_env \<Rightarrow> server \<Rightarrow> string \<Rightarrow> string \<Rightarrow> string \<Rightarrow> string \<Rightarrow> server \<times> reply" where
  "create_account he sv username password role failure =
     (case store_create_user (he_call he 3) (sv_conn sv) username password role of (c, rc, user_id) \<Rightarrow>
        let sv = sv\<lparr>sv_conn := c\<rparr>
        in if rc = - EEXIST then (sv, reply_json 409 ''{\"error\":\"user_exists\"}'')
           else if rc = - EINVAL then (sv, reply_400 ''invalid username or password'')
           else if rc \<noteq> 0 then (sv, reply_500 failure)
           else (case user_created_json he user_id (snprintf_n 64 username) role of
               None \<Rightarrow> (sv, reply_500 ''oom'')
             | Some json \<Rightarrow> (sv, reply_json 201 json)))"

definition bad_body :: "rc \<Rightarrow> reply" where
  "bad_body rc = reply_400 (if rc = - EFBIG then ''body too large'' else ''invalid json'')"

definition run_install :: "handler_env \<Rightarrow> server \<Rightarrow> request \<Rightarrow> server \<times> reply" where
  "run_install he sv r =
     (if \<not> store_setup_required (he_call he 2) (sv_conn sv) then (sv, reply_json 409 ''{\"error\":\"already_installed\"}'')
      else (case read_user_password he r of
          Inl rc \<Rightarrow> (sv, bad_body rc)
        | Inr (username, password, _) \<Rightarrow> create_account he sv username password ''admin'' ''install failed''))"

definition run_signup :: "handler_env \<Rightarrow> server \<Rightarrow> request \<Rightarrow> server \<times> reply" where
  "run_signup he sv r =
     (if store_setup_required (he_call he 2) (sv_conn sv) then (sv, reply_json 403 ''{\"error\":\"setup_required\"}'')
      else if he_getenv he ''MORPH_FCGI_ALLOW_SIGNUP'' \<noteq> Some ''1'' then (sv, reply_json 403 ''{\"error\":\"signup_disabled\"}'')
      else (case read_user_password he r of
          Inl rc \<Rightarrow> (sv, bad_body rc)
        | Inr (username, password, signup_code) \<Rightarrow>
            (case he_getenv he ''MORPH_FCGI_SIGNUP_CODE'' of
               Some code \<Rightarrow>
                 if code \<noteq> [] \<and> signup_code \<noteq> Some code then (sv, reply_json 403 ''{\"error\":\"invalid_signup_code\"}'')
                 else create_account he sv username password ''user'' ''signup failed''
             | None \<Rightarrow> create_account he sv username password ''user'' ''signup failed'')))"

definition run_login :: "handler_env \<Rightarrow> server \<Rightarrow> request \<Rightarrow> server \<times> reply" where
  "run_login he sv r =
     (case fcgi_basic_decode (rq_auth_hdr r) 128 256 of
        None \<Rightarrow> (sv, reply_401)
      | Some (username, password) \<Rightarrow>
          (case store_verify_user (he_call he 2) (sv_conn sv) username password of
             None \<Rightarrow> (sv, reply_401)
           | Some u \<Rightarrow>
               (case login_token_create he sv (he_now he 2) (fu_user_id u) (fu_username u) (fu_role u) 24 of (sv, rc, token) \<Rightarrow>
                  if rc \<noteq> 0 then (sv, reply_500 ''token create failed'')
                  else
                    let expires = he_now he 3 + 24 * 3600;
                        sv = auth_token_created (he_mem he 0) sv token (fu_user_id u) (fu_username u) (fu_role u) expires
                    in (case he_print he (cJSON_Object
                           [(''token'', cJSON_String token), (''user_id'', cJSON_String (fu_user_id u)),
                            (''username'', cJSON_String (fu_username u)), (''role'', cJSON_String (fu_role u)),
                            (''expires_at'', cJSON_Number expires)]) of
                        None \<Rightarrow> (sv, reply_500 ''oom'')
                      | Some json \<Rightarrow> (sv, reply_json 200 json)))))"

definition run_logout :: "handler_env \<Rightarrow> server \<Rightarrow> request \<Rightarrow> server \<times> reply" where
  "run_logout he sv r =
     (case bearer_token r of
        None \<Rightarrow> (sv, reply_204)
      | Some tok \<Rightarrow> (login_token_revoke (auth_token_revoked sv tok) tok, reply_204))"

section \<open>Sessions\<close>

text \<open>Most endpoints are about one session of the caller: its identifier comes from the path, and a session of somebody
  else is refused.\<close>

definition with_session :: "handler_env \<Rightarrow> server \<Rightarrow> request \<Rightarrow> (string \<Rightarrow> server \<times> reply) \<Rightarrow> server \<times> reply" where
  "with_session he sv r k =
     (case path_param r ''id'' of
        None \<Rightarrow> (sv, reply_400 ''missing id'')
      | Some sid \<Rightarrow>
          if \<not> store_session_owned_by (he_call he 2) (sv_conn sv) sid (rq_user_id r) then (sv, reply_403) else k sid)"

definition string_member :: "int json option \<Rightarrow> string \<Rightarrow> string \<Rightarrow> string" where
  "string_member root name dflt =
     (if cJSON_IsObject root
      then (case cJSON_GetStringValue (cJSON_GetObjectItem root name) of None \<Rightarrow> dflt | Some s \<Rightarrow> s) else dflt)"

definition run_create_session :: "handler_env \<Rightarrow> server \<Rightarrow> request \<Rightarrow> server \<times> reply" where
  "run_create_session he sv r =
     (case fcgi_read_body (he_mem he 1) r of
        Inl _ \<Rightarrow> (sv, reply_400 ''body too large'')
      | Inr text \<Rightarrow>
          let root = he_parse he text;
              name = string_member root ''name'' ''untitled'';
              model = string_member root ''model'' ''default''
          in (case store_create_session (he_call he 3) (sv_conn sv) (rq_user_id r) name model of (c, rc, sid) \<Rightarrow>
               if rc \<noteq> 0 then (sv\<lparr>sv_conn := c\<rparr>, reply_500 ''create failed'')
               else (sv\<lparr>sv_conn := c\<rparr>, reply_json 201 (snprintf_n 256 (''{\"id\":\"'' @ sid @ ''\"}'')))))"

definition run_list_sessions :: "handler_env \<Rightarrow> server \<Rightarrow> request \<Rightarrow> server \<times> reply" where
  "run_list_sessions he sv r =
     (case store_list_sessions_json (he_call he 2) (sv_conn sv) (rq_user_id r) of
        Inl _ \<Rightarrow> (sv, reply_500 ''list failed'')
      | Inr json \<Rightarrow> (sv, reply_json 200 json))"

definition run_get_session :: "handler_env \<Rightarrow> server \<Rightarrow> request \<Rightarrow> server \<times> reply" where
  "run_get_session he sv r =
     with_session he sv r (\<lambda>sid. (sv, reply_json 200 (snprintf_n 256 (''{\"id\":\"'' @ sid @ ''\"}''))))"

definition run_delete_session :: "handler_env \<Rightarrow> server \<Rightarrow> request \<Rightarrow> server \<times> reply" where
  "run_delete_session he sv r =
     with_session he sv r (\<lambda>sid.
       (case store_delete_session (he_call he 3) (sv_conn sv) sid (rq_user_id r) of (c, rc) \<Rightarrow>
          let sv = sv\<lparr>sv_conn := c\<rparr>
          in if rc = - EAGAIN then (sv, reply_json 409 ''{\"error\":\"turn_in_progress\"}'')
             else if rc \<noteq> 0 then (sv, reply_500 ''delete failed'')
             else (sv, reply_204)))"

definition run_post_turn :: "handler_env \<Rightarrow> server \<Rightarrow> request \<Rightarrow> server \<times> reply" where
  "run_post_turn he sv r =
     with_session he sv r (\<lambda>sid.
       (case fcgi_read_body (he_mem he 1) r of
          Inl _ \<Rightarrow> (sv, reply_400 ''body too large'')
        | Inr text \<Rightarrow>
            let input = string_member (he_parse he text) ''prompt'' []
            in if \<not> he_mem he 2 then (sv, reply_500 ''oom'')
               else (case store_quota_begin_turn (he_call he 3) (sv_conn sv) (rq_user_id r) sid of (c, qrc, turn_id) \<Rightarrow>
                 let sv = sv\<lparr>sv_conn := c\<rparr>;
                     undo = sv\<lparr>sv_conn := store_quota_end_turn (he_call he 4) c turn_id\<rparr>
                 in if qrc = - EDQUOT then (sv, reply_json 429 ''{\"error\":\"quota_exceeded\",\"resource\":\"turns\"}'')
                    else if qrc = - EAGAIN then (sv, reply_json 429 ''{\"error\":\"quota_exceeded\",\"resource\":\"concurrent_turns\"}'')
                    else if qrc \<noteq> 0 then (sv, reply_500 ''quota failed'')
                    else if \<not> he_mem he 3 then (undo, reply_500 ''oom'')
                    else if \<not> he_bridge_turn_begin he then (undo, reply_json 503 ''{\"error\":\"shutting_down\"}'')
                    else if \<not> he_thread he then (undo, reply_500 ''thread spawn'')
                    else (sv\<lparr>sv_jobs := sv_jobs sv @ [\<lparr>tj_session_id = snprintf_n 64 sid, tj_user_id = snprintf_n 64 (rq_user_id r),
                             tj_turn_id = turn_id, tj_input = input\<rparr>]\<rparr>, reply_json 202 ''{\"accepted\":true}''))))"

section \<open>Canvas and actions\<close>

definition run_get_canvas :: "handler_env \<Rightarrow> server \<Rightarrow> request \<Rightarrow> server \<times> reply" where
  "run_get_canvas he sv r =
     with_session he sv r (\<lambda>sid.
       (case canvas_list_json (he_call he 3) (sv_conn sv) sid of
          Inl _ \<Rightarrow> (sv, reply_500 ''list failed'')
        | Inr json \<Rightarrow> (sv, reply_json 200 json)))"

definition run_add_canvas_node :: "handler_env \<Rightarrow> server \<Rightarrow> request \<Rightarrow> server \<times> reply" where
  "run_add_canvas_node he sv r =
     with_session he sv r (\<lambda>sid.
       (case fcgi_read_body (he_mem he 1) r of
          Inl _ \<Rightarrow> (sv, reply_400 ''body too large'')
        | Inr text \<Rightarrow>
            (case canvas_add_node (he_call he 3) (sv_conn sv) sid text of (c, rc, node_id) \<Rightarrow>
               if rc \<noteq> 0 then (sv\<lparr>sv_conn := c\<rparr>, reply_500 ''add node'')
               else
                 let c = fst (events_publish (he_call he 4) c sid ''canvas_node_added''
                                (snprintf_n 128 (''{\"node_id\":\"'' @ node_id @ ''\"}'')))
                 in (sv\<lparr>sv_conn := c\<rparr>, reply_json 201 (snprintf_n 128 (''{\"id\":\"'' @ node_id @ ''\"}''))))))"

definition run_patch_canvas_node :: "handler_env \<Rightarrow> server \<Rightarrow> request \<Rightarrow> server \<times> reply" where
  "run_patch_canvas_node he sv r =
     (case path_param r ''node'' of
        None \<Rightarrow> (sv, reply_400 ''missing id'')
      | Some node \<Rightarrow>
          with_session he sv r (\<lambda>sid.
            (case fcgi_read_body (he_mem he 1) r of
               Inl _ \<Rightarrow> (sv, reply_400 ''body too large'')
             | Inr text \<Rightarrow>
                 (case canvas_patch_node (he_call he 3) (sv_conn sv) sid node text of (c, rc) \<Rightarrow>
                    if rc \<noteq> 0 then (sv\<lparr>sv_conn := c\<rparr>, reply_404)
                    else
                      let c = fst (events_publish (he_call he 4) c sid ''canvas_node_patched''
                                     (snprintf_n 128 (''{\"node_id\":\"'' @ node @ ''\"}'')))
                      in (sv\<lparr>sv_conn := c\<rparr>, reply_204)))))"

definition run_post_action :: "handler_env \<Rightarrow> server \<Rightarrow> request \<Rightarrow> server \<times> reply" where
  "run_post_action he sv r =
     with_session he sv r (\<lambda>sid.
       (case fcgi_read_body (he_mem he 1) r of
          Inl _ \<Rightarrow> (sv, reply_400 ''body too large'')
        | Inr text \<Rightarrow>
            let root = he_parse he text
            in if \<not> cJSON_IsObject root then (sv, reply_400 ''invalid json'')
               else
                 let type = str_of (cJSON_GetStringValue (cJSON_GetObjectItem root ''type''));
                     payload = (case cJSON_GetObjectItem root ''payload'' of
                                  None \<Rightarrow> if he_mem he 2 then Some ''{}'' else None
                                | Some p \<Rightarrow> he_print he p)
                 in if type = [] then (sv, reply_400 ''missing type'')
                    else (case actions_enqueue (he_call he 3) (sv_conn sv) sid type
                                 (case payload of None \<Rightarrow> ''{}'' | Some p \<Rightarrow> p) of (c, rc) \<Rightarrow>
                      if rc \<noteq> 0 then (sv\<lparr>sv_conn := c\<rparr>, reply_500 ''enqueue failed'')
                      else (sv\<lparr>sv_conn := c\<rparr>, reply_json 202 ''{\"queued\":true}''))))"

section \<open>The event stream\<close>

fun sse_loop :: "string \<Rightarrow> int \<Rightarrow> sse_round list \<Rightarrow> sse_item list" where
  "sse_loop sid last_id [] = []"
| "sse_loop sid last_id (x # xs) =
     (if sr_expired x then []
      else (case events_wait_after (sr_env1 x) (sr_conn1 x) (sr_timed_out x) (sr_env2 x) (sr_conn2 x) sid last_id of
          (got, rec) \<Rightarrow>
            if got < 0 then []
            else (case rec of
                Some ev \<Rightarrow>
                  SseEvent (er_id ev) (er_type ev) (case er_payload ev of None \<Rightarrow> ''{}'' | Some p \<Rightarrow> p) #
                  (if sr_flushed x then sse_loop sid (er_id ev) xs else [])
              | None \<Rightarrow> SseHeartbeat (sr_now x) # (if sr_flushed x then sse_loop sid last_id xs else []))))"

definition resume_id :: "request \<Rightarrow> int" where
  "resume_id r =
     (case rq_last_event_id r of None \<Rightarrow> 0 | Some s \<Rightarrow> if s = [] then 0 else c_strtol s)"

definition run_sse :: "handler_env \<Rightarrow> server \<Rightarrow> request \<Rightarrow> server \<times> reply" where
  "run_sse he sv r =
     with_session he sv r (\<lambda>sid.
       let last_id = resume_id r;
           hello = snprintf_n 128 (''{\"resume_from\":'' @ show_int last_id @ '',\"ts\":'' @ show_int (he_now he 0) @ ''}'')
       in (sv, EventStream (SseEvent 0 ''ready'' hello #
                 (if he_first_flush he then sse_loop sid last_id (he_rounds he) else []))))"

section \<open>Artifacts\<close>

definition path_within_root :: "realpath_fn \<Rightarrow> string \<Rightarrow> string \<Rightarrow> string option" where
  "path_within_root rp root rel =
     (if (rel \<noteq> [] \<and> hd rel = CHR ''/'') \<or> has_dotdot rel then None
      else (case file_path_join PATH_MAX root rel of
          Inl _ \<Rightarrow> None
        | Inr joined \<Rightarrow>
            (case rp root of Inl _ \<Rightarrow> None | Inr root_real \<Rightarrow>
            (case rp joined of Inl _ \<Rightarrow> None | Inr file_real \<Rightarrow>
               if take (length root_real) file_real \<noteq> root_real then None
               else if length root_real < length file_real \<and> file_real ! length root_real \<noteq> CHR ''/'' then None
               else Some (snprintf_n PATH_MAX file_real)))))"

definition artifact_meta_json :: "handler_env \<Rightarrow> artifact_record \<Rightarrow> string option" where
  "artifact_meta_json he a = he_print he (artifact_item a)"

definition run_list_artifacts :: "handler_env \<Rightarrow> server \<Rightarrow> request \<Rightarrow> server \<times> reply" where
  "run_list_artifacts he sv r =
     with_session he sv r (\<lambda>sid.
       (case store_artifact_list_json (he_print he) (he_call he 3) (sv_conn sv) (rq_user_id r) sid of
          Inl _ \<Rightarrow> (sv, reply_500 ''artifact list failed'')
        | Inr json \<Rightarrow> (sv, reply_json 200 json)))"

definition run_artifact_meta :: "handler_env \<Rightarrow> server \<Rightarrow> request \<Rightarrow> server \<times> reply" where
  "run_artifact_meta he sv r =
     (case path_param r ''artifact'' of
        None \<Rightarrow> (sv, reply_400 ''missing artifact'')
      | Some aid \<Rightarrow>
          (case store_artifact_get (he_call he 2) (sv_conn sv) aid (rq_user_id r) of
             Inl _ \<Rightarrow> (sv, reply_404)
           | Inr a \<Rightarrow>
               (case artifact_meta_json he a of None \<Rightarrow> (sv, reply_500 ''oom'') | Some json \<Rightarrow> (sv, reply_json 200 json))))"

definition run_get_artifact :: "handler_env \<Rightarrow> server \<Rightarrow> request \<Rightarrow> server \<times> reply" where
  "run_get_artifact he sv r =
     (case path_param r ''artifact'' of
        None \<Rightarrow> (sv, reply_400 ''missing artifact'')
      | Some aid \<Rightarrow>
          (case store_artifact_get (he_call he 2) (sv_conn sv) aid (rq_user_id r) of
             Inl _ \<Rightarrow> (sv, reply_404)
           | Inr a \<Rightarrow>
               (case path_within_root (he_realpath he) (he_artifact_root he) (ar_relative_path a) of
                  None \<Rightarrow> (sv, reply_404)
                | Some path \<Rightarrow>
                    if \<not> he_regular he path then (sv, reply_404)
                    else (case he_open he path of
                        None \<Rightarrow> (sv, reply_500 ''open artifact failed'')
                      | Some text \<Rightarrow>
                          (sv, FileReply (if ar_mime a \<noteq> [] then ar_mime a else ''application/octet-stream'')
                                 (if ar_filename a \<noteq> [] then ar_filename a else ar_id a) text)))))"

section \<open>Routes\<close>

record route =
  ro_method :: string
  ro_pattern :: string
  ro_fn :: handler
  ro_needs_auth :: bool
  ro_allowed_during_setup :: bool

definition ROUTES :: "route list" where
  "ROUTES = map (\<lambda>(m, p, f, a, s). \<lparr>ro_method = m, ro_pattern = p, ro_fn = f, ro_needs_auth = a, ro_allowed_during_setup = s\<rparr>)
    [(''GET'', ''/api/health'', handle_health, False, True),
     (''POST'', ''/api/install'', handle_install, False, True),
     (''POST'', ''/api/signup'', handle_signup, False, False),
     (''POST'', ''/api/login'', handle_login, False, False),
     (''POST'', ''/api/logout'', handle_logout, True, False),
     (''GET'', ''/api/me/quota'', handle_me_quota, True, False),
     (''POST'', ''/api/sessions'', handle_create_session, True, False),
     (''GET'', ''/api/sessions'', handle_list_sessions, True, False),
     (''GET'', ''/api/sessions/:id'', handle_get_session, True, False),
     (''DELETE'', ''/api/sessions/:id'', handle_delete_session, True, False),
     (''POST'', ''/api/sessions/:id/turns'', handle_post_turn, True, False),
     (''GET'', ''/api/sessions/:id/canvas'', handle_get_canvas, True, False),
     (''POST'', ''/api/sessions/:id/canvas/nodes'', handle_add_canvas_node, True, False),
     (''PATCH'', ''/api/sessions/:id/canvas/nodes/:node'', handle_patch_canvas_node, True, False),
     (''POST'', ''/api/sessions/:id/actions'', handle_post_action, True, False),
     (''GET'', ''/api/sessions/:id/events'', handle_sse, True, False),
     (''GET'', ''/api/sessions/:id/artifacts'', handle_list_artifacts, True, False),
     (''GET'', ''/api/artifacts/:artifact/meta'', handle_artifact_meta, True, False),
     (''GET'', ''/api/artifacts/:artifact'', handle_get_artifact, True, False)]"

abbreviation not_slash :: "char \<Rightarrow> bool" where "not_slash c \<equiv> c \<noteq> CHR ''/''"

function match_loop :: "string \<Rightarrow> string \<Rightarrow> (string \<times> string) list \<Rightarrow> (string \<times> string) list option" where
  "match_loop p u params =
     (if p = [] \<or> u = [] then
        (if dropWhile (\<lambda>c. c = CHR ''/'') p = [] \<and> dropWhile (\<lambda>c. c = CHR ''/'') u = [] then Some params else None)
      else if hd p = CHR ''/'' then (if hd u \<noteq> CHR ''/'' then None else match_loop (tl p) (tl u) params)
      else
        let p_seg = takeWhile not_slash p; u_seg = takeWhile not_slash u
        in if hd p = CHR '':'' then
             (if length params \<ge> FCGI_MAX_PATH_PARAMS then None
              else if length p_seg - 1 \<ge> 32 then None
              else if length u_seg \<ge> 128 then None
              else match_loop (dropWhile not_slash p) (dropWhile not_slash u) (params @ [(tl p_seg, u_seg)]))
           else if p_seg \<noteq> u_seg then None
           else match_loop (dropWhile not_slash p) (dropWhile not_slash u) params)"
  by pat_completeness auto
termination
proof (relation "measure (\<lambda>(p, u, params). length p)", goal_cases)
  case (3 p u params x y)
  then show ?case by (cases p) (auto simp: le_imp_less_Suc length_dropWhile_le)
next
  case (4 p u params x y)
  then show ?case by (cases p) (auto simp: le_imp_less_Suc length_dropWhile_le)
qed auto

declare match_loop.simps [simp del]

definition match_pattern :: "string \<Rightarrow> string \<Rightarrow> (string \<times> string) list option" where
  "match_pattern pattern path = match_loop pattern path []"

definition run_handler :: "handler_env \<Rightarrow> server \<Rightarrow> request \<Rightarrow> handler \<Rightarrow> server \<times> reply" where
  "run_handler he sv r h =
     (case h of
        handle_health \<Rightarrow> (sv, he_report he h (sv_conn sv) r)
      | handle_install \<Rightarrow> run_install he sv r
      | handle_signup \<Rightarrow> run_signup he sv r
      | handle_login \<Rightarrow> run_login he sv r
      | handle_logout \<Rightarrow> run_logout he sv r
      | handle_me_quota \<Rightarrow> (sv, he_report he h (sv_conn sv) r)
      | handle_create_session \<Rightarrow> run_create_session he sv r
      | handle_list_sessions \<Rightarrow> run_list_sessions he sv r
      | handle_get_session \<Rightarrow> run_get_session he sv r
      | handle_delete_session \<Rightarrow> run_delete_session he sv r
      | handle_post_turn \<Rightarrow> run_post_turn he sv r
      | handle_get_canvas \<Rightarrow> run_get_canvas he sv r
      | handle_add_canvas_node \<Rightarrow> run_add_canvas_node he sv r
      | handle_patch_canvas_node \<Rightarrow> run_patch_canvas_node he sv r
      | handle_post_action \<Rightarrow> run_post_action he sv r
      | handle_sse \<Rightarrow> run_sse he sv r
      | handle_list_artifacts \<Rightarrow> run_list_artifacts he sv r
      | handle_artifact_meta \<Rightarrow> run_artifact_meta he sv r
      | handle_get_artifact \<Rightarrow> run_get_artifact he sv r)"

text \<open>The loop over the table: the first route of the method whose pattern matches decides.\<close>

fun dispatch_routes :: "handler_env \<Rightarrow> server \<Rightarrow> request \<Rightarrow> string \<Rightarrow> string \<Rightarrow> route list \<Rightarrow> server \<times> reply" where
  "dispatch_routes he sv r meth path [] = (sv, reply_404)"
| "dispatch_routes he sv r meth path (rt # rts) =
     (if ro_method rt \<noteq> meth then dispatch_routes he sv r meth path rts
      else (case match_pattern (ro_pattern rt) path of
          None \<Rightarrow> dispatch_routes he sv r meth path rts
        | Some params \<Rightarrow>
            let r = r\<lparr>rq_params := params\<rparr>
            in if \<not> ro_allowed_during_setup rt \<and> store_setup_required (he_call he 0) (sv_conn sv)
               then (sv, reply_json 403 ''{\"error\":\"setup_required\"}'')
               else if ro_needs_auth rt
               then (case auth_check he sv r of (sv, r, ok) \<Rightarrow>
                       if \<not> ok then (sv, reply_401) else run_handler he sv r (ro_fn rt))
               else run_handler he sv r (ro_fn rt)))"

definition router_dispatch :: "handler_env \<Rightarrow> server \<Rightarrow> request \<Rightarrow> server \<times> reply" where
  "router_dispatch he sv r =
     (case (rq_method r, rq_path r) of
        (Some meth, Some path) \<Rightarrow> dispatch_routes he sv r meth path ROUTES
      | _ \<Rightarrow> (sv, reply_400 ''missing method/path''))"

section \<open>The request as the web server sends it\<close>

definition c_isalnum :: "char \<Rightarrow> bool" where
  "c_isalnum c = ((char_ge c CHR ''0'' \<and> char_ge CHR ''9'' c) \<or> (char_ge c CHR ''A'' \<and> char_ge CHR ''Z'' c) \<or>
                  (char_ge c CHR ''a'' \<and> char_ge CHR ''z'' c))"

definition c_toupper :: "char \<Rightarrow> char" where
  "c_toupper c = (if char_ge c CHR ''a'' \<and> char_ge CHR ''z'' c then char_of ((of_char c :: nat) - 32) else c)"

fun trust_chars :: "string \<Rightarrow> string \<Rightarrow> rc + string" where
  "trust_chars param [] = Inr param"
| "trust_chars param (c # cs) =
     (if length param + 1 \<ge> 96 then Inl (- ENAMETOOLONG)
      else if c_isalnum c then trust_chars (param @ [c_toupper c]) cs
      else if c = CHR ''-'' then trust_chars (param @ ''_'') cs
      else Inl (- EINVAL))"

definition configure_trust_param :: "string option \<Rightarrow> rc + string" where
  "configure_trust_param header =
     (case header of None \<Rightarrow> Inr [] | Some h \<Rightarrow> if h = [] then Inr [] else trust_chars ''HTTP_'' h)"

text \<open>\<open>get\<close> is \<open>FCGX_GetParam\<close>, \<open>input\<close> what the web server delivers as the body.\<close>

definition populate_request :: "string \<Rightarrow> (string \<Rightarrow> string option) \<Rightarrow> string \<Rightarrow> request" where
  "populate_request trust_param get input =
     (let path = (case get ''DOCUMENT_URI'' of None \<Rightarrow> get ''REQUEST_URI'' | Some p \<Rightarrow> Some p)
      in \<lparr>rq_method = get ''REQUEST_METHOD'',
          rq_path = map_option (takeWhile (\<lambda>c. c \<noteq> CHR ''?'')) path,
          rq_auth_hdr = get ''HTTP_AUTHORIZATION'',
          rq_trust_user = (if trust_param \<noteq> [] then get trust_param else None),
          rq_last_event_id = get ''HTTP_LAST_EVENT_ID'',
          rq_content_length = (case get ''CONTENT_LENGTH'' of None \<Rightarrow> 0 | Some s \<Rightarrow> c_atoi s),
          rq_input = input,
          rq_params = [],
          rq_user_id = ''anonymous'', rq_username = ''anonymous'', rq_role = ''anonymous''\<rparr>)"

end
