(* ===== verification/Fcgi_Safety.thy ===== *)
theory Fcgi_Safety
  imports Fcgi
begin

text \<open>
  The steps of the web server (\<open>server_step\<close>), what a request can do to the store (\<open>store_effect\<close>), and the
  invariants of the tables along every run: quotas and ownership.
\<close>

section \<open>Looking through the definitions\<close>

lemma sql_begin_db [simp]: "cx_db (sql_begin ok c) = cx_db c"
  by (simp add: sql_begin_def)

lemma sql_commit_db [simp]: "cx_db (sql_commit ok c) = cx_db c"
  by (simp add: sql_commit_def)

text \<open>A property of stores is a property of a connection if it holds now and in the state to roll back to.\<close>

definition conn_all :: "(store \<Rightarrow> bool) \<Rightarrow> conn \<Rightarrow> bool" where
  "conn_all P c = (P (cx_db c) \<and> (\<forall>d. cx_saved c = Some d \<longrightarrow> P d))"

lemma conn_all_begin [intro]: "conn_all P c \<Longrightarrow> conn_all P (sql_begin ok c)"
  by (simp add: conn_all_def sql_begin_def)

lemma conn_all_commit [intro]: "conn_all P c \<Longrightarrow> conn_all P (sql_commit ok c)"
  by (simp add: conn_all_def sql_commit_def)

lemma conn_all_rollback [intro]: "conn_all P c \<Longrightarrow> conn_all P (sql_rollback c)"
  by (auto simp: conn_all_def sql_rollback_def split: option.splits)

lemma conn_all_upd: "conn_all P c \<Longrightarrow> P (f (cx_db c)) \<Longrightarrow> conn_all P (upd f c)"
  by (simp add: conn_all_def)

lemma conn_all_set: "conn_all P (c\<lparr>cx_db := d\<rparr>) \<longleftrightarrow> P d \<and> (\<forall>x. cx_saved c = Some x \<longrightarrow> P x)"
  by (simp add: conn_all_def)

lemma conn_all_setI: "conn_all P c \<Longrightarrow> P d \<Longrightarrow> conn_all P (c\<lparr>cx_db := d\<rparr>)"
  by (simp add: conn_all_def)

lemma conn_all_db: "conn_all P c \<Longrightarrow> P (cx_db c)"
  by (simp add: conn_all_def)

section \<open>Steps of the server\<close>

text \<open>
  A worker serves a request; the thread of a turn ends its turn, registers an artifact, publishes an event or takes an
  action from the queue.  Each runs alone here; statements of several workers on the shared connection are not interleaved.
\<close>

inductive server_step :: "server \<Rightarrow> server \<Rightarrow> bool" where
  Request: "server_step sv (fst (router_dispatch he sv r))"
| End_Turn: "server_step sv (sv\<lparr>sv_conn := store_quota_end_turn e (sv_conn sv) turn_id\<rparr>)"
| Artifact: "server_step sv (sv\<lparr>sv_conn := fst (store_artifact_register e (sv_conn sv) user_id session_id kind m fname path n)\<rparr>)"
| Publish: "server_step sv (sv\<lparr>sv_conn := fst (events_publish e (sv_conn sv) session_id type payload)\<rparr>)"
| Drain: "server_step sv (sv\<lparr>sv_conn := fst (actions_drain_one e (sv_conn sv) session_id)\<rparr>)"

inductive server_run :: "server \<Rightarrow> server \<Rightarrow> bool" where
  Start: "server_run sv sv"
| Step: "server_run sv sv' \<Longrightarrow> server_step sv' sv'' \<Longrightarrow> server_run sv sv''"

definition empty_store :: store where
  "empty_store = \<lparr>st_users = [], st_profiles = Map.empty, st_user_quota = Map.empty, st_usage = Map.empty,
     st_storage = Map.empty, st_running = [], st_artifacts = [], st_owner = [], st_sessions = [], st_next_session = 1,
     st_tasks = [], st_events = [], st_next_event = 1, st_actions = [], st_next_action = 1, st_canvas = []\<rparr>"

definition fresh_server :: "string option \<Rightarrow> server" where
  "fresh_server trust_hdr = auth_init trust_hdr
     \<lparr>sv_conn = \<lparr>cx_db = init_default_quota_profiles empty_store, cx_saved = None\<rparr>, sv_files = Map.empty,
      sv_cache = replicate TOKEN_CACHE_SIZE [], sv_trust_hdr = [], sv_jobs = []\<rparr>"

text \<open>
  What a request can do to the connection: it is one of the operations of the store.  \<open>store_effect u\<close> lists them with
  their arguments; \<open>u\<close> is the user they act for.  Creating an account is apart (\<open>account_created\<close>): an administrator's
  needs the setup to be required.  An invariant of the operations is one of every request.
\<close>

inductive store_effect :: "string \<Rightarrow> conn \<Rightarrow> conn \<Rightarrow> bool" for u where
  Same: "store_effect u c c"
| Create: "store_effect u c (fst (store_create_session e c u name model))"
| Delete: "(sid, u) \<in> set (st_owner (cx_db c)) \<Longrightarrow> store_effect u c (fst (store_delete_session e c sid u))"
| Begin: "(sid, u) \<in> set (st_owner (cx_db c)) \<Longrightarrow> store_effect u c (fst (store_quota_begin_turn e c u sid))"
| Undo: "(sid, u) \<in> set (st_owner (cx_db c)) \<Longrightarrow> store_quota_begin_turn e c u sid = (c', 0, turn_id) \<Longrightarrow>
     store_effect u c (store_quota_end_turn e' c' turn_id)"
| Node: "(sid, u) \<in> set (st_owner (cx_db c)) \<Longrightarrow> canvas_add_node e c sid text = (c', rc, nid) \<Longrightarrow>
     c'' = c' \<or> c'' = fst (events_publish e' c' sid type payload) \<Longrightarrow> store_effect u c c''"
| Patch: "(sid, u) \<in> set (st_owner (cx_db c)) \<Longrightarrow> canvas_patch_node e c sid nid text = (c', rc) \<Longrightarrow>
     c'' = c' \<or> c'' = fst (events_publish e' c' sid type payload) \<Longrightarrow> store_effect u c c''"
| Action: "(sid, u) \<in> set (st_owner (cx_db c)) \<Longrightarrow> store_effect u c (fst (actions_enqueue e c sid type payload))"

lemma owned_byD: "store_session_owned_by e c sid u \<Longrightarrow> (sid, u) \<in> set (st_owner (cx_db c))"
  by (simp add: store_session_owned_by_def)

text \<open>An endpoint about one session does what it does on a session of the caller.\<close>

lemma with_session_effect:
  assumes "\<And>sid. (sid, rq_user_id r) \<in> set (st_owner (cx_db (sv_conn sv))) \<Longrightarrow> P (k sid)" "\<And>rep. P (sv, rep)"
  shows "P (with_session he sv r k)"
  using assms by (auto simp: with_session_def dest!: owned_byD split: option.splits)

definition account_created :: "handler_env \<Rightarrow> conn \<Rightarrow> conn \<Rightarrow> bool" where
  "account_created he c c' =
     (\<exists>username password role. c' = fst (store_create_user (he_call he 3) c username password role) \<and>
        (role = ''admin'' \<longrightarrow> store_setup_required (he_call he 2) c))"

lemma create_account_conn:
  "sv_conn (fst (create_account he sv username password role failure)) =
     fst (store_create_user (he_call he 3) (sv_conn sv) username password role)"
proof -
  obtain c rc uid where c: "store_create_user (he_call he 3) (sv_conn sv) username password role = (c, rc, uid)"
    by (metis prod_cases3)
  show ?thesis by (auto simp: create_account_def c Let_def split: option.splits)
qed

lemma read_only_effect [simp]:
  "sv_conn (fst (run_login he sv r)) = sv_conn sv"
  "sv_conn (fst (run_logout he sv r)) = sv_conn sv"
  "fst (run_list_sessions he sv r) = sv"
  "fst (run_get_session he sv r) = sv"
  "fst (run_get_canvas he sv r) = sv"
  "fst (run_sse he sv r) = sv"
  "fst (run_list_artifacts he sv r) = sv"
  "fst (run_artifact_meta he sv r) = sv"
  "fst (run_get_artifact he sv r) = sv"
proof -
  have c: "sv_conn (fst (login_token_create he sv now a b c t)) = sv_conn sv" for now a b c t
    by (auto simp: login_token_create_def Let_def split: prod.splits option.splits sum.splits)
  show "sv_conn (fst (run_login he sv r)) = sv_conn sv"
  proof -
    have "sv_conn sv' = sv_conn sv" if "login_token_create he sv now a b c t = (sv', rc, tok)" for now a b c t sv' rc tok
      using c [of now a b c t] that by simp
    then show ?thesis
      by (auto simp: run_login_def auth_token_created_def Let_def split: prod.split option.split)
  qed
  show "sv_conn (fst (run_logout he sv r)) = sv_conn sv"
    by (auto simp: run_logout_def login_token_revoke_def auth_token_revoked_def split: option.splits sum.splits)
  show "fst (run_list_sessions he sv r) = sv" "fst (run_get_session he sv r) = sv" "fst (run_get_canvas he sv r) = sv"
    "fst (run_sse he sv r) = sv" "fst (run_list_artifacts he sv r) = sv"
    by (auto simp: run_list_sessions_def run_get_session_def run_get_canvas_def run_sse_def run_list_artifacts_def
        with_session_def Let_def split: option.splits sum.splits)
  show "fst (run_artifact_meta he sv r) = sv" "fst (run_get_artifact he sv r) = sv"
    by (auto simp: run_artifact_meta_def run_get_artifact_def split: option.splits sum.splits)
qed

lemma install_conn:
  "sv_conn (fst (run_install he sv r)) = sv_conn sv \<or> account_created he (sv_conn sv) (sv_conn (fst (run_install he sv r)))"
  by (auto simp: run_install_def account_created_def create_account_conn split: sum.splits)

lemma signup_conn:
  "sv_conn (fst (run_signup he sv r)) = sv_conn sv \<or> account_created he (sv_conn sv) (sv_conn (fst (run_signup he sv r)))"
proof -
  have "account_created he (sv_conn sv) (sv_conn (fst (create_account he sv un pw ''user'' failure)))" for un pw failure
    unfolding account_created_def create_account_conn by (intro exI conjI) (rule refl, simp)
  then show ?thesis by (auto simp: run_signup_def split: sum.splits option.splits)
qed

lemma create_session_effect: "store_effect (rq_user_id r) (sv_conn sv) (sv_conn (fst (run_create_session he sv r)))"
proof (cases "fcgi_read_body (he_mem he (Suc 0)) r")
  case (Inl a)
  then show ?thesis by (simp add: run_create_session_def store_effect.Same)
next
  case (Inr bt)
  let ?n = "string_member (he_parse he bt) ''name'' ''untitled''" and ?m = "string_member (he_parse he bt) ''model'' ''default''"
  have "sv_conn (fst (run_create_session he sv r)) = fst (store_create_session (he_call he 3) (sv_conn sv) (rq_user_id r) ?n ?m)"
    by (simp add: run_create_session_def Inr Let_def split: prod.splits)
  then show ?thesis by (simp only: store_effect.Create)
qed

lemma delete_session_effect: "store_effect (rq_user_id r) (sv_conn sv) (sv_conn (fst (run_delete_session he sv r)))"
  unfolding run_delete_session_def
proof (rule with_session_effect, goal_cases)
  case (1 sid)
  have "sv_conn (fst (case store_delete_session (he_call he 3) (sv_conn sv) sid (rq_user_id r) of (c, rc) \<Rightarrow>
          let sv = sv\<lparr>sv_conn := c\<rparr>
          in if rc = - EAGAIN then (sv, reply_json 409 ''{\"error\":\"turn_in_progress\"}'')
             else if rc \<noteq> 0 then (sv, reply_500 ''delete failed'')
             else (sv, reply_204))) = fst (store_delete_session (he_call he 3) (sv_conn sv) sid (rq_user_id r))"
    by (simp add: Let_def split: prod.splits)
  then show ?case using 1 by (simp only: store_effect.Delete)
qed (simp add: store_effect.Same)

lemma post_turn_effect: "store_effect (rq_user_id r) (sv_conn sv) (sv_conn (fst (run_post_turn he sv r)))"
  unfolding run_post_turn_def
proof (rule with_session_effect, goal_cases)
  case (1 sid)
  obtain c rc tid where q: "store_quota_begin_turn (he_call he 3) (sv_conn sv) (rq_user_id r) sid = (c, rc, tid)"
    by (metis prod_cases3)
  note b = store_effect.Begin [OF 1, of "he_call he 3", unfolded q, simplified]
  have u: "rc = 0 \<Longrightarrow> store_effect (rq_user_id r) (sv_conn sv) (store_quota_end_turn (he_call he 4) c tid)"
    using store_effect.Undo [OF 1, of "he_call he 3" c tid "he_call he 4"] q by simp
  show ?case using b u by (simp add: q Let_def store_effect.Same split: sum.split)
qed (simp add: store_effect.Same)

lemma add_canvas_node_effect: "store_effect (rq_user_id r) (sv_conn sv) (sv_conn (fst (run_add_canvas_node he sv r)))"
  unfolding run_add_canvas_node_def
proof (rule with_session_effect, goal_cases)
  case (1 sid)
  show ?case
  proof (cases "fcgi_read_body (he_mem he (Suc 0)) r")
    case (Inr bt)
    obtain c rc nid where n: "canvas_add_node (he_call he 3) (sv_conn sv) sid bt = (c, rc, nid)" by (metis prod_cases3)
    show ?thesis using store_effect.Node [OF 1 n disjI1 [OF refl]] store_effect.Node [OF 1 n disjI2 [OF refl]] by (simp add: Inr n Let_def)
  qed (simp add: store_effect.Same)
qed (simp add: store_effect.Same)

lemma patch_canvas_node_effect: "store_effect (rq_user_id r) (sv_conn sv) (sv_conn (fst (run_patch_canvas_node he sv r)))"
proof (cases "path_param r ''node''")
  case (Some nid)
  show ?thesis unfolding run_patch_canvas_node_def Some option.case
  proof (rule with_session_effect, goal_cases)
    case (1 sid)
    show ?case
    proof (cases "fcgi_read_body (he_mem he (Suc 0)) r")
      case (Inr bt)
      obtain c rc where n: "canvas_patch_node (he_call he 3) (sv_conn sv) sid nid bt = (c, rc)" by fastforce
      show ?thesis using store_effect.Patch [OF 1 n disjI1 [OF refl]] store_effect.Patch [OF 1 n disjI2 [OF refl]] by (simp add: Inr n Let_def)
    qed (simp add: store_effect.Same)
  qed (simp add: store_effect.Same)
qed (simp add: run_patch_canvas_node_def store_effect.Same)

lemma post_action_effect: "store_effect (rq_user_id r) (sv_conn sv) (sv_conn (fst (run_post_action he sv r)))"
  unfolding run_post_action_def
proof (rule with_session_effect, goal_cases)
  case (1 sid)
  show ?case
  proof (cases "fcgi_read_body (he_mem he (Suc 0)) r")
    case (Inr bt)
    have "store_effect (rq_user_id r) (sv_conn sv) c"
      if "actions_enqueue (he_call he 3) (sv_conn sv) sid t p = (c, rc)" for t p c rc
      using store_effect.Action [OF 1, of "he_call he 3" t p] that by simp
    then show ?thesis by (auto simp: Inr Let_def store_effect.Same split: prod.split)
  qed (simp add: store_effect.Same)
qed (simp add: store_effect.Same)

definition public :: "handler \<Rightarrow> bool" where
  "public h = (h \<in> {handle_health, handle_install, handle_signup, handle_login})"

lemmas handler_effects =
  create_session_effect delete_session_effect post_turn_effect
  add_canvas_node_effect patch_canvas_node_effect post_action_effect

lemma run_handler_effect: "\<not> public h \<Longrightarrow> store_effect (rq_user_id r) (sv_conn sv) (sv_conn (fst (run_handler he sv r h)))"
  by (cases h) (simp_all add: public_def run_handler_def store_effect.Same handler_effects)

section \<open>Dispatch\<close>

lemma login_token_verify_keeps:
  assumes "login_token_verify he sv now tok = (sv', res)"
  shows "sv_conn sv' = sv_conn sv" "sv_jobs sv' = sv_jobs sv" "sv_cache sv' = sv_cache sv" "sv_trust_hdr sv' = sv_trust_hdr sv"
    "res \<noteq> None \<Longrightarrow> sv' = sv"
  using assms by (auto simp: login_token_verify_def Let_def split: if_splits option.splits sum.splits)

lemma auth_check_keeps:
  assumes "auth_check he sv r = (sv', r', ok)"
  shows "sv_conn sv' = sv_conn sv" "sv_jobs sv' = sv_jobs sv"
proof -
  have f: "sv_conn a = sv_conn sv \<and> sv_jobs a = sv_jobs sv" if "auth_token_file he sv r tok = (a, b, c)" for a b c tok
  proof -
    obtain x y where v: "login_token_verify he sv (he_now he (Suc 0)) tok = (x, y)" by fastforce
    show ?thesis using that login_token_verify_keeps(1,2) [OF v]
      by (auto simp: auth_token_file_def v Let_def split: option.splits sum.splits)
  qed
  show "sv_conn sv' = sv_conn sv" "sv_jobs sv' = sv_jobs sv"
    using assms f by (auto simp: auth_check_def auth_bearer_def split: if_splits option.splits)
qed

lemma auth_check_params:
  "auth_check he sv (r\<lparr>rq_params := ps\<rparr>) = (case auth_check he sv r of (sv', r', ok) \<Rightarrow> (sv', r'\<lparr>rq_params := ps\<rparr>, ok))"
proof -
  have b: "bearer_token (r\<lparr>rq_params := ps\<rparr>) = bearer_token r" by (simp add: bearer_token_def)
  have f: "auth_token_file he sv (r\<lparr>rq_params := ps\<rparr>) tok
      = (case auth_token_file he sv r tok of (sv', r', ok) \<Rightarrow> (sv', r'\<lparr>rq_params := ps\<rparr>, ok))" for tok
    by (simp add: auth_token_file_def set_identity_def Let_def split: prod.split option.split sum.split)
  have "auth_bearer he sv (r\<lparr>rq_params := ps\<rparr>) = (case auth_bearer he sv r of (sv', r', ok) \<Rightarrow> (sv', r'\<lparr>rq_params := ps\<rparr>, ok))"
    by (simp add: auth_bearer_def b f set_identity_def split: option.split)
  then show ?thesis by (simp add: auth_check_def set_identity_def split: option.split)
qed

lemma routes_protected: "rt \<in> set ROUTES \<Longrightarrow> ro_needs_auth rt \<longleftrightarrow> \<not> public (ro_fn rt)"
  by (auto simp: ROUTES_def public_def)

definition refusal :: "reply \<Rightarrow> bool" where
  "refusal rep = (rep \<in> {reply_404, reply_400 ''missing method/path'', reply_json 403 ''{\"error\":\"setup_required\"}''})"

text \<open>The outcomes of a request.\<close>

lemma dispatch_routes_cases:
  assumes "set rts \<subseteq> set ROUTES"
  shows "(\<exists>rep. refusal rep \<and> dispatch_routes he sv r meth path rts = (sv, rep))
    \<or> (\<exists>sv' r'. auth_check he sv r = (sv', r', False) \<and> dispatch_routes he sv r meth path rts = (sv', reply_401))
    \<or> (\<exists>h ps. public h \<and> dispatch_routes he sv r meth path rts = run_handler he sv (r\<lparr>rq_params := ps\<rparr>) h)
    \<or> (\<exists>h ps sv' r'. \<not> public h \<and> auth_check he sv r = (sv', r', True) \<and>
         dispatch_routes he sv r meth path rts = run_handler he sv' (r'\<lparr>rq_params := ps\<rparr>) h)"
  using assms
proof (induction rts)
  case Nil
  then show ?case by (simp add: refusal_def)
next
  case (Cons rt rts)
  show ?case
  proof (cases "ro_method rt = meth \<and> match_pattern (ro_pattern rt) path \<noteq> None")
    case False
    then have "dispatch_routes he sv r meth path (rt # rts) = dispatch_routes he sv r meth path rts" by auto
    then show ?thesis using Cons by simp
  next
    case True
    then obtain ps where ps: "match_pattern (ro_pattern rt) path = Some ps" by auto
    obtain sv' r' ok where a: "auth_check he sv r = (sv', r', ok)" by (metis prod_cases3)
    let ?closed = "\<not> ro_allowed_during_setup rt \<and> store_setup_required (he_call he 0) (sv_conn sv)"
    have d: "dispatch_routes he sv r meth path (rt # rts) =
       (if ?closed then (sv, reply_json 403 ''{\"error\":\"setup_required\"}'')
        else if ro_needs_auth rt then (if \<not> ok then (sv', reply_401) else run_handler he sv' (r'\<lparr>rq_params := ps\<rparr>) (ro_fn rt))
        else run_handler he sv (r\<lparr>rq_params := ps\<rparr>) (ro_fn rt))"
      using True ps by (simp add: auth_check_params a Let_def)
    have n: "ro_needs_auth rt \<longleftrightarrow> \<not> public (ro_fn rt)" using Cons.prems by (intro routes_protected) simp
    show ?thesis
    proof (cases "?closed")
      case True
      then show ?thesis unfolding d by (simp add: refusal_def)
    next
      case False
      then show ?thesis unfolding d if_not_P [OF False] n using a by (cases ok; cases "public (ro_fn rt)") auto
    qed
  qed
qed

lemma router_dispatch_cases:
  obtains (Refused) rep where "refusal rep" "router_dispatch he sv r = (sv, rep)"
  | (Unauthorized) sv' r' where "auth_check he sv r = (sv', r', False)" "router_dispatch he sv r = (sv', reply_401)"
  | (Public) h ps where "public h" "router_dispatch he sv r = run_handler he sv (r\<lparr>rq_params := ps\<rparr>) h"
  | (Authorized) h ps sv' r' where "\<not> public h" "auth_check he sv r = (sv', r', True)"
      "router_dispatch he sv r = run_handler he sv' (r'\<lparr>rq_params := ps\<rparr>) h"
proof (cases "rq_method r = None \<or> rq_path r = None")
  case True
  then have "router_dispatch he sv r = (sv, reply_400 ''missing method/path'')"
    by (auto simp: router_dispatch_def split: option.splits)
  then show ?thesis using Refused by (simp add: refusal_def)
next
  case False
  then obtain meth path where "router_dispatch he sv r = dispatch_routes he sv r meth path ROUTES"
    by (auto simp: router_dispatch_def)
  then show ?thesis using dispatch_routes_cases [of ROUTES he sv r meth path] that by auto
qed

definition identity :: "handler_env \<Rightarrow> server \<Rightarrow> request \<Rightarrow> string" where
  "identity he sv r = rq_user_id (fst (snd (auth_check he sv r)))"

lemma public_effect:
  "public h \<Longrightarrow> sv_conn (fst (run_handler he sv r h)) = sv_conn sv \<or> account_created he (sv_conn sv) (sv_conn (fst (run_handler he sv r h)))"
  using install_conn [of he sv r] signup_conn [of he sv r] by (auto simp: public_def run_handler_def)

lemma dispatch_effect:
  "store_effect (identity he sv r) (sv_conn sv) (sv_conn (fst (router_dispatch he sv r)))
   \<or> account_created he (sv_conn sv) (sv_conn (fst (router_dispatch he sv r)))"
proof (cases rule: router_dispatch_cases [of he sv r])
  case (Refused rep)
  then show ?thesis by (simp add: store_effect.Same)
next
  case (Unauthorized sv' r')
  then show ?thesis using auth_check_keeps(1) [OF Unauthorized(1)] by (simp add: store_effect.Same)
next
  case (Public h ps)
  then show ?thesis using public_effect [OF Public(1), of he sv "r\<lparr>rq_params := ps\<rparr>"] store_effect.Same by auto
next
  case (Authorized h ps sv' r')
  then show ?thesis
    using run_handler_effect [OF Authorized(1), of "r'\<lparr>rq_params := ps\<rparr>" sv' he] auth_check_keeps(1) [OF Authorized(2)]
    by (simp add: identity_def)
qed

section \<open>Quotas\<close>

text \<open>Turns run and count only for users with a quota, and nobody is above a limit that is not negative.\<close>

definition within_quota :: "store \<Rightarrow> bool" where
  "within_quota s =
     (\<forall>u p. profile_of s u = Some p \<longrightarrow>
        (qp_max_concurrent_turns p \<ge> 0 \<longrightarrow> running_of s u \<le> qp_max_concurrent_turns p) \<and>
        (qp_daily_turns p \<ge> 0 \<longrightarrow> (\<forall>day. turns_today s u day \<le> qp_daily_turns p)))"

definition quota_ok :: "store \<Rightarrow> bool" where
  "quota_ok s =
     (dom (st_user_quota s) \<subseteq> us_user_id ` set (st_users s) \<and>
      rt_user_id ` set (st_running s) \<subseteq> dom (st_user_quota s) \<and>
      (\<forall>u day. turns_today s u day \<noteq> 0 \<longrightarrow> u \<in> dom (st_user_quota s)) \<and> within_quota s)"

lemmas quota_defs = quota_ok_def within_quota_def profile_of_def running_of_def turns_today_def

lemma quota_ok_frame [simp]:
  "quota_ok (s\<lparr>st_storage := a\<rparr>) = quota_ok s" "quota_ok (s\<lparr>st_artifacts := b\<rparr>) = quota_ok s"
  "quota_ok (s\<lparr>st_owner := c\<rparr>) = quota_ok s" "quota_ok (s\<lparr>st_sessions := d\<rparr>) = quota_ok s"
  "quota_ok (s\<lparr>st_next_session := e\<rparr>) = quota_ok s" "quota_ok (s\<lparr>st_tasks := f\<rparr>) = quota_ok s"
  "quota_ok (s\<lparr>st_events := g\<rparr>) = quota_ok s" "quota_ok (s\<lparr>st_next_event := h\<rparr>) = quota_ok s"
  "quota_ok (s\<lparr>st_actions := i\<rparr>) = quota_ok s" "quota_ok (s\<lparr>st_next_action := j\<rparr>) = quota_ok s"
  "quota_ok (s\<lparr>st_canvas := k\<rparr>) = quota_ok s"
  by (simp_all add: quota_defs)

lemma quota_ok_insert_user [simp]: "quota_ok s \<Longrightarrow> quota_ok (insert_user u s)"
  by (auto simp: quota_defs insert_user_def)

lemma quota_ok_new_quota:
  assumes "quota_ok s" "st_user_quota s uid = None" "uid \<in> us_user_id ` set (st_users s)"
  shows "quota_ok (s\<lparr>st_user_quota := (st_user_quota s)(uid \<mapsto> p)\<rparr>)"
proof -
  have r: "running_of s uid = 0" "\<And>day. turns_today s uid day = 0"
    using assms(1,2) by (auto simp: quota_ok_def running_of_def dom_def filter_empty_conv)
  show ?thesis
    unfolding quota_ok_def within_quota_def
    using assms(1,3) r by (auto simp: quota_ok_def within_quota_def profile_of_def running_of_def turns_today_def)
qed

lemma length_filter_conj_le: "length (filter (\<lambda>x. P x \<and> Q x) xs) \<le> length (filter Q xs)"
  by (induction xs) auto

lemma quota_ok_fewer_running: "quota_ok s \<Longrightarrow> quota_ok (s\<lparr>st_running := filter P (st_running s)\<rparr>)"
proof -
  assume q: "quota_ok s"
  have "running_of (s\<lparr>st_running := filter P (st_running s)\<rparr>) u \<le> running_of s u" for u
    by (simp add: running_of_def length_filter_conj_le)
  then show ?thesis using q
    unfolding quota_ok_def within_quota_def
    by (auto simp: profile_of_def turns_today_def) (meson order_trans)
qed

lemma turns_today_bump:
  "(\<And>x. ud_turns (f x) = ud_turns x + k) \<Longrightarrow>
     turns_today (bump_usage f u d s) v day = turns_today s v day + (if v = u \<and> day = d then k else 0)"
  by (auto simp: turns_today_def bump_usage_def split: option.split)

lemma bump_usage_frame [simp]:
  "st_users (bump_usage f u d s) = st_users s" "st_user_quota (bump_usage f u d s) = st_user_quota s"
  "st_running (bump_usage f u d s) = st_running s" "st_profiles (bump_usage f u d s) = st_profiles s"
  by (simp_all add: bump_usage_def)

lemma quota_ok_bump_other:
  assumes "quota_ok s" "\<And>x. ud_turns (f x) = ud_turns x"
  shows "quota_ok (bump_usage f u d s)"
proof -
  have "turns_today (bump_usage f u d s) = turns_today s"
    by (intro ext) (simp add: turns_today_bump [where k = 0] assms(2))
  then show ?thesis using assms(1) by (auto simp: quota_ok_def within_quota_def profile_of_def running_of_def)
qed

lemma quota_verdict_0:
  "quota_verdict (dl, cl, used, run) = 0 \<longleftrightarrow> (dl \<ge> 0 \<longrightarrow> used < dl) \<and> (cl \<ge> 0 \<longrightarrow> run < cl)"
  by (auto simp: quota_verdict_def)

text \<open>The counter of the day and the running turn, after the query allowed them.\<close>

lemma quota_ok_count:
  assumes "quota_ok s" "quota_select e s u = Some row" "quota_verdict row = 0"
  shows "quota_ok (bump_usage (\<lambda>d. d\<lparr>ud_turns := ud_turns d + 1\<rparr>) u (ce_today e) s)" (is "quota_ok ?s")
proof -
  obtain p where p: "profile_of s u = Some p" "u \<in> dom (st_user_quota s)"
    using assms(2) by (auto simp: quota_select_def profile_of_def bind_eq_Some_conv)
  have t: "turns_today ?s v day = turns_today s v day + (if v = u \<and> day = ce_today e then 1 else 0)" for v day
    by (rule turns_today_bump) simp
  have "qp_daily_turns p \<ge> 0 \<longrightarrow> turns_today s u (ce_today e) < qp_daily_turns p"
    using assms(2,3) p(1) by (auto simp: quota_select_def quota_verdict_0)
  then show ?thesis using assms(1) p
    by (auto simp: quota_ok_def within_quota_def profile_of_def running_of_def t)
qed

lemma quota_ok_start:
  assumes "quota_ok s" "profile_of s u = Some p" "qp_max_concurrent_turns p \<ge> 0 \<longrightarrow> running_of s u < qp_max_concurrent_turns p"
    "rt_user_id x = u"
  shows "quota_ok (insert_running x s)"
proof -
  have u: "u \<in> dom (st_user_quota s)" using assms(2) by (auto simp: profile_of_def bind_eq_Some_conv)
  have r: "running_of (insert_running x s) v = running_of s v + (if v = u then 1 else 0)" for v
    using assms(4) by (simp add: running_of_def insert_running_def)
  show ?thesis using assms u
    unfolding quota_ok_def within_quota_def r
    by (auto simp: insert_running_def profile_of_def turns_today_def)
qed

lemma quota_begin_keeps: "conn_all quota_ok c \<Longrightarrow> conn_all quota_ok (fst (store_quota_begin_turn e c u sid))"
proof -
  assume q: "conn_all quota_ok c"
  obtain rc idb where i: "fcgi_random_id (ce_entropy e 0) ''turn_'' 64 = (rc, idb)" by fastforce
  let ?c = "sql_begin (ce_sql e 0) c"
  let ?bump = "bump_usage (\<lambda>d. d\<lparr>ud_turns := ud_turns d + 1\<rparr>) u (ce_today e)"
  have q1: "conn_all quota_ok ?c" using q by blast
  show ?thesis
  proof (cases "\<exists>row. quota_select e (cx_db c) u = Some row \<and> quota_verdict row = 0")
    case False
    then show ?thesis using q q1
      by (auto simp: store_quota_begin_turn_def i Let_def split: option.split)
  next
    case True
    then obtain row where row: "quota_select e (cx_db c) u = Some row" "quota_verdict row = 0" by blast
    have q2: "conn_all quota_ok (upd ?bump ?c)"
      using quota_ok_count [OF _ row] q by (intro conn_all_upd [OF q1]) (simp add: conn_all_def)
    obtain p where p: "profile_of (cx_db c) u = Some p"
      "qp_max_concurrent_turns p \<ge> 0 \<longrightarrow> running_of (cx_db c) u < qp_max_concurrent_turns p"
      using row by (auto simp: quota_select_def quota_verdict_0)
    have "quota_ok (insert_running x (?bump (cx_db c)))" if "rt_user_id x = u" for x
      using p that quota_ok_count [OF _ row] q
      by (intro quota_ok_start [where u = u and p = p]) (auto simp: conn_all_def profile_of_def running_of_def)
    then have q3: "conn_all quota_ok (upd (insert_running x) (upd ?bump ?c))" if "rt_user_id x = u" for x
      using that by (intro conn_all_upd [OF q2]) simp
    show ?thesis using q q1 q2 q3
      by (auto simp: store_quota_begin_turn_def i row Let_def simp del: conn.update_convs intro!: conn_all_rollback conn_all_commit)
  qed
qed

lemma quota_end_keeps: "conn_all quota_ok c \<Longrightarrow> conn_all quota_ok (store_quota_end_turn e c tid)"
  by (auto simp: store_quota_end_turn_def conn_all_def intro: quota_ok_fewer_running)

lemma create_user_keeps: "conn_all quota_ok c \<Longrightarrow> conn_all quota_ok (fst (store_create_user e c username password role))"
proof -
  assume q: "conn_all quota_ok c"
  obtain r1 i1 where i: "fcgi_random_id (ce_entropy e 0) ''usr_'' 64 = (r1, i1)" by fastforce
  obtain r2 i2 where h: "fcgi_password_hash (ce_entropy e (Suc 0)) (Some password) 192 = (r2, i2)" by fastforce
  let ?uid = "str_of i1"
  let ?u = "\<lparr>us_user_id = ?uid, us_username = username, us_password_hash = str_of i2, us_role = role,
              us_disabled = False, us_created_at = ce_now e, us_updated_at = ce_now e\<rparr>"
  let ?db = "insert_user ?u (cx_db c)"
  have a: "quota_ok ?db" using q by (auto simp: conn_all_def)
  have b: "quota_ok (?db\<lparr>st_user_quota := (st_user_quota ?db)(?uid \<mapsto> p)\<rparr>)"
    if "\<forall>x \<in> set (st_users (cx_db c)). us_user_id x \<noteq> ?uid \<and> us_username x \<noteq> username" for p
  proof (rule quota_ok_new_quota [OF a])
    have "?uid \<notin> us_user_id ` set (st_users (cx_db c))" using that by auto
    then show "st_user_quota ?db ?uid = None" using q by (auto simp: conn_all_def quota_ok_def insert_user_def)
  qed (simp add: insert_user_def)
  have s: "\<forall>x. cx_saved c = Some x \<longrightarrow> quota_ok x" using q by (simp add: conn_all_def)
  show ?thesis using q a b s by (auto simp: store_create_user_def i h Let_def conn_all_set)
qed

lemma artifact_register_keeps:
  "conn_all quota_ok c \<Longrightarrow> conn_all quota_ok (fst (store_artifact_register e c u sid kind m fname path n))"
proof -
  assume q: "conn_all quota_ok c"
  obtain rc idb where i: "fcgi_random_id (ce_entropy e 0) ''art_'' 64 = (rc, idb)" by fastforce
  have a: "quota_ok (insert_artifact x s) = quota_ok s" "quota_ok (add_storage u k s) = quota_ok s" for x s k
    by (simp_all add: insert_artifact_def add_storage_def)
  show ?thesis using q
    by (auto simp: store_artifact_register_def i Let_def conn_all_def a intro!: quota_ok_bump_other)
qed

section \<open>Session ownership\<close>

lemma generate_display_id_length: "generate_display_id ent = (rc, idb) \<Longrightarrow> length (str_of idb) \<le> 15"
  by (auto simp: generate_display_id_def morph_random_id_nbytes_def str_of_def Let_def split: prod.splits if_splits)

definition add_session :: "session_row \<Rightarrow> store \<Rightarrow> store" where
  "add_session row s = s\<lparr>st_sessions := st_sessions s @ [row], st_next_session := st_next_session s + 1\<rparr>"

text \<open>A row that was inserted has a new number, a new name and a new identifier that fits its buffers.\<close>

definition new_session :: "store \<Rightarrow> session_row \<Rightarrow> bool" where
  "new_session s row =
     (se_id row = st_next_session s \<and> length (se_display_id row) \<le> 15 \<and>
      (\<forall>x \<in> set (st_sessions s). se_display_id x \<noteq> se_display_id row \<and> se_name x \<noteq> se_name row))"

lemma session_insert_spec:
  assumes "session_insert e c name model n d = (c', rc, res)" "length d \<le> 15"
  shows "(res = None \<and> c' = c) \<or>
    (\<exists>row. res = Some row \<and> rc = 0 \<and> se_name row = name \<and> new_session (cx_db c) row \<and> c' = upd (add_session row) c)"
  using assms
proof (induction n arbitrary: d)
  case (0 d)
  then show ?case using generate_display_id_length [of "ce_entropy e 3"]
    by (subst (asm) session_insert.simps)
       (auto simp: Let_def new_session_def add_session_def split: prod.splits if_splits)
next
  case (Suc n d)
  obtain rc1 i1 where g: "(if Suc n < 3 then generate_display_id (ce_entropy e (3 - Suc n)) else (0, Some d)) = (rc1, i1)"
    by fastforce
  have l: "length (str_of i1) \<le> 15"
    using g generate_display_id_length [of "ce_entropy e (3 - Suc n)"] Suc.prems(2)
    by (auto simp: str_of_def split: if_splits)
  show ?case using Suc.prems(1) Suc.IH [of "str_of i1"] l
    unfolding session_insert.simps [of e c name model "Suc n" d] g
    by (auto simp: Let_def new_session_def add_session_def split: if_splits)
qed

lemma session_create_spec:
  assumes "session_create e c name model = (c', rc, res)"
  shows "(res = None \<and> c' = c) \<or>
    (\<exists>row. res = Some row \<and> rc = 0 \<and> new_session (cx_db c) row \<and> c' = upd (add_session row) c)"
proof -
  obtain r i where g: "generate_display_id (ce_entropy e 0) = (r, i)" by fastforce
  show ?thesis
  proof (cases "r < 0")
    case False
    then have "session_insert e c (strncpy_fixed 256 name) (strncpy_fixed 64 model) 3 (str_of i) = (c', rc, res)"
      using assms by (simp add: session_create_def g)
    from session_insert_spec [OF this generate_display_id_length [OF g]] show ?thesis by blast
  qed (use assms in \<open>simp add: session_create_def g\<close>)
qed

text \<open>
  Every owned session exists and has one owner, identifiers and numbers are unique, and the session of a sub-agent is
  owned by nobody.
\<close>

definition owner_keys :: "store \<Rightarrow> string set" where
  "owner_keys s = fst ` set (st_owner s)"

definition children :: "store \<Rightarrow> int set" where
  "children s = snd ` set (st_tasks s)"

definition owner_ok :: "store \<Rightarrow> bool" where
  "owner_ok s =
     (distinct (map fst (st_owner s)) \<and> owner_keys s \<subseteq> se_display_id ` set (st_sessions s) \<and>
      distinct (map se_display_id (st_sessions s)) \<and> distinct (map se_id (st_sessions s)) \<and>
      (\<forall>x \<in> set (st_sessions s). se_id x < st_next_session s) \<and>
      (\<forall>x \<in> set (st_sessions s). se_display_id x \<in> owner_keys s \<longrightarrow> se_id x \<notin> children s) \<and>
      (\<forall>ch \<in> children s. ch < st_next_session s))"

lemma owner_okD:
  assumes "owner_ok s"
  shows "distinct (map fst (st_owner s))" "k \<in> owner_keys s \<Longrightarrow> \<exists>x \<in> set (st_sessions s). se_display_id x = k"
    "inj_on se_display_id (set (st_sessions s))" "inj_on se_id (set (st_sessions s))"
    "x \<in> set (st_sessions s) \<Longrightarrow> se_id x < st_next_session s"
    "x \<in> set (st_sessions s) \<Longrightarrow> se_display_id x \<in> owner_keys s \<Longrightarrow> se_id x \<notin> children s"
    "ch \<in> children s \<Longrightarrow> ch < st_next_session s"
  using assms by (auto simp: owner_ok_def distinct_map)

lemma owner_ok_frame [simp]:
  "owner_ok (s\<lparr>st_users := a\<rparr>) = owner_ok s" "owner_ok (s\<lparr>st_user_quota := b\<rparr>) = owner_ok s"
  "owner_ok (s\<lparr>st_usage := c\<rparr>) = owner_ok s" "owner_ok (s\<lparr>st_storage := d\<rparr>) = owner_ok s"
  "owner_ok (s\<lparr>st_running := e\<rparr>) = owner_ok s" "owner_ok (s\<lparr>st_artifacts := f\<rparr>) = owner_ok s"
  "owner_ok (s\<lparr>st_events := g\<rparr>) = owner_ok s" "owner_ok (s\<lparr>st_next_event := h\<rparr>) = owner_ok s"
  "owner_ok (s\<lparr>st_actions := i\<rparr>) = owner_ok s" "owner_ok (s\<lparr>st_next_action := j\<rparr>) = owner_ok s"
  "owner_ok (s\<lparr>st_canvas := k\<rparr>) = owner_ok s" "owner_ok (s\<lparr>st_profiles := l\<rparr>) = owner_ok s"
  by (simp_all add: owner_ok_def owner_keys_def children_def)

lemma owner_ok_add_session:
  assumes "owner_ok s" "new_session s row"
  shows "owner_ok (add_session row s)" "se_display_id row \<notin> owner_keys s"
proof -
  note o = owner_okD [OF assms(1)]
  have n: "se_id row = st_next_session s" "\<And>x. x \<in> set (st_sessions s) \<Longrightarrow> se_display_id x \<noteq> se_display_id row"
    using assms(2) by (auto simp: new_session_def)
  show k: "se_display_id row \<notin> owner_keys s" using o(2) n(2) by blast
  have ks: "owner_keys (add_session row s) = owner_keys s" "children (add_session row s) = children s"
    by (simp_all add: owner_keys_def children_def add_session_def)
  have "se_id row \<notin> se_id ` set (st_sessions s)" "se_display_id row \<notin> se_display_id ` set (st_sessions s)"
    using o(5) n by force+
  moreover have "se_id x < st_next_session s + 1" if "x \<in> set (st_sessions s)" for x using o(5) [OF that] by simp
  moreover have "ch < st_next_session s + 1" if "ch \<in> children s" for ch using o(7) [OF that] by simp
  moreover have "distinct (map se_id (st_sessions s))" "distinct (map se_display_id (st_sessions s))"
    "owner_keys s \<subseteq> se_display_id ` set (st_sessions s)" using assms(1) by (simp_all add: owner_ok_def)
  ultimately show "owner_ok (add_session row s)"
    using o(1,6) k n(1) unfolding owner_ok_def ks by (auto simp: add_session_def)
qed

text \<open>The new identifier of a row that had none.\<close>

lemma owner_ok_rename:
  assumes "owner_ok s" "se_display_id row \<notin> owner_keys s" "row \<in> set (st_sessions s)"
    "\<And>x. x \<in> set (st_sessions s) \<Longrightarrow> se_id x \<noteq> se_id row \<Longrightarrow> se_display_id x \<noteq> d" "d \<notin> owner_keys s"
  shows "owner_ok (s\<lparr>st_sessions := map (rename_session (se_id row) d) (st_sessions s)\<rparr>)"
    (is "owner_ok ?s")
proof -
  note o = owner_okD [OF assms(1)]
  let ?f = "rename_session (se_id row) d"
  have f: "se_id (?f x) = se_id x" "se_display_id (?f x) = (if se_id x = se_id row then d else se_display_id x)" for x
    by (simp_all add: rename_session_def)
  have ks: "owner_keys ?s = owner_keys s" "children ?s = children s" by (simp_all add: owner_keys_def children_def)
  have i: "map (se_id \<circ> ?f) (st_sessions s) = map se_id (st_sessions s)" by (simp add: f)
  have "inj_on (se_display_id \<circ> ?f) (set (st_sessions s))"
  proof (rule inj_onI)
    fix x y assume xy: "x \<in> set (st_sessions s)" "y \<in> set (st_sessions s)" and eq: "(se_display_id \<circ> ?f) x = (se_display_id \<circ> ?f) y"
    have "se_id x = se_id row \<longleftrightarrow> se_id y = se_id row"
      using eq assms(4) [OF xy(1)] assms(4) [OF xy(2)] by (auto simp: f split: if_splits)
    then show "x = y" using eq inj_onD [OF o(3) _ xy] inj_onD [OF o(4) _ xy] by (auto simp: f split: if_splits)
  qed
  then have dd: "distinct (map (se_display_id \<circ> ?f) (st_sessions s))"
    using assms(1) by (auto simp: owner_ok_def distinct_map)
  have k: "owner_keys s \<subseteq> (se_display_id \<circ> ?f) ` set (st_sessions s)"
  proof
    fix y assume y: "y \<in> owner_keys s"
    then obtain x where x: "x \<in> set (st_sessions s)" "se_display_id x = y" using o(2) by blast
    then have "se_id x \<noteq> se_id row" using y assms(2,3) o(4) by (auto dest: inj_onD)
    then have "y = (se_display_id \<circ> ?f) x" using x by (simp add: f)
    then show "y \<in> (se_display_id \<circ> ?f) ` set (st_sessions s)" using x(1) by (rule image_eqI)
  qed
  have l: "se_id (?f x) < st_next_session s" "se_display_id (?f x) \<in> owner_keys s \<Longrightarrow> se_id (?f x) \<notin> children s"
    if "x \<in> set (st_sessions s)" for x
    using o(5,6) [OF that] assms(5) by (auto simp: f split: if_splits)
  have di: "distinct (map se_id (st_sessions s))" using assms(1) by (simp add: owner_ok_def)
  show ?thesis
    unfolding owner_ok_def ks
    using o(1,7) di dd k l by (simp add: image_comp i)
qed

lemma owner_ok_set_owner:
  assumes "owner_ok s" "x \<in> set (st_sessions s)" "se_id x \<notin> children s"
  shows "owner_ok (set_owner (se_display_id x) u s)"
proof -
  note o = owner_okD [OF assms(1)]
  have k: "owner_keys (set_owner (se_display_id x) u s) = insert (se_display_id x) (owner_keys s)"
    by (auto simp: owner_keys_def set_owner_def image_iff)
  have c: "children (set_owner (se_display_id x) u s) = children s" by (simp add: children_def set_owner_def)
  have d: "distinct (map fst (filter (\<lambda>(k, v). k \<noteq> se_display_id x) (st_owner s) @ [(se_display_id x, u)]))"
    using o(1) by (auto simp: distinct_map_filter)
  have "se_id y \<notin> children s" if "y \<in> set (st_sessions s)" "se_display_id y = se_display_id x" for y
    using inj_onD [OF o(3) that(2) that(1) assms(2)] assms(3) by simp
  then show ?thesis using assms(1,2) d unfolding owner_ok_def k c by (auto simp: set_owner_def)
qed

text \<open>What creating a session does: nothing, a row without an owner, or a row with its owner.\<close>

lemma store_create_session_cases:
  assumes "owner_ok (cx_db c)"
  obtains "fst (store_create_session e c u name model) = c"
  | s' where "fst (store_create_session e c u name model) = c\<lparr>cx_db := s'\<rparr>"
      "owner_ok s'" "\<exists>f. s' = (cx_db c)\<lparr>st_sessions := f, st_next_session := st_next_session s'\<rparr>"
  | s' x where "fst (store_create_session e c u name model) = c\<lparr>cx_db := set_owner (se_display_id x) u s'\<rparr>"
      "owner_ok s'" "\<exists>f. s' = (cx_db c)\<lparr>st_sessions := f, st_next_session := st_next_session s'\<rparr>"
      "x \<in> set (st_sessions s')" "se_id x \<notin> children s'" "se_display_id x \<notin> owner_keys s'"
proof -
  obtain c1 rc res where cr: "session_create e c name model = (c1, rc, res)" by (metis prod_cases3)
  from session_create_spec [OF cr] consider "c1 = c" "res = None"
    | row where "res = Some row" "rc = 0" "new_session (cx_db c) row" "c1 = upd (add_session row) c" by blast
  then show ?thesis
  proof cases
    case 1
    then show ?thesis using that(1) by (simp add: store_create_session_def cr)
  next
    case (2 row)
    let ?s1 = "add_session row (cx_db c)"
    have ok1: "owner_ok ?s1" and new: "se_display_id row \<notin> owner_keys ?s1" and mem: "row \<in> set (st_sessions ?s1)"
      using owner_ok_add_session [OF assms 2(3)] by (simp_all add: owner_keys_def add_session_def)
    have "se_id row \<notin> children (cx_db c)" using owner_okD(7) [OF assms, of "se_id row"] 2(3) by (auto simp: new_session_def)
    then have ch: "se_id row \<notin> children ?s1" by (simp add: children_def add_session_def)
    obtain c2 rc2 row2 where en: "session_ensure_display_id e c1 row = (c2, rc2, row2)" by (metis prod_cases3)
    have "\<exists>s2. c2 = c\<lparr>cx_db := s2\<rparr> \<and> owner_ok s2 \<and> (\<exists>f. s2 = (cx_db c)\<lparr>st_sessions := f, st_next_session := st_next_session s2\<rparr>)
        \<and> row2 \<in> set (st_sessions s2) \<and> se_id row2 \<notin> children s2 \<and> (rc2 = 0 \<longrightarrow> se_display_id row2 \<notin> owner_keys s2)
        \<and> length (se_display_id row2) \<le> 15"
      (is "\<exists>s2. ?P s2")
    proof (cases "c2 = c1 \<and> row2 = row")
      case True
      then show ?thesis using 2(3,4) ok1 new mem ch
        by (intro exI [of _ ?s1]) (auto simp: add_session_def new_session_def)
    next
      case False
      then obtain d where d: "length d \<le> 15" "\<forall>x \<in> set (st_sessions ?s1). se_id x = se_id row \<or> se_display_id x \<noteq> d"
        "row2 = row\<lparr>se_display_id := d\<rparr>"
        "c2 = c\<lparr>cx_db := ?s1\<lparr>st_sessions := map (rename_session (se_id row) d) (st_sessions ?s1)\<rparr>\<rparr>"
      proof -
        obtain r i where g: "generate_display_id (ce_entropy e 4) = (r, i)" by fastforce
        show ?thesis using en 2(4) False generate_display_id_length [OF g]
          by (intro that [of "str_of i"]) (auto simp: session_ensure_display_id_def g Let_def split: if_splits)
      qed
      let ?s2 = "?s1\<lparr>st_sessions := map (rename_session (se_id row) d) (st_sessions ?s1)\<rparr>"
      have dk: "d \<notin> owner_keys ?s1"
      proof
        assume dk: "d \<in> owner_keys ?s1"
        then obtain y where y: "y \<in> set (st_sessions ?s1)" "se_display_id y = d" using owner_okD(2) [OF ok1] by blast
        then have "y = row" using d(2) mem inj_onD [OF owner_okD(4) [OF ok1], of y row] by auto
        then show False using y dk new by simp
      qed
      have "owner_ok ?s2" using d(2) dk ok1 new mem by (intro owner_ok_rename) auto
      moreover have "row2 \<in> set (st_sessions ?s2)" using mem by (auto simp: d(3) rename_session_def intro!: image_eqI [of _ _ row])
      moreover have "owner_keys ?s2 = owner_keys ?s1" "children ?s2 = children ?s1" by (simp_all add: owner_keys_def children_def)
      moreover have "\<exists>f. ?s2 = (cx_db c)\<lparr>st_sessions := f, st_next_session := st_next_session ?s2\<rparr>"
        by (rule exI [of _ "st_sessions ?s2"]) (simp add: add_session_def)
      ultimately show ?thesis using d(1,3,4) dk ch by (intro exI [of _ ?s2]) simp
    qed
    then obtain s2 where s2: "?P s2" ..
    have "snprintf_n 64 (se_display_id row2) = se_display_id row2" using s2 by (intro snprintf_n_id) simp
    then have r: "fst (store_create_session e c u name model) =
        (if rc2 \<noteq> 0 \<or> \<not> ce_sql e 10 \<or> \<not> ce_sql e 11 then c2 else upd (set_owner (se_display_id row2) u) c2)"
      using 2(1,2) en by (simp add: store_create_session_def cr Let_def)
    show ?thesis
    proof (cases "rc2 \<noteq> 0 \<or> \<not> ce_sql e 10 \<or> \<not> ce_sql e 11")
      case True
      then show ?thesis using r s2 that(2) [of s2] by simp
    next
      case False
      then show ?thesis using r s2 that(3) [of row2 s2] by simp
    qed
  qed
qed

lemma run_deletes_keeps:
  "(\<And>d s. d \<in> set ds \<Longrightarrow> P s \<Longrightarrow> P (d sid s)) \<Longrightarrow> conn_all P c \<Longrightarrow> conn_all P (fst (run_deletes e k ds sid c))"
proof (induction ds arbitrary: k c)
  case (Cons d ds)
  have "conn_all P (upd (d sid) c)" using Cons.prems by (intro conn_all_upd) (auto simp: conn_all_def)
  then show ?case using Cons.IH [of "upd (d sid) c" "k + 2"] Cons.prems by simp
qed simp

lemma run_deletes_True:
  "run_deletes e k ds sid c = (c', True) \<Longrightarrow> c' = upd (\<lambda>s. foldl (\<lambda>s d. d sid s) s ds) c"
proof (induction ds arbitrary: k c)
  case (Cons d ds)
  then have "run_deletes e (k + 2) ds sid (upd (d sid) c) = (c', True)" by (simp split: if_splits)
  from Cons.IH [OF this] show ?case by simp
qed simp

lemma foldl_keeps:
  "(\<And>d s. d \<in> set ds \<Longrightarrow> P s \<Longrightarrow> P (d sid s)) \<Longrightarrow> P s \<Longrightarrow> P (foldl (\<lambda>s d. d sid s) s ds)"
  by (induction ds arbitrary: s) auto

lemma del_tables_quota: "d \<in> set del_tables \<Longrightarrow> quota_ok s \<Longrightarrow> quota_ok (d sid s)"
  by (auto simp: del_tables_def intro: quota_ok_fewer_running)

lemma owner_ok_filter_owner: "owner_ok s \<Longrightarrow> owner_ok (s\<lparr>st_owner := filter (\<lambda>(k, v). k \<noteq> sid) (st_owner s)\<rparr>)"
proof -
  assume o: "owner_ok s"
  have "owner_keys (s\<lparr>st_owner := filter (\<lambda>(k, v). k \<noteq> sid) (st_owner s)\<rparr>) \<subseteq> owner_keys s"
    by (auto simp: owner_keys_def)
  then show ?thesis using o unfolding owner_ok_def by (auto simp: distinct_map_filter children_def)
qed

lemma del_tables_owner: "d \<in> set del_tables \<Longrightarrow> owner_ok s \<Longrightarrow> owner_ok (d sid s)"
  by (auto simp: del_tables_def intro: owner_ok_filter_owner)

lemma owner_ok_delete_rows:
  assumes "owner_ok s" "x \<in> set (st_sessions s)" "se_display_id x \<notin> owner_keys s"
  shows "owner_ok (delete_session_rows (se_id x) s)" (is "owner_ok ?s")
proof -
  note o = owner_okD [OF assms(1)]
  let ?gone = "insert (se_id x) (snd ` {t \<in> set (st_tasks s). fst t = se_id x})"
  have st: "st_sessions ?s = filter (\<lambda>y. se_id y \<notin> ?gone) (st_sessions s)"
    by (auto simp: delete_session_rows_def Let_def case_prod_unfold intro!: filter_cong)
  have ks: "owner_keys ?s = owner_keys s" "st_next_session ?s = st_next_session s" "children ?s \<subseteq> children s" "st_owner ?s = st_owner s"
    by (auto simp: owner_keys_def children_def delete_session_rows_def Let_def)
  have "owner_keys s \<subseteq> se_display_id ` set (st_sessions ?s)"
  proof
    fix k assume k: "k \<in> owner_keys s"
    then obtain y where y: "y \<in> set (st_sessions s)" "se_display_id y = k" using o(2) by blast
    then have "se_id y \<noteq> se_id x" "se_id y \<notin> children s"
      using k assms(2,3) o(4) o(6) [of y] by (auto dest: inj_onD)
    then have "y \<in> set (st_sessions ?s)" using y by (auto simp: st children_def)
    then show "k \<in> se_display_id ` set (st_sessions ?s)" using y by blast
  qed
  moreover have sub: "set (st_sessions ?s) \<subseteq> set (st_sessions s)" by (auto simp: st)
  moreover have "distinct (map se_display_id (st_sessions ?s))" "distinct (map se_id (st_sessions ?s))"
    using assms(1) by (auto simp: st owner_ok_def distinct_map_filter)
  moreover have "\<forall>y \<in> set (st_sessions ?s). se_id y < st_next_session s"
    "\<forall>y \<in> set (st_sessions ?s). se_display_id y \<in> owner_keys s \<longrightarrow> se_id y \<notin> children ?s"
    using sub o(5,6) ks(3) by blast+
  moreover have "\<forall>ch \<in> children ?s. ch < st_next_session s" using o(7) ks(3) by blast
  ultimately show ?thesis using o(1) unfolding owner_ok_def ks(1,2,4) by simp
qed

text \<open>Deleting a session: the outcomes with the state they leave.\<close>

lemma store_delete_session_cases:
  fixes e c sid u
  defines "c0 \<equiv> sql_begin (ce_sql e 0) c"
  obtains (Rolled_Back) "fst (store_delete_session e c sid u) = sql_rollback c0"
  | (Partial) "fst (store_delete_session e c sid u) = sql_rollback (fst (run_deletes e 5 del_tables sid c0))"
  | (Deleted) x where "x \<in> set (st_sessions (cx_db c))" "se_display_id x = sid"
      "fst (store_delete_session e c sid u) =
         sql_commit (ce_sql e 21) (upd (delete_session_rows (se_id x)) (upd (\<lambda>s. foldl (\<lambda>s d. d sid s) s del_tables) c0))"
proof -
  obtain c1 ok where d: "run_deletes e 5 del_tables sid c0 = (c1, ok)" by fastforce
  have st: "st_sessions (foldl (\<lambda>s d. d sid s) s del_tables) = st_sessions s" for s by (simp add: del_tables_def)
  let ?g = "session_get_by_display_id (ce_sql e 17) (ce_sql e 18) (cx_db c1) sid"
  have "fst (store_delete_session e c sid u) = sql_rollback c0 \<or>
    fst (store_delete_session e c sid u) = sql_rollback c1 \<or>
    (\<exists>x. ok \<and> ?g = Inr x \<and> fst (store_delete_session e c sid u) = sql_commit (ce_sql e 21) (upd (delete_session_rows (se_id x)) c1))"
    by (simp add: store_delete_session_def d c0_def [symmetric] session_delete_def Let_def split: sum.split)
  then consider "fst (store_delete_session e c sid u) = sql_rollback c0" | "fst (store_delete_session e c sid u) = sql_rollback c1"
    | x where "ok" "?g = Inr x" "fst (store_delete_session e c sid u) = sql_commit (ce_sql e 21) (upd (delete_session_rows (se_id x)) c1)"
    by blast
  then show ?thesis
  proof cases
    case 1
    then show ?thesis using Rolled_Back by simp
  next
    case 2
    then show ?thesis using Partial d by simp
  next
    case (3 x)
    then have c1: "c1 = upd (\<lambda>s. foldl (\<lambda>s d. d sid s) s del_tables) c0" using run_deletes_True d by simp
    have "x \<in> set (st_sessions (cx_db c1)) \<and> se_display_id x = sid"
      using 3(2) by (auto simp: session_get_by_display_id_def find_Some_iff split: if_splits option.splits)
    then show ?thesis using Deleted [of x] 3(3) st by (simp add: c1 c0_def)
  qed
qed

lemma delete_session_keeps:
  assumes "conn_all quota_ok c" "conn_all owner_ok c"
  shows "conn_all quota_ok (fst (store_delete_session e c sid u))" "conn_all owner_ok (fst (store_delete_session e c sid u))"
proof -
  let ?c0 = "sql_begin (ce_sql e 0) c"
  have c0: "conn_all quota_ok ?c0" "conn_all owner_ok ?c0" using assms by blast+
  have "conn_all quota_ok (fst (store_delete_session e c sid u)) \<and> conn_all owner_ok (fst (store_delete_session e c sid u))"
  proof (cases rule: store_delete_session_cases [of e c sid u])
    case Rolled_Back
    then show ?thesis using c0 by auto
  next
    case Partial
    have "conn_all quota_ok (fst (run_deletes e 5 del_tables sid ?c0))" "conn_all owner_ok (fst (run_deletes e 5 del_tables sid ?c0))"
      by (rule run_deletes_keeps [OF _ c0(1)], erule (1) del_tables_quota)
         (rule run_deletes_keeps [OF _ c0(2)], erule (1) del_tables_owner)
    with Partial show ?thesis by auto
  next
    case (Deleted x)
    let ?s = "foldl (\<lambda>s d. d sid s) (cx_db c) del_tables"
    have q: "quota_ok ?s" using del_tables_quota conn_all_db [OF assms(1)] by (rule foldl_keeps)
    have o: "owner_ok ?s" using del_tables_owner conn_all_db [OF assms(2)] by (rule foldl_keeps)
    have m: "x \<in> set (st_sessions ?s)" "se_display_id x \<notin> owner_keys ?s"
      using Deleted(1,2) by (auto simp: del_tables_def owner_keys_def)
    have "quota_ok (delete_session_rows (se_id x) ?s)" using q by (simp add: delete_session_rows_def Let_def)
    then have "conn_all quota_ok (upd (delete_session_rows (se_id x)) (upd (\<lambda>s. foldl (\<lambda>s d. d sid s) s del_tables) ?c0))"
      using c0(1) by (simp add: conn_all_def)
    moreover have "conn_all owner_ok (upd (delete_session_rows (se_id x)) (upd (\<lambda>s. foldl (\<lambda>s d. d sid s) s del_tables) ?c0))"
      using c0(2) owner_ok_delete_rows [OF o m] by (simp add: conn_all_def)
    ultimately show ?thesis unfolding Deleted(3) by blast
  qed
  then show "conn_all quota_ok (fst (store_delete_session e c sid u))" "conn_all owner_ok (fst (store_delete_session e c sid u))"
    by blast+
qed

section \<open>The invariant of the store\<close>

definition conn_ok :: "conn \<Rightarrow> bool" where
  "conn_ok c = (conn_all quota_ok c \<and> conn_all owner_ok c)"

lemma create_session_keeps: "conn_ok c \<Longrightarrow> conn_ok (fst (store_create_session e c u name model))"
proof -
  assume k: "conn_ok c"
  then have o: "owner_ok (cx_db c)" and q: "quota_ok (cx_db c)" by (simp_all add: conn_ok_def conn_all_def)
  have qs: "quota_ok s'" if "s' = (cx_db c)\<lparr>st_sessions := f, st_next_session := n\<rparr>" for s' f n
    using q that by simp
  show ?thesis
  proof (cases rule: store_create_session_cases [OF o, of e u name model])
    case 1
    then show ?thesis using k by simp
  next
    case (2 s')
    then have "quota_ok s'" using qs by blast
    then show ?thesis using k 2(1,2) by (simp add: conn_ok_def conn_all_set conn_all_def)
  next
    case (3 s' x)
    then have "quota_ok s'" using qs by blast
    then have "quota_ok (set_owner (se_display_id x) u s')" by (simp add: set_owner_def)
    then show ?thesis using k 3(1) owner_ok_set_owner [OF 3(2,4,5)] by (simp add: conn_ok_def conn_all_set conn_all_def)
  qed
qed

lemma create_user_owner: "conn_all owner_ok c \<Longrightarrow> conn_all owner_ok (fst (store_create_user e c username password role))"
  by (auto simp: store_create_user_def Let_def conn_all_set conn_all_def insert_user_def split: prod.split)

lemma quota_owner:
  "conn_all owner_ok c \<Longrightarrow> conn_all owner_ok (fst (store_quota_begin_turn e c u sid))"
  "conn_all owner_ok c \<Longrightarrow> conn_all owner_ok (store_quota_end_turn e c tid)"
proof -
  assume o: "conn_all owner_ok c"
  have b: "owner_ok (bump_usage f v d s) = owner_ok s" "owner_ok (insert_running x s) = owner_ok s" for f v d s x
    by (simp_all add: bump_usage_def insert_running_def)
  have db: "owner_ok (cx_db c)" using o by (rule conn_all_db)
  show "conn_all owner_ok (fst (store_quota_begin_turn e c u sid))"
    using o db by (auto simp: store_quota_begin_turn_def Let_def b
        intro!: conn_all_rollback conn_all_commit conn_all_setI split: prod.split option.split)
  show "conn_all owner_ok (store_quota_end_turn e c tid)"
    using o by (simp add: store_quota_end_turn_def conn_all_def)
qed

lemma simple_keeps:
  assumes "conn_ok c"
  shows "conn_ok (fst (canvas_add_node e c sid txt))" "conn_ok (fst (canvas_patch_node e c sid nid txt))"
    "conn_ok (fst (actions_enqueue e c sid type payload))" "conn_ok (fst (events_publish e c sid type payload))"
    "conn_ok (fst (store_artifact_register e c u sid kind m fname path n))"
proof -
  show "conn_ok (fst (canvas_add_node e c sid txt))" "conn_ok (fst (canvas_patch_node e c sid nid txt))"
    "conn_ok (fst (actions_enqueue e c sid type payload))" "conn_ok (fst (events_publish e c sid type payload))"
    using assms by (simp_all add: conn_ok_def conn_all_def canvas_add_node_def canvas_patch_node_def actions_enqueue_def
        events_publish_def insert_event_def Let_def)
  have "conn_all owner_ok (fst (store_artifact_register e c u sid kind m fname path n))"
    using assms by (auto simp: conn_ok_def conn_all_def store_artifact_register_def Let_def insert_artifact_def add_storage_def
        bump_usage_def split: prod.split)
  then show "conn_ok (fst (store_artifact_register e c u sid kind m fname path n))"
    using assms artifact_register_keeps by (simp add: conn_ok_def)
qed

lemma actions_drain_keeps: "conn_ok c \<Longrightarrow> conn_ok (fst (actions_drain_one e c sid))"
proof -
  assume k: "conn_ok c"
  have b: "quota_ok (consume j s) = quota_ok s" "owner_ok (consume j s) = owner_ok s" for j s
    by (simp_all add: consume_def)
  have "quota_ok (cx_db c)" "owner_ok (cx_db c)" using k by (simp_all add: conn_ok_def conn_all_def)
  then show ?thesis using k
    by (auto simp: actions_drain_one_def conn_ok_def Let_def b split: list.split
        intro!: conn_all_rollback conn_all_commit conn_all_setI)
qed

lemma store_effect_keeps: "store_effect u c c' \<Longrightarrow> conn_ok c \<Longrightarrow> conn_ok c'"
proof (induction rule: store_effect.induct)
  case (Create c e name model)
  then show ?case by (rule create_session_keeps)
next
  case (Delete sid c e)
  then show ?case using delete_session_keeps by (simp add: conn_ok_def)
next
  case (Begin sid c e)
  then show ?case using quota_begin_keeps quota_owner(1) by (simp add: conn_ok_def)
next
  case (Undo sid c e c' tid e')
  then have "conn_ok c'"
    using quota_begin_keeps [of c e u sid] quota_owner(1) [of c e u sid] by (simp add: conn_ok_def)
  then show ?case using quota_end_keeps quota_owner(2) by (simp add: conn_ok_def)
next
  case (Node sid c e bt c' rc nid c'' e' type payload)
  then have "conn_ok c'" using simple_keeps(1) [of c e sid bt] by simp
  then show ?case using Node(3) simple_keeps(4) by auto
next
  case (Patch sid c e nid bt c' rc c'' e' type payload)
  then have "conn_ok c'" using simple_keeps(2) [of c e sid nid bt] by simp
  then show ?case using Patch(3) simple_keeps(4) by auto
next
  case (Action sid c e type payload)
  then show ?case by (intro simple_keeps(3))
qed

lemma account_created_keeps: "account_created he c c' \<Longrightarrow> conn_ok c \<Longrightarrow> conn_ok c'"
  using create_user_keeps create_user_owner by (auto simp: account_created_def conn_ok_def)

lemma server_step_conn_ok: "server_step sv sv' \<Longrightarrow> conn_ok (sv_conn sv) \<Longrightarrow> conn_ok (sv_conn sv')"
proof (induction rule: server_step.induct)
  case (Request sv he r)
  then show ?case using dispatch_effect [of he sv r] store_effect_keeps account_created_keeps by blast
next
  case (End_Turn sv e tid)
  then show ?case using quota_end_keeps quota_owner(2) by (simp add: conn_ok_def)
qed (simp_all add: simple_keeps actions_drain_keeps)

lemma fresh_conn_ok: "conn_ok (sv_conn (fresh_server h))"
  by (simp add: fresh_server_def auth_init_def conn_ok_def conn_all_def init_default_quota_profiles_def empty_store_def
      quota_defs owner_ok_def owner_keys_def children_def)

lemma server_run_conn_ok: "server_run sv sv' \<Longrightarrow> conn_ok (sv_conn sv) \<Longrightarrow> conn_ok (sv_conn sv')"
  by (induction rule: server_run.induct) (auto dest: server_step_conn_ok)

end
