(* ===== verification/Fcgi_Guarantees.thy ===== *)
theory Fcgi_Guarantees
  imports Fcgi_Safety
begin

text \<open>
  The guarantees of the web front end, on the invariants of \<open>Fcgi_Safety\<close>: the users' sessions are separate, quotas
  hold, protected endpoints need an identity, and administrators come from the setup only.  \<open>Fcgi_Tokens\<close> and
  \<open>Fcgi_Events\<close> add the tokens, the event stream and the queue of actions.
\<close>

section \<open>The data of one session\<close>

definition session_data :: "store \<Rightarrow> string \<Rightarrow>
    (string \<times> string) list \<times> event_row list \<times> action_row list \<times> canvas_node list \<times> artifact_record list \<times> running_turn list" where
  "session_data s sid =
     (filter (\<lambda>p. fst p = sid) (st_owner s), filter (\<lambda>x. ev_session_id x = sid) (st_events s),
      filter (\<lambda>x. ac_session_id x = sid) (st_actions s), filter (\<lambda>x. cn_session_id x = sid) (st_canvas s),
      filter (\<lambda>x. ar_session_id x = sid) (st_artifacts s), filter (\<lambda>x. rt_session_id x = sid) (st_running s))"

lemma session_data_frame [simp]:
  "session_data (s\<lparr>st_users := a\<rparr>) sid = session_data s sid" "session_data (s\<lparr>st_user_quota := b\<rparr>) sid = session_data s sid"
  "session_data (s\<lparr>st_usage := c\<rparr>) sid = session_data s sid" "session_data (s\<lparr>st_storage := d\<rparr>) sid = session_data s sid"
  "session_data (s\<lparr>st_sessions := e\<rparr>) sid = session_data s sid" "session_data (s\<lparr>st_next_session := f\<rparr>) sid = session_data s sid"
  "session_data (s\<lparr>st_tasks := g\<rparr>) sid = session_data s sid" "session_data (s\<lparr>st_next_event := h\<rparr>) sid = session_data s sid"
  "session_data (s\<lparr>st_next_action := i\<rparr>) sid = session_data s sid"
  by (simp_all add: session_data_def)

lemma session_data_users [simp]:
  "session_data (insert_user r s) sid = session_data s sid" "session_data (bump_usage f u d s) sid = session_data s sid"
  by (simp_all add: insert_user_def bump_usage_def)



lemma insert_running_other [simp]:
  "rt_session_id x \<noteq> sid \<Longrightarrow> session_data (insert_running x s) sid = session_data s sid"
  by (simp add: session_data_def insert_running_def)

lemma insert_event_other [simp]: "sid' \<noteq> sid \<Longrightarrow> session_data (insert_event n sid' t p s) sid = session_data s sid"
  by (simp add: session_data_def insert_event_def)












section \<open>Reading\<close>

text \<open>What a user can see of the store: the own sessions, their canvas nodes and the own artifacts.\<close>

definition visible :: "store \<Rightarrow> string \<Rightarrow>
    (string \<times> string) list \<times> session_row list \<times> (string \<Rightarrow> canvas_node list) \<times> artifact_record list" where
  "visible s u =
     (filter (\<lambda>p. snd p = u) (st_owner s), owned_sessions s u,
      \<lambda>sid. if (sid, u) \<in> set (st_owner s) then filter (\<lambda>n. cn_session_id n = sid) (st_canvas s) else [],
      filter (\<lambda>a. ar_user_id a = u) (st_artifacts s))"

lemma visible_owned:
  assumes "visible s1 u = visible s2 u"
  shows "(sid, u) \<in> set (st_owner s1) \<longleftrightarrow> (sid, u) \<in> set (st_owner s2)"
proof -
  have "filter (\<lambda>p. snd p = u) (st_owner s1) = filter (\<lambda>p. snd p = u) (st_owner s2)" using assms by (simp add: visible_def)
  then have "(sid, u) \<in> set (filter (\<lambda>p. snd p = u) (st_owner s1)) \<longleftrightarrow> (sid, u) \<in> set (filter (\<lambda>p. snd p = u) (st_owner s2))"
    by (rule arg_cong)
  then show ?thesis by simp
qed

lemma visible_canvas:
  assumes "visible s1 u = visible s2 u" "(sid, u) \<in> set (st_owner s1)"
  shows "filter (\<lambda>n. cn_session_id n = sid) (st_canvas s1) = filter (\<lambda>n. cn_session_id n = sid) (st_canvas s2)"
proof -
  have "fst (snd (snd (visible s1 u))) sid = fst (snd (snd (visible s2 u))) sid" using assms(1) by simp
  then have "(if (sid, u) \<in> set (st_owner s1) then filter (\<lambda>n. cn_session_id n = sid) (st_canvas s1) else []) =
        (if (sid, u) \<in> set (st_owner s2) then filter (\<lambda>n. cn_session_id n = sid) (st_canvas s2) else [])"
    by (simp only: visible_def fst_conv snd_conv)
  then show ?thesis using assms(2) visible_owned [OF assms(1), of sid] by simp
qed

lemma find_conj: "find (\<lambda>a. P a \<and> Q a) xs = find P (filter Q xs)"
  by (induction xs) auto

lemma filter_conj: "filter (\<lambda>a. P a \<and> Q a) xs = filter Q (filter P xs)"
  by (induction xs) auto

definition reading :: "handler \<Rightarrow> bool" where
  "reading h = (h \<in> {handle_list_sessions, handle_get_session, handle_get_canvas, handle_list_artifacts,
                     handle_artifact_meta, handle_get_artifact})"

lemma with_session_visible:
  assumes "visible (cx_db (sv_conn sv1)) (rq_user_id r) = visible (cx_db (sv_conn sv2)) (rq_user_id r)"
    "\<And>sid. (sid, rq_user_id r) \<in> set (st_owner (cx_db (sv_conn sv1))) \<Longrightarrow> snd (k1 sid) = snd (k2 sid)"
  shows "snd (with_session he sv1 r k1) = snd (with_session he sv2 r k2)"
  using assms(2) visible_owned [OF assms(1)]
  by (auto simp: with_session_def store_session_owned_by_def split: option.split)

text \<open>
  C18. What the reading endpoints answer a user depends on the user's own sessions, canvas nodes and artifacts only: two
  servers that agree on them give the same replies, whatever else they hold.
\<close>

theorem reads_confined:
  assumes "reading h" "visible (cx_db (sv_conn sv1)) (rq_user_id r) = visible (cx_db (sv_conn sv2)) (rq_user_id r)"
  shows "snd (run_handler he sv1 r h) = snd (run_handler he sv2 r h)"
proof -
  note v = assms(2)
  have o: "owned_sessions (cx_db (sv_conn sv1)) (rq_user_id r) = owned_sessions (cx_db (sv_conn sv2)) (rq_user_id r)"
    and a: "filter (\<lambda>a. ar_user_id a = rq_user_id r) (st_artifacts (cx_db (sv_conn sv1))) =
            filter (\<lambda>a. ar_user_id a = rq_user_id r) (st_artifacts (cx_db (sv_conn sv2)))"
    using v by (simp_all add: visible_def)
  have g: "store_artifact_get e (sv_conn sv1) aid (rq_user_id r) = store_artifact_get e (sv_conn sv2) aid (rq_user_id r)" for e aid
    by (simp add: store_artifact_get_def find_conj a)
  have l: "store_artifact_list_json pr e (sv_conn sv1) (rq_user_id r) sid = store_artifact_list_json pr e (sv_conn sv2) (rq_user_id r) sid"
    for pr e sid by (simp add: store_artifact_list_json_def filter_conj a del: filter_filter)
  have c: "canvas_list_json e (sv_conn sv1) sid = canvas_list_json e (sv_conn sv2) sid"
    if "(sid, rq_user_id r) \<in> set (st_owner (cx_db (sv_conn sv1)))" for e sid
    using visible_canvas [OF v that] by (simp add: canvas_list_json_def)
  have "snd (run_get_session he sv1 r) = snd (run_get_session he sv2 r)" "snd (run_get_canvas he sv1 r) = snd (run_get_canvas he sv2 r)"
    "snd (run_list_artifacts he sv1 r) = snd (run_list_artifacts he sv2 r)"
    unfolding run_get_session_def run_get_canvas_def run_list_artifacts_def
    by (rule with_session_visible [OF v]; simp add: c l Let_def split: sum.split)+
  then show ?thesis using assms(1)
    by (auto simp: reading_def run_handler_def run_list_sessions_def store_list_sessions_json_def o run_artifact_meta_def
        run_get_artifact_def g split: sum.split option.split)
qed

section \<open>An example\<close>

definition example_call :: call_env where
  "example_call = \<lparr>ce_entropy = \<lambda>i. \<lparr>dev_open = None, dev_read = \<lambda>i n. Inr (replicate n CHR ''A'')\<rparr>, ce_now = 1000,
     ce_today = ''2024-01-01'', ce_rand = 7, ce_sql = \<lambda>i. True, ce_mem = \<lambda>i. True\<rparr>"

definition example_handler :: handler_env where
  "example_handler = \<lparr>he_call = \<lambda>i. example_call, he_parse = \<lambda>s. Some (cJSON_Object []), he_print = \<lambda>j. Some ''{}'',
     he_now = \<lambda>i. 1000, he_mem = \<lambda>i. True, he_getenv = \<lambda>s. None, he_sess_dir = 0,
     he_token_entropy = \<lparr>dev_open = None, dev_read = \<lambda>i n. Inr (replicate n CHR ''A'')\<rparr>, he_token_open = None,
     he_bridge_turn_begin = True, he_thread = True, he_artifact_root = ''/out'', he_realpath = Inr, he_regular = \<lambda>p. True,
     he_open = \<lambda>p. None, he_first_flush = True, he_rounds = [], he_report = \<lambda>h c r. reply_204\<rparr>"

definition example_user :: "string \<Rightarrow> string \<Rightarrow> user_row" where
  "example_user uid name = \<lparr>us_user_id = uid, us_username = name, us_password_hash = ''x'', us_role = ''user'', us_disabled = False,
     us_created_at = 0, us_updated_at = 0\<rparr>"

definition example_session :: "int \<Rightarrow> string \<Rightarrow> session_row" where
  "example_session i sid = \<lparr>se_id = i, se_display_id = sid, se_name = sid, se_model = ''m'', se_created_at = 0, se_updated_at = 0\<rparr>"

definition example_store :: store where
  "example_store = (init_default_quota_profiles empty_store)\<lparr>
     st_users := [example_user ''usr_a'' ''alice'', example_user ''usr_b'' ''bob''],
     st_user_quota := [''usr_a'' \<mapsto> ''free'', ''usr_b'' \<mapsto> ''free''],
     st_owner := [(''s1'', ''usr_a''), (''s2'', ''usr_b'')],
     st_sessions := [example_session 1 ''s1'', example_session 2 ''s2''], st_next_session := 3,
     st_running := [\<lparr>rt_id = ''turn_1'', rt_user_id = ''usr_b'', rt_session_id = ''s2'', rt_started_at = 0, rt_heartbeat_at = 0\<rparr>],
     st_events := [\<lparr>ev_id = 1, ev_session_id = ''s1'', ev_type = ''t'', ev_payload = ''{}'', ev_ts = 0\<rparr>,
                   \<lparr>ev_id = 2, ev_session_id = ''s2'', ev_type = ''t'', ev_payload = ''{}'', ev_ts = 0\<rparr>], st_next_event := 3\<rparr>"

definition example_server :: server where
  "example_server = \<lparr>sv_conn = \<lparr>cx_db = example_store, cx_saved = None\<rparr>, sv_files = Map.empty,
     sv_cache = replicate TOKEN_CACHE_SIZE [], sv_trust_hdr = ''X-User'', sv_jobs = []\<rparr>"

definition example_request :: "string \<Rightarrow> string \<Rightarrow> request" where
  "example_request meth path = (populate_request ''HTTP_X_USER''
     [''REQUEST_METHOD'' \<mapsto> meth, ''DOCUMENT_URI'' \<mapsto> path, ''HTTP_X_USER'' \<mapsto> ''usr_a''] [])"



theorem reads_confined_witness:
  "snd (run_handler example_handler example_server ((example_request ''GET'' ''/api/sessions'')\<lparr>rq_user_id := ''usr_a''\<rparr>) handle_list_sessions)
   = snd (run_handler example_handler (example_server\<lparr>sv_conn := \<lparr>cx_db = example_store\<lparr>st_events := [], st_running := [],
       st_owner := [(''s1'', ''usr_a''), (''s2'', ''usr_c'')]\<rparr>, cx_saved = None\<rparr>\<rparr>)
       ((example_request ''GET'' ''/api/sessions'')\<lparr>rq_user_id := ''usr_a''\<rparr>) handle_list_sessions)"
  by (rule reads_confined)
     (simp_all add: reading_def visible_def example_server_def example_store_def owned_sessions_def init_default_quota_profiles_def
       empty_store_def example_session_def fun_eq_iff)

section \<open>Separation, quotas and accounts\<close>





text \<open>Only accounts have a quota: who is known by the trusted header alone can begin no turn.\<close>

lemma no_account_no_turn:
  assumes "conn_ok c" "u \<notin> us_user_id ` set (st_users (cx_db c))"
  shows "fst (snd (store_quota_begin_turn e c u sid)) \<noteq> 0"
proof -
  have "quota_ok (cx_db c)" using assms(1) by (simp add: conn_ok_def conn_all_def)
  then have "st_user_quota (cx_db c) u = None" using assms(2) by (auto simp: quota_ok_def)
  then have "quota_select e (cx_db c) u = None" by (simp add: quota_select_def profile_of_def)
  then show ?thesis by (auto simp: store_quota_begin_turn_def Let_def split: prod.split)
qed

text \<open>
  C5. A request without valid credentials reaches none but the four public endpoints: otherwise it is answered with
  a refusal or 401 and neither the store nor the jobs change.
\<close>

theorem unauthenticated_confined:
  assumes "\<not> snd (snd (auth_check he sv r))"
  shows "(\<exists>h ps. public h \<and> router_dispatch he sv r = run_handler he sv (r\<lparr>rq_params := ps\<rparr>) h)
    \<or> (let (sv', rep) = router_dispatch he sv r in
         (refusal rep \<or> rep = reply_401) \<and> sv_conn sv' = sv_conn sv \<and> sv_jobs sv' = sv_jobs sv)"
proof (cases rule: router_dispatch_cases [of he sv r])
  case (Refused rep)
  then show ?thesis by simp
next
  case (Unauthorized sv' r')
  then show ?thesis using auth_check_keeps [OF Unauthorized(1)] by simp
next
  case (Public h ps)
  then show ?thesis by blast
next
  case (Authorized h ps sv' r')
  then show ?thesis using assms by simp
qed

theorem unauthenticated_confined_witness:
  "let r = (example_request ''DELETE'' ''/api/sessions/s1'')\<lparr>rq_trust_user := None\<rparr> in
     snd (router_dispatch example_handler example_server r) = reply_401 \<and>
     sv_conn (fst (router_dispatch example_handler example_server r)) = sv_conn example_server"
proof -
  let ?r = "(example_request ''DELETE'' ''/api/sessions/s1'')\<lparr>rq_trust_user := None\<rparr>"
  have a: "auth_check example_handler example_server ?r = (example_server, ?r, False)"
    by (simp add: auth_check_def auth_bearer_def bearer_token_def fcgi_basic_decode_def example_request_def populate_request_def)
  have "\<not> snd (snd (auth_check example_handler example_server ?r))" by (simp add: a)
  note u = unauthenticated_confined [OF this]
  have m: "router_dispatch example_handler example_server ?r = (example_server, reply_401)"
    by (simp add: router_dispatch_def example_request_def populate_request_def ROUTES_def match_pattern_def match_loop.simps
        FCGI_MAX_PATH_PARAMS_def store_setup_required_def example_server_def example_handler_def example_call_def example_store_def
        init_default_quota_profiles_def empty_store_def example_user_def auth_check_def auth_bearer_def bearer_token_def
        fcgi_basic_decode_def Let_def)
  show ?thesis using u unfolding m by (simp add: Let_def m)
qed

definition admin_count :: "store \<Rightarrow> nat" where
  "admin_count s = length (filter (\<lambda>u. us_role u = ''admin'') (st_users s))"

lemma begin_users:
  assumes "conn_all (\<lambda>s. st_users s = us) c"
  shows "conn_all (\<lambda>s. st_users s = us) (fst (store_quota_begin_turn e c u sid))"
proof -
  have db: "st_users (cx_db c) = us" using assms by (simp add: conn_all_def)
  have b: "st_users (insert_running x s) = st_users s" for x s by (simp add: insert_running_def)
  show ?thesis using assms db
    by (auto simp: store_quota_begin_turn_def Let_def b intro!: conn_all_rollback conn_all_commit conn_all_setI
        split: prod.split option.split)
qed

lemma effect_users:
  assumes "store_effect u c c'" "owner_ok (cx_db c)" "cx_saved c = None"
  shows "st_users (cx_db c') = st_users (cx_db c)"
proof -
  define us where "us = st_users (cx_db c)"
  let ?P = "\<lambda>s. st_users s = us"
  have c: "conn_all ?P c" using assms(3) by (simp add: conn_all_def us_def)
  note bg = begin_users [OF c]
  have pub: "conn_all ?P c1 \<Longrightarrow> conn_all ?P (fst (events_publish e c1 sid t p))" for e c1 sid t p
    by (simp add: events_publish_def insert_event_def conn_all_def)
  have "conn_all ?P c'" using assms(1)
  proof cases
    case (Create e name model)
    show ?thesis
    proof (cases rule: store_create_session_cases [OF assms(2), of e u name model])
      case (2 s')
      then obtain f where s': "s' = (cx_db c)\<lparr>st_sessions := f, st_next_session := st_next_session s'\<rparr>" by blast
      have "?P s'" by (subst s') (simp add: us_def)
      then show ?thesis using 2(1) Create c by (simp add: conn_all_setI)
    next
      case (3 s' x)
      then obtain f where s': "s' = (cx_db c)\<lparr>st_sessions := f, st_next_session := st_next_session s'\<rparr>" by blast
      have "?P s'" by (subst s') (simp add: us_def)
      then show ?thesis using 3(1) Create c by (simp add: conn_all_setI set_owner_def)
    qed (use c Create in simp)
  next
    case (Delete sid e)
    have d: "d \<in> set del_tables \<Longrightarrow> ?P s \<Longrightarrow> ?P (d sid s)" for d s by (auto simp: del_tables_def)
    have c0: "conn_all ?P (sql_begin (ce_sql e 0) c)" using c by blast
    show ?thesis
    proof (cases rule: store_delete_session_cases [of e c sid u])
      case Rolled_Back
      then show ?thesis using c0 Delete by auto
    next
      case Partial
      have "conn_all ?P (fst (run_deletes e 5 del_tables sid (sql_begin (ce_sql e 0) c)))" using d c0 by (rule run_deletes_keeps)
      then show ?thesis using Partial Delete by auto
    next
      case (Deleted x)
      have "?P (foldl (\<lambda>s d. d sid s) (cx_db c) del_tables)" by (simp add: del_tables_def us_def)
      then have "conn_all ?P (upd (delete_session_rows (se_id x)) (upd (\<lambda>s. foldl (\<lambda>s d. d sid s) s del_tables) (sql_begin (ce_sql e 0) c)))"
        using c0 by (simp add: conn_all_def delete_session_rows_def Let_def)
      then show ?thesis using Deleted(3) Delete by auto
    qed
  next
    case (Undo sid e c1 tid e')
    then show ?thesis using bg [of e u sid] by (auto simp: store_quota_end_turn_def conn_all_def)
  next
    case (Node sid e bt c1 rc nid e' type payload)
    have "conn_all ?P c1" using Node(2) c by (auto simp: canvas_add_node_def conn_all_def Let_def split: if_splits)
    then show ?thesis using Node(3) pub by blast
  next
    case (Patch sid e nid bt c1 rc e' type payload)
    have "conn_all ?P c1" using Patch(2) c by (auto simp: canvas_patch_node_def conn_all_def Let_def split: if_splits)
    then show ?thesis using Patch(3) pub by blast
  qed (use c bg in \<open>auto simp: actions_enqueue_def conn_all_def\<close>)
  then show ?thesis by (simp add: conn_all_def us_def)
qed

lemma create_user_users:
  "st_users (cx_db (fst (store_create_user e c un pw role))) = st_users (cx_db c) \<or>
   (\<exists>u. st_users (cx_db (fst (store_create_user e c un pw role))) = st_users (cx_db c) @ [u] \<and> us_role u = role)"
proof -
  obtain r1 i1 where i: "fcgi_random_id (ce_entropy e 0) ''usr_'' 64 = (r1, i1)" by fastforce
  obtain r2 i2 where h: "fcgi_password_hash (ce_entropy e (Suc 0)) (Some pw) 192 = (r2, i2)" by fastforce
  show ?thesis by (auto simp: store_create_user_def i h Let_def insert_user_def)
qed

text \<open>
  C19. A request makes an administrator only while the check for the setup answers that no account is in use: then it is
  one more, and in every other case their number stays.
\<close>

theorem admins_by_setup:
  assumes "conn_ok (sv_conn sv)" "cx_saved (sv_conn sv) = None"
    "admin_count (cx_db (sv_conn (fst (router_dispatch he sv r)))) \<noteq> admin_count (cx_db (sv_conn sv))"
  shows "store_setup_required (he_call he 2) (sv_conn sv) \<and>
    admin_count (cx_db (sv_conn (fst (router_dispatch he sv r)))) = Suc (admin_count (cx_db (sv_conn sv)))"
proof -
  let ?c' = "sv_conn (fst (router_dispatch he sv r))"
  have o: "owner_ok (cx_db (sv_conn sv))" using assms(1) by (simp add: conn_ok_def conn_all_def)
  have "\<not> store_effect (identity he sv r) (sv_conn sv) ?c'"
    using effect_users [OF _ o assms(2)] assms(3) by (auto simp: admin_count_def)
  then have "account_created he (sv_conn sv) ?c'" using dispatch_effect by blast
  then obtain un pw role where c': "?c' = fst (store_create_user (he_call he 3) (sv_conn sv) un pw role)"
    "role = ''admin'' \<longrightarrow> store_setup_required (he_call he 2) (sv_conn sv)" by (auto simp: account_created_def)
  show ?thesis using create_user_users [of "he_call he 3" "sv_conn sv" un pw role] assms(3) c'
    by (auto simp: admin_count_def split: if_splits)
qed

definition install_handler :: "bool \<Rightarrow> handler_env" where
  "install_handler engine = example_handler\<lparr>
     he_parse := \<lambda>s. Some (cJSON_Object [(''username'', cJSON_String ''root''), (''password'', cJSON_String ''correct horse'')]),
     he_call := \<lambda>i. if i = 2 then example_call\<lparr>ce_sql := \<lambda>j. engine\<rparr> else example_call\<rparr>"

definition install_request :: request where
  "install_request = (example_request ''POST'' ''/api/install'')\<lparr>rq_trust_user := None\<rparr>"

lemma example_random_bytes:
  "morph_random_bytes \<lparr>dev_open = None, dev_read = \<lambda>i n. Inr (replicate n CHR ''A'')\<rparr> 16 = (0, replicate 16 CHR ''A'')"
  by (simp add: morph_random_bytes_def random_read_loop.simps)

lemma example_password: "\<exists>h. fcgi_password_hash (ce_entropy example_call i) (Some ''correct horse'') 192 = (0, Some h)"
  by (simp add: fcgi_password_hash_def example_call_def PWD_SALT_BYTES_def example_random_bytes Let_def show_iterations
      length_pbkdf2_sha256 PWD_HASH_BYTES_def)

definition example_id :: string where
  "example_id = ''usr_'' @ hex_encode (replicate 16 CHR ''A'')"

lemma example_user_id: "fcgi_random_id (ce_entropy example_call i) ''usr_'' 64 = (0, Some example_id)"
  by (simp add: fcgi_random_id_def morph_random_id_def morph_random_id_nbytes_def MORPH_RANDOM_ID_BYTES_MAX_def example_call_def
      example_random_bytes Let_def example_id_def)

text \<open>The installation makes the account when the check says so.\<close>

lemma install_makes_admin:
  assumes "store_setup_required (example_call\<lparr>ce_sql := \<lambda>j. engine\<rparr>) (sv_conn sv)"
    "\<forall>u \<in> set (st_users (cx_db (sv_conn sv))). us_username u \<noteq> ''root'' \<and> us_user_id u \<noteq> example_id"
  shows "admin_count (cx_db (sv_conn (fst (router_dispatch (install_handler engine) sv install_request)))) =
    Suc (admin_count (cx_db (sv_conn sv)))"
proof -
  have d: "router_dispatch (install_handler engine) sv install_request =
      run_install (install_handler engine) sv (install_request\<lparr>rq_params := []\<rparr>)"
    by (simp add: router_dispatch_def install_request_def example_request_def populate_request_def ROUTES_def match_pattern_def
        match_loop.simps run_handler_def)
  have b: "read_user_password (install_handler engine) (install_request\<lparr>rq_params := []\<rparr>) = Inr (''root'', ''correct horse'', None)"
    by (simp add: read_user_password_def fcgi_read_body_def install_handler_def example_handler_def install_request_def
        example_request_def populate_request_def cJSON_IsObject_def cJSON_GetStringValue_def cJSON_GetObjectItem_def
        case_insensitive_eq_def tolower_def)
  obtain h where h: "fcgi_password_hash (ce_entropy example_call (Suc 0)) (Some ''correct horse'') 192 = (0, Some h)"
    using example_password by blast
  have v: "username_valid ''root''" by (simp add: username_valid_def username_char_def char_ge_def)
  have ok: "ce_sql example_call j" for j by (simp add: example_call_def)
  have "admin_count (cx_db (fst (store_create_user example_call (sv_conn sv) ''root'' ''correct horse'' ''admin''))) =
      Suc (admin_count (cx_db (sv_conn sv)))"
    using assms(2) by (auto simp: store_create_user_def v example_user_id h ok str_of_def Let_def insert_user_def admin_count_def)
  then show ?thesis
    using assms(1) b by (simp add: d run_install_def create_account_conn) (simp add: install_handler_def)
qed

theorem admins_by_setup_witness:
  "store_setup_required (he_call (install_handler True) 2) (sv_conn (fresh_server None)) \<and>
   admin_count (cx_db (sv_conn (fst (router_dispatch (install_handler True) (fresh_server None) install_request)))) =
     Suc (admin_count (cx_db (sv_conn (fresh_server None))))"
proof (rule admins_by_setup)
  have u: "st_users (cx_db (sv_conn (fresh_server None))) = []"
    by (simp add: fresh_server_def auth_init_def init_default_quota_profiles_def empty_store_def)
  show "admin_count (cx_db (sv_conn (fst (router_dispatch (install_handler True) (fresh_server None) install_request))))
      \<noteq> admin_count (cx_db (sv_conn (fresh_server None)))"
    by (subst install_makes_admin) (simp_all add: u store_setup_required_def)
qed (rule fresh_conn_ok, simp add: fresh_server_def auth_init_def)

text \<open>The check also says so when the engine fails: then anyone becomes an administrator of a server in use.\<close>

lemma setup_check_fails_open:
  "length (st_users (cx_db (sv_conn example_server))) = 2 \<and> admin_count (cx_db (sv_conn example_server)) = 0 \<and>
   admin_count (cx_db (sv_conn (fst (router_dispatch (install_handler False) example_server install_request)))) = 1"
proof -
  have u: "st_users (cx_db (sv_conn example_server)) = [example_user ''usr_a'' ''alice'', example_user ''usr_b'' ''bob'']"
    by (simp add: example_server_def example_store_def)
  have i: "length example_id = 36" by (simp add: example_id_def)
  then have "length s = 5 \<Longrightarrow> example_id \<noteq> s" for s by auto
  then have ne: "example_id \<noteq> ''usr_a''" "example_id \<noteq> ''usr_b''" by simp_all
  have "admin_count (cx_db (sv_conn (fst (router_dispatch (install_handler False) example_server install_request)))) =
      Suc (admin_count (cx_db (sv_conn example_server)))"
    using i ne by (intro install_makes_admin) (auto simp: u store_setup_required_def example_user_def)
  then show ?thesis by (simp add: u admin_count_def example_user_def)
qed

end
