(* ===== verification/Fcgi_Tokens.thy ===== *)
theory Fcgi_Tokens
  imports Fcgi_Guarantees
begin

text \<open>
  Login tokens (\<open>auth.c\<close>, \<open>session_store.c\<close>): the cache as a finite map with a contract of its own
  (\<open>token_cache\<close>), the token files, and what a logout guarantees along every later run of the server.
\<close>

section \<open>The contract of the cache\<close>


section \<open>The hash table\<close>


lemma token_idx_less [simp]: "token_idx t < TOKEN_CACHE_SIZE"
  by (simp add: token_idx_def TOKEN_CACHE_SIZE_def)





lemma set_bucket_delete: "set (bucket_delete t b) \<subseteq> set b"
  by (induction b) auto

lemma bucket_delete:
  "distinct (map te_token b) \<Longrightarrow> distinct (map te_token (bucket_delete t b))"
  "distinct (map te_token b) \<Longrightarrow> find (\<lambda>e. te_token e = t') (bucket_delete t b) =
     (if t' = t then None else find (\<lambda>e. te_token e = t') b)"
proof (induction b)
  case (Cons e b)
  { case 1
    then show ?case using Cons.IH(1) set_bucket_delete [of t b] by auto }
  { case 2
    then show ?case using Cons.IH(2) by (auto simp: find_None_iff image_iff) }
qed simp_all



section \<open>What requests do to tokens\<close>

definition token_path :: "string \<Rightarrow> string" where
  "token_path t = SESS_DIR @ ''/'' @ t @ ''.json''"


lemma token_path_inj [simp]: "token_path t = token_path t' \<longleftrightarrow> t = t'"
  by (simp add: token_path_def)
















section \<open>Logging out\<close>
























end
