(* ===== verification/Spec2Isabelle.thy ===== *)
theory Spec2Isabelle
  imports Buf Strmap Base64 Utf8 Patch_Parse Patch_Match Patch_Apply Array Sse Tokenizer Compress Plan Arena Guardrail Permissions Turns
    Security_Vectors Fcgi_Tokens Fcgi_Events
begin

text \<open>
  Verification of the core of \<^verbatim>\<open>morph\<close>, a terminal-native agent written in C (sources under
  \<^verbatim>\<open>src/\<close>).

  \<^bold>\<open>The program.\<close>  A turn of the agent runs the ReAct loop (\<^verbatim>\<open>agent/react.c\<close>): the conversation
  (\<^verbatim>\<open>agent/context.c\<close>) is sent to a model, the answer arrives as server-sent events (\<^verbatim>\<open>http/sse.c\<close>), tool
  calls change the workspace (\<^verbatim>\<open>agent/patch.c\<close> is the tool that edits files) and the plan
  (\<^verbatim>\<open>agent/plan.c\<close>), guardrails (\<^verbatim>\<open>agent/guardrail.c\<close>) accept or reject inputs, tool results and answers,
  every path and command a tool uses passes the permission checks (\<^verbatim>\<open>agent/tool_context.c\<close>, over
  \<^verbatim>\<open>util/bash_parse.c\<close> and the table of lasting grants in \<^verbatim>\<open>db/permission_grant.c\<close>),
  and when the conversation grows too long it is counted (\<^verbatim>\<open>agent/tokenizer.c\<close>) and compressed
  (\<^verbatim>\<open>agent/compress.c\<close>).  The web front end (\<^verbatim>\<open>sapi/fastcgi\<close>) serves turns to many users: it authenticates
  requests, keeps accounts, quotas, sessions, artifacts, events and actions in a data base, and hands turns to threads.
  All of it stands on the containers and text routines of \<^verbatim>\<open>util/\<close>: byte
  buffers, arrays, the string map, the arena allocator, Base64, UTF-8 and random identifiers.

  \<^bold>\<open>Theories.\<close>
  \<^item> \<^verbatim>\<open>Prelude\<close>: C scalars, error codes, C strings, byte memory with uninitialised cells, shared lemmas.
  \<^item> \<^verbatim>\<open>Buf\<close> (\<^verbatim>\<open>util/buf.c\<close>): the growable byte buffer over a block of cells; sticky errors, capacity
    growth with wrap-around.  Contract of \<^verbatim>\<open>morph_buf_append\<close>; any run of calls refines a plain string.
  \<^item> \<^verbatim>\<open>Array\<close> (\<^verbatim>\<open>util/array.c\<close>): the growable array; interface \<^verbatim>\<open>element_store\<close>, refinement of a list.
  \<^item> \<^verbatim>\<open>Strmap\<close> (\<^verbatim>\<open>util/strmap.c\<close>): open addressing with tombstones; the table invariant (probe paths,
    load) gives termination of the probe and refinement of a finite map.
  \<^item> \<^verbatim>\<open>Arena\<close> (\<^verbatim>\<open>util/arena.c\<close>): regions, large blocks, cleanups.  Interface \<^verbatim>\<open>block_allocator\<close>: served requests
    give zeroed blocks apart from all others; destruction frees every buffer once.
  \<^item> \<^verbatim>\<open>Base64\<close> (\<^verbatim>\<open>util/base64.c\<close>): round trip and lengths.
  \<^item> \<^verbatim>\<open>Utf8\<close> (\<^verbatim>\<open>util/utf8.c\<close>, with the functions of the vendored \<^verbatim>\<open>utf8.h\<close> it calls): validation, decoding,
    clamping at code-point boundaries, sanitising in place and into a buffer.
  \<^item> \<^verbatim>\<open>Ids\<close> (\<^verbatim>\<open>util/id.c\<close>): the read loop over the random device, hexadecimal identifiers.
  \<^item> \<^verbatim>\<open>Paths\<close> (\<^verbatim>\<open>util/file.c\<close>): joining, expanding and resolving path names, the containment test.
  \<^item> \<^verbatim>\<open>Patch_Parse\<close>, \<^verbatim>\<open>Patch_Match\<close>, \<^verbatim>\<open>Patch_Apply\<close> (\<^verbatim>\<open>agent/patch.c\<close>, directory functions of \<^verbatim>\<open>util/file.c\<close>):
    the patch language, the search for the lines to replace, the splices, path checks, atomic writes
    and the application to a file system, with every system call that can fail.
  \<^item> \<^verbatim>\<open>Sse\<close> (\<^verbatim>\<open>http/sse.c\<close>): the stream parser, independent of how the transport cuts the stream.
  \<^item> \<^verbatim>\<open>Tokenizer\<close> (\<^verbatim>\<open>agent/tokenizer.c\<close>), \<^verbatim>\<open>Compress\<close> (\<^verbatim>\<open>agent/context.c\<close>, \<^verbatim>\<open>agent/compress.c\<close>): token
    estimates, sliding window, removal of ReAct cycles, key facts, summaries.
  \<^item> \<^verbatim>\<open>Plan\<close> (\<^verbatim>\<open>agent/plan.c\<close>): the plan registry as a state machine; interface \<^verbatim>\<open>id_service\<close>, provided by
    \<^verbatim>\<open>Ids\<close>; invariant of the tables, progress of a plan to its end, exact formatted text.
  \<^item> \<^verbatim>\<open>Guardrail\<close> (\<^verbatim>\<open>agent/guardrail.c\<close>): the rule registry, the built-in rules, model and extension rules,
    and the engine.
  \<^item> \<^verbatim>\<open>Bash_Parse\<close> (\<^verbatim>\<open>util/bash_parse.c\<close>): the commands of a shell line, from its syntax tree.
  \<^item> \<^verbatim>\<open>Grants\<close> (\<^verbatim>\<open>db/permission_grant.c\<close>): the table of lasting permissions; interface \<^verbatim>\<open>grant_store\<close>.
  \<^item> \<^verbatim>\<open>Tool_Context\<close> (\<^verbatim>\<open>agent/tool_context.c\<close>): allowed directories, command patterns, grants of turn, session and
    for good, and the checks of paths and commands, with the host as a parameter.  \<^verbatim>\<open>Permissions\<close>: what they
    guarantee - no change without consent, what each answer opens, the server policy, lifetimes, revocation, bounds.
  \<^item> \<^verbatim>\<open>Json\<close> (trees of \<^verbatim>\<open>vendor/cJSON.c\<close>, \<^verbatim>\<open>util/error.c\<close>), \<^verbatim>\<open>Tools\<close> (\<^verbatim>\<open>agent/tool.c\<close>): the tool registry over two
    string maps that may lose entries (interface \<^verbatim>\<open>lossy_index\<close>), refined to a plain table; user data destroyed once; the
    envelope of a tool result.
  \<^item> \<^verbatim>\<open>React_Stream\<close>, \<^verbatim>\<open>React\<close> (\<^verbatim>\<open>agent/react.c\<close>): the streaming of an answer and the whole turn - input guardrail,
    compression, iterations, approvals, starting and joining the tools of a round, repeated failures, output guardrail,
    prompts and cancellations from outside, in-turn compaction, outcome.  The model, the worker threads, the person, the
    history store and the allocator are the record \<open>env\<close>, asked at the ticks of a clock, so that any sequence of answers is
    covered.  \<^verbatim>\<open>Turns\<close>: one relation that every operation keeps carries the properties of a turn - it ends within its
    bounds with one outcome and one closing event, every conversation it sends is well formed, no tool starts against the
    person's will, and exactly repeated failures end it.
  \<^item> \<^verbatim>\<open>Security\<close> (\<^verbatim>\<open>sapi/fastcgi/security.c\<close>): SHA-256, HMAC and PBKDF2, stored passwords, \<open>Basic\<close>
    headers; \<^verbatim>\<open>Security_Vectors\<close>: the hash functions are those of the standards.  \<^verbatim>\<open>Fcgi_Store\<close> (\<^verbatim>\<open>session_store.c\<close>, the calls of \<^verbatim>\<open>session.c\<close>): the tables and
    every operation on them, each statement with its documented effect or its failure, transactions on the shared
    connection.  \<^verbatim>\<open>Fcgi\<close> (\<^verbatim>\<open>auth.c\<close>, \<^verbatim>\<open>router.c\<close>, \<^verbatim>\<open>fcgi_io.c\<close>, \<^verbatim>\<open>handlers/*.c\<close>, \<^verbatim>\<open>main.c\<close>): tokens
    and their cache, authentication, routes and endpoints.
  \<^item> \<^verbatim>\<open>Fcgi_Safety\<close>: the steps of the server, what a request can do to the store, and the invariants of the tables.
    \<^verbatim>\<open>Fcgi_Guarantees\<close>: separation of users in writing and reading, quotas, the need for credentials, administrators.
    \<^verbatim>\<open>Fcgi_Tokens\<close>: interface \<^verbatim>\<open>token_cache\<close>, and that a logout is final.  \<^verbatim>\<open>Fcgi_Events\<close>: interface
    \<^verbatim>\<open>keyed_queue\<close>, the event stream in order and the actions as queues.

  \<^bold>\<open>How code becomes definitions.\<close>  A struct is a record, an enumeration a datatype, a function one
  definition with the source's name and its branches in the source's order; helpers cut out of a long
  function are mapped to the lines they translate.  A return code is an integer, zero or a negated
  \<^verbatim>\<open>errno\<close>; an allocation, a system call, a callback or a library outside the repository is an argument or a
  field of an environment record, so every failure branch can be taken.  \<open>size_t\<close> is \<open>nat\<close> with the wrap-around
  written out; \<open>None\<close> at the outermost level is undefined behaviour (an access outside an object), and the theorems show
  it does not happen.  A linked list is a HOL list, a fixed character array the string it holds, a pointer into a table an
  index.  Memory is modelled as cells where the property is about memory (\<^verbatim>\<open>Buf\<close>, \<^verbatim>\<open>Arena\<close>, the
  in-place sanitiser of \<^verbatim>\<open>Utf8\<close>).

  \<^bold>\<open>Loops.\<close>  Loops are structural recursion or \<open>function\<close> with a measure.  The probe of the string map is
  \<open>partial_function (option)\<close> and shown to return on every well-formed table.  The token loop has
  fuel equal to the length of the text, enough because every turn consumes a byte.  The 16 tries of
  the identifier generator are the source's own bound, as are the iterations of a turn.

  \<^bold>\<open>Interfaces.\<close>  A locale states what a client relies on - \<^verbatim>\<open>element_store\<close>, \<^verbatim>\<open>block_allocator\<close>,
  \<^verbatim>\<open>id_service\<close>, \<^verbatim>\<open>grant_store\<close>, \<^verbatim>\<open>lossy_index\<close>, \<^verbatim>\<open>token_cache\<close>, \<^verbatim>\<open>keyed_queue\<close> and those of \<^verbatim>\<open>Strmap\<close> and \<^verbatim>\<open>Buf\<close> - and is interpreted on the definitions of the model.

  \<^bold>\<open>What the properties show.\<close>  Memory safety and refinement of the containers; round trips of Base64, patch
  documents and event streams; confinement and atomicity of file edits; exactness of the edits;
  termination and bounds of the text routines; the invariants and error codes of the registries; that
  compression keeps what it must; that guardrails reject exactly what their rules say; that permissions come
  from consent only, reach no further than the answer, and end when they are cleared or revoked; that a turn of
  the loop always ends as it should; that the web server keeps its users apart, within their quotas and behind their
  credentials, forgets a token at logout, and loses, repeats or reorders neither events nor actions.  Lemmas next to
  them record behaviour that departs from what the code intends: reading past a line that is not UTF-8,
  losing a file's text after a NUL, overlapping end-of-file chunks, losing the kept messages when memory is short, rule
  prompts that are cut, names stored cut but compared in full, a size that wraps in the arena, unresolved dots that count as
  inside, the root directory that contains nothing, a lasting answer to a deletion that no check reads, a failed start of a
  tool that is forgotten, a retry limit of zero that turns success into failure, an indented marker that streaming misses, a setup check that opens when the data base fails, trusted users without
  quota, an action delivered twice.

  \<^bold>\<open>Not modelled.\<close>  Printing of log and error messages; allocation failures where a comment in the theory says so;
  concurrency: the worker threads of a turn are answers of the environment when they are joined, other components are
  used by one thread at a time, and the web server's requests run one after the other although its workers share a
  connection.  The thread of a web turn and the pool of runtimes behind it, the health and quota reports.  Payloads of events and the text of the system prompt.  The parser and printer of JSON.
  Display widths and terminal sanitising in \<^verbatim>\<open>utf8.c\<close>; the BPE encoder; history, memory, sub-agents; configuration,
  database, messages of sessions, HTTP, MCP, models, sandbox, command line, rendering and synchronisation: these are mostly calls of
  SQLite, libcurl, cJSON, the kernel or the terminal.  The next parts worth modelling are the history store
  (\<^verbatim>\<open>agent/history.c\<close>) that the turn relies on, the tools around the permission checks
  (\<^verbatim>\<open>agent/tools/request_permissions.c\<close>, \<^verbatim>\<open>agent/tools/bash_exec.c\<close>), the terminal sanitiser, the
  skill parser and the schedule arithmetic of \<^verbatim>\<open>db/scheduled_task.c\<close>.
\<close>

end
